(* ===== verification/Prelude.thy ===== *)
theory Prelude
  imports Main "HOL-Library.Word" "HOL-Library.AList"
begin

text \<open>
  Shared vocabulary of the development: JavaScript strings and plain values, the
  insertion-ordered \<open>Map\<close> of the language (an association list updated in place or at
  the end), property lookup on object literals, and the error values every component
  throws. Facts the components share are collected in \<open>map_facts\<close> and \<open>list_facts\<close>.
\<close>

named_theorems map_facts "insertion-ordered maps"
named_theorems list_facts "lists the components fold over"

section \<open>JavaScript strings\<close>

text \<open>A JavaScript string is its sequence of UTF-16 code units; \<open>js\<close> writes a literal.\<close>

type_synonym jstr = "16 word list"

definition js :: "string \<Rightarrow> jstr" where
  "js s = map of_char s"

lemma js_simps [simp]: "js [] = []" "js (c # s) = of_char c # js s"
  by (simp_all add: js_def)

lemma length_js [simp]: "length (js s) = length s"
  by (simp add: js_def)

text \<open>\<open>String(n)\<close> for a non-negative integer.\<close>

fun digits_of :: "nat \<Rightarrow> jstr" where
  "digits_of n = (if n < 10 then [48 + of_nat n] else digits_of (n div 10) @ [48 + of_nat (n mod 10)])"

declare digits_of.simps [simp del]

definition js_of_int :: "int \<Rightarrow> jstr" where
  "js_of_int i = (if i < 0 then 45 # digits_of (nat (- i)) else digits_of (nat i))"

lemma digits_of_nonempty [simp]: "digits_of n \<noteq> []"
  by (subst digits_of.simps) simp

section \<open>Plain values\<close>

text \<open>
  The values the engine passes around untyped (\<open>unknown\<close>): what \<open>structuredClone\<close> keeps.
  Numbers are integers or one of the non-finite values; the engine only compares them.
  An object is its own enumerable string-keyed properties, in order.
\<close>

datatype jnum = Fin int | NaN | Inf bool

datatype jval =
    JUndef
  | JNull
  | JBool bool
  | JNum jnum
  | JStr jstr
  | JArr "jval list"
  | JObj "(jstr \<times> jval) list"

type_synonym jobj = "(jstr \<times> jval) list"

text \<open>\<open>o[field]\<close> on a data object; a missing own property reads \<open>undefined\<close>.\<close>

definition field :: "jobj \<Rightarrow> jstr \<Rightarrow> jval" where
  "field ob k = (case map_of ob k of Some v \<Rightarrow> v | None \<Rightarrow> JUndef)"

section \<open>Errors\<close>

text \<open>
  An \<open>AppError\<close> carries a code and a message and is permanent. Every other throw is
  \<open>OtherError\<close>, with a tag naming the throw; the engine treats it as transient.
\<close>

datatype err = AppError jstr jstr | OtherError string

type_synonym 'a res = "err + 'a"

definition bind_res :: "'a res \<Rightarrow> ('a \<Rightarrow> 'b res) \<Rightarrow> 'b res" where
  "bind_res r f = (case r of Inl e \<Rightarrow> Inl e | Inr a \<Rightarrow> f a)"

lemma bind_res_simps [simp]:
  "bind_res (Inl e) f = Inl e"
  "bind_res (Inr a) f = f a"
  by (simp_all add: bind_res_def)

lemma bind_res_Inr_iff: "bind_res r f = Inr b \<longleftrightarrow> (\<exists>a. r = Inr a \<and> f a = Inr b)"
  by (cases r) auto

lemma bind_res_Inl_iff: "bind_res r f = Inl e \<longleftrightarrow> r = Inl e \<or> (\<exists>a. r = Inr a \<and> f a = Inl e)"
  by (cases r) auto

section \<open>Property lookup on object literals\<close>

text \<open>
  \<open>registry[name]\<close> on an object literal finds an own property, else one of
  \<open>Object.prototype\<close>. The prototype's property names are those of the ECMAScript standard.
  \<open>proto_call_ok\<close> lists the ones that are functions which return normally when called with
  an object receiver and no argument.
\<close>

datatype 'a slot = Own 'a | Inherited jstr | Absent

definition proto_call_ok :: "jstr list" where
  "proto_call_ok = map js
     [''constructor'', ''hasOwnProperty'', ''isPrototypeOf'', ''propertyIsEnumerable'',
      ''toLocaleString'', ''toString'', ''valueOf'', ''__lookupGetter__'', ''__lookupSetter__'']"

definition proto_names :: "jstr list" where
  "proto_names = proto_call_ok @ map js [''__defineGetter__'', ''__defineSetter__'', ''__proto__'']"

definition prop_get :: "(jstr \<times> 'a) list \<Rightarrow> jstr \<Rightarrow> 'a slot" where
  "prop_get ob k = (case map_of ob k of
     Some v \<Rightarrow> Own v
   | None \<Rightarrow> if k \<in> set proto_names then Inherited k else Absent)"

lemma prop_get_Own_iff: "prop_get ob k = Own v \<longleftrightarrow> map_of ob k = Some v"
  by (auto simp: prop_get_def split: option.splits)

section \<open>Insertion-ordered maps\<close>

text \<open>
  A JavaScript \<open>Map\<close>: \<open>set\<close> replaces the value of a present key where it stands and appends
  an absent one (\<open>AList.update\<close>); \<open>delete\<close> removes the entry (\<open>AList.delete\<close>).
\<close>

lemma map_of_update [map_facts]: "map_of (AList.update k v m) = (map_of m)(k \<mapsto> v)"
  by (simp add: update_conv')

lemma map_of_delete [map_facts]: "map_of (AList.delete k m) = (map_of m)(k := None)"
  by (simp add: delete_conv')

lemma distinct_fst_update [intro]:
  "distinct (map fst m) \<Longrightarrow> distinct (map fst (AList.update k v m))"
  by (rule distinct_update)

lemma distinct_fst_delete [intro]:
  "distinct (map fst m) \<Longrightarrow> distinct (map fst (AList.delete k m))"
  by (rule distinct_delete)

lemma mem_map_of [map_facts]:
  "distinct (map fst m) \<Longrightarrow> (k, v) \<in> set m \<longleftrightarrow> map_of m k = Some v"
  by simp

lemma length_update_absent: "map_of m k = None \<Longrightarrow> length (AList.update k v m) = Suc (length m)"
  by (induction m) (auto split: if_splits)

lemma length_update_present: "map_of m k \<noteq> None \<Longrightarrow> length (AList.update k v m) = length m"
  by (induction m) (auto split: if_splits)

text \<open>Folding a step over a list, stopping at the first error (a \<open>for\<close> loop that may throw).\<close>

fun fold_res :: "('a \<Rightarrow> 's \<Rightarrow> 's res) \<Rightarrow> 'a list \<Rightarrow> 's \<Rightarrow> 's res" where
  "fold_res f [] s = Inr s"
| "fold_res f (x # xs) s = bind_res (f x s) (fold_res f xs)"

lemma fold_res_append [list_facts]:
  "fold_res f (xs @ ys) s = bind_res (fold_res f xs s) (fold_res f ys)"
  by (induction xs arbitrary: s) (auto simp: bind_res_def split: sum.splits)

lemma find_SomeD: "find P xs = Some x \<Longrightarrow> P x \<and> x \<in> set xs"
  by (auto simp: find_Some_iff)

lemma find_NoneD: "find P xs = None \<longleftrightarrow> list_all (\<lambda>x. \<not> P x) xs"
  by (auto simp: find_None_iff list_all_iff)

lemma fold_res_invariant:
  assumes "fold_res f xs s = Inr t" and "P s"
    and "\<And>x u v. x \<in> set xs \<Longrightarrow> P u \<Longrightarrow> f x u = Inr v \<Longrightarrow> P v"
  shows "P t"
  using assms
proof (induction xs arbitrary: s)
  case Nil
  then show ?case by simp
next
  case (Cons x xs)
  from Cons.prems(1) obtain u where u: "f x s = Inr u" "fold_res f xs u = Inr t"
    by (auto simp: bind_res_Inr_iff)
  have "P u" using Cons.prems(2,3) u(1) by (meson list.set_intros(1))
  with u(2) show ?case using Cons.IH Cons.prems(3) by (meson list.set_intros(2))
qed

end
