(* ===== verification/JsText.thy ===== *)
theory JsText
  imports Prelude
begin

text \<open>
  Text encodings the engine measures frames with: \<open>TextEncoder\<close> (UTF-8 of a UTF-16 string,
  a lone surrogate becoming U+FFFD), \<open>utf8ByteLength\<close> of server/src/frames.ts, which counts
  the same bytes without encoding, \<open>JSON.stringify\<close>, and \<open>jsonByteSize\<close> of
  protocol/src/chunk.ts.
\<close>

section \<open>TextEncoder\<close>

type_synonym u8 = "8 word"

definition high_surrogate :: "16 word \<Rightarrow> bool" where
  "high_surrogate c \<longleftrightarrow> 0xD800 \<le> c \<and> c \<le> 0xDBFF"

definition low_surrogate :: "16 word \<Rightarrow> bool" where
  "low_surrogate c \<longleftrightarrow> 0xDC00 \<le> c \<and> c \<le> 0xDFFF"

definition cont_byte :: "nat \<Rightarrow> u8" where
  "cont_byte n = of_nat (128 + n mod 64)"

definition enc2 :: "nat \<Rightarrow> u8 list" where
  "enc2 n = [of_nat (192 + n div 64), cont_byte n]"

definition enc3 :: "nat \<Rightarrow> u8 list" where
  "enc3 n = [of_nat (224 + n div 4096), cont_byte (n div 64), cont_byte n]"

definition enc4 :: "nat \<Rightarrow> u8 list" where
  "enc4 n = [of_nat (240 + n div 262144), cont_byte (n div 4096), cont_byte (n div 64), cont_byte n]"

definition pair_code :: "16 word \<Rightarrow> 16 word \<Rightarrow> nat" where
  "pair_code c d = 0x10000 + (unat c - 0xD800) * 1024 + (unat d - 0xDC00)"

definition replacement :: "u8 list" where
  "replacement = [0xEF, 0xBF, 0xBD]"

fun utf8 :: "jstr \<Rightarrow> u8 list" where
  "utf8 [] = []"
| "utf8 (c # cs) =
     (if c < 0x80 then of_nat (unat c) # utf8 cs
      else if c < 0x800 then enc2 (unat c) @ utf8 cs
      else if high_surrogate c then
        (case cs of
           [] \<Rightarrow> replacement
         | d # ds \<Rightarrow> if low_surrogate d then enc4 (pair_code c d) @ utf8 ds
                    else replacement @ utf8 cs)
      else if low_surrogate c then replacement @ utf8 cs
      else enc3 (unat c) @ utf8 cs)"

lemma length_enc [simp]:
  "length (enc2 n) = 2" "length (enc3 n) = 3" "length (enc4 n) = 4" "length replacement = 3"
  by (simp_all add: enc2_def enc3_def enc4_def replacement_def)

section \<open>utf8ByteLength\<close>

text \<open>
  The loop adds to \<open>text.length\<close> what each non-ASCII unit costs beyond one byte. A
  \<open>charCodeAt\<close> past the end is \<open>NaN\<close>, which no comparison accepts.
\<close>

fun utf8_count :: "jstr \<Rightarrow> nat \<Rightarrow> nat" where
  "utf8_count [] bytes = bytes"
| "utf8_count (c # cs) bytes =
     (if c < 0x80 then utf8_count cs bytes
      else if c < 0x800 then utf8_count cs (bytes + 1)
      else if high_surrogate c then
        (case cs of
           [] \<Rightarrow> bytes + 2
         | d # ds \<Rightarrow> if low_surrogate d then utf8_count ds (bytes + 2)
                    else utf8_count cs (bytes + 2))
      else utf8_count cs (bytes + 2))"

definition utf8ByteLength :: "jstr \<Rightarrow> nat" where
  "utf8ByteLength text =
     (if list_all (\<lambda>c. c < 0x80) text then length text
      else utf8_count text (length text))"

lemma length_utf8_ascii: "list_all (\<lambda>c. c < 0x80) s \<Longrightarrow> length (utf8 s) = length s"
  by (induction s) auto

lemma utf8_count_length: "utf8_count s b + length s = b + length (utf8 s)"
proof (induction s b rule: utf8_count.induct)
  case (1 b)
  then show ?case by simp
next
  case (2 c cs b)
  show ?case
  proof (cases cs)
    case Nil
    then show ?thesis by simp
  next
    case (Cons d ds)
    then show ?thesis
      using "2.IH" by (auto simp del: utf8.simps(2) utf8_count.simps(2)
        simp add: utf8.simps(2) [of c] utf8_count.simps(2) [of c] split: if_splits)
  qed
qed

lemma utf8ByteLength_utf8: "utf8ByteLength s = length (utf8 s)"
  using utf8_count_length [of s "length s"] by (simp add: utf8ByteLength_def length_utf8_ascii)

text \<open>Only a low surrogate can complete what stands before it.\<close>

lemma utf8_break: "\<not> low_surrogate c \<Longrightarrow> utf8 (s @ c # t) = utf8 s @ utf8 (c # t)"
proof (induction s rule: utf8.induct)
  case 1
  then show ?case by simp
next
  case (2 a as)
  show ?case
  proof (cases as)
    case Nil
    then show ?thesis using "2.prems" by (simp del: utf8.simps(2) add: utf8.simps(2) [of a])
  next
    case (Cons d ds)
    then show ?thesis
      using "2.IH" "2.prems"
      by (auto simp del: utf8.simps(2) simp add: utf8.simps(2) [of a] split: if_splits)
  qed
qed

section \<open>JSON.stringify\<close>

definition hex_digit :: "nat \<Rightarrow> 16 word" where
  "hex_digit n = of_nat (if n < 10 then 48 + n else 87 + n)"

definition unicode_escape :: "16 word \<Rightarrow> jstr" where
  "unicode_escape c =
     [0x5C, 0x75] @ map hex_digit [unat c div 4096, unat c div 256 mod 16, unat c div 16 mod 16, unat c mod 16]"

definition escape_unit :: "16 word \<Rightarrow> jstr" where
  "escape_unit c =
     (if c = 0x22 then [0x5C, 0x22]
      else if c = 0x5C then [0x5C, 0x5C]
      else if c = 0x08 then [0x5C, 0x62]
      else if c = 0x0C then [0x5C, 0x66]
      else if c = 0x0A then [0x5C, 0x6E]
      else if c = 0x0D then [0x5C, 0x72]
      else if c = 0x09 then [0x5C, 0x74]
      else if c < 0x20 then unicode_escape c
      else [c])"

text \<open>Paired surrogates are copied; a lone one is written as an escape.\<close>

fun escape_units :: "jstr \<Rightarrow> jstr" where
  "escape_units [] = []"
| "escape_units (c # cs) =
     (if high_surrogate c then
        (case cs of
           [] \<Rightarrow> unicode_escape c
         | d # ds \<Rightarrow> if low_surrogate d then c # d # escape_units ds
                    else unicode_escape c @ escape_units cs)
      else if low_surrogate c then unicode_escape c @ escape_units cs
      else escape_unit c @ escape_units cs)"

definition json_quote :: "jstr \<Rightarrow> jstr" where
  "json_quote s = 0x22 # escape_units s @ [0x22]"

fun join_with :: "jstr \<Rightarrow> jstr list \<Rightarrow> jstr" where
  "join_with sep [] = []"
| "join_with sep [x] = x"
| "join_with sep (x # y # xs) = x @ sep @ join_with sep (y # xs)"

definition comma :: jstr where "comma = js '',''"

text \<open>
  In an array \<open>undefined\<close> is written \<open>null\<close>; in an object such a property is left out.
  Non-finite numbers are \<open>null\<close>. Integers are written in decimal, which is what JavaScript
  does below \<open>10^21\<close>.
\<close>

function json_text :: "jval \<Rightarrow> jstr" where
  "json_text JUndef = js ''null''"
| "json_text JNull = js ''null''"
| "json_text (JBool b) = (if b then js ''true'' else js ''false'')"
| "json_text (JNum n) = (case n of Fin i \<Rightarrow> js_of_int i | _ \<Rightarrow> js ''null'')"
| "json_text (JStr s) = json_quote s"
| "json_text (JArr vs) = js ''['' @ join_with comma (map json_text vs) @ js '']''"
| "json_text (JObj kvs) =
     js ''{'' @ join_with comma
       (map (\<lambda>(k, v). json_quote k @ js '':'' @ json_text v) (filter (\<lambda>(k, v). v \<noteq> JUndef) kvs))
     @ js ''}''"
  by pat_completeness auto

lemma size_jval_obj: "(k, v) \<in> set kvs \<Longrightarrow> size v < size (JObj kvs)"
  by (induction kvs) auto

lemma size_jval_arr: "v \<in> set vs \<Longrightarrow> size v < size (JArr vs)"
  by (induction vs) auto

termination json_text
  by (relation "measure size") (auto dest: size_jval_obj size_jval_arr simp del: jval.size)

definition json_stringify :: "jval \<Rightarrow> jstr option" where
  "json_stringify v = (if v = JUndef then None else Some (json_text v))"

text \<open>\<open>TextEncoder.encode(undefined)\<close> encodes the empty string.\<close>

definition jsonByteSize :: "jval \<Rightarrow> nat" where
  "jsonByteSize v = (case json_stringify v of None \<Rightarrow> 0 | Some t \<Rightarrow> length (utf8 t))"

text \<open>The value \<open>JSON.parse\<close> returns on the text of \<open>v\<close> (for \<open>v\<close> other than \<open>undefined\<close>).\<close>

function json_value :: "jval \<Rightarrow> jval" where
  "json_value JUndef = JNull"
| "json_value JNull = JNull"
| "json_value (JBool b) = JBool b"
| "json_value (JNum n) = (case n of Fin i \<Rightarrow> JNum (Fin i) | _ \<Rightarrow> JNull)"
| "json_value (JStr s) = JStr s"
| "json_value (JArr vs) = JArr (map json_value vs)"
| "json_value (JObj kvs) =
     JObj (map (\<lambda>(k, v). (k, json_value v)) (filter (\<lambda>(k, v). v \<noteq> JUndef) kvs))"
  by pat_completeness auto

termination json_value
  by (relation "measure size") (auto dest: size_jval_obj size_jval_arr simp del: jval.size)

lemma json_value_defined [simp]: "json_value v \<noteq> JUndef"
  by (cases v) (auto split: jnum.splits)

lemma map_eq_text:
  "(\<And>k v. (k, v) \<in> set kvs \<Longrightarrow> f k (g v) = f k v) \<Longrightarrow>
   map (\<lambda>(k, v). f k v) (map (\<lambda>(k, v). (k, g v)) kvs) = map (\<lambda>(k, v). f k v) kvs"
  by auto

lemma json_text_json_value: "json_text (json_value v) = json_text v"
proof (induction v rule: json_value.induct)
  case (6 vs)
  then show ?case by (simp cong: map_cong)
next
  case (7 kvs)
  have nodrop: "filter (\<lambda>(k, v). v \<noteq> JUndef) (map (\<lambda>(k, v). (k, json_value v)) xs) =
      map (\<lambda>(k, v). (k, json_value v)) xs" for xs :: jobj
    by (induction xs) auto
  have "map (\<lambda>(k, v). json_quote k @ js '':'' @ json_text v)
          (map (\<lambda>(k, v). (k, json_value v)) (filter (\<lambda>(k, v). v \<noteq> JUndef) kvs)) =
        map (\<lambda>(k, v). json_quote k @ js '':'' @ json_text v) (filter (\<lambda>(k, v). v \<noteq> JUndef) kvs)"
    by (rule map_eq_text) (use "7.IH" in auto)
  then show ?case by (simp only: json_value.simps json_text.simps nodrop)
qed (auto split: jnum.splits)

lemma json_value_idem: "json_value (json_value v) = json_value v"
proof (induction v rule: json_value.induct)
  case (7 kvs)
  have nodrop: "filter (\<lambda>(k, v). v \<noteq> JUndef) (map (\<lambda>(k, v). (k, json_value v)) xs) =
      map (\<lambda>(k, v). (k, json_value v)) xs" for xs :: jobj
    by (induction xs) auto
  from "7.IH" show ?case by (force simp: nodrop map_eq_conv)
qed (auto split: jnum.splits)

text \<open>A JSON document: what \<open>JSON.parse\<close> can return.\<close>

definition is_json :: "jval \<Rightarrow> bool" where
  "is_json v \<longleftrightarrow> json_value v = v"

end
