(* ===== verification/Chunk.thy ===== *)
theory Chunk
  imports JsText
begin

text \<open>
  Frame packing: \<open>chunkBySize\<close> of protocol/src/chunk.ts, which the client packs its outbox
  with, and \<open>packPatch\<close> of server/src/frames.ts, which packs patch operations already
  rendered as JSON text. The locale \<open>packer\<close> states what both promise; each is an
  interpretation of it.
\<close>

section \<open>chunkBySize\<close>

datatype oversize = OversizeItemError nat nat

text \<open>\<open>maxItems\<close> left out is positive infinity, which no length reaches.\<close>

definition reaches :: "nat \<Rightarrow> nat option \<Rightarrow> bool" where
  "reaches n maxItems = (case maxItems of None \<Rightarrow> False | Some m \<Rightarrow> m \<le> n)"

fun chunk_loop ::
  "nat \<Rightarrow> nat option \<Rightarrow> ('a \<Rightarrow> nat) \<Rightarrow> 'a list \<Rightarrow> 'a list list \<Rightarrow> 'a list \<Rightarrow> nat
     \<Rightarrow> oversize + 'a list list" where
  "chunk_loop maxBytes maxItems sizeOf [] chunks current currentBytes =
     Inr (if current \<noteq> [] then chunks @ [current] else chunks)"
| "chunk_loop maxBytes maxItems sizeOf (item # items) chunks current currentBytes =
     (let bytes = sizeOf item in
      if maxBytes < bytes then Inl (OversizeItemError bytes maxBytes)
      else if current \<noteq> [] \<and> (maxBytes < currentBytes + bytes \<or> reaches (length current) maxItems)
      then chunk_loop maxBytes maxItems sizeOf items (chunks @ [current]) [item] bytes
      else chunk_loop maxBytes maxItems sizeOf items chunks (current @ [item]) (currentBytes + bytes))"

definition chunkBySize ::
  "nat \<Rightarrow> nat option \<Rightarrow> ('a \<Rightarrow> nat) \<Rightarrow> 'a list \<Rightarrow> oversize + 'a list list" where
  "chunkBySize maxBytes maxItems sizeOf items = chunk_loop maxBytes maxItems sizeOf items [] [] 0"

abbreviation weight :: "('a \<Rightarrow> nat) \<Rightarrow> 'a list \<Rightarrow> nat" where
  "weight sizeOf xs \<equiv> sum_list (map sizeOf xs)"

text \<open>What a chunk under construction and the finished chunks satisfy.\<close>

definition chunk_ok :: "nat \<Rightarrow> nat option \<Rightarrow> ('a \<Rightarrow> nat) \<Rightarrow> 'a list \<Rightarrow> bool" where
  "chunk_ok maxBytes maxItems sizeOf c \<longleftrightarrow>
     c \<noteq> [] \<and> weight sizeOf c \<le> maxBytes \<and> (case maxItems of None \<Rightarrow> True | Some m \<Rightarrow> length c \<le> max m 1)"

lemma chunk_loop_spec:
  assumes "list_all (chunk_ok maxBytes maxItems sizeOf) chunks"
    and "current = [] \<or> chunk_ok maxBytes maxItems sizeOf current"
    and "currentBytes = weight sizeOf current"
    and "chunk_loop maxBytes maxItems sizeOf items chunks current currentBytes = Inr out"
  shows "concat out = concat chunks @ current @ items \<and> list_all (chunk_ok maxBytes maxItems sizeOf) out"
  using assms
proof (induction maxBytes maxItems sizeOf items chunks current currentBytes rule: chunk_loop.induct)
  case (1 maxBytes maxItems sizeOf chunks current currentBytes)
  then show ?case by (auto split: if_splits)
next
  case (2 maxBytes maxItems sizeOf item items chunks current currentBytes)
  have small: "sizeOf item \<le> maxBytes"
    using "2.prems"(4) by (simp add: Let_def split: if_splits)
  then have nb: "\<not> maxBytes < sizeOf item" by simp
  have alone: "chunk_ok maxBytes maxItems sizeOf [item]"
    using small by (auto simp: chunk_ok_def split: option.splits)
  show ?case
  proof (cases "current \<noteq> [] \<and> (maxBytes < currentBytes + sizeOf item \<or> reaches (length current) maxItems)")
    case True
    have run: "chunk_loop maxBytes maxItems sizeOf items (chunks @ [current]) [item] (sizeOf item) = Inr out"
      using "2.prems"(4) small True by (simp add: Let_def)
    have "list_all (chunk_ok maxBytes maxItems sizeOf) (chunks @ [current])"
      using "2.prems"(1,2) True by simp
    from "2.IH"(1) [OF refl nb True this _ _ run] alone show ?thesis by simp
  next
    case False
    have run: "chunk_loop maxBytes maxItems sizeOf items chunks (current @ [item]) (currentBytes + sizeOf item) = Inr out"
      using "2.prems"(4) small False by (simp add: Let_def)
    have "chunk_ok maxBytes maxItems sizeOf (current @ [item])"
      using False small "2.prems"(2,3) by (auto simp: chunk_ok_def reaches_def split: option.splits)
    then have c: "current @ [item] = [] \<or> chunk_ok maxBytes maxItems sizeOf (current @ [item])" ..
    have "currentBytes + sizeOf item = weight sizeOf (current @ [item])"
      using "2.prems"(3) by simp
    from "2.IH"(2) [OF refl nb False "2.prems"(1) c this run] show ?thesis by simp
  qed
qed

lemma chunk_loop_error:
  "(\<exists>e. chunk_loop maxBytes maxItems sizeOf items chunks current currentBytes = Inl e)
     \<longleftrightarrow> (\<exists>x\<in>set items. maxBytes < sizeOf x)"
  by (induction maxBytes maxItems sizeOf items chunks current currentBytes rule: chunk_loop.induct)
    (auto simp: Let_def)

lemma chunk_loop_error_is:
  "chunk_loop maxBytes maxItems sizeOf items chunks current currentBytes = Inl e
     \<Longrightarrow> (\<exists>x\<in>set items. e = OversizeItemError (sizeOf x) maxBytes \<and> maxBytes < sizeOf x)"
  by (induction maxBytes maxItems sizeOf items chunks current currentBytes rule: chunk_loop.induct)
    (auto simp: Let_def split: if_splits)

text \<open>Greedy: a chunk is closed by bytes only when the next item would not fit.\<close>

fun adjacent_over :: "nat \<Rightarrow> ('a \<Rightarrow> nat) \<Rightarrow> 'a list list \<Rightarrow> bool" where
  "adjacent_over maxBytes sizeOf (c # d # cs) \<longleftrightarrow>
     maxBytes < weight sizeOf c + weight sizeOf d \<and> adjacent_over maxBytes sizeOf (d # cs)"
| "adjacent_over maxBytes sizeOf _ \<longleftrightarrow> True"

lemma adjacent_over_snoc:
  "adjacent_over maxBytes sizeOf (cs @ [c, d]) \<longleftrightarrow>
     adjacent_over maxBytes sizeOf (cs @ [c]) \<and> maxBytes < weight sizeOf c + weight sizeOf d"
proof (induction cs)
  case (Cons a cs)
  then show ?case by (cases cs) auto
qed simp

lemma adjacent_over_grow:
  "adjacent_over maxBytes sizeOf (cs @ [c]) \<Longrightarrow> weight sizeOf c \<le> weight sizeOf c'
     \<Longrightarrow> adjacent_over maxBytes sizeOf (cs @ [c'])"
proof (induction cs)
  case (Cons a cs)
  then show ?case by (cases cs) auto
qed simp

lemma chunk_loop_greedy:
  assumes "adjacent_over maxBytes sizeOf (if current = [] then chunks else chunks @ [current])"
    and "currentBytes = weight sizeOf current" and "current = [] \<Longrightarrow> chunks = []"
    and "chunk_loop maxBytes None sizeOf items chunks current currentBytes = Inr out"
  shows "adjacent_over maxBytes sizeOf out"
  using assms
proof (induction maxBytes "None :: nat option" sizeOf items chunks current currentBytes rule: chunk_loop.induct)
  case (1 maxBytes sizeOf chunks current currentBytes)
  then show ?case by (auto split: if_splits)
next
  case (2 maxBytes sizeOf item items chunks current currentBytes)
  have small: "\<not> maxBytes < sizeOf item"
    using "2.prems"(4) by (simp add: Let_def split: if_splits)
  show ?case
  proof (cases "current \<noteq> [] \<and> maxBytes < currentBytes + sizeOf item")
    case True
    then have t: "current \<noteq> [] \<and> (maxBytes < currentBytes + sizeOf item \<or> reaches (length current) None)"
      by simp
    have run: "chunk_loop maxBytes None sizeOf items (chunks @ [current]) [item] (sizeOf item) = Inr out"
      using "2.prems"(4) small True by (simp add: Let_def)
    have "adjacent_over maxBytes sizeOf (chunks @ [current, [item]])"
      using "2.prems"(1,2) True by (simp add: adjacent_over_snoc)
    then show ?thesis
      by (intro "2.hyps"(1) [OF refl small t _ _ _ run]) simp_all
  next
    case False
    then have f: "\<not> (current \<noteq> [] \<and> (maxBytes < currentBytes + sizeOf item \<or> reaches (length current) None))"
      by (simp add: reaches_def)
    have run: "chunk_loop maxBytes None sizeOf items chunks (current @ [item]) (currentBytes + sizeOf item) = Inr out"
      using "2.prems"(4) small False by (simp add: Let_def reaches_def)
    have "adjacent_over maxBytes sizeOf (chunks @ [current @ [item]])"
      using "2.prems"(1,3) adjacent_over_grow [of maxBytes sizeOf chunks current "current @ [item]"]
      by (cases "current = []") auto
    then show ?thesis
      using "2.prems"(2) by (intro "2.hyps"(2) [OF refl small f _ _ _ run]) simp_all
  qed
qed

lemma adjacent_over_count:
  "adjacent_over b sizeOf cs \<Longrightarrow> length cs div 2 * Suc b \<le> sum_list (map (weight sizeOf) cs)"
proof (induction cs rule: induct_list012)
  case (3 c d cs)
  have "adjacent_over b sizeOf cs" using 3(3) by (cases cs) auto
  with 3 show ?case by auto
qed auto

section \<open>The packer interface\<close>

text \<open>
  What the code that builds frames relies on: an error exactly when an item is over budget
  on its own, and otherwise a division of the items, in order, into non-empty groups within
  budget.
\<close>

locale packer =
  fixes pack :: "'a list \<Rightarrow> oversize + 'a list list"
    and cost :: "'a \<Rightarrow> nat"
    and budget :: nat
  assumes pack_concat: "pack xs = Inr cs \<Longrightarrow> concat cs = xs"
    and pack_fits: "pack xs = Inr cs \<Longrightarrow> c \<in> set cs \<Longrightarrow> c \<noteq> [] \<and> weight cost c \<le> budget"
    and pack_error: "(\<exists>e. pack xs = Inl e) \<longleftrightarrow> (\<exists>x\<in>set xs. budget < cost x)"
begin

lemma pack_total: "list_all (\<lambda>x. cost x \<le> budget) xs \<Longrightarrow> \<exists>cs. pack xs = Inr cs"
  using pack_error [of xs] by (cases "pack xs") (auto simp: list_all_iff not_less [symmetric])

lemma pack_Nil: "pack [] = Inr []"
proof -
  obtain cs where cs: "pack [] = Inr cs" using pack_total [of "[]"] by auto
  then have "cs = []" using pack_concat [OF cs] pack_fits [OF cs] by (cases cs) auto
  with cs show ?thesis by simp
qed

lemma pack_weight: "pack xs = Inr cs \<Longrightarrow> sum_list (map (weight cost) cs) = weight cost xs"
proof (drule pack_concat, clarify)
  show "sum_list (map (weight cost) cs) = weight cost (concat cs)" by (induction cs) auto
qed

lemma pack_count_le: assumes "pack xs = Inr cs" shows "length cs \<le> length xs"
proof -
  have "list_all (\<lambda>c. c \<noteq> []) cs" using pack_fits [OF assms] by (auto simp: list_all_iff)
  then have "length cs \<le> length (concat cs)"
    by (induction cs) (auto simp: Suc_le_eq add_strict_increasing)
  then show ?thesis using pack_concat [OF assms] by simp
qed

end

interpretation by_size: packer "chunkBySize maxBytes maxItems sizeOf" sizeOf maxBytes
  for maxBytes maxItems sizeOf
proof
  show "concat cs = xs" if "chunkBySize maxBytes maxItems sizeOf xs = Inr cs" for xs cs
    using chunk_loop_spec [of maxBytes maxItems sizeOf "[]" "[]" 0] that by (simp add: chunkBySize_def)
  show "c \<noteq> [] \<and> weight sizeOf c \<le> maxBytes"
    if "chunkBySize maxBytes maxItems sizeOf xs = Inr cs" "c \<in> set cs" for xs cs c
    using chunk_loop_spec [of maxBytes maxItems sizeOf "[]" "[]" 0] that
    by (auto simp: chunkBySize_def list_all_iff chunk_ok_def)
  show "(\<exists>e. chunkBySize maxBytes maxItems sizeOf xs = Inl e) \<longleftrightarrow> (\<exists>x\<in>set xs. maxBytes < sizeOf x)" for xs
    by (simp add: chunkBySize_def chunk_loop_error)
qed

lemma chunkBySize_items:
  "chunkBySize maxBytes (Some m) sizeOf xs = Inr cs \<Longrightarrow> c \<in> set cs \<Longrightarrow> length c \<le> max m 1"
  using chunk_loop_spec [of maxBytes "Some m" sizeOf "[]" "[]" 0 xs cs]
  by (auto simp: chunkBySize_def list_all_iff chunk_ok_def)

section \<open>packPatch\<close>

type_synonym OpJson = jstr

record PatchParts =
  parts :: "jstr list"
  counts :: "nat list"
  total :: nat

fun pack_loop ::
  "nat \<Rightarrow> OpJson list \<Rightarrow> jstr list \<Rightarrow> nat list \<Rightarrow> OpJson list \<Rightarrow> nat
     \<Rightarrow> oversize + (jstr list \<times> nat list)" where
  "pack_loop maxBytes [] ps ns current currentBytes =
     Inr (if current \<noteq> [] \<or> ps = []
          then (ps @ [join_with comma current], ns @ [length current])
          else (ps, ns))"
| "pack_loop maxBytes (op # ops) ps ns current currentBytes =
     (let bytes = utf8ByteLength op + 1 in
      if maxBytes < bytes then Inl (OversizeItemError bytes maxBytes)
      else if current \<noteq> [] \<and> maxBytes < currentBytes + bytes
      then pack_loop maxBytes ops (ps @ [join_with comma current]) (ns @ [length current]) [op] bytes
      else pack_loop maxBytes ops ps ns (current @ [op]) (currentBytes + bytes))"

definition packPatch :: "OpJson list \<Rightarrow> nat \<Rightarrow> oversize + PatchParts" where
  "packPatch ops maxBytes =
     (case pack_loop maxBytes ops [] [] [] 0 of
        Inl e \<Rightarrow> Inl e
      | Inr (ps, ns) \<Rightarrow> Inr \<lparr>parts = ps, counts = ns, total = length ops\<rparr>)"

definition op_cost :: "OpJson \<Rightarrow> nat" where
  "op_cost op = utf8ByteLength op + 1"

text \<open>The grouping \<open>packPatch\<close> makes, before each group is joined into a string.\<close>

definition patch_groups :: "OpJson list \<Rightarrow> nat \<Rightarrow> oversize + OpJson list list" where
  "patch_groups ops maxBytes = chunkBySize maxBytes None op_cost ops"

definition at_least_one :: "'a list list \<Rightarrow> 'a list list" where
  "at_least_one cs = (if cs = [] then [[]] else cs)"

lemma pack_loop_groups:
  "pack_loop maxBytes ops (map (join_with comma) gs) (map length gs) current n =
     map_sum id (\<lambda>cs. let cs = at_least_one cs in (map (join_with comma) cs, map length cs))
       (chunk_loop maxBytes None op_cost ops gs current n)"
proof (induction ops arbitrary: gs current n)
  case Nil
  then show ?case by (auto simp: at_least_one_def)
next
  case (Cons op ops)
  show ?case
    using Cons.IH [of "gs @ [current]" "[op]"] Cons.IH [of gs "current @ [op]"]
    by (simp add: Let_def op_cost_def reaches_def del: One_nat_def)
qed

lemma packPatch_groups:
  "packPatch ops maxBytes =
     map_sum id (\<lambda>cs. let cs = at_least_one cs in
        \<lparr>parts = map (join_with comma) cs, counts = map length cs, total = length ops\<rparr>)
       (patch_groups ops maxBytes)"
  using pack_loop_groups [of maxBytes ops "[]" "[]" 0]
  by (cases "chunk_loop maxBytes None op_cost ops [] [] 0")
    (auto simp: packPatch_def patch_groups_def chunkBySize_def Let_def)

interpretation patch: packer "\<lambda>ops. patch_groups ops maxBytes" op_cost maxBytes for maxBytes
  unfolding patch_groups_def by (rule by_size.packer_axioms)

lemma utf8_join_le: "length (utf8 (join_with comma ops)) \<le> weight op_cost ops"
proof (induction ops rule: induct_list012)
  case (3 x y xs)
  have "utf8 (x @ comma @ t) = utf8 x @ of_nat 0x2C # utf8 t" for t
    using utf8_break [of "0x2C" x t] by (simp add: comma_def low_surrogate_def)
  with 3 show ?case by (simp add: op_cost_def utf8ByteLength_utf8)
qed (auto simp: op_cost_def utf8ByteLength_utf8)

section \<open>Properties\<close>

text \<open>
  \<open>chunkBySize\<close> throws exactly when some item alone is over the byte budget, and then the
  error names that item's size and the budget. Otherwise its chunks, concatenated, are the
  items in order, no chunk is empty, every chunk is within the byte budget and the item
  limit, and a chunk is never closed while the following one could have joined it (with no
  item limit), so the number of chunks is at most about twice the optimum.
\<close>

theorem chunkBySize_correct:
  "case chunkBySize maxBytes maxItems sizeOf items of
     Inl e \<Rightarrow> (\<exists>x. x \<in> set items \<and> maxBytes < sizeOf x \<and> e = OversizeItemError (sizeOf x) maxBytes)
   | Inr cs \<Rightarrow>
       list_all (\<lambda>x. sizeOf x \<le> maxBytes) items \<and> concat cs = items \<and>
       list_all (\<lambda>c. c \<noteq> [] \<and> weight sizeOf c \<le> maxBytes) cs \<and>
       (case maxItems of
          None \<Rightarrow> adjacent_over maxBytes sizeOf cs \<and> length cs div 2 * Suc maxBytes \<le> weight sizeOf items
        | Some m \<Rightarrow> list_all (\<lambda>c. length c \<le> max m 1) cs)"
proof (cases "chunkBySize maxBytes maxItems sizeOf items")
  case (Inl e)
  then show ?thesis using chunk_loop_error_is [of maxBytes maxItems sizeOf items "[]" "[]" 0 e]
    by (auto simp: chunkBySize_def)
next
  case (Inr cs)
  have spec: "concat cs = items" "list_all (chunk_ok maxBytes maxItems sizeOf) cs"
    using chunk_loop_spec [of maxBytes maxItems sizeOf "[]" "[]" 0 items cs] Inr
    by (simp_all add: chunkBySize_def)
  have small: "list_all (\<lambda>x. sizeOf x \<le> maxBytes) items"
    using by_size.pack_error [of maxBytes maxItems sizeOf items] Inr
    by (auto simp: list_all_iff not_less [symmetric])
  have greedy: "adjacent_over maxBytes sizeOf cs" if "maxItems = None"
    using chunk_loop_greedy [of maxBytes sizeOf "[]" "[]" 0 items cs] Inr that
    by (simp add: chunkBySize_def)
  have "length cs div 2 * Suc maxBytes \<le> weight sizeOf items" if "maxItems = None"
    using adjacent_over_count [OF greedy [OF that]] by_size.pack_weight [OF Inr] by simp
  with spec small greedy Inr show ?thesis by (auto simp: chunk_ok_def list_all_iff split: option.splits)
qed

text \<open>The two ways a part of a patch is within the frame budget.\<close>

definition part_fits :: "nat \<Rightarrow> jstr \<Rightarrow> bool" where
  "part_fits maxBytes part \<longleftrightarrow> length (utf8 part) \<le> maxBytes"

text \<open>
  C36: \<open>packPatch\<close> throws exactly when one operation's text, with its comma, is over the
  budget. Otherwise the operations fall, in order, into groups; each part is one group joined
  by commas and takes at most \<open>maxBytes\<close> bytes of UTF-8, the counts are the groups' lengths
  and add up to \<open>total\<close>, the number of operations, and there is at least one part even for
  an empty patch.
\<close>

theorem packPatch_correct:
  "case packPatch ops maxBytes of
     Inl e \<Rightarrow> (\<exists>op. op \<in> set ops \<and> maxBytes < length (utf8 op) + 1)
   | Inr p \<Rightarrow>
       list_all (\<lambda>op. length (utf8 op) + 1 \<le> maxBytes) ops \<and>
       (\<exists>groups. concat groups = ops \<and> groups \<noteq> [] \<and>
          parts p = map (join_with comma) groups \<and> counts p = map length groups) \<and>
       list_all (part_fits maxBytes) (parts p) \<and>
       total p = length ops \<and> sum_list (counts p) = total p \<and> length (parts p) = length (counts p)"
proof (cases "patch_groups ops maxBytes")
  case (Inl e)
  then obtain op where "op \<in> set ops" "maxBytes < op_cost op"
    using patch.pack_error [of ops maxBytes] by auto
  then show ?thesis using Inl
    by (auto simp: packPatch_groups op_cost_def utf8ByteLength_utf8)
next
  case (Inr cs)
  let ?gs = "at_least_one cs"
  have cat: "concat ?gs = ops" using patch.pack_concat [OF Inr] by (auto simp: at_least_one_def)
  have fits: "part_fits maxBytes (join_with comma g)" if "g \<in> set ?gs" for g
  proof -
    have "weight op_cost g \<le> maxBytes"
      using patch.pack_fits [OF Inr, of g] that by (auto simp: at_least_one_def split: if_splits)
    then show ?thesis using utf8_join_le [of g] by (simp add: part_fits_def)
  qed
  have small: "list_all (\<lambda>op. length (utf8 op) + 1 \<le> maxBytes) ops"
    using patch.pack_error [of ops maxBytes] Inr
    by (auto simp: list_all_iff op_cost_def utf8ByteLength_utf8 Suc_le_eq not_less)
  have "?gs \<noteq> []" by (simp add: at_least_one_def)
  moreover have "sum_list (map length ?gs) = length ops"
    using cat by (simp add: length_concat [symmetric])
  ultimately show ?thesis
    using Inr cat fits small by (auto simp: packPatch_groups Let_def list_all_iff intro!: exI [of _ ?gs])
qed

end
