(* ===== verification/FieldFrames.thy ===== *)
theory FieldFrames
  imports JsText
begin

text \<open>
  The binary lane of Yjs fields, protocol/src/field-frames.ts: frames
  \<open>[type][id length, u16 big-endian][id, UTF-8][payload]\<close>, the STATE payload and the REJECT
  payload. \<open>TextDecoder\<close> is the non-fatal UTF-8 decoder of the Encoding Standard, which also
  drops a leading byte order mark.
\<close>

section \<open>TextDecoder\<close>

text \<open>\<open>needed\<close> continuation bytes of the code point \<open>cp\<close> are outstanding, the next in \<open>lo..hi\<close>.\<close>

definition unit_of :: "nat \<Rightarrow> jstr" where
  "unit_of cp =
     (if cp < 0x10000 then [of_nat cp]
      else [of_nat (0xD800 + (cp - 0x10000) div 1024), of_nat (0xDC00 + (cp - 0x10000) mod 1024)])"

definition bad_unit :: jstr where "bad_unit = [0xFFFD]"

function decode_loop :: "nat \<Rightarrow> nat \<Rightarrow> nat \<Rightarrow> nat \<Rightarrow> u8 list \<Rightarrow> jstr" where
  "decode_loop needed cp lo hi [] = (if needed = 0 then [] else bad_unit)"
| "decode_loop needed cp lo hi (b # bs) =
     (let n = unat b in
      if needed = 0 then
        (if n < 0x80 then unit_of n @ decode_loop 0 0 0x80 0xBF bs
         else if 0xC2 \<le> n \<and> n \<le> 0xDF then decode_loop 1 (n - 0xC0) 0x80 0xBF bs
         else if 0xE0 \<le> n \<and> n \<le> 0xEF then
           decode_loop 2 (n - 0xE0) (if n = 0xE0 then 0xA0 else 0x80) (if n = 0xED then 0x9F else 0xBF) bs
         else if 0xF0 \<le> n \<and> n \<le> 0xF4 then
           decode_loop 3 (n - 0xF0) (if n = 0xF0 then 0x90 else 0x80) (if n = 0xF4 then 0x8F else 0xBF) bs
         else bad_unit @ decode_loop 0 0 0x80 0xBF bs)
      else if n < lo \<or> hi < n then bad_unit @ decode_loop 0 0 0x80 0xBF (b # bs)
      else if needed = 1 then unit_of (cp * 64 + (n - 0x80)) @ decode_loop 0 0 0x80 0xBF bs
      else decode_loop (needed - 1) (cp * 64 + (n - 0x80)) 0x80 0xBF bs)"
  by pat_completeness auto

termination
  by (relation "measures [\<lambda>(needed, cp, lo, hi, bs). length bs, \<lambda>(needed, cp, lo, hi, bs). needed]") auto

definition utf8_decode :: "u8 list \<Rightarrow> jstr" where
  "utf8_decode bs =
     (case bs of
        b0 # b1 # b2 # rest \<Rightarrow>
          decode_loop 0 0 0x80 0xBF (if b0 = 0xEF \<and> b1 = 0xBB \<and> b2 = 0xBF then rest else bs)
      | _ \<Rightarrow> decode_loop 0 0 0x80 0xBF bs)"

text \<open>Text without lone surrogates.\<close>

fun well_formed :: "jstr \<Rightarrow> bool" where
  "well_formed [] = True"
| "well_formed (c # cs) =
     (if high_surrogate c then (case cs of [] \<Rightarrow> False | d # ds \<Rightarrow> low_surrogate d \<and> well_formed ds)
      else \<not> low_surrogate c \<and> well_formed cs)"

abbreviation dec :: "u8 list \<Rightarrow> jstr" where
  "dec bs \<equiv> decode_loop 0 0 0x80 0xBF bs"

definition lead_byte :: "nat \<Rightarrow> u8" where
  "lead_byte n = of_nat n"

lemma unat_lead: "n < 256 \<Longrightarrow> unat (lead_byte n) = n"
  by (simp add: lead_byte_def unat_of_nat)

lemma unat_cont [simp]: "unat (cont_byte n) = 128 + n mod 64"
  unfolding cont_byte_def using unat_lead [of "128 + n mod 64"] by (simp add: lead_byte_def)

lemma enc_lead:
  "enc2 n = [lead_byte (192 + n div 64), cont_byte n]"
  "enc3 n = [lead_byte (224 + n div 4096), cont_byte (n div 64), cont_byte n]"
  "enc4 n = [lead_byte (240 + n div 262144), cont_byte (n div 4096), cont_byte (n div 64), cont_byte n]"
  by (simp_all add: enc2_def enc3_def enc4_def lead_byte_def)

text \<open>One byte of the decoder at a time.\<close>

lemma dec_ascii: "unat b < 128 \<Longrightarrow> dec (b # bs) = of_nat (unat b) # dec bs"
  by (simp add: unit_of_def Let_def)

lemma dec_lead:
  "2 \<le> q \<Longrightarrow> q < 32 \<Longrightarrow> dec (lead_byte (192 + q) # bs) = decode_loop 1 q 0x80 0xBF bs"
  "q < 16 \<Longrightarrow> dec (lead_byte (224 + q) # bs) =
     decode_loop 2 q (if q = 0 then 0xA0 else 0x80) (if q = 13 then 0x9F else 0xBF) bs"
  "q \<le> 4 \<Longrightarrow> dec (lead_byte (240 + q) # bs) =
     decode_loop 3 q (if q = 0 then 0x90 else 0x80) (if q = 4 then 0x8F else 0xBF) bs"
  by (simp_all add: Let_def unat_lead)

lemma dec_cont:
  assumes "lo \<le> 128 + n mod 64" "128 + n mod 64 \<le> hi"
  shows "decode_loop (Suc (Suc k)) cp lo hi (cont_byte n # bs) =
      decode_loop (Suc k) (cp * 64 + n mod 64) 0x80 0xBF bs"
    and "decode_loop (Suc 0) cp lo hi (cont_byte n # bs) = unit_of (cp * 64 + n mod 64) @ dec bs"
  using assms by (simp_all add: Let_def del: mod_less_divisor)

lemma mod64: "128 + n mod 64 \<le> (0xBF :: nat)"
  using mod_less_divisor [of 64 n] by linarith

lemma split64:
  "n div 4096 * 64 + n div 64 mod 64 = n div (64 :: nat)"
  "n div 262144 * 64 + n div 4096 mod 64 = n div (4096 :: nat)"
  "n div 64 * 64 + n mod 64 = (n :: nat)"
proof -
  have "n div 4096 = n div 64 div 64" "n div 262144 = n div 4096 div 64"
    by (simp_all add: div_mult2_eq [symmetric])
  then show "n div 4096 * 64 + n div 64 mod 64 = n div 64"
    "n div 262144 * 64 + n div 4096 mod 64 = n div 4096" "n div 64 * 64 + n mod 64 = n"
    by (metis div_mult_mod_eq)+
qed

lemma dec_enc2:
  assumes "128 \<le> n" "n < 0x800" shows "dec (enc2 n @ bs) = of_nat n # dec bs"
proof -
  have "2 \<le> n div 64" "n div 64 < 32" using assms by linarith+
  then show ?thesis
    using assms dec_cont(2) [of 128 n "0xBF" "n div 64" bs] mod64 [of n]
    by (simp add: enc_lead dec_lead split64 unit_of_def del: decode_loop.simps)
qed

lemma dec_enc3:
  assumes "0x800 \<le> n" "n < 0x10000" "n < 0xD800 \<or> 0xDFFF < n"
  shows "dec (enc3 n @ bs) = of_nat n # dec bs"
proof -
  let ?q = "n div 4096" and ?r = "n div 64 mod 64"
  have q: "?q < 16" using assms by linarith
  have s: "?q * 64 + ?r = n div 64" by (rule split64)
  have r: "?q = 0 \<Longrightarrow> 32 \<le> ?r" "?q = 13 \<Longrightarrow> ?r \<le> 31"
    using s assms by linarith+
  have "decode_loop 2 ?q (if ?q = 0 then 0xA0 else 0x80) (if ?q = 13 then 0x9F else 0xBF)
      (cont_byte (n div 64) # cont_byte n # bs) = decode_loop 1 (n div 64) 0x80 0xBF (cont_byte n # bs)"
    using dec_cont(1) [of "if ?q = 0 then 0xA0 else 0x80" "n div 64" "if ?q = 13 then 0x9F else 0xBF" 0]
      r mod64 [of "n div 64"] s by (simp add: numeral_2_eq_2 del: decode_loop.simps)
  moreover have "decode_loop 1 (n div 64) 0x80 0xBF (cont_byte n # bs) = unit_of n @ dec bs"
    using dec_cont(2) [of 128 n "0xBF" "n div 64" bs] mod64 [of n] by (simp add: split64 del: decode_loop.simps)
  ultimately show ?thesis
    using q assms by (simp add: enc_lead dec_lead unit_of_def del: decode_loop.simps)
qed

lemma dec_enc4:
  assumes "0x10000 \<le> n" "n < 0x110000"
  shows "dec (enc4 n @ bs) = unit_of n @ dec bs"
proof -
  let ?q = "n div 262144" and ?r = "n div 4096 mod 64"
  have q: "?q \<le> 4" using assms by linarith
  have s: "?q * 64 + ?r = n div 4096" by (rule split64)
  have r: "?q = 0 \<Longrightarrow> 16 \<le> ?r" "?q = 4 \<Longrightarrow> ?r \<le> 15"
    using s assms by linarith+
  have "decode_loop 3 ?q (if ?q = 0 then 0x90 else 0x80) (if ?q = 4 then 0x8F else 0xBF)
      (cont_byte (n div 4096) # cont_byte (n div 64) # cont_byte n # bs) =
      decode_loop 2 (n div 4096) 0x80 0xBF (cont_byte (n div 64) # cont_byte n # bs)"
    using dec_cont(1) [of "if ?q = 0 then 0x90 else 0x80" "n div 4096" "if ?q = 4 then 0x8F else 0xBF" 1]
      r mod64 [of "n div 4096"] s by (simp add: numeral_2_eq_2 numeral_3_eq_3 del: decode_loop.simps)
  moreover have "decode_loop 2 (n div 4096) 0x80 0xBF (cont_byte (n div 64) # cont_byte n # bs) =
      decode_loop 1 (n div 64) 0x80 0xBF (cont_byte n # bs)"
    using dec_cont(1) [of 128 "n div 64" "0xBF" 0] mod64 [of "n div 64"]
    by (simp add: split64 numeral_2_eq_2 del: decode_loop.simps)
  moreover have "decode_loop 1 (n div 64) 0x80 0xBF (cont_byte n # bs) = unit_of n @ dec bs"
    using dec_cont(2) [of 128 n "0xBF" "n div 64" bs] mod64 [of n] by (simp add: split64 del: decode_loop.simps)
  ultimately show ?thesis
    using q by (simp add: enc_lead dec_lead del: decode_loop.simps)
qed

lemma unit_of_pair:
  assumes "high_surrogate c" "low_surrogate d"
  shows "unit_of (pair_code c d) = [c, d]" "0x10000 \<le> pair_code c d" "pair_code c d < 0x110000"
proof -
  have c: "0xD800 \<le> unat c" "unat c \<le> 0xDBFF"
    using assms(1) by (simp_all add: high_surrogate_def word_le_nat_alt)
  have d: "0xDC00 \<le> unat d" "unat d \<le> 0xDFFF"
    using assms(2) by (simp_all add: low_surrogate_def word_le_nat_alt)
  have "pair_code c d - 0x10000 = (unat d - 0xDC00) + (unat c - 0xD800) * 1024" "unat d - 0xDC00 < 1024"
    using d by (simp_all add: pair_code_def)
  then have q: "(pair_code c d - 0x10000) div 1024 = unat c - 0xD800"
    "(pair_code c d - 0x10000) mod 1024 = unat d - 0xDC00"
    by simp_all
  have "0xD800 + (unat c - 0xD800) = unat c" "0xDC00 + (unat d - 0xDC00) = unat d"
    using c d by simp_all
  then show "unit_of (pair_code c d) = [c, d]"
    unfolding unit_of_def q by (simp add: pair_code_def del: of_nat_add)
  from c d show "0x10000 \<le> pair_code c d" "pair_code c d < 0x110000"
    by (simp_all add: pair_code_def)
qed

lemma dec_utf8: "well_formed s \<Longrightarrow> dec (utf8 s) = s"
proof (induction s rule: utf8.induct)
  case 1
  then show ?case by simp
next
  case (2 c cs)
  have u: "of_nat (unat c) = c" by simp
  have n: "unat c < 0x10000" using unsigned_less [of c] by simp
  have lt: "c < 0x80 \<longleftrightarrow> unat c < 128" "c < 0x800 \<longleftrightarrow> unat c < 0x800"
    by (simp_all add: word_less_nat_alt)
  have hs: "high_surrogate c \<longleftrightarrow> 0xD800 \<le> unat c \<and> unat c \<le> 0xDBFF"
    "low_surrogate c \<longleftrightarrow> 0xDC00 \<le> unat c \<and> unat c \<le> 0xDFFF"
    by (simp_all add: high_surrogate_def low_surrogate_def word_le_nat_alt)
  consider "unat c < 128" | "128 \<le> unat c" "unat c < 0x800"
    | "high_surrogate c" | "0x800 \<le> unat c" "\<not> high_surrogate c"
    by linarith
  then show ?case
  proof cases
    case 1
    then have "unat (of_nat (unat c) :: u8) = unat c" using unat_lead [of "unat c"] by (simp add: lead_byte_def)
    with 1 2 show ?thesis by (simp add: lt hs dec_ascii del: decode_loop.simps)
  next
    case 2
    with "2.IH"(2) "2.prems" show ?thesis by (simp add: lt hs dec_enc2 del: decode_loop.simps)
  next
    case 3
    then obtain d ds where cs: "cs = d # ds" "low_surrogate d" "well_formed ds"
      using "2.prems" by (auto split: list.splits)
    with 3 have "dec (utf8 ds) = ds" using "2.IH"(3) by (auto simp: lt hs)
    with 3 cs show ?thesis
      using unit_of_pair [of c d] by (simp add: lt hs dec_enc4 del: decode_loop.simps)
  next
    case 4
    with "2.prems" have "\<not> low_surrogate c" "well_formed cs" by auto
    with 4 n "2.IH"(6) show ?thesis by (auto simp: lt hs dec_enc3 simp del: decode_loop.simps)
  qed
qed

lemma utf8_decode_utf8:
  assumes "well_formed s" "take 1 s \<noteq> [0xFEFF]"
  shows "utf8_decode (utf8 s) = s"
proof -
  have "utf8 s \<noteq> 0xEF # 0xBB # 0xBF # rest" for rest
  proof
    assume h: "utf8 s = 0xEF # 0xBB # 0xBF # rest"
    have "dec (0xEF # 0xBB # 0xBF # rest) = 0xFEFF # dec rest" by (simp add: Let_def unit_of_def)
    then have "s = 0xFEFF # dec rest" using dec_utf8 [OF assms(1)] unfolding h by simp
    with assms(2) show False by simp
  qed
  then have "utf8_decode (utf8 s) = dec (utf8 s)"
    by (auto simp: utf8_decode_def simp del: decode_loop.simps split: list.splits if_splits)
  with dec_utf8 [OF assms(1)] show ?thesis by simp
qed

section \<open>Frames\<close>

definition FIELD_MSG_GET :: u8 where "FIELD_MSG_GET = 1"
definition FIELD_MSG_STATE :: u8 where "FIELD_MSG_STATE = 2"
definition FIELD_MSG_UPDATE :: u8 where "FIELD_MSG_UPDATE = 3"
definition FIELD_MSG_REJECT :: u8 where "FIELD_MSG_REJECT = 4"
definition MAX_FIELD_UPDATE_BYTES :: nat where "MAX_FIELD_UPDATE_BYTES = 200000"
definition MAX_FIELD_BYTES :: nat where "MAX_FIELD_BYTES = 700000"
definition MAX_FIELD_ID_BYTES :: nat where "MAX_FIELD_ID_BYTES = 256"
definition FIELD_STATE_WRITABLE :: u8 where "FIELD_STATE_WRITABLE = 1"

datatype FieldRejectReason = NotWritable | Frozen | TooLarge

record FieldFrame =
  msgType :: u8
  fieldId :: jstr
  payload :: "u8 list"

text \<open>\<open>setUint16\<close> and \<open>getUint16\<close>, big-endian; \<open>setUint16\<close> stores the value modulo \<open>2^16\<close>.\<close>

definition put_u16 :: "nat \<Rightarrow> u8 list" where
  "put_u16 n = [of_nat (n div 256), of_nat n]"

definition get_u16 :: "u8 \<Rightarrow> u8 \<Rightarrow> nat" where
  "get_u16 h l = unat h * 256 + unat l"

lemma length_put_u16 [simp]: "length (put_u16 n) = 2"
  by (simp add: put_u16_def)

lemma u16_roundtrip: "n < 65536 \<Longrightarrow> get_u16 (of_nat (n div 256)) (of_nat n) = n"
  by (simp add: get_u16_def unat_of_nat)

lemma put_get_u16: "put_u16 (get_u16 h l) = [h, l]"
proof -
  have "unat l < 256" "unat h < 256" using unsigned_less [of l] unsigned_less [of h] by simp_all
  then have d: "get_u16 h l div 256 = unat h" "get_u16 h l mod 256 = unat l"
    by (simp_all add: get_u16_def)
  have "(of_nat (get_u16 h l) :: u8) = of_nat (get_u16 h l mod 256)"
    by (rule word_unat_eq_iff [THEN iffD2]) (simp add: unat_of_nat)
  then show ?thesis by (simp add: put_u16_def d)
qed

lemma get_u16_less: "get_u16 h l < 65536"
proof -
  have "unat l < 256" "unat h < 256" using unsigned_less [of l] unsigned_less [of h] by simp_all
  then show ?thesis by (simp add: get_u16_def)
qed

definition encodeFieldFrame :: "u8 \<Rightarrow> jstr \<Rightarrow> u8 list \<Rightarrow> u8 list res" where
  "encodeFieldFrame t i p =
     (let idBytes = utf8 i in
      if length idBytes = 0 \<or> MAX_FIELD_ID_BYTES < length idBytes then Inl (OtherError ''fieldId length'')
      else Inr (t # put_u16 (length idBytes) @ idBytes @ p))"

definition decodeFieldFrame :: "u8 list \<Rightarrow> FieldFrame option" where
  "decodeFieldFrame bytes =
     (case bytes of
        t # h # l # rest \<Rightarrow>
          if t < FIELD_MSG_GET \<or> FIELD_MSG_REJECT < t then None
          else
            let idLen = get_u16 h l in
            if idLen = 0 \<or> MAX_FIELD_ID_BYTES < idLen \<or> length bytes < 3 + idLen then None
            else Some \<lparr>msgType = t, fieldId = utf8_decode (take idLen rest), payload = drop idLen rest\<rparr>
      | _ \<Rightarrow> None)"

definition valid_type :: "u8 \<Rightarrow> bool" where
  "valid_type t \<longleftrightarrow> FIELD_MSG_GET \<le> t \<and> t \<le> FIELD_MSG_REJECT"

record FieldState =
  writable :: bool
  stateVector :: "u8 list"
  diff :: "u8 list"

definition encodeFieldState :: "FieldState \<Rightarrow> u8 list res" where
  "encodeFieldState st =
     (if 0xFFFF < length (stateVector st) then Inl (OtherError ''state vector exceeds u16 length'')
      else Inr ((if writable st then FIELD_STATE_WRITABLE else 0)
                # put_u16 (length (stateVector st)) @ stateVector st @ diff st))"

definition decodeFieldState :: "u8 list \<Rightarrow> FieldState option" where
  "decodeFieldState p =
     (case p of
        flags # h # l # rest \<Rightarrow>
          let svLen = get_u16 h l in
          if length p < 3 + svLen then None
          else Some \<lparr>writable = (and flags FIELD_STATE_WRITABLE \<noteq> 0),
                     stateVector = take svLen rest, diff = drop svLen rest\<rparr>
      | _ \<Rightarrow> None)"

fun REJECT_CODES :: "FieldRejectReason \<Rightarrow> u8" where
  "REJECT_CODES NotWritable = 1"
| "REJECT_CODES Frozen = 2"
| "REJECT_CODES TooLarge = 3"

definition REJECT_REASONS :: "u8 \<Rightarrow> FieldRejectReason option" where
  "REJECT_REASONS c = (if c = 1 then Some NotWritable else if c = 2 then Some Frozen
     else if c = 3 then Some TooLarge else None)"

definition encodeFieldReject :: "FieldRejectReason \<Rightarrow> u8 list" where
  "encodeFieldReject r = [REJECT_CODES r]"

definition decodeFieldReject :: "u8 list \<Rightarrow> FieldRejectReason option" where
  "decodeFieldReject p = (case p of [c] \<Rightarrow> REJECT_REASONS c | _ \<Rightarrow> None)"

section \<open>Properties\<close>

lemma decode_encode_frame:
  assumes "encodeFieldFrame t i p = Inr bytes" "valid_type t"
  shows "decodeFieldFrame bytes = Some \<lparr>msgType = t, fieldId = utf8_decode (utf8 i), payload = p\<rparr>"
  using assms
  by (auto simp: encodeFieldFrame_def decodeFieldFrame_def valid_type_def put_u16_def Let_def
      u16_roundtrip MAX_FIELD_ID_BYTES_def not_less split: if_splits)

text \<open>
  The decoder accepts exactly the frames of the documented layout: a byte string is
  decoded iff it is a type byte 1..4, the big-endian length of the id, 1..256 bytes of id, and
  the payload; and what it returns is that type, the decoded id and that payload.
\<close>

theorem decodeFieldFrame_iff:
  "decodeFieldFrame bytes = Some f \<longleftrightarrow>
     (\<exists>idb. bytes = msgType f # put_u16 (length idb) @ idb @ payload f \<and>
        1 \<le> length idb \<and> length idb \<le> MAX_FIELD_ID_BYTES \<and>
        valid_type (msgType f) \<and> f = \<lparr>msgType = msgType f, fieldId = utf8_decode idb, payload = payload f\<rparr>)"
    (is "?l \<longleftrightarrow> ?r")
proof
  assume ?l
  then obtain t h l rest where b: "bytes = t # h # l # rest" "valid_type t"
      "1 \<le> get_u16 h l" "get_u16 h l \<le> MAX_FIELD_ID_BYTES" "get_u16 h l \<le> length rest"
      "f = \<lparr>msgType = t, fieldId = utf8_decode (take (get_u16 h l) rest), payload = drop (get_u16 h l) rest\<rparr>"
    by (auto simp: decodeFieldFrame_def valid_type_def Let_def not_less Suc_le_eq split: list.splits if_splits)
  then show ?r
    by (intro exI [of _ "take (get_u16 h l) rest"]) (auto simp: put_get_u16 min_absorb2)
next
  assume ?r
  then show ?l
    by (auto simp: decodeFieldFrame_def valid_type_def put_u16_def Let_def u16_roundtrip
        MAX_FIELD_ID_BYTES_def)
qed

text \<open>
  What is left of an id after the wire: \<open>TextEncoder\<close> writes a lone surrogate as U+FFFD, and
  \<open>TextDecoder\<close> drops a leading byte order mark.
\<close>

fun scrub :: "jstr \<Rightarrow> jstr" where
  "scrub [] = []"
| "scrub (c # cs) =
     (if high_surrogate c then
        (case cs of
           [] \<Rightarrow> [0xFFFD]
         | d # ds \<Rightarrow> if low_surrogate d then c # d # scrub ds else 0xFFFD # scrub cs)
      else (if low_surrogate c then 0xFFFD else c) # scrub cs)"

definition received_id :: "jstr \<Rightarrow> jstr" where
  "received_id i = (let s = scrub i in if take 1 s = [0xFEFF] then tl s else s)"

lemma surrogates_apart: "high_surrogate c \<Longrightarrow> \<not> low_surrogate c"
  by (auto simp: high_surrogate_def low_surrogate_def word_le_nat_alt)

lemma bad_unit_plain: "\<not> high_surrogate 0xFFFD" "\<not> low_surrogate 0xFFFD" "\<not> (0xFFFD :: 16 word) < 0x80" "\<not> (0xFFFD :: 16 word) < 0x800"
  by (simp_all add: high_surrogate_def low_surrogate_def)

lemma utf8_bad_unit: "utf8 (0xFFFD # cs) = replacement @ utf8 cs"
  using bad_unit_plain by (simp add: enc3_def cont_byte_def replacement_def)

lemma scrub_well_formed: "well_formed (scrub s)"
  by (induction s rule: scrub.induct) (auto simp: bad_unit_plain split: list.split)

lemma scrub_length: "length (scrub s) = length s"
  by (induction s rule: scrub.induct) (auto split: list.split)

lemma scrub_id: "scrub s = s \<longleftrightarrow> well_formed s"
proof
  assume "scrub s = s"
  with scrub_well_formed [of s] show "well_formed s" by (simp only:)
next
  show "well_formed s \<Longrightarrow> scrub s = s"
  proof (induction s rule: scrub.induct)
    case (2 c cs)
    then show ?case by (cases "high_surrogate c"; cases cs) simp_all
  qed simp
qed

lemma surrogate_large: "high_surrogate c \<or> low_surrogate c \<Longrightarrow> \<not> c < 0x80 \<and> \<not> c < 0x800"
  by (auto simp: high_surrogate_def low_surrogate_def word_le_nat_alt word_less_nat_alt)

lemma utf8_scrub: "utf8 (scrub s) = utf8 s"
proof (induction s rule: scrub.induct)
  case (2 c cs)
  consider (pair) d ds where "high_surrogate c" "cs = d # ds" "low_surrogate d"
    | (lone) "high_surrogate c" "\<not> (\<exists>d ds. cs = d # ds \<and> low_surrogate d)" | (low) "low_surrogate c" "\<not> high_surrogate c"
    | (plain) "\<not> high_surrogate c" "\<not> low_surrogate c" by blast
  then show ?case
  proof cases
    case pair
    then show ?thesis using "2.IH"(1) surrogate_large [of c] by simp
  next
    case lone
    then have "scrub (c # cs) = 0xFFFD # scrub cs" by (cases cs) auto
    moreover have "utf8 (scrub cs) = utf8 cs" using lone "2.IH"(2) by (cases cs) auto
    moreover have "utf8 (c # cs) = replacement @ utf8 cs" using lone surrogate_large [of c] by (cases cs) auto
    ultimately show ?thesis by (simp only: utf8_bad_unit)
  next
    case low
    then show ?thesis using "2.IH"(3) surrogate_large [of c] by (simp only: scrub.simps if_False if_True utf8_bad_unit) simp
  qed (use "2.IH"(3) in simp)
qed simp

lemma utf8_mark: "utf8 (0xFEFF # s) = 0xEF # 0xBB # 0xBF # utf8 s"
  by (simp add: enc3_def cont_byte_def high_surrogate_def low_surrogate_def)

lemma decode_received: "utf8_decode (utf8 i) = received_id i"
proof (cases "take 1 (scrub i) = [0xFEFF]")
  case True
  then obtain s where s: "scrub i = 0xFEFF # s" by (cases "scrub i") auto
  have "\<not> high_surrogate 0xFEFF" by (simp add: high_surrogate_def)
  then have "well_formed s" using scrub_well_formed [of i] by (simp add: s)
  then have "utf8_decode (0xEF # 0xBB # 0xBF # utf8 s) = s" by (simp add: utf8_decode_def dec_utf8 del: decode_loop.simps)
  moreover have "utf8 i = 0xEF # 0xBB # 0xBF # utf8 s" using utf8_scrub [of i] unfolding s utf8_mark by (rule sym)
  ultimately show ?thesis by (simp add: s received_id_def del: utf8.simps)
next
  case False
  then show ?thesis using utf8_decode_utf8 [OF scrub_well_formed False] by (simp add: utf8_scrub received_id_def)
qed

lemma received_same: "received_id i = i \<longleftrightarrow> well_formed i \<and> take 1 i \<noteq> [0xFEFF]"
proof -
  have "received_id i \<noteq> i" if "take 1 (scrub i) = [0xFEFF]"
  proof
    assume "received_id i = i"
    then have "length (tl (scrub i)) = length i" using that by (simp add: received_id_def)
    then show False using that scrub_length [of i] by (cases "scrub i") auto
  qed
  note marked = this
  show ?thesis
  proof (cases "take 1 (scrub i) = [0xFEFF]")
    case True
    then show ?thesis using marked scrub_id [of i] by metis
  next
    case False
    then have "received_id i = scrub i" by (simp add: received_id_def)
    then show ?thesis using False scrub_id [of i] by metis
  qed
qed

text \<open>
  C37: The codec of frames is exact for every id. A frame is encoded iff the id's UTF-8 has 1 to
  256 bytes; it is decoded to the type and payload it was built from and to the id with each
  lone surrogate replaced by U+FFFD and a leading byte order mark dropped - so to the same id
  exactly when it has no lone surrogate and does not start with that mark.
\<close>

theorem fieldFrame_roundtrip:
  assumes "valid_type t"
  shows "(case encodeFieldFrame t i p of
       Inl e \<Rightarrow> utf8 i = [] \<or> MAX_FIELD_ID_BYTES < length (utf8 i)
     | Inr bytes \<Rightarrow> 1 \<le> length (utf8 i) \<and> length (utf8 i) \<le> MAX_FIELD_ID_BYTES \<and>
         decodeFieldFrame bytes = Some \<lparr>msgType = t, fieldId = received_id i, payload = p\<rparr>) \<and>
    (received_id i = i \<longleftrightarrow> well_formed i \<and> take 1 i \<noteq> [0xFEFF])"
proof (cases "encodeFieldFrame t i p")
  case (Inl e)
  then show ?thesis by (auto simp: received_same encodeFieldFrame_def Let_def split: if_splits)
next
  case (Inr bytes)
  then have "1 \<le> length (utf8 i)" "length (utf8 i) \<le> MAX_FIELD_ID_BYTES"
    by (auto simp: encodeFieldFrame_def Let_def Suc_le_eq split: if_splits)
  then show ?thesis using decode_encode_frame [OF Inr assms] Inr by (simp add: received_same decode_received)
qed

text \<open>A two-byte id, with a byte outside ASCII, and the frame it makes.\<close>

theorem fieldFrame_roundtrip_witness:
  "decodeFieldFrame [3, 0, 2, 0xC3, 0xA9, 7] = Some \<lparr>msgType = 3, fieldId = [0xE9], payload = [7]\<rparr>"
proof -
  have e: "encodeFieldFrame 3 [0xE9] [7] = Inr [3, 0, 2, 0xC3, 0xA9, 7]"
    by (simp add: encodeFieldFrame_def MAX_FIELD_ID_BYTES_def put_u16_def enc2_def cont_byte_def Let_def)
  have w: "well_formed [0xE9]" by (simp add: high_surrogate_def low_surrogate_def)
  have v: "valid_type 3" by (simp add: valid_type_def FIELD_MSG_GET_def FIELD_MSG_REJECT_def)
  show ?thesis using fieldFrame_roundtrip [OF v, of "[0xE9]" "[7]"] w by (simp add: e del: well_formed.simps utf8.simps)
qed

text \<open>
  The byte order mark is the exception: a field id that starts with one is encoded, and
  the receiver reads a different field id, the same without the mark.
\<close>

theorem fieldFrame_bom_lost:
  "encodeFieldFrame FIELD_MSG_UPDATE (0xFEFF # js ''a'') [] = Inr [3, 0, 4, 0xEF, 0xBB, 0xBF, 0x61] \<and>
   map_option fieldId (decodeFieldFrame [3, 0, 4, 0xEF, 0xBB, 0xBF, 0x61]) = Some (js ''a'')"
  by (simp add: encodeFieldFrame_def decodeFieldFrame_def valid_type_def FIELD_MSG_GET_def
      FIELD_MSG_UPDATE_def FIELD_MSG_REJECT_def MAX_FIELD_ID_BYTES_def put_u16_def get_u16_def
      enc3_def cont_byte_def high_surrogate_def low_surrogate_def utf8_decode_def unit_of_def Let_def)

text \<open>
  The STATE payload round-trips: whenever the encoder accepts a state, decoding its bytes
  gives that state back; it refuses exactly a state vector longer than 65535 bytes.
\<close>

theorem fieldState_roundtrip:
  "case encodeFieldState st of
     Inl e \<Rightarrow> 0xFFFF < length (stateVector st)
   | Inr bytes \<Rightarrow> length (stateVector st) \<le> 0xFFFF \<and> decodeFieldState bytes = Some st"
  by (cases st) (simp add: encodeFieldState_def decodeFieldState_def put_u16_def Let_def u16_roundtrip
      FIELD_STATE_WRITABLE_def)

text \<open>
  The REJECT payload is a one-byte code: a payload decodes to a reason iff it is exactly
  what the encoder writes for that reason.
\<close>

theorem fieldReject_iff: "decodeFieldReject p = Some r \<longleftrightarrow> p = encodeFieldReject r"
  by (cases r) (auto simp: decodeFieldReject_def encodeFieldReject_def REJECT_REASONS_def
      split: list.splits if_splits)

end
