(* ===== verification/Ids.thy ===== *)
theory Ids
  imports JsText
begin

text \<open>
  Deterministic ids, protocol/src/ids.ts. \<open>Math.imul\<close>, \<open>^\<close>, \<open>>>>\<close> and \<open>| 0\<close> work on 32-bit
  patterns, so the generator's state is four 32-bit words and all arithmetic wraps.
\<close>

unbundle bit_operations_syntax

type_synonym u32 = "32 word"
type_synonym prng = "u32 \<times> u32 \<times> u32 \<times> u32"

fun hash_loop :: "jstr \<Rightarrow> prng \<Rightarrow> prng" where
  "hash_loop [] hs = hs"
| "hash_loop (ch # s) (h1, h2, h3, h4) =
     (let k = ucast ch;
          h1 = h2 XOR ((h1 XOR k) * 597399067);
          h2 = h3 XOR ((h2 XOR k) * 2869860233);
          h3 = h4 XOR ((h3 XOR k) * 951274213);
          h4 = h1 XOR ((h4 XOR k) * 2716044179)
      in hash_loop s (h1, h2, h3, h4))"

definition hashSeed :: "jstr \<Rightarrow> prng" where
  "hashSeed seed =
     (let (h1, h2, h3, h4) = hash_loop seed (1779033703, 3144134277, 1013904242, 2773480762);
          h1 = (h3 XOR drop_bit 18 h1) * 597399067;
          h2 = (h4 XOR drop_bit 22 h2) * 2869860233;
          h3 = (h1 XOR drop_bit 17 h3) * 951274213;
          h4 = (h2 XOR drop_bit 19 h4) * 2716044179
      in (h1 XOR h2 XOR h3 XOR h4, h2 XOR h1, h3 XOR h1, h4 XOR h1))"

text \<open>One step of \<open>sfc32\<close>: the word it returns and the next state.\<close>

fun sfc32 :: "prng \<Rightarrow> u32 \<times> prng" where
  "sfc32 (a, b, c, d) =
     (let t = a + b + d
      in (t, (b XOR drop_bit 9 b, c + push_bit 3 c, (push_bit 21 c OR drop_bit 11 c) + t, d + 1)))"

definition word_bytes :: "u32 \<Rightarrow> u8 list" where
  "word_bytes w = [ucast (drop_bit 24 w), ucast (drop_bit 16 w AND 0xff), ucast (drop_bit 8 w AND 0xff),
                   ucast (w AND 0xff)]"

definition HEX :: "u8 \<Rightarrow> jstr" where
  "HEX b = [hex_digit (unat b div 16), hex_digit (unat b mod 16)]"

fun hex_out :: "nat \<Rightarrow> u8 list \<Rightarrow> jstr" where
  "hex_out i [] = []"
| "hex_out i (b # bs) = (if i = 4 \<or> i = 6 \<or> i = 8 \<or> i = 10 then [0x2D] else []) @ HEX b @ hex_out (Suc i) bs"

definition stamp :: "u8 list \<Rightarrow> jstr" where
  "stamp bytes =
     (let bytes = bytes[6 := (bytes ! 6 AND 0x0f) OR 0x40];
          bytes = bytes[8 := (bytes ! 8 AND 0x3f) OR 0x80]
      in hex_out 0 bytes)"

text \<open>The closure \<open>createIdSource\<close> returns: a call turns the state into an id and the next state.\<close>

definition next_id :: "prng \<Rightarrow> jstr \<times> prng" where
  "next_id s0 =
     (let (w0, s1) = sfc32 s0; (w1, s2) = sfc32 s1; (w2, s3) = sfc32 s2; (w3, s4) = sfc32 s3
      in (stamp (concat (map word_bytes [w0, w1, w2, w3])), s4))"

definition createIdSource :: "jstr \<Rightarrow> prng" where
  "createIdSource seed = hashSeed seed"

text \<open>The ids of the first \<open>n\<close> calls of a generator.\<close>

fun ids_from :: "nat \<Rightarrow> prng \<Rightarrow> jstr list" where
  "ids_from 0 s = []"
| "ids_from (Suc n) s = (let (i, s') = next_id s in i # ids_from n s')"

definition is_hex :: "16 word \<Rightarrow> bool" where
  "is_hex c \<longleftrightarrow> (0x30 \<le> c \<and> c \<le> 0x39) \<or> (0x61 \<le> c \<and> c \<le> 0x66)"

text \<open>A version 4, variant 1 UUID in lower case.\<close>

definition uuid_shape :: "jstr \<Rightarrow> bool" where
  "uuid_shape s \<longleftrightarrow> length s = 36 \<and>
     list_all (\<lambda>i. if i \<in> {8, 13, 18, 23} then s ! i = 0x2D else is_hex (s ! i)) [0..<36] \<and>
     s ! 14 = 0x34 \<and> s ! 19 \<in> {0x38, 0x39, 0x61, 0x62}"

lemma word_bytes_length [simp]: "length (word_bytes w) = 4"
  by (simp add: word_bytes_def)

lemma is_hex_digit: "n < 16 \<Longrightarrow> is_hex (hex_digit n)"
proof -
  assume "n < 16"
  then have "n \<in> set [0..<16]" by simp
  moreover have "list_all (\<lambda>n. is_hex (hex_digit n)) [0..<16]" by code_simp
  ultimately show ?thesis by (simp only: list_all_iff)
qed

lemma HEX_hex: "HEX b = [x, y] \<Longrightarrow> is_hex x \<and> is_hex y"
proof -
  assume h: "HEX b = [x, y]"
  have "unat b < 256" using unsigned_less [of b] by simp
  then have "unat b div 16 < 16" "unat b mod 16 < 16" by simp_all
  with h show ?thesis by (auto simp: HEX_def is_hex_digit)
qed

lemma high_nibble: "unat (w :: u8) div 16 = unat (drop_bit 4 w)"
  by (simp add: drop_bit_eq_div unat_div)

lemma version_digit: "HEX ((b AND 0x0f) OR 0x40) ! 0 = 0x34"
  by (simp add: HEX_def high_nibble drop_bit_and drop_bit_or hex_digit_def)

lemma variant_digit: "HEX ((b AND 0x3f) OR 0x80) ! 0 \<in> {0x38, 0x39, 0x61, 0x62}"
proof -
  define c where "c = drop_bit 4 b AND 3"
  have "c = take_bit 2 (drop_bit 4 b)"
    by (simp add: c_def take_bit_eq_mask mask_eq_exp_minus_1)
  then have "unat c < 2 ^ 2"
    using take_bit_nat_less_exp [of 2 "unat (drop_bit 4 b)"] by (simp add: unsigned_take_bit_eq)
  then have "unat c \<in> {0, 1, 2, 3}" by auto
  then have "c \<in> {0, 1, 2, 3}"
    by (auto simp: word_unat_eq_iff)
  then show ?thesis
    by (auto simp: HEX_def high_nibble drop_bit_and drop_bit_or hex_digit_def c_def [symmetric])
qed

lemma hex_out_16:
  assumes "length bs = 16" "bs ! 6 = (v AND 0x0f) OR 0x40" "bs ! 8 = (u AND 0x3f) OR 0x80"
  shows "uuid_shape (hex_out 0 bs)"
proof -
  obtain b0 b1 b2 b3 b4 b5 b6 b7 b8 b9 b10 b11 b12 b13 b14 b15 where
    bs: "bs = [b0, b1, b2, b3, b4, b5, b6, b7, b8, b9, b10, b11, b12, b13, b14, b15]"
    using assms(1) by (auto simp: numeral_eq_Suc length_Suc_conv)
  obtain x y where h: "\<And>b. HEX b = [x b, y b]" by (auto simp: HEX_def)
  have hex: "is_hex (x b) \<and> is_hex (y b)" for b using HEX_hex [OF h] .
  have "x b6 = 0x34" using version_digit [of v] assms(2) by (simp add: bs h)
  moreover have "x b8 \<in> {0x38, 0x39, 0x61, 0x62}" using variant_digit [of u] assms(3) by (simp add: bs h)
  ultimately show ?thesis
    using hex [of b6] by (simp add: uuid_shape_def bs h hex upt_rec nth_Cons')
qed

lemma stamp_uuid: "length bytes = 16 \<Longrightarrow> uuid_shape (stamp bytes)"
  unfolding stamp_def Let_def by (rule hex_out_16) auto

lemma next_id_uuid: "next_id s = (i, s') \<Longrightarrow> uuid_shape i"
  by (auto simp: next_id_def Let_def stamp_uuid simp del: sfc32.simps split: prod.splits)

text \<open>The counter word of the state changes at every call, so the state does not soon recur.\<close>

fun counter :: "prng \<Rightarrow> u32" where
  "counter (a, b, c, d) = d"

lemma counter_sfc32: "counter (snd (sfc32 s)) = counter s + 1"
  by (cases s) (simp add: Let_def)

lemma counter_next_id: "counter (snd (next_id s)) = counter s + 4"
proof -
  have "snd (next_id s) = snd (sfc32 (snd (sfc32 (snd (sfc32 (snd (sfc32 s)))))))"
    by (simp add: next_id_def Let_def split: prod.splits)
  then show ?thesis by (simp add: counter_sfc32 del: sfc32.simps)
qed

lemma counter_iterate: "counter (((snd \<circ> next_id) ^^ n) s) = counter s + 4 * of_nat n"
  by (induction n) (simp_all add: counter_next_id algebra_simps)

lemma counter_distinct:
  assumes "i < j" "j - i < 2 ^ 30"
  shows "((snd \<circ> next_id) ^^ i) s \<noteq> ((snd \<circ> next_id) ^^ j) s"
proof
  assume "((snd \<circ> next_id) ^^ i) s = ((snd \<circ> next_id) ^^ j) s"
  then have "(4 * of_nat i :: u32) = 4 * of_nat j"
    using counter_iterate [of i s] counter_iterate [of j s] by simp
  then have "(4 * of_nat (j - i) :: u32) = 0" using assms(1) by (simp add: of_nat_diff right_diff_distrib)
  then have "(of_nat (4 * (j - i)) :: u32) = 0" by simp
  then have "2 ^ 32 dvd 4 * (j - i)" unfolding word_of_nat_eq_0_iff by simp
  with assms show False by (auto dest: dvd_imp_le)
qed

text \<open>
  Every id a generator yields, at any call and from any seed, has the shape of a lower-case
  version 4 UUID: 36 characters, hyphens at the four places, hexadecimal digits elsewhere,
  version digit 4 and variant digit 8, 9, a or b.
\<close>

theorem ids_are_uuids: "list_all uuid_shape (ids_from n (createIdSource seed))"
proof -
  have "list_all uuid_shape (ids_from n s)" for s
    by (induction n arbitrary: s)
      (simp_all add: Let_def next_id_uuid split: prod.splits)
  then show ?thesis .
qed

end
