(* ===== verification/Messages.thy ===== *)
theory Messages
  imports JsText
begin

text \<open>
  The wire protocol, protocol/src/messages.ts: limits and close codes, close reasons,
  cursors, and the message schemas. A schema is a decoder from a parsed JSON value to the
  message it accepts; a message is sent as the object literal \<open>enc\<close> builds. \<open>int()\<close> of the
  schema library accepts safe integers; an object schema ignores unknown keys.
\<close>

section \<open>Limits and close codes\<close>

definition PROTOCOL_VERSION :: int where "PROTOCOL_VERSION = 2"
definition MAX_FRAME_BYTES :: nat where "MAX_FRAME_BYTES = 900000"
definition MAX_PART_PATCH_BYTES :: nat where "MAX_PART_PATCH_BYTES = 850000"
definition MAX_ROW_BYTES :: nat where "MAX_ROW_BYTES = 700000"
definition MAX_PRESENCE_BYTES :: nat where "MAX_PRESENCE_BYTES = 8192"
definition KEEPALIVE_PING :: jstr where "KEEPALIVE_PING = js ''{\"type\":\"ping\"}''"
definition KEEPALIVE_PONG :: jstr where "KEEPALIVE_PONG = js ''{\"type\":\"pong\"}''"
definition CLOSE_PERMANENT_MIN :: int where "CLOSE_PERMANENT_MIN = 4400"
definition CLOSE_PERMANENT_MAX :: int where "CLOSE_PERMANENT_MAX = 4499"
definition CLOSE_VERSION_NOT_SUPPORTED :: int where "CLOSE_VERSION_NOT_SUPPORTED = 4400"
definition CLOSE_AUTH_CONTEXT_INVALID :: int where "CLOSE_AUTH_CONTEXT_INVALID = 4401"
definition CLOSE_UNAUTHORIZED :: int where "CLOSE_UNAUTHORIZED = 4403"
definition CLOSE_SUPERSEDED :: int where "CLOSE_SUPERSEDED = 4409"
definition CLOSE_REFRESH :: int where "CLOSE_REFRESH = 4300"

lemmas close_codes = CLOSE_PERMANENT_MIN_def CLOSE_PERMANENT_MAX_def CLOSE_VERSION_NOT_SUPPORTED_def
  CLOSE_AUTH_CONTEXT_INVALID_def CLOSE_UNAUTHORIZED_def CLOSE_SUPERSEDED_def CLOSE_REFRESH_def

definition isPermanentCloseCode :: "int \<Rightarrow> bool" where
  "isPermanentCloseCode code \<longleftrightarrow> CLOSE_PERMANENT_MIN \<le> code \<and> code \<le> CLOSE_PERMANENT_MAX"

section \<open>Close reasons\<close>

text \<open>\<open>for (const ch of reason)\<close>: a surrogate pair is one element, anything else one unit.\<close>

fun code_points :: "jstr \<Rightarrow> jstr list" where
  "code_points [] = []"
| "code_points (c # cs) =
     (case cs of
        [] \<Rightarrow> [[c]]
      | d # ds \<Rightarrow> if high_surrogate c \<and> low_surrogate d then [c, d] # code_points ds
                 else [c] # code_points cs)"

fun trunc_loop :: "jstr list \<Rightarrow> jstr \<Rightarrow> nat \<Rightarrow> jstr" where
  "trunc_loop [] out bytes = out"
| "trunc_loop (ch # chs) out bytes =
     (let n = length (utf8 ch) in
      if 120 < bytes + n then out else trunc_loop chs (out @ ch) (bytes + n))"

definition truncateCloseReason :: "jstr \<Rightarrow> jstr" where
  "truncateCloseReason reason =
     (if length (utf8 reason) \<le> 123 then reason
      else trunc_loop (code_points reason) [] 0 @ [0x2026])"

lemma concat_code_points [simp]: "concat (code_points s) = s"
proof (induction s rule: code_points.induct)
  case (2 c cs)
  then show ?case by (cases cs) auto
qed simp

lemma surrogate_range:
  "high_surrogate c \<Longrightarrow> \<not> c < 0x80 \<and> \<not> c < 0x800" "low_surrogate c \<Longrightarrow> \<not> c < 0x80 \<and> \<not> c < 0x800"
  by (auto simp: high_surrogate_def low_surrogate_def word_le_nat_alt word_less_nat_alt)

text \<open>The head of what the code points of \<open>s\<close> start with.\<close>

lemma take_code_points_head:
  "concat (take k (code_points (d # ds))) = [] \<or> hd (concat (take k (code_points (d # ds)))) = d"
  by (cases k; cases ds) simp_all

lemma utf8_single:
  assumes "\<not> (high_surrogate c \<and> t \<noteq> [] \<and> low_surrogate (hd t))"
  shows "utf8 (c # t) = utf8 [c] @ utf8 t"
proof (cases t)
  case (Cons d ds)
  have nil: "utf8 [c] = (if c < 0x80 then [of_nat (unat c)] else if c < 0x800 then enc2 (unat c)
      else if high_surrogate c then replacement else if low_surrogate c then replacement else enc3 (unat c))"
    by simp
  show ?thesis
    using assms Cons unfolding nil utf8.simps(2) [of c t] by (simp del: utf8.simps)
qed simp

lemma utf8_take_code_points:
  "utf8 (concat (take k (code_points s))) = concat (map utf8 (take k (code_points s)))"
proof (induction s arbitrary: k rule: code_points.induct)
  case 1
  then show ?case by simp
next
  case (2 c cs)
  show ?case
  proof (cases k)
    case 0
    then show ?thesis by simp
  next
    case (Suc m)
    show ?thesis
    proof (cases cs)
      case Nil
      then show ?thesis using Suc by simp
    next
      case (Cons d ds)
      show ?thesis
      proof (cases "high_surrogate c \<and> low_surrogate d")
        case True
        then show ?thesis
          using "2.IH"(1) [OF Cons True, of m] Suc Cons by (simp add: surrogate_range)
      next
        case False
        let ?t = "concat (take m (code_points cs))"
        have "utf8 (c # ?t) = utf8 [c] @ utf8 ?t"
          using False take_code_points_head [of m d ds] Cons by (intro utf8_single) auto
        moreover have "code_points (c # cs) = [c] # code_points cs" using False Cons by auto
        ultimately show ?thesis
          using "2.IH"(2) [OF Cons False, of m]
          by (simp only: Suc Cons take_Suc_Cons concat.simps list.map append_Cons append_Nil)
      qed
    qed
  qed
qed

lemma trunc_loop_take:
  "bytes \<le> 120 \<Longrightarrow> \<exists>k \<le> length chs. trunc_loop chs out bytes = out @ concat (take k chs) \<and>
     bytes + sum_list (map (length \<circ> utf8) (take k chs)) \<le> 120 \<and>
     (k < length chs \<longrightarrow> 120 < bytes + sum_list (map (length \<circ> utf8) (take (Suc k) chs)))"
proof (induction chs out bytes rule: trunc_loop.induct)
  case (2 ch chs out bytes)
  show ?case
  proof (cases "120 < bytes + length (utf8 ch)")
    case True
    then show ?thesis using "2.prems" by (intro exI [of _ 0]) auto
  next
    case False
    then have "bytes + length (utf8 ch) \<le> 120" by simp
    from "2.IH" [OF refl False this] obtain k where "k \<le> length chs"
        "trunc_loop chs (out @ ch) (bytes + length (utf8 ch)) = (out @ ch) @ concat (take k chs)"
        "bytes + length (utf8 ch) + sum_list (map (length \<circ> utf8) (take k chs)) \<le> 120"
        "k < length chs \<longrightarrow> 120 < bytes + length (utf8 ch) + sum_list (map (length \<circ> utf8) (take (Suc k) chs))"
      by blast
    then show ?thesis using False by (intro exI [of _ "Suc k"]) (auto simp: comp_def algebra_simps)
  qed
qed simp

text \<open>
  A close reason never exceeds the 123 bytes a close frame carries. One that fits is left
  alone; a longer one is cut to the longest prefix of whole code points of at most 120 bytes,
  followed by an ellipsis.
\<close>

theorem truncateCloseReason_correct:
  "length (utf8 (truncateCloseReason reason)) \<le> 123 \<and>
   (if length (utf8 reason) \<le> 123 then truncateCloseReason reason = reason
    else \<exists>k. truncateCloseReason reason = concat (take k (code_points reason)) @ [0x2026] \<and>
             length (utf8 (concat (take k (code_points reason)))) \<le> 120 \<and>
             120 < length (utf8 (concat (take (Suc k) (code_points reason)))))"
proof (cases "length (utf8 reason) \<le> 123")
  case True
  then show ?thesis by (simp add: truncateCloseReason_def)
next
  case False
  let ?cps = "code_points reason"
  have sum: "length (utf8 (concat (take k ?cps))) = sum_list (map (length \<circ> utf8) (take k ?cps))" for k
    by (simp add: utf8_take_code_points length_concat)
  obtain k where k: "k \<le> length ?cps" "trunc_loop ?cps [] 0 = concat (take k ?cps)"
      "length (utf8 (concat (take k ?cps))) \<le> 120"
      "k < length ?cps \<Longrightarrow> 120 < length (utf8 (concat (take (Suc k) ?cps)))"
    using trunc_loop_take [of 0 ?cps "[]"] by (auto simp: sum)
  have "k \<noteq> length ?cps" using k(3) False by auto
  then have more: "120 < length (utf8 (concat (take (Suc k) ?cps)))" using k(1,4) by simp
  have r: "truncateCloseReason reason = concat (take k ?cps) @ [0x2026]"
    using False k(2) by (simp add: truncateCloseReason_def)
  have "\<not> low_surrogate 0x2026" by (simp add: low_surrogate_def)
  from utf8_break [OF this, of "concat (take k ?cps)" "[]"]
  have "length (utf8 (truncateCloseReason reason)) = length (utf8 (concat (take k ?cps))) + 3"
    by (simp add: r low_surrogate_def high_surrogate_def)
  with r k(3) more False show ?thesis by auto
qed

section \<open>Schema combinators\<close>

definition max_safe :: int where "max_safe = 2 ^ 53 - 1"

definition z_int :: "(int \<Rightarrow> bool) \<Rightarrow> jval \<Rightarrow> int option" where
  "z_int ok v = (case v of JNum (Fin i) \<Rightarrow> if \<bar>i\<bar> \<le> max_safe \<and> ok i then Some i else None | _ \<Rightarrow> None)"

definition z_string :: "jval \<Rightarrow> jstr option" where
  "z_string v = (case v of JStr s \<Rightarrow> Some s | _ \<Rightarrow> None)"

definition z_string_in :: "(nat \<Rightarrow> bool) \<Rightarrow> jval \<Rightarrow> jstr option" where
  "z_string_in ok v = (case v of JStr s \<Rightarrow> if ok (length s) then Some s else None | _ \<Rightarrow> None)"

abbreviation z_string1 :: "jval \<Rightarrow> jstr option" where
  "z_string1 \<equiv> z_string_in (\<lambda>n. 1 \<le> n)"

definition z_literal :: "jval \<Rightarrow> jval \<Rightarrow> unit option" where
  "z_literal l v = (if v = l then Some () else None)"

definition z_array :: "(jval \<Rightarrow> 'a option) \<Rightarrow> jval \<Rightarrow> 'a list option" where
  "z_array d v = (case v of JArr vs \<Rightarrow> those (map d vs) | _ \<Rightarrow> None)"

definition z_object :: "(jobj \<Rightarrow> 'a option) \<Rightarrow> jval \<Rightarrow> 'a option" where
  "z_object d v = (case v of JObj ob \<Rightarrow> d ob | _ \<Rightarrow> None)"

definition z_optional :: "(jval \<Rightarrow> 'a option) \<Rightarrow> jval \<Rightarrow> 'a option option" where
  "z_optional d v = (if v = JUndef then Some None else map_option Some (d v))"

definition z_nullable :: "(jval \<Rightarrow> 'a option) \<Rightarrow> jval \<Rightarrow> 'a option option" where
  "z_nullable d v = (if v = JNull then Some None else map_option Some (d v))"

definition z_record :: "(jval \<Rightarrow> 'a option) \<Rightarrow> jval \<Rightarrow> (jstr \<times> 'a) list option" where
  "z_record d v =
     (case v of JObj ob \<Rightarrow> those (map (\<lambda>(k, x). map_option (Pair k) (d x)) ob) | _ \<Rightarrow> None)"

section \<open>Cursors and mutations\<close>

record Cursor =
  backendId :: jstr
  cversion :: int

definition dec_cursor :: "jval \<Rightarrow> Cursor option" where
  "dec_cursor = z_object (\<lambda>ob.
     Option.bind (z_string1 (field ob (js ''backendId''))) (\<lambda>b.
     Option.bind (z_int (\<lambda>i. 0 \<le> i) (field ob (js ''version''))) (\<lambda>n.
     Some \<lparr>backendId = b, cversion = n\<rparr>)))"

definition enc_cursor :: "Cursor \<Rightarrow> jval" where
  "enc_cursor c = JObj [(js ''backendId'', JStr (backendId c)), (js ''version'', JNum (Fin (cversion c)))]"

definition enc_cursor_opt :: "Cursor option \<Rightarrow> jval" where
  "enc_cursor_opt c = (case c of None \<Rightarrow> JNull | Some c \<Rightarrow> enc_cursor c)"

definition cursorEquals :: "Cursor option \<Rightarrow> Cursor option \<Rightarrow> bool" where
  "cursorEquals a b =
     (case (a, b) of
        (Some x, Some y) \<Rightarrow> backendId x = backendId y \<and> cversion x = cversion y
      | (None, None) \<Rightarrow> True
      | _ \<Rightarrow> False)"

lemma cursorEquals_iff: "cursorEquals a b \<longleftrightarrow> a = b"
  by (cases a; cases b) (auto simp: cursorEquals_def)

record Mutation =
  mut_id :: int
  mut_name :: jstr
  mut_args :: jval
  mut_seed :: jstr

definition dec_mutation :: "jval \<Rightarrow> Mutation option" where
  "dec_mutation = z_object (\<lambda>ob.
     Option.bind (z_int (\<lambda>i. 0 < i) (field ob (js ''id''))) (\<lambda>i.
     Option.bind (z_string1 (field ob (js ''name''))) (\<lambda>n.
     Option.bind (z_string_in (\<lambda>k. 1 \<le> k \<and> k \<le> 128) (field ob (js ''seed''))) (\<lambda>s.
     Some \<lparr>mut_id = i, mut_name = n, mut_args = field ob (js ''args''), mut_seed = s\<rparr>))))"

definition enc_mutation :: "Mutation \<Rightarrow> jval" where
  "enc_mutation m = JObj
     [(js ''id'', JNum (Fin (mut_id m))), (js ''name'', JStr (mut_name m)),
      (js ''args'', mut_args m), (js ''seed'', JStr (mut_seed m))]"

section \<open>Client messages\<close>

datatype ClientMsg =
    HelloMsg int int "Cursor option"
  | PushMsg "Mutation list"
  | PresenceMsg jval

definition dec_client_msg :: "jval \<Rightarrow> ClientMsg option" where
  "dec_client_msg = z_object (\<lambda>ob.
     let t = field ob (js ''type'') in
     if t = JStr (js ''hello'') then
       Option.bind (z_int (\<lambda>i. True) (field ob (js ''protocolVersion''))) (\<lambda>p.
       Option.bind (z_int (\<lambda>i. 0 < i) (field ob (js ''schemaVersion''))) (\<lambda>s.
       Option.bind (z_nullable dec_cursor (field ob (js ''cursor''))) (\<lambda>c.
       Some (HelloMsg p s c))))
     else if t = JStr (js ''push'') then
       Option.bind (z_array dec_mutation (field ob (js ''mutations''))) (\<lambda>ms.
       if ms = [] then None else Some (PushMsg ms))
     else if t = JStr (js ''presence'') then Some (PresenceMsg (field ob (js ''state'')))
     else None)"

fun enc_client_msg :: "ClientMsg \<Rightarrow> jval" where
  "enc_client_msg (HelloMsg p s c) = JObj
     [(js ''type'', JStr (js ''hello'')), (js ''protocolVersion'', JNum (Fin p)),
      (js ''schemaVersion'', JNum (Fin s)), (js ''cursor'', enc_cursor_opt c)]"
| "enc_client_msg (PushMsg ms) = JObj
     [(js ''type'', JStr (js ''push'')), (js ''mutations'', JArr (map enc_mutation ms))]"
| "enc_client_msg (PresenceMsg st) = JObj [(js ''type'', JStr (js ''presence'')), (js ''state'', st)]"

section \<open>Server messages\<close>

datatype PatchOp = PutOp jstr jstr jobj | DelOp jstr jstr | ClearOp

definition dec_patch_op :: "jval \<Rightarrow> PatchOp option" where
  "dec_patch_op = z_object (\<lambda>ob.
     let t = field ob (js ''op'') in
     if t = JStr (js ''put'') then
       Option.bind (z_string1 (field ob (js ''tbl''))) (\<lambda>tbl.
       Option.bind (z_string1 (field ob (js ''id''))) (\<lambda>i.
       case field ob (js ''value'') of JObj row \<Rightarrow> Some (PutOp tbl i row) | _ \<Rightarrow> None))
     else if t = JStr (js ''del'') then
       Option.bind (z_string1 (field ob (js ''tbl''))) (\<lambda>tbl.
       Option.bind (z_string1 (field ob (js ''id''))) (\<lambda>i. Some (DelOp tbl i)))
     else if t = JStr (js ''clear'') then Some ClearOp
     else None)"

fun enc_patch_op :: "PatchOp \<Rightarrow> jval" where
  "enc_patch_op (PutOp tbl i row) = JObj
     [(js ''op'', JStr (js ''put'')), (js ''tbl'', JStr tbl), (js ''id'', JStr i), (js ''value'', JObj row)]"
| "enc_patch_op (DelOp tbl i) = JObj
     [(js ''op'', JStr (js ''del'')), (js ''tbl'', JStr tbl), (js ''id'', JStr i)]"
| "enc_patch_op ClearOp = JObj [(js ''op'', JStr (js ''clear''))]"

record MutationResult =
  res_id :: int
  res_error :: "(jstr \<times> jstr) option"

definition dec_error_pair :: "jval \<Rightarrow> (jstr \<times> jstr) option" where
  "dec_error_pair = z_object (\<lambda>ob.
     Option.bind (z_string (field ob (js ''code''))) (\<lambda>c.
     Option.bind (z_string (field ob (js ''message''))) (\<lambda>m. Some (c, m))))"

definition dec_result :: "jval \<Rightarrow> MutationResult option" where
  "dec_result = z_object (\<lambda>ob.
     Option.bind (z_int (\<lambda>i. 0 < i) (field ob (js ''id''))) (\<lambda>i.
     Option.bind (z_optional dec_error_pair (field ob (js ''error''))) (\<lambda>e.
     Some \<lparr>res_id = i, res_error = e\<rparr>)))"

definition enc_result :: "MutationResult \<Rightarrow> jval" where
  "enc_result r = JObj ((js ''id'', JNum (Fin (res_id r))) #
     (case res_error r of None \<Rightarrow> []
      | Some (c, m) \<Rightarrow> [(js ''error'', JObj [(js ''code'', JStr c), (js ''message'', JStr m)])]))"

datatype PageInfo = NoMore | More int

definition dec_page_info :: "jval \<Rightarrow> PageInfo option" where
  "dec_page_info = z_object (\<lambda>ob.
     if field ob (js ''more'') = JBool False then Some NoMore
     else if field ob (js ''more'') = JBool True then
       map_option More (z_int (\<lambda>i. 0 \<le> i) (field ob (js ''remaining'')))
     else None)"

fun enc_page_info :: "PageInfo \<Rightarrow> jval" where
  "enc_page_info NoMore = JObj [(js ''more'', JBool False)]"
| "enc_page_info (More n) = JObj [(js ''more'', JBool True), (js ''remaining'', JNum (Fin n))]"

record Peer =
  peer_client :: jstr
  peer_principal :: "jstr option"
  peer_state :: jval

definition dec_peer :: "jval \<Rightarrow> Peer option" where
  "dec_peer = z_object (\<lambda>ob.
     Option.bind (z_string1 (field ob (js ''clientId''))) (\<lambda>c.
     Option.bind (z_optional z_string (field ob (js ''principal''))) (\<lambda>p.
     Some \<lparr>peer_client = c, peer_principal = p, peer_state = field ob (js ''state'')\<rparr>)))"

definition peer_fields :: "Peer \<Rightarrow> jobj" where
  "peer_fields p =
     [(js ''clientId'', JStr (peer_client p)), (js ''state'', peer_state p)]
     @ (case peer_principal p of None \<Rightarrow> [] | Some s \<Rightarrow> [(js ''principal'', JStr s)])"

datatype ErrorCode = VersionNotSupported | CursorInvalid | BadMessage | PushInvalid | PresenceInvalid
  | Unauthorized | Internal

fun code_text :: "ErrorCode \<Rightarrow> jstr" where
  "code_text VersionNotSupported = js ''VersionNotSupported''"
| "code_text CursorInvalid = js ''CursorInvalid''"
| "code_text BadMessage = js ''BadMessage''"
| "code_text PushInvalid = js ''PushInvalid''"
| "code_text PresenceInvalid = js ''PresenceInvalid''"
| "code_text Unauthorized = js ''Unauthorized''"
| "code_text Internal = js ''Internal''"

definition dec_code :: "jval \<Rightarrow> ErrorCode option" where
  "dec_code v =
     (case v of
        JStr s \<Rightarrow> find (\<lambda>c. code_text c = s)
          [VersionNotSupported, CursorInvalid, BadMessage, PushInvalid, PresenceInvalid, Unauthorized, Internal]
      | _ \<Rightarrow> None)"

datatype ServerMsg =
    PokeStart jstr "Cursor option"
  | PokePart jstr "PatchOp list" "int option" "(jstr \<times> int) list option" "MutationResult list option"
  | PokeEnd jstr Cursor PageInfo
  | PresenceUpdate Peer
  | PresencePeers "Peer list"
  | PresencePoll
  | ErrorMsg ErrorCode "jstr option"

definition dec_server_msg :: "jval \<Rightarrow> ServerMsg option" where
  "dec_server_msg = z_object (\<lambda>ob.
     let t = field ob (js ''type'') in
     if t = JStr (js ''pokeStart'') then
       Option.bind (z_string1 (field ob (js ''pokeId''))) (\<lambda>p.
       Option.bind (z_nullable dec_cursor (field ob (js ''baseCursor''))) (\<lambda>c. Some (PokeStart p c)))
     else if t = JStr (js ''pokePart'') then
       Option.bind (z_string1 (field ob (js ''pokeId''))) (\<lambda>p.
       Option.bind (z_array dec_patch_op (field ob (js ''patch''))) (\<lambda>ops.
       Option.bind (z_optional (z_int (\<lambda>i. 0 \<le> i)) (field ob (js ''remaining''))) (\<lambda>r.
       Option.bind (z_optional (z_record (z_int (\<lambda>i. 0 \<le> i))) (field ob (js ''lastMutationIdChanges''))) (\<lambda>l.
       Option.bind (z_optional (z_array dec_result) (field ob (js ''mutationResults''))) (\<lambda>rs.
       Some (PokePart p ops r l rs))))))
     else if t = JStr (js ''pokeEnd'') then
       Option.bind (z_string1 (field ob (js ''pokeId''))) (\<lambda>p.
       Option.bind (dec_cursor (field ob (js ''cursor''))) (\<lambda>c.
       Option.bind (dec_page_info (field ob (js ''pageInfo''))) (\<lambda>i. Some (PokeEnd p c i))))
     else if t = JStr (js ''presence'') then map_option PresenceUpdate (dec_peer (JObj ob))
     else if t = JStr (js ''presencePeers'') then
       map_option PresencePeers (z_array dec_peer (field ob (js ''peers'')))
     else if t = JStr (js ''presencePoll'') then Some PresencePoll
     else if t = JStr (js ''error'') then
       Option.bind (dec_code (field ob (js ''code''))) (\<lambda>c.
       Option.bind (z_optional z_string (field ob (js ''message''))) (\<lambda>m. Some (ErrorMsg c m)))
     else None)"

definition opt_field :: "string \<Rightarrow> ('a \<Rightarrow> jval) \<Rightarrow> 'a option \<Rightarrow> jobj" where
  "opt_field k f x = (case x of None \<Rightarrow> [] | Some y \<Rightarrow> [(js k, f y)])"

definition enc_lmids :: "(jstr \<times> int) list \<Rightarrow> jval" where
  "enc_lmids l = JObj (map (\<lambda>(k, i). (k, JNum (Fin i))) l)"

fun enc_server_msg :: "ServerMsg \<Rightarrow> jval" where
  "enc_server_msg (PokeStart p c) = JObj
     [(js ''type'', JStr (js ''pokeStart'')), (js ''pokeId'', JStr p), (js ''baseCursor'', enc_cursor_opt c)]"
| "enc_server_msg (PokePart p ops r l rs) = JObj
     ([(js ''type'', JStr (js ''pokePart'')), (js ''pokeId'', JStr p), (js ''patch'', JArr (map enc_patch_op ops))]
      @ opt_field ''remaining'' (\<lambda>i. JNum (Fin i)) r
      @ opt_field ''lastMutationIdChanges'' enc_lmids l
      @ opt_field ''mutationResults'' (\<lambda>rs. JArr (map enc_result rs)) rs)"
| "enc_server_msg (PokeEnd p c i) = JObj
     [(js ''type'', JStr (js ''pokeEnd'')), (js ''pokeId'', JStr p), (js ''cursor'', enc_cursor c),
      (js ''pageInfo'', enc_page_info i)]"
| "enc_server_msg (PresenceUpdate q) = JObj ((js ''type'', JStr (js ''presence'')) # peer_fields q)"
| "enc_server_msg (PresencePeers qs) = JObj
     [(js ''type'', JStr (js ''presencePeers'')), (js ''peers'', JArr (map (\<lambda>q. JObj (peer_fields q)) qs))]"
| "enc_server_msg PresencePoll = JObj [(js ''type'', JStr (js ''presencePoll''))]"
| "enc_server_msg (ErrorMsg c m) = JObj
     ([(js ''type'', JStr (js ''error'')), (js ''code'', JStr (code_text c))] @ opt_field ''message'' JStr m)"

end
