(* ===== verification/Upgrade.thy ===== *)
theory Upgrade
  imports Messages
begin

text \<open>
  The stamps the router forwards to the workspace object (server/src/upgrade.ts). The header
  value is base64 of a JSON text; as elsewhere the text is represented by the document it
  parses to. A principal is a string and an expiry a number, as the router's types say.
\<close>

record AuthStamps =
  as_principal :: "jstr option"
  as_context :: jval
  as_expiresAt :: "jval option"

definition MAX_ATTACHMENT_BYTES :: nat where "MAX_ATTACHMENT_BYTES = 2048"

definition or_undefined :: "('a \<Rightarrow> jval) \<Rightarrow> 'a option \<Rightarrow> jval" where
  "or_undefined f x = (case x of None \<Rightarrow> JUndef | Some a \<Rightarrow> f a)"

definition encodeAuthStamps :: "AuthStamps \<Rightarrow> jval" where
  "encodeAuthStamps s = json_value (JObj
     [(js ''principal'', or_undefined JStr (as_principal s)), (js ''context'', as_context s),
      (js ''expiresAt'', or_undefined id (as_expiresAt s))])"

definition decodeAuthStamps :: "jval option \<Rightarrow> AuthStamps res" where
  "decodeAuthStamps header =
     (case header of
        Some (JObj ob) \<Rightarrow> Inr
          \<lparr>as_principal = (case field ob (js ''principal'') of JStr s \<Rightarrow> Some s | _ \<Rightarrow> None),
           as_context = field ob (js ''context''),
           as_expiresAt = (case field ob (js ''expiresAt'') of JUndef \<Rightarrow> None | v \<Rightarrow> Some v)\<rparr>
      | Some (JArr _) \<Rightarrow> Inr \<lparr>as_principal = None, as_context = JUndef, as_expiresAt = None\<rparr>
      | _ \<Rightarrow> Inl (OtherError ''auth stamps must be an object''))"

text \<open>What a value becomes on a trip through JSON; \<open>undefined\<close> stays missing.\<close>

definition through_json :: "jval \<Rightarrow> jval" where
  "through_json v = (if v = JUndef then JUndef else json_value v)"

text \<open>
  Stamps arrive as they were sent, up to JSON: the principal exactly, the context as the
  document it is in JSON, a finite expiry exactly, and no field that was not stamped. A
  non-finite expiry arrives as \<open>null\<close>.
\<close>

theorem stamps_roundtrip:
  "decodeAuthStamps (Some (encodeAuthStamps
      \<lparr>as_principal = p, as_context = c, as_expiresAt = map_option JNum e\<rparr>)) =
   Inr \<lparr>as_principal = p, as_context = through_json c,
        as_expiresAt = map_option (\<lambda>n. case n of Fin t \<Rightarrow> JNum (Fin t) | _ \<Rightarrow> JNull) e\<rparr>"
  by (cases p; cases e; cases "c = JUndef")
    (auto simp: decodeAuthStamps_def encodeAuthStamps_def or_undefined_def through_json_def field_def
      split: jnum.splits jval.splits)

end
