(* ===== verification/SchemaKit.thy ===== *)
theory SchemaKit
  imports JsText
begin

text \<open>
  Schemas: table names (protocol/src/schema.ts), validation issues rendered as one line
  (protocol/src/standard-schema.ts), and the two checks of server/src/engine-core.ts every
  row operation goes through, \<open>validateTarget\<close> and \<open>validateRow\<close>. A schema validator comes
  from a third-party library: it is a parameter, a function from the value to its verdict.
\<close>

section \<open>Verdicts of a standard schema\<close>

record Issue =
  issue_message :: jstr
  issue_path :: "jstr list option"

text \<open>\<open>validate\<close> returns a promise, issues, or the parsed value.\<close>

datatype 'a verdict = VAsync | VIssues "Issue list" | VValue 'a

definition format_issue :: "Issue \<Rightarrow> jstr" where
  "format_issue issue =
     (let path = (case issue_path issue of None \<Rightarrow> [] | Some segs \<Rightarrow> join_with (js ''.'') segs) in
      if path \<noteq> [] then path @ js '': '' @ issue_message issue else issue_message issue)"

definition formatIssues :: "Issue list \<Rightarrow> jstr" where
  "formatIssues issues =
     (let shown = map format_issue (take 5 issues);
          hidden = length issues - length shown
      in join_with (js ''; '') shown
         @ (if 0 < hidden then js ''; +'' @ digits_of hidden @ js '' more'' else []))"

section \<open>Table names\<close>

definition name_start :: "16 word \<Rightarrow> bool" where
  "name_start c \<longleftrightarrow> (0x41 \<le> c \<and> c \<le> 0x5A) \<or> (0x61 \<le> c \<and> c \<le> 0x7A) \<or> c = 0x5F"

definition name_part :: "16 word \<Rightarrow> bool" where
  "name_part c \<longleftrightarrow> name_start c \<or> (0x30 \<le> c \<and> c \<le> 0x39)"

definition TABLE_NAME_RE :: "jstr \<Rightarrow> bool" where
  "TABLE_NAME_RE s = (case s of [] \<Rightarrow> False | c # cs \<Rightarrow> name_start c \<and> list_all name_part cs \<and> length cs \<le> 63)"

definition MAX_ID_LENGTH :: nat where "MAX_ID_LENGTH = 256"

type_synonym row_validator = "jobj \<Rightarrow> jobj verdict"
type_synonym schema = "(jstr \<times> row_validator) list"

definition defineSchema :: "schema \<Rightarrow> schema res" where
  "defineSchema tables =
     (if list_all (\<lambda>(name, v). TABLE_NAME_RE name) tables then Inr tables
      else Inl (OtherError ''defineSchema: invalid table name''))"

section \<open>Row checks\<close>

definition quoted :: "jstr \<Rightarrow> jstr" where
  "quoted s = [0x22] @ s @ [0x22]"

definition invalid_args :: "jstr \<Rightarrow> err" where
  "invalid_args msg = AppError (js ''InvalidArgs'') msg"

text \<open>
  \<open>schema.tables[tbl]\<close> finds a declared table, else a property of \<open>Object.prototype\<close>: such a
  value is truthy and has no \<open>~standard\<close>, so reading \<open>validate\<close> from it is a \<open>TypeError\<close>.
\<close>

definition validateRow :: "schema \<Rightarrow> jstr \<Rightarrow> jstr \<Rightarrow> jobj \<Rightarrow> jobj res" where
  "validateRow sch tbl i data =
     (case prop_get sch tbl of
        Absent \<Rightarrow> Inl (invalid_args (js ''table '' @ quoted tbl @ js '' is not defined in the schema''))
      | Inherited p \<Rightarrow> Inl (OtherError ''TypeError'')
      | Own validate \<Rightarrow>
          (case validate data of
             VAsync \<Rightarrow> Inl (invalid_args (js ''table '' @ quoted tbl @ js '': async validation is not supported''))
           | VIssues issues \<Rightarrow>
               Inl (invalid_args (js ''invalid row '' @ tbl @ js ''/'' @ i @ js '': '' @ formatIssues issues))
           | VValue v \<Rightarrow> Inr v))"

definition id_ok :: "jstr \<Rightarrow> bool" where
  "id_ok i \<longleftrightarrow> i \<noteq> [] \<and> length i \<le> MAX_ID_LENGTH \<and> 0 \<notin> set i"

definition validateTarget :: "jstr \<Rightarrow> jstr \<Rightarrow> unit res" where
  "validateTarget tbl i =
     (if \<not> TABLE_NAME_RE tbl then Inl (invalid_args (js ''invalid table name '' @ quoted tbl))
      else if i = [] \<or> MAX_ID_LENGTH < length i \<or> 0 \<in> set i then
        Inl (invalid_args (js ''invalid row id for table '' @ quoted tbl))
      else Inr ())"

lemma validateTarget_iff: "validateTarget tbl i = Inr u \<longleftrightarrow> TABLE_NAME_RE tbl \<and> id_ok i"
  by (auto simp: validateTarget_def id_ok_def not_less)

lemma validateTarget_ok [simp]: "TABLE_NAME_RE tbl \<Longrightarrow> id_ok i \<Longrightarrow> validateTarget tbl i = Inr ()"
  by (simp add: validateTarget_iff)

lemma validateTarget_cases:
  obtains "validateTarget tbl i = Inr ()" "TABLE_NAME_RE tbl" "id_ok i"
  | e where "validateTarget tbl i = Inl e"
  using validateTarget_iff [of tbl i "()"] by (cases "validateTarget tbl i") auto

text \<open>Every refusal of a target is permanent.\<close>

lemma validateTarget_permanent: "validateTarget tbl i = Inl e \<Longrightarrow> \<exists>m. e = AppError (js ''InvalidArgs'') m"
  by (auto simp: validateTarget_def invalid_args_def split: if_splits)

section \<open>Row keys\<close>

definition rowKey :: "jstr \<Rightarrow> jstr \<Rightarrow> jstr" where
  "rowKey tbl i = tbl @ [0] @ i"

lemma name_no_nul: "TABLE_NAME_RE tbl \<Longrightarrow> 0 \<notin> set tbl"
  by (cases tbl) (auto simp: TABLE_NAME_RE_def list_all_iff name_part_def name_start_def)

lemma append_sep_inj:
  "x \<notin> set as \<Longrightarrow> x \<notin> set bs \<Longrightarrow> as @ x # cs = bs @ x # ds \<longleftrightarrow> as = bs \<and> cs = ds"
  by (induction as arbitrary: bs) (case_tac bs; auto)+

text \<open>The key identifies the row, because a table name holds no NUL.\<close>

lemma rowKey_inj:
  "TABLE_NAME_RE t \<Longrightarrow> TABLE_NAME_RE u \<Longrightarrow> rowKey t i = rowKey u j \<longleftrightarrow> t = u \<and> i = j"
  by (simp add: rowKey_def append_sep_inj name_no_nul)

text \<open>
  \<open>validateRow\<close> stores exactly what the declared schema parsed, and its errors are
  permanent, with one exception: a table name that no table has but that \<open>Object.prototype\<close>
  has (\<open>constructor\<close>, \<open>toString\<close>, ...) passes the table-name check and throws a
  \<open>TypeError\<close>, which the engine treats as transient.
\<close>

theorem validateRow_cases:
  "case validateRow sch tbl i data of
     Inr v \<Rightarrow> (\<exists>validate. map_of sch tbl = Some validate \<and> validate data = VValue v)
   | Inl (AppError c m) \<Rightarrow> c = js ''InvalidArgs'' \<and>
       (case map_of sch tbl of
          None \<Rightarrow> tbl \<notin> set proto_names
        | Some validate \<Rightarrow> validate data = VAsync \<or> (\<exists>issues. validate data = VIssues issues))
   | Inl (OtherError t) \<Rightarrow> map_of sch tbl = None \<and> tbl \<in> set proto_names"
  by (auto simp: validateRow_def prop_get_def invalid_args_def split: option.splits verdict.splits)

lemma proto_table_name: "TABLE_NAME_RE (js ''constructor'') \<and> js ''constructor'' \<in> set proto_names"
  by (simp add: TABLE_NAME_RE_def name_part_def name_start_def proto_names_def proto_call_ok_def)

end
