(* ===== verification/Mutators.thy ===== *)
theory Mutators
  imports SchemaKit Ids
begin

text \<open>
  Mutator registries, protocol/src/mutators.ts. A mutator's \<open>apply\<close> is application code: it is
  modelled by the calls it makes on its transaction, as a tree whose branches continue with
  what the call returned or threw (an application may catch). \<open>defineMutators\<close>,
  \<open>compileWhere\<close> and the built-in full-row mutators are the library's own code.
\<close>

section \<open>Application code\<close>

datatype prog =
    Done
  | Throw err
  | CallGet jstr jstr "jobj option res \<Rightarrow> prog"
  | CallList jstr "jobj option" "(jstr \<times> jobj) list res \<Rightarrow> prog"
  | CallPut jstr jstr jobj "unit res \<Rightarrow> prog"
  | CallDel jstr jstr "unit res \<Rightarrow> prog"

text \<open>The usual way to continue: an error the application does not catch ends the run.\<close>

definition orThrow :: "('a \<Rightarrow> prog) \<Rightarrow> 'a res \<Rightarrow> prog" where
  "orThrow k r = (case r of Inl e \<Rightarrow> Throw e | Inr a \<Rightarrow> k a)"

text \<open>\<open>nextId\<close> is the generator state of the mutation's seed; application code steps it with \<open>next_id\<close>.\<close>

record MutatorContext =
  ctx_clientId :: jstr
  ctx_principal :: "jstr option"
  ctx_auth :: "jval option"
  ctx_authoritative :: bool
  ctx_seed :: jstr
  ctx_nextId :: prng

record MutatorDef =
  def_args :: "(jval \<Rightarrow> jval verdict) option"
  def_apply :: "jval \<Rightarrow> MutatorContext \<Rightarrow> prog"

type_synonym mutators = "(jstr \<times> MutatorDef) list"

text \<open>A registry carries the \<open>authContext\<close> schema under a symbol key beside its definitions.\<close>

record Registry =
  reg_defs :: mutators
  reg_auth :: "(jval \<Rightarrow> jval verdict) option"

section \<open>defineMutators\<close>

text \<open>The segments between dots, and the proper prefixes that end before a dot.\<close>

fun split_dots :: "jstr \<Rightarrow> jstr \<Rightarrow> jstr list" where
  "split_dots acc [] = [acc]"
| "split_dots acc (c # cs) = (if c = 0x2E then acc # split_dots [] cs else split_dots (acc @ [c]) cs)"

fun dot_prefixes :: "jstr \<Rightarrow> jstr \<Rightarrow> jstr list" where
  "dot_prefixes acc [] = []"
| "dot_prefixes acc (c # cs) = (if c = 0x2E then [acc] else []) @ dot_prefixes (acc @ [c]) cs"

definition check_name :: "jstr list \<Rightarrow> jstr \<Rightarrow> unit res" where
  "check_name names name =
     (if name = [] then Inl (OtherError ''defineMutators: mutator names must be non-empty'')
      else if list_ex (\<lambda>s. s = []) (split_dots [] name) then
        Inl (OtherError ''defineMutators: empty dot-segment'')
      else if list_ex (\<lambda>p. p \<in> set names) (dot_prefixes [] name) then
        Inl (OtherError ''defineMutators: mutator collides with a namespace'')
      else Inr ())"

definition defineMutators :: "mutators \<Rightarrow> (jval \<Rightarrow> jval verdict) option \<Rightarrow> Registry res" where
  "defineMutators defs auth =
     bind_res (fold_res (\<lambda>name _. check_name (map fst defs) name) (map fst defs) ())
       (\<lambda>_. Inr \<lparr>reg_defs = defs, reg_auth = auth\<rparr>)"

lemma dot_prefixes_mem: "p \<in> set (dot_prefixes acc s) \<longleftrightarrow> (\<exists>a b. s = a @ 0x2E # b \<and> p = acc @ a)"
proof (induction s arbitrary: acc)
  case (Cons c s)
  show ?case
  proof
    assume "p \<in> set (dot_prefixes acc (c # s))"
    then consider "c = 0x2E" "p = acc" | "p \<in> set (dot_prefixes (acc @ [c]) s)" by (auto split: if_splits)
    then show "\<exists>a b. c # s = a @ 0x2E # b \<and> p = acc @ a"
    proof cases
      case 2
      then obtain a b where "s = a @ 0x2E # b" "p = (acc @ [c]) @ a" using Cons.IH by blast
      then show ?thesis by (intro exI [of _ "c # a"] exI [of _ b]) simp
    qed auto
  next
    assume "\<exists>a b. c # s = a @ 0x2E # b \<and> p = acc @ a"
    then obtain a b where ab: "c # s = a @ 0x2E # b" "p = acc @ a" by blast
    then show "p \<in> set (dot_prefixes acc (c # s))" using Cons.IH [of "acc @ [c]"] by (cases a) auto
  qed
qed simp

lemma split_dots_empty:
  "[] \<in> set (split_dots acc s) \<longleftrightarrow>
     (acc = [] \<and> (s = [] \<or> (\<exists>t. s = 0x2E # t))) \<or>
     (\<exists>a b. s = a @ 0x2E # b \<and> (b = [] \<or> (\<exists>t. b = 0x2E # t)))"
proof (induction s arbitrary: acc)
  case (Cons c s)
  have split: "(\<exists>a b. c # s = a @ 0x2E # b \<and> Q b) \<longleftrightarrow> (c = 0x2E \<and> Q s) \<or> (\<exists>a b. s = a @ 0x2E # b \<and> Q b)" for Q
    by (auto simp: Cons_eq_append_conv)
  show ?case by (subst split) (auto simp: Cons.IH)
qed auto

definition dot_boundary_empty :: "jstr \<Rightarrow> bool" where
  "dot_boundary_empty s \<longleftrightarrow> s = [] \<or> (\<exists>t. s = 0x2E # t) \<or>
     (\<exists>a b. s = a @ 0x2E # b \<and> (b = [] \<or> (\<exists>t. b = 0x2E # t)))"

text \<open>
  \<open>defineMutators\<close> accepts a registry exactly when every name is non-empty, has no empty
  dot-segment, and no name is both a mutator and a dotted prefix of another, so the names form
  a tree in which only leaves are mutators; it returns the registry unchanged.
\<close>

theorem defineMutators_iff:
  "defineMutators defs auth = Inr reg \<longleftrightarrow>
     reg = \<lparr>reg_defs = defs, reg_auth = auth\<rparr> \<and>
     list_all (\<lambda>name. \<not> dot_boundary_empty name) (map fst defs) \<and>
     \<not> (\<exists>p q. p \<in> set (map fst defs) \<and> p @ 0x2E # q \<in> set (map fst defs))"
proof -
  have ok: "check_name names name = Inr () \<longleftrightarrow>
      \<not> dot_boundary_empty name \<and> \<not> (\<exists>p q. p \<in> set names \<and> name = p @ 0x2E # q)" for names name
    using split_dots_empty [of "[]" name] dot_prefixes_mem [of _ "[]" name]
    by (auto simp: check_name_def dot_boundary_empty_def list_ex_iff)
  have "fold_res (\<lambda>name _. check_name names name) xs () = Inr () \<longleftrightarrow>
      list_all (\<lambda>name. check_name names name = Inr ()) xs" for names xs
    by (induction xs) (auto simp: bind_res_def split: sum.splits)
  moreover have "list_all (\<lambda>name. P name \<and> \<not> (\<exists>p q. p \<in> set names \<and> name = p @ 0x2E # q)) names \<longleftrightarrow>
      list_all P names \<and> \<not> (\<exists>p q. p \<in> set names \<and> p @ 0x2E # q \<in> set names)" for P and names :: "jstr list"
    unfolding list_all_iff by blast
  ultimately show ?thesis
    by (auto simp: defineMutators_def bind_res_Inr_iff ok simp del: set_map)
qed

section \<open>compileWhere\<close>

definition scalar :: "jval \<Rightarrow> bool" where
  "scalar v = (case v of JNull \<Rightarrow> True | JStr _ \<Rightarrow> True | JNum _ \<Rightarrow> True | JBool _ \<Rightarrow> True | _ \<Rightarrow> False)"

text \<open>\<open>===\<close> of a data value and a scalar.\<close>

definition strict_eq :: "jval \<Rightarrow> jval \<Rightarrow> bool" where
  "strict_eq a b \<longleftrightarrow> a = b \<and> b \<noteq> JNum NaN"

fun compileWhere :: "jobj option \<Rightarrow> (jobj \<Rightarrow> bool) res" where
  "compileWhere None = Inr (\<lambda>_. True)"
| "compileWhere (Some wh) =
     (let entries = filter (\<lambda>(f, v). v \<noteq> JUndef) wh in
      case find (\<lambda>(f, v). \<not> scalar v) entries of
        Some (f, v) \<Rightarrow>
          Inl (invalid_args (js ''list filter on '' @ quoted f @ js '' must be a string, number, boolean, or null''))
      | None \<Rightarrow> Inr (\<lambda>data. list_all (\<lambda>(f, v). strict_eq (field data f) v) entries))"

text \<open>
  A \<open>where\<close> filter is refused exactly when some field that is not \<open>undefined\<close> holds a
  non-scalar, always permanently; otherwise it keeps the rows whose named fields are
  strictly equal to the given values, ignoring \<open>undefined\<close> ones.
\<close>

theorem compileWhere_correct:
  "case compileWhere (Some wh) of
     Inl e \<Rightarrow> (\<exists>f v m. (f, v) \<in> set wh \<and> v \<noteq> JUndef \<and> \<not> scalar v \<and> e = AppError (js ''InvalidArgs'') m)
   | Inr p \<Rightarrow> list_all (\<lambda>(f, v). v = JUndef \<or> scalar v) wh \<and>
       p data = list_all (\<lambda>(f, v). v = JUndef \<or> strict_eq (field data f) v) wh"
proof (cases "find (\<lambda>(f, v). \<not> scalar v) (filter (\<lambda>(f, v). v \<noteq> JUndef) wh)")
  case None
  moreover from this have "\<forall>a b. (a, b) \<in> set wh \<longrightarrow> b = JUndef \<or> scalar b"
    by (auto simp: find_NoneD list_all_iff)
  ultimately show ?thesis by (auto simp: list_all_iff Let_def)
next
  case (Some fv)
  moreover obtain f v where "fv = (f, v)" by (cases fv)
  moreover from calculation have "(f, v) \<in> set wh \<and> v \<noteq> JUndef \<and> \<not> scalar v"
    by (auto dest: find_SomeD)
  ultimately show ?thesis by (simp add: invalid_args_def) blast
qed

section \<open>Built-in mutators\<close>

text \<open>The issues a failed parse reports are the schema library's: \<open>zi\<close>.\<close>

definition put_args :: "(jval \<Rightarrow> Issue list) \<Rightarrow> jval \<Rightarrow> jval verdict" where
  "put_args zi v =
     (case v of
        JObj ob \<Rightarrow>
          (case (field ob (js ''tbl''), field ob (js ''id''), field ob (js ''data'')) of
             (JStr t, JStr i, JObj d) \<Rightarrow>
               if t \<noteq> [] \<and> i \<noteq> []
               then VValue (JObj [(js ''tbl'', JStr t), (js ''id'', JStr i), (js ''data'', JObj d)])
               else VIssues (zi v)
           | _ \<Rightarrow> VIssues (zi v))
      | _ \<Rightarrow> VIssues (zi v))"

definition del_args :: "(jval \<Rightarrow> Issue list) \<Rightarrow> jval \<Rightarrow> jval verdict" where
  "del_args zi v =
     (case v of
        JObj ob \<Rightarrow>
          (case (field ob (js ''tbl''), field ob (js ''id'')) of
             (JStr t, JStr i) \<Rightarrow>
               if t \<noteq> [] \<and> i \<noteq> [] then VValue (JObj [(js ''tbl'', JStr t), (js ''id'', JStr i)])
               else VIssues (zi v)
           | _ \<Rightarrow> VIssues (zi v))
      | _ \<Rightarrow> VIssues (zi v))"

definition str_of :: "jval \<Rightarrow> jstr" where
  "str_of v = (case v of JStr s \<Rightarrow> s | _ \<Rightarrow> [])"

definition obj_of :: "jval \<Rightarrow> jobj" where
  "obj_of v = (case v of JObj ob \<Rightarrow> ob | _ \<Rightarrow> [])"

definition put_apply :: "jval \<Rightarrow> MutatorContext \<Rightarrow> prog" where
  "put_apply args ctx =
     (let ob = obj_of args in
      CallPut (str_of (field ob (js ''tbl''))) (str_of (field ob (js ''id''))) (obj_of (field ob (js ''data'')))
        (orThrow (\<lambda>_. Done)))"

definition del_apply :: "jval \<Rightarrow> MutatorContext \<Rightarrow> prog" where
  "del_apply args ctx =
     (let ob = obj_of args in
      CallDel (str_of (field ob (js ''tbl''))) (str_of (field ob (js ''id''))) (orThrow (\<lambda>_. Done)))"

definition crudMutators :: "(jval \<Rightarrow> Issue list) \<Rightarrow> mutators" where
  "crudMutators zi =
     [(js ''sync.put'', \<lparr>def_args = Some (put_args zi), def_apply = put_apply\<rparr>),
      (js ''sync.del'', \<lparr>def_args = Some (del_args zi), def_apply = del_apply\<rparr>)]"

end
