(* ===== verification/RowStore.thy ===== *)
theory RowStore
  imports Mutators "HOL-Library.Multiset"
begin

text \<open>
  Row storage: the interface \<open>EngineRowStore\<close> of server/src/engine-core.ts, its in-memory
  implementation \<open>MemoryRowStore\<close> and the SQLite one, \<open>SqlRowStore\<close> of
  server/src/sql-row-store.ts. The table \<open>rows\<close> is the list of its records in rowid order; a
  stored JSON text is represented by the document it parses to. The order in which SQLite
  visits the rows of a query without \<open>ORDER BY\<close> is a parameter: \<open>plan\<close> gives each row of a
  result its place.
\<close>

section \<open>The interface\<close>

record StoredRow =
  row_tbl :: jstr
  row_id :: jstr
  row_data :: jobj
  row_version :: int
  row_deleted :: bool

record 's EngineRowStore =
  rs_get :: "'s \<Rightarrow> jstr \<Rightarrow> jstr \<Rightarrow> jobj option"
  rs_list :: "'s \<Rightarrow> jstr \<Rightarrow> jobj option \<Rightarrow> (jstr \<times> jobj) list res"
  rs_put :: "'s \<Rightarrow> jstr \<Rightarrow> jstr \<Rightarrow> jobj \<Rightarrow> int \<Rightarrow> 's"
  rs_del :: "'s \<Rightarrow> jstr \<Rightarrow> jstr \<Rightarrow> int \<Rightarrow> 's \<times> nat"

definition FIELD_RE :: "jstr \<Rightarrow> bool" where
  "FIELD_RE s = (case s of [] \<Rightarrow> False | c # cs \<Rightarrow> name_start c \<and> list_all name_part cs)"

text \<open>No entry the store may put to its database has an undefined value.\<close>

definition defined_where :: "jobj option \<Rightarrow> bool" where
  "defined_where wh =
     (case wh of None \<Rightarrow> True | Some w \<Rightarrow> list_all (\<lambda>(f, v). v \<noteq> JUndef \<or> \<not> FIELD_RE f) w)"

text \<open>
  The contract: what is read back after \<open>put\<close> and \<open>del\<close>, and that \<open>list\<close> returns live rows of
  the table, each once, at least those the filter keeps. \<open>norm\<close> is what storing does to a row
  (nothing in memory, a trip through JSON in SQLite).
\<close>

locale row_store =
  fixes ops :: "'s EngineRowStore" and inv :: "'s \<Rightarrow> bool" and norm :: "jobj \<Rightarrow> jobj"
  assumes inv_put: "inv st \<Longrightarrow> TABLE_NAME_RE t \<Longrightarrow> inv (rs_put ops st t i d v)"
    and inv_del: "inv st \<Longrightarrow> TABLE_NAME_RE t \<Longrightarrow> inv (fst (rs_del ops st t i v))"
    and get_put: "inv st \<Longrightarrow> TABLE_NAME_RE t \<Longrightarrow> TABLE_NAME_RE t' \<Longrightarrow>
      rs_get ops (rs_put ops st t i d v) t' i' =
        (if t' = t \<and> i' = i then Some (norm d) else rs_get ops st t' i')"
    and get_del: "inv st \<Longrightarrow> TABLE_NAME_RE t \<Longrightarrow> TABLE_NAME_RE t' \<Longrightarrow>
      rs_get ops (fst (rs_del ops st t i v)) t' i' =
        (if t' = t \<and> i' = i then None else rs_get ops st t' i')"
    and del_count: "inv st \<Longrightarrow> TABLE_NAME_RE t \<Longrightarrow>
      0 < snd (rs_del ops st t i v) \<longleftrightarrow> rs_get ops st t i \<noteq> None"
    and list_total: "TABLE_NAME_RE t \<Longrightarrow> \<exists>xs. rs_list ops st t wh = Inr xs"
    and list_live: "inv st \<Longrightarrow> TABLE_NAME_RE t \<Longrightarrow> rs_list ops st t wh = Inr xs \<Longrightarrow>
      distinct (map fst xs) \<and> list_all (\<lambda>(i, d). rs_get ops st t i = Some d) xs"
    and list_superset: "inv st \<Longrightarrow> TABLE_NAME_RE t \<Longrightarrow> rs_list ops st t wh = Inr xs \<Longrightarrow>
      defined_where wh \<Longrightarrow> compileWhere wh = Inr p \<Longrightarrow> rs_get ops st t i = Some d \<Longrightarrow> p d \<Longrightarrow>
      (i, d) \<in> set xs"
begin

text \<open>Filtering what \<open>list\<close> returns gives exactly the matching live rows of the table.\<close>

lemma list_exact:
  assumes "inv st" "TABLE_NAME_RE t" "rs_list ops st t wh = Inr xs" "defined_where wh"
    and "compileWhere wh = Inr p"
  shows "map_of (filter (\<lambda>(i, d). p d) xs) i =
      (case rs_get ops st t i of Some d \<Rightarrow> if p d then Some d else None | None \<Rightarrow> None)"
proof -
  have l: "distinct (map fst xs)" "list_all (\<lambda>(i, d). rs_get ops st t i = Some d) xs"
    using list_live [OF assms(1-3)] by auto
  let ?ys = "filter (\<lambda>(i, d). p d) xs"
  have d: "distinct (map fst ?ys)" by (rule distinct_map_filter [OF l(1)])
  have m: "map_of ?ys i = Some d \<longleftrightarrow> rs_get ops st t i = Some d \<and> p d" for d
    using l(2) list_superset [OF assms(1-5), of i d] unfolding map_of_eq_Some_iff [OF d]
    by (auto simp: list_all_iff)
  show ?thesis
  proof (cases "map_of ?ys i")
    case None
    then have "\<not> (rs_get ops st t i = Some d \<and> p d)" for d using m [of d] by simp
    with None show ?thesis by (auto split: option.split)
  next
    case (Some d)
    with m [of d] show ?thesis by simp
  qed
qed

text \<open>Applying a batch of puts, then a batch of deletes, from the outside.\<close>

definition apply_puts :: "(jstr \<times> jstr \<times> jobj) list \<Rightarrow> int \<Rightarrow> 's \<Rightarrow> 's" where
  "apply_puts ps v st = fold (\<lambda>(t, i, d) st. rs_put ops st t i d v) ps st"

lemma apply_puts_inv:
  "inv st \<Longrightarrow> list_all (\<lambda>(t, i, d). TABLE_NAME_RE t) ps \<Longrightarrow> inv (apply_puts ps v st)"
  by (induction ps arbitrary: st) (auto simp: apply_puts_def inv_put)

lemma apply_puts_get:
  assumes "inv st" "list_all (\<lambda>(t, i, d). TABLE_NAME_RE t) ps" "TABLE_NAME_RE t"
  shows "rs_get ops (apply_puts ps v st) t i =
    (case map_of (rev (map (\<lambda>(t, i, d). ((t, i), d)) ps)) (t, i) of
       Some d \<Rightarrow> Some (norm d) | None \<Rightarrow> rs_get ops st t i)"
  using assms(1,2)
proof (induction ps arbitrary: st)
  case (Cons x ps)
  obtain t' i' d' where x: "x = (t', i', d')" by (cases x)
  have "rs_get ops (apply_puts ps v (rs_put ops st t' i' d' v)) t i =
      (case map_of (rev (map (\<lambda>(t, i, d). ((t, i), d)) ps)) (t, i) of
         Some d \<Rightarrow> Some (norm d) | None \<Rightarrow> rs_get ops (rs_put ops st t' i' d' v) t i)"
    using Cons.prems x by (intro Cons.IH) (auto simp: inv_put)
  then show ?case
    using Cons.prems assms(3) by (auto simp: x apply_puts_def get_put map_add_def split: option.splits)
qed (simp add: apply_puts_def)

end

section \<open>MemoryRowStore\<close>

type_synonym memory_rows = "(jstr \<times> StoredRow) list"

definition memory_get :: "memory_rows \<Rightarrow> jstr \<Rightarrow> jstr \<Rightarrow> jobj option" where
  "memory_get rows t i =
     (case map_of rows (rowKey t i) of
        Some row \<Rightarrow> if row_deleted row then None else Some (row_data row)
      | None \<Rightarrow> None)"

definition memory_list :: "memory_rows \<Rightarrow> jstr \<Rightarrow> jobj option \<Rightarrow> (jstr \<times> jobj) list res" where
  "memory_list rows t wh =
     Inr (map (\<lambda>row. (row_id row, row_data row))
            (filter (\<lambda>row. row_tbl row = t \<and> \<not> row_deleted row) (map snd rows)))"

definition memory_live :: "memory_rows \<Rightarrow> (jstr \<times> jstr \<times> jobj) list" where
  "memory_live rows =
     map (\<lambda>row. (row_tbl row, row_id row, row_data row)) (filter (\<lambda>row. \<not> row_deleted row) (map snd rows))"

definition memory_put :: "memory_rows \<Rightarrow> jstr \<Rightarrow> jstr \<Rightarrow> jobj \<Rightarrow> int \<Rightarrow> memory_rows" where
  "memory_put rows t i d v =
     AList.update (rowKey t i)
       \<lparr>row_tbl = t, row_id = i, row_data = d, row_version = v, row_deleted = False\<rparr> rows"

definition memory_del :: "memory_rows \<Rightarrow> jstr \<Rightarrow> jstr \<Rightarrow> int \<Rightarrow> memory_rows \<times> nat" where
  "memory_del rows t i v =
     (case map_of rows (rowKey t i) of
        None \<Rightarrow> (rows, 0)
      | Some row \<Rightarrow>
          if row_deleted row then (rows, 0)
          else (AList.update (rowKey t i) (row\<lparr>row_deleted := True, row_version := v\<rparr>) rows, 1))"

definition MemoryRowStore :: "memory_rows EngineRowStore" where
  "MemoryRowStore = \<lparr>rs_get = memory_get, rs_list = memory_list, rs_put = memory_put, rs_del = memory_del\<rparr>"

definition memory_inv :: "memory_rows \<Rightarrow> bool" where
  "memory_inv rows \<longleftrightarrow> distinct (map fst rows) \<and>
     list_all (\<lambda>(k, row). k = rowKey (row_tbl row) (row_id row) \<and> TABLE_NAME_RE (row_tbl row)) rows"

lemma memory_inv_lookup:
  "memory_inv rows \<Longrightarrow> map_of rows k = Some row \<Longrightarrow>
     k = rowKey (row_tbl row) (row_id row) \<and> TABLE_NAME_RE (row_tbl row)"
  by (auto simp: memory_inv_def list_all_iff dest: map_of_SomeD)

lemma memory_inv_update:
  assumes "memory_inv rows" "k = rowKey (row_tbl row) (row_id row)" "TABLE_NAME_RE (row_tbl row)"
  shows "memory_inv (AList.update k row rows)"
proof -
  have "set (AList.update k row rows) \<subseteq> insert (k, row) (set rows)"
    by (induction rows) auto
  then show ?thesis
    using assms by (auto simp: memory_inv_def list_all_iff distinct_update)
qed

lemma memory_mem:
  assumes "memory_inv rows" "(k, row) \<in> set rows"
  shows "map_of rows (rowKey (row_tbl row) (row_id row)) = Some row"
  using assms by (auto simp: memory_inv_def list_all_iff)

interpretation memory: row_store MemoryRowStore memory_inv id
proof
  fix st :: memory_rows and t t' i i' :: jstr and d v wh xs p
  show "memory_inv (rs_put MemoryRowStore st t i d v)" if "memory_inv st" "TABLE_NAME_RE t"
    using that by (simp add: MemoryRowStore_def memory_put_def memory_inv_update)
  show "memory_inv (fst (rs_del MemoryRowStore st t i v))" if "memory_inv st" "TABLE_NAME_RE t"
    using that memory_inv_lookup [OF that(1)]
    by (auto simp: MemoryRowStore_def memory_del_def memory_inv_update split: option.splits)
  show "rs_get MemoryRowStore (rs_put MemoryRowStore st t i d v) t' i' =
      (if t' = t \<and> i' = i then Some (id d) else rs_get MemoryRowStore st t' i')"
    if "memory_inv st" "TABLE_NAME_RE t" "TABLE_NAME_RE t'"
    using that by (auto simp: MemoryRowStore_def memory_put_def memory_get_def map_of_update rowKey_inj)
  show "rs_get MemoryRowStore (fst (rs_del MemoryRowStore st t i v)) t' i' =
      (if t' = t \<and> i' = i then None else rs_get MemoryRowStore st t' i')"
    if "memory_inv st" "TABLE_NAME_RE t" "TABLE_NAME_RE t'"
    using that by (auto simp: MemoryRowStore_def memory_del_def memory_get_def map_of_update rowKey_inj
        split: option.splits)
  show "0 < snd (rs_del MemoryRowStore st t i v) \<longleftrightarrow> rs_get MemoryRowStore st t i \<noteq> None"
    by (auto simp: MemoryRowStore_def memory_del_def memory_get_def split: option.splits)
  show "\<exists>xs. rs_list MemoryRowStore st t wh = Inr xs"
    by (simp add: MemoryRowStore_def memory_list_def)
  show "distinct (map fst xs) \<and> list_all (\<lambda>(i, d). rs_get MemoryRowStore st t i = Some d) xs"
    if "memory_inv st" "TABLE_NAME_RE t" "rs_list MemoryRowStore st t wh = Inr xs"
  proof -
    let ?rs = "filter (\<lambda>row. row_tbl row = t \<and> \<not> row_deleted row) (map snd st)"
    have xs: "xs = map (\<lambda>row. (row_id row, row_data row)) ?rs"
      using that(3) by (simp add: MemoryRowStore_def memory_list_def)
    have "map fst st = map (\<lambda>row. rowKey (row_tbl row) (row_id row)) (map snd st)"
      using that(1) by (auto simp: memory_inv_def list_all_iff)
    then have "distinct (map (\<lambda>row. rowKey (row_tbl row) (row_id row)) (map snd st))"
      using that(1) unfolding memory_inv_def by metis
    then have "distinct (map (\<lambda>row. rowKey (row_tbl row) (row_id row)) ?rs)"
      by (rule distinct_map_filter)
    then have "distinct (map row_id ?rs)"
      by (auto simp: distinct_map inj_on_def)
    then show ?thesis
      using memory_mem [OF that(1)]
      by (auto simp: xs comp_def list_all_iff MemoryRowStore_def memory_get_def)
  qed
  show "(i, d) \<in> set xs"
    if inv: "memory_inv st" and t: "TABLE_NAME_RE t" and l: "rs_list MemoryRowStore st t wh = Inr xs"
      and g: "rs_get MemoryRowStore st t i = Some d"
  proof -
    obtain row where row: "map_of st (rowKey t i) = Some row" "\<not> row_deleted row" "d = row_data row"
      using g by (auto simp: MemoryRowStore_def memory_get_def split: option.splits if_splits)
    then have "row_tbl row = t \<and> row_id row = i" "row \<in> snd ` set st"
      using memory_inv_lookup [OF inv row(1)] t by (force simp: rowKey_inj dest: map_of_SomeD)+
    with row l show ?thesis by (force simp: MemoryRowStore_def memory_list_def)
  qed
qed

section \<open>SqlRowStore\<close>

text \<open>SQL values; a comparison with \<open>NULL\<close> does not hold.\<close>

datatype sqlval = SNull | SInt int | SText jstr

definition sql_eq :: "sqlval \<Rightarrow> sqlval \<Rightarrow> bool" where
  "sql_eq a b \<longleftrightarrow> a \<noteq> SNull \<and> a = b"

text \<open>\<open>json_extract(data, '$.f')\<close>: arrays and objects come out as their JSON text.\<close>

definition json_extract :: "jobj \<Rightarrow> jstr \<Rightarrow> sqlval" where
  "json_extract d f =
     (case field d f of
        JUndef \<Rightarrow> SNull
      | JNull \<Rightarrow> SNull
      | JBool b \<Rightarrow> SInt (if b then 1 else 0)
      | JNum (Fin n) \<Rightarrow> SInt n
      | JNum _ \<Rightarrow> SNull
      | JStr s \<Rightarrow> SText s
      | v \<Rightarrow> SText (json_text v))"

datatype clause = IsNull jstr | Never | Equals jstr sqlval

text \<open>The clause one filter entry adds; a bound \<open>undefined\<close> is \<open>NULL\<close>.\<close>

definition where_clause :: "jstr \<times> jval \<Rightarrow> clause list" where
  "where_clause fv =
     (case fv of (f, v) \<Rightarrow>
        if \<not> FIELD_RE f then []
        else case v of
          JNull \<Rightarrow> [IsNull f]
        | JNum (Fin n) \<Rightarrow> [Equals f (SInt n)]
        | JNum _ \<Rightarrow> [Never]
        | JBool b \<Rightarrow> [Equals f (SInt (if b then 1 else 0))]
        | JStr s \<Rightarrow> [Equals f (SText s)]
        | _ \<Rightarrow> [Equals f SNull])"

fun clause_holds :: "jobj \<Rightarrow> clause \<Rightarrow> bool" where
  "clause_holds d (IsNull f) = (json_extract d f = SNull)"
| "clause_holds d Never = False"
| "clause_holds d (Equals f v) = sql_eq (json_extract d f) v"

type_synonym sql_rows = "StoredRow list"
type_synonym plan = "sql_rows \<Rightarrow> StoredRow \<Rightarrow> nat"

definition visit :: "plan \<Rightarrow> sql_rows \<Rightarrow> sql_rows" where
  "visit plan rows = sort_key (plan rows) rows"

lemma set_visit [simp]: "set (visit plan rows) = set rows"
  by (simp add: visit_def)

lemma distinct_map_visit [simp]: "distinct (map f (visit plan rows)) = distinct (map f rows)"
  by (simp add: visit_def distinct_map inj_on_def)

abbreviation row_at :: "jstr \<Rightarrow> jstr \<Rightarrow> StoredRow \<Rightarrow> bool" where
  "row_at t i row \<equiv> row_tbl row = t \<and> row_id row = i"

abbreviation live_at :: "jstr \<Rightarrow> jstr \<Rightarrow> StoredRow \<Rightarrow> bool" where
  "live_at t i row \<equiv> row_tbl row = t \<and> row_id row = i \<and> \<not> row_deleted row"

definition sql_get :: "sql_rows \<Rightarrow> jstr \<Rightarrow> jstr \<Rightarrow> jobj option" where
  "sql_get rows t i = map_option row_data (find (live_at t i) rows)"

definition sql_list :: "plan \<Rightarrow> sql_rows \<Rightarrow> jstr \<Rightarrow> jobj option \<Rightarrow> (jstr \<times> jobj) list res" where
  "sql_list plan rows t wh =
     (if \<not> TABLE_NAME_RE t then Inl (OtherError ''invalid table name'')
      else
        let clauses = concat (map where_clause (case wh of None \<Rightarrow> [] | Some w \<Rightarrow> w)) in
        Inr (map (\<lambda>row. (row_id row, row_data row))
          (visit plan (filter (\<lambda>row. row_tbl row = t \<and> \<not> row_deleted row
                              \<and> list_all (clause_holds (row_data row)) clauses) rows))))"

text \<open>The document \<open>JSON.parse\<close> reads back from the text \<open>put\<close> stores.\<close>

definition json_obj :: "jobj \<Rightarrow> jobj" where
  "json_obj d = map (\<lambda>(k, v). (k, json_value v)) (filter (\<lambda>(k, v). v \<noteq> JUndef) d)"

lemma json_value_JObj: "json_value (JObj d) = JObj (json_obj d)"
  by (simp add: json_obj_def)

text \<open>\<open>INSERT ... ON CONFLICT DO UPDATE\<close> keeps the rowid of the row it updates.\<close>

fun sql_upsert :: "StoredRow \<Rightarrow> sql_rows \<Rightarrow> sql_rows" where
  "sql_upsert r [] = [r]"
| "sql_upsert r (row # rows) = (if row_at (row_tbl r) (row_id r) row then r # rows else row # sql_upsert r rows)"

definition sql_put :: "sql_rows \<Rightarrow> jstr \<Rightarrow> jstr \<Rightarrow> jobj \<Rightarrow> int \<Rightarrow> sql_rows" where
  "sql_put rows t i d v =
     sql_upsert \<lparr>row_tbl = t, row_id = i, row_data = json_obj d, row_version = v, row_deleted = False\<rparr> rows"

definition sql_del :: "sql_rows \<Rightarrow> jstr \<Rightarrow> jstr \<Rightarrow> int \<Rightarrow> sql_rows \<times> nat" where
  "sql_del rows t i v =
     (let hit = (live_at t i) in
      (map (\<lambda>row. if hit row then row\<lparr>row_deleted := True, row_version := v\<rparr> else row) rows,
       length (filter hit rows)))"

definition SqlRowStore :: "plan \<Rightarrow> sql_rows EngineRowStore" where
  "SqlRowStore plan = \<lparr>rs_get = sql_get, rs_list = sql_list plan, rs_put = sql_put, rs_del = sql_del\<rparr>"

text \<open>The primary key, and that stored data is a JSON document.\<close>

definition sql_inv :: "sql_rows \<Rightarrow> bool" where
  "sql_inv rows \<longleftrightarrow> distinct (map (\<lambda>row. (row_tbl row, row_id row)) rows) \<and>
     list_all (\<lambda>row. json_obj (row_data row) = row_data row) rows"

lemma json_obj_idem [simp]: "json_obj (json_obj d) = json_obj d"
  using json_value_idem [of "JObj d"] by (simp only: json_value_JObj jval.inject)

lemma keys_upsert:
  "(\<lambda>row. (row_tbl row, row_id row)) ` set (sql_upsert r rows) =
     insert (row_tbl r, row_id r) ((\<lambda>row. (row_tbl row, row_id row)) ` set rows)"
  by (induction rows) auto

lemma set_upsert: "set (sql_upsert r rows) \<subseteq> insert r (set rows)"
  by (induction rows) auto

lemma distinct_upsert:
  "distinct (map (\<lambda>row. (row_tbl row, row_id row)) rows) \<Longrightarrow>
   distinct (map (\<lambda>row. (row_tbl row, row_id row)) (sql_upsert r rows))"
  by (induction rows) (auto simp: keys_upsert)

lemma sql_inv_put: "sql_inv rows \<Longrightarrow> sql_inv (sql_put rows t i d v)"
  unfolding sql_inv_def sql_put_def using set_upsert [of _ rows]
  by (auto simp: list_all_iff intro!: distinct_upsert) fastforce

lemma sql_inv_del: "sql_inv rows \<Longrightarrow> sql_inv (fst (sql_del rows t i v))"
proof -
  assume inv: "sql_inv rows"
  have "map (\<lambda>row. (row_tbl row, row_id row)) (fst (sql_del rows t i v)) =
      map (\<lambda>row. (row_tbl row, row_id row)) rows"
    by (simp add: sql_del_def Let_def)
  then have "distinct (map (\<lambda>row. (row_tbl row, row_id row)) (fst (sql_del rows t i v)))"
    using inv by (simp only: sql_inv_def)
  moreover have "list_all (\<lambda>row. json_obj (row_data row) = row_data row) (fst (sql_del rows t i v))"
    using inv by (auto simp: sql_inv_def sql_del_def Let_def list_all_iff)
  ultimately show ?thesis unfolding sql_inv_def ..
qed

lemma find_upsert:
  assumes "distinct (map (\<lambda>row. (row_tbl row, row_id row)) rows)" "\<not> row_deleted r"
  shows "find (live_at t i) (sql_upsert r rows) =
    (if row_tbl r = t \<and> row_id r = i then Some r
     else find (live_at t i) rows)"
  using assms by (induction rows) auto

lemma sql_get_Some_iff:
  assumes "sql_inv rows"
  shows "sql_get rows t i = Some d \<longleftrightarrow>
    (\<exists>row \<in> set rows. live_at t i row \<and> row_data row = d)"
proof
  assume "sql_get rows t i = Some d"
  then show "\<exists>row \<in> set rows. live_at t i row \<and> row_data row = d"
    by (auto simp: sql_get_def dest: find_SomeD)
next
  assume "\<exists>row \<in> set rows. live_at t i row \<and> row_data row = d"
  then obtain row where row: "row \<in> set rows" "row_at t i row" "\<not> row_deleted row" "row_data row = d" by blast
  have uniq: "row' = row" if "row' \<in> set rows" "row_at t i row'" for row'
    by (rule inj_onD [of "\<lambda>row. (row_tbl row, row_id row)" "set rows"])
      (use assms that row in \<open>simp_all add: sql_inv_def distinct_map\<close>)
  obtain row' where f: "find (live_at t i) rows = Some row'"
  proof (cases "find (live_at t i) rows")
    case None
    then show thesis using row find_None_iff [of "live_at t i" rows] by blast
  qed
  then have "row' = row" using uniq [of row'] find_SomeD [OF f] by blast
  with f row show "sql_get rows t i = Some d" by (simp add: sql_get_def)
qed

text \<open>The SQL clauses hold of every document the exact predicate keeps.\<close>

lemma clause_superset:
  assumes "json_obj d = d" "strict_eq (field d f) v" "scalar v"
  shows "list_all (clause_holds d) (where_clause (f, v))"
proof -
  have "field d f \<noteq> JNum (Inf b)" for b
  proof
    assume "field d f = JNum (Inf b)"
    then have "(f, JNum (Inf b)) \<in> set d" by (auto simp: field_def split: option.splits dest: map_of_SomeD)
    then have "(f, JNum (Inf b)) \<in> set (json_obj d)" using assms(1) by simp
    then obtain w where "json_value w = JNum (Inf b)" by (auto simp: json_obj_def)
    then show False by (cases w) (auto split: jnum.splits)
  qed
  with assms(2,3) show ?thesis
    by (auto simp: where_clause_def strict_eq_def json_extract_def sql_eq_def scalar_def
        split: jval.splits jnum.splits)
qed

lemma compileWhere_entries:
  assumes "compileWhere (Some w) = Inr p" "p d" "(f, v) \<in> set w" "v \<noteq> JUndef"
  shows "scalar v \<and> strict_eq (field d f) v"
  using assms by (auto simp: Let_def find_NoneD list_all_iff split: option.splits)

interpretation sql: row_store "SqlRowStore plan" sql_inv json_obj for plan
proof
  fix st :: sql_rows and t t' i i' :: jstr and d v wh xs p
  show "sql_inv (rs_put (SqlRowStore plan) st t i d v)" if "sql_inv st"
    using that by (simp add: SqlRowStore_def sql_inv_put)
  show "sql_inv (fst (rs_del (SqlRowStore plan) st t i v))" if "sql_inv st"
    using that by (simp add: SqlRowStore_def sql_inv_del)
  show "rs_get (SqlRowStore plan) (rs_put (SqlRowStore plan) st t i d v) t' i' =
      (if t' = t \<and> i' = i then Some (json_obj d) else rs_get (SqlRowStore plan) st t' i')"
    if "sql_inv st"
    using that by (auto simp: SqlRowStore_def sql_get_def sql_put_def find_upsert sql_inv_def)
  show "rs_get (SqlRowStore plan) (fst (rs_del (SqlRowStore plan) st t i v)) t' i' =
      (if t' = t \<and> i' = i then None else rs_get (SqlRowStore plan) st t' i')"
    if "sql_inv st"
  proof -
    have "find (live_at t' i') (fst (sql_del st t i v)) =
      (if t' = t \<and> i' = i then None else find (live_at t' i') st)"
      by (induction st) (auto simp: sql_del_def Let_def)
    then show ?thesis by (simp add: SqlRowStore_def sql_get_def)
  qed
  show "0 < snd (rs_del (SqlRowStore plan) st t i v) \<longleftrightarrow> rs_get (SqlRowStore plan) st t i \<noteq> None"
    by (auto simp: SqlRowStore_def sql_get_def sql_del_def Let_def filter_empty_conv find_None_iff)
  show "\<exists>xs. rs_list (SqlRowStore plan) st t wh = Inr xs" if "TABLE_NAME_RE t"
    using that by (simp add: SqlRowStore_def sql_list_def)
  show "distinct (map fst xs) \<and> list_all (\<lambda>(i, d). rs_get (SqlRowStore plan) st t i = Some d) xs"
    if inv: "sql_inv st" and "TABLE_NAME_RE t" "rs_list (SqlRowStore plan) st t wh = Inr xs"
  proof -
    define rs where "rs = filter (\<lambda>row. row_tbl row = t \<and> \<not> row_deleted row \<and> list_all (clause_holds (row_data row))
        (concat (map where_clause (case wh of None \<Rightarrow> [] | Some w \<Rightarrow> w)))) st"
    have xs: "xs = map (\<lambda>row. (row_id row, row_data row)) (visit plan rs)"
      using that(2,3) by (simp add: SqlRowStore_def sql_list_def rs_def Let_def)
    have "distinct (map (\<lambda>row. (row_tbl row, row_id row)) rs)"
      unfolding rs_def using inv by (intro distinct_map_filter) (simp add: sql_inv_def)
    then have "distinct (map row_id rs)"
      by (auto simp: distinct_map inj_on_def rs_def)
    moreover have "sql_get st t (row_id row) = Some (row_data row)" if "row \<in> set rs" for row
      using that by (subst sql_get_Some_iff [OF inv]) (auto simp: rs_def)
    ultimately show ?thesis by (auto simp: xs comp_def list_all_iff SqlRowStore_def)
  qed
  show "(i, d) \<in> set xs"
    if inv: "sql_inv st" and t: "TABLE_NAME_RE t" and l: "rs_list (SqlRowStore plan) st t wh = Inr xs"
      and w: "defined_where wh" "compileWhere wh = Inr p" and g: "rs_get (SqlRowStore plan) st t i = Some d"
      and pd: "p d"
  proof -
    obtain row where row: "row \<in> set st" "row_at t i row" "\<not> row_deleted row" "row_data row = d"
      using g sql_get_Some_iff [OF inv] by (auto simp: SqlRowStore_def)
    have doc: "json_obj d = d" using inv row by (auto simp: sql_inv_def list_all_iff)
    have "list_all (clause_holds d) (concat (map where_clause (case wh of None \<Rightarrow> [] | Some w \<Rightarrow> w)))"
    proof (cases wh)
      case (Some w)
      have "list_all (clause_holds d) (where_clause (f, v))" if "(f, v) \<in> set w" for f v
      proof -
        have "v \<noteq> JUndef \<or> \<not> FIELD_RE f" using w(1) that Some by (auto simp: defined_where_def list_all_iff)
        then show ?thesis
        proof
          assume "v \<noteq> JUndef"
          with compileWhere_entries [OF w(2) [unfolded Some] pd that]
          show ?thesis by (intro clause_superset doc) auto
        qed (simp add: where_clause_def)
      qed
      then show ?thesis by (auto simp: Some list_all_iff)
    qed simp
    then have "row \<in> set (filter (\<lambda>row. row_tbl row = t \<and> \<not> row_deleted row \<and> list_all (clause_holds (row_data row))
        (concat (map where_clause (case wh of None \<Rightarrow> [] | Some w \<Rightarrow> w)))) st)"
      using row by simp
    moreover have "(i, d) = (row_id row, row_data row)" using row by simp
    ultimately show ?thesis using l t by (auto simp: SqlRowStore_def sql_list_def Let_def)
  qed
qed

text \<open>Asked about a field whose value is undefined, SQLite returns no row.\<close>

lemma sql_list_undefined:
  assumes "TABLE_NAME_RE t" "\<not> defined_where wh"
  shows "sql_list plan rows t wh = Inr []"
proof -
  let ?cs = "concat (map where_clause (case wh of None \<Rightarrow> [] | Some w \<Rightarrow> w))"
  obtain w f where w: "wh = Some w" "(f, JUndef) \<in> set w" "FIELD_RE f"
    using assms(2) by (auto simp: defined_where_def list_all_iff split: option.splits)
  then have "Equals f SNull \<in> set ?cs" by (force simp: where_clause_def)
  moreover have "\<not> clause_holds d (Equals f SNull)" for d by (simp add: sql_eq_def)
  ultimately have "\<not> list_all (clause_holds d) ?cs" for d unfolding list_all_iff by blast
  then show ?thesis using assms(1) by (simp add: sql_list_def visit_def)
qed

end
