(* ===== verification/AppDef.thy ===== *)
theory AppDef
  imports Mutators
begin

text \<open>
  App definitions, protocol/src/app.ts: \<open>defineApp\<close> normalizes and checks the migration
  history, \<open>migrationPath\<close> selects the steps that carry a stored version forward.
\<close>

record SchemaMigration =
  mig_to :: int
  mig_migrate :: "prog option"

record AppDefinition =
  app_version :: int
  app_schema :: schema
  app_mutators :: mutators
  app_migrations :: "SchemaMigration list"
  app_authContext :: "(jval \<Rightarrow> jval verdict) option"
  app_presence :: "(jval \<Rightarrow> jval verdict) option"

text \<open>What an app passes; a migration entry's key is \<open>Number(key)\<close>.\<close>

record AppInput =
  in_version :: jnum
  in_schema :: schema
  in_mutators :: "Registry option"
  in_migrations :: "(jnum \<times> prog option) list"
  in_presence :: "(jval \<Rightarrow> jval verdict) option"
  in_crud :: bool

text \<open>Object spread: entries of the second object replace same-named ones of the first.\<close>

fun spread :: "('k \<times> 'v) list \<Rightarrow> ('k \<times> 'v) list \<Rightarrow> ('k \<times> 'v) list" where
  "spread a [] = a"
| "spread a ((k, v) # b) = spread (AList.update k v a) b"

definition app_err :: "string \<Rightarrow> err" where
  "app_err s = OtherError (''defineApp: '' @ s)"

fun collect_migrations :: "int \<Rightarrow> (jnum \<times> prog option) list \<Rightarrow> SchemaMigration list \<Rightarrow> SchemaMigration list res" where
  "collect_migrations version [] acc = Inr acc"
| "collect_migrations version ((key, migrate) # rest) acc =
     (case key of
        Fin to \<Rightarrow>
          if to < 2 then Inl (app_err ''not a valid target version'')
          else if version < to then Inl (app_err ''targets a version beyond the current one'')
          else collect_migrations version rest (acc @ [\<lparr>mig_to = to, mig_migrate = migrate\<rparr>])
      | _ \<Rightarrow> Inl (app_err ''not a valid target version''))"

fun check_consecutive :: "SchemaMigration list \<Rightarrow> unit res" where
  "check_consecutive (a # b # ms) =
     (if mig_to b \<noteq> mig_to a + 1 then Inl (app_err ''migrations must cover consecutive versions'')
      else check_consecutive (b # ms))"
| "check_consecutive _ = Inr ()"

definition defineApp :: "(jval \<Rightarrow> Issue list) \<Rightarrow> AppInput \<Rightarrow> AppDefinition res" where
  "defineApp zi inp =
     (case in_version inp of
        Fin version \<Rightarrow>
          if version < 1 then Inl (app_err ''version must be a positive integer'')
          else
            let defs = (case in_mutators inp of None \<Rightarrow> [] | Some r \<Rightarrow> reg_defs r) in
            if \<not> in_crud inp \<and> defs = [] then Inl (app_err ''crud: false with no mutators'')
            else
              let mutators = (if in_crud inp then spread (crudMutators zi) defs else spread [] defs) in
              bind_res (collect_migrations version (in_migrations inp) []) (\<lambda>ms.
                let migrations = sort_key mig_to ms in
                bind_res (check_consecutive migrations) (\<lambda>_.
                  if migrations \<noteq> [] \<and> mig_to (last migrations) \<noteq> version
                  then Inl (app_err ''migrations must end at version'')
                  else Inr \<lparr>app_version = version, app_schema = in_schema inp, app_mutators = mutators,
                            app_migrations = migrations,
                            app_authContext = Option.bind (in_mutators inp) reg_auth,
                            app_presence = in_presence inp\<rparr>))
      | _ \<Rightarrow> Inl (app_err ''version must be a positive integer''))"

definition migrationPath :: "AppDefinition \<Rightarrow> int \<Rightarrow> SchemaMigration list res" where
  "migrationPath app storedVersion =
     (if storedVersion = app_version app then Inr []
      else if app_version app < storedVersion then
        Inl (OtherError ''stored schema version is ahead of the deployed version'')
      else
        let steps = filter (\<lambda>step. storedVersion < mig_to step) (app_migrations app) in
        if int (length steps) \<noteq> app_version app - storedVersion then
          Inl (OtherError ''no migration path from stored schema version'')
        else Inr steps)"

section \<open>Migration histories\<close>

text \<open>The steps cover consecutive versions and end at the app's version.\<close>

definition chain_ok :: "AppDefinition \<Rightarrow> bool" where
  "chain_ok app \<longleftrightarrow>
     map mig_to (app_migrations app) =
       [app_version app - int (length (app_migrations app)) + 1 .. app_version app]"

lemma check_consecutive_upto:
  "check_consecutive ms = Inr () \<Longrightarrow> ms \<noteq> [] \<Longrightarrow>
     map mig_to ms = [mig_to (hd ms) .. mig_to (last ms)] \<and> mig_to (last ms) = mig_to (hd ms) + int (length ms) - 1"
proof (induction ms rule: check_consecutive.induct)
  case (1 a b ms)
  then have step: "mig_to b = mig_to a + 1"
    and ih: "map mig_to (b # ms) = [mig_to b .. mig_to (last (b # ms))]"
      "mig_to (last (b # ms)) = mig_to b + int (length (b # ms)) - 1"
    by (auto split: if_splits)
  have "[mig_to a .. mig_to (last (b # ms))] = mig_to a # [mig_to a + 1 .. mig_to (last (b # ms))]"
    using step ih(2) by (intro upto_rec1) simp
  with step ih show ?case by simp
qed auto

lemma defineApp_chain:
  assumes "defineApp zi inp = Inr app" shows "chain_ok app"
proof -
  obtain ms where ms: "check_consecutive (app_migrations app) = Inr ()"
      "app_migrations app = [] \<or> mig_to (last (app_migrations app)) = app_version app"
    using assms
    by (auto simp: defineApp_def Let_def bind_res_Inr_iff split: jnum.splits if_splits)
  show ?thesis
  proof (cases "app_migrations app = []")
    case False
    then have "map mig_to (app_migrations app) = [mig_to (hd (app_migrations app)) .. app_version app]"
      "mig_to (hd (app_migrations app)) = app_version app - int (length (app_migrations app)) + 1"
      using check_consecutive_upto [OF ms(1)] ms(2) by auto
    then show ?thesis by (simp add: chain_ok_def)
  qed (simp add: chain_ok_def)
qed

lemma filter_upto: "filter (\<lambda>x. s < x) [a .. b] = [max a (s + 1) .. b]"
proof (induction a b rule: upto.induct)
  case (1 a b)
  show ?case
  proof (cases "a \<le> b")
    case True
    consider "s + 1 < a" | "a = s + 1" | "a \<le> s" by linarith
    then show ?thesis using "1.IH" True by cases (auto simp: upto_rec1 max_def)
  qed auto
qed

lemma dropWhile_sorted:
  "sorted (map f xs) \<Longrightarrow> dropWhile (\<lambda>x. f x \<le> s) xs = filter (\<lambda>x. s < f x) xs" for f :: "'a \<Rightarrow> int"
proof (induction xs)
  case (Cons x xs)
  show ?case
  proof (cases "f x \<le> s")
    case False
    then have "\<forall>y \<in> set (x # xs). s < f y" using Cons.prems by fastforce
    then have "filter (\<lambda>x. s < f x) (x # xs) = x # xs" unfolding filter_id_conv .
    with False show ?thesis by simp
  qed (use Cons in auto)
qed simp

lemma migrationPath_chain:
  assumes "chain_ok app"
  shows "case migrationPath app s of
      Inr steps \<Rightarrow> s \<le> app_version app \<and> map mig_to steps = [s + 1 .. app_version app] \<and>
        (\<exists>older. app_migrations app = older @ steps)
    | Inl e \<Rightarrow> app_version app < s \<or> s < app_version app - int (length (app_migrations app))"
proof -
  define lo where "lo = app_version app - int (length (app_migrations app)) + 1"
  have all: "map mig_to (app_migrations app) = [lo .. app_version app]"
    using assms by (simp add: chain_ok_def lo_def)
  let ?f = "filter (\<lambda>step. s < mig_to step) (app_migrations app)"
  have f: "map mig_to ?f = [max lo (s + 1) .. app_version app]"
    using arg_cong [OF all, of "filter (\<lambda>x. s < x)"] by (simp add: filter_map comp_def filter_upto)
  then have len: "length ?f = length [max lo (s + 1) .. app_version app]" by (metis length_map)
  have suffix: "\<exists>older. app_migrations app = older @ ?f"
  proof -
    have "dropWhile (\<lambda>step. mig_to step \<le> s) (app_migrations app) = ?f"
      by (rule dropWhile_sorted) (simp add: all)
    then show ?thesis by (metis takeWhile_dropWhile_id)
  qed
  show ?thesis
    using f len suffix by (auto simp: migrationPath_def Let_def lo_def max_def split: if_splits)
qed

text \<open>
  For an app that \<open>defineApp\<close> accepted, the migration path from a stored version holds
  exactly one step per version from the stored one plus 1 up to the app's, in order, and is the
  tail of the declared history; it fails exactly when the stored version is ahead of the app or
  older than the history reaches, so no data is ever restamped without its migrations.
\<close>

theorem migrationPath_exact:
  assumes "defineApp zi inp = Inr app"
  shows "case migrationPath app stored of
      Inr steps \<Rightarrow> stored \<le> app_version app \<and> map mig_to steps = [stored + 1 .. app_version app] \<and>
        (\<exists>older. app_migrations app = older @ steps)
    | Inl e \<Rightarrow> app_version app < stored \<or> stored < app_version app - int (length (app_migrations app))"
  by (rule migrationPath_chain) (rule defineApp_chain [OF assms])

definition sample_app :: AppInput where
  "sample_app = \<lparr>in_version = Fin 3, in_schema = [], in_mutators = None,
     in_migrations = [(Fin 3, None), (Fin 2, Some Done)], in_presence = None, in_crud = True\<rparr>"

definition sample_history :: "SchemaMigration list" where
  "sample_history = [\<lparr>mig_to = 2, mig_migrate = Some Done\<rparr>, \<lparr>mig_to = 3, mig_migrate = None\<rparr>]"

theorem migrationPath_exact_witness:
  "map_sum id (map mig_to) (migrationPath \<lparr>app_version = 3, app_schema = [], app_mutators = crudMutators (\<lambda>_. []),
     app_migrations = sample_history, app_authContext = None, app_presence = None\<rparr> 1) = Inr [2, 3]"
proof -
  have d: "defineApp (\<lambda>_. []) sample_app = Inr \<lparr>app_version = 3, app_schema = [], app_mutators = crudMutators (\<lambda>_. []),
     app_migrations = sample_history, app_authContext = None, app_presence = None\<rparr>"
    by (simp add: defineApp_def sample_app_def sample_history_def Let_def)
  show ?thesis
    using migrationPath_exact [OF d, of 1]
    by (auto simp: migrationPath_def sample_history_def Let_def split: sum.splits)
qed

end
