(* ===== verification/WriteSet.thy ===== *)
theory WriteSet
  imports RowStore AppDef Messages
begin

text \<open>
  The per-mutation write buffer of server/src/engine-core.ts, over any row store: the
  transaction a mutator runs against (\<open>get\<close>, \<open>list\<close>, \<open>put\<close>, \<open>del\<close>), \<open>flush\<close>, and the run of
  application code on it.
\<close>

record RowWrite =
  w_tbl :: jstr
  w_id :: jstr
  w_data :: jobj

record Target =
  t_tbl :: jstr
  t_id :: jstr

record RowChange =
  ch_tbl :: jstr
  ch_id :: jstr
  ch_before :: "jobj option"
  ch_after :: "jobj option"

record WriteSet =
  ws_puts :: "(jstr \<times> RowWrite) list"
  ws_dels :: "(jstr \<times> Target) list"
  ws_before :: "(jstr \<times> jobj option) list"
  ws_validateAtFlush :: bool
  ws_trackChanges :: bool

definition new_WriteSet :: "bool \<Rightarrow> bool \<Rightarrow> WriteSet" where
  "new_WriteSet validateAtFlush trackChanges =
     \<lparr>ws_puts = [], ws_dels = [], ws_before = [], ws_validateAtFlush = validateAtFlush,
      ws_trackChanges = trackChanges\<rparr>"

definition has :: "('k \<times> 'v) list \<Rightarrow> 'k \<Rightarrow> bool" where
  "has m k = (map_of m k \<noteq> None)"

section \<open>Operations\<close>

definition tx_get :: "'s EngineRowStore \<Rightarrow> 's \<Rightarrow> WriteSet \<Rightarrow> jstr \<Rightarrow> jstr \<Rightarrow> jobj option res \<times> WriteSet" where
  "tx_get ops st ws tbl i =
     (case validateTarget tbl i of
        Inl e \<Rightarrow> (Inl e, ws)
      | Inr _ \<Rightarrow>
          let k = rowKey tbl i in
          if has (ws_dels ws) k then (Inr None, ws)
          else case map_of (ws_puts ws) k of
            Some buffered \<Rightarrow> (Inr (Some (w_data buffered)), ws)
          | None \<Rightarrow>
              let stored = rs_get ops st tbl i in
              if \<not> ws_trackChanges ws \<or> has (ws_before ws) k then (Inr stored, ws)
              else (Inr stored, ws\<lparr>ws_before := AList.update k stored (ws_before ws)\<rparr>))"

fun set_all :: "(jstr \<times> jobj) list \<Rightarrow> (jstr \<times> jobj) list \<Rightarrow> (jstr \<times> jobj) list" where
  "set_all merged [] = merged"
| "set_all merged ((i, d) # xs) = set_all (AList.update i d merged) xs"

fun drop_dels :: "jstr \<Rightarrow> (jstr \<times> jobj) list \<Rightarrow> Target list \<Rightarrow> (jstr \<times> jobj) list" where
  "drop_dels tbl merged [] = merged"
| "drop_dels tbl merged (d # ds) =
     drop_dels tbl (if t_tbl d = tbl then AList.delete (t_id d) merged else merged) ds"

fun overlay_puts :: "(jobj \<Rightarrow> bool) \<Rightarrow> jstr \<Rightarrow> (jstr \<times> jobj) list \<Rightarrow> RowWrite list \<Rightarrow> (jstr \<times> jobj) list" where
  "overlay_puts p tbl merged [] = merged"
| "overlay_puts p tbl merged (w # ws) =
     overlay_puts p tbl
       (if w_tbl w \<noteq> tbl then merged
        else if p (w_data w) then AList.update (w_id w) (w_data w) merged
        else AList.delete (w_id w) merged) ws"

definition tx_list ::
  "'s EngineRowStore \<Rightarrow> 's \<Rightarrow> WriteSet \<Rightarrow> jstr \<Rightarrow> jobj option \<Rightarrow> (jstr \<times> jobj) list res" where
  "tx_list ops st ws tbl wh =
     (if \<not> TABLE_NAME_RE tbl then Inl (invalid_args (js ''invalid table name '' @ quoted tbl))
      else
        bind_res (compileWhere wh) (\<lambda>p.
        bind_res (rs_list ops st tbl wh) (\<lambda>rows.
        Inr (overlay_puts p tbl
               (drop_dels tbl (set_all [] (filter (\<lambda>(i, d). p d) rows)) (map snd (ws_dels ws)))
               (map snd (ws_puts ws))))))"

definition rememberBefore :: "'s EngineRowStore \<Rightarrow> 's \<Rightarrow> jstr \<Rightarrow> jstr \<Rightarrow> WriteSet \<Rightarrow> WriteSet" where
  "rememberBefore ops st tbl i ws =
     (let k = rowKey tbl i in
      if ws_trackChanges ws \<and> \<not> has (ws_before ws) k
      then ws\<lparr>ws_before := AList.update k (rs_get ops st tbl i) (ws_before ws)\<rparr> else ws)"

definition row_too_large :: "jstr \<Rightarrow> jstr \<Rightarrow> nat \<Rightarrow> err" where
  "row_too_large tbl i bytes =
     AppError (js ''RowTooLarge'')
       (js ''row '' @ tbl @ js ''/'' @ i @ js '' is '' @ digits_of bytes @ js '' bytes (max ''
        @ digits_of MAX_ROW_BYTES @ js '')'')"

definition check_size :: "jstr \<Rightarrow> jstr \<Rightarrow> jobj \<Rightarrow> jobj res" where
  "check_size tbl i stored =
     (let bytes = jsonByteSize (JObj stored) in
      if MAX_ROW_BYTES < bytes then Inl (row_too_large tbl i bytes) else Inr stored)"

definition tx_put ::
  "'s EngineRowStore \<Rightarrow> schema \<Rightarrow> 's \<Rightarrow> WriteSet \<Rightarrow> jstr \<Rightarrow> jstr \<Rightarrow> jobj \<Rightarrow> unit res \<times> WriteSet" where
  "tx_put ops sch st ws tbl i data =
     (case bind_res (validateTarget tbl i) (\<lambda>_.
           bind_res (if ws_validateAtFlush ws then Inr data else validateRow sch tbl i data)
             (check_size tbl i)) of
        Inl e \<Rightarrow> (Inl e, ws)
      | Inr stored \<Rightarrow>
          let k = rowKey tbl i;
              ws = rememberBefore ops st tbl i ws
          in (Inr (), ws\<lparr>ws_dels := AList.delete k (ws_dels ws),
                         ws_puts := AList.update k \<lparr>w_tbl = tbl, w_id = i, w_data = stored\<rparr> (ws_puts ws)\<rparr>))"

definition tx_del :: "'s EngineRowStore \<Rightarrow> 's \<Rightarrow> WriteSet \<Rightarrow> jstr \<Rightarrow> jstr \<Rightarrow> unit res \<times> WriteSet" where
  "tx_del ops st ws tbl i =
     (case validateTarget tbl i of
        Inl e \<Rightarrow> (Inl e, ws)
      | Inr _ \<Rightarrow>
          let k = rowKey tbl i;
              ws = rememberBefore ops st tbl i ws
          in (Inr (), ws\<lparr>ws_puts := AList.delete k (ws_puts ws),
                         ws_dels := AList.update k \<lparr>t_tbl = tbl, t_id = i\<rparr> (ws_dels ws)\<rparr>))"

type_synonym 's flush_state = "'s \<times> (jstr \<times> jobj option) list"

definition flush_data :: "schema \<Rightarrow> bool \<Rightarrow> RowWrite \<Rightarrow> jobj res" where
  "flush_data sch atFlush w =
     (if atFlush then bind_res (validateRow sch (w_tbl w) (w_id w) (w_data w)) (check_size (w_tbl w) (w_id w))
      else Inr (w_data w))"

definition flush_put :: "'s EngineRowStore \<Rightarrow> schema \<Rightarrow> bool \<Rightarrow> int \<Rightarrow> RowWrite \<Rightarrow> 's flush_state \<Rightarrow> 's flush_state res" where
  "flush_put ops sch atFlush version w = (\<lambda>(st, after).
     bind_res (flush_data sch atFlush w)
       (\<lambda>stored. Inr (rs_put ops st (w_tbl w) (w_id w) stored version,
                      AList.update (rowKey (w_tbl w) (w_id w)) (Some stored) after)))"

fun flush_dels :: "'s EngineRowStore \<Rightarrow> int \<Rightarrow> Target list \<Rightarrow> 's flush_state \<Rightarrow> 's flush_state" where
  "flush_dels ops version [] (st, after) = (st, after)"
| "flush_dels ops version (d # ds) (st, after) =
     (let (st', n) = rs_del ops st (t_tbl d) (t_id d) version in
      flush_dels ops version ds
        (st', if 0 < n then AList.update (rowKey (t_tbl d) (t_id d)) None after else after))"

text \<open>The target of a remembered key: the put's, else the delete's.\<close>

definition change_target :: "WriteSet \<Rightarrow> jstr \<Rightarrow> jstr \<times> jstr" where
  "change_target ws k =
     (case map_of (ws_puts ws) k of
        Some w \<Rightarrow> (w_tbl w, w_id w)
      | None \<Rightarrow> (case map_of (ws_dels ws) k of Some d \<Rightarrow> (t_tbl d, t_id d) | None \<Rightarrow> ([], [])))"

definition changes_of :: "WriteSet \<Rightarrow> (jstr \<times> jobj option) list \<Rightarrow> RowChange list" where
  "changes_of ws after =
     map (\<lambda>(k, before). \<lparr>ch_tbl = fst (change_target ws k), ch_id = snd (change_target ws k),
                          ch_before = before, ch_after = the (map_of after k)\<rparr>)
       (filter (\<lambda>(k, before). has after k) (ws_before ws))"

definition flush ::
  "'s EngineRowStore \<Rightarrow> schema \<Rightarrow> 's \<Rightarrow> WriteSet \<Rightarrow> int \<Rightarrow> ('s \<times> nat \<times> RowChange list) res" where
  "flush ops sch st ws version =
     bind_res (fold_res (flush_put ops sch (ws_validateAtFlush ws) version) (map snd (ws_puts ws)) (st, []))
       (\<lambda>s. let (st', after) = flush_dels ops version (map snd (ws_dels ws)) s in
            Inr (st', length after, changes_of ws after))"

section \<open>Running application code\<close>

text \<open>
  The error a run ends with, if any. \<open>list\<close> and \<open>get\<close> hand out private copies, so application
  code can change the buffer only through the calls.
\<close>

primrec run_prog ::
  "'s EngineRowStore \<Rightarrow> schema \<Rightarrow> 's \<Rightarrow> prog \<Rightarrow> WriteSet \<Rightarrow> WriteSet \<times> err option" where
  "run_prog ops sch st Done ws = (ws, None)"
| "run_prog ops sch st (Throw e) ws = (ws, Some e)"
| "run_prog ops sch st (CallGet t i k) ws =
     (let (r, ws') = tx_get ops st ws t i in run_prog ops sch st (k r) ws')"
| "run_prog ops sch st (CallList t wh k) ws = run_prog ops sch st (k (tx_list ops st ws t wh)) ws"
| "run_prog ops sch st (CallPut t i d k) ws =
     (let (r, ws') = tx_put ops sch st ws t i d in run_prog ops sch st (k r) ws')"
| "run_prog ops sch st (CallDel t i k) ws =
     (let (r, ws') = tx_del ops st ws t i in run_prog ops sch st (k r) ws')"

section \<open>The buffer's invariant\<close>

text \<open>
  Entries are keyed by their row, name valid tables, no row is both put and deleted, and what
  is remembered is the stored row.
\<close>

definition puts_ok :: "(jstr \<times> RowWrite) list \<Rightarrow> bool" where
  "puts_ok ps \<longleftrightarrow> distinct (map fst ps) \<and>
     (\<forall>k w. map_of ps k = Some w \<longrightarrow> k = rowKey (w_tbl w) (w_id w) \<and> TABLE_NAME_RE (w_tbl w) \<and> id_ok (w_id w))"

definition dels_ok :: "(jstr \<times> Target) list \<Rightarrow> bool" where
  "dels_ok ds \<longleftrightarrow> distinct (map fst ds) \<and>
     (\<forall>k d. map_of ds k = Some d \<longrightarrow> k = rowKey (t_tbl d) (t_id d) \<and> TABLE_NAME_RE (t_tbl d) \<and> id_ok (t_id d))"

definition before_ok :: "'s EngineRowStore \<Rightarrow> 's \<Rightarrow> (jstr \<times> jobj option) list \<Rightarrow> bool" where
  "before_ok ops st bs \<longleftrightarrow> distinct (map fst bs) \<and>
     (\<forall>t i. TABLE_NAME_RE t \<and> has bs (rowKey t i) \<longrightarrow> map_of bs (rowKey t i) = Some (rs_get ops st t i))"

definition ws_inv :: "'s EngineRowStore \<Rightarrow> 's \<Rightarrow> WriteSet \<Rightarrow> bool" where
  "ws_inv ops st ws \<longleftrightarrow>
     puts_ok (ws_puts ws) \<and> dels_ok (ws_dels ws) \<and> before_ok ops st (ws_before ws) \<and>
     (\<forall>k. \<not> (has (ws_puts ws) k \<and> has (ws_dels ws) k)) \<and>
     (if ws_trackChanges ws then \<forall>k. has (ws_puts ws) k \<or> has (ws_dels ws) k \<longrightarrow> has (ws_before ws) k
      else ws_before ws = [])"

text \<open>The row a mutation sees at a target: its own write over the stored row.\<close>

definition view :: "'s EngineRowStore \<Rightarrow> 's \<Rightarrow> WriteSet \<Rightarrow> jstr \<Rightarrow> jstr \<Rightarrow> jobj option" where
  "view ops st ws t i =
     (if has (ws_dels ws) (rowKey t i) then None
      else case map_of (ws_puts ws) (rowKey t i) of
        Some w \<Rightarrow> Some (w_data w)
      | None \<Rightarrow> rs_get ops st t i)"

lemma has_update [map_facts]: "has (AList.update k v m) k' \<longleftrightarrow> k' = k \<or> has m k'"
  by (auto simp: has_def map_of_update)

lemma has_delete [map_facts]: "has (AList.delete k m) k' \<longleftrightarrow> k' \<noteq> k \<and> has m k'"
  by (auto simp: has_def map_of_delete)

lemma has_Cons [map_facts]: "has ((k, v) # m) k' \<longleftrightarrow> k' = k \<or> has m k'"
  by (auto simp: has_def)

lemma has_Nil [simp]: "\<not> has [] k"
  by (simp add: has_def)

lemma puts_ok_update:
  "puts_ok ps \<Longrightarrow> TABLE_NAME_RE t \<Longrightarrow> id_ok i \<Longrightarrow>
   puts_ok (AList.update (rowKey t i) \<lparr>w_tbl = t, w_id = i, w_data = d\<rparr> ps)"
  by (auto simp: puts_ok_def map_of_update distinct_update)

lemma puts_ok_delete: "puts_ok ps \<Longrightarrow> puts_ok (AList.delete k ps)"
  by (auto simp: puts_ok_def map_of_delete distinct_delete)

lemma dels_ok_update:
  "dels_ok ds \<Longrightarrow> TABLE_NAME_RE t \<Longrightarrow> id_ok i \<Longrightarrow> dels_ok (AList.update (rowKey t i) \<lparr>t_tbl = t, t_id = i\<rparr> ds)"
  by (auto simp: dels_ok_def map_of_update distinct_update)

lemma dels_ok_delete: "dels_ok ds \<Longrightarrow> dels_ok (AList.delete k ds)"
  by (auto simp: dels_ok_def map_of_delete distinct_delete)

lemma before_ok_update:
  assumes "before_ok ops st bs" "TABLE_NAME_RE t"
  shows "before_ok ops st (AList.update (rowKey t i) (rs_get ops st t i) bs)"
  using assms by (auto simp: before_ok_def map_of_update has_update rowKey_inj distinct_update)

lemma puts_ok_Cons:
  assumes "puts_ok ((k, w) # ps)"
  shows "k = rowKey (w_tbl w) (w_id w) \<and> TABLE_NAME_RE (w_tbl w) \<and> map_of ps k = None \<and> puts_ok ps"
proof -
  have "map_of ((k, w) # ps) k = Some w" by simp
  then have a: "k = rowKey (w_tbl w) (w_id w)" "TABLE_NAME_RE (w_tbl w)" using assms unfolding puts_ok_def by blast+
  have b: "map_of ps k = None" using assms by (simp add: puts_ok_def map_of_eq_None_iff)
  then have "map_of ((k, w) # ps) k' = Some x" if "map_of ps k' = Some x" for k' x using that by auto
  then have "\<forall>k' x. map_of ps k' = Some x \<longrightarrow> k' = rowKey (w_tbl x) (w_id x) \<and> TABLE_NAME_RE (w_tbl x) \<and> id_ok (w_id x)"
    using assms unfolding puts_ok_def by blast
  then have "puts_ok ps" using assms by (simp add: puts_ok_def)
  with a b show ?thesis by blast
qed

lemma dels_ok_Cons:
  assumes "dels_ok ((k, d) # ds)"
  shows "k = rowKey (t_tbl d) (t_id d) \<and> TABLE_NAME_RE (t_tbl d) \<and> map_of ds k = None \<and> dels_ok ds"
proof -
  have "map_of ((k, d) # ds) k = Some d" by simp
  then have a: "k = rowKey (t_tbl d) (t_id d)" "TABLE_NAME_RE (t_tbl d)" using assms unfolding dels_ok_def by blast+
  have b: "map_of ds k = None" using assms by (simp add: dels_ok_def map_of_eq_None_iff)
  then have "map_of ((k, d) # ds) k' = Some x" if "map_of ds k' = Some x" for k' x using that by auto
  then have "\<forall>k' x. map_of ds k' = Some x \<longrightarrow> k' = rowKey (t_tbl x) (t_id x) \<and> TABLE_NAME_RE (t_tbl x) \<and> id_ok (t_id x)"
    using assms unfolding dels_ok_def by blast
  then have "dels_ok ds" using assms by (simp add: dels_ok_def)
  with a b show ?thesis by blast
qed

lemmas buffer_ok = puts_ok_update puts_ok_delete dels_ok_update dels_ok_delete before_ok_update

lemma ws_inv_new: "ws_inv ops st (new_WriteSet a b)"
  by (simp add: ws_inv_def new_WriteSet_def puts_ok_def dels_ok_def before_ok_def)

lemma ws_inv_before:
  assumes "ws_inv ops st ws" "TABLE_NAME_RE t" "ws_trackChanges ws"
  shows "ws_inv ops st (ws\<lparr>ws_before := AList.update (rowKey t i) (rs_get ops st t i) (ws_before ws)\<rparr>)"
  using assms by (simp add: ws_inv_def before_ok_update has_update)

lemma ws_inv_remember:
  "ws_inv ops st ws \<Longrightarrow> TABLE_NAME_RE t \<Longrightarrow> ws_inv ops st (rememberBefore ops st t i ws)"
  by (auto simp: rememberBefore_def Let_def ws_inv_before)

lemma remember_fields [simp]:
  "ws_puts (rememberBefore ops st t i ws) = ws_puts ws"
  "ws_dels (rememberBefore ops st t i ws) = ws_dels ws"
  "ws_validateAtFlush (rememberBefore ops st t i ws) = ws_validateAtFlush ws"
  "ws_trackChanges (rememberBefore ops st t i ws) = ws_trackChanges ws"
  by (simp_all add: rememberBefore_def Let_def)

lemma remember_has: "ws_trackChanges ws \<Longrightarrow> has (ws_before (rememberBefore ops st t i ws)) (rowKey t i)"
  by (simp add: rememberBefore_def Let_def has_update)

text \<open>What a successful \<open>put\<close> and \<open>del\<close> do to the buffer.\<close>

definition after_put :: "WriteSet \<Rightarrow> jstr \<Rightarrow> jstr \<Rightarrow> jobj \<Rightarrow> WriteSet" where
  "after_put ws t i d = ws\<lparr>ws_dels := AList.delete (rowKey t i) (ws_dels ws),
     ws_puts := AList.update (rowKey t i) \<lparr>w_tbl = t, w_id = i, w_data = d\<rparr> (ws_puts ws)\<rparr>"

definition after_del :: "WriteSet \<Rightarrow> jstr \<Rightarrow> jstr \<Rightarrow> WriteSet" where
  "after_del ws t i = ws\<lparr>ws_puts := AList.delete (rowKey t i) (ws_puts ws),
     ws_dels := AList.update (rowKey t i) \<lparr>t_tbl = t, t_id = i\<rparr> (ws_dels ws)\<rparr>"

lemma tx_put_cases:
  obtains (error) e where "tx_put ops sch st ws t i d = (Inl e, ws)"
  | (ok) stored where "tx_put ops sch st ws t i d = (Inr (), after_put (rememberBefore ops st t i ws) t i stored)"
      "TABLE_NAME_RE t" "id_ok i" "jsonByteSize (JObj stored) \<le> MAX_ROW_BYTES"
      "if ws_validateAtFlush ws then stored = d else validateRow sch t i d = Inr stored"
proof (cases "bind_res (validateTarget t i) (\<lambda>_. bind_res (if ws_validateAtFlush ws then Inr d else validateRow sch t i d)
             (check_size t i))")
  case (Inl e)
  then show thesis by (intro error [of e]) (simp add: tx_put_def)
next
  case (Inr stored)
  then have "TABLE_NAME_RE t" "id_ok i" "jsonByteSize (JObj stored) \<le> MAX_ROW_BYTES"
      "if ws_validateAtFlush ws then stored = d else validateRow sch t i d = Inr stored"
    by (auto simp: bind_res_Inr_iff validateTarget_iff check_size_def Let_def split: if_splits)
  then show thesis using Inr by (intro ok [of stored]) (simp_all add: tx_put_def Let_def after_put_def)
qed

lemma tx_del_cases:
  obtains (error) e where "tx_del ops st ws t i = (Inl e, ws)"
  | (ok) "tx_del ops st ws t i = (Inr (), after_del (rememberBefore ops st t i ws) t i)"
      "TABLE_NAME_RE t" "id_ok i"
  by (rule validateTarget_cases [of t i]) (auto simp: tx_del_def Let_def after_del_def)

lemma ws_inv_put:
  assumes "ws_inv ops st ws" "TABLE_NAME_RE t" "id_ok i"
    and "ws_trackChanges ws \<longrightarrow> has (ws_before ws) (rowKey t i)"
  shows "ws_inv ops st (after_put ws t i d)"
  using assms by (auto simp: ws_inv_def after_put_def buffer_ok has_update has_delete)

lemma ws_inv_del:
  assumes "ws_inv ops st ws" "TABLE_NAME_RE t" "id_ok i"
    and "ws_trackChanges ws \<longrightarrow> has (ws_before ws) (rowKey t i)"
  shows "ws_inv ops st (after_del ws t i)"
  using assms by (auto simp: ws_inv_def after_del_def buffer_ok has_update has_delete)

lemma tx_get_inv:
  assumes "ws_inv ops st ws" shows "ws_inv ops st (snd (tx_get ops st ws t i))"
  by (rule validateTarget_cases [of t i])
    (auto simp: tx_get_def Let_def assms split: option.splits intro!: ws_inv_before)

lemma tx_put_inv:
  assumes "ws_inv ops st ws" shows "ws_inv ops st (snd (tx_put ops sch st ws t i d))"
  by (rule tx_put_cases [of ops sch st ws t i d])
    (auto simp: assms remember_has intro!: ws_inv_put ws_inv_remember)

lemma tx_del_inv:
  assumes "ws_inv ops st ws" shows "ws_inv ops st (snd (tx_del ops st ws t i))"
  by (rule tx_del_cases [of ops st ws t i])
    (auto simp: assms remember_has intro!: ws_inv_del ws_inv_remember)

lemma run_prog_inv: "ws_inv ops st ws \<Longrightarrow> ws_inv ops st (fst (run_prog ops sch st p ws))"
proof (induction p arbitrary: ws)
  case (CallGet t i k)
  show ?case using CallGet.IH [OF rangeI tx_get_inv [OF CallGet.prems, of t i]] by (simp add: Let_def case_prod_beta)
next
  case (CallPut t i d k)
  show ?case using CallPut.IH [OF rangeI tx_put_inv [OF CallPut.prems, of sch t i d]] by (simp add: Let_def case_prod_beta)
next
  case (CallDel t i k)
  show ?case using CallDel.IH [OF rangeI tx_del_inv [OF CallDel.prems, of t i]] by (simp add: Let_def case_prod_beta)
qed simp_all

section \<open>What the buffer means\<close>

text \<open>\<open>get\<close> reads the view and leaves it alone; \<open>put\<close> and \<open>del\<close> change it at their target only.\<close>

lemma view_remember [simp]: "view ops st (rememberBefore ops st t i ws) = view ops st ws"
  by (simp add: view_def fun_eq_iff)

lemma tx_get_view:
  assumes "TABLE_NAME_RE t" "id_ok i"
  shows "fst (tx_get ops st ws t i) = Inr (view ops st ws t i)"
  using assms by (simp add: tx_get_def view_def Let_def split: option.splits)

lemma tx_get_keeps: "view ops st (snd (tx_get ops st ws t i)) = view ops st ws"
  by (auto simp: tx_get_def Let_def view_def fun_eq_iff split: sum.splits option.splits)

lemma view_after_put:
  assumes "TABLE_NAME_RE t" "TABLE_NAME_RE t'"
  shows "view ops st (after_put ws t i d) t' i' = (if t' = t \<and> i' = i then Some d else view ops st ws t' i')"
  using assms by (auto simp: view_def after_put_def map_of_update has_delete rowKey_inj)

lemma view_after_del:
  assumes "TABLE_NAME_RE t" "TABLE_NAME_RE t'"
  shows "view ops st (after_del ws t i) t' i' = (if t' = t \<and> i' = i then None else view ops st ws t' i')"
  using assms by (auto simp: view_def after_del_def map_of_delete has_update rowKey_inj)

text \<open>\<open>list\<close>: the three passes over the merged map.\<close>

lemma map_of_set_all:
  "distinct (map fst xs) \<Longrightarrow>
     map_of (set_all m xs) i = (case map_of xs i of Some d \<Rightarrow> Some d | None \<Rightarrow> map_of m i)"
  by (induction m xs rule: set_all.induct)
    (auto simp: map_of_update split: option.splits dest: map_of_SomeD intro: rev_image_eqI)

lemma distinct_set_all: "distinct (map fst m) \<Longrightarrow> distinct (map fst (set_all m xs))"
  by (induction m xs rule: set_all.induct) (auto simp: distinct_update)

lemma map_of_drop_dels:
  "map_of (drop_dels t m ds) i = (if \<exists>d \<in> set ds. t_tbl d = t \<and> t_id d = i then None else map_of m i)"
  by (induction t m ds rule: drop_dels.induct) (auto simp: map_of_delete)

lemma distinct_drop_dels: "distinct (map fst m) \<Longrightarrow> distinct (map fst (drop_dels t m ds))"
  by (induction t m ds rule: drop_dels.induct) (auto simp: distinct_delete)

lemma distinct_overlay: "distinct (map fst m) \<Longrightarrow> distinct (map fst (overlay_puts p t m ws))"
  by (induction p t m ws rule: overlay_puts.induct) (auto simp: distinct_update distinct_delete)

lemma overlay_other:
  "\<not> (\<exists>w \<in> set ws. w_tbl w = t \<and> w_id w = i) \<Longrightarrow> map_of (overlay_puts p t m ws) i = map_of m i"
  by (induction p t m ws rule: overlay_puts.induct) (auto simp: map_of_update map_of_delete)

lemma overlay_at:
  assumes "distinct (map (\<lambda>w. (w_tbl w, w_id w)) ws)" "w \<in> set ws" "w_tbl w = t" "w_id w = i"
  shows "map_of (overlay_puts p t m ws) i = (if p (w_data w) then Some (w_data w) else None)"
  using assms
proof (induction p t m ws rule: overlay_puts.induct)
  case (2 p tbl m w' ws)
  show ?case
  proof (cases "w = w'")
    case True
    then have "\<not> (\<exists>v \<in> set ws. w_tbl v = tbl \<and> w_id v = i)" using "2.prems" by (auto simp: image_iff)
    then show ?thesis using True "2.prems" by (simp add: overlay_other map_of_update map_of_delete)
  next
    case False
    then show ?thesis using 2 by simp
  qed
qed simp

text \<open>Two answers to a query with the same rows, and code whose behaviour does not depend on which it gets.\<close>

definition same_rows :: "(jstr \<times> jobj) list \<Rightarrow> (jstr \<times> jobj) list \<Rightarrow> bool" where
  "same_rows xs ys \<longleftrightarrow> distinct (map fst xs) \<and> distinct (map fst ys) \<and> map_of xs = map_of ys"

primrec order_blind :: "prog \<Rightarrow> bool" where
  "order_blind Done = True"
| "order_blind (Throw e) = True"
| "order_blind (CallGet t i k) = (\<forall>r. order_blind (k r))"
| "order_blind (CallList t wh k) \<longleftrightarrow>
     (\<forall>xs ys. same_rows xs ys \<longrightarrow> k (Inr xs) = k (Inr ys)) \<and> (\<forall>r. order_blind (k r))"
| "order_blind (CallPut t i d k) = (\<forall>r. order_blind (k r))"
| "order_blind (CallDel t i k) = (\<forall>r. order_blind (k r))"

definition overlaid :: "(jobj \<Rightarrow> bool) \<Rightarrow> jstr \<Rightarrow> Target list \<Rightarrow> RowWrite list \<Rightarrow> (jstr \<times> jobj) list \<Rightarrow> (jstr \<times> jobj) list" where
  "overlaid p t ds ps rows = overlay_puts p t (drop_dels t (set_all [] rows) ds) ps"

lemma overlay_cong: "map_of m = map_of m' \<Longrightarrow> map_of (overlay_puts p t m ws) = map_of (overlay_puts p t m' ws)"
proof (induction ws arbitrary: m m')
  case (Cons w ws)
  let ?f = "\<lambda>m. if w_tbl w \<noteq> t then m else if p (w_data w) then AList.update (w_id w) (w_data w) m else AList.delete (w_id w) m"
  have "map_of (?f m) = map_of (?f m')" using Cons.prems by (auto simp: map_of_update map_of_delete)
  from Cons.IH [OF this] show ?case by simp
qed simp

lemma distinct_overlaid: "distinct (map fst (overlaid p t ds ps rows))"
  unfolding overlaid_def by (intro distinct_overlay distinct_drop_dels distinct_set_all) simp

lemma overlaid_same:
  assumes "same_rows xs ys" shows "same_rows (overlaid p t ds ps xs) (overlaid p t ds ps ys)"
proof -
  have "map_of (drop_dels t (set_all [] xs) ds) = map_of (drop_dels t (set_all [] ys) ds)"
    using assms by (intro ext) (auto simp: same_rows_def map_of_drop_dels map_of_set_all)
  from overlay_cong [OF this] show ?thesis by (simp add: same_rows_def distinct_overlaid) (simp add: overlaid_def)
qed

lemma tx_list_overlaid:
  assumes "TABLE_NAME_RE t" "compileWhere wh = Inr p" "rs_list ops st t wh = Inr rows"
  shows "tx_list ops st ws t wh =
    Inr (overlaid p t (map snd (ws_dels ws)) (map snd (ws_puts ws)) (filter (\<lambda>(i, d). p d) rows))"
  using assms by (simp add: tx_list_def overlaid_def)

lemma puts_rows_distinct:
  assumes "puts_ok ps" shows "distinct (map (\<lambda>w. (w_tbl w, w_id w)) (map snd ps))"
proof -
  have key: "\<And>k w. (k, w) \<in> set ps \<Longrightarrow> k = rowKey (w_tbl w) (w_id w)"
    using assms by (auto simp: puts_ok_def)
  then have "map fst ps = map (\<lambda>w. rowKey (w_tbl w) (w_id w)) (map snd ps)" by force
  then have "distinct (map (\<lambda>w. rowKey (w_tbl w) (w_id w)) (map snd ps))"
    using assms unfolding puts_ok_def by metis
  then show ?thesis by (auto simp: distinct_map inj_on_def)
qed

lemma put_at_iff:
  assumes "puts_ok ps" "TABLE_NAME_RE t"
  shows "w \<in> snd ` set ps \<and> w_tbl w = t \<and> w_id w = i \<longleftrightarrow> map_of ps (rowKey t i) = Some w"
proof
  assume w: "w \<in> snd ` set ps \<and> w_tbl w = t \<and> w_id w = i"
  then obtain k where "(k, w) \<in> set ps" by auto
  then have "map_of ps k = Some w" using assms(1) by (simp add: puts_ok_def)
  with w assms(1) show "map_of ps (rowKey t i) = Some w" by (auto simp: puts_ok_def)
next
  assume m: "map_of ps (rowKey t i) = Some w"
  then have "rowKey t i = rowKey (w_tbl w) (w_id w) \<and> TABLE_NAME_RE (w_tbl w)"
    using assms(1) by (auto simp: puts_ok_def)
  then show "w \<in> snd ` set ps \<and> w_tbl w = t \<and> w_id w = i"
    using assms(2) m by (force simp: rowKey_inj dest: map_of_SomeD)
qed

lemma del_at_iff:
  assumes "dels_ok ds" "TABLE_NAME_RE t"
  shows "(\<exists>d \<in> snd ` set ds. t_tbl d = t \<and> t_id d = i) \<longleftrightarrow> has ds (rowKey t i)"
proof
  assume "\<exists>d \<in> snd ` set ds. t_tbl d = t \<and> t_id d = i"
  then obtain k d where d: "(k, d) \<in> set ds" "t_tbl d = t" "t_id d = i" by auto
  then have "map_of ds k = Some d" using assms(1) by (simp add: dels_ok_def)
  with d assms(1) show "has ds (rowKey t i)" by (auto simp: dels_ok_def has_def)
next
  assume "has ds (rowKey t i)"
  then obtain d where m: "map_of ds (rowKey t i) = Some d" by (auto simp: has_def)
  then have "rowKey t i = rowKey (t_tbl d) (t_id d) \<and> TABLE_NAME_RE (t_tbl d)"
    using assms(1) by (auto simp: dels_ok_def)
  then show "\<exists>d \<in> snd ` set ds. t_tbl d = t \<and> t_id d = i"
    using assms(2) m by (force simp: rowKey_inj dest: map_of_SomeD)
qed

definition parsed :: "schema \<Rightarrow> bool \<Rightarrow> RowWrite \<Rightarrow> jobj" where
  "parsed sch atFlush w = (case flush_data sch atFlush w of Inr d \<Rightarrow> d | Inl _ \<Rightarrow> [])"

text \<open>The row a flush leaves at a target.\<close>

definition flushed :: "'s EngineRowStore \<Rightarrow> schema \<Rightarrow> 's \<Rightarrow> WriteSet \<Rightarrow> jstr \<Rightarrow> jstr \<Rightarrow> jobj option" where
  "flushed ops sch st ws t i =
     (if has (ws_dels ws) (rowKey t i) then None
      else case map_of (ws_puts ws) (rowKey t i) of
        Some w \<Rightarrow> Some (parsed sch (ws_validateAtFlush ws) w)
      | None \<Rightarrow> rs_get ops st t i)"

text \<open>The rows a flush reports: each row it changed, once, with its stored value before.\<close>

definition change_ok :: "'s EngineRowStore \<Rightarrow> schema \<Rightarrow> 's \<Rightarrow> WriteSet \<Rightarrow> RowChange \<Rightarrow> bool" where
  "change_ok ops sch st ws c \<longleftrightarrow>
     ch_before c = rs_get ops st (ch_tbl c) (ch_id c) \<and>
     ch_after c = flushed ops sch st ws (ch_tbl c) (ch_id c) \<and>
     (ch_before c \<noteq> None \<or> ch_after c \<noteq> None)"

context row_store
begin

lemma tx_list_view:
  assumes "inv st" "ws_inv ops st ws" "TABLE_NAME_RE t" "defined_where wh" "compileWhere wh = Inr p"
  shows "\<exists>xs. tx_list ops st ws t wh = Inr xs \<and> distinct (map fst xs) \<and>
    (\<forall>i. map_of xs i = (case view ops st ws t i of Some d \<Rightarrow> if p d then Some d else None | None \<Rightarrow> None))"
proof -
  obtain rows where rows: "rs_list ops st t wh = Inr rows" using list_total [OF assms(3)] by blast
  let ?m0 = "set_all [] (filter (\<lambda>(i, d). p d) rows)"
  let ?m1 = "drop_dels t ?m0 (map snd (ws_dels ws))"
  let ?xs = "overlay_puts p t ?m1 (map snd (ws_puts ws))"
  have ok: "puts_ok (ws_puts ws)" "dels_ok (ws_dels ws)"
    "\<And>k. \<not> (has (ws_puts ws) k \<and> has (ws_dels ws) k)"
    using assms(2) by (auto simp: ws_inv_def)
  have run: "tx_list ops st ws t wh = Inr ?xs" using assms(3,5) rows by (simp add: tx_list_def)
  have "distinct (map fst (filter (\<lambda>(i, d). p d) rows))"
    using list_live [OF assms(1,3) rows] by (auto intro: distinct_map_filter)
  then have m0: "map_of ?m0 i = (case rs_get ops st t i of Some d \<Rightarrow> if p d then Some d else None | None \<Rightarrow> None)" for i
    using list_exact [OF assms(1,3) rows assms(4,5), of i] by (auto simp: map_of_set_all split: option.splits)
  have m1: "map_of ?m1 i = (if has (ws_dels ws) (rowKey t i) then None else map_of ?m0 i)" for i
    using del_at_iff [OF ok(2) assms(3), of i] by (simp add: map_of_drop_dels)
  have "map_of ?xs i = (case view ops st ws t i of Some d \<Rightarrow> if p d then Some d else None | None \<Rightarrow> None)" for i
  proof (cases "map_of (ws_puts ws) (rowKey t i)")
    case None
    then have "\<not> (\<exists>w \<in> set (map snd (ws_puts ws)). w_tbl w = t \<and> w_id w = i)"
      using put_at_iff [OF ok(1) assms(3), of _ i] by auto
    then show ?thesis using None by (simp add: overlay_other m0 m1 view_def)
  next
    case (Some w)
    then have "w \<in> set (map snd (ws_puts ws))" "w_tbl w = t" "w_id w = i"
      using put_at_iff [OF ok(1) assms(3), of w i] by auto
    moreover have "\<not> has (ws_dels ws) (rowKey t i)" using ok(3) [of "rowKey t i"] Some by (auto simp: has_def)
    ultimately show ?thesis
      using overlay_at [OF puts_rows_distinct [OF ok(1)]] Some by (simp add: view_def)
  qed
  moreover have "distinct (map fst ?xs)"
    by (intro distinct_overlay distinct_drop_dels distinct_set_all) simp
  ultimately show ?thesis using run by blast
qed

text \<open>\<open>flush\<close>: the puts, then the deletes.\<close>

lemma flush_puts:
  assumes "inv st" "puts_ok ps" "fold_res (flush_put ops sch b v) (map snd ps) (st, after) = Inr (st', after')"
    and "distinct (map fst after)" "\<forall>k. \<not> (has ps k \<and> has after k)"
  shows "inv st' \<and> distinct (map fst after') \<and> length after' = length after + length ps \<and>
    (\<forall>k. map_of after' k = (case map_of ps k of Some w \<Rightarrow> Some (Some (parsed sch b w)) | None \<Rightarrow> map_of after k)) \<and>
    (\<forall>t i. TABLE_NAME_RE t \<longrightarrow> rs_get ops st' t i =
       (case map_of ps (rowKey t i) of Some w \<Rightarrow> Some (norm (parsed sch b w)) | None \<Rightarrow> rs_get ops st t i))"
  using assms
proof (induction ps arbitrary: st after)
  case (Cons kw ps)
  obtain k w where kw: "kw = (k, w)" by (cases kw)
  have w: "k = rowKey (w_tbl w) (w_id w)" "TABLE_NAME_RE (w_tbl w)"
    and fresh: "map_of ps k = None" and ps: "puts_ok ps"
    using puts_ok_Cons [OF Cons.prems(2) [unfolded kw]] by auto
  have fresh': "\<not> has ps k" using fresh by (simp add: has_def)
  obtain d where d: "flush_data sch b w = Inr d"
    using Cons.prems(3) by (auto simp: kw flush_put_def bind_res_Inr_iff)
  then have p: "parsed sch b w = d" by (simp add: parsed_def)
  let ?st = "rs_put ops st (w_tbl w) (w_id w) d v" and ?after = "AList.update k (Some d) after"
  have after_k: "map_of after k = None" using spec [OF Cons.prems(5), of k] by (simp add: kw has_def)
  have "inv st' \<and> distinct (map fst after') \<and> length after' = length ?after + length ps \<and>
    (\<forall>k. map_of after' k = (case map_of ps k of Some w \<Rightarrow> Some (Some (parsed sch b w)) | None \<Rightarrow> map_of ?after k)) \<and>
    (\<forall>t i. TABLE_NAME_RE t \<longrightarrow> rs_get ops st' t i =
       (case map_of ps (rowKey t i) of Some w \<Rightarrow> Some (norm (parsed sch b w)) | None \<Rightarrow> rs_get ops ?st t i))"
  proof (rule Cons.IH [OF inv_put [OF Cons.prems(1) w(2)] ps])
    show "fold_res (flush_put ops sch b v) (map snd ps) (?st, ?after) = Inr (st', after')"
      using Cons.prems(3) d by (simp add: kw flush_put_def [of ops sch b v w] w(1))
    show "distinct (map fst ?after)" using Cons.prems(4) by (rule distinct_update)
    show "\<forall>k'. \<not> (has ps k' \<and> has ?after k')"
      using Cons.prems(5) fresh' by (auto simp: kw has_update has_Cons)
  qed
  then show ?case
    using fresh after_k w Cons.prems(1) p
    by (auto simp: kw map_of_update length_update_absent get_put rowKey_inj split: option.splits)
qed auto

lemma flush_puts_error:
  "(\<exists>e. fold_res (flush_put ops sch b v) ws s = Inl e) \<longleftrightarrow> (\<exists>w \<in> set ws. \<exists>e. flush_data sch b w = Inl e)"
proof (induction ws arbitrary: s)
  case (Cons w ws)
  then show ?case by (cases s; cases "flush_data sch b w") (auto simp: flush_put_def)
qed simp

lemma flush_dels_spec:
  assumes "inv st" "dels_ok ds" "flush_dels ops v (map snd ds) (st, after) = (st', after')"
    and "distinct (map fst after)" "\<forall>k. \<not> (has ds k \<and> has after k)"
  shows "inv st' \<and> distinct (map fst after') \<and>
    length after' = length after + length (filter (\<lambda>(k, d). rs_get ops st (t_tbl d) (t_id d) \<noteq> None) ds) \<and>
    (\<forall>t i. TABLE_NAME_RE t \<longrightarrow> map_of after' (rowKey t i) =
       (if has ds (rowKey t i) \<and> rs_get ops st t i \<noteq> None then Some None else map_of after (rowKey t i))) \<and>
    (\<forall>k. \<not> has ds k \<longrightarrow> map_of after' k = map_of after k) \<and>
    (\<forall>t i. TABLE_NAME_RE t \<longrightarrow> rs_get ops st' t i = (if has ds (rowKey t i) then None else rs_get ops st t i))"
  using assms
proof (induction ds arbitrary: st after)
  case (Cons kd ds)
  obtain k d where kd: "kd = (k, d)" by (cases kd)
  have d: "k = rowKey (t_tbl d) (t_id d)" "TABLE_NAME_RE (t_tbl d)"
    and fresh: "map_of ds k = None" and ds: "dels_ok ds"
    using dels_ok_Cons [OF Cons.prems(2) [unfolded kd]] by auto
  have fresh': "\<not> has ds k" using fresh by (simp add: has_def)
  let ?r = "rs_del ops st (t_tbl d) (t_id d) v"
  let ?st = "fst ?r" and ?after = "if 0 < snd ?r then AList.update k None after else after"
  have n: "0 < snd ?r \<longleftrightarrow> rs_get ops st (t_tbl d) (t_id d) \<noteq> None" by (rule del_count [OF Cons.prems(1) d(2)])
  have after_k: "map_of after k = None" using spec [OF Cons.prems(5), of k] by (simp add: kd has_def)
  have gets: "rs_get ops ?st t i = (if t = t_tbl d \<and> i = t_id d then None else rs_get ops st t i)"
    if "TABLE_NAME_RE t" for t i
    by (rule get_del [OF Cons.prems(1) d(2) that])
  have other: "rs_get ops ?st (t_tbl d') (t_id d') = rs_get ops st (t_tbl d') (t_id d')"
    if "(k', d') \<in> set ds" for k' d'
  proof -
    have "map_of ds k' = Some d'" using that ds by (simp add: dels_ok_def)
    then have "k' = rowKey (t_tbl d') (t_id d')" "TABLE_NAME_RE (t_tbl d')" "k' \<noteq> k"
      using ds fresh by (auto simp: dels_ok_def)
    then show ?thesis using gets d by (auto simp: rowKey_inj)
  qed
  then have same: "filter (\<lambda>(k, d). rs_get ops ?st (t_tbl d) (t_id d) \<noteq> None) ds =
      filter (\<lambda>(k, d). rs_get ops st (t_tbl d) (t_id d) \<noteq> None) ds"
    by (intro filter_cong) auto
  have IH: "inv st' \<and> distinct (map fst after') \<and>
    length after' = length ?after + length (filter (\<lambda>(k, d). rs_get ops ?st (t_tbl d) (t_id d) \<noteq> None) ds) \<and>
    (\<forall>t i. TABLE_NAME_RE t \<longrightarrow> map_of after' (rowKey t i) =
       (if has ds (rowKey t i) \<and> rs_get ops ?st t i \<noteq> None then Some None else map_of ?after (rowKey t i))) \<and>
    (\<forall>k. \<not> has ds k \<longrightarrow> map_of after' k = map_of ?after k) \<and>
    (\<forall>t i. TABLE_NAME_RE t \<longrightarrow> rs_get ops st' t i = (if has ds (rowKey t i) then None else rs_get ops ?st t i))"
  proof (rule Cons.IH [OF inv_del [OF Cons.prems(1) d(2)] ds])
    show "flush_dels ops v (map snd ds) (?st, ?after) = (st', after')"
      using Cons.prems(3) by (cases "0 < snd ?r") (simp_all add: kd Let_def case_prod_beta d(1))
    show "distinct (map fst ?after)" using Cons.prems(4) by (simp add: distinct_update)
    show "\<forall>k'. \<not> (has ds k' \<and> has ?after k')"
      using Cons.prems(5) fresh' by (auto simp: kd has_update has_Cons)
  qed
  have len: "length ?after = length after + (if rs_get ops st (t_tbl d) (t_id d) \<noteq> None then 1 else 0)"
    using after_k n by (simp add: length_update_absent)
  have hs: "has (kd # ds) k' \<longleftrightarrow> k' = k \<or> has ds k'" for k' by (auto simp: has_def kd)
  have A: "map_of after' (rowKey t i) =
       (if has (kd # ds) (rowKey t i) \<and> rs_get ops st t i \<noteq> None then Some None else map_of after (rowKey t i))"
    if "TABLE_NAME_RE t" for t i
    using IH n gets [OF that] that d fresh after_k hs
    by (auto simp: map_of_update rowKey_inj has_def)
  have B: "\<not> has (kd # ds) k' \<Longrightarrow> map_of after' k' = map_of after k'" for k'
    using IH hs by (auto simp: map_of_update)
  have C: "rs_get ops st' t i = (if has (kd # ds) (rowKey t i) then None else rs_get ops st t i)"
    if "TABLE_NAME_RE t" for t i
    using IH gets [OF that] that d hs by (auto simp: rowKey_inj)
  from IH len same n A B C show ?case by (simp add: kd)
qed auto

lemma flush_spec:
  assumes "inv st" "ws_inv ops st ws" "flush ops sch st ws v = Inr (st', n, ch)"
  obtains after where
    "inv st'" "n = length after" "ch = changes_of ws after" "distinct (map fst after)"
    "\<And>t i. TABLE_NAME_RE t \<Longrightarrow> rs_get ops st' t i =
       (if has (ws_puts ws) (rowKey t i) then map_option norm (flushed ops sch st ws t i) else flushed ops sch st ws t i)"
    "\<And>t i. TABLE_NAME_RE t \<Longrightarrow> map_of after (rowKey t i) =
       (if has (ws_puts ws) (rowKey t i) \<or> has (ws_dels ws) (rowKey t i) \<and> rs_get ops st t i \<noteq> None
        then Some (flushed ops sch st ws t i) else None)"
    "\<And>k. has after k \<Longrightarrow> has (ws_puts ws) k \<or> has (ws_dels ws) k"
    "n = length (ws_puts ws) + length (filter (\<lambda>(k, d). rs_get ops st (t_tbl d) (t_id d) \<noteq> None) (ws_dels ws))"
proof -
  let ?b = "ws_validateAtFlush ws" and ?ps = "ws_puts ws" and ?ds = "ws_dels ws"
  have ok: "puts_ok ?ps" "dels_ok ?ds" "\<And>k. \<not> (has ?ps k \<and> has ?ds k)"
    using assms(2) by (auto simp: ws_inv_def)
  obtain s1 where s1: "fold_res (flush_put ops sch ?b v) (map snd ?ps) (st, []) = Inr s1"
      "(let (st'', after) = flush_dels ops v (map snd ?ds) s1 in Inr (st'', length after, changes_of ws after) :: ('s \<times> nat \<times> RowChange list) res)
        = Inr (st', n, ch)"
    using assms(3) by (auto simp: flush_def bind_res_Inr_iff)
  obtain st1 after1 where s: "s1 = (st1, after1)" by (cases s1)
  obtain st2 after where f2: "flush_dels ops v (map snd ?ds) (st1, after1) = (st2, after)"
    by (cases "flush_dels ops v (map snd ?ds) (st1, after1)")
  with s1 s have f1: "fold_res (flush_put ops sch ?b v) (map snd ?ps) (st, []) = Inr (st1, after1)"
    and n: "n = length after" "ch = changes_of ws after" and "st2 = st'"
    by auto
  with f2 have f2: "flush_dels ops v (map snd ?ds) (st1, after1) = (st', after)" by simp
  have p1: "inv st1" "distinct (map fst after1)" "length after1 = length ?ps"
    "\<And>k. map_of after1 k = map_option (\<lambda>w. Some (parsed sch ?b w)) (map_of ?ps k)"
    "\<And>t i. TABLE_NAME_RE t \<Longrightarrow> rs_get ops st1 t i =
       (case map_of ?ps (rowKey t i) of Some w \<Rightarrow> Some (norm (parsed sch ?b w)) | None \<Rightarrow> rs_get ops st t i)"
    using flush_puts [OF assms(1) ok(1) f1] by (auto split: option.splits)
  have dis: "\<forall>k. \<not> (has ?ds k \<and> has after1 k)" 
  proof
    fix k show "\<not> (has ?ds k \<and> has after1 k)" using ok(3) [of k] p1(4) [of k] by (auto simp: has_def)
  qed
  have p2: "inv st'" "distinct (map fst after)"
    "length after = length after1 + length (filter (\<lambda>(k, d). rs_get ops st1 (t_tbl d) (t_id d) \<noteq> None) ?ds)"
    "\<And>t i. TABLE_NAME_RE t \<Longrightarrow> map_of after (rowKey t i) =
       (if has ?ds (rowKey t i) \<and> rs_get ops st1 t i \<noteq> None then Some None else map_of after1 (rowKey t i))"
    "\<And>k. \<not> has ?ds k \<Longrightarrow> map_of after k = map_of after1 k"
    "\<And>t i. TABLE_NAME_RE t \<Longrightarrow> rs_get ops st' t i = (if has ?ds (rowKey t i) then None else rs_get ops st1 t i)"
    using flush_dels_spec [OF p1(1) ok(2) f2 p1(2) dis] by blast+
  have live: "has ?ds (rowKey t i) \<Longrightarrow> TABLE_NAME_RE t \<Longrightarrow> rs_get ops st1 t i = rs_get ops st t i" for t i
    using p1(5) ok(3) [of "rowKey t i"] by (simp add: has_def split: option.splits)
  have "rs_get ops st1 (t_tbl d) (t_id d) = rs_get ops st (t_tbl d) (t_id d)" if "(k, d) \<in> set ?ds" for k d
  proof (rule live)
    have "map_of ?ds k = Some d" using that ok(2) by (simp add: dels_ok_def)
    then show "has ?ds (rowKey (t_tbl d) (t_id d))" "TABLE_NAME_RE (t_tbl d)"
      using ok(2) by (auto simp: dels_ok_def has_def)
  qed
  then have cnt: "filter (\<lambda>(k, d). rs_get ops st1 (t_tbl d) (t_id d) \<noteq> None) ?ds =
      filter (\<lambda>(k, d). rs_get ops st (t_tbl d) (t_id d) \<noteq> None) ?ds"
    by (intro filter_cong) auto
  show thesis
  proof (rule that [OF p2(1) n p2(2)])
    show "rs_get ops st' t i = (if has ?ps (rowKey t i) then map_option norm (flushed ops sch st ws t i) else flushed ops sch st ws t i)"
      if "TABLE_NAME_RE t" for t i
      using p2(6) [OF that, of i] p1(5) [OF that, of i] ok(3) [of "rowKey t i"]
      by (simp add: flushed_def has_def split: option.splits)
    show "map_of after (rowKey t i) =
        (if has ?ps (rowKey t i) \<or> has ?ds (rowKey t i) \<and> rs_get ops st t i \<noteq> None
         then Some (flushed ops sch st ws t i) else None)" if "TABLE_NAME_RE t" for t i
      using p2(4) [OF that, of i] p1(4) [of "rowKey t i"] live [OF _ that, of i] ok(3) [of "rowKey t i"]
      by (cases "has ?ds (rowKey t i)") (auto simp: flushed_def has_def)
    show "has ?ps k \<or> has ?ds k" if "has after k" for k
      using that p2(5) [of k] p1(4) [of k]
      by (cases "map_of (ws_puts ws) k"; cases "map_of (ws_dels ws) k") (auto simp: has_def)
    show "n = length ?ps + length (filter (\<lambda>(k, d). rs_get ops st (t_tbl d) (t_id d) \<noteq> None) ?ds)"
      using n(1) p2(3) p1(3) cnt by simp
  qed
qed

lemma target_of:
  fixes st :: 's
  assumes "ws_inv ops st ws" "has (ws_puts ws) k \<or> has (ws_dels ws) k"
  obtains t i where "k = rowKey t i" "TABLE_NAME_RE t" "change_target ws k = (t, i)"
proof (cases "map_of (ws_puts ws) k")
  case (Some w)
  then show thesis using assms(1) by (intro that [of "w_tbl w" "w_id w"])
    (auto simp: ws_inv_def puts_ok_def change_target_def)
next
  case None
  then obtain d where "map_of (ws_dels ws) k = Some d" using assms(2) by (auto simp: has_def)
  then show thesis using assms(1) None by (intro that [of "t_tbl d" "t_id d"])
    (auto simp: ws_inv_def dels_ok_def change_target_def)
qed

lemma flush_changes:
  assumes "inv st" "ws_inv ops st ws" "flush ops sch st ws v = Inr (st', n, ch)" "ws_trackChanges ws"
  shows "list_all (change_ok ops sch st ws) ch \<and> distinct (map (\<lambda>c. (ch_tbl c, ch_id c)) ch) \<and> length ch = n"
proof -
  show ?thesis
  proof (rule flush_spec [OF assms(1-3)])
  fix after
  assume a:
    "inv st'" "n = length after" "ch = changes_of ws after" "distinct (map fst after)"
    "\<And>t i. TABLE_NAME_RE t \<Longrightarrow> rs_get ops st' t i =
       (if has (ws_puts ws) (rowKey t i) then map_option norm (flushed ops sch st ws t i) else flushed ops sch st ws t i)"
    "\<And>t i. TABLE_NAME_RE t \<Longrightarrow> map_of after (rowKey t i) =
       (if has (ws_puts ws) (rowKey t i) \<or> has (ws_dels ws) (rowKey t i) \<and> rs_get ops st t i \<noteq> None
        then Some (flushed ops sch st ws t i) else None)"
    "\<And>k. has after k \<Longrightarrow> has (ws_puts ws) k \<or> has (ws_dels ws) k"
    "n = length (ws_puts ws) + length (filter (\<lambda>(k, d). rs_get ops st (t_tbl d) (t_id d) \<noteq> None) (ws_dels ws))"
  let ?bs = "filter (\<lambda>(k, before). has after k) (ws_before ws)"
  have before: "before_ok ops st (ws_before ws)"
    and tracked: "\<And>k. has (ws_puts ws) k \<or> has (ws_dels ws) k \<Longrightarrow> has (ws_before ws) k"
    using assms(2,4) by (auto simp: ws_inv_def)
  have dist: "distinct (map fst ?bs)" using before by (intro distinct_map_filter) (simp add: before_ok_def)
  have "fst ` set ?bs = fst ` set after"
  proof
    show "fst ` set ?bs \<subseteq> fst ` set after"
      by (auto simp: has_def dest: map_of_SomeD intro: rev_image_eqI)
    show "fst ` set after \<subseteq> fst ` set ?bs"
    proof
      fix k assume "k \<in> fst ` set after"
      then have h: "has after k" by (auto simp: has_def map_of_eq_None_iff)
      then obtain b where "(k, b) \<in> set (ws_before ws)"
        using tracked [OF a(7) [OF h]] by (auto simp: has_def dest: map_of_SomeD)
      with h show "k \<in> fst ` set ?bs" by (intro rev_image_eqI [of "(k, b)"]) auto
    qed
  qed
  then have "set (map fst ?bs) = set (map fst after)" by simp
  then have "length ?bs = length after"
    using dist a(4) by (metis distinct_card length_map)
  then have len: "length ch = n" by (simp add: a(2,3) changes_of_def)
  have one: "\<exists>t i. fst kb = rowKey t i \<and> TABLE_NAME_RE t \<and> change_target ws (fst kb) = (t, i) \<and>
      change_ok ops sch st ws \<lparr>ch_tbl = t, ch_id = i, ch_before = snd kb, ch_after = the (map_of after (fst kb))\<rparr>"
    if kb: "kb \<in> set ?bs" for kb
  proof -
    have h: "has after (fst kb)" using kb by auto
    obtain t i where t: "fst kb = rowKey t i" "TABLE_NAME_RE t" "change_target ws (fst kb) = (t, i)"
      using target_of [OF assms(2) a(7) [OF h]] .
    have "(fst kb, snd kb) \<in> set (ws_before ws)" using kb by simp
    then have m: "map_of (ws_before ws) (rowKey t i) = Some (snd kb)"
      using before t(1) by (simp add: before_ok_def)
    then have "map_of (ws_before ws) (rowKey t i) = Some (rs_get ops st t i)"
      using before t(2) unfolding before_ok_def has_def by blast
    with m have b: "snd kb = rs_get ops st t i" by simp
    have "has after (rowKey t i)" using h t(1) by simp
    then have "map_of after (rowKey t i) = Some (flushed ops sch st ws t i)"
      "rs_get ops st t i \<noteq> None \<or> flushed ops sch st ws t i \<noteq> None"
      using a(6) [OF t(2), of i] assms(2) [unfolded ws_inv_def, THEN conjunct2, THEN conjunct2, THEN conjunct2,
          THEN conjunct1, THEN spec, of "rowKey t i"]
      by (auto simp: has_def flushed_def split: if_splits option.splits)
    with t b show ?thesis by (auto simp: change_ok_def)
  qed
  have "list_all (change_ok ops sch st ws) ch"
    unfolding a(3) changes_of_def list_all_iff using one by (fastforce split: prod.splits)
  moreover have "distinct (map (\<lambda>c. (ch_tbl c, ch_id c)) ch)"
  proof -
    have "map (\<lambda>c. (ch_tbl c, ch_id c)) ch = map (change_target ws) (map fst ?bs)"
      by (simp add: a(3) changes_of_def comp_def case_prod_beta)
    moreover have "inj_on (change_target ws) (fst ` set ?bs)"
    proof (rule inj_onI)
      fix k k' assume "k \<in> fst ` set ?bs" "k' \<in> fst ` set ?bs" "change_target ws k = change_target ws k'"
      moreover from this(1) obtain kb where "kb \<in> set ?bs" "k = fst kb" by auto
      moreover from calculation(2) obtain kb' where "kb' \<in> set ?bs" "k' = fst kb'" by auto
      ultimately show "k = k'" using one [of kb] one [of kb'] by auto
    qed
    then have "distinct (map (change_target ws) (map fst ?bs))"
      using dist by (subst distinct_map) simp
    ultimately show ?thesis by simp
  qed
  ultimately show ?thesis using len by blast
  qed
qed

end

section \<open>Properties\<close>

lemma parsed_now [simp]: "parsed sch False w = w_data w"
  by (simp add: parsed_def flush_data_def)

lemma flushed_now: "\<not> ws_validateAtFlush ws \<Longrightarrow> flushed ops sch st ws = view ops st ws"
  by (auto simp: flushed_def view_def fun_eq_iff split: option.splits)

lemma flush_total: "\<not> ws_validateAtFlush ws \<Longrightarrow> \<exists>r. flush ops sch st ws v = Inr r"
proof -
  assume n: "\<not> ws_validateAtFlush ws"
  have "\<exists>s'. fold_res (flush_put ops sch False v) xs s = Inr s'" for xs s
    by (induction xs arbitrary: s) (auto simp: flush_put_def flush_data_def)
  then obtain s' where "fold_res (flush_put ops sch False v) (map snd (ws_puts ws)) (st, []) = Inr s'" by blast
  with n show ?thesis by (simp add: flush_def Let_def case_prod_beta)
qed

lemma tx_get_fields [simp]:
  "ws_validateAtFlush (snd (tx_get ops st ws t i)) = ws_validateAtFlush ws"
  "ws_trackChanges (snd (tx_get ops st ws t i)) = ws_trackChanges ws"
  by (rule validateTarget_cases [of t i]; simp add: tx_get_def Let_def split: option.split)+

lemma tx_put_fields [simp]:
  "ws_validateAtFlush (snd (tx_put ops sch st ws t i d)) = ws_validateAtFlush ws"
  "ws_trackChanges (snd (tx_put ops sch st ws t i d)) = ws_trackChanges ws"
  by (rule tx_put_cases [of ops sch st ws t i d]; simp add: after_put_def)+

lemma tx_del_fields [simp]:
  "ws_validateAtFlush (snd (tx_del ops st ws t i)) = ws_validateAtFlush ws"
  "ws_trackChanges (snd (tx_del ops st ws t i)) = ws_trackChanges ws"
  by (rule tx_del_cases [of ops st ws t i]; simp add: after_del_def)+

lemma run_prog_fields:
  "ws_validateAtFlush (fst (run_prog ops sch st p ws)) = ws_validateAtFlush ws \<and>
   ws_trackChanges (fst (run_prog ops sch st p ws)) = ws_trackChanges ws"
proof (induction p arbitrary: ws)
  case (CallGet t i k)
  show ?case using CallGet.IH [of "k (fst (tx_get ops st ws t i))" "snd (tx_get ops st ws t i)"]
    by (simp add: Let_def case_prod_beta)
next
  case (CallPut t i d k)
  show ?case using CallPut.IH [of "k (fst (tx_put ops sch st ws t i d))" "snd (tx_put ops sch st ws t i d)"]
    by (simp add: Let_def case_prod_beta)
next
  case (CallDel t i k)
  show ?case using CallDel.IH [of "k (fst (tx_del ops st ws t i))" "snd (tx_del ops st ws t i)"]
    by (simp add: Let_def case_prod_beta)
qed simp_all

text \<open>The buffer a run of application code leaves.\<close>

definition buffer_of :: "'s EngineRowStore \<Rightarrow> schema \<Rightarrow> 's \<Rightarrow> prog \<Rightarrow> bool \<Rightarrow> bool \<Rightarrow> WriteSet" where
  "buffer_of ops sch st p atFlush track = fst (run_prog ops sch st p (new_WriteSet atFlush track))"

lemma buffer_inv: "ws_inv ops st (buffer_of ops sch st p b c)"
  by (simp add: buffer_of_def run_prog_inv ws_inv_new)

lemma buffer_fields [simp]:
  "ws_validateAtFlush (buffer_of ops sch st p b c) = b" "ws_trackChanges (buffer_of ops sch st p b c) = c"
  by (simp_all add: buffer_of_def run_prog_fields new_WriteSet_def)

text \<open>What \<open>list\<close> sees of the overlay when SQLite was asked about an undefined value: buffered rows only.\<close>

definition listed :: "'s EngineRowStore \<Rightarrow> 's \<Rightarrow> WriteSet \<Rightarrow> jstr \<Rightarrow> jobj option \<Rightarrow> jstr \<Rightarrow> jobj option" where
  "listed ops st ws t wh j =
     (if defined_where wh \<or> has (ws_puts ws) (rowKey t j) then view ops st ws t j else None)"

lemma sql_tx_list:
  assumes "sql_inv st" "ws_inv (SqlRowStore plan) st ws" "TABLE_NAME_RE t" "compileWhere wh = Inr p"
  shows "\<exists>xs. tx_list (SqlRowStore plan) st ws t wh = Inr xs \<and> distinct (map fst xs) \<and>
    (\<forall>i. map_of xs i = (case listed (SqlRowStore plan) st ws t wh i of
       Some d \<Rightarrow> if p d then Some d else None | None \<Rightarrow> None))"
proof (cases "defined_where wh")
  case True
  from sql.tx_list_view [OF assms(1-3) True assms(4)] show ?thesis by (simp add: listed_def True)
next
  case False
  let ?ps = "ws_puts ws" and ?ds = "ws_dels ws"
  let ?xs = "overlaid p t (map snd ?ds) (map snd ?ps) []"
  have ok: "puts_ok ?ps" "\<And>k. \<not> (has ?ps k \<and> has ?ds k)" using assms(2) by (auto simp: ws_inv_def)
  have "rs_list (SqlRowStore plan) st t wh = Inr []"
    using sql_list_undefined [OF assms(3) False] by (simp add: SqlRowStore_def)
  from tx_list_overlaid [OF assms(3,4) this] have run: "tx_list (SqlRowStore plan) st ws t wh = Inr ?xs" by simp
  have none: "map_of (drop_dels t [] ds) i = None" for ds i by (simp add: map_of_drop_dels)
  have "map_of ?xs i = (case listed (SqlRowStore plan) st ws t wh i of
       Some d \<Rightarrow> if p d then Some d else None | None \<Rightarrow> None)" for i
  proof (cases "map_of ?ps (rowKey t i)")
    case None
    then have "\<not> (\<exists>w \<in> set (map snd ?ps). w_tbl w = t \<and> w_id w = i)"
      using put_at_iff [OF ok(1) assms(3), of _ i] by auto
    then show ?thesis using None False by (simp add: overlaid_def overlay_other none listed_def has_def)
  next
    case (Some w)
    then have "w \<in> set (map snd ?ps)" "w_tbl w = t" "w_id w = i"
      using put_at_iff [OF ok(1) assms(3), of w i] by auto
    moreover have "\<not> has ?ds (rowKey t i)" using ok(2) [of "rowKey t i"] Some by (auto simp: has_def)
    ultimately show ?thesis
      using overlay_at [OF puts_rows_distinct [OF ok(1)]] Some
      by (simp add: overlaid_def listed_def view_def) (simp add: has_def)
  qed
  then show ?thesis using run distinct_overlaid by blast
qed

text \<open>
  C8: At any point of a mutation over SQLite, reads see the mutation's own writes over the
  stored rows: \<open>get\<close> returns the row of that overlay, and \<open>list\<close> returns exactly the rows of
  the table in the overlay that satisfy the filter, each once, even though SQL only
  prefilters and a buffered rewrite can add, remove or change a match. A filter the predicate
  refuses is the error of \<open>list\<close>. One kind of filter is answered differently: where SQLite is
  asked about a field whose value is undefined, which the predicate ignores, no stored row is
  listed, only the buffered rows that satisfy the rest.
\<close>

theorem tx_reads_overlay:
  assumes "sql_inv st" "TABLE_NAME_RE t" "id_ok i"
    and "ws = buffer_of (SqlRowStore plan) sch st pr atFlush track"
  shows "fst (tx_get (SqlRowStore plan) st ws t i) = Inr (view (SqlRowStore plan) st ws t i) \<and>
    (case compileWhere wh of
       Inl e \<Rightarrow> tx_list (SqlRowStore plan) st ws t wh = Inl e
     | Inr p \<Rightarrow> (\<exists>xs. tx_list (SqlRowStore plan) st ws t wh = Inr xs \<and> distinct (map fst xs) \<and>
         (\<forall>j. map_of xs j =
            (case if defined_where wh \<or> has (ws_puts ws) (rowKey t j) then view (SqlRowStore plan) st ws t j else None of
               Some d \<Rightarrow> if p d then Some d else None | None \<Rightarrow> None))))"
proof (intro conjI)
  show "fst (tx_get (SqlRowStore plan) st ws t i) = Inr (view (SqlRowStore plan) st ws t i)"
    by (rule tx_get_view [OF assms(2,3)])
  have "ws_inv (SqlRowStore plan) st ws" unfolding assms(4) by (rule buffer_inv)
  from sql_tx_list [OF assms(1) this assms(2), of wh]
  show "case compileWhere wh of
       Inl e \<Rightarrow> tx_list (SqlRowStore plan) st ws t wh = Inl e
     | Inr p \<Rightarrow> (\<exists>xs. tx_list (SqlRowStore plan) st ws t wh = Inr xs \<and> distinct (map fst xs) \<and>
         (\<forall>j. map_of xs j =
            (case if defined_where wh \<or> has (ws_puts ws) (rowKey t j) then view (SqlRowStore plan) st ws t j else None of
               Some d \<Rightarrow> if p d then Some d else None | None \<Rightarrow> None)))"
    unfolding listed_def by (cases "compileWhere wh") (simp_all add: tx_list_def assms(2))
qed

definition demo_prog :: prog where
  "demo_prog = CallPut (js ''t'') (js ''a'') [(js ''n'', JNum (Fin 1))] (orThrow (\<lambda>_.
     CallDel (js ''t'') (js ''b'') (orThrow (\<lambda>_. Done))))"

definition demo_schema :: schema where
  "demo_schema = [(js ''t'', VValue)]"

definition demo_rows :: sql_rows where
  "demo_rows = [\<lparr>row_tbl = js ''t'', row_id = js ''b'', row_data = [(js ''n'', JNum (Fin 1))],
                 row_version = 1, row_deleted = False\<rparr>]"

lemma demo_inv: "sql_inv demo_rows"
  by (simp add: sql_inv_def demo_rows_def json_obj_def)

lemma demo_names: "TABLE_NAME_RE (js ''t'')" "id_ok (js ''a'')" "id_ok (js ''b'')"
  by (simp_all add: TABLE_NAME_RE_def name_start_def id_ok_def MAX_ID_LENGTH_def)

definition demo_buffer :: WriteSet where
  "demo_buffer = buffer_of (SqlRowStore (\<lambda>_ _. 0)) demo_schema demo_rows demo_prog False True"

theorem tx_reads_overlay_witness:
  "fst (tx_get (SqlRowStore (\<lambda>_ _. 0)) demo_rows demo_buffer (js ''t'') (js ''a'')) =
     Inr (view (SqlRowStore (\<lambda>_ _. 0)) demo_rows demo_buffer (js ''t'') (js ''a'')) \<and>
   (\<exists>xs. tx_list (SqlRowStore (\<lambda>_ _. 0)) demo_rows demo_buffer (js ''t'') None = Inr xs \<and> distinct (map fst xs))"
  using tx_reads_overlay [OF demo_inv demo_names(1,2) demo_buffer_def, of None] by auto

text \<open>
  C10: What a flush leaves in SQLite after a mutation that ran to its end: every row is the one
  the overlay showed, put rows as the JSON document they were stored as; the count is the
  number of puts plus the number of deletes that hit a live row (deleting a row that never
  existed writes nothing); and the flush of a mutation never fails.
\<close>

theorem flush_stores_overlay:
  assumes "sql_inv st" "ws = buffer_of (SqlRowStore plan) sch st pr False track"
  shows "\<exists>st' n ch. flush (SqlRowStore plan) sch st ws v = Inr (st', n, ch) \<and> sql_inv st' \<and>
    (\<forall>t i. \<not> TABLE_NAME_RE t \<or> sql_get st' t i =
       (if has (ws_puts ws) (rowKey t i) then map_option json_obj (view (SqlRowStore plan) st ws t i)
        else view (SqlRowStore plan) st ws t i)) \<and>
    n = length (ws_puts ws) + length (filter (\<lambda>(k, d). sql_get st (t_tbl d) (t_id d) \<noteq> None) (ws_dels ws))"
proof -
  have inv: "ws_inv (SqlRowStore plan) st ws" unfolding assms(2) by (rule buffer_inv)
  obtain st' n ch where f: "flush (SqlRowStore plan) sch st ws v = Inr (st', n, ch)"
    using flush_total [of ws "SqlRowStore plan" sch st v] assms(2) by auto
  have fl: "flushed (SqlRowStore plan) sch st ws = view (SqlRowStore plan) st ws"
    using assms(2) by (simp add: flushed_now)
  have g: "rs_get (SqlRowStore plan) = sql_get" by (simp add: SqlRowStore_def)
  show ?thesis
    by (rule sql.flush_spec [OF assms(1) inv f]) (use f in \<open>auto simp: fl g\<close>)
qed

theorem flush_stores_overlay_witness:
  "\<exists>st' n ch. flush (SqlRowStore (\<lambda>_ _. 0)) demo_schema demo_rows demo_buffer 7 = Inr (st', n, ch) \<and> sql_inv st'"
  using flush_stores_overlay [OF demo_inv demo_buffer_def, of 7] by blast

text \<open>
  The change list of a committed mutation names every row it changed exactly once, with the
  row stored before and the row it leaves; a row created and deleted within the mutation is
  not reported, and there are as many changes as rows written.
\<close>

theorem flush_reports_changes:
  assumes "sql_inv st" "ws = buffer_of (SqlRowStore plan) sch st pr False True"
    and "flush (SqlRowStore plan) sch st ws v = Inr (st', n, ch)"
  shows "list_all (\<lambda>c. ch_before c = sql_get st (ch_tbl c) (ch_id c) \<and>
      ch_after c = view (SqlRowStore plan) st ws (ch_tbl c) (ch_id c) \<and>
      (ch_before c \<noteq> None \<or> ch_after c \<noteq> None)) ch \<and>
    distinct (map (\<lambda>c. (ch_tbl c, ch_id c)) ch) \<and> length ch = n"
proof -
  have inv: "ws_inv (SqlRowStore plan) st ws" unfolding assms(2) by (rule buffer_inv)
  have fl: "flushed (SqlRowStore plan) sch st ws = view (SqlRowStore plan) st ws"
    using assms(2) by (simp add: flushed_now)
  have g: "rs_get (SqlRowStore plan) = sql_get" by (simp add: SqlRowStore_def)
  have "ws_trackChanges ws" using assms(2) by simp
  from sql.flush_changes [OF assms(1) inv assms(3) this] show ?thesis
    unfolding change_ok_def [abs_def] fl g .
qed

theorem flush_reports_changes_witness:
  "\<exists>st' n ch. flush (SqlRowStore (\<lambda>_ _. 0)) demo_schema demo_rows demo_buffer 7 = Inr (st', n, ch) \<and> length ch = n"
proof -
  obtain st' n ch where f: "flush (SqlRowStore (\<lambda>_ _. 0)) demo_schema demo_rows demo_buffer 7 = Inr (st', n, ch)"
    using flush_total [of demo_buffer "SqlRowStore (\<lambda>_ _. 0)" demo_schema demo_rows 7]
    by (auto simp: demo_buffer_def)
  with flush_reports_changes [OF demo_inv demo_buffer_def f] show ?thesis by blast
qed

text \<open>
  A filter that names a field with value \<open>undefined\<close> means different things to the two
  stores: the exact predicate ignores the field, so the in-memory engine lists the row, while
  the SQL prefilter compares the field with NULL, which holds of no row, so over SQLite the
  same \<open>list\<close> returns nothing.
\<close>

theorem undefined_filter_diverges:
  "tx_list (SqlRowStore plan) demo_rows (new_WriteSet False False) (js ''t'') (Some [(js ''n'', JUndef)]) = Inr [] \<and>
   tx_list MemoryRowStore [(rowKey (js ''t'') (js ''b''), hd demo_rows)] (new_WriteSet False False) (js ''t'')
       (Some [(js ''n'', JUndef)]) = Inr [(js ''b'', [(js ''n'', JNum (Fin 1))])]"
  using demo_names(1)
  by (simp add: tx_list_def SqlRowStore_def MemoryRowStore_def sql_list_def memory_list_def where_clause_def
      FIELD_RE_def name_start_def demo_rows_def json_extract_def sql_eq_def visit_def new_WriteSet_def Let_def)

text \<open>
  A row that is not a JSON document survives differently in the two stores: SQLite keeps
  its JSON text, so an \<open>undefined\<close> field is gone and \<open>NaN\<close> is \<open>null\<close> after a flush, while the
  in-memory store keeps a structured clone.
\<close>

theorem stores_differ_on_non_json:
  "sql_get (sql_put [] t i [(js ''a'', JUndef), (js ''b'', JNum NaN)] v) t i = Some [(js ''b'', JNull)] \<and>
   memory_get (memory_put [] t i [(js ''a'', JUndef), (js ''b'', JNum NaN)] v) t i =
     Some [(js ''a'', JUndef), (js ''b'', JNum NaN)]"
  by (simp add: sql_get_def sql_put_def memory_get_def memory_put_def json_obj_def)

end
