(* ===== verification/Storage.thy ===== *)
theory Storage
  imports WriteSet
begin

text \<open>
  The workspace's SQLite database (server/src/storage.ts and the statements of
  server/src/do.ts): rows, mutation log, clients, the single \<open>meta\<close> row, and the versions of
  the storage schema applied. \<open>transactionSync\<close> is state passing: an error keeps the database
  it started from.
\<close>

record Meta =
  m_backendId :: jstr
  m_currentVersion :: int
  m_minCursorVersion :: int
  m_workspaceId :: jstr
  m_lastExportedSeq :: int
  m_schemaVersion :: int
  m_schemaHash :: jstr
  m_presenceHash :: jstr

text \<open>The stored row: \<open>schema_version\<close> is a text column, represented by the number it reads as.\<close>

record MetaRow =
  mr_meta :: Meta
  mr_schemaVersion :: jnum

record LogEntry =
  lg_seq :: int
  lg_version :: "int option"
  lg_client :: jstr
  lg_mutation :: int
  lg_name :: jstr
  lg_args :: jval
  lg_result :: "(jstr \<times> jstr) option"
  lg_at :: jstr

record ClientRow =
  cl_lmid :: int
  cl_seen :: jstr

record DB =
  db_rows :: sql_rows
  db_log :: "LogEntry list"
  db_seq :: int
  db_clients :: "(jstr \<times> ClientRow) list"
  db_meta :: "MetaRow option"
  db_applied :: nat
  db_tables :: "(string \<times> string list) list"

definition empty_db :: DB where
  "empty_db = \<lparr>db_rows = [], db_log = [], db_seq = 0, db_clients = [], db_meta = None, db_applied = 0,
     db_tables = []\<rparr>"

section \<open>Storage migrations\<close>

text \<open>
  \<open>db_tables\<close> is the catalog: the tables with their columns. The defaults of added columns
  are the empty string and zero, which is what the fields of an older row read as.
\<close>

datatype SqlStmt = CreateTable string "string list" | CreateIndex string string string | AddColumn string string

definition MIGRATIONS :: "SqlStmt list list" where
  "MIGRATIONS =
     [[CreateTable ''rows'' [''tbl'', ''id'', ''data'', ''version'', ''deleted''],
       CreateIndex ''rows_by_version'' ''rows'' ''version'',
       CreateTable ''mutation_log'' [''log_seq'', ''version'', ''client_id'', ''mutation_id'', ''name'', ''args'', ''result''],
       CreateTable ''clients'' [''client_id'', ''last_mutation_id'', ''last_seen_at''],
       CreateTable ''meta'' [''id'', ''backend_id'', ''current_version'', ''min_cursor_version'', ''schema_version'']],
      [AddColumn ''mutation_log'' ''created_at''],
      [AddColumn ''meta'' ''workspace_id'', AddColumn ''meta'' ''last_exported_seq''],
      [AddColumn ''meta'' ''schema_hash''],
      [AddColumn ''meta'' ''presence_hash'']]"

text \<open>A table that exists is left alone; adding to a missing table or a column twice is an error.\<close>

fun exec_stmt :: "SqlStmt \<Rightarrow> (string \<times> string list) list \<Rightarrow> (string \<times> string list) list res" where
  "exec_stmt (CreateTable t cs) tabs = Inr (if map_of tabs t = None then tabs @ [(t, cs)] else tabs)"
| "exec_stmt (CreateIndex i t c) tabs =
     (case map_of tabs t of
        Some cs \<Rightarrow> if c \<in> set cs then Inr tabs else Inl (OtherError ''no such column'')
      | None \<Rightarrow> Inl (OtherError ''no such table''))"
| "exec_stmt (AddColumn t c) tabs =
     (case map_of tabs t of
        None \<Rightarrow> Inl (OtherError ''no such table'')
      | Some cs \<Rightarrow> if c \<in> set cs then Inl (OtherError ''duplicate column name'')
                   else Inr (AList.update t (cs @ [c]) tabs))"

definition run_migration :: "nat \<Rightarrow> DB \<Rightarrow> DB res" where
  "run_migration v d =
     bind_res (fold_res exec_stmt (MIGRATIONS ! v) (db_tables d))
       (\<lambda>tabs. Inr (d\<lparr>db_tables := tabs, db_applied := v + 1\<rparr>))"

definition migrate :: "DB \<Rightarrow> DB res" where
  "migrate d = fold_res run_migration [db_applied d ..< length MIGRATIONS] d"

text \<open>The catalog after the first \<open>k\<close> migrations.\<close>

definition catalog :: "nat \<Rightarrow> (string \<times> string list) list" where
  "catalog k = (case fold_res run_migration [0..<k] empty_db of Inr d \<Rightarrow> db_tables d | Inl e \<Rightarrow> [])"

definition at_level :: "nat \<Rightarrow> DB \<Rightarrow> bool" where
  "at_level k d \<longleftrightarrow> db_applied d = k \<and> db_tables d = catalog k"

lemma catalog_simps:
  "catalog 0 = []"
  "k < 5 \<Longrightarrow> fold_res exec_stmt (MIGRATIONS ! k) (catalog k) = Inr (catalog (Suc k))"
proof -
  show "catalog 0 = []" by (simp add: catalog_def empty_db_def)
  assume "k < 5"
  then have "k = 0 \<or> k = 1 \<or> k = 2 \<or> k = 3 \<or> k = 4" by linarith
  then show "fold_res exec_stmt (MIGRATIONS ! k) (catalog k) = Inr (catalog (Suc k))"
    by (elim disjE) (simp_all add: catalog_def run_migration_def MIGRATIONS_def empty_db_def upt_rec)
qed

lemma run_migration_level:
  assumes "at_level k d" "k < 5"
  shows "run_migration k d = Inr (d\<lparr>db_tables := catalog (Suc k), db_applied := Suc k\<rparr>)"
  using assms catalog_simps(2) [OF assms(2)] by (simp add: run_migration_def at_level_def)

lemma migrate_upto:
  "at_level k d \<Longrightarrow> k + n = 5 \<Longrightarrow> fold_res run_migration [k..<5] d = Inr (d\<lparr>db_tables := catalog 5, db_applied := 5\<rparr>)"
proof (induction n arbitrary: k d)
  case 0
  then show ?case by (cases d) (simp add: at_level_def)
next
  case (Suc n)
  let ?d = "d\<lparr>db_tables := catalog (Suc k), db_applied := Suc k\<rparr>"
  have "[k..<5] = k # [Suc k..<5]" using Suc.prems(2) by (simp add: upt_conv_Cons)
  moreover have "at_level (Suc k) ?d" by (simp add: at_level_def)
  ultimately show ?case
    using Suc.IH [of "Suc k" ?d] Suc.prems run_migration_level [OF Suc.prems(1)] by simp
qed

lemma migrate_simp:
  assumes "at_level k d"
  shows "migrate d = Inr (if k < 5 then d\<lparr>db_tables := catalog 5, db_applied := 5\<rparr> else d)"
proof -
  have "length MIGRATIONS = 5" "db_applied d = k" using assms by (simp_all add: MIGRATIONS_def at_level_def)
  then show ?thesis using migrate_upto [OF assms, of "5 - k"] by (simp add: migrate_def)
qed

section \<open>The meta row\<close>

definition loadOrInitMeta :: "jstr \<Rightarrow> int \<Rightarrow> jstr \<Rightarrow> jstr \<Rightarrow> DB \<Rightarrow> (Meta \<times> DB) res" where
  "loadOrInitMeta uuid schemaVersion schemaHash presenceHash d =
     (case db_meta d of
        None \<Rightarrow>
          let meta = \<lparr>m_backendId = uuid, m_currentVersion = 0, m_minCursorVersion = 0, m_workspaceId = [],
                      m_lastExportedSeq = 0, m_schemaVersion = schemaVersion, m_schemaHash = schemaHash,
                      m_presenceHash = presenceHash\<rparr>
          in Inr (meta, d\<lparr>db_meta := Some \<lparr>mr_meta = meta, mr_schemaVersion = Fin schemaVersion\<rparr>\<rparr>)
      | Some row \<Rightarrow>
          (case mr_schemaVersion row of
             Fin v \<Rightarrow>
               if v < 1 then Inl (OtherError ''stored schema version is not a positive integer'')
               else Inr ((mr_meta row)\<lparr>m_schemaVersion := v\<rparr>, d)
           | _ \<Rightarrow> Inl (OtherError ''stored schema version is not a positive integer'')))"

text \<open>\<open>UPDATE meta SET ... WHERE id = 1\<close>.\<close>

definition update_meta :: "(Meta \<Rightarrow> Meta) \<Rightarrow> DB \<Rightarrow> DB" where
  "update_meta f d = d\<lparr>db_meta := map_option (\<lambda>row. row\<lparr>mr_meta := f (mr_meta row)\<rparr>) (db_meta d)\<rparr>"

definition set_schema_version :: "int \<Rightarrow> DB \<Rightarrow> DB" where
  "set_schema_version v d =
     d\<lparr>db_meta := map_option (\<lambda>row. row\<lparr>mr_schemaVersion := Fin v, mr_meta := (mr_meta row)\<lparr>m_schemaVersion := v\<rparr>\<rparr>) (db_meta d)\<rparr>"

text \<open>The stored row and the copy in memory agree.\<close>

definition meta_synced :: "DB \<Rightarrow> Meta \<Rightarrow> bool" where
  "meta_synced d m \<longleftrightarrow> db_meta d = Some \<lparr>mr_meta = m, mr_schemaVersion = Fin (m_schemaVersion m)\<rparr>"

lemma loadOrInitMeta_synced:
  assumes "loadOrInitMeta u v h p d = Inr (m, d')"
    and "case db_meta d of None \<Rightarrow> True
         | Some row \<Rightarrow> Fin (m_schemaVersion (mr_meta row)) = mr_schemaVersion row"
  shows "meta_synced d' m"
  using assms by (cases d; auto simp: loadOrInitMeta_def meta_synced_def Let_def split: option.splits jnum.splits if_splits)

lemma update_meta_synced:
  "meta_synced d m \<Longrightarrow> m_schemaVersion (f m) = m_schemaVersion m \<Longrightarrow> meta_synced (update_meta f d) (f m)"
  by (simp add: meta_synced_def update_meta_def)

lemma set_schema_version_synced: "meta_synced d m \<Longrightarrow> meta_synced (set_schema_version v d) (m\<lparr>m_schemaVersion := v\<rparr>)"
  by (simp add: meta_synced_def set_schema_version_def)

lemma update_meta_fields [simp]:
  "db_rows (update_meta f d) = db_rows d" "db_log (update_meta f d) = db_log d" "db_seq (update_meta f d) = db_seq d"
  "db_clients (update_meta f d) = db_clients d" "db_applied (update_meta f d) = db_applied d"
  by (simp_all add: update_meta_def)

lemma set_schema_version_fields [simp]:
  "db_rows (set_schema_version v d) = db_rows d" "db_log (set_schema_version v d) = db_log d"
  "db_seq (set_schema_version v d) = db_seq d" "db_clients (set_schema_version v d) = db_clients d"
  by (simp_all add: set_schema_version_def)

section \<open>Clients and log\<close>

definition lastMutationId :: "DB \<Rightarrow> jstr \<Rightarrow> int" where
  "lastMutationId d clientId = (case map_of (db_clients d) clientId of Some row \<Rightarrow> cl_lmid row | None \<Rightarrow> 0)"

definition touch_row :: "jstr \<Rightarrow> jstr \<Rightarrow> DB \<Rightarrow> DB" where
  "touch_row ts clientId d =
     d\<lparr>db_clients := AList.update clientId
        (case map_of (db_clients d) clientId of
           Some row \<Rightarrow> row\<lparr>cl_seen := ts\<rparr> | None \<Rightarrow> \<lparr>cl_lmid = 0, cl_seen = ts\<rparr>) (db_clients d)\<rparr>"

definition set_lmid :: "jstr \<Rightarrow> int \<Rightarrow> jstr \<Rightarrow> DB \<Rightarrow> DB" where
  "set_lmid ts mid clientId d =
     (case map_of (db_clients d) clientId of
        None \<Rightarrow> d
      | Some row \<Rightarrow> d\<lparr>db_clients := AList.update clientId \<lparr>cl_lmid = mid, cl_seen = ts\<rparr> (db_clients d)\<rparr>)"

definition append_log ::
  "int option \<Rightarrow> jstr \<Rightarrow> int \<Rightarrow> jstr \<Rightarrow> jval \<Rightarrow> (jstr \<times> jstr) option \<Rightarrow> jstr \<Rightarrow> DB \<Rightarrow> DB" where
  "append_log version clientId mid name args result ts d =
     d\<lparr>db_seq := db_seq d + 1,
       db_log := db_log d @ [\<lparr>lg_seq = db_seq d + 1, lg_version = version, lg_client = clientId,
         lg_mutation = mid, lg_name = name, lg_args = args, lg_result = result, lg_at = ts\<rparr>]\<rparr>"

text \<open>The log is numbered consecutively, in order.\<close>

definition log_ok :: "DB \<Rightarrow> bool" where
  "log_ok d \<longleftrightarrow> map lg_seq (db_log d) = [db_seq d - int (length (db_log d)) + 1 .. db_seq d]"

lemma log_ok_append: "log_ok d \<Longrightarrow> log_ok (append_log v c m n a r i d)"
  by (simp add: log_ok_def append_log_def upto_rec2 algebra_simps)

lemma client_rows [simp]:
  "db_rows (touch_row i c d) = db_rows d" "db_meta (touch_row i c d) = db_meta d" "db_log (touch_row i c d) = db_log d"
  "db_seq (touch_row i c d) = db_seq d"
  "db_rows (set_lmid i k c d) = db_rows d" "db_meta (set_lmid i k c d) = db_meta d" "db_log (set_lmid i k c d) = db_log d"
  "db_seq (set_lmid i k c d) = db_seq d"
  "db_rows (append_log v c k n a r i d) = db_rows d" "db_meta (append_log v c k n a r i d) = db_meta d"
  "db_clients (append_log v c k n a r i d) = db_clients d"
  by (auto simp: touch_row_def set_lmid_def append_log_def split: option.splits)

lemma touch_lmid [simp]: "lastMutationId (touch_row ts c d) c' = lastMutationId d c'"
  by (auto simp: lastMutationId_def touch_row_def map_of_update split: option.splits)

lemma touch_known: "map_of (db_clients (touch_row ts c d)) c' \<noteq> None \<longleftrightarrow> c' = c \<or> map_of (db_clients d) c' \<noteq> None"
  by (auto simp: touch_row_def map_of_update)

lemma set_lmid_get:
  "map_of (db_clients d) c \<noteq> None \<Longrightarrow>
     lastMutationId (set_lmid ts k c d) c' = (if c' = c then k else lastMutationId d c')"
  by (auto simp: lastMutationId_def set_lmid_def map_of_update)

lemma set_lmid_known: "map_of (db_clients (set_lmid ts k c d)) c' \<noteq> None \<longleftrightarrow> map_of (db_clients d) c' \<noteq> None"
  by (auto simp: set_lmid_def map_of_update split: option.splits)

lemma at_level_cong [simp]:
  "at_level k (update_meta f d) = at_level k d" "at_level k (set_schema_version v d) = at_level k d"
  "at_level k (touch_row ts c d) = at_level k d" "at_level k (append_log ve c m n a r ts d) = at_level k d"
  "at_level k (set_lmid ts i c d) = at_level k d"
  by (simp_all add: at_level_def update_meta_def set_schema_version_def touch_row_def append_log_def set_lmid_def
      split: option.split)

text \<open>
  Storage migrations bring a database at any level to the newest catalog: every statement
  still pending succeeds, each runs exactly once, in order, and the data is untouched; running
  them again does nothing, and a database of a later level than the program knows is left alone.
\<close>

theorem migrate_reaches_catalog:
  assumes "at_level k d"
  shows "migrate d = Inr (if k < 5 then d\<lparr>db_tables := catalog 5, db_applied := 5\<rparr> else d) \<and>
    bind_res (migrate d) migrate = migrate d"
proof -
  let ?d = "if k < 5 then d\<lparr>db_tables := catalog 5, db_applied := 5\<rparr> else d"
  have m: "migrate d = Inr ?d" by (rule migrate_simp [OF assms])
  have "at_level (max k 5) ?d" using assms by (simp add: at_level_def max_def)
  then have "migrate ?d = Inr ?d" using migrate_simp [of "max k 5" ?d] by (simp add: max_def split: if_splits)
  with m show ?thesis by simp
qed

theorem migrate_reaches_catalog_witness:
  "migrate empty_db = Inr (empty_db\<lparr>db_tables := catalog 5, db_applied := 5\<rparr>)"
  using migrate_reaches_catalog [of 0 empty_db] catalog_simps(1) by (simp add: at_level_def empty_db_def)

end
