(* ===== verification/Frames.thy ===== *)
theory Frames
  imports Chunk Messages SchemaKit RowStore
begin

text \<open>
  Poke frames, server/src/frames.ts: patch operations rendered from stored row JSON, and the
  frame texts of one poke. SQLite's \<open>json_quote\<close> is a parameter, \<open>jq\<close>.
\<close>

section \<open>Operation texts\<close>

definition CLEAR_OP :: OpJson where
  "CLEAR_OP = js ''{\"op\":\"clear\"}''"

definition PUT_OP_SQL :: "(jstr \<Rightarrow> jstr) \<Rightarrow> jstr \<Rightarrow> jstr \<Rightarrow> jstr \<Rightarrow> OpJson" where
  "PUT_OP_SQL jq tbl i data =
     js ''{\"op\":\"put\",\"tbl\":'' @ jq tbl @ js '',\"id\":'' @ jq i @ js '',\"value\":'' @ data @ js ''}''"

definition DEL_OP_SQL :: "(jstr \<Rightarrow> jstr) \<Rightarrow> jstr \<Rightarrow> jstr \<Rightarrow> OpJson" where
  "DEL_OP_SQL jq tbl i = js ''{\"op\":\"del\",\"tbl\":'' @ jq tbl @ js '',\"id\":'' @ jq i @ js ''}''"

text \<open>The text of an operation; a stored row's \<open>data\<close> is the JSON text of its document.\<close>

fun op_json :: "(jstr \<Rightarrow> jstr) \<Rightarrow> PatchOp \<Rightarrow> OpJson" where
  "op_json jq ClearOp = CLEAR_OP"
| "op_json jq (PutOp t i row) = PUT_OP_SQL jq t i (json_text (JObj row))"
| "op_json jq (DelOp t i) = DEL_OP_SQL jq t i"

lemma escape_units_js [simp]:
  "escape_units (js ''op'') = js ''op''" "escape_units (js ''tbl'') = js ''tbl''"
  "escape_units (js ''id'') = js ''id''" "escape_units (js ''value'') = js ''value''"
  "escape_units (js ''put'') = js ''put''" "escape_units (js ''del'') = js ''del''"
  "escape_units (js ''clear'') = js ''clear''"
  by (simp_all add: high_surrogate_def low_surrogate_def escape_unit_def)

lemma op_json_text: "op_json json_quote op = json_text (enc_patch_op op)"
  by (cases op) (simp_all add: CLEAR_OP_def PUT_OP_SQL_def DEL_OP_SQL_def json_quote_def comma_def
      high_surrogate_def low_surrogate_def escape_unit_def)

section \<open>pokeFrames\<close>

record Poke =
  poke_id :: jstr
  poke_base :: "Cursor option"
  poke_patch :: PatchParts
  poke_lmids :: "(jstr \<times> int) list option"
  poke_results :: "MutationResult list"
  poke_cursor :: Cursor

definition part_frame :: "Poke \<Rightarrow> nat \<Rightarrow> jstr \<Rightarrow> int \<Rightarrow> jstr" where
  "part_frame poke i patch remaining =
     js ''{\"type\":\"pokePart\",\"pokeId\":'' @ json_quote (poke_id poke) @ js '',\"patch\":['' @ patch
     @ js ''],\"remaining\":'' @ js_of_int remaining
     @ (if i = 0 then
          (case poke_lmids poke of None \<Rightarrow> []
           | Some l \<Rightarrow> js '',\"lastMutationIdChanges\":'' @ json_text (enc_lmids l))
          @ (if poke_results poke = [] then []
             else js '',\"mutationResults\":'' @ json_text (JArr (map enc_result (poke_results poke))))
        else [])
     @ js ''}''"

text \<open>The \<open>forEach\<close> over the parts: \<open>sent\<close> counts the operations of the parts so far.\<close>

fun part_frames :: "Poke \<Rightarrow> nat \<Rightarrow> nat \<Rightarrow> jstr list \<Rightarrow> jstr list" where
  "part_frames poke i sent [] = []"
| "part_frames poke i sent (patch # ps) =
     (let sent = sent + counts (poke_patch poke) ! i in
      part_frame poke i patch (int (total (poke_patch poke)) - int sent) # part_frames poke (Suc i) sent ps)"

definition pokeFrames :: "Poke \<Rightarrow> jstr list" where
  "pokeFrames poke =
     json_text (JObj [(js ''type'', JStr (js ''pokeStart'')), (js ''pokeId'', JStr (poke_id poke)),
                      (js ''baseCursor'', enc_cursor_opt (poke_base poke))])
     # part_frames poke 0 0 (parts (poke_patch poke))
     @ [json_text (JObj [(js ''type'', JStr (js ''pokeEnd'')), (js ''pokeId'', JStr (poke_id poke)),
                         (js ''cursor'', enc_cursor (poke_cursor poke)), (js ''pageInfo'', JObj [(js ''more'', JBool False)])])]"

section \<open>The messages a poke is\<close>

fun part_msgs ::
  "jstr \<Rightarrow> (jstr \<times> int) list option \<Rightarrow> MutationResult list \<Rightarrow> nat \<Rightarrow> PatchOp list list \<Rightarrow> ServerMsg list" where
  "part_msgs pid l rs left [] = []"
| "part_msgs pid l rs left (g # gs) =
     PokePart pid g (Some (int (left - length g))) l (if rs = [] then None else Some rs)
     # part_msgs pid None [] (left - length g) gs"

definition poke_msgs ::
  "jstr \<Rightarrow> Cursor option \<Rightarrow> PatchOp list list \<Rightarrow> (jstr \<times> int) list option \<Rightarrow> MutationResult list \<Rightarrow> Cursor
     \<Rightarrow> ServerMsg list" where
  "poke_msgs pid base groups l rs cur =
     PokeStart pid base # part_msgs pid l rs (length (concat groups)) groups @ [PokeEnd pid cur NoMore]"

lemma escape_keys [simp]:
  "escape_units (js ''type'') = js ''type''" "escape_units (js ''pokePart'') = js ''pokePart''"
  "escape_units (js ''pokeId'') = js ''pokeId''" "escape_units (js ''patch'') = js ''patch''"
  "escape_units (js ''remaining'') = js ''remaining''"
  "escape_units (js ''lastMutationIdChanges'') = js ''lastMutationIdChanges''"
  "escape_units (js ''mutationResults'') = js ''mutationResults''"
  by (simp_all add: high_surrogate_def low_surrogate_def escape_unit_def)

lemma enc_defined [simp]: "enc_patch_op op \<noteq> JUndef" "enc_lmids l \<noteq> JUndef"
  by (cases op) (simp_all add: enc_lmids_def)

lemma part_frame_text:
  assumes "poke_lmids poke = l" "poke_results poke = rs"
  shows "part_frame poke i (join_with comma (map (op_json json_quote) g)) (int n) =
    json_text (enc_server_msg (PokePart (poke_id poke) g (Some (int n)) (if i = 0 then l else None)
      (if i = 0 \<and> rs \<noteq> [] then Some rs else None)))"
proof -
  have ops: "map (op_json json_quote) g = map json_text (map enc_patch_op g)"
    by (simp add: op_json_text comp_def)
  have kv: "json_quote (js k) = [0x22] @ js k @ [0x22]" if "escape_units (js k) = js k" for k
    using that by (simp add: json_quote_def)
  show ?thesis
    unfolding ops using assms
    by (cases l; cases "rs = []"; cases "i = 0")
      ((simp add: part_frame_def opt_field_def kv comma_def del: js_simps, simp)+)
qed

lemma part_frames_text:
  assumes "counts (poke_patch poke) = map length (done @ gs)" "i = length done"
    "total (poke_patch poke) = length (concat (done @ gs))" "sent = length (concat done)"
    and "l = (if i = 0 then poke_lmids poke else None)" "rs = (if i = 0 then poke_results poke else [])"
  shows "part_frames poke i sent (map (join_with comma) (map (map (op_json json_quote)) gs)) =
    map (\<lambda>m. json_text (enc_server_msg m)) (part_msgs (poke_id poke) l rs (length (concat gs)) gs)"
  using assms
proof (induction gs arbitrary: "done" i sent l rs)
  case (Cons g gs)
  have n: "counts (poke_patch poke) ! i = length g"
    using Cons.prems(1,2) nth_append_length [of "map length done" "length g" "map length gs"] by simp
  have left: "int (total (poke_patch poke)) - int (sent + length g) = int (length (concat (g # gs)) - length g)"
    using Cons.prems(3,4) by simp
  have ih: "part_frames poke (Suc i) (sent + length g) (map (join_with comma) (map (map (op_json json_quote)) gs)) =
      map (\<lambda>m. json_text (enc_server_msg m)) (part_msgs (poke_id poke) None [] (length (concat gs)) gs)"
    using Cons.prems by (intro Cons.IH [of "done @ [g]"]) simp_all
  show ?case
    unfolding list.map part_frames.simps Let_def n left part_frame_text [OF refl refl] ih part_msgs.simps
    using Cons.prems(5,6) by simp
qed simp

text \<open>
  The frames of a poke are, text for text, the JSON of well-bracketed messages: a
  \<open>pokeStart\<close> with the base cursor, one \<open>pokePart\<close> per group of operations, whose
  \<open>remaining\<close> counts down to the operations still to come and of which only the first
  carries the mutation ids and results, and a \<open>pokeEnd\<close> with the new cursor; and the groups
  concatenate to exactly the operations packed.
\<close>

lemma pokeFrames_msgs:
  assumes "packPatch (map (op_json json_quote) ops) maxBytes = Inr patch"
  shows "\<exists>groups. concat groups = ops \<and> groups \<noteq> [] \<and>
    pokeFrames \<lparr>poke_id = pid, poke_base = base, poke_patch = patch, poke_lmids = l, poke_results = rs, poke_cursor = cur\<rparr>
      = map (\<lambda>m. json_text (enc_server_msg m)) (poke_msgs pid base groups l rs cur)"
proof -
  obtain cs where cs: "patch_groups (map (op_json json_quote) ops) maxBytes = Inr cs"
      "patch = \<lparr>parts = map (join_with comma) (at_least_one cs), counts = map length (at_least_one cs),
                total = length ops\<rparr>"
    using assms by (cases "patch_groups (map (op_json json_quote) ops) maxBytes")
      (auto simp: packPatch_groups Let_def)
  have cat: "concat (at_least_one cs) = map (op_json json_quote) ops"
    using patch.pack_concat [OF cs(1)] by (auto simp: at_least_one_def)
  have "\<exists>gs. xs = map (map f) gs \<and> concat gs = ys" if "concat xs = map f ys" for f :: "'x \<Rightarrow> 'y" and xs ys
    using that
  proof (induction xs arbitrary: ys)
    case (Cons x xs)
    have "x = map f (take (length x) ys)" "concat xs = map f (drop (length x) ys)"
      using Cons.prems by (metis append_eq_conv_conj concat.simps(2) take_map)
        (metis Cons.prems append_eq_conv_conj concat.simps(2) drop_map)
    then obtain gs where "xs = map (map f) gs" "concat gs = drop (length x) ys" using Cons.IH by blast
    with \<open>x = map f (take (length x) ys)\<close> show ?case
      by (intro exI [of _ "take (length x) ys # gs"]) simp
  qed auto
  from this [OF cat] obtain groups where g: "at_least_one cs = map (map (op_json json_quote)) groups" "concat groups = ops"
    by blast
  have ne: "groups \<noteq> []" using g(1) by (auto simp: at_least_one_def split: if_splits)
  let ?poke = "\<lparr>poke_id = pid, poke_base = base, poke_patch = patch, poke_lmids = l, poke_results = rs, poke_cursor = cur\<rparr>"
  have "part_frames ?poke 0 0 (map (join_with comma) (map (map (op_json json_quote)) groups)) =
      map (\<lambda>m. json_text (enc_server_msg m)) (part_msgs pid l rs (length (concat groups)) groups)"
    using part_frames_text [of ?poke "[]" groups 0 0 l rs] cs(2) g by (simp add: comp_def)
  then have "pokeFrames ?poke = map (\<lambda>m. json_text (enc_server_msg m)) (poke_msgs pid base groups l rs cur)"
    using cs(2) g(1) by (simp add: pokeFrames_def poke_msgs_def)
  with ne g(2) show ?thesis by blast
qed

section \<open>Every stored row fits a part\<close>

lemma not_both: "high_surrogate c \<Longrightarrow> \<not> low_surrogate c"
  by (auto simp: high_surrogate_def low_surrogate_def word_le_nat_alt)

lemma utf8_append_le: "length (utf8 (a @ b)) \<le> length (utf8 a) + length (utf8 b)"
proof (induction a rule: utf8.induct)
  case (2 c cs)
  show ?case
  proof (cases cs)
    case Nil
    then show ?thesis by (cases b) (auto dest: not_both)
  next
    case (Cons d ds)
    then show ?thesis using "2.IH"
      by (auto simp del: utf8.simps(2) simp add: utf8.simps(2) [of c])
  qed
qed simp

lemma hex_digit_ascii: "n < 16 \<Longrightarrow> hex_digit n < 0x80"
proof -
  assume "n < 16"
  then have "n \<in> set [0..<16]" by simp
  moreover have "list_all (\<lambda>n. hex_digit n < 0x80) [0..<16]" by code_simp
  ultimately show ?thesis by (simp only: list_all_iff)
qed

lemma unicode_escape_bytes: "length (utf8 (unicode_escape c)) = 6"
proof -
  have "unat c < 65536" using unsigned_less [of c] by simp
  then have "unat c div 4096 < 16" by linarith
  then have "list_all (\<lambda>c. c < 0x80) (unicode_escape c)"
    by (simp add: unicode_escape_def hex_digit_ascii)
  from length_utf8_ascii [OF this] show ?thesis by (simp add: unicode_escape_def)
qed

lemma escape_unit_bytes: "\<not> high_surrogate c \<Longrightarrow> length (utf8 (escape_unit c)) \<le> 6"
  using unicode_escape_bytes [of c] by (simp add: escape_unit_def)

lemma escape_units_bytes: "length (utf8 (escape_units s)) \<le> 6 * length s"
proof (induction s rule: escape_units.induct)
  case (2 c cs)
  show ?case
  proof (cases cs)
    case Nil
    then show ?thesis using escape_unit_bytes [of c] unicode_escape_bytes [of c]
      by auto
  next
    case (Cons d ds)
    consider "high_surrogate c" "low_surrogate d" | "high_surrogate c" "\<not> low_surrogate d"
      | "\<not> high_surrogate c" "low_surrogate c" | "\<not> high_surrogate c" "\<not> low_surrogate c" by blast
    then show ?thesis
    proof cases
      case 1
      then have "length (utf8 (c # d # escape_units ds)) \<le> 4 + length (utf8 (escape_units ds))"
        by (simp add: surrogate_range)
      then show ?thesis using 1 "2.IH"(1) Cons by simp
    next
      case 2
      then show ?thesis using "2.IH"(2) Cons utf8_append_le [of "unicode_escape c" "escape_units cs"]
          unicode_escape_bytes [of c] by simp
    next
      case 3
      then show ?thesis using "2.IH"(3) Cons utf8_append_le [of "unicode_escape c" "escape_units cs"]
          unicode_escape_bytes [of c] by simp
    next
      case 4
      then show ?thesis using "2.IH"(4) Cons utf8_append_le [of "escape_unit c" "escape_units cs"]
          escape_unit_bytes [of c] by simp
    qed
  qed
qed simp

lemma json_quote_bytes: "length (utf8 (json_quote s)) \<le> 6 * length s + 2"
proof -
  have "length (utf8 ([0x22] @ escape_units s @ [0x22])) \<le> 1 + (length (utf8 (escape_units s)) + 1)"
    using utf8_append_le [of "[0x22]" "escape_units s @ [0x22]"] utf8_append_le [of "escape_units s" "[0x22]"]
    by simp
  then show ?thesis using escape_units_bytes [of s] by (simp add: json_quote_def)
qed

lemma utf8_append4_le:
  "length (utf8 (a @ b @ c @ d @ e @ f @ g)) \<le> length (utf8 a) + length (utf8 b) + length (utf8 c) + length (utf8 d)
     + length (utf8 e) + length (utf8 f) + length (utf8 g)"
  using utf8_append_le [of a "b @ c @ d @ e @ f @ g"] utf8_append_le [of b "c @ d @ e @ f @ g"]
    utf8_append_le [of c "d @ e @ f @ g"] utf8_append_le [of d "e @ f @ g"] utf8_append_le [of e "f @ g"]
    utf8_append_le [of f g] by linarith

text \<open>
  The row limits make the frame budget safe: for every row the engine can have stored (a
  valid table name, a valid id and at most \<open>MAX_ROW_BYTES\<close> of JSON), the text of its put
  operation with its comma fits one part, even when every character of the id has to be
  escaped; so packing a snapshot of such rows never throws.
\<close>

theorem stored_rows_pack:
  assumes "list_all (\<lambda>(t, i, row). TABLE_NAME_RE t \<and> id_ok i \<and> jsonByteSize (JObj row) \<le> MAX_ROW_BYTES) rs"
  shows "\<exists>p. packPatch (CLEAR_OP # map (\<lambda>(t, i, row). op_json json_quote (PutOp t i row)) rs) MAX_PART_PATCH_BYTES = Inr p"
proof -
  have put: "length (utf8 (op_json json_quote (PutOp t i row))) + 1 \<le> MAX_PART_PATCH_BYTES"
    if "TABLE_NAME_RE t" "id_ok i" "jsonByteSize (JObj row) \<le> MAX_ROW_BYTES" for t i row
  proof -
    have "length t \<le> 64" using that(1) by (auto simp: TABLE_NAME_RE_def split: list.splits)
    then have t: "length (utf8 (json_quote t)) \<le> 386" using json_quote_bytes [of t] by linarith
    have "length i \<le> 256" using that(2) by (simp add: id_ok_def MAX_ID_LENGTH_def)
    then have i: "length (utf8 (json_quote i)) \<le> 1538" using json_quote_bytes [of i] by linarith
    have d: "length (utf8 (json_text (JObj row))) \<le> 700000"
      using that(3) by (simp add: jsonByteSize_def json_stringify_def MAX_ROW_BYTES_def del: json_text.simps)
    have "length (utf8 (op_json json_quote (PutOp t i row))) \<le> 19 + length (utf8 (json_quote t)) + 6 +
        length (utf8 (json_quote i)) + 9 + length (utf8 (json_text (JObj row))) + 1"
      unfolding op_json.simps PUT_OP_SQL_def
      by (rule order_trans [OF utf8_append4_le]) (simp del: json_text.simps)
    then show ?thesis using t i d unfolding MAX_PART_PATCH_BYTES_def by linarith
  qed
  let ?ops = "CLEAR_OP # map (\<lambda>(t, i, row). op_json json_quote (PutOp t i row)) rs"
  have clear: "length (utf8 CLEAR_OP) + 1 \<le> MAX_PART_PATCH_BYTES"
    by (simp add: CLEAR_OP_def MAX_PART_PATCH_BYTES_def)
  have "op \<in> set ?ops \<Longrightarrow> op_cost op \<le> MAX_PART_PATCH_BYTES" for op
    using assms put clear by (auto simp: op_cost_def utf8ByteLength_utf8 list_all_iff simp del: op_json.simps)
  then have "list_all (\<lambda>op. op_cost op \<le> MAX_PART_PATCH_BYTES) ?ops" by (simp only: list_all_iff) blast
  from patch.pack_total [OF this] show ?thesis by (auto simp: packPatch_groups)
qed

theorem stored_rows_pack_witness:
  "\<exists>p. packPatch [CLEAR_OP, op_json json_quote (PutOp (js ''t'') (js ''a'') [])] MAX_PART_PATCH_BYTES = Inr p"
  using stored_rows_pack [of "[(js ''t'', js ''a'', [])]"]
  by (simp add: TABLE_NAME_RE_def name_start_def id_ok_def MAX_ID_LENGTH_def MAX_ROW_BYTES_def
      jsonByteSize_def json_stringify_def)

end
