(* ===== verification/Sockets.thy ===== *)
theory Sockets
  imports Storage Frames FieldFrames
begin

text \<open>
  The state of the workspace Durable Object (server/src/do.ts) and the part of it that
  concerns sockets: attachments, the delivery gate, closes, and presence teardown, which
  delivers to other sockets and can close them in turn. What the object does to the outside
  is the list \<open>do_out\<close> of effects, newest last. Sending may fail: \<open>sk_quota\<close> is how many more
  frames the runtime accepts for a socket before \<open>send\<close> throws; \<open>do_next\<close> is the identity the
  next accepted socket gets.
\<close>

section \<open>Configuration and state\<close>

record Attachment =
  at_clientId :: jstr
  at_ready :: bool
  at_principal :: "jstr option"
  at_auth :: "jval option"
  at_expiresAt :: "jval option"
  at_defunct :: bool

record ExtCtx =
  xc_clientId :: jstr
  xc_ready :: bool
  xc_principal :: "jstr option"
  xc_auth :: "jval option"

text \<open>
  The extension seam of server/src/config.ts: an extension's handlers over its own state, with
  the sends and broadcasts they make.
\<close>

datatype ExtCall = XBroadcast "u8 list" "nat option" | XSend nat "u8 list"

record 'x EngineExtension =
  ext_init :: "'x option \<Rightarrow> 'x"
  ext_message :: "nat \<Rightarrow> u8 list \<Rightarrow> ExtCtx \<Rightarrow> 'x \<Rightarrow> 'x \<times> ExtCall list \<times> err option"
  ext_alarm :: "('x \<Rightarrow> 'x) option"
  ext_export :: "('x \<Rightarrow> 'x \<times> jval res) option"
  ext_import :: "(jval \<Rightarrow> 'x \<Rightarrow> 'x res) option"
  ext_reset :: "('x \<Rightarrow> 'x) option"
  ext_stats :: "('x \<Rightarrow> jobj) option"

record ExportConfig =
  xp_batchRows :: "nat option"
  xp_maxObjects :: "nat option"
  xp_intervalMs :: "int option"
  xp_prefix :: "jstr option"

record 'x Config =
  cf_app :: AppDefinition
  cf_compactionDisabled :: bool
  cf_retention :: "int option"
  cf_compactionMs :: "int option"
  cf_export :: "ExportConfig option"
  cf_hook :: bool
  cf_extension :: "'x EngineExtension option"
  cf_jsonQuote :: "jstr \<Rightarrow> jstr"
  cf_plan :: plan
  cf_fingerprint :: jstr
  cf_presenceHash :: jstr

text \<open>
  What one handler run reads from the runtime; \<open>Date.now\<close> is frozen while it runs.
  \<open>ev_putOk i\<close> says whether the run's \<open>i\<close>-th write to the export bucket succeeds.
\<close>

record Env =
  ev_now :: int
  ev_iso :: jstr
  ev_uuid :: jstr
  ev_newBackend :: jstr
  ev_doName :: jstr
  ev_putOk :: "nat \<Rightarrow> bool"

record Socket =
  sk_id :: nat
  sk_att :: Attachment
  sk_quota :: "nat option"

record PresenceEntry =
  pe_ws :: nat
  pe_principal :: "jstr option"
  pe_state :: jval

record Counters =
  ct_startedAt :: jstr
  ct_pushes :: nat
  ct_mutationsApplied :: nat
  ct_mutationsSkipped :: nat
  ct_mutationErrors :: nat
  ct_pokesSent :: nat
  ct_framesSent :: nat
  ct_lastFanout :: nat

record MutationCommitted =
  mc_workspaceId :: jstr
  mc_name :: jstr
  mc_args :: jval
  mc_principal :: "jstr option"
  mc_clientId :: jstr
  mc_version :: int
  mc_changes :: "RowChange list"

datatype Frame = FText jstr | FBinary "u8 list"

datatype Effect = Sent nat Frame | Closed nat int jstr | HookRan MutationCommitted | Logged string
  | Exported jstr "LogEntry list"

record 'x WorkspaceDO =
  do_db :: DB
  do_meta :: Meta
  do_initError :: "err option"
  do_extension :: "'x option"
  do_presence :: "(jstr \<times> PresenceEntry) list"
  do_snapshot :: "(jstr \<times> int \<times> PatchParts) option"
  do_counters :: Counters
  do_sockets :: "Socket list"
  do_next :: nat
  do_alarm :: "int option"
  do_out :: "Effect list"

section \<open>Sockets\<close>

definition emit :: "Effect \<Rightarrow> 'x WorkspaceDO \<Rightarrow> 'x WorkspaceDO" where
  "emit e st = st\<lparr>do_out := do_out st @ [e]\<rparr>"

definition socket_of :: "'x WorkspaceDO \<Rightarrow> nat \<Rightarrow> Socket option" where
  "socket_of st s = find (\<lambda>k. sk_id k = s) (do_sockets st)"

definition att :: "'x WorkspaceDO \<Rightarrow> nat \<Rightarrow> Attachment option" where
  "att st s = map_option sk_att (socket_of st s)"

definition update_socket :: "nat \<Rightarrow> (Socket \<Rightarrow> Socket) \<Rightarrow> 'x WorkspaceDO \<Rightarrow> 'x WorkspaceDO" where
  "update_socket s f st = st\<lparr>do_sockets := map (\<lambda>k. if sk_id k = s then f k else k) (do_sockets st)\<rparr>"

definition serializeAttachment :: "nat \<Rightarrow> Attachment \<Rightarrow> 'x WorkspaceDO \<Rightarrow> 'x WorkspaceDO" where
  "serializeAttachment s a st = update_socket s (\<lambda>k. k\<lparr>sk_att := a\<rparr>) st"

definition readySockets :: "'x WorkspaceDO \<Rightarrow> nat list" where
  "readySockets st = map sk_id (filter (\<lambda>k. at_ready (sk_att k) \<and> \<not> at_defunct (sk_att k)) (do_sockets st))"

text \<open>\<open>socket.send(frame)\<close>; the flag says whether it returned.\<close>

definition send :: "nat \<Rightarrow> Frame \<Rightarrow> 'x WorkspaceDO \<Rightarrow> 'x WorkspaceDO \<times> bool" where
  "send s f st =
     (case socket_of st s of
        None \<Rightarrow> (st, False)
      | Some k \<Rightarrow>
          (case sk_quota k of
             None \<Rightarrow> (emit (Sent s f) st, True)
           | Some 0 \<Rightarrow> (st, False)
           | Some (Suc n) \<Rightarrow> (emit (Sent s f) (update_socket s (\<lambda>k. k\<lparr>sk_quota := Some n\<rparr>) st), True)))"

fun send_all :: "nat \<Rightarrow> Frame list \<Rightarrow> 'x WorkspaceDO \<Rightarrow> 'x WorkspaceDO \<times> bool" where
  "send_all s [] st = (st, True)"
| "send_all s (f # fs) st = (case send s f st of (st', ok) \<Rightarrow> if ok then send_all s fs st' else (st', False))"

definition count :: "(Counters \<Rightarrow> Counters) \<Rightarrow> 'x WorkspaceDO \<Rightarrow> 'x WorkspaceDO" where
  "count f st = st\<lparr>do_counters := f (do_counters st)\<rparr>"

section \<open>Delivery, closes and presence teardown\<close>

text \<open>
  \<open>td\<close> is the presence teardown a close performs; the knot is tied below, with as much fuel
  as there are presence entries, since every nested teardown has removed one.
\<close>

type_synonym 'x teardown = "nat \<Rightarrow> 'x WorkspaceDO \<Rightarrow> 'x WorkspaceDO"

definition mark_defunct :: "nat \<Rightarrow> 'x WorkspaceDO \<Rightarrow> 'x WorkspaceDO" where
  "mark_defunct s st = update_socket s (\<lambda>k. k\<lparr>sk_att := (sk_att k)\<lparr>at_defunct := True\<rparr>\<rparr>) st"

definition close_with :: "'x teardown \<Rightarrow> nat \<Rightarrow> int \<Rightarrow> jstr \<Rightarrow> 'x WorkspaceDO \<Rightarrow> 'x WorkspaceDO" where
  "close_with td s code reason st =
     emit (Closed s code (truncateCloseReason reason)) (td s (mark_defunct s st))"

text \<open>
  \<open>Date.now() >= expiresAt\<close>. A stamp is a number, or \<open>null\<close>, which compares as 0: what JSON
  makes of a non-finite number on the way from the router.
\<close>

definition past :: "int \<Rightarrow> jval \<Rightarrow> bool" where
  "past now v = (case v of JNum (Fin t) \<Rightarrow> t \<le> now | JNum (Inf neg) \<Rightarrow> neg | JNull \<Rightarrow> 0 \<le> now | _ \<Rightarrow> False)"

definition expired :: "Env \<Rightarrow> Attachment \<Rightarrow> bool" where
  "expired ev a = (case at_expiresAt a of None \<Rightarrow> False | Some t \<Rightarrow> past (ev_now ev) t)"

definition deliver_with :: "'x teardown \<Rightarrow> Env \<Rightarrow> nat \<Rightarrow> Frame list \<Rightarrow> 'x WorkspaceDO \<Rightarrow> 'x WorkspaceDO" where
  "deliver_with td ev s frames st =
     (case att st s of
        None \<Rightarrow> st
      | Some a \<Rightarrow>
          if at_defunct a then st
          else if expired ev a then close_with td s CLOSE_REFRESH (js ''auth-expired'') st
          else case send_all s frames st of (st', ok) \<Rightarrow>
            if ok then count (\<lambda>c. c\<lparr>ct_framesSent := ct_framesSent c + length frames\<rparr>) st'
            else close_with td s 1011 (js ''send failed'') st')"

fun deliver_each :: "'x teardown \<Rightarrow> Env \<Rightarrow> nat option \<Rightarrow> nat list \<Rightarrow> Frame list \<Rightarrow> 'x WorkspaceDO \<Rightarrow> 'x WorkspaceDO" where
  "deliver_each td ev except [] frames st = st"
| "deliver_each td ev except (s # ss) frames st =
     deliver_each td ev except ss frames
       (if except = Some s then st else deliver_with td ev s frames st)"

definition presence_frame :: "jstr \<Rightarrow> jstr option \<Rightarrow> jval \<Rightarrow> Frame" where
  "presence_frame clientId prin state =
     FText (json_text (enc_server_msg (PresenceUpdate
       \<lparr>peer_client = clientId, peer_principal = prin, peer_state = state\<rparr>)))"

definition relay_with ::
  "'x teardown \<Rightarrow> Env \<Rightarrow> nat option \<Rightarrow> jstr \<Rightarrow> jstr option \<Rightarrow> jval \<Rightarrow> 'x WorkspaceDO \<Rightarrow> 'x WorkspaceDO" where
  "relay_with td ev from clientId prin state st =
     deliver_each td ev from (readySockets st) [presence_frame clientId prin state] st"

definition owner_entry :: "'x WorkspaceDO \<Rightarrow> nat \<Rightarrow> (jstr \<times> PresenceEntry) option" where
  "owner_entry st s = find (\<lambda>(c, e). pe_ws e = s) (do_presence st)"

primrec dropPresence_fuel :: "nat \<Rightarrow> 'x Config \<Rightarrow> Env \<Rightarrow> nat \<Rightarrow> 'x WorkspaceDO \<Rightarrow> 'x WorkspaceDO" where
  "dropPresence_fuel 0 cfg ev s st = st"
| "dropPresence_fuel (Suc n) cfg ev s st =
     (if app_presence (cf_app cfg) = None then st
      else case owner_entry st s of
        None \<Rightarrow> st
      | Some (clientId, entry) \<Rightarrow>
          relay_with (dropPresence_fuel n cfg ev) ev (Some s) clientId (pe_principal entry) JNull
            (st\<lparr>do_presence := AList.delete clientId (do_presence st)\<rparr>))"

definition dropPresence :: "'x Config \<Rightarrow> Env \<Rightarrow> nat \<Rightarrow> 'x WorkspaceDO \<Rightarrow> 'x WorkspaceDO" where
  "dropPresence cfg ev s st = dropPresence_fuel (Suc (length (do_presence st))) cfg ev s st"

definition closeSocket :: "'x Config \<Rightarrow> Env \<Rightarrow> nat \<Rightarrow> int \<Rightarrow> jstr \<Rightarrow> 'x WorkspaceDO \<Rightarrow> 'x WorkspaceDO" where
  "closeSocket cfg ev = close_with (dropPresence cfg ev)"

definition deliver :: "'x Config \<Rightarrow> Env \<Rightarrow> nat \<Rightarrow> Frame list \<Rightarrow> 'x WorkspaceDO \<Rightarrow> 'x WorkspaceDO" where
  "deliver cfg ev = deliver_with (dropPresence cfg ev) ev"

definition relayPresence ::
  "'x Config \<Rightarrow> Env \<Rightarrow> nat option \<Rightarrow> jstr \<Rightarrow> jstr option \<Rightarrow> jval \<Rightarrow> 'x WorkspaceDO \<Rightarrow> 'x WorkspaceDO" where
  "relayPresence cfg ev = relay_with (dropPresence cfg ev) ev"

definition sendError :: "nat \<Rightarrow> ErrorCode \<Rightarrow> jstr option \<Rightarrow> 'x WorkspaceDO \<Rightarrow> 'x WorkspaceDO" where
  "sendError s code message st = fst (send s (FText (json_text (enc_server_msg (ErrorMsg code message)))) st)"

section \<open>What these operations leave alone\<close>

text \<open>The parts of the state that sockets and presence are not.\<close>

definition same_core :: "'x WorkspaceDO \<Rightarrow> 'x WorkspaceDO \<Rightarrow> bool" where
  "same_core st st' \<longleftrightarrow> do_db st' = do_db st \<and> do_meta st' = do_meta st \<and> do_initError st' = do_initError st \<and>
     do_extension st' = do_extension st \<and> do_snapshot st' = do_snapshot st \<and> do_alarm st' = do_alarm st \<and> do_next st' = do_next st"

lemma same_core_refl [simp]: "same_core st st"
  by (simp add: same_core_def)

lemma same_core_trans: "same_core a b \<Longrightarrow> same_core b c \<Longrightarrow> same_core a c"
  by (simp add: same_core_def)

text \<open>Sockets keep their number, order, identity and everything of the attachment but the defunct mark.\<close>

definition att_kept :: "Attachment \<Rightarrow> Attachment \<Rightarrow> bool" where
  "att_kept a b \<longleftrightarrow> b = a \<or> b = a\<lparr>at_defunct := True\<rparr>"

definition sockets_kept :: "Socket list \<Rightarrow> Socket list \<Rightarrow> bool" where
  "sockets_kept ks ks' \<longleftrightarrow> list_all2 (\<lambda>k k'. sk_id k' = sk_id k \<and> att_kept (sk_att k) (sk_att k')) ks ks'"

lemma att_kept_refl [simp]: "att_kept a a"
  by (simp add: att_kept_def)

lemma att_kept_trans: "att_kept a b \<Longrightarrow> att_kept b c \<Longrightarrow> att_kept a c"
  by (auto simp: att_kept_def)

lemma sockets_kept_refl [simp]: "sockets_kept ks ks"
  by (simp add: sockets_kept_def list_all2_same)

lemma sockets_kept_trans: "sockets_kept a b \<Longrightarrow> sockets_kept b c \<Longrightarrow> sockets_kept a c"
  unfolding sockets_kept_def list_all2_conv_all_nth by (metis att_kept_trans)

text \<open>A step of the socket machinery: core untouched, sockets kept, presence only shrinks, effects appended.\<close>

definition socket_step :: "'x WorkspaceDO \<Rightarrow> 'x WorkspaceDO \<Rightarrow> bool" where
  "socket_step st st' \<longleftrightarrow> same_core st st' \<and> sockets_kept (do_sockets st) (do_sockets st') \<and>
     set (do_presence st') \<subseteq> set (do_presence st) \<and> length (do_presence st') \<le> length (do_presence st) \<and>
     (\<exists>es. do_out st' = do_out st @ es)"

lemma socket_step_refl [simp]: "socket_step st st"
  by (simp add: socket_step_def)

lemma socket_step_trans: "socket_step a b \<Longrightarrow> socket_step b c \<Longrightarrow> socket_step a c"
  unfolding socket_step_def by (auto intro: same_core_trans sockets_kept_trans)

lemma step_emit [simp]: "socket_step st (emit e st)"
  by (simp add: socket_step_def emit_def same_core_def)

lemma step_count [simp]: "socket_step st (count f st)"
  by (simp add: socket_step_def count_def same_core_def)

lemma step_presence: "set ps \<subseteq> set (do_presence st) \<Longrightarrow> length ps \<le> length (do_presence st) \<Longrightarrow> socket_step st (st\<lparr>do_presence := ps\<rparr>)"
  by (simp add: socket_step_def same_core_def)

lemma step_update_socket:
  "(\<And>k. sk_id (f k) = sk_id k \<and> att_kept (sk_att k) (sk_att (f k))) \<Longrightarrow> socket_step st (update_socket s f st)"
  by (simp add: socket_step_def update_socket_def same_core_def sockets_kept_def list_all2_map2 list_all2_same)

lemma step_send: "socket_step st (fst (send s f st))"
proof -
  have "socket_step st (update_socket s (\<lambda>k. k\<lparr>sk_quota := q\<rparr>) st)" for q
    by (rule step_update_socket) simp
  then have "socket_step st (emit e (update_socket s (\<lambda>k. k\<lparr>sk_quota := q\<rparr>) st))" for e q
    using step_emit socket_step_trans by blast
  then show ?thesis
    by (auto simp: send_def split: option.splits nat.splits)
qed

lemma step_send_all: "socket_step st (fst (send_all s fs st))"
proof (induction s fs st rule: send_all.induct)
  case (2 s f fs st)
  show ?case using step_send [of st s f] "2.IH" by (auto intro: socket_step_trans split: prod.splits)
qed simp

lemma att_socket: "att st s = Some a \<longleftrightarrow> (\<exists>k. socket_of st s = Some k \<and> sk_att k = a)"
  by (auto simp: att_def)

lemma step_mark: "socket_step st (mark_defunct s st)"
  unfolding mark_defunct_def by (rule step_update_socket) (simp add: att_kept_def)

text \<open>A teardown that is itself such a step makes the operations built on it such steps.\<close>

lemma step_close_with:
  assumes "\<And>s st. socket_step st (td s st)"
  shows "socket_step st (close_with td s code reason st)"
  unfolding close_with_def by (meson assms socket_step_trans step_emit step_mark)

lemma step_deliver_with:
  assumes "\<And>s st. socket_step st (td s st)"
  shows "socket_step st (deliver_with td ev s fs st)"
proof -
  have "socket_step st (case send_all s fs st of (st', ok) \<Rightarrow>
      if ok then count f st' else close_with td s code reason st')" for f code reason
    using step_send_all [of st s fs] step_close_with [OF assms]
    by (auto intro: socket_step_trans split: prod.split)
  then show ?thesis
    using step_close_with [OF assms] by (auto simp: deliver_with_def split: option.split)
qed

lemma step_deliver_each:
  assumes "\<And>s st. socket_step st (td s st)"
  shows "socket_step st (deliver_each td ev x ss fs st)"
proof (induction ss arbitrary: st)
  case (Cons s ss)
  show ?case
    using Cons.IH [of "if x = Some s then st else deliver_with td ev s fs st"] step_deliver_with [of td st ev s fs, OF assms]
    by (auto intro: socket_step_trans split: if_splits)
qed simp

lemma set_delete_le: "set (AList.delete k m) \<subseteq> set m"
  by (auto simp: AList.delete_eq)

lemma length_delete_less: "(k, v) \<in> set m \<Longrightarrow> length (AList.delete k m) < length m"
  unfolding AList.delete_eq by (rule length_filter_less) auto

lemma step_drop_fuel: "socket_step st (dropPresence_fuel n cfg ev s st)"
proof (induction n arbitrary: s st)
  case (Suc n)
  have "socket_step st (st\<lparr>do_presence := AList.delete c (do_presence st)\<rparr>)" for c
    by (rule step_presence) (simp_all add: AList.length_delete_le set_delete_le)
  moreover have "socket_step st' (relay_with (dropPresence_fuel n cfg ev) ev w c p v st')" for w c p v st'
    unfolding relay_with_def by (rule step_deliver_each) (rule Suc.IH)
  ultimately have "socket_step st (relay_with (dropPresence_fuel n cfg ev) ev w c p v
      (st\<lparr>do_presence := AList.delete c (do_presence st)\<rparr>))" for w c p v
    by (rule socket_step_trans)
  then show ?case by (simp split: option.split prod.split)
qed simp

lemma step_dropPresence: "socket_step st (dropPresence cfg ev s st)"
  unfolding dropPresence_def by (rule step_drop_fuel)

lemma step_closeSocket: "socket_step st (closeSocket cfg ev s code reason st)"
  unfolding closeSocket_def by (rule step_close_with) (rule step_dropPresence)

lemma step_deliver: "socket_step st (deliver cfg ev s fs st)"
  unfolding deliver_def by (rule step_deliver_with) (rule step_dropPresence)

lemma step_relayPresence: "socket_step st (relayPresence cfg ev w c p v st)"
  unfolding relayPresence_def relay_with_def by (rule step_deliver_each) (rule step_dropPresence)

lemma step_sendError: "socket_step st (sendError s code m st)"
  unfolding sendError_def by (rule step_send)

lemmas socket_steps = step_dropPresence step_closeSocket step_deliver step_relayPresence step_sendError

section \<open>The teardown's fuel is enough\<close>

definition same_upto :: "nat \<Rightarrow> 'x teardown \<Rightarrow> 'x teardown \<Rightarrow> bool" where
  "same_upto n td td' \<longleftrightarrow> (\<forall>s st. length (do_presence st) \<le> n \<longrightarrow> td s st = td' s st)"

lemma close_same:
  assumes "same_upto n td td'" "length (do_presence st) \<le> n"
  shows "close_with td s code reason st = close_with td' s code reason st"
  using assms by (simp add: close_with_def same_upto_def mark_defunct_def update_socket_def)

lemma deliver_same:
  assumes "same_upto n td td'" "length (do_presence st) \<le> n"
  shows "deliver_with td ev s fs st = deliver_with td' ev s fs st"
proof -
  have "length (do_presence (fst (send_all s fs st))) \<le> n"
    using step_send_all [of st s fs] assms(2) by (simp add: socket_step_def)
  then show ?thesis
    using close_same [OF assms(1)] assms(2) by (auto simp: deliver_with_def split: option.split prod.split)
qed

lemma deliver_each_same:
  assumes "same_upto n td td'" "\<And>s st. socket_step st (td s st)" "length (do_presence st) \<le> n"
  shows "deliver_each td ev x ss fs st = deliver_each td' ev x ss fs st"
  using assms(3)
proof (induction ss arbitrary: st)
  case (Cons s ss)
  have "length (do_presence (deliver_with td ev s fs st)) \<le> n"
    using step_deliver_with [of td st ev s fs, OF assms(2)] Cons.prems by (simp add: socket_step_def)
  then show ?case using Cons.IH Cons.prems deliver_same [OF assms(1) Cons.prems, of ev s fs] by simp
qed simp

lemma drop_fuel_enough:
  "length (do_presence st) < n \<Longrightarrow> dropPresence_fuel n cfg ev s st = dropPresence_fuel (Suc n) cfg ev s st"
proof (induction n arbitrary: s st)
  case (Suc n)
  show ?case
  proof (cases "owner_entry st s")
    case (Some ce)
    obtain c e where ce: "ce = (c, e)" by (cases ce)
    let ?st = "st\<lparr>do_presence := AList.delete c (do_presence st)\<rparr>"
    have "(c, e) \<in> set (do_presence st)"
      using Some ce by (auto simp: owner_entry_def dest: find_SomeD)
    then have "length (AList.delete c (do_presence st)) < length (do_presence st)"
      by (rule length_delete_less)
    then have less: "length (do_presence ?st) < n" using Suc.prems by simp
    then have n: "n = Suc (n - 1)" by simp
    have "same_upto (n - 1) (dropPresence_fuel n cfg ev) (dropPresence_fuel (Suc n) cfg ev)"
      unfolding same_upto_def using Suc.IH less by fastforce
    then have "relay_with (dropPresence_fuel n cfg ev) ev (Some s) c (pe_principal e) JNull ?st =
        relay_with (dropPresence_fuel (Suc n) cfg ev) ev (Some s) c (pe_principal e) JNull ?st"
      unfolding relay_with_def using less
      by (intro deliver_each_same [of "n - 1"]) (auto intro: step_drop_fuel simp del: dropPresence_fuel.simps)
    then show ?thesis using Some ce by (simp del: dropPresence_fuel.simps add: dropPresence_fuel.simps(2) [of n]
        dropPresence_fuel.simps(2) [of "Suc n"])
  qed simp
qed simp

lemma drop_fuel_any:
  "length (do_presence st) < n \<Longrightarrow> dropPresence_fuel n cfg ev s st = dropPresence cfg ev s st"
proof (induction n)
  case (Suc n)
  show ?case
  proof (cases "length (do_presence st) < n")
    case True
    then show ?thesis using Suc.IH drop_fuel_enough [OF True, of cfg ev s] by simp
  next
    case False
    then have "n = length (do_presence st)" using Suc.prems by simp
    then show ?thesis by (simp add: dropPresence_def)
  qed
qed simp

text \<open>
  C11: A close cascades (it drops the socket's presence, tells the others, which may close a
  broken or expired socket, and so on) and the cascade ends: with the fuel the model gives it,
  one more than the number of presence entries, the teardown satisfies the program's own
  unbounded recursion equation, whatever the sockets do.
\<close>

theorem close_cascade_terminates:
  "dropPresence cfg ev s st =
     (if app_presence (cf_app cfg) = None then st
      else case owner_entry st s of
        None \<Rightarrow> st
      | Some (clientId, entry) \<Rightarrow>
          relayPresence cfg ev (Some s) clientId (pe_principal entry) JNull
            (st\<lparr>do_presence := AList.delete clientId (do_presence st)\<rparr>))"
proof (cases "owner_entry st s")
  case (Some ce)
  obtain c e where ce: "ce = (c, e)" by (cases ce)
  let ?n = "length (do_presence st)" and ?st = "st\<lparr>do_presence := AList.delete c (do_presence st)\<rparr>"
  have "(c, e) \<in> set (do_presence st)"
    using Some ce by (auto simp: owner_entry_def dest: find_SomeD)
  then have less: "length (do_presence ?st) < ?n"
    by (simp add: length_delete_less)
  have "same_upto (?n - 1) (dropPresence_fuel ?n cfg ev) (dropPresence cfg ev)"
    unfolding same_upto_def using less drop_fuel_any [of _ ?n cfg ev] by fastforce
  then have "relay_with (dropPresence_fuel ?n cfg ev) ev (Some s) c (pe_principal e) JNull ?st =
      relayPresence cfg ev (Some s) c (pe_principal e) JNull ?st"
    unfolding relayPresence_def relay_with_def using less
    by (intro deliver_each_same [of "?n - 1"]) (auto intro: step_drop_fuel)
  then show ?thesis using Some ce by (simp add: dropPresence_def)
qed (simp add: dropPresence_def)

end
