(* ===== verification/Engine.thy ===== *)
theory Engine
  imports Sockets "HOL-Library.List_Lexorder" "HOL-Library.Product_Lexorder"
begin

text \<open>
  The message handlers of the workspace Durable Object (server/src/do.ts): hello, push and the
  application of one mutation, presence, and the patches and pokes they send. A handler
  returns the new state and the error it threw, if any; \<open>webSocketMessage\<close> turns that error
  into an error frame. SQLite sorts rows of equal version by rowid.
\<close>

section \<open>Patches\<close>

definition row_op :: "StoredRow \<Rightarrow> PatchOp" where
  "row_op row = (if row_deleted row then DelOp (row_tbl row) (row_id row)
     else PutOp (row_tbl row) (row_id row) (row_data row))"

definition since_ops :: "sql_rows \<Rightarrow> int \<Rightarrow> PatchOp list" where
  "since_ops rows v = map row_op (sort_key row_version (filter (\<lambda>row. v < row_version row) rows))"

definition live_rows :: "sql_rows \<Rightarrow> StoredRow list" where
  "live_rows rows = sort_key (\<lambda>row. (utf8 (row_tbl row), utf8 (row_id row))) (filter (\<lambda>row. \<not> row_deleted row) rows)"

definition snapshot_ops :: "sql_rows \<Rightarrow> PatchOp list" where
  "snapshot_ops rows = ClearOp # map row_op (live_rows rows)"

definition pack_ops :: "'x Config \<Rightarrow> PatchOp list \<Rightarrow> PatchParts res" where
  "pack_ops cfg ops =
     (case packPatch (map (op_json (cf_jsonQuote cfg)) ops) MAX_PART_PATCH_BYTES of
        Inl e \<Rightarrow> Inl (OtherError ''OversizeItemError'') | Inr p \<Rightarrow> Inr p)"

definition patchSince :: "'x WorkspaceDO \<Rightarrow> int \<Rightarrow> PatchOp list" where
  "patchSince st v = since_ops (db_rows (do_db st)) v"

definition bootstrapPatch :: "'x Config \<Rightarrow> 'x WorkspaceDO \<Rightarrow> PatchParts res \<times> 'x WorkspaceDO" where
  "bootstrapPatch cfg st =
     (let b = m_backendId (do_meta st); v = m_currentVersion (do_meta st);
          build = (case pack_ops cfg (snapshot_ops (db_rows (do_db st))) of
            Inl e \<Rightarrow> (Inl e, st)
          | Inr p \<Rightarrow> (Inr p, st\<lparr>do_snapshot := Some (b, v, p)\<rparr>))
      in case do_snapshot st of
        Some (b', v', p) \<Rightarrow> if b' = b \<and> v' = v then (Inr p, st) else build
      | None \<Rightarrow> build)"

definition current_cursor :: "'x WorkspaceDO \<Rightarrow> Cursor" where
  "current_cursor st = \<lparr>backendId = m_backendId (do_meta st), cversion = m_currentVersion (do_meta st)\<rparr>"

definition deliver_all :: "'x Config \<Rightarrow> Env \<Rightarrow> nat list \<Rightarrow> Frame list \<Rightarrow> 'x WorkspaceDO \<Rightarrow> 'x WorkspaceDO" where
  "deliver_all cfg ev ss fs st = deliver_each (dropPresence cfg ev) ev None ss fs st"

definition sendPoke ::
  "'x Config \<Rightarrow> Env \<Rightarrow> nat list \<Rightarrow> Cursor option \<Rightarrow> PatchParts \<Rightarrow> (jstr \<times> int) list option \<Rightarrow> MutationResult list
     \<Rightarrow> 'x WorkspaceDO \<Rightarrow> 'x WorkspaceDO" where
  "sendPoke cfg ev ss base patch lmids results st =
     (if ss = [] then st
      else
        let frames = pokeFrames \<lparr>poke_id = ev_uuid ev, poke_base = base, poke_patch = patch, poke_lmids = lmids,
                                 poke_results = results, poke_cursor = current_cursor st\<rparr>;
            st = count (\<lambda>c. c\<lparr>ct_pokesSent := ct_pokesSent c + 1, ct_lastFanout := length ss\<rparr>) st
        in deliver_all cfg ev ss (map FText frames) st)"

section \<open>Applying a mutation\<close>

text \<open>
  A name no mutator has but \<open>Object.prototype\<close> has finds a function there, and
  \<open>mutator.apply(tx, args, ctx)\<close> is then \<open>Function.prototype.apply\<close>: it calls that method on
  the transaction with the elements of \<open>args\<close>. \<open>inherited_call_ok\<close> says when this returns; an
  array-like object with its own \<open>length\<close> is taken to throw.
\<close>

fun stringable :: "jval \<Rightarrow> bool" where
  "stringable (JArr vs) = list_all stringable vs"
| "stringable (JObj ob) = (map_of ob (js ''toString'') = None)"
| "stringable _ = True"

definition key_methods :: "jstr list" where
  "key_methods = map js [''hasOwnProperty'', ''propertyIsEnumerable'', ''__lookupGetter__'', ''__lookupSetter__'']"

definition inherited_call_ok :: "jstr \<Rightarrow> jval \<Rightarrow> bool" where
  "inherited_call_ok p args \<longleftrightarrow> p \<in> set proto_call_ok \<and>
     (case args of
        JUndef \<Rightarrow> True
      | JNull \<Rightarrow> True
      | JArr vs \<Rightarrow> p \<notin> set key_methods \<or> (case vs of [] \<Rightarrow> True | v # _ \<Rightarrow> stringable v)
      | JObj ob \<Rightarrow> map_of ob (js ''length'') = None
      | _ \<Rightarrow> False)"

definition unknown_mutator :: "jstr \<Rightarrow> err" where
  "unknown_mutator name = AppError (js ''UnknownMutator'') (js ''no mutator named '' @ quoted name)"

definition parse_args :: "jstr \<Rightarrow> MutatorDef \<Rightarrow> jval \<Rightarrow> jval res" where
  "parse_args name d args =
     (case def_args d of
        None \<Rightarrow> Inr args
      | Some validate \<Rightarrow>
          (case validate args of
             VAsync \<Rightarrow> Inl (invalid_args (js ''mutator '' @ quoted name @ js '': async args validation is not supported''))
           | VIssues issues \<Rightarrow> Inl (invalid_args (js ''invalid args for '' @ quoted name @ js '': '' @ formatIssues issues))
           | VValue v \<Rightarrow> Inr v))"

definition mutation_ctx :: "Attachment \<Rightarrow> Mutation \<Rightarrow> MutatorContext" where
  "mutation_ctx a m =
     \<lparr>ctx_clientId = at_clientId a, ctx_principal = at_principal a, ctx_auth = at_auth a,
      ctx_authoritative = True, ctx_seed = mut_seed m, ctx_nextId = createIdSource (mut_seed m)\<rparr>"

text \<open>The body of the transaction up to the bookkeeping: the rows, the version written, if any, the args and changes.\<close>

definition run_mutation ::
  "'x Config \<Rightarrow> int \<Rightarrow> sql_rows \<Rightarrow> Attachment \<Rightarrow> Mutation \<Rightarrow> (sql_rows \<times> int option \<times> jval \<times> RowChange list) res" where
  "run_mutation cfg current rows a m =
     (case prop_get (app_mutators (cf_app cfg)) (mut_name m) of
        Absent \<Rightarrow> Inl (unknown_mutator (mut_name m))
      | Inherited p \<Rightarrow>
          if inherited_call_ok p (mut_args m) then Inr (rows, None, mut_args m, [])
          else Inl (OtherError ''TypeError'')
      | Own d \<Rightarrow>
          bind_res (parse_args (mut_name m) d (mut_args m)) (\<lambda>args.
            let ops = SqlRowStore (cf_plan cfg); sch = app_schema (cf_app cfg);
                (ws, thrown) = run_prog ops sch rows (def_apply d args (mutation_ctx a m)) (new_WriteSet False (cf_hook cfg))
            in case thrown of
                 Some e \<Rightarrow> Inl e
               | None \<Rightarrow>
                   bind_res (flush ops sch rows ws (current + 1)) (\<lambda>(rows', written, changes).
                     Inr (rows', if 0 < written then Some (current + 1) else None, args, changes))))"

text \<open>What a committed transaction leaves in the database.\<close>

definition commit_mutation ::
  "Env \<Rightarrow> jstr \<Rightarrow> Mutation \<Rightarrow> sql_rows \<Rightarrow> int option \<Rightarrow> (jstr \<times> jstr) option \<Rightarrow> DB \<Rightarrow> DB" where
  "commit_mutation ev clientId m rows wrote appError d =
     append_log wrote clientId (mut_id m) (mut_name m) (json_value (mut_args m)) appError (ev_iso ev)
       (set_lmid (ev_iso ev) (mut_id m) clientId
         ((case wrote of None \<Rightarrow> (\<lambda>d. d) | Some v \<Rightarrow> update_meta (\<lambda>mt. mt\<lparr>m_currentVersion := v\<rparr>))
           (d\<lparr>db_rows := rows\<rparr>)))"

definition notifyCommitted :: "'x Config \<Rightarrow> MutationCommitted \<Rightarrow> 'x WorkspaceDO \<Rightarrow> 'x WorkspaceDO" where
  "notifyCommitted cfg event st = (if cf_hook cfg then emit (HookRan event) st else st)"

text \<open>An error of the result is a transient throw: the transaction rolled back and nothing changed.\<close>

definition applyMutation ::
  "'x Config \<Rightarrow> Env \<Rightarrow> Attachment \<Rightarrow> Mutation \<Rightarrow> 'x WorkspaceDO \<Rightarrow> ('x WorkspaceDO \<times> (jstr \<times> jstr) option) res" where
  "applyMutation cfg ev a m st =
     (let d = do_db st; clientId = at_clientId a in
      case run_mutation cfg (m_currentVersion (do_meta st)) (db_rows d) a m of
        Inl (OtherError t) \<Rightarrow> Inl (OtherError t)
      | Inl (AppError c msg) \<Rightarrow>
          Inr (st\<lparr>do_db := commit_mutation ev clientId m (db_rows d) None (Some (c, msg)) d\<rparr>, Some (c, msg))
      | Inr (rows, wrote, args, changes) \<Rightarrow>
          let st = st\<lparr>do_db := commit_mutation ev clientId m rows wrote None d\<rparr> in
          (case wrote of
             None \<Rightarrow> Inr (st, None)
           | Some v \<Rightarrow>
               Inr (notifyCommitted cfg
                      \<lparr>mc_workspaceId = m_workspaceId (do_meta st), mc_name = mut_name m, mc_args = args,
                       mc_principal = at_principal a, mc_clientId = clientId, mc_version = v, mc_changes = changes\<rparr>
                      (st\<lparr>do_meta := (do_meta st)\<lparr>m_currentVersion := v\<rparr>, do_snapshot := None\<rparr>), None)))"

section \<open>Push\<close>

record 'x PushLoop =
  pl_do :: "'x WorkspaceDO"
  pl_lmid :: int
  pl_results :: "MutationResult list"
  pl_thrown :: "err option"

text \<open>The loop over a push's mutations: skip a duplicate, stop at a gap, apply the next one.\<close>

fun push_loop ::
  "'x Config \<Rightarrow> Env \<Rightarrow> nat \<Rightarrow> Attachment \<Rightarrow> Mutation list \<Rightarrow> 'x WorkspaceDO \<Rightarrow> int \<Rightarrow> MutationResult list \<Rightarrow> 'x PushLoop" where
  "push_loop cfg ev ws a [] st lmid results =
     \<lparr>pl_do = st, pl_lmid = lmid, pl_results = results, pl_thrown = None\<rparr>"
| "push_loop cfg ev ws a (m # ms) st lmid results =
     (if mut_id m < lmid + 1 then
        push_loop cfg ev ws a ms (count (\<lambda>c. c\<lparr>ct_mutationsSkipped := ct_mutationsSkipped c + 1\<rparr>) st) lmid results
      else if lmid + 1 < mut_id m then
        \<lparr>pl_do = sendError ws PushInvalid
            (Some (js ''expected mutation '' @ js_of_int (lmid + 1) @ js '', got '' @ js_of_int (mut_id m))) st,
         pl_lmid = lmid, pl_results = results, pl_thrown = None\<rparr>
      else case applyMutation cfg ev a m st of
        Inl e \<Rightarrow> \<lparr>pl_do = st, pl_lmid = lmid, pl_results = results, pl_thrown = Some e\<rparr>
      | Inr (st, error) \<Rightarrow>
          push_loop cfg ev ws a ms
            (count (\<lambda>c. if error \<noteq> None then c\<lparr>ct_mutationErrors := ct_mutationErrors c + 1\<rparr>
                        else c\<lparr>ct_mutationsApplied := ct_mutationsApplied c + 1\<rparr>) st)
            (mut_id m) (results @ [\<lparr>res_id = mut_id m, res_error = error\<rparr>]))"

definition handlePush :: "'x Config \<Rightarrow> Env \<Rightarrow> nat \<Rightarrow> Attachment \<Rightarrow> Mutation list \<Rightarrow> 'x WorkspaceDO \<Rightarrow> 'x WorkspaceDO \<times> err option" where
  "handlePush cfg ev ws a ms st =
     (if \<not> at_ready a then (sendError ws PushInvalid (Some (js ''push before hello'')) st, None)
      else
        let clientId = at_clientId a;
            st = count (\<lambda>c. c\<lparr>ct_pushes := ct_pushes c + 1\<rparr>) st;
            startVersion = m_currentVersion (do_meta st);
            startLmid = lastMutationId (do_db st) clientId;
            r = push_loop cfg ev ws a ms st startLmid [];
            st = pl_do r; lmid = pl_lmid r
        in case pl_thrown r of
          Some e \<Rightarrow> (st, Some e)
        | None \<Rightarrow>
            if lmid = startLmid then
              (case pack_ops cfg [] of
                 Inl e \<Rightarrow> (st, Some e)
               | Inr p \<Rightarrow> (sendPoke cfg ev [ws] (Some (current_cursor st)) p (Some [(clientId, lmid)]) [] st, None))
            else
              let ops = patchSince st startVersion;
                  recipients = (if ops \<noteq> [] then readySockets st else [ws])
              in case pack_ops cfg ops of
                   Inl e \<Rightarrow> (st, Some e)
                 | Inr p \<Rightarrow>
                     (sendPoke cfg ev recipients
                        (Some \<lparr>backendId = m_backendId (do_meta st), cversion = startVersion\<rparr>) p
                        (Some [(clientId, lmid)]) (pl_results r) st, None))"

section \<open>Hello\<close>

definition touchClient :: "Env \<Rightarrow> jstr \<Rightarrow> 'x WorkspaceDO \<Rightarrow> int \<times> 'x WorkspaceDO" where
  "touchClient ev clientId st =
     (let st = st\<lparr>do_db := touch_row (ev_iso ev) clientId (do_db st)\<rparr>
      in (lastMutationId (do_db st) clientId, st))"

definition cursor_valid :: "'x WorkspaceDO \<Rightarrow> Cursor option \<Rightarrow> bool" where
  "cursor_valid st c =
     (case c of
        None \<Rightarrow> False
      | Some c \<Rightarrow> backendId c = m_backendId (do_meta st) \<and> m_minCursorVersion (do_meta st) \<le> cversion c
                  \<and> cversion c \<le> m_currentVersion (do_meta st))"

definition peers_of :: "jstr \<Rightarrow> 'x WorkspaceDO \<Rightarrow> Peer list" where
  "peers_of clientId st =
     map (\<lambda>(c, e). \<lparr>peer_client = c, peer_principal = pe_principal e, peer_state = pe_state e\<rparr>)
       (filter (\<lambda>(c, e). c \<noteq> clientId) (do_presence st))"

definition handleHello ::
  "'x Config \<Rightarrow> Env \<Rightarrow> nat \<Rightarrow> Attachment \<Rightarrow> int \<Rightarrow> int \<Rightarrow> Cursor option \<Rightarrow> 'x WorkspaceDO \<Rightarrow> 'x WorkspaceDO \<times> err option" where
  "handleHello cfg ev ws a protocolVersion schemaVersion cursor st =
     (if protocolVersion \<noteq> PROTOCOL_VERSION \<or> schemaVersion \<noteq> app_version (cf_app cfg) then
        (closeSocket cfg ev ws CLOSE_VERSION_NOT_SUPPORTED (js ''VersionNotSupported'')
           (sendError ws VersionNotSupported
              (Some (js ''server speaks protocol '' @ js_of_int PROTOCOL_VERSION @ js '', schema version ''
                     @ js_of_int (app_version (cf_app cfg)))) st), None)
      else
        let (lmid, st) = touchClient ev (at_clientId a) st;
            valid = cursor_valid st cursor;
            (patch, st) = (if valid then (pack_ops cfg (patchSince st (cversion (the cursor))), st)
                           else bootstrapPatch cfg st)
        in case patch of
             Inl e \<Rightarrow> (st, Some e)
           | Inr p \<Rightarrow>
               let st = sendPoke cfg ev [ws] (if valid then cursor else None) p (Some [(at_clientId a, lmid)]) [] st;
                   st = serializeAttachment ws (a\<lparr>at_ready := True\<rparr>) st
               in (if app_presence (cf_app cfg) = None then st
                   else deliver cfg ev ws
                          [FText (json_text (enc_server_msg (PresencePeers (peers_of (at_clientId a) st))))] st, None))"

section \<open>Presence\<close>

definition handlePresence :: "'x Config \<Rightarrow> Env \<Rightarrow> nat \<Rightarrow> Attachment \<Rightarrow> jval \<Rightarrow> 'x WorkspaceDO \<Rightarrow> 'x WorkspaceDO" where
  "handlePresence cfg ev ws a state st =
     (case app_presence (cf_app cfg) of
        None \<Rightarrow> sendError ws PresenceInvalid (Some (js ''the app declares no presence schema'')) st
      | Some validate \<Rightarrow>
          let refuse = (\<lambda>msg. sendError ws PresenceInvalid msg st);
              clientId = at_clientId a;
              announce = (\<lambda>state.
                if state = JNull then
                  if map_of (do_presence st) clientId = None then st
                  else relayPresence cfg ev (Some ws) clientId (at_principal a) JNull
                         (st\<lparr>do_presence := AList.delete clientId (do_presence st)\<rparr>)
                else relayPresence cfg ev (Some ws) clientId (at_principal a) state
                       (st\<lparr>do_presence := AList.update clientId
                            \<lparr>pe_ws = ws, pe_principal = at_principal a, pe_state = state\<rparr> (do_presence st)\<rparr>))
          in if \<not> at_ready a then refuse (Some (js ''presence before hello''))
             else if state = JNull \<or> state = JUndef then announce JNull
             else if MAX_PRESENCE_BYTES < jsonByteSize state then
               refuse (Some (js ''presence state exceeds '' @ digits_of MAX_PRESENCE_BYTES @ js '' bytes''))
             else case validate state of
               VAsync \<Rightarrow> refuse (Some (js ''async presence validation is not supported''))
             | VIssues issues \<Rightarrow> refuse (if formatIssues issues = [] then None else Some (formatIssues issues))
             | VValue v \<Rightarrow> announce v)"

end
