(* ===== verification/Catchup.thy ===== *)
theory Catchup
  imports Engine
begin

text \<open>
  What a replica sees of the workspace: the abstract table a list of patch operations builds,
  the relation \<open>in_sync\<close> between a replica at a cursor and the versioned rows of the database,
  and the two ways the engine brings a replica up to date, the operations since a cursor and
  the snapshot. Flushes and compaction are shown to keep the relation for every cursor the
  engine still accepts.
\<close>

section \<open>Replicas\<close>

type_synonym table = "jstr \<times> jstr \<Rightarrow> jobj option"

fun apply_op :: "PatchOp \<Rightarrow> table \<Rightarrow> table" where
  "apply_op (PutOp t i d) tab = tab((t, i) := Some d)"
| "apply_op (DelOp t i) tab = tab((t, i) := None)"
| "apply_op ClearOp tab = (\<lambda>_. None)"

definition apply_ops :: "PatchOp list \<Rightarrow> table \<Rightarrow> table" where
  "apply_ops ops = fold apply_op ops"

definition server_table :: "sql_rows \<Rightarrow> table" where
  "server_table rows = (\<lambda>(t, i). sql_get rows t i)"

abbreviation key_of :: "StoredRow \<Rightarrow> jstr \<times> jstr" where
  "key_of row \<equiv> (row_tbl row, row_id row)"

definition shown :: "StoredRow \<Rightarrow> jobj option" where
  "shown row = (if row_deleted row then None else Some (row_data row))"

lemma apply_row_op: "apply_op (row_op row) tab = tab(key_of row := shown row)"
  by (simp add: row_op_def shown_def)

lemma apply_rows_other: "k \<notin> key_of ` set rs \<Longrightarrow> apply_ops (map row_op rs) tab k = tab k"
  by (induction rs arbitrary: tab) (auto simp: apply_ops_def apply_row_op)

lemma apply_rows_at:
  "distinct (map key_of rs) \<Longrightarrow> row \<in> set rs \<Longrightarrow> apply_ops (map row_op rs) tab (key_of row) = shown row"
proof (induction rs arbitrary: tab)
  case (Cons r rs)
  show ?case
  proof (cases "row = r")
    case True
    then have "key_of row \<notin> key_of ` set rs" using Cons.prems(1) by force
    from apply_rows_other [OF this, of "apply_op (row_op r) tab"] True show ?thesis
      by (simp add: apply_ops_def apply_row_op)
  next
    case False
    then have "row \<in> set rs" using Cons.prems(2) by simp
    with Cons show ?thesis by (simp add: apply_ops_def)
  qed
qed simp

section \<open>The versioned table\<close>

text \<open>
  Row versions run from 1 to the workspace's version, and rows name valid tables and ids within the
  length limit (an import does not check ids for NUL, as transactions do).
\<close>

definition key_ok :: "jstr \<Rightarrow> bool" where
  "key_ok i \<longleftrightarrow> length i \<le> MAX_ID_LENGTH"

lemma key_ok_id [simp]: "id_ok i \<Longrightarrow> key_ok i"
  by (simp add: key_ok_def id_ok_def)

definition rows_ok :: "int \<Rightarrow> sql_rows \<Rightarrow> bool" where
  "rows_ok current rows \<longleftrightarrow> sql_inv rows \<and>
     list_all (\<lambda>row. 1 \<le> row_version row \<and> row_version row \<le> current \<and> TABLE_NAME_RE (row_tbl row) \<and> key_ok (row_id row)) rows"

text \<open>What a flush at a version may do: rows it leaves carry that version or are old rows; none vanishes.\<close>

definition rows_step :: "int \<Rightarrow> sql_rows \<Rightarrow> sql_rows \<Rightarrow> bool" where
  "rows_step v rows rows' \<longleftrightarrow> (\<forall>row \<in> set rows'. row \<in> set rows \<or> row_version row = v) \<and>
     key_of ` set rows \<subseteq> key_of ` set rows'"

lemma rows_step_refl [simp]: "rows_step v rows rows"
  by (auto simp: rows_step_def)

lemma rows_step_trans: "rows_step v a b \<Longrightarrow> rows_step v b c \<Longrightarrow> rows_step v a c"
  unfolding rows_step_def by (meson subset_trans)

lemma rows_step_put: "rows_step v rows (sql_put rows t i d v)"
  using set_upsert [of "\<lparr>row_tbl = t, row_id = i, row_data = json_obj d, row_version = v, row_deleted = False\<rparr>" rows]
    keys_upsert [of "\<lparr>row_tbl = t, row_id = i, row_data = json_obj d, row_version = v, row_deleted = False\<rparr>" rows]
  unfolding rows_step_def sql_put_def by auto

lemma rows_step_del: "rows_step v rows (fst (sql_del rows t i v))"
proof -
  have "map key_of (fst (sql_del rows t i v)) = map key_of rows"
    by (simp add: sql_del_def Let_def)
  from arg_cong [OF this, of set]
  have "key_of ` set rows \<subseteq> key_of ` set (fst (sql_del rows t i v))" by (simp only: set_map subset_refl)
  moreover have "\<forall>row \<in> set (fst (sql_del rows t i v)). row \<in> set rows \<or> row_version row = v"
    by (auto simp: sql_del_def Let_def)
  ultimately show ?thesis unfolding rows_step_def by blast
qed

lemma sql_ops [simp]:
  "rs_put (SqlRowStore plan) = sql_put" "rs_del (SqlRowStore plan) = sql_del" "rs_get (SqlRowStore plan) = sql_get"
  by (simp_all add: SqlRowStore_def)

text \<open>The names a flush writes come from the buffer, which checked them.\<close>

definition names_ok :: "sql_rows \<Rightarrow> bool" where
  "names_ok rows = list_all (\<lambda>row. TABLE_NAME_RE (row_tbl row) \<and> key_ok (row_id row)) rows"

lemma names_ok_put: "names_ok rows \<Longrightarrow> TABLE_NAME_RE t \<Longrightarrow> id_ok i \<Longrightarrow> names_ok (sql_put rows t i d v)"
  using set_upsert [of "\<lparr>row_tbl = t, row_id = i, row_data = json_obj d, row_version = v, row_deleted = False\<rparr>" rows]
  by (auto simp: names_ok_def sql_put_def list_all_iff)

lemma names_ok_del: "names_ok rows \<Longrightarrow> names_ok (fst (sql_del rows t i v))"
  by (auto simp: names_ok_def sql_del_def list_all_iff Let_def)

lemma flush_dels_step:
  "flush_dels (SqlRowStore plan) v ds (rows, after) = (rows', after') \<Longrightarrow>
     rows_step v rows rows' \<and> (names_ok rows \<longrightarrow> names_ok rows')"
proof (induction ds arbitrary: rows after)
  case (Cons d ds)
  let ?rows = "fst (sql_del rows (t_tbl d) (t_id d) v)"
  have "rows_step v ?rows rows' \<and> (names_ok ?rows \<longrightarrow> names_ok rows')"
    using Cons.prems Cons.IH [of ?rows] by (simp add: case_prod_beta Let_def split: if_splits)
  then show ?case
    using rows_step_del [of v rows "t_tbl d" "t_id d"] names_ok_del [of rows "t_tbl d" "t_id d" v]
    by (blast intro: rows_step_trans)
qed simp

lemma flush_step:
  assumes "flush (SqlRowStore plan) sch rows ws v = Inr (rows', n, ch)" "puts_ok (ws_puts ws)"
  shows "rows_step v rows rows' \<and> (names_ok rows \<longrightarrow> names_ok rows')"
proof -
  obtain s0 where s0: "fold_res (flush_put (SqlRowStore plan) sch (ws_validateAtFlush ws) v)
      (map snd (ws_puts ws)) (rows, []) = Inr s0"
      "fst (flush_dels (SqlRowStore plan) v (map snd (ws_dels ws)) s0) = rows'"
    using assms(1) by (auto simp: flush_def bind_res_Inr_iff Let_def case_prod_beta)
  obtain mid after where mid: "s0 = (mid, after)" by (cases s0)
  note f = s0(1) [unfolded mid]
  have d: "\<exists>after'. flush_dels (SqlRowStore plan) v (map snd (ws_dels ws)) (mid, after) = (rows', after')"
    using s0(2) mid by (metis prod.collapse)
  let ?P = "\<lambda>s. rows_step v rows (fst s) \<and> (names_ok rows \<longrightarrow> names_ok (fst s))"
  have "?P (mid, after)"
  proof (rule fold_res_invariant [OF f, of ?P])
    fix w s s' assume w: "w \<in> set (map snd (ws_puts ws))" and P: "?P s"
      and "flush_put (SqlRowStore plan) sch (ws_validateAtFlush ws) v w s = Inr s'"
    then have s': "\<exists>d. fst s' = sql_put (fst s) (w_tbl w) (w_id w) d v"
      by (auto simp: flush_put_def bind_res_Inr_iff split: prod.splits)
    obtain k where "(k, w) \<in> set (ws_puts ws)" using w by auto
    then have "map_of (ws_puts ws) k = Some w" using assms(2) by (simp add: puts_ok_def)
    then have "TABLE_NAME_RE (w_tbl w)" "id_ok (w_id w)" using assms(2) unfolding puts_ok_def by blast+
    then show "?P s'"
      using s' P rows_step_trans [OF _ rows_step_put] names_ok_put by auto
  qed simp
  with d flush_dels_step [of plan v "map snd (ws_dels ws)" mid after rows'] show ?thesis
    by (auto intro: rows_step_trans)
qed

lemma rows_ok_step:
  assumes "rows_ok v rows" "rows_step (v + 1) rows rows'" "sql_inv rows'" "names_ok rows'" "0 \<le> v"
  shows "rows_ok (v + 1) rows'"
proof -
  have "1 \<le> row_version row \<and> row_version row \<le> v + 1" if "row \<in> set rows'" for row
    using that assms(1,2,5) by (force simp: rows_ok_def rows_step_def list_all_iff)
  with assms(3,4) show ?thesis by (auto simp: rows_ok_def names_ok_def list_all_iff)
qed

lemma rows_ok_names: "rows_ok v rows \<Longrightarrow> names_ok rows"
  by (auto simp: rows_ok_def names_ok_def list_all_iff)

lemma rows_ok_inv [simp]: "rows_ok v rows \<Longrightarrow> sql_inv rows"
  by (simp add: rows_ok_def)

lemma sql_inv_unique:
  "sql_inv rows \<Longrightarrow> r \<in> set rows \<Longrightarrow> r' \<in> set rows \<Longrightarrow> key_of r = key_of r' \<Longrightarrow> r = r'"
  by (auto simp: sql_inv_def distinct_map inj_on_def)

lemma server_table_at: "sql_inv rows \<Longrightarrow> row \<in> set rows \<Longrightarrow> server_table rows (key_of row) = shown row"
proof -
  assume inv: "sql_inv rows" and row: "row \<in> set rows"
  show ?thesis
  proof (cases "row_deleted row")
    case True
    have "sql_get rows (row_tbl row) (row_id row) \<noteq> Some d" for d
      using sql_get_Some_iff [OF inv] sql_inv_unique [OF inv row] True by (metis prod.inject)
    then have "sql_get rows (row_tbl row) (row_id row) = None" by (meson not_Some_eq)
    with True show ?thesis by (simp add: server_table_def shown_def)
  next
    case False
    then have "sql_get rows (row_tbl row) (row_id row) = Some (row_data row)"
      using sql_get_Some_iff [OF inv] row by blast
    with False show ?thesis by (simp add: server_table_def shown_def)
  qed
qed

lemma server_table_none: "sql_inv rows \<Longrightarrow> k \<notin> key_of ` set rows \<Longrightarrow> server_table rows k = None"
  using sql_get_Some_iff [of rows "fst k" "snd k"]
  by (cases "server_table rows k") (force simp: server_table_def case_prod_beta)+

section \<open>In sync up to a cursor\<close>

text \<open>
  A replica whose cursor is \<open>v\<close> shows every row of version at most \<open>v\<close> as it is, and no row the
  database does not know. Rows of later versions it may show in any way.
\<close>

definition in_sync :: "int \<Rightarrow> sql_rows \<Rightarrow> table \<Rightarrow> bool" where
  "in_sync v rows tab \<longleftrightarrow>
     (\<forall>row \<in> set rows. row_version row \<le> v \<longrightarrow> tab (key_of row) = shown row) \<and>
     (\<forall>k. k \<notin> key_of ` set rows \<longrightarrow> tab k = None)"

lemma in_sync_absent: "in_sync v rows tab \<Longrightarrow> k \<notin> key_of ` set rows \<Longrightarrow> tab k = None"
  unfolding in_sync_def by blast

lemma in_sync_server: "sql_inv rows \<Longrightarrow> in_sync v rows (server_table rows)"
  by (simp add: in_sync_def server_table_at server_table_none)

lemma in_sync_step:
  assumes "in_sync v rows tab" "rows_step v' rows rows'" "v < v'"
  shows "in_sync v rows' tab"
  unfolding in_sync_def
proof (intro conjI ballI allI impI)
  fix row assume "row \<in> set rows'" "row_version row \<le> v"
  then have "row \<in> set rows" using assms(2,3) by (auto simp: rows_step_def)
  with assms(1) \<open>row_version row \<le> v\<close> show "tab (key_of row) = shown row" by (simp add: in_sync_def)
next
  fix k assume "k \<notin> key_of ` set rows'"
  then have "k \<notin> key_of ` set rows" using assms(2) unfolding rows_step_def by blast
  with assms(1) show "tab k = None" by (rule in_sync_absent)
qed

text \<open>Compaction deletes tombstones up to a cutoff; a replica at or past the cutoff stays in sync.\<close>

definition drop_tombstones :: "int \<Rightarrow> sql_rows \<Rightarrow> sql_rows" where
  "drop_tombstones cutoff rows = filter (\<lambda>row. \<not> (row_deleted row \<and> row_version row \<le> cutoff)) rows"

lemma in_sync_drop:
  assumes "in_sync v rows tab" "sql_inv rows"
    and "\<And>row. row \<in> set rows \<Longrightarrow> row_deleted row \<Longrightarrow> row_version row \<le> cutoff \<Longrightarrow> row_version row \<le> v"
  shows "in_sync v (drop_tombstones cutoff rows) tab"
  unfolding in_sync_def
proof (intro conjI ballI allI impI)
  fix row assume "row \<in> set (drop_tombstones cutoff rows)" "row_version row \<le> v"
  then show "tab (key_of row) = shown row" using assms(1) by (simp add: in_sync_def drop_tombstones_def)
next
  fix k assume k: "k \<notin> key_of ` set (drop_tombstones cutoff rows)"
  show "tab k = None"
  proof (cases "k \<in> key_of ` set rows")
    case True
    then obtain row where row: "row \<in> set rows" "k = key_of row" by auto
    then have "row_deleted row" "row_version row \<le> cutoff" using k by (auto simp: drop_tombstones_def)
    with row assms show ?thesis by (auto simp: in_sync_def shown_def)
  next
    case False
    with assms(1) show ?thesis by (rule in_sync_absent)
  qed
qed

lemma server_table_drop: "sql_inv rows \<Longrightarrow> server_table (drop_tombstones cutoff rows) = server_table rows"
proof -
  assume inv: "sql_inv rows"
  have inv': "sql_inv (drop_tombstones cutoff rows)"
    using inv unfolding sql_inv_def drop_tombstones_def by (auto simp: list_all_iff distinct_map_filter)
  have "sql_get (drop_tombstones cutoff rows) t i = Some d \<longleftrightarrow> sql_get rows t i = Some d" for t i d
    unfolding sql_get_Some_iff [OF inv] sql_get_Some_iff [OF inv'] by (auto simp: drop_tombstones_def)
  then have "sql_get (drop_tombstones cutoff rows) t i = sql_get rows t i" for t i
    by (metis option.exhaust)
  then show ?thesis by (simp add: server_table_def fun_eq_iff)
qed

section \<open>Both catch-ups arrive at the server's table\<close>

lemma since_converges:
  assumes "sql_inv rows" "in_sync v rows tab"
  shows "apply_ops (since_ops rows v) tab = server_table rows"
proof
  fix k
  let ?rs = "sort_key row_version (filter (\<lambda>row. v < row_version row) rows)"
  have d: "distinct (map key_of ?rs)"
    using assms(1) by (auto simp: sql_inv_def distinct_map inj_on_def)
  show "apply_ops (since_ops rows v) tab k = server_table rows k"
  proof (cases "k \<in> key_of ` set rows")
    case True
    then obtain row where row: "row \<in> set rows" "k = key_of row" by auto
    show ?thesis
    proof (cases "v < row_version row")
      case True
      then have "row \<in> set ?rs" using row by simp
      from apply_rows_at [OF d this] row server_table_at [OF assms(1) row(1)] show ?thesis
        by (simp add: since_ops_def)
    next
      case False
      have "k \<notin> key_of ` set ?rs"
      proof
        assume "k \<in> key_of ` set ?rs"
        then obtain row' where "row' \<in> set rows" "v < row_version row'" "key_of row = key_of row'"
          using row by auto
        with sql_inv_unique [OF assms(1) row(1)] False show False by blast
      qed
      from apply_rows_other [OF this, of tab] False row assms server_table_at [OF assms(1) row(1)]
      show ?thesis by (simp add: since_ops_def in_sync_def)
    qed
  next
    case False
    then have "k \<notin> key_of ` set ?rs" by auto
    from apply_rows_other [OF this, of tab] in_sync_absent [OF assms(2) False] server_table_none [OF assms(1) False]
    show ?thesis by (simp add: since_ops_def)
  qed
qed

lemma set_live: "set (live_rows rows) = {row \<in> set rows. \<not> row_deleted row}"
  by (auto simp: live_rows_def)

lemma snapshot_converges:
  assumes "sql_inv rows"
  shows "apply_ops (snapshot_ops rows) tab = server_table rows"
proof
  fix k
  have d: "distinct (map key_of (live_rows rows))"
    using assms by (auto simp: sql_inv_def distinct_map inj_on_def live_rows_def)
  have clear: "apply_ops (snapshot_ops rows) tab = apply_ops (map row_op (live_rows rows)) (\<lambda>_. None)"
    by (simp add: snapshot_ops_def apply_ops_def)
  show "apply_ops (snapshot_ops rows) tab k = server_table rows k"
  proof (cases "k \<in> key_of ` set rows")
    case True
    then obtain row where row: "row \<in> set rows" "k = key_of row" by auto
    show ?thesis
    proof (cases "row_deleted row")
      case True
      have "k \<notin> key_of ` set (live_rows rows)"
        using sql_inv_unique [OF assms row(1)] row(2) True by (auto simp: set_live)
      from apply_rows_other [OF this, of "\<lambda>_. None"] True row server_table_at [OF assms row(1)] show ?thesis
        by (simp add: clear shown_def)
    next
      case False
      then have "row \<in> set (live_rows rows)" using row by (simp add: set_live)
      from apply_rows_at [OF d this] row server_table_at [OF assms row(1)] show ?thesis by (simp add: clear)
    qed
  next
    case False
    then have "k \<notin> key_of ` set (live_rows rows)" by (auto simp: set_live)
    from apply_rows_other [OF this, of "\<lambda>_. None"] server_table_none [OF assms False] show ?thesis
      by (simp add: clear)
  qed
qed

end
