(* ===== verification/EngineSpec.thy ===== *)
theory EngineSpec
  imports Catchup
begin

text \<open>
  What the handlers of \<open>Engine\<close> keep and do: the invariant of the workspace object, what one
  mutation does to it, and what a push does.
\<close>

section \<open>The invariant\<close>

text \<open>
  The log holds, for each client, its mutations 1 up to its LMID, each once and in order (the
  entries the engine itself writes carry id 0).
\<close>

definition client_log :: "DB \<Rightarrow> jstr \<Rightarrow> LogEntry list" where
  "client_log d c = filter (\<lambda>e. lg_client e = c \<and> 0 < lg_mutation e) (db_log d)"

definition log_exact :: "DB \<Rightarrow> bool" where
  "log_exact d \<longleftrightarrow> (\<forall>c. map lg_mutation (client_log d c) = [1..lastMutationId d c])"

definition clients_ok :: "DB \<Rightarrow> bool" where
  "clients_ok d \<longleftrightarrow> distinct (map fst (db_clients d)) \<and> list_all (\<lambda>(c, row). 0 \<le> cl_lmid row) (db_clients d)"

definition snapshot_ok :: "'x Config \<Rightarrow> 'x WorkspaceDO \<Rightarrow> bool" where
  "snapshot_ok cfg st \<longleftrightarrow>
     (case do_snapshot st of
        None \<Rightarrow> True
      | Some (b, v, p) \<Rightarrow> b = m_backendId (do_meta st) \<and> v = m_currentVersion (do_meta st)
          \<and> pack_ops cfg (snapshot_ops (db_rows (do_db st))) = Inr p)"

text \<open>
  The flag \<open>x\<close> asks for the exactness of the log against the clients as well, which an admin
  reset under live sockets can break; the rest holds in every history.
\<close>

definition do_inv :: "bool \<Rightarrow> 'x Config \<Rightarrow> 'x WorkspaceDO \<Rightarrow> bool" where
  "do_inv x cfg st \<longleftrightarrow>
     meta_synced (do_db st) (do_meta st) \<and> rows_ok (m_currentVersion (do_meta st)) (db_rows (do_db st)) \<and>
     0 \<le> m_minCursorVersion (do_meta st) \<and> m_minCursorVersion (do_meta st) \<le> m_currentVersion (do_meta st) \<and>
     log_ok (do_db st) \<and> (x \<longrightarrow> log_exact (do_db st) \<and> clients_ok (do_db st)) \<and> snapshot_ok cfg st"

lemma do_invD:
  assumes "do_inv x cfg st"
  shows "meta_synced (do_db st) (do_meta st)" "rows_ok (m_currentVersion (do_meta st)) (db_rows (do_db st))"
    "0 \<le> m_minCursorVersion (do_meta st)" "m_minCursorVersion (do_meta st) \<le> m_currentVersion (do_meta st)"
    "log_ok (do_db st)" "x \<Longrightarrow> log_exact (do_db st)" "x \<Longrightarrow> clients_ok (do_db st)" "snapshot_ok cfg st"
  using assms by (simp_all add: do_inv_def)

lemma do_inv_core: "same_core st st' \<Longrightarrow> do_inv x cfg st \<Longrightarrow> do_inv x cfg st'"
  by (simp add: do_inv_def snapshot_ok_def same_core_def split: option.splits prod.splits)

lemma do_inv_step: "socket_step st st' \<Longrightarrow> do_inv x cfg st \<Longrightarrow> do_inv x cfg st'"
  by (auto simp: socket_step_def intro: do_inv_core)

lemma count_fields [simp]:
  "do_db (count f st) = do_db st" "do_meta (count f st) = do_meta st" "do_sockets (count f st) = do_sockets st"
  "do_snapshot (count f st) = do_snapshot st" "do_presence (count f st) = do_presence st"
  by (simp_all add: count_def)

text \<open>A client the database knows.\<close>

definition known :: "DB \<Rightarrow> jstr \<Rightarrow> bool" where
  "known d c \<longleftrightarrow> map_of (db_clients d) c \<noteq> None"

lemma lmid_nonneg: "clients_ok d \<Longrightarrow> 0 \<le> lastMutationId d c"
  by (auto simp: clients_ok_def lastMutationId_def list_all_iff split: option.splits dest!: map_of_SomeD)

lemma clients_ok_update:
  "clients_ok d \<Longrightarrow> 0 \<le> cl_lmid row \<Longrightarrow> clients_ok (d\<lparr>db_clients := AList.update c row (db_clients d)\<rparr>)"
proof -
  assume a: "clients_ok d" "0 \<le> cl_lmid row"
  have "set (AList.update c row m) \<subseteq> insert (c, row) (set m)" for m :: "(jstr \<times> ClientRow) list"
    by (induction m) auto
  from subsetD [OF this] a show ?thesis by (fastforce simp: clients_ok_def list_all_iff distinct_update)
qed

lemma clients_ok_touch: "clients_ok d \<Longrightarrow> clients_ok (touch_row ts c d)"
  unfolding touch_row_def
  by (rule clients_ok_update)
    (auto simp: clients_ok_def list_all_iff split: option.splits dest!: map_of_SomeD)

lemma clients_ok_set: "clients_ok d \<Longrightarrow> 0 \<le> k \<Longrightarrow> clients_ok (set_lmid ts k c d)"
  by (auto simp: set_lmid_def split: option.splits intro!: clients_ok_update)

lemma log_ok_cong: "db_log d' = db_log d \<Longrightarrow> db_seq d' = db_seq d \<Longrightarrow> log_ok d' = log_ok d"
  by (simp add: log_ok_def)

section \<open>One mutation\<close>

text \<open>A flush that counts no row leaves the table alone; one that counts a row leaves one at its version.\<close>

definition at_version :: "int \<Rightarrow> sql_rows \<Rightarrow> bool" where
  "at_version v rows \<longleftrightarrow> (\<exists>row \<in> set rows. row_version row = v)"

lemma at_version_put: "at_version v (sql_put rows t i d v)"
  by (induction rows) (auto simp: at_version_def sql_put_def)

lemma at_version_del: "at_version v rows \<or> 0 < snd (sql_del rows t i v) \<Longrightarrow> at_version v (fst (sql_del rows t i v))"
proof (induction rows)
  case (Cons r rows)
  then show ?case by (auto simp: at_version_def sql_del_def Let_def)
qed (simp add: at_version_def sql_del_def)

lemma sql_del_miss: "snd (sql_del rows t i v) = 0 \<Longrightarrow> fst (sql_del rows t i v) = rows"
proof (induction rows)
  case (Cons r rows)
  then show ?case by (auto simp: sql_del_def Let_def split: if_splits)
qed (simp add: sql_del_def)

lemma flush_dels_count:
  assumes "flush_dels (SqlRowStore plan) v ds (rows, after) = (rows', after')"
    and "after \<noteq> [] \<longrightarrow> at_version v rows"
  shows "(after' \<noteq> [] \<longrightarrow> at_version v rows') \<and> (after' = [] \<longrightarrow> after = [] \<and> rows' = rows)"
  using assms
proof (induction ds arbitrary: rows after)
  case (Cons d ds)
  let ?n = "snd (sql_del rows (t_tbl d) (t_id d) v)" and ?rows = "fst (sql_del rows (t_tbl d) (t_id d) v)"
  let ?after = "if 0 < ?n then AList.update (rowKey (t_tbl d) (t_id d)) None after else after"
  have "flush_dels (SqlRowStore plan) v ds (?rows, ?after) = (rows', after')"
    using Cons.prems(1) by (simp add: case_prod_beta Let_def)
  moreover have "?after \<noteq> [] \<longrightarrow> at_version v ?rows"
    using Cons.prems(2) at_version_del [of v rows] by (auto split: if_splits)
  ultimately have IH: "(after' \<noteq> [] \<longrightarrow> at_version v rows') \<and> (after' = [] \<longrightarrow> ?after = [] \<and> rows' = ?rows)"
    by (rule Cons.IH)
  have ne: "AList.update k x m \<noteq> []" for k :: jstr and x :: "jobj option" and m
    by (cases m) (auto split: prod.splits)
  show ?case using IH sql_del_miss [of rows] ne by (auto split: if_splits)
qed simp

lemma flush_count:
  assumes "flush (SqlRowStore plan) sch rows ws v = Inr (rows', n, ch)"
  shows "if n = 0 then rows' = rows else at_version v rows'"
proof -
  obtain s0 where s0: "fold_res (flush_put (SqlRowStore plan) sch (ws_validateAtFlush ws) v)
      (map snd (ws_puts ws)) (rows, []) = Inr s0"
      "fst (flush_dels (SqlRowStore plan) v (map snd (ws_dels ws)) s0) = rows'"
      "length (snd (flush_dels (SqlRowStore plan) v (map snd (ws_dels ws)) s0)) = n"
    using assms(1) by (auto simp: flush_def bind_res_Inr_iff Let_def case_prod_beta)
  have "if snd s0 = [] then fst s0 = rows else at_version v (fst s0)"
  proof (rule fold_res_invariant [OF s0(1), of "\<lambda>s. if snd s = [] then fst s = rows else at_version v (fst s)"])
    fix w s s'
    assume "flush_put (SqlRowStore plan) sch (ws_validateAtFlush ws) v w s = Inr s'"
    then obtain d where "fst s' = sql_put (fst s) (w_tbl w) (w_id w) d v"
        "snd s' = AList.update (rowKey (w_tbl w) (w_id w)) (Some d) (snd s)"
      by (auto simp: flush_put_def bind_res_Inr_iff case_prod_beta)
    moreover have "AList.update k x m \<noteq> []" for k :: jstr and x :: "jobj option" and m
      by (cases m) (auto split: prod.splits)
    ultimately show "if snd s' = [] then fst s' = rows else at_version v (fst s')"
      by (simp add: at_version_put)
  qed simp
  moreover obtain after' where d: "flush_dels (SqlRowStore plan) v (map snd (ws_dels ws)) (fst s0, snd s0) = (rows', after')"
    and n: "length after' = n"
    using s0(2,3) by (metis prod.collapse)
  ultimately show ?thesis
    using flush_dels_count [OF d] by (auto split: if_splits)
qed

lemma run_mutation_rows:
  assumes "run_mutation cfg v rows a m = Inr (rows', wrote, args, changes)" "rows_ok v rows" "0 \<le> v"
  shows "case wrote of None \<Rightarrow> rows' = rows
    | Some v' \<Rightarrow> v' = v + 1 \<and> rows_ok (v + 1) rows' \<and> rows_step (v + 1) rows rows' \<and> at_version (v + 1) rows'"
proof (cases "prop_get (app_mutators (cf_app cfg)) (mut_name m)")
  case (Own d)
  define ops where "ops = SqlRowStore (cf_plan cfg)"
  define sch where "sch = app_schema (cf_app cfg)"
  obtain ar where "parse_args (mut_name m) d (mut_args m) = Inr ar"
    using assms(1) Own by (auto simp: run_mutation_def bind_res_Inr_iff)
  then obtain ws n where ws: "ws = buffer_of ops sch rows (def_apply d ar (mutation_ctx a m)) False (cf_hook cfg)"
    and f: "flush ops sch rows ws (v + 1) = Inr (rows', n, changes)"
    and w: "wrote = (if 0 < n then Some (v + 1) else None)"
    using assms(1) Own
    by (auto simp: run_mutation_def ops_def sch_def bind_res_Inr_iff Let_def buffer_of_def case_prod_beta
        split: option.splits)
  have inv: "ws_inv ops rows ws" unfolding ws by (rule buffer_inv)
  have step: "rows_step (v + 1) rows rows' \<and> (names_ok rows \<longrightarrow> names_ok rows')"
    using flush_step [OF f [unfolded ops_def]] inv by (simp add: ws_inv_def)
  have sql: "sql_inv rows'"
    by (rule sql.flush_spec [OF _ _ f [unfolded ops_def]])
      (use assms(2) inv in \<open>simp_all add: ops_def\<close>)
  have cnt: "if n = 0 then rows' = rows else at_version (v + 1) rows'"
    by (rule flush_count [OF f [unfolded ops_def]])
  show ?thesis
    using cnt w step rows_ok_step [OF assms(2) _ sql _ assms(3)] rows_ok_names [OF assms(2)] by auto
qed (use assms in \<open>auto simp: run_mutation_def bind_res_Inr_iff split: if_splits\<close>)

lemma client_log_append:
  "client_log (append_log v c k n a r ts d) c' = client_log d c' @
     (if c' = c \<and> 0 < k then [\<lparr>lg_seq = db_seq d + 1, lg_version = v, lg_client = c, lg_mutation = k, lg_name = n,
        lg_args = a, lg_result = r, lg_at = ts\<rparr>] else [])"
  by (simp add: client_log_def append_log_def)

lemma client_log_cong: "db_log d' = db_log d \<Longrightarrow> client_log d' c = client_log d c"
  by (simp add: client_log_def)

lemma lmid_append [simp]: "lastMutationId (append_log v c k n a r ts d) c' = lastMutationId d c'"
  by (simp add: lastMutationId_def)

lemma lmid_cong: "db_clients d' = db_clients d \<Longrightarrow> lastMutationId d' c = lastMutationId d c"
  by (simp add: lastMutationId_def)

lemma known_cong: "db_clients d' = db_clients d \<Longrightarrow> known d' c = known d c"
  by (simp add: known_def)

text \<open>The database a committed mutation leaves, field by field.\<close>

definition set_version :: "int option \<Rightarrow> Meta \<Rightarrow> Meta" where
  "set_version wrote mt = (case wrote of None \<Rightarrow> mt | Some v \<Rightarrow> mt\<lparr>m_currentVersion := v\<rparr>)"

lemma commit_fields:
  assumes "known d c"
  shows "db_rows (commit_mutation ev c m rows wrote r d) = rows"
    "lastMutationId (commit_mutation ev c m rows wrote r d) = (lastMutationId d)(c := mut_id m)"
    "known (commit_mutation ev c m rows wrote r d) c' = known d c'"
    "db_log (commit_mutation ev c m rows wrote r d) = db_log d @ [\<lparr>lg_seq = db_seq d + 1, lg_version = wrote,
       lg_client = c, lg_mutation = mut_id m, lg_name = mut_name m, lg_args = json_value (mut_args m),
       lg_result = r, lg_at = ev_iso ev\<rparr>]"
    "db_seq (commit_mutation ev c m rows wrote r d) = db_seq d + 1"
    "meta_synced d mt \<Longrightarrow> meta_synced (commit_mutation ev c m rows wrote r d) (set_version wrote mt)"
proof -
  let ?d = "(case wrote of None \<Rightarrow> (\<lambda>d. d) | Some v \<Rightarrow> update_meta (\<lambda>mt. mt\<lparr>m_currentVersion := v\<rparr>)) (d\<lparr>db_rows := rows\<rparr>)"
  have c: "db_clients ?d = db_clients d" by (simp split: option.split)
  have k: "map_of (db_clients ?d) c \<noteq> None" using assms unfolding c known_def .
  show "db_rows (commit_mutation ev c m rows wrote r d) = rows"
    by (simp add: commit_mutation_def split: option.split)
  show "lastMutationId (commit_mutation ev c m rows wrote r d) = (lastMutationId d)(c := mut_id m)"
    by (rule ext) (simp add: commit_mutation_def set_lmid_get [OF k] lmid_cong [OF c])
  show "known (commit_mutation ev c m rows wrote r d) c' = known d c'"
    unfolding known_def commit_mutation_def client_rows set_lmid_known c ..
  show "db_log (commit_mutation ev c m rows wrote r d) = db_log d @ [\<lparr>lg_seq = db_seq d + 1, lg_version = wrote,
       lg_client = c, lg_mutation = mut_id m, lg_name = mut_name m, lg_args = json_value (mut_args m),
       lg_result = r, lg_at = ev_iso ev\<rparr>]"
    by (simp add: commit_mutation_def append_log_def split: option.split)
  show "db_seq (commit_mutation ev c m rows wrote r d) = db_seq d + 1"
    by (simp add: commit_mutation_def append_log_def split: option.split)
  show "meta_synced (commit_mutation ev c m rows wrote r d) (set_version wrote mt)" if "meta_synced d mt"
    using that by (simp add: commit_mutation_def meta_synced_def set_version_def update_meta_def split: option.split)
qed

lemma commit_ok:
  assumes "known d c" "log_ok d" "log_exact d" "clients_ok d" "mut_id m = lastMutationId d c + 1"
  shows "log_ok (commit_mutation ev c m rows wrote r d)" "log_exact (commit_mutation ev c m rows wrote r d)"
    "clients_ok (commit_mutation ev c m rows wrote r d)"
proof -
  let ?d' = "commit_mutation ev c m rows wrote r d"
  show "log_ok ?d'"
    unfolding commit_mutation_def
    by (rule log_ok_append) (use assms(2) in \<open>simp add: log_ok_def split: option.split\<close>)
  have pos: "0 < mut_id m" using lmid_nonneg [OF assms(4), of c] assms(5) by simp
  have "map lg_mutation (client_log ?d' c') = [1..lastMutationId ?d' c']" for c'
  proof (cases "c' = c")
    case True
    have "map lg_mutation (client_log ?d' c) = map lg_mutation (client_log d c) @ [mut_id m]"
      using pos by (simp add: client_log_def commit_fields(4) [OF assms(1)])
    also have "\<dots> = [1..mut_id m]"
      using assms(3,5) lmid_nonneg [OF assms(4), of c] unfolding log_exact_def by (simp add: upto_rec2)
    finally show ?thesis using True by (simp add: commit_fields(2) [OF assms(1)])
  next
    case False
    then have "client_log ?d' c' = client_log d c'" by (simp add: client_log_def commit_fields(4) [OF assms(1)])
    then show ?thesis using assms(3) False by (simp add: log_exact_def commit_fields(2) [OF assms(1)])
  qed
  then show "log_exact ?d'" by (simp add: log_exact_def)
  let ?d = "(case wrote of None \<Rightarrow> (\<lambda>d. d) | Some v \<Rightarrow> update_meta (\<lambda>mt. mt\<lparr>m_currentVersion := v\<rparr>)) (d\<lparr>db_rows := rows\<rparr>)"
  have "clients_ok ?d" using assms(4) by (simp add: clients_ok_def split: option.split)
  from clients_ok_set [OF this, of "mut_id m" "ev_iso ev" c] pos
  show "clients_ok ?d'" by (simp add: commit_mutation_def clients_ok_def)
qed

text \<open>What applying a mutation leaves alone besides.\<close>

definition same_shell :: "'x WorkspaceDO \<Rightarrow> 'x WorkspaceDO \<Rightarrow> bool" where
  "same_shell st st' \<longleftrightarrow> do_initError st' = do_initError st \<and> do_extension st' = do_extension st \<and>
     do_presence st' = do_presence st \<and> do_sockets st' = do_sockets st \<and> do_alarm st' = do_alarm st \<and>
     do_next st' = do_next st \<and>
     m_backendId (do_meta st') = m_backendId (do_meta st) \<and>
     m_minCursorVersion (do_meta st') = m_minCursorVersion (do_meta st)"

definition mutation_effect :: "jstr \<Rightarrow> int \<Rightarrow> (jstr \<times> jstr) option \<Rightarrow> 'x WorkspaceDO \<Rightarrow> 'x WorkspaceDO \<Rightarrow> bool" where
  "mutation_effect c k err st st' \<longleftrightarrow>
     lastMutationId (do_db st') = (lastMutationId (do_db st))(c := k) \<and>
     (\<exists>e. db_log (do_db st') = db_log (do_db st) @ [e] \<and> lg_client e = c \<and> lg_mutation e = k \<and> lg_result e = err) \<and>
     (if m_currentVersion (do_meta st') = m_currentVersion (do_meta st)
      then db_rows (do_db st') = db_rows (do_db st) \<and> do_meta st' = do_meta st
      else err = None \<and> m_currentVersion (do_meta st') = m_currentVersion (do_meta st) + 1 \<and>
        rows_step (m_currentVersion (do_meta st) + 1) (db_rows (do_db st)) (db_rows (do_db st')) \<and>
        at_version (m_currentVersion (do_meta st) + 1) (db_rows (do_db st')))"

lemma applyMutation_spec:
  assumes inv: "do_inv True cfg st" and k: "known (do_db st) (at_clientId a)"
    and i: "mut_id m = lastMutationId (do_db st) (at_clientId a) + 1"
    and r: "applyMutation cfg ev a m st = Inr (st', err)"
  shows "do_inv True cfg st' \<and> mutation_effect (at_clientId a) (mut_id m) err st st' \<and> same_shell st st' \<and>
    (\<forall>c. known (do_db st') c = known (do_db st) c) \<and> (\<exists>es. do_out st' = do_out st @ es)"
proof -
  let ?d = "do_db st" and ?c = "at_clientId a" and ?v = "m_currentVersion (do_meta st)"
  note I = do_invD [OF inv]
  note F = commit_fields [OF k]
  note O = commit_ok [OF k I(5) I(6) [OF TrueI] I(7) [OF TrueI] i]
  have v0: "0 \<le> ?v" using I(3,4) by simp
  show ?thesis
  proof (cases "run_mutation cfg ?v (db_rows ?d) a m")
    case (Inl e)
    then obtain c msg where e: "e = AppError c msg" and st': "err = Some (c, msg)"
        "st' = st\<lparr>do_db := commit_mutation ev ?c m (db_rows ?d) None (Some (c, msg)) ?d\<rparr>"
      using r by (cases e) (auto simp: applyMutation_def Let_def)
    have "meta_synced (do_db st') (do_meta st')"
      using F(6) [OF I(1), of ev m "db_rows ?d" None "Some (c, msg)"] by (simp add: st' set_version_def)
    moreover have "snapshot_ok cfg st'" using I(8) by (simp add: snapshot_ok_def st' F(1) split: option.splits prod.splits)
    ultimately have "do_inv True cfg st'" using I by (simp add: do_inv_def st' F(1) O)
    then show ?thesis using F by (simp add: st' mutation_effect_def same_shell_def)
  next
    case (Inr x)
    obtain rows wrote args changes where x: "x = (rows, wrote, args, changes)" by (cases x)
    note R = run_mutation_rows [OF Inr [unfolded x] I(2) v0]
    let ?st = "st\<lparr>do_db := commit_mutation ev ?c m rows wrote None ?d\<rparr>"
    show ?thesis
    proof (cases wrote)
      case None
      then have st': "st' = ?st" "err = None" "rows = db_rows ?d"
        using r R by (auto simp: applyMutation_def Let_def Inr x)
      have "meta_synced (do_db st') (do_meta st')"
        using F(6) [OF I(1), of ev m rows wrote None] by (simp add: st' None set_version_def)
      moreover have "snapshot_ok cfg st'" using I(8) by (simp add: snapshot_ok_def st' F(1) split: option.splits prod.splits)
      ultimately have "do_inv True cfg st'" using I by (simp add: do_inv_def st' F(1) O)
      then show ?thesis using F by (simp add: st' mutation_effect_def same_shell_def)
    next
      case (Some v')
      have v': "v' = ?v + 1" "rows_ok (?v + 1) rows" "rows_step (?v + 1) (db_rows ?d) rows" "at_version (?v + 1) rows"
        using R by (simp_all add: Some)
      let ?st2 = "?st\<lparr>do_meta := (do_meta st)\<lparr>m_currentVersion := v'\<rparr>, do_snapshot := None\<rparr>"
      have st': "\<exists>es. st' = ?st2\<lparr>do_out := do_out st @ es\<rparr>" "err = None"
      proof -
        let ?ev = "\<lparr>mc_workspaceId = m_workspaceId (do_meta st), mc_name = mut_name m, mc_args = args,
          mc_principal = at_principal a, mc_clientId = ?c, mc_version = v', mc_changes = changes\<rparr>"
        have "st' = ?st2\<lparr>do_out := do_out st @ (if cf_hook cfg then [HookRan ?ev] else [])\<rparr> \<and> err = None"
          using r Some by (simp add: applyMutation_def Let_def Inr x notifyCommitted_def emit_def split: if_splits)
        then show "\<exists>es. st' = ?st2\<lparr>do_out := do_out st @ es\<rparr>" "err = None" by blast+
      qed
      obtain es where es: "st' = ?st2\<lparr>do_out := do_out st @ es\<rparr>" using st'(1) ..
      have "meta_synced (do_db st') (do_meta st')"
        using F(6) [OF I(1), of ev m rows wrote None] by (simp add: es Some set_version_def)
      then have "do_inv True cfg st'"
        using I v' by (simp add: do_inv_def es F(1) O snapshot_ok_def)
      then show ?thesis using F v' st'(2) by (simp add: es mutation_effect_def same_shell_def)
    qed
  qed
qed

section \<open>A push\<close>

text \<open>Rows left by any number of mutations from version \<open>v\<close> on: old rows, or rows of a later version.\<close>

definition rows_since :: "int \<Rightarrow> sql_rows \<Rightarrow> sql_rows \<Rightarrow> bool" where
  "rows_since v rows rows' \<longleftrightarrow> (\<forall>row \<in> set rows'. row \<in> set rows \<or> v < row_version row) \<and>
     key_of ` set rows \<subseteq> key_of ` set rows'"

lemma rows_since_refl [simp]: "rows_since v rows rows"
  by (auto simp: rows_since_def)

lemma rows_since_trans: "rows_since v a b \<Longrightarrow> rows_since v' b c \<Longrightarrow> v \<le> v' \<Longrightarrow> rows_since v a c"
  unfolding rows_since_def by (meson dual_order.strict_trans2 subset_trans)

lemma rows_since_step: "rows_step (v + 1) rows rows' \<Longrightarrow> rows_since v rows rows'"
  by (auto simp: rows_since_def rows_step_def)

lemma in_sync_since: 
  assumes "in_sync v rows tab" "rows_since v rows rows'"
  shows "in_sync v rows' tab"
  unfolding in_sync_def
proof (intro conjI ballI allI impI)
  fix row assume "row \<in> set rows'" "row_version row \<le> v"
  then have "row \<in> set rows" using assms(2) by (auto simp: rows_since_def)
  with assms(1) \<open>row_version row \<le> v\<close> show "tab (key_of row) = shown row" by (simp add: in_sync_def)
next
  fix k assume "k \<notin> key_of ` set rows'"
  then have "k \<notin> key_of ` set rows" using assms(2) unfolding rows_since_def by blast
  with assms(1) show "tab k = None" by (rule in_sync_absent)
qed

text \<open>The id a push leaves as the client's last, on ids alone: skip what was applied, stop at a gap.\<close>

fun accept :: "int \<Rightarrow> int list \<Rightarrow> int" where
  "accept l [] = l"
| "accept l (i # is) = (if i < l + 1 then accept l is else if l + 1 < i then l else accept i is)"

lemma accept_ge: "l \<le> accept l is"
  by (induction l "is" rule: accept.induct) auto

lemma accept_again: "accept (accept l is) is = accept l is"
proof (induction l "is" rule: accept.induct)
  case (2 l i "is")
  show ?case
  proof (cases "i < l + 1")
    case True
    then have "i < accept l is + 1" using accept_ge [of l "is"] by simp
    then show ?thesis using 2 True by simp
  next
    case False
    then show ?thesis using 2 accept_ge [of i "is"] by auto
  qed
qed simp

text \<open>What a run of the loop adds to the state.\<close>

definition push_effect :: "jstr \<Rightarrow> int \<Rightarrow> 'x WorkspaceDO \<Rightarrow> 'x WorkspaceDO \<Rightarrow> bool" where
  "push_effect c n st st' \<longleftrightarrow>
     lastMutationId (do_db st') = (lastMutationId (do_db st))(c := n) \<and>
     (\<exists>es. db_log (do_db st') = db_log (do_db st) @ es \<and> list_all (\<lambda>e. lg_client e = c) es \<and>
        map lg_mutation es = [lastMutationId (do_db st) c + 1..n]) \<and>
     m_currentVersion (do_meta st) \<le> m_currentVersion (do_meta st') \<and>
     rows_since (m_currentVersion (do_meta st)) (db_rows (do_db st)) (db_rows (do_db st')) \<and>
     m_backendId (do_meta st') = m_backendId (do_meta st) \<and>
     m_minCursorVersion (do_meta st') = m_minCursorVersion (do_meta st) \<and>
     (\<forall>c. known (do_db st') c = known (do_db st) c) \<and>
     sockets_kept (do_sockets st) (do_sockets st') \<and> set (do_presence st') \<subseteq> set (do_presence st) \<and>
     do_initError st' = do_initError st \<and> do_extension st' = do_extension st \<and> do_next st' = do_next st"

lemma push_effect_refl: "push_effect c (lastMutationId (do_db st) c) st st"
  by (simp add: push_effect_def)

lemma push_effect_mutation:
  assumes "mutation_effect c k err st st'" "same_shell st st'" "\<forall>c. known (do_db st') c = known (do_db st) c"
    and "k = lastMutationId (do_db st) c + 1"
  shows "push_effect c k st st'"
  using assms by (auto simp: push_effect_def mutation_effect_def same_shell_def rows_since_step split: if_splits)

lemma push_effect_trans:
  assumes "push_effect c n st st'" "push_effect c n' st' st''" "lastMutationId (do_db st) c \<le> n" "n \<le> n'"
  shows "push_effect c n' st st''"
proof -
  have l: "lastMutationId (do_db st') c = n" using assms(1) by (simp add: push_effect_def)
  obtain es es' where es: "db_log (do_db st') = db_log (do_db st) @ es" "list_all (\<lambda>e. lg_client e = c) es"
      "map lg_mutation es = [lastMutationId (do_db st) c + 1..n]"
    and es': "db_log (do_db st'') = db_log (do_db st') @ es'" "list_all (\<lambda>e. lg_client e = c) es'"
      "map lg_mutation es' = [n + 1..n']"
    using assms(1,2) l unfolding push_effect_def by auto
  have split: "[lastMutationId (do_db st) c + 1..n] @ [n + 1..n'] = [lastMutationId (do_db st) c + 1..n']"
    using assms(3,4) by (cases "lastMutationId (do_db st) c = n") (simp_all add: upto_split2 [of _ n n'])
  have log: "db_log (do_db st'') = db_log (do_db st) @ es @ es'" "list_all (\<lambda>e. lg_client e = c) (es @ es')"
      "map lg_mutation (es @ es') = [lastMutationId (do_db st) c + 1..n']"
    using es es' split by simp_all
  show ?thesis
    unfolding push_effect_def
  proof (intro conjI)
    show "\<exists>es. db_log (do_db st'') = db_log (do_db st) @ es \<and> list_all (\<lambda>e. lg_client e = c) es \<and>
        map lg_mutation es = [lastMutationId (do_db st) c + 1..n']" using log by blast
    show "rows_since (m_currentVersion (do_meta st)) (db_rows (do_db st)) (db_rows (do_db st''))"
      using assms(1,2) unfolding push_effect_def by (blast intro: rows_since_trans)
    show "sockets_kept (do_sockets st) (do_sockets st'')"
      using assms(1,2) unfolding push_effect_def by (blast intro: sockets_kept_trans)
  qed (use assms(1,2) in \<open>auto simp: push_effect_def\<close>)
qed

lemma push_effect_socket_step: "socket_step st st' \<Longrightarrow> push_effect c (lastMutationId (do_db st) c) st st'"
  by (auto simp: push_effect_def socket_step_def same_core_def)

lemma push_loop_spec:
  assumes "do_inv True cfg st" "known (do_db st) (at_clientId a)" "lmid = lastMutationId (do_db st) (at_clientId a)"
    and "r = push_loop cfg ev ws a ms st lmid results"
  shows "do_inv True cfg (pl_do r) \<and> lmid \<le> pl_lmid r \<and> push_effect (at_clientId a) (pl_lmid r) st (pl_do r) \<and>
    (\<exists>rs. pl_results r = results @ rs \<and> map res_id rs = [lmid + 1..pl_lmid r]) \<and>
    (case pl_thrown r of None \<Rightarrow> pl_lmid r = accept lmid (map mut_id ms) | Some e \<Rightarrow> \<exists>t. e = OtherError t)"
  using assms
proof (induction cfg ev ws a ms st lmid results arbitrary: r rule: push_loop.induct)
  case (1 cfg ev ws a st lmid results)
  then show ?case using push_effect_refl [of "at_clientId a" st] by simp
next
  case (2 cfg ev ws a m ms st lmid results)
  let ?c = "at_clientId a"
  consider (skip) "mut_id m < lmid + 1" | (gap) "\<not> mut_id m < lmid + 1" "lmid + 1 < mut_id m"
    | (turn) "mut_id m = lmid + 1" by linarith
  then show ?case
  proof cases
    case skip
    let ?f = "\<lambda>c :: Counters. c\<lparr>ct_mutationsSkipped := ct_mutationsSkipped c + 1\<rparr>"
    have st: "socket_step st (count ?f st)" by simp
    have db: "do_db (count ?f st) = do_db st" by (simp add: count_def)
    have "do_inv True cfg (pl_do r) \<and> lmid \<le> pl_lmid r \<and> push_effect ?c (pl_lmid r) (count ?f st) (pl_do r) \<and>
      (\<exists>rs. pl_results r = results @ rs \<and> map res_id rs = [lmid + 1..pl_lmid r]) \<and>
      (case pl_thrown r of None \<Rightarrow> pl_lmid r = accept lmid (map mut_id ms) | Some e \<Rightarrow> \<exists>t. e = OtherError t)"
    proof (rule "2.IH"(1) [OF skip])
      show "do_inv True cfg (count ?f st)" by (rule do_inv_step [OF st "2.prems"(1)])
      show "r = push_loop cfg ev ws a ms (count ?f st) lmid results"
        unfolding "2.prems"(4) push_loop.simps(2) if_P [OF skip] by simp
    qed (use "2.prems"(2,3) in \<open>simp_all add: db\<close>)
    moreover from this have "push_effect ?c (pl_lmid r) st (pl_do r)"
      using push_effect_trans [OF push_effect_socket_step [OF st, of ?c]] "2.prems"(3) by simp
    ultimately show ?thesis using skip by (auto split: option.split)
  next
    case gap
    have "socket_step st (sendError ws PushInvalid msg st)" for msg by (rule step_sendError)
    then have "do_inv True cfg (sendError ws PushInvalid msg st) \<and> push_effect ?c lmid st (sendError ws PushInvalid msg st)" for msg
      using do_inv_step "2.prems"(1,3) push_effect_socket_step by blast
    then show ?thesis using "2.prems"(4) gap by simp
  next
    case turn
    show ?thesis
    proof (cases "applyMutation cfg ev a m st")
      case (Inl e)
      then have "\<exists>t. e = OtherError t"
        by (auto simp: applyMutation_def Let_def split: sum.splits err.splits option.splits)
      then show ?thesis using "2.prems" Inl turn push_effect_refl [of ?c st] by simp
    next
      case (Inr x)
      obtain st1 err where x: "x = (st1, err)" by (cases x)
      have S: "do_inv True cfg st1" "mutation_effect ?c (mut_id m) err st st1" "same_shell st st1"
          "\<forall>c. known (do_db st1) c = known (do_db st) c"
        using applyMutation_spec [OF "2.prems"(1,2) _ Inr [unfolded x]] turn "2.prems"(3) by simp_all
      define f :: "Counters \<Rightarrow> Counters" where "f = (\<lambda>c. if err \<noteq> None then c\<lparr>ct_mutationErrors := ct_mutationErrors c + 1\<rparr>
                        else c\<lparr>ct_mutationsApplied := ct_mutationsApplied c + 1\<rparr>)"
      have st: "socket_step st1 (count f st1)" and db: "do_db (count f st1) = do_db st1"
        by simp_all
      have lm: "lastMutationId (do_db st1) ?c = mut_id m" using S(2) by (simp add: mutation_effect_def)
      have r: "r = push_loop cfg ev ws a ms (count f st1) (mut_id m) (results @ [\<lparr>res_id = mut_id m, res_error = err\<rparr>])"
        using "2.prems"(4) turn Inr x by (simp add: f_def)
      have IH: "do_inv True cfg (pl_do r) \<and> mut_id m \<le> pl_lmid r \<and> push_effect ?c (pl_lmid r) (count f st1) (pl_do r) \<and>
        (\<exists>rs. pl_results r = (results @ [\<lparr>res_id = mut_id m, res_error = err\<rparr>]) @ rs \<and> map res_id rs = [mut_id m + 1..pl_lmid r]) \<and>
        (case pl_thrown r of None \<Rightarrow> pl_lmid r = accept (mut_id m) (map mut_id ms) | Some e \<Rightarrow> \<exists>t. e = OtherError t)"
      proof (rule "2.IH"(2) [of x st1 err, folded f_def])
        show "do_inv True cfg (count f st1)" using do_inv_step [OF st S(1)] .
        show "known (do_db (count f st1)) ?c" using S(4) "2.prems"(2) by (simp add: db)
      qed (use turn Inr x r in \<open>simp_all add: db lm\<close>)
      have "push_effect ?c (mut_id m) st st1"
        using push_effect_mutation [OF S(2-4)] turn "2.prems"(3) by simp
      then have e1: "push_effect ?c (mut_id m) st (count f st1)"
        using push_effect_trans [OF _ push_effect_socket_step [OF st, of ?c]] lm turn "2.prems"(3) by simp
      have "push_effect ?c (pl_lmid r) st (pl_do r)"
        using push_effect_trans [OF e1, of "pl_lmid r" "pl_do r"] IH turn "2.prems"(3) by simp
      moreover obtain rs where "pl_results r = results @ \<lparr>res_id = mut_id m, res_error = err\<rparr> # rs"
          "map res_id rs = [mut_id m + 1..pl_lmid r]"
        using IH by auto
      then have "\<exists>rs. pl_results r = results @ rs \<and> map res_id rs = [lmid + 1..pl_lmid r]"
        using IH turn by (intro exI [of _ "\<lparr>res_id = mut_id m, res_error = err\<rparr> # rs"])
          (simp add: upto_rec1)
      ultimately show ?thesis using IH turn by (auto split: option.splits)
    qed
  qed
qed

text \<open>A push that moves no LMID leaves database, meta and caches as they were.\<close>

lemma push_loop_mono: "lmid \<le> pl_lmid (push_loop cfg ev ws a ms st lmid results)"
proof (induction cfg ev ws a ms st lmid results rule: push_loop.induct)
  case (2 cfg ev ws a m ms st lmid results)
  consider (skip) "mut_id m < lmid + 1" | (gap) "\<not> mut_id m < lmid + 1" "lmid + 1 < mut_id m"
    | (turn) "\<not> mut_id m < lmid + 1" "\<not> lmid + 1 < mut_id m" by linarith
  then show ?case
  proof cases
    case turn
    then show ?thesis using "2.IH"(2) [OF turn] by (fastforce split: sum.split)
  qed (use "2.IH"(1) in simp_all)
qed simp

lemma push_loop_idle:
  "pl_lmid (push_loop cfg ev ws a ms st lmid results) = lmid \<Longrightarrow>
     same_core st (pl_do (push_loop cfg ev ws a ms st lmid results))"
proof (induction cfg ev ws a ms st lmid results rule: push_loop.induct)
  case (2 cfg ev ws a m ms st lmid results)
  consider (skip) "mut_id m < lmid + 1" | (gap) "\<not> mut_id m < lmid + 1" "lmid + 1 < mut_id m"
    | (turn) "\<not> mut_id m < lmid + 1" "\<not> lmid + 1 < mut_id m" by linarith
  then show ?case
  proof cases
    case skip
    have "same_core st (count f st)" for f by (simp add: same_core_def count_def)
    with "2.IH"(1) [OF skip] "2.prems" skip show ?thesis by (auto intro: same_core_trans)
  next
    case gap
    have "same_core st (sendError ws PushInvalid msg st)" for msg
      using step_sendError [of st ws PushInvalid msg] by (simp add: socket_step_def)
    with gap show ?thesis by simp
  next
    case turn
    show ?thesis
    proof (cases "applyMutation cfg ev a m st")
      case (Inr x)
      obtain st1 err where x: "x = (st1, err)" by (cases x)
      have "mut_id m \<le> pl_lmid (push_loop cfg ev ws a (m # ms) st lmid results)"
        using turn Inr x push_loop_mono by simp
      with "2.prems" turn show ?thesis by simp
    qed (use turn in simp)
  qed
qed simp

section \<open>Pokes, snapshots and the other handlers\<close>

lemma step_deliver_all: "socket_step st (deliver_all cfg ev ss fs st)"
  unfolding deliver_all_def by (rule step_deliver_each) (rule step_dropPresence)

lemma step_sendPoke: "socket_step st (sendPoke cfg ev ss base p lmids results st)"
proof -
  have "socket_step st (deliver_all cfg ev ss fs (count f st))" for fs f
    by (rule socket_step_trans [OF step_count step_deliver_all])
  then show ?thesis by (simp add: sendPoke_def Let_def)
qed

lemmas engine_steps = socket_steps step_deliver_all step_sendPoke step_count

text \<open>A snapshot, cached or not, packs the live rows as they are now.\<close>

lemma bootstrap_spec:
  assumes "do_inv x cfg st"
  shows "fst (bootstrapPatch cfg st) = pack_ops cfg (snapshot_ops (db_rows (do_db st)))"
    and "do_inv x cfg (snd (bootstrapPatch cfg st))"
    and "\<exists>sn. snd (bootstrapPatch cfg st) = st\<lparr>do_snapshot := sn\<rparr>"
proof -
  note I = do_invD [OF assms]
  let ?b = "m_backendId (do_meta st)" and ?v = "m_currentVersion (do_meta st)"
    and ?pack = "pack_ops cfg (snapshot_ops (db_rows (do_db st)))"
  have keep: "st\<lparr>do_snapshot := do_snapshot st\<rparr> = st" by simp
  consider (hit) p where "do_snapshot st = Some (?b, ?v, p)" "?pack = Inr p" | (miss) "do_snapshot st = None"
    using I(8) by (cases "do_snapshot st") (auto simp: snapshot_ok_def)
  then have "fst (bootstrapPatch cfg st) = ?pack \<and> do_inv x cfg (snd (bootstrapPatch cfg st)) \<and>
    (\<exists>sn. snd (bootstrapPatch cfg st) = st\<lparr>do_snapshot := sn\<rparr>)"
  proof cases
    case hit
    then have "bootstrapPatch cfg st = (Inr p, st)" by (simp add: bootstrapPatch_def Let_def)
    with hit assms keep show ?thesis by (metis fst_conv snd_conv)
  next
    case miss
    show ?thesis
    proof (cases ?pack)
      case (Inl e)
      with miss have "bootstrapPatch cfg st = (Inl e, st)" by (simp add: bootstrapPatch_def Let_def)
      with Inl assms keep show ?thesis by (metis fst_conv snd_conv)
    next
      case (Inr p)
      with miss have b: "bootstrapPatch cfg st = (Inr p, st\<lparr>do_snapshot := Some (?b, ?v, p)\<rparr>)"
        by (simp add: bootstrapPatch_def Let_def)
      have "do_inv x cfg (st\<lparr>do_snapshot := Some (?b, ?v, p)\<rparr>)"
        using assms Inr by (simp add: do_inv_def snapshot_ok_def)
      with b Inr show ?thesis by auto
    qed
  qed
  then show "fst (bootstrapPatch cfg st) = ?pack" "do_inv x cfg (snd (bootstrapPatch cfg st))"
    "\<exists>sn. snd (bootstrapPatch cfg st) = st\<lparr>do_snapshot := sn\<rparr>" by blast+
qed

lemma handlePush_spec:
  assumes inv: "do_inv True cfg st" and k: "known (do_db st) (at_clientId a)"
    and h: "handlePush cfg ev ws a ms st = (st', e)"
  shows "do_inv True cfg st' \<and>
    (\<exists>n \<ge> lastMutationId (do_db st) (at_clientId a). push_effect (at_clientId a) n st st' \<and>
       (n = lastMutationId (do_db st) (at_clientId a) \<longrightarrow> same_core st st') \<and>
       (at_ready a \<and> e = None \<longrightarrow> n = accept (lastMutationId (do_db st) (at_clientId a)) (map mut_id ms)))"
proof (cases "at_ready a")
  case False
  then have "st' = sendError ws PushInvalid (Some (js ''push before hello'')) st"
    using h by (simp add: handlePush_def)
  then have "socket_step st st'" by (simp add: step_sendError)
  with False do_inv_step [OF this inv] push_effect_socket_step [OF this, of "at_clientId a"] show ?thesis
    by (auto simp: socket_step_def)
next
  case True
  let ?c = "at_clientId a" and ?f = "\<lambda>c :: Counters. c\<lparr>ct_pushes := ct_pushes c + 1\<rparr>"
  define st0 where "st0 = count ?f st"
  define r where "r = push_loop cfg ev ws a ms st0 (lastMutationId (do_db st0) ?c) []"
  have s0: "socket_step st st0" and db: "do_db st0 = do_db st" "do_meta st0 = do_meta st"
    by (simp_all add: st0_def)
  have R: "do_inv True cfg (pl_do r)" "lastMutationId (do_db st) ?c \<le> pl_lmid r" "push_effect ?c (pl_lmid r) st0 (pl_do r)"
      "case pl_thrown r of None \<Rightarrow> pl_lmid r = accept (lastMutationId (do_db st) ?c) (map mut_id ms) | Some e \<Rightarrow> True"
    using push_loop_spec [OF do_inv_step [OF s0 inv], of a "lastMutationId (do_db st0) ?c" r ev ws ms "[]"] k
    by (auto simp: r_def db split: option.splits)
  have e0: "push_effect ?c (pl_lmid r) st (pl_do r)"
    using push_effect_trans [OF push_effect_socket_step [OF s0, of ?c] R(3)] R(2) by (simp add: db)
  have h': "(case pl_thrown r of Some e \<Rightarrow> (pl_do r, Some e)
      | None \<Rightarrow>
          if pl_lmid r = lastMutationId (do_db st0) ?c then
            (case pack_ops cfg [] of Inl e \<Rightarrow> (pl_do r, Some e)
             | Inr p \<Rightarrow> (sendPoke cfg ev [ws] (Some (current_cursor (pl_do r))) p (Some [(?c, pl_lmid r)]) [] (pl_do r), None))
          else
            (case pack_ops cfg (patchSince (pl_do r) (m_currentVersion (do_meta st0))) of Inl e \<Rightarrow> (pl_do r, Some e)
             | Inr p \<Rightarrow>
                (sendPoke cfg ev (if patchSince (pl_do r) (m_currentVersion (do_meta st0)) \<noteq> [] then readySockets (pl_do r) else [ws])
                   (Some \<lparr>backendId = m_backendId (do_meta (pl_do r)), cversion = m_currentVersion (do_meta st0)\<rparr>) p
                   (Some [(?c, pl_lmid r)]) (pl_results r) (pl_do r), None))) = (st', e)"
    using h True unfolding handlePush_def Let_def r_def st0_def by simp
  then have s1: "socket_step (pl_do r) st'" and n: "e = None \<Longrightarrow> pl_thrown r = None"
    by (auto simp: step_sendPoke split: option.splits if_splits sum.splits)
  have l: "lastMutationId (do_db (pl_do r)) ?c = pl_lmid r" using e0 by (simp add: push_effect_def)
  have "push_effect ?c (pl_lmid r) st st'"
    using push_effect_trans [OF e0 push_effect_socket_step [OF s1, of ?c]] l R(2) by simp
  moreover have "pl_lmid r = lastMutationId (do_db st) ?c \<longrightarrow> same_core st st'"
  proof
    assume "pl_lmid r = lastMutationId (do_db st) ?c"
    then have "same_core st0 (pl_do r)" using push_loop_idle by (simp add: r_def db)
    moreover have "same_core st st0" "same_core (pl_do r) st'" using s0 s1 by (simp_all add: socket_step_def)
    ultimately show "same_core st st'" using same_core_trans by blast
  qed
  ultimately show ?thesis using do_inv_step [OF s1 R(1)] R(2,4) n by auto
qed

text \<open>Hello touches the client's row, may fill the snapshot cache, and marks the socket ready.\<close>

definition hello_effect :: "jstr \<Rightarrow> 'x WorkspaceDO \<Rightarrow> 'x WorkspaceDO \<Rightarrow> bool" where
  "hello_effect c st st' \<longleftrightarrow> do_meta st' = do_meta st \<and> db_rows (do_db st') = db_rows (do_db st) \<and>
     db_log (do_db st') = db_log (do_db st) \<and> lastMutationId (do_db st') = lastMutationId (do_db st) \<and>
     (\<forall>c'. known (do_db st) c' \<longrightarrow> known (do_db st') c')"

lemma hello_effect_refl [simp]: "hello_effect c st st"
  by (simp add: hello_effect_def)

lemma hello_effect_core: "hello_effect c st st' \<Longrightarrow> same_core st' st'' \<Longrightarrow> hello_effect c st st''"
  by (simp add: hello_effect_def same_core_def)

lemma touch_spec:
  assumes "do_inv x cfg st"
  shows "do_inv x cfg (snd (touchClient ev c st))" "hello_effect c st (snd (touchClient ev c st))"
    "known (do_db (snd (touchClient ev c st))) c" "fst (touchClient ev c st) = lastMutationId (do_db st) c"
proof -
  note I = do_invD [OF assms]
  have log: "client_log (touch_row ts c d) c' = client_log d c'" for ts d c'
    by (rule client_log_cong) simp
  let ?d = "touch_row (ev_iso ev) c (do_db st)"
  have st: "snd (touchClient ev c st) = st\<lparr>do_db := ?d\<rparr>" by (simp add: touchClient_def Let_def)
  have d: "meta_synced ?d (do_meta st)" "log_ok ?d" "x \<Longrightarrow> log_exact ?d"
    using I(1,5,6) by (simp_all add: meta_synced_def log_exact_def log log_ok_def)
  have s: "snapshot_ok cfg (st\<lparr>do_db := ?d\<rparr>)"
    using I(8) by (simp add: snapshot_ok_def split: option.splits prod.splits)
  show "do_inv x cfg (snd (touchClient ev c st))"
    unfolding st do_inv_def using I(2-4) d s clients_ok_touch [OF I(7), of "ev_iso ev" c] by simp
  show "hello_effect c st (snd (touchClient ev c st))"
    unfolding st hello_effect_def known_def using touch_known [of "ev_iso ev" c "do_db st"] by (simp add: fun_eq_iff)
  show "known (do_db (snd (touchClient ev c st))) c"
    unfolding st known_def using touch_known [of "ev_iso ev" c "do_db st" c] by simp
  show "fst (touchClient ev c st) = lastMutationId (do_db st) c"
    by (simp add: touchClient_def Let_def)
qed

lemma same_core_socket_step: "socket_step st st' \<Longrightarrow> same_core st st'"
  by (simp add: socket_step_def)

lemma same_core_serialize [simp]: "same_core st (serializeAttachment s a st)"
  by (simp add: same_core_def serializeAttachment_def update_socket_def)

lemma handleHello_spec:
  assumes inv: "do_inv x cfg st" and h: "handleHello cfg ev ws a p v cur st = (st', e)"
  shows "do_inv x cfg st' \<and> hello_effect (at_clientId a) st st'"
proof (cases "p \<noteq> PROTOCOL_VERSION \<or> v \<noteq> app_version (cf_app cfg)")
  case True
  then obtain msg reason where "st' = closeSocket cfg ev ws CLOSE_VERSION_NOT_SUPPORTED reason
      (sendError ws VersionNotSupported msg st)"
    using h unfolding handleHello_def if_P [OF True] by blast
  then have "same_core st st'"
    using same_core_trans [OF same_core_socket_step [OF step_sendError] same_core_socket_step [OF step_closeSocket]] by simp
  then show ?thesis using inv do_inv_core hello_effect_core [OF hello_effect_refl] by blast
next
  case False
  let ?c = "at_clientId a"
  define st1 where "st1 = snd (touchClient ev ?c st)"
  define valid where "valid = cursor_valid st1 cur"
  define ps where "ps = (if valid then (pack_ops cfg (patchSince st1 (cversion (the cur))), st1) else bootstrapPatch cfg st1)"
  have t: "do_inv x cfg st1" "hello_effect ?c st st1" using touch_spec [OF inv, where ev = ev and c = ?c] by (simp_all add: st1_def)
  have self: "\<exists>sn. st1 = st1\<lparr>do_snapshot := sn\<rparr>" by (rule exI [of _ "do_snapshot st1"]) simp
  have b: "do_inv x cfg (snd ps)" "\<exists>sn. snd ps = st1\<lparr>do_snapshot := sn\<rparr>"
  proof (atomize (full), cases valid)
    case True
    then have "snd ps = st1" by (simp add: ps_def)
    with t(1) self show "do_inv x cfg (snd ps) \<and> (\<exists>sn. snd ps = st1\<lparr>do_snapshot := sn\<rparr>)" by presburger
  next
    case False
    then have "snd ps = snd (bootstrapPatch cfg st1)" by (simp add: ps_def)
    with bootstrap_spec(2,3) [OF t(1)] show "do_inv x cfg (snd ps) \<and> (\<exists>sn. snd ps = st1\<lparr>do_snapshot := sn\<rparr>)"
      by presburger
  qed
  have e: "hello_effect ?c st (snd ps)" using t(2) b(2) by (auto simp: hello_effect_def)
  have core: "same_core (snd ps) st'"
  proof (cases "fst ps")
    case (Inl er)
    then have "st' = snd ps"
      using h False by (auto simp: handleHello_def Let_def st1_def [symmetric] valid_def [symmetric] ps_def [symmetric] case_prod_beta)
    then show ?thesis by simp
  next
    case (Inr pt)
    define sta where "sta = serializeAttachment ws (a\<lparr>at_ready := True\<rparr>)
        (sendPoke cfg ev [ws] (if valid then cur else None) pt (Some [(?c, fst (touchClient ev ?c st))]) [] (snd ps))"
    have c1: "same_core (snd ps) sta"
      unfolding sta_def by (rule same_core_trans [OF same_core_socket_step [OF step_sendPoke] same_core_serialize])
    have "st' = sta \<or> (\<exists>fs. st' = deliver cfg ev ws fs sta)"
      using h False Inr
      by (auto simp: handleHello_def Let_def st1_def [symmetric] valid_def [symmetric] ps_def [symmetric] case_prod_beta
          sta_def [symmetric] split: if_splits)
    then show ?thesis
      using c1 same_core_trans [OF c1 same_core_socket_step [OF step_deliver]] by auto
  qed
  show ?thesis using do_inv_core [OF core b(1)] hello_effect_core [OF e core] by blast
qed

lemma handlePresence_core: "same_core st (handlePresence cfg ev ws a v st)"
proof -
  have e: "same_core st (sendError ws PresenceInvalid m st)" for m
    by (rule same_core_socket_step [OF step_sendError])
  have r: "same_core st (relayPresence cfg ev f c p w (st\<lparr>do_presence := x\<rparr>))" for f c p w x
  proof -
    have "same_core st (st\<lparr>do_presence := x\<rparr>)" by (simp add: same_core_def)
    from same_core_trans [OF this same_core_socket_step [OF step_relayPresence]] show ?thesis .
  qed
  show ?thesis
    unfolding handlePresence_def Let_def using e r by (auto split: option.split verdict.split)
qed

section \<open>A small workspace\<close>

text \<open>One table, one mutator, one client that said hello: the concrete input of the examples.\<close>

definition demo_app :: AppDefinition where
  "demo_app = \<lparr>app_version = 1, app_schema = demo_schema,
     app_mutators = [(js ''add'', \<lparr>def_args = None,
       def_apply = (\<lambda>args ctx. CallPut (js ''t'') (js ''a'') [(js ''n'', args)] (orThrow (\<lambda>_. Done)))\<rparr>)],
     app_migrations = [], app_authContext = None, app_presence = Some VValue\<rparr>"

definition demo_cfg :: "unit Config" where
  "demo_cfg = \<lparr>cf_app = demo_app, cf_compactionDisabled = False, cf_retention = None, cf_compactionMs = None,
     cf_export = None, cf_hook = False, cf_extension = None, cf_jsonQuote = (\<lambda>s. [34] @ s @ [34]),
     cf_plan = (\<lambda>_ _. 0), cf_fingerprint = [], cf_presenceHash = []\<rparr>"

definition demo_env :: Env where
  "demo_env = \<lparr>ev_now = 0, ev_iso = [], ev_uuid = js ''p'', ev_newBackend = js ''b2'', ev_doName = [],
     ev_putOk = (\<lambda>_. True)\<rparr>"

definition demo_att :: Attachment where
  "demo_att = \<lparr>at_clientId = js ''c'', at_ready = True, at_principal = None, at_auth = None, at_expiresAt = None,
     at_defunct = False\<rparr>"

definition demo_meta :: Meta where
  "demo_meta = \<lparr>m_backendId = js ''b'', m_currentVersion = 0, m_minCursorVersion = 0, m_workspaceId = js ''w'',
     m_lastExportedSeq = 0, m_schemaVersion = 1, m_schemaHash = [], m_presenceHash = []\<rparr>"

definition demo_db :: DB where
  "demo_db = \<lparr>db_rows = [], db_log = [], db_seq = 0, db_clients = [(js ''c'', \<lparr>cl_lmid = 0, cl_seen = []\<rparr>)],
     db_meta = Some \<lparr>mr_meta = demo_meta, mr_schemaVersion = Fin 1\<rparr>, db_applied = 5, db_tables = catalog 5\<rparr>"

definition demo_do :: "unit WorkspaceDO" where
  "demo_do = \<lparr>do_db = demo_db, do_meta = demo_meta, do_initError = None, do_extension = None, do_presence = [],
     do_snapshot = None,
     do_counters = \<lparr>ct_startedAt = [], ct_pushes = 0, ct_mutationsApplied = 0, ct_mutationsSkipped = 0, ct_mutationErrors = 0,
       ct_pokesSent = 0, ct_framesSent = 0, ct_lastFanout = 0\<rparr>,
     do_sockets = [\<lparr>sk_id = 1, sk_att = demo_att, sk_quota = None\<rparr>], do_next = 2, do_alarm = None, do_out = []\<rparr>"

definition demo_mutation :: Mutation where
  "demo_mutation = \<lparr>mut_id = 1, mut_name = js ''add'', mut_args = JNum (Fin 5), mut_seed = js ''s''\<rparr>"

lemma demo_do_inv: "do_inv True demo_cfg demo_do"
  unfolding do_inv_def
  by (intro conjI)
    (simp_all add: demo_do_def demo_db_def demo_meta_def meta_synced_def rows_ok_def sql_inv_def log_ok_def log_exact_def
      client_log_def lastMutationId_def clients_ok_def snapshot_ok_def)

lemma demo_known: "known (do_db demo_do) (at_clientId demo_att)"
  by (simp add: known_def demo_do_def demo_db_def demo_att_def)

lemma demo_lmid: "lastMutationId (do_db demo_do) (at_clientId demo_att) = 0"
  by (simp add: lastMutationId_def demo_do_def demo_db_def demo_att_def)

text \<open>The demo mutation, evaluated: it commits at version 1 and the push ends without an error.\<close>

lemma pack_nil: "\<exists>p. pack_ops cfg [] = Inr p"
  by (simp add: pack_ops_def packPatch_def split: sum.split)

definition demo_row :: StoredRow where
  "demo_row = \<lparr>row_tbl = js ''t'', row_id = js ''a'', row_data = [(js ''n'', JNum (Fin 5))], row_version = 1, row_deleted = False\<rparr>"

lemma demo_size: "jsonByteSize (JObj [(js ''n'', JNum (Fin 5))]) = 7"
  by code_simp

lemma demo_run: "run_mutation demo_cfg 0 [] a demo_mutation = Inr ([demo_row], Some 1, JNum (Fin 5), [])"
proof -
  have "id_ok (js ''a'')" "js ''a'' \<noteq> []" "0 \<notin> set (js ''a'')" "1 \<le> MAX_ID_LENGTH"
    by (simp_all add: id_ok_def MAX_ID_LENGTH_def)
  then show ?thesis using demo_size demo_names(1)
    by (simp add: run_mutation_def demo_cfg_def demo_app_def demo_mutation_def prop_get_def parse_args_def
      new_WriteSet_def orThrow_def tx_put_def flush_def Let_def validateRow_def demo_schema_def check_size_def rememberBefore_def
      flush_put_def flush_data_def SqlRowStore_def sql_put_def json_obj_def changes_of_def validateTarget_def demo_row_def
      MAX_ROW_BYTES_def del: js_simps)
qed

lemma demo_pack: "\<exists>p. pack_ops demo_cfg [PutOp (js ''t'') (js ''a'') [(js ''n'', JNum (Fin 5))]] = Inr p"
proof -
  have "utf8ByteLength (op_json (\<lambda>s. [34] @ s @ [34]) (PutOp (js ''t'') (js ''a'') [(js ''n'', JNum (Fin 5))])) < 100"
    by code_simp
  then show ?thesis
    by (simp add: pack_ops_def packPatch_def demo_cfg_def MAX_PART_PATCH_BYTES_def Let_def del: js_simps split: sum.split)
qed

lemma demo_applied: "applyMutation demo_cfg demo_env demo_att demo_mutation (count f demo_do) =
   Inr ((count f demo_do)\<lparr>do_db := commit_mutation demo_env (js ''c'') demo_mutation [demo_row] (Some 1) None demo_db,
     do_meta := demo_meta\<lparr>m_currentVersion := 1\<rparr>, do_snapshot := None\<rparr>, None)"
proof -
  have e: "db_rows demo_db = []" "m_currentVersion demo_meta = 0" "do_db demo_do = demo_db" "do_meta demo_do = demo_meta"
     "at_clientId demo_att = js ''c''" "cf_hook demo_cfg = False"
    by (simp_all add: demo_db_def demo_meta_def demo_do_def demo_att_def demo_cfg_def)
  show ?thesis by (simp only: applyMutation_def Let_def e count_fields demo_run option.case sum.case prod.case notifyCommitted_def if_False)
    (simp add: e(4))
qed

lemma demo_ready [simp]: "at_ready demo_att" "at_clientId demo_att = js ''c''"
  by (simp_all add: demo_att_def del: js_simps)

lemma demo_start: "lastMutationId demo_db (js ''c'') = 0" "do_db demo_do = demo_db" "do_meta demo_do = demo_meta"
    "m_currentVersion demo_meta = 0"
  by (simp_all add: lastMutationId_def demo_db_def demo_do_def demo_meta_def)

lemma since_demo: "since_ops [demo_row] 0 = [PutOp (js ''t'') (js ''a'') [(js ''n'', JNum (Fin 5))]]"
  by (simp add: since_ops_def row_op_def demo_row_def del: js_simps)

lemma demo_push: "\<exists>st. handlePush demo_cfg demo_env 1 demo_att [demo_mutation] demo_do = (st, None)"
proof -
  obtain p where p: "pack_ops demo_cfg [PutOp (js ''t'') (js ''a'') [(js ''n'', JNum (Fin 5))]] = Inr p"
    using demo_pack by blast
  have m: "mut_id demo_mutation = 1" by (simp add: demo_mutation_def)
  have rows: "db_rows (commit_mutation ev c m rows w r d) = rows" for ev c m rows w r d
    by (simp add: commit_mutation_def split: option.split)
  show ?thesis
    by (simp add: handlePush_def Let_def demo_start demo_applied m patchSince_def rows since_demo p del: js_simps)
qed

lemma push_again:
  assumes "lastMutationId (do_db st) (at_clientId a) = n" "list_all (\<lambda>m. mut_id m \<le> n) ms"
  shows "\<exists>st'. handlePush cfg ev ws a ms st = (st', None)"
proof -
  have loop: "pl_lmid (push_loop cfg ev ws a ms st n rs) = n \<and> pl_thrown (push_loop cfg ev ws a ms st n rs) = None" for st rs
    using assms(2) by (induction ms arbitrary: st) simp_all
  obtain p where "pack_ops cfg [] = Inr p" using pack_nil by blast
  then show ?thesis
    using assms(1) loop [of "count (\<lambda>c. c\<lparr>ct_pushes := ct_pushes c + 1\<rparr>) st" "[]"] by (simp add: handlePush_def Let_def)
qed

section \<open>Properties\<close>

text \<open>
  C6: Applying a client's next mutation is atomic: either it throws a transient error and
  nothing is kept, or the client's LMID moves to the mutation's id (nobody else's), exactly one
  log entry is added, and the rows and the version move together: the version is unchanged and
  so is every row, or the mutation succeeded, the version went up by one, and every new or
  changed row carries it. A permanent error never changes a row. The invariant is kept.
\<close>

theorem applyMutation_atomic:
  assumes "do_inv True cfg st" "known (do_db st) (at_clientId a)"
    and "mut_id m = lastMutationId (do_db st) (at_clientId a) + 1"
  shows "case applyMutation cfg ev a m st of
      Inl e \<Rightarrow> (case e of AppError c t \<Rightarrow> False | OtherError t \<Rightarrow> True)
    | Inr (st', err) \<Rightarrow> do_inv True cfg st' \<and> mutation_effect (at_clientId a) (mut_id m) err st st'"
proof (cases "applyMutation cfg ev a m st")
  case (Inl e)
  then show ?thesis by (auto simp: applyMutation_def Let_def split: sum.splits err.splits option.splits)
next
  case (Inr x)
  then show ?thesis using applyMutation_spec [OF assms, of ev "fst x" "snd x"] by (cases x) simp
qed

theorem applyMutation_atomic_witness:
  "case applyMutation demo_cfg demo_env demo_att demo_mutation demo_do of
      Inl e \<Rightarrow> (case e of AppError c t \<Rightarrow> False | OtherError t \<Rightarrow> True)
    | Inr (st', err) \<Rightarrow> do_inv True demo_cfg st' \<and>
        mutation_effect (at_clientId demo_att) (mut_id demo_mutation) err demo_do st'"
proof (rule applyMutation_atomic [OF demo_do_inv demo_known])
  show "mut_id demo_mutation = lastMutationId (do_db demo_do) (at_clientId demo_att) + 1"
    unfolding demo_lmid by (simp add: demo_mutation_def)
qed

text \<open>
  C5: A push is applied exactly once and in order: from a client the database knows, whatever
  ids arrive, the log gains for that client exactly the entries from its LMID plus 1 to the new
  LMID, each once, in order, and nothing for anyone else; a gap in the ids stops the push there
  and duplicates are skipped. The rows that changed all carry versions above the one the push
  started from. The invariant (log against LMIDs, rows against the version) is kept.
\<close>

theorem push_exactly_once:
  assumes "do_inv True cfg st" "known (do_db st) (at_clientId a)" "handlePush cfg ev ws a ms st = (st', e)"
  shows "do_inv True cfg st' \<and>
    (\<exists>n \<ge> lastMutationId (do_db st) (at_clientId a). push_effect (at_clientId a) n st st' \<and>
       (n = lastMutationId (do_db st) (at_clientId a) \<longrightarrow> same_core st st') \<and>
       (at_ready a \<and> e = None \<longrightarrow> n = accept (lastMutationId (do_db st) (at_clientId a)) (map mut_id ms)))"
  by (rule handlePush_spec [OF assms])

theorem push_exactly_once_witness:
  "do_inv True demo_cfg (fst (handlePush demo_cfg demo_env 1 demo_att [demo_mutation] demo_do))"
  using push_exactly_once [OF demo_do_inv demo_known, of demo_env 1 "[demo_mutation]"]
  by (metis prod.collapse)

end
