(* ===== verification/Lifecycle.thy ===== *)
theory Lifecycle
  imports EngineSpec
begin

text \<open>
  The workspace object outside its message handlers (server/src/do.ts): waking up, the replay
  of the app's schema migrations, the extension seam, and the maintenance alarm with
  compaction and log export. The fingerprints of the schemas are parameters of the
  configuration.
\<close>

section \<open>Defaults\<close>

definition DEFAULT_TOMBSTONE_RETENTION :: int where "DEFAULT_TOMBSTONE_RETENTION = 10000"
definition DEFAULT_COMPACTION_INTERVAL_MS :: int where "DEFAULT_COMPACTION_INTERVAL_MS = 6 * 60 * 60 * 1000"
definition DEFAULT_EXPORT_INTERVAL_MS :: int where "DEFAULT_EXPORT_INTERVAL_MS = 5 * 60 * 1000"
definition DEFAULT_EXPORT_BATCH_ROWS :: nat where "DEFAULT_EXPORT_BATCH_ROWS = 5000"
definition DEFAULT_EXPORT_MAX_OBJECTS :: nat where "DEFAULT_EXPORT_MAX_OBJECTS = 20"

definition or_default :: "'a option \<Rightarrow> 'a \<Rightarrow> 'a" where
  "or_default x d = (case x of None \<Rightarrow> d | Some a \<Rightarrow> a)"

definition maintenanceIntervalMs :: "'x Config \<Rightarrow> int" where
  "maintenanceIntervalMs cfg =
     (let c = or_default (cf_compactionMs cfg) DEFAULT_COMPACTION_INTERVAL_MS in
      case cf_export cfg of
        None \<Rightarrow> c
      | Some xp \<Rightarrow> min c (or_default (xp_intervalMs xp) DEFAULT_EXPORT_INTERVAL_MS))"

definition maintenanceEnabled :: "'x Config \<Rightarrow> bool" where
  "maintenanceEnabled cfg \<longleftrightarrow> \<not> cf_compactionDisabled cfg \<or> cf_export cfg \<noteq> None"

definition setAlarm :: "'x Config \<Rightarrow> Env \<Rightarrow> 'x WorkspaceDO \<Rightarrow> 'x WorkspaceDO" where
  "setAlarm cfg ev st = (if maintenanceEnabled cfg then st\<lparr>do_alarm := Some (ev_now ev + maintenanceIntervalMs cfg)\<rparr> else st)"

section \<open>The extension seam\<close>

definition initExtension :: "'x Config \<Rightarrow> 'x WorkspaceDO \<Rightarrow> 'x WorkspaceDO" where
  "initExtension cfg st =
     (case cf_extension cfg of None \<Rightarrow> st | Some x \<Rightarrow> st\<lparr>do_extension := Some (ext_init x (do_extension st))\<rparr>)"

text \<open>The sends and broadcasts of an extension go through the delivery gate.\<close>

fun run_call :: "'x Config \<Rightarrow> Env \<Rightarrow> ExtCall \<Rightarrow> 'x WorkspaceDO \<Rightarrow> 'x WorkspaceDO" where
  "run_call cfg ev (XBroadcast bytes except) st =
     deliver_each (dropPresence cfg ev) ev except (readySockets st) [FBinary bytes] st"
| "run_call cfg ev (XSend ws bytes) st = deliver cfg ev ws [FBinary bytes] st"

definition run_calls :: "'x Config \<Rightarrow> Env \<Rightarrow> ExtCall list \<Rightarrow> 'x WorkspaceDO \<Rightarrow> 'x WorkspaceDO" where
  "run_calls cfg ev = fold (run_call cfg ev)"

section \<open>Waking up\<close>

definition migrate_args :: "int \<Rightarrow> int \<Rightarrow> jval" where
  "migrate_args vfrom vto = JObj [(js ''from'', JNum (Fin vfrom)), (js ''to'', JNum (Fin vto))]"

text \<open>The chain of steps over one buffer.\<close>

definition run_step :: "'s EngineRowStore \<Rightarrow> schema \<Rightarrow> 's \<Rightarrow> SchemaMigration \<Rightarrow> WriteSet \<Rightarrow> WriteSet res" where
  "run_step ops sch rows step ws =
     (case mig_migrate step of
        None \<Rightarrow> Inr ws
      | Some p \<Rightarrow> (case run_prog ops sch rows p ws of (ws', None) \<Rightarrow> Inr ws' | (_, Some e) \<Rightarrow> Inl e))"

definition run_steps :: "'s EngineRowStore \<Rightarrow> schema \<Rightarrow> 's \<Rightarrow> SchemaMigration list \<Rightarrow> WriteSet res" where
  "run_steps ops sch rows steps = fold_res (run_step ops sch rows) steps (new_WriteSet True False)"

text \<open>The transaction: an error leaves the state as it was.\<close>

definition migrateAppSchema :: "'x Config \<Rightarrow> Env \<Rightarrow> 'x WorkspaceDO \<Rightarrow> 'x WorkspaceDO res" where
  "migrateAppSchema cfg ev st =
     (let app = cf_app cfg; d = do_db st; mt = do_meta st; vfrom = m_schemaVersion mt;
          ops = SqlRowStore (cf_plan cfg); candidate = m_currentVersion mt + 1
      in bind_res (migrationPath app vfrom) (\<lambda>steps.
         bind_res (run_steps ops (app_schema app) (db_rows d) steps) (\<lambda>ws.
         bind_res (flush ops (app_schema app) (db_rows d) ws candidate) (\<lambda>(rows, written, _).
           let bump = (\<lambda>m. if 0 < written then m\<lparr>m_currentVersion := candidate, m_minCursorVersion := candidate\<rparr> else m);
               hashes = (\<lambda>m. m\<lparr>m_schemaHash := cf_fingerprint cfg, m_presenceHash := cf_presenceHash cfg\<rparr>);
               d = update_meta bump (d\<lparr>db_rows := rows\<rparr>);
               d = update_meta hashes (set_schema_version (app_version app) d);
               d = append_log (if 0 < written then Some candidate else None) (js ''$system'') 0 (js ''$schema.migrate'')
                     (migrate_args vfrom (app_version app)) None (ev_iso ev) d
           in Inr (st\<lparr>do_db := d, do_meta := bump (hashes (mt\<lparr>m_schemaVersion := app_version app\<rparr>))\<rparr>)))))"

text \<open>An update of \<open>meta\<close> in storage and in memory.\<close>

definition stamp_meta :: "(Meta \<Rightarrow> Meta) \<Rightarrow> 'x WorkspaceDO \<Rightarrow> 'x WorkspaceDO" where
  "stamp_meta f st = st\<lparr>do_db := update_meta f (do_db st), do_meta := f (do_meta st)\<rparr>"

definition restamp_presence :: "'x Config \<Rightarrow> 'x WorkspaceDO \<Rightarrow> 'x WorkspaceDO" where
  "restamp_presence cfg st =
     (if m_presenceHash (do_meta st) = cf_presenceHash cfg then st
      else stamp_meta (\<lambda>m. m\<lparr>m_presenceHash := cf_presenceHash cfg\<rparr>)
        (if m_presenceHash (do_meta st) = [] then st else emit (Logged ''presence schema changed'') st))"

definition restamp_schema :: "'x Config \<Rightarrow> 'x WorkspaceDO \<Rightarrow> 'x WorkspaceDO" where
  "restamp_schema cfg st =
     (if m_schemaHash (do_meta st) = cf_fingerprint cfg then st
      else stamp_meta (\<lambda>m. m\<lparr>m_schemaHash := cf_fingerprint cfg\<rparr>)
        (if m_schemaHash (do_meta st) = [] then st else emit (Logged ''table schemas changed'') st))"

text \<open>\<open>initialize\<close> returns the error it threw, with what was stored before.\<close>

definition initialize :: "'x Config \<Rightarrow> Env \<Rightarrow> 'x WorkspaceDO \<Rightarrow> 'x WorkspaceDO \<times> err option" where
  "initialize cfg ev st =
     (case migrate (do_db st) of
        Inl e \<Rightarrow> (st, Some e)
      | Inr d \<Rightarrow>
          (case loadOrInitMeta (ev_newBackend ev) (app_version (cf_app cfg)) (cf_fingerprint cfg) (cf_presenceHash cfg) d of
             Inl e \<Rightarrow> (st\<lparr>do_db := d\<rparr>, Some e)
           | Inr (mt, d) \<Rightarrow>
               let st = st\<lparr>do_db := d, do_meta := mt\<rparr> in
               (case (if m_schemaVersion mt \<noteq> app_version (cf_app cfg) then migrateAppSchema cfg ev st
                      else Inr (restamp_presence cfg st)) of
                  Inl e \<Rightarrow> (st, Some e)
                | Inr st \<Rightarrow>
                    let st = initExtension cfg (restamp_schema cfg st)
                    in (if do_alarm st = None then setAlarm cfg ev st else st, None))))"

definition zero_counters :: "Env \<Rightarrow> Counters" where
  "zero_counters ev = \<lparr>ct_startedAt = ev_iso ev, ct_pushes = 0, ct_mutationsApplied = 0, ct_mutationsSkipped = 0, ct_mutationErrors = 0,
     ct_pokesSent = 0, ct_framesSent = 0, ct_lastFanout = 0\<rparr>"

definition presence_poll :: Frame where
  "presence_poll = FText (json_text (enc_server_msg PresencePoll))"

definition blank_meta :: Meta where
  "blank_meta = \<lparr>m_backendId = [], m_currentVersion = 0, m_minCursorVersion = 0, m_workspaceId = [],
     m_lastExportedSeq = 0, m_schemaVersion = 0, m_schemaHash = [], m_presenceHash = []\<rparr>"

text \<open>
  The constructor, run on every wake: what was in memory is gone, sockets and storage survive.
  The polls are sent before initialization.
\<close>

definition wake :: "'x Config \<Rightarrow> Env \<Rightarrow> 'x WorkspaceDO \<Rightarrow> 'x WorkspaceDO" where
  "wake cfg ev st =
     (let st = st\<lparr>do_initError := None, do_presence := [], do_snapshot := None, do_counters := zero_counters ev,
                   do_meta := blank_meta\<rparr>;
          st = (if app_presence (cf_app cfg) = None then st
                else deliver_all cfg ev (readySockets st) [presence_poll] st)
      in case initialize cfg ev st of
           (st, None) \<Rightarrow> st
         | (st, Some e) \<Rightarrow> emit (Logged ''workspace initialization failed'') (st\<lparr>do_initError := Some e\<rparr>))"

section \<open>Maintenance\<close>

definition compact :: "'x Config \<Rightarrow> 'x WorkspaceDO \<Rightarrow> 'x WorkspaceDO" where
  "compact cfg st =
     (let cutoff = m_currentVersion (do_meta st) - or_default (cf_retention cfg) DEFAULT_TOMBSTONE_RETENTION;
          dead = filter (\<lambda>row. row_deleted row \<and> row_version row \<le> cutoff) (db_rows (do_db st))
      in if cutoff \<le> 0 \<or> dead = [] then st
         else
           let newMin = max (m_minCursorVersion (do_meta st)) (Max (set (map row_version dead)))
           in stamp_meta (\<lambda>m. m\<lparr>m_minCursorVersion := newMin\<rparr>)
                (st\<lparr>do_db := (do_db st)\<lparr>db_rows := drop_tombstones cutoff (db_rows (do_db st))\<rparr>\<rparr>))"

fun pad_zeros :: "nat \<Rightarrow> jstr \<Rightarrow> jstr" where
  "pad_zeros n s = replicate (n - length s) 0x30 @ s"

definition export_key :: "jstr \<Rightarrow> jstr \<Rightarrow> int \<Rightarrow> int \<Rightarrow> jstr" where
  "export_key prefix workspace startSeq endSeq =
     prefix @ js ''/'' @ workspace @ js ''/mutation-log/'' @ pad_zeros 12 (js_of_int startSeq) @ js ''-''
     @ pad_zeros 12 (js_of_int endSeq) @ js ''.ndjson''"

text \<open>
  One run writes at most \<open>n\<close> objects; \<open>i\<close> counts the writes. An object is its key and the log
  entries of its lines. The result says whether a write failed.
\<close>

fun export_loop :: "Env \<Rightarrow> nat \<Rightarrow> jstr \<Rightarrow> jstr \<Rightarrow> nat \<Rightarrow> nat \<Rightarrow> 'x WorkspaceDO \<Rightarrow> 'x WorkspaceDO \<times> err option" where
  "export_loop ev batchRows prefix workspace i 0 st = (st, None)"
| "export_loop ev batchRows prefix workspace i (Suc n) st =
     (let rows = take batchRows (sort_key lg_seq (filter (\<lambda>e. m_lastExportedSeq (do_meta st) < lg_seq e) (db_log (do_db st))))
      in if rows = [] then (st, None)
         else
           let endSeq = lg_seq (last rows); key = export_key prefix workspace (lg_seq (hd rows)) endSeq
           in if \<not> ev_putOk ev i then (st, Some (OtherError ''put failed''))
              else
                let st = stamp_meta (\<lambda>m. m\<lparr>m_lastExportedSeq := endSeq\<rparr>) (emit (Exported key rows) st)
                in if length rows < batchRows then (st, None)
                   else export_loop ev batchRows prefix workspace (Suc i) n st)"

definition exportLog :: "Env \<Rightarrow> jstr \<Rightarrow> ExportConfig \<Rightarrow> 'x WorkspaceDO \<Rightarrow> 'x WorkspaceDO \<times> err option" where
  "exportLog ev doId xp st =
     export_loop ev (or_default (xp_batchRows xp) DEFAULT_EXPORT_BATCH_ROWS) (or_default (xp_prefix xp) (js ''cf-sync''))
       (if m_workspaceId (do_meta st) = [] then doId else m_workspaceId (do_meta st))
       0 (or_default (xp_maxObjects xp) DEFAULT_EXPORT_MAX_OBJECTS) st"

definition alarm :: "'x Config \<Rightarrow> Env \<Rightarrow> jstr \<Rightarrow> 'x WorkspaceDO \<Rightarrow> 'x WorkspaceDO \<times> err option" where
  "alarm cfg ev doId st =
     (if do_initError st \<noteq> None then (st, None)
      else
        let st = (if cf_compactionDisabled cfg then st else compact cfg st);
            st = (case cf_extension cfg of
                    None \<Rightarrow> st
                  | Some x \<Rightarrow>
                      (case ext_alarm x of
                         None \<Rightarrow> st
                       | Some f \<Rightarrow> st\<lparr>do_extension := map_option f (do_extension st)\<rparr>));
            (st, e) = (case cf_export cfg of None \<Rightarrow> (st, None) | Some xp \<Rightarrow> exportLog ev doId xp st)
        in (setAlarm cfg ev st, e))"

end
