(* ===== verification/Admin.thy ===== *)
theory Admin
  imports Lifecycle Upgrade
begin

text \<open>
  The entry points of the workspace object (server/src/do.ts): \<open>fetch\<close> with the WebSocket
  upgrade and the admin operations, and the WebSocket events. A request is what the code reads
  of it; a text that the code parses as JSON is represented by the document, or by its absence
  when the text is not JSON. The detail an error response appends (a parser's or an exception's
  message) is left out.
\<close>

datatype Body = EmptyBody | BadBody | JsonBody jval

record Request =
  rq_method :: jstr
  rq_path :: jstr
  rq_upgrade :: "jstr option"
  rq_clientId :: "jstr option"
  rq_workspace :: "jstr option"
  rq_auth :: "jval option option"
  rq_body :: Body

datatype Response = JsonResponse int jval | TextResponse int string | Rejected int jstr | Switched nat | Threw err

definition json_error :: "int \<Rightarrow> jstr \<Rightarrow> Response" where
  "json_error status msg = JsonResponse status (JObj [(js ''error'', JStr msg)])"

section \<open>Stats and export\<close>

definition stats :: "'x Config \<Rightarrow> int \<Rightarrow> 'x WorkspaceDO \<Rightarrow> jobj" where
  "stats cfg databaseSize st =
     (let d = do_db st; m = do_meta st; num = (\<lambda>n. JNum (Fin (int n))); c = do_counters st in
      [(js ''workspaceId'', JStr (m_workspaceId m)), (js ''backendId'', JStr (m_backendId m)),
       (js ''schemaVersion'', JNum (Fin (app_version (cf_app cfg)))),
       (js ''currentVersion'', JNum (Fin (m_currentVersion m))),
       (js ''minCursorVersion'', JNum (Fin (m_minCursorVersion m))),
       (js ''lastExportedSeq'', JNum (Fin (m_lastExportedSeq m))),
       (js ''rows'', JObj [(js ''live'', num (length (filter (\<lambda>r. \<not> row_deleted r) (db_rows d)))),
                         (js ''tombstones'', num (length (filter row_deleted (db_rows d))))]),
       (js ''mutationLogEntries'', num (length (db_log d))), (js ''knownClients'', num (length (db_clients d))),
       (js ''databaseSizeBytes'', JNum (Fin databaseSize)),
       (js ''connections'', JObj [(js ''total'', num (length (do_sockets st))),
          (js ''ready'', num (length (readySockets st))), (js ''presence'', num (length (do_presence st)))]),
       (js ''counters'', JObj [(js ''startedAt'', JStr (ct_startedAt c)), (js ''pushes'', num (ct_pushes c)), (js ''mutationsApplied'', num (ct_mutationsApplied c)),
          (js ''mutationsSkipped'', num (ct_mutationsSkipped c)), (js ''mutationErrors'', num (ct_mutationErrors c)),
          (js ''pokesSent'', num (ct_pokesSent c)), (js ''framesSent'', num (ct_framesSent c)),
          (js ''lastFanout'', num (ct_lastFanout c))])]
      @ (case (cf_extension cfg, do_extension st) of
           (Some x, Some xs) \<Rightarrow> (case ext_stats x of None \<Rightarrow> [] | Some f \<Rightarrow> [(js ''extension'', JObj (f xs))])
         | _ \<Rightarrow> []))"

definition snapshot_row :: "StoredRow \<Rightarrow> jval" where
  "snapshot_row row = JObj [(js ''tbl'', JStr (row_tbl row)), (js ''id'', JStr (row_id row)), (js ''data'', JObj (row_data row))]"

text \<open>An extension's \<open>onExport\<close> may change its in-memory state and may throw.\<close>

definition export_extension :: "'x Config \<Rightarrow> 'x WorkspaceDO \<Rightarrow> 'x WorkspaceDO \<times> jobj res" where
  "export_extension cfg st =
     (case (cf_extension cfg, do_extension st) of
        (Some x, Some xs) \<Rightarrow>
          (case ext_export x of
             None \<Rightarrow> (st, Inr [])
           | Some f \<Rightarrow>
               let (xs', r) = f xs in
               (st\<lparr>do_extension := Some xs'\<rparr>, bind_res r (\<lambda>v. Inr [(js ''extension'', v)])))
      | _ \<Rightarrow> (st, Inr []))"

definition export_snapshot :: "'x Config \<Rightarrow> Env \<Rightarrow> 'x WorkspaceDO \<Rightarrow> 'x WorkspaceDO \<times> Response" where
  "export_snapshot cfg ev st =
     (let (st', r) = export_extension cfg st in
      (st', case r of
         Inl e \<Rightarrow> Threw e
       | Inr ext \<Rightarrow> JsonResponse 200 (JObj
           ([(js ''formatVersion'', JNum (Fin 1)), (js ''schemaVersion'', JNum (Fin (app_version (cf_app cfg)))),
             (js ''workspaceId'', JStr (m_workspaceId (do_meta st))), (js ''exportedAt'', JStr (ev_iso ev)),
             (js ''version'', JNum (Fin (m_currentVersion (do_meta st)))),
             (js ''rows'', JArr (map snapshot_row (live_rows (db_rows (do_db st)))))] @ ext))))"

section \<open>Import\<close>

record SnapshotRow =
  sn_tbl :: jstr
  sn_id :: jstr
  sn_data :: jobj

record Snapshot =
  snap_schemaVersion :: int
  snap_rows :: "SnapshotRow list"
  snap_extension :: jval

definition dec_snapshot_row :: "jval \<Rightarrow> SnapshotRow option" where
  "dec_snapshot_row = z_object (\<lambda>ob.
     Option.bind (z_string1 (field ob (js ''tbl''))) (\<lambda>t.
     Option.bind (z_string1 (field ob (js ''id''))) (\<lambda>i.
     case field ob (js ''data'') of JObj row \<Rightarrow> Some \<lparr>sn_tbl = t, sn_id = i, sn_data = row\<rparr> | _ \<Rightarrow> None)))"

definition dec_snapshot :: "jval \<Rightarrow> Snapshot option" where
  "dec_snapshot = z_object (\<lambda>ob.
     Option.bind (z_literal (JNum (Fin 1)) (field ob (js ''formatVersion''))) (\<lambda>_.
     Option.bind (z_int (\<lambda>i. 0 < i) (field ob (js ''schemaVersion''))) (\<lambda>v.
     Option.bind (z_array dec_snapshot_row (field ob (js ''rows''))) (\<lambda>rows.
     Some \<lparr>snap_schemaVersion = v, snap_rows = rows, snap_extension = field ob (js ''extension'')\<rparr>))))"

text \<open>An older snapshot replays the migration chain, staged in memory.\<close>

definition stage_rows :: "SnapshotRow list \<Rightarrow> memory_rows" where
  "stage_rows rows = fold (\<lambda>r st. memory_put st (sn_tbl r) (sn_id r) (sn_data r) 0) rows []"

definition migrate_snapshot :: "AppDefinition \<Rightarrow> Snapshot \<Rightarrow> SnapshotRow list res" where
  "migrate_snapshot app snap =
     bind_res (migrationPath app (snap_schemaVersion snap)) (\<lambda>steps.
       let staged = stage_rows (snap_rows snap); sch = app_schema app in
       bind_res (run_steps MemoryRowStore sch staged steps) (\<lambda>ws.
       bind_res (flush MemoryRowStore sch staged ws 1) (\<lambda>(staged, _, _).
         Inr (map (\<lambda>(t, i, d). \<lparr>sn_tbl = t, sn_id = i, sn_data = d\<rparr>) (memory_live staged)))))"

text \<open>The error of a row is a response, or a throw.\<close>

definition check_row :: "schema \<Rightarrow> SnapshotRow \<Rightarrow> Response + SnapshotRow" where
  "check_row sch r =
     (if \<not> TABLE_NAME_RE (sn_tbl r) \<or> MAX_ID_LENGTH < length (sn_id r) then
        Inl (json_error 400 (js ''invalid row target '' @ sn_tbl r @ js ''/'' @ sn_id r))
      else case validateRow sch (sn_tbl r) (sn_id r) (sn_data r) of
        Inl (AppError c m) \<Rightarrow> Inl (json_error 400 m)
      | Inl e \<Rightarrow> Inl (Threw e)
      | Inr d \<Rightarrow>
          if MAX_ROW_BYTES < jsonByteSize (JObj d) then
            Inl (json_error 400 (js ''row '' @ sn_tbl r @ js ''/'' @ sn_id r @ js '' exceeds '' @ digits_of MAX_ROW_BYTES @ js '' bytes''))
          else Inr (r\<lparr>sn_data := d\<rparr>))"

fun check_rows :: "schema \<Rightarrow> SnapshotRow list \<Rightarrow> Response + SnapshotRow list" where
  "check_rows sch [] = Inr []"
| "check_rows sch (r # rs) =
     (case check_row sch r of
        Inl e \<Rightarrow> Inl e
      | Inr r' \<Rightarrow> (case check_rows sch rs of Inl e \<Rightarrow> Inl e | Inr rs' \<Rightarrow> Inr (r' # rs')))"

text \<open>A plain \<open>INSERT\<close> refuses a second row with the same key.\<close>

definition sql_insert :: "int \<Rightarrow> SnapshotRow \<Rightarrow> sql_rows \<Rightarrow> sql_rows res" where
  "sql_insert version r rows =
     (if list_ex (row_at (sn_tbl r) (sn_id r)) rows then Inl (OtherError ''UNIQUE constraint failed'')
      else Inr (rows @ [\<lparr>row_tbl = sn_tbl r, row_id = sn_id r, row_data = json_obj (sn_data r), row_version = version,
                         row_deleted = False\<rparr>]))"

fun close_all :: "'x Config \<Rightarrow> Env \<Rightarrow> nat list \<Rightarrow> int \<Rightarrow> jstr \<Rightarrow> 'x WorkspaceDO \<Rightarrow> 'x WorkspaceDO" where
  "close_all cfg ev [] code reason st = st"
| "close_all cfg ev (s # ss) code reason st = close_all cfg ev ss code reason (closeSocket cfg ev s code reason st)"

text \<open>The transaction of an import: the new database and the extension's state.\<close>

definition import_tx :: "'x Config \<Rightarrow> int \<Rightarrow> SnapshotRow list \<Rightarrow> jval \<Rightarrow> 'x WorkspaceDO \<Rightarrow> (DB \<times> 'x option) res" where
  "import_tx cfg version rows xdata st =
     bind_res (fold_res (sql_insert version) rows []) (\<lambda>rows.
     bind_res (if xdata = JUndef then Inr (do_extension st)
               else case (cf_extension cfg, do_extension st) of
                 (Some x, Some xs) \<Rightarrow>
                   (case ext_import x of
                      None \<Rightarrow> Inl (OtherError ''no onImport'')
                    | Some f \<Rightarrow> (case f xdata xs of Inl e \<Rightarrow> Inl e | Inr xs' \<Rightarrow> Inr (Some xs')))
               | _ \<Rightarrow> Inl (OtherError ''no onImport'')) (\<lambda>xs.
     Inr (update_meta (\<lambda>m. m\<lparr>m_currentVersion := version, m_minCursorVersion := version\<rparr>)
            ((do_db st)\<lparr>db_rows := rows\<rparr>), xs)))"

definition can_import :: "'x Config \<Rightarrow> 'x WorkspaceDO \<Rightarrow> bool" where
  "can_import cfg st =
     (case (cf_extension cfg, do_extension st) of (Some x, Some _) \<Rightarrow> ext_import x \<noteq> None | _ \<Rightarrow> False)"

definition import_rows ::
  "'x Config \<Rightarrow> Env \<Rightarrow> SnapshotRow list \<Rightarrow> jval \<Rightarrow> int option \<Rightarrow> 'x WorkspaceDO \<Rightarrow> 'x WorkspaceDO \<times> Response" where
  "import_rows cfg ev rows xdata migratedFrom st =
     (case check_rows (app_schema (cf_app cfg)) rows of
        Inl r \<Rightarrow> (st, r)
      | Inr importRows \<Rightarrow>
          if xdata \<noteq> JUndef \<and> \<not> can_import cfg st then
            (st, json_error 400 (js ''snapshot carries extension state but no extension with onImport is configured''))
          else
            let version = m_currentVersion (do_meta st) + 1 in
            case import_tx cfg version importRows xdata st of
              Inl e \<Rightarrow> (st, json_error 400 (js ''import failed''))
            | Inr (d, xs) \<Rightarrow>
                let st = st\<lparr>do_db := d, do_extension := xs, do_snapshot := None,
                            do_meta := (do_meta st)\<lparr>m_currentVersion := version, m_minCursorVersion := version\<rparr>\<rparr>;
                    ok = JsonResponse 200 (JObj
                      ([(js ''imported'', JNum (Fin (int (length importRows)))), (js ''version'', JNum (Fin version))]
                       @ (case migratedFrom of None \<Rightarrow> [] | Some v \<Rightarrow> [(js ''migratedFrom'', JNum (Fin v))])))
                in if xdata \<noteq> JUndef then
                     (close_all cfg ev (map sk_id (do_sockets st)) CLOSE_REFRESH (js ''import'') st, ok)
                   else
                     (let (patch, st) = bootstrapPatch cfg st in
                      case patch of
                        Inl e \<Rightarrow> (st, Threw e)
                      | Inr p \<Rightarrow> (sendPoke cfg ev (readySockets st) None p None [] st, ok)))"

definition admin_import :: "'x Config \<Rightarrow> Env \<Rightarrow> Body \<Rightarrow> 'x WorkspaceDO \<Rightarrow> 'x WorkspaceDO \<times> Response" where
  "admin_import cfg ev body st =
     (case body of
        JsonBody v \<Rightarrow>
          (case dec_snapshot v of
             None \<Rightarrow> (st, json_error 400 (js ''invalid snapshot''))
           | Some snap \<Rightarrow>
               if app_version (cf_app cfg) < snap_schemaVersion snap then
                 (st, json_error 400 (js ''snapshot is schema version '' @ js_of_int (snap_schemaVersion snap)
                                      @ js '', server is '' @ js_of_int (app_version (cf_app cfg))))
               else if snap_schemaVersion snap < app_version (cf_app cfg) then
                 (case migrate_snapshot (cf_app cfg) snap of
                    Inl e \<Rightarrow> (st, json_error 400 (js ''snapshot migration from version ''
                                  @ js_of_int (snap_schemaVersion snap) @ js '' failed''))
                  | Inr rows \<Rightarrow> import_rows cfg ev rows (snap_extension snap) (Some (snap_schemaVersion snap)) st)
               else import_rows cfg ev (snap_rows snap) (snap_extension snap) None st)
      | _ \<Rightarrow> (st, json_error 400 (js ''invalid JSON body'')))"

section \<open>Reset and disconnect\<close>

definition pick_name :: "jstr list \<Rightarrow> jstr" where
  "pick_name names = (case find (\<lambda>n. n \<noteq> []) names of None \<Rightarrow> [] | Some n \<Rightarrow> n)"

definition admin_reset :: "'x Config \<Rightarrow> Env \<Rightarrow> Request \<Rightarrow> 'x WorkspaceDO \<Rightarrow> 'x WorkspaceDO \<times> Response" where
  "admin_reset cfg ev rq st =
     (let workspaceId = pick_name [m_workspaceId (do_meta st), or_default (rq_workspace rq) [], ev_doName ev] in
      case bind_res (migrate empty_db)
             (loadOrInitMeta (ev_newBackend ev) (app_version (cf_app cfg)) (cf_fingerprint cfg) (cf_presenceHash cfg)) of
        Inl e \<Rightarrow> (st\<lparr>do_db := empty_db\<rparr>, Threw e)
      | Inr (mt, d) \<Rightarrow>
          let st = st\<lparr>do_db := d, do_snapshot := None, do_meta := mt, do_initError := None, do_extension := None\<rparr>;
              st = (if workspaceId = [] then st else stamp_meta (\<lambda>m. m\<lparr>m_workspaceId := workspaceId\<rparr>) st);
              st = initExtension cfg st;
              st = (case cf_extension cfg of
                      None \<Rightarrow> st
                    | Some x \<Rightarrow> (case ext_reset x of None \<Rightarrow> st | Some f \<Rightarrow> st\<lparr>do_extension := map_option f (do_extension st)\<rparr>));
              st = setAlarm cfg ev st
          in case packPatch [CLEAR_OP] MAX_PART_PATCH_BYTES of
               Inl e \<Rightarrow> (st, Threw (OtherError ''OversizeItemError''))
             | Inr p \<Rightarrow> (sendPoke cfg ev (readySockets st) None p None [] st,
                         JsonResponse 200 (JObj [(js ''backendId'', JStr (m_backendId (do_meta st)))])))"

record DisconnectBody =
  dc_principal :: "jstr option"
  dc_clientId :: "jstr option"
  dc_refresh :: bool
  dc_code :: "int option"
  dc_reason :: "jstr option"

definition dec_mode :: "jval \<Rightarrow> bool option" where
  "dec_mode v =
     (if v = JUndef \<or> v = JStr (js ''kick'') then Some False else if v = JStr (js ''refresh'') then Some True else None)"

definition dec_disconnect :: "jval \<Rightarrow> DisconnectBody option" where
  "dec_disconnect = z_object (\<lambda>ob.
     Option.bind (z_optional z_string (field ob (js ''principal''))) (\<lambda>p.
     Option.bind (z_optional z_string (field ob (js ''clientId''))) (\<lambda>c.
     Option.bind (dec_mode (field ob (js ''mode''))) (\<lambda>m.
     Option.bind (z_optional (z_int (\<lambda>i. 4000 \<le> i \<and> i \<le> 4999)) (field ob (js ''code''))) (\<lambda>k.
     Option.bind (z_optional z_string (field ob (js ''reason''))) (\<lambda>r.
     Some \<lparr>dc_principal = p, dc_clientId = c, dc_refresh = m, dc_code = k, dc_reason = r\<rparr>))))))"

definition selected :: "DisconnectBody \<Rightarrow> Attachment \<Rightarrow> bool" where
  "selected b a \<longleftrightarrow>
     (case dc_principal b of None \<Rightarrow> True | Some p \<Rightarrow> at_principal a = Some p) \<and>
     (case dc_clientId b of None \<Rightarrow> True | Some c \<Rightarrow> at_clientId a = c)"

text \<open>The walk over the sockets reads each attachment when it gets there.\<close>

fun disconnect_loop ::
  "'x Config \<Rightarrow> Env \<Rightarrow> DisconnectBody \<Rightarrow> int \<Rightarrow> jstr \<Rightarrow> nat list \<Rightarrow> nat \<Rightarrow> 'x WorkspaceDO \<Rightarrow> 'x WorkspaceDO \<times> nat" where
  "disconnect_loop cfg ev b code reason [] n st = (st, n)"
| "disconnect_loop cfg ev b code reason (s # ss) n st =
     (case att st s of
        None \<Rightarrow> disconnect_loop cfg ev b code reason ss n st
      | Some a \<Rightarrow>
          if selected b a then disconnect_loop cfg ev b code reason ss (n + 1) (closeSocket cfg ev s code reason st)
          else disconnect_loop cfg ev b code reason ss n st)"

definition admin_disconnect :: "'x Config \<Rightarrow> Env \<Rightarrow> Body \<Rightarrow> 'x WorkspaceDO \<Rightarrow> 'x WorkspaceDO \<times> Response" where
  "admin_disconnect cfg ev body st =
     (case (case body of EmptyBody \<Rightarrow> Some (JObj []) | BadBody \<Rightarrow> None | JsonBody v \<Rightarrow> Some v) of
        None \<Rightarrow> (st, json_error 400 (js ''invalid JSON body''))
      | Some v \<Rightarrow>
          (case dec_disconnect v of
             None \<Rightarrow> (st, json_error 400 (js ''invalid disconnect request''))
           | Some b \<Rightarrow>
               let code = (if dc_refresh b then CLOSE_REFRESH else or_default (dc_code b) CLOSE_UNAUTHORIZED);
                   reason = truncateCloseReason
                     (or_default (dc_reason b) (if dc_refresh b then js ''refresh'' else js ''kick''));
                   (st, n) = disconnect_loop cfg ev b code reason (map sk_id (do_sockets st)) 0 st
               in (st, JsonResponse 200 (JObj [(js ''disconnected'', JNum (Fin (int n)))]))))"

definition handleAdmin :: "'x Config \<Rightarrow> Env \<Rightarrow> int \<Rightarrow> jstr \<Rightarrow> Request \<Rightarrow> 'x WorkspaceDO \<Rightarrow> 'x WorkspaceDO \<times> Response" where
  "handleAdmin cfg ev databaseSize op rq st =
     (let which = rq_method rq @ js '' '' @ op in
      if which = js ''GET stats'' then (st, JsonResponse 200 (JObj (stats cfg databaseSize st)))
      else if which = js ''GET export'' then export_snapshot cfg ev st
      else if which = js ''POST import'' then admin_import cfg ev (rq_body rq) st
      else if which = js ''POST reset'' then admin_reset cfg ev rq st
      else if which = js ''POST disconnect'' then admin_disconnect cfg ev (rq_body rq) st
      else (st, json_error 404 (js ''unknown admin operation '' @ quoted which)))"

section \<open>Upgrades\<close>

definition lower :: "jstr \<Rightarrow> jstr" where
  "lower = map (\<lambda>c. if 65 \<le> c \<and> c \<le> 90 then c + 32 else c)"

definition attachment_json :: "Attachment \<Rightarrow> jval" where
  "attachment_json a = JObj
     [(js ''clientId'', JStr (at_clientId a)), (js ''ready'', JBool (at_ready a)),
      (js ''principal'', or_undefined JStr (at_principal a)), (js ''auth'', or_undefined id (at_auth a)),
      (js ''expiresAt'', or_undefined id (at_expiresAt a))]"

definition make_attachment :: "'x Config \<Rightarrow> jstr \<Rightarrow> jval option option \<Rightarrow> Response + Attachment" where
  "make_attachment cfg clientId rawAuth =
     (let reject = (\<lambda>msg. Rejected CLOSE_AUTH_CONTEXT_INVALID (truncateCloseReason msg)) in
      case (case rawAuth of
              None \<Rightarrow> Inr \<lparr>as_principal = None, as_context = JUndef, as_expiresAt = None\<rparr>
            | Some header \<Rightarrow> decodeAuthStamps header) of
        Inl _ \<Rightarrow> Inl (reject (js ''malformed auth stamps''))
      | Inr stamps \<Rightarrow>
          (case (if rawAuth = None then VValue (as_context stamps)
                 else case app_authContext (cf_app cfg) of
                   None \<Rightarrow> VValue (as_context stamps) | Some validate \<Rightarrow> validate (as_context stamps)) of
             VAsync \<Rightarrow> Inl (reject (js ''async authContext validation is not supported''))
           | VIssues issues \<Rightarrow> Inl (reject (js ''auth context: '' @ formatIssues issues))
           | VValue auth \<Rightarrow>
               let a = \<lparr>at_clientId = clientId, at_ready = False, at_principal = as_principal stamps,
                        at_auth = (if auth = JUndef then None else Some auth), at_expiresAt = as_expiresAt stamps,
                        at_defunct = False\<rparr>
               in if MAX_ATTACHMENT_BYTES < jsonByteSize (attachment_json a) then
                    Inl (reject (js ''auth context exceeds the '' @ digits_of MAX_ATTACHMENT_BYTES
                                 @ js ''-byte attachment budget''))
                  else Inr a))"

text \<open>A client's newest socket wins.\<close>

fun supersede :: "'x Config \<Rightarrow> Env \<Rightarrow> jstr \<Rightarrow> nat list \<Rightarrow> 'x WorkspaceDO \<Rightarrow> 'x WorkspaceDO" where
  "supersede cfg ev clientId [] st = st"
| "supersede cfg ev clientId (s # ss) st =
     supersede cfg ev clientId ss
       (case att st s of
          None \<Rightarrow> st
        | Some a \<Rightarrow> if at_clientId a = clientId then closeSocket cfg ev s CLOSE_SUPERSEDED (js ''superseded'') st else st)"

definition accept_socket :: "Attachment \<Rightarrow> nat option \<Rightarrow> 'x WorkspaceDO \<Rightarrow> 'x WorkspaceDO \<times> Response" where
  "accept_socket a quota st =
     (st\<lparr>do_sockets := do_sockets st @ [\<lparr>sk_id = do_next st, sk_att = a, sk_quota = quota\<rparr>],
         do_next := do_next st + 1\<rparr>, Switched (do_next st))"

definition upgrade :: "'x Config \<Rightarrow> Env \<Rightarrow> nat option \<Rightarrow> Request \<Rightarrow> 'x WorkspaceDO \<Rightarrow> 'x WorkspaceDO \<times> Response" where
  "upgrade cfg ev quota rq st =
     (if map_option lower (rq_upgrade rq) \<noteq> Some (js ''websocket'') then (st, TextResponse 426 ''expected websocket upgrade'')
      else
        let clientId = or_default (rq_clientId rq) [] in
        if clientId = [] \<or> 128 < length clientId then (st, TextResponse 400 ''missing or invalid clientId'')
        else case make_attachment cfg clientId (rq_auth rq) of
          Inl r \<Rightarrow> (st, r)
        | Inr a \<Rightarrow> accept_socket a quota (supersede cfg ev clientId (map sk_id (do_sockets st)) st))"

definition rememberWorkspaceId :: "Env \<Rightarrow> Request \<Rightarrow> 'x WorkspaceDO \<Rightarrow> 'x WorkspaceDO" where
  "rememberWorkspaceId ev rq st =
     (let name = or_default (rq_workspace rq) (ev_doName ev) in
      if name \<noteq> [] \<and> name \<noteq> m_workspaceId (do_meta st)
      then stamp_meta (\<lambda>m. m\<lparr>m_workspaceId := name\<rparr>) st else st)"

definition admin_op :: "jstr \<Rightarrow> jstr option" where
  "admin_op path = (let p = js ''/admin/'' in if take (length p) path = p then Some (drop (length p) path) else None)"

definition fetch ::
  "'x Config \<Rightarrow> Env \<Rightarrow> int \<Rightarrow> nat option \<Rightarrow> Request \<Rightarrow> 'x WorkspaceDO \<Rightarrow> 'x WorkspaceDO \<times> Response" where
  "fetch cfg ev databaseSize quota rq st =
     (if do_initError st \<noteq> None then
        (case admin_op (rq_path rq) of
           None \<Rightarrow> (st, TextResponse 503 ''workspace unavailable'')
         | Some op \<Rightarrow>
             if rq_method rq = js ''POST'' \<and> op = js ''reset'' then handleAdmin cfg ev databaseSize (js ''reset'') rq st
             else (st, json_error 500 (js ''workspace unavailable'')))
      else
        let st = rememberWorkspaceId ev rq st in
        case admin_op (rq_path rq) of
          Some op \<Rightarrow> handleAdmin cfg ev databaseSize op rq st
        | None \<Rightarrow> upgrade cfg ev quota rq st)"

section \<open>WebSocket events\<close>

datatype Inbound = TextFrame "jval option" | BinaryFrame "u8 list"

definition dispatch :: "'x Config \<Rightarrow> Env \<Rightarrow> nat \<Rightarrow> Attachment \<Rightarrow> ClientMsg \<Rightarrow> 'x WorkspaceDO \<Rightarrow> 'x WorkspaceDO \<times> err option" where
  "dispatch cfg ev s a msg st =
     (case msg of
        HelloMsg p v c \<Rightarrow> handleHello cfg ev s a p v c st
      | PresenceMsg state \<Rightarrow> (handlePresence cfg ev s a state st, None)
      | PushMsg ms \<Rightarrow> handlePush cfg ev s a ms st)"

definition binary_message :: "'x Config \<Rightarrow> Env \<Rightarrow> nat \<Rightarrow> Attachment \<Rightarrow> u8 list \<Rightarrow> 'x WorkspaceDO \<Rightarrow> 'x WorkspaceDO \<times> err option" where
  "binary_message cfg ev s a bytes st =
     (case (cf_extension cfg, do_extension st) of
        (Some x, Some xs) \<Rightarrow>
          (case ext_message x s bytes
             \<lparr>xc_clientId = at_clientId a, xc_ready = at_ready a, xc_principal = at_principal a, xc_auth = at_auth a\<rparr> xs of
             (xs', calls, e) \<Rightarrow> (run_calls cfg ev calls (st\<lparr>do_extension := Some xs'\<rparr>), e))
      | _ \<Rightarrow> (sendError s BadMessage (Some (js ''binary frames are not supported'')) st, None))"

definition webSocketMessage :: "'x Config \<Rightarrow> Env \<Rightarrow> nat \<Rightarrow> Inbound \<Rightarrow> 'x WorkspaceDO \<Rightarrow> 'x WorkspaceDO" where
  "webSocketMessage cfg ev s raw st =
     (if do_initError st \<noteq> None then closeSocket cfg ev s 1011 (js ''workspace unavailable'') st
      else case att st s of
        None \<Rightarrow> st
      | Some a \<Rightarrow>
          if at_defunct a then st
          else if expired ev a then closeSocket cfg ev s CLOSE_REFRESH (js ''auth-expired'') st
          else
            let (st, e) =
              (case raw of
                 BinaryFrame bytes \<Rightarrow> binary_message cfg ev s a bytes st
               | TextFrame None \<Rightarrow> (sendError s BadMessage (Some (js ''invalid JSON'')) st, None)
               | TextFrame (Some v) \<Rightarrow>
                   (case dec_client_msg v of
                      None \<Rightarrow> (sendError s BadMessage (Some (js ''unrecognized message shape'')) st, None)
                    | Some msg \<Rightarrow> dispatch cfg ev s a msg st))
            in case e of
                 None \<Rightarrow> st
               | Some _ \<Rightarrow> sendError s Internal None (emit (Logged ''internal error'') st))"

definition RESERVED_CLOSE_CODES :: "int list" where
  "RESERVED_CLOSE_CODES = [1005, 1006, 1015]"

text \<open>
  A close event: presence is dropped, the close answered, and the runtime forgets the socket.
  After an error event the runtime forgets it as well.
\<close>

definition forget_socket :: "nat \<Rightarrow> 'x WorkspaceDO \<Rightarrow> 'x WorkspaceDO" where
  "forget_socket s st = st\<lparr>do_sockets := filter (\<lambda>k. sk_id k \<noteq> s) (do_sockets st)\<rparr>"

definition webSocketClose :: "'x Config \<Rightarrow> Env \<Rightarrow> nat \<Rightarrow> int \<Rightarrow> jstr \<Rightarrow> 'x WorkspaceDO \<Rightarrow> 'x WorkspaceDO" where
  "webSocketClose cfg ev s code reason st =
     (let st = dropPresence cfg ev s st;
          st = (if code \<in> set RESERVED_CLOSE_CODES then st else emit (Closed s code reason) st)
      in forget_socket s st)"

definition webSocketError :: "'x Config \<Rightarrow> Env \<Rightarrow> nat \<Rightarrow> 'x WorkspaceDO \<Rightarrow> 'x WorkspaceDO" where
  "webSocketError cfg ev s st = forget_socket s (dropPresence cfg ev s st)"

end
