(* ===== verification/Guards.thy ===== *)
theory Guards
  imports Admin
begin

text \<open>
  What a row store is handed: every write a mutation or a migration step flushes names a valid
  table and id and carries a value its table's schema gave back, within the size limit. The
  locale \<open>guarded_store\<close> turns that into a promise about a store: what every put of a valid write
  and every delete keeps, a flush keeps.
\<close>

section \<open>Valid writes\<close>

definition schema_value :: "schema \<Rightarrow> jstr \<Rightarrow> jobj \<Rightarrow> bool" where
  "schema_value sch t v \<longleftrightarrow> (\<exists>i data. validateRow sch t i data = Inr v) \<and> jsonByteSize (JObj v) \<le> MAX_ROW_BYTES"

definition valid_write :: "schema \<Rightarrow> jstr \<Rightarrow> jstr \<Rightarrow> jobj \<Rightarrow> bool" where
  "valid_write sch t i v \<longleftrightarrow> TABLE_NAME_RE t \<and> id_ok i \<and> schema_value sch t v"

text \<open>A buffer that validates at its flush may hold anything under a valid target.\<close>

definition guarded_buffer :: "schema \<Rightarrow> WriteSet \<Rightarrow> bool" where
  "guarded_buffer sch ws \<longleftrightarrow> (\<forall>(k, w) \<in> set (ws_puts ws). TABLE_NAME_RE (w_tbl w) \<and> id_ok (w_id w) \<and>
     (ws_validateAtFlush ws \<or> schema_value sch (w_tbl w) (w_data w)))"

lemma update_mem: "x \<in> set (AList.update k v m) \<Longrightarrow> x = (k, v) \<or> x \<in> set m"
  by (induction m) (auto split: if_splits)

lemma delete_mem: "x \<in> set (AList.delete k m) \<Longrightarrow> x \<in> set m"
  by (simp add: AList.delete_eq)

lemma guarded_put: "guarded_buffer sch ws \<Longrightarrow> guarded_buffer sch (snd (tx_put ops sch st ws t i d))"
proof (cases rule: tx_put_cases [of ops sch st ws t i d])
  case (ok stored)
  assume a: "guarded_buffer sch ws"
  have "ws_validateAtFlush ws \<or> schema_value sch t stored"
    using ok(4,5) by (auto simp: schema_value_def split: if_splits)
  then show ?thesis using a ok(1-3) by (auto simp: guarded_buffer_def after_put_def dest!: update_mem)
qed simp

lemma guarded_del: "guarded_buffer sch ws \<Longrightarrow> guarded_buffer sch (snd (tx_del ops st ws t i))"
  by (cases rule: tx_del_cases [of ops st ws t i]) (auto simp: guarded_buffer_def after_del_def dest!: delete_mem)

lemma guarded_get: "guarded_buffer sch ws \<Longrightarrow> guarded_buffer sch (snd (tx_get ops st ws t i))"
  by (rule validateTarget_cases [of t i]; simp add: guarded_buffer_def tx_get_def Let_def split: option.split)

lemma guarded_run: "guarded_buffer sch ws \<Longrightarrow> guarded_buffer sch (fst (run_prog ops sch st p ws))"
proof (induction p arbitrary: ws)
  case (CallGet t i k)
  show ?case using CallGet.IH [OF rangeI guarded_get [OF CallGet.prems, of ops st t i]] by (simp add: Let_def case_prod_beta)
next
  case (CallPut t i d k)
  show ?case using CallPut.IH [OF rangeI guarded_put [OF CallPut.prems, of ops st t i d]] by (simp add: Let_def case_prod_beta)
next
  case (CallDel t i k)
  show ?case using CallDel.IH [OF rangeI guarded_del [OF CallDel.prems, of ops st t i]] by (simp add: Let_def case_prod_beta)
qed simp_all

lemma guarded_new: "guarded_buffer sch (new_WriteSet f b)"
  by (simp add: guarded_buffer_def new_WriteSet_def)

lemma guarded_steps: "run_steps ops sch rows steps = Inr ws \<Longrightarrow> guarded_buffer sch ws"
proof -
  have "guarded_buffer sch b" if "fold_res (run_step ops sch rows) steps a = Inr b" "guarded_buffer sch a" for a b
    using that
  proof (induction steps arbitrary: a)
    case (Cons x steps)
    obtain c where c: "run_step ops sch rows x a = Inr c" "fold_res (run_step ops sch rows) steps c = Inr b"
      using Cons.prems(1) by (auto simp: bind_res_Inr_iff)
    have "guarded_buffer sch c"
      using c(1) Cons.prems(2) guarded_run [OF Cons.prems(2), of ops rows "the (mig_migrate x)"]
      by (auto simp: run_step_def split: option.splits prod.splits)
    then show ?case by (rule Cons.IH [OF c(2)])
  qed simp
  then show "run_steps ops sch rows steps = Inr ws \<Longrightarrow> guarded_buffer sch ws" using guarded_new unfolding run_steps_def by blast
qed

section \<open>Guarded stores\<close>

locale guarded_store =
  fixes ops :: "'s EngineRowStore" and sch :: schema and keeps :: "'s \<Rightarrow> bool"
  assumes keeps_put: "keeps st \<Longrightarrow> valid_write sch t i v \<Longrightarrow> keeps (rs_put ops st t i v n)"
    and keeps_del: "keeps st \<Longrightarrow> keeps (fst (rs_del ops st t i n))"
begin

lemma put_flushed:
  assumes "flush_put ops sch f n w s = Inr s'" "keeps (fst s)" "TABLE_NAME_RE (w_tbl w)" "id_ok (w_id w)"
    and "f \<or> schema_value sch (w_tbl w) (w_data w)"
  shows "keeps (fst s')"
proof -
  obtain stored where s: "flush_data sch f w = Inr stored" "fst s' = rs_put ops (fst s) (w_tbl w) (w_id w) stored n"
    using assms(1) by (auto simp: flush_put_def bind_res_Inr_iff split: prod.splits)
  have "schema_value sch (w_tbl w) stored"
    using s(1) assms(5) by (auto simp: flush_data_def schema_value_def bind_res_Inr_iff check_size_def Let_def split: if_splits)
  then show ?thesis unfolding s(2) using keeps_put [OF assms(2)] assms(3,4) by (simp add: valid_write_def)
qed

lemma puts_flushed:
  "fold_res (flush_put ops sch f n) ws s = Inr s' \<Longrightarrow> keeps (fst s) \<Longrightarrow>
   \<forall>w \<in> set ws. TABLE_NAME_RE (w_tbl w) \<and> id_ok (w_id w) \<and> (f \<or> schema_value sch (w_tbl w) (w_data w)) \<Longrightarrow> keeps (fst s')"
proof (induction ws arbitrary: s)
  case (Cons w ws)
  obtain c where c: "flush_put ops sch f n w s = Inr c" "fold_res (flush_put ops sch f n) ws c = Inr s'"
    using Cons.prems(1) by (auto simp: bind_res_Inr_iff)
  have "keeps (fst c)" by (rule put_flushed [OF c(1)]) (use Cons.prems in auto)
  then show ?case using Cons.IH [OF c(2)] Cons.prems(3) by simp
qed simp

lemma dels_flushed: "keeps (fst s) \<Longrightarrow> keeps (fst (flush_dels ops n ds s))"
proof (induction ds arbitrary: s)
  case (Cons d ds)
  obtain st after where s: "s = (st, after)" by (cases s)
  show ?case using Cons.IH Cons.prems keeps_del [of st "t_tbl d" "t_id d" n] by (simp add: s case_prod_beta Let_def)
next
  case Nil
  then show ?case by (cases s) simp
qed

lemma flushed:
  assumes "keeps st" "guarded_buffer sch ws" "flush ops sch st ws n = Inr (st', k, ch)"
  shows "keeps st'"
proof -
  obtain s where s: "fold_res (flush_put ops sch (ws_validateAtFlush ws) n) (map snd (ws_puts ws)) (st, []) = Inr s"
      "st' = fst (flush_dels ops n (map snd (ws_dels ws)) s)"
    using assms(3) by (auto simp: flush_def bind_res_Inr_iff Let_def case_prod_beta)
  have "keeps (fst s)" by (rule puts_flushed [OF s(1)]) (use assms(1,2) in \<open>auto simp: guarded_buffer_def\<close>)
  then show ?thesis unfolding s(2) by (rule dels_flushed)
qed

end

section \<open>Both stores\<close>

text \<open>
  A typed row has an addressable key and, unless it is a tombstone, the document of a value the
  schema of its table gave back.
\<close>

definition typed_row :: "schema \<Rightarrow> StoredRow \<Rightarrow> bool" where
  "typed_row sch row \<longleftrightarrow> TABLE_NAME_RE (row_tbl row) \<and> row_id row \<noteq> [] \<and>
     (row_deleted row \<or> (\<exists>v. schema_value sch (row_tbl row) v \<and> row_data row = json_obj v))"

definition typed_rows :: "schema \<Rightarrow> sql_rows \<Rightarrow> bool" where
  "typed_rows sch rows \<longleftrightarrow> list_all (typed_row sch) rows"

definition named_rows :: "memory_rows \<Rightarrow> bool" where
  "named_rows rows \<longleftrightarrow> (\<forall>(k, row) \<in> set rows. row_id row \<noteq> [])"

interpretation sql_typed: guarded_store "SqlRowStore plan" sch "typed_rows sch" for plan sch
proof unfold_locales
  show "typed_rows sch (rs_put (SqlRowStore plan) st t i v n)" if "typed_rows sch st" "valid_write sch t i v" for st t i v n
  proof -
    let ?r = "\<lparr>row_tbl = t, row_id = i, row_data = json_obj v, row_version = n, row_deleted = False\<rparr>"
    have "typed_row sch ?r" using that(2) by (auto simp: typed_row_def valid_write_def id_ok_def)
    then show ?thesis using that(1) set_upsert [of ?r st]
      by (auto simp: SqlRowStore_def sql_put_def typed_rows_def list_all_iff)
  qed
  show "typed_rows sch (fst (rs_del (SqlRowStore plan) st t i n))" if "typed_rows sch st" for st t i n
    using that by (auto simp: SqlRowStore_def typed_rows_def sql_del_def typed_row_def list_all_iff Let_def)
qed

interpretation memory_named: guarded_store MemoryRowStore sch named_rows for sch
proof unfold_locales
  show "named_rows (rs_put MemoryRowStore st t i v n)" if "named_rows st" "valid_write sch t i v" for st t i v n
    using that by (fastforce simp: MemoryRowStore_def memory_put_def named_rows_def valid_write_def id_ok_def dest!: update_mem)
  show "named_rows (fst (rs_del MemoryRowStore st t i n))" if "named_rows st" for st t i n
    using that by (fastforce simp: MemoryRowStore_def memory_del_def named_rows_def dest!: update_mem dest: map_of_SomeD split: option.splits)
qed

section \<open>Imported rows\<close>

definition named_snapshot :: "SnapshotRow list \<Rightarrow> bool" where
  "named_snapshot rows \<longleftrightarrow> (\<forall>r \<in> set rows. sn_id r \<noteq> [])"

lemma those_all: "those xs = Some ys \<Longrightarrow> \<forall>y \<in> set ys. Some y \<in> set xs"
  by (induction xs arbitrary: ys) (auto split: option.splits)

lemma dec_snapshot_named: "dec_snapshot v = Some snap \<Longrightarrow> named_snapshot (snap_rows snap)"
proof -
  have row: "sn_id r \<noteq> []" if got: "dec_snapshot_row x = Some r" for x r
  proof -
    obtain ob where ob: "x = JObj ob" using got by (cases x) (simp_all add: dec_snapshot_row_def z_object_def)
    obtain t i where t: "z_string1 (field ob (js ''tbl'')) = Some t" "z_string1 (field ob (js ''id'')) = Some i"
      using got by (auto simp: ob dec_snapshot_row_def z_object_def bind_eq_Some_conv simp del: js_simps)
    have "sn_id r = i"
      using got t by (cases "field ob (js ''data'')") (auto simp: ob dec_snapshot_row_def z_object_def simp del: js_simps)
    moreover have "i \<noteq> []" using t(2) by (auto simp: z_string_in_def simp del: js_simps split: jval.splits if_splits)
    ultimately show ?thesis by simp
  qed
  assume "dec_snapshot v = Some snap"
  then obtain w where "z_array dec_snapshot_row w = Some (snap_rows snap)"
    by (cases v) (auto simp: dec_snapshot_def z_object_def bind_eq_Some_conv)
  then have "\<forall>r \<in> set (snap_rows snap). \<exists>x. dec_snapshot_row x = Some r"
    by (cases w) (auto simp: z_array_def dest!: those_all, metis imageE)
  then show ?thesis using row by (auto simp: named_snapshot_def)
qed

lemma migrate_snapshot_named:
  assumes "migrate_snapshot app snap = Inr rows" "named_snapshot (snap_rows snap)"
  shows "named_snapshot rows"
proof -
  have stage: "named_rows (fold (\<lambda>r st. memory_put st (sn_tbl r) (sn_id r) (sn_data r) 0) xs st)"
    if "named_snapshot xs" "named_rows st" for xs st
    using that
  proof (induction xs arbitrary: st)
    case (Cons x xs)
    have "named_rows (memory_put st (sn_tbl x) (sn_id x) (sn_data x) 0)"
      using Cons.prems by (fastforce simp: memory_put_def named_rows_def named_snapshot_def dest!: update_mem)
    then show ?case using Cons by (simp add: named_snapshot_def)
  qed simp
  obtain steps ws st' n ch where r: "run_steps MemoryRowStore (app_schema app) (stage_rows (snap_rows snap)) steps = Inr ws"
      "flush MemoryRowStore (app_schema app) (stage_rows (snap_rows snap)) ws 1 = Inr (st', n, ch)"
      "rows = map (\<lambda>(t, i, d). \<lparr>sn_tbl = t, sn_id = i, sn_data = d\<rparr>) (memory_live st')"
    using assms(1) by (auto simp: migrate_snapshot_def Let_def bind_res_Inr_iff)
  have "named_rows (stage_rows (snap_rows snap))"
    unfolding stage_rows_def by (rule stage [OF assms(2)]) (simp add: named_rows_def)
  from memory_named.flushed [OF this guarded_steps [OF r(1)] r(2)]
  show ?thesis by (auto simp: r(3) named_snapshot_def memory_live_def named_rows_def)
qed

end
