(* ===== verification/LifecycleSpec.thy ===== *)
theory LifecycleSpec
  imports Lifecycle
begin

text \<open>
  What waking, migrating, compacting and exporting keep and establish.
\<close>

section \<open>Updates of meta\<close>

lemma do_inv_stamp:
  assumes "do_inv x cfg st"
    and "m_schemaVersion (f (do_meta st)) = m_schemaVersion (do_meta st)"
    and "m_backendId (f (do_meta st)) = m_backendId (do_meta st)"
    and "m_currentVersion (f (do_meta st)) = m_currentVersion (do_meta st)"
    and "0 \<le> m_minCursorVersion (f (do_meta st))" "m_minCursorVersion (f (do_meta st)) \<le> m_currentVersion (do_meta st)"
  shows "do_inv x cfg (stamp_meta f st)"
proof -
  note I = do_invD [OF assms(1)]
  have d: "meta_synced (update_meta f (do_db st)) (f (do_meta st))"
    using I(1) assms(2) by (rule update_meta_synced)
  have l: "log_ok (update_meta f (do_db st))" "x \<Longrightarrow> log_exact (update_meta f (do_db st))" "x \<Longrightarrow> clients_ok (update_meta f (do_db st))"
    using I(5-7) by (simp_all add: log_ok_def log_exact_def client_log_def lastMutationId_def clients_ok_def)
  have s: "snapshot_ok cfg (stamp_meta f st)"
    using I(8) assms(3,4) by (simp add: snapshot_ok_def stamp_meta_def split: option.splits prod.splits)
  have r: "rows_ok (m_currentVersion (do_meta st)) (db_rows (update_meta f (do_db st)))"
    using I(2) by simp
  show ?thesis
    unfolding do_inv_def using d l s r assms(4-6) by (simp add: stamp_meta_def)
qed

lemma do_inv_emit: "do_inv x cfg st \<Longrightarrow> do_inv x cfg (emit e st)"
  by (rule do_inv_step [OF step_emit])

lemma emit_fields [simp]:
  "do_db (emit e st) = do_db st" "do_meta (emit e st) = do_meta st" "do_snapshot (emit e st) = do_snapshot st"
  "do_sockets (emit e st) = do_sockets st"
  by (simp_all add: emit_def)

section \<open>Compaction\<close>

lemma sql_inv_drop: "sql_inv rows \<Longrightarrow> sql_inv (drop_tombstones cutoff rows)"
  unfolding sql_inv_def drop_tombstones_def by (auto simp: list_all_iff distinct_map_filter)

lemma rows_ok_drop: "rows_ok v rows \<Longrightarrow> rows_ok v (drop_tombstones cutoff rows)"
  unfolding rows_ok_def by (auto simp: sql_inv_drop) (auto simp: drop_tombstones_def list_all_iff)

lemma snapshot_ops_drop: "snapshot_ops (drop_tombstones cutoff rows) = snapshot_ops rows"
proof -
  have "filter (\<lambda>row. \<not> row_deleted row) (drop_tombstones cutoff rows) = filter (\<lambda>row. \<not> row_deleted row) rows"
    by (simp add: drop_tombstones_def) (metis (mono_tags, lifting))
  then show ?thesis by (simp add: snapshot_ops_def live_rows_def)
qed

lemma compact_spec:
  assumes "do_inv x cfg st"
  shows "do_inv x cfg (compact cfg st)"
    and "server_table (db_rows (do_db (compact cfg st))) = server_table (db_rows (do_db st))"
    and "m_currentVersion (do_meta (compact cfg st)) = m_currentVersion (do_meta st)"
    and "m_backendId (do_meta (compact cfg st)) = m_backendId (do_meta st)"
    and "in_sync v (db_rows (do_db st)) tab \<Longrightarrow> m_minCursorVersion (do_meta (compact cfg st)) \<le> v \<Longrightarrow>
      in_sync v (db_rows (do_db (compact cfg st))) tab"
    and "m_minCursorVersion (do_meta st) \<le> m_minCursorVersion (do_meta (compact cfg st))"
proof -
  note I = do_invD [OF assms]
  define cutoff where "cutoff = m_currentVersion (do_meta st) - or_default (cf_retention cfg) DEFAULT_TOMBSTONE_RETENTION"
  define rows where "rows = db_rows (do_db st)"
  define dead where "dead = filter (\<lambda>row. row_deleted row \<and> row_version row \<le> cutoff) rows"
  define newMin where "newMin = max (m_minCursorVersion (do_meta st)) (Max (set (map row_version dead)))"
  define st1 where "st1 = st\<lparr>do_db := (do_db st)\<lparr>db_rows := drop_tombstones cutoff rows\<rparr>\<rparr>"
  have c: "compact cfg st = (if cutoff \<le> 0 \<or> dead = [] then st else stamp_meta (\<lambda>m. m\<lparr>m_minCursorVersion := newMin\<rparr>) st1)"
    by (simp only: compact_def Let_def cutoff_def dead_def rows_def newMin_def st1_def)
  have old: "row_version row \<le> m_currentVersion (do_meta st)" if "row \<in> set rows" for row
    using I(2) that by (auto simp: rows_ok_def list_all_iff rows_def)
  have dead_le: "row_version row \<le> newMin" if "row \<in> set dead" for row
  proof -
    have "row_version row \<le> Max (set (map row_version dead))" using that by (intro Max_ge) auto
    then show ?thesis by (simp add: newMin_def)
  qed
  have new: "newMin \<le> m_currentVersion (do_meta st)" if "dead \<noteq> []"
  proof -
    have "Max (set (map row_version dead)) \<in> set (map row_version dead)"
      using that by (intro Max_in) simp_all
    then have "Max (set (map row_version dead)) \<le> m_currentVersion (do_meta st)"
      using old by (auto simp: dead_def)
    then show ?thesis using I(4) by (simp add: newMin_def)
  qed
  have st1: "do_inv x cfg st1"
  proof -
    have "snapshot_ok cfg st1"
      using I(8) by (simp add: snapshot_ok_def st1_def rows_def snapshot_ops_drop split: option.splits prod.splits)
    then show ?thesis
      using I rows_ok_drop [OF I(2), of cutoff]
      by (simp add: do_inv_def st1_def rows_def meta_synced_def log_ok_def log_exact_def client_log_def lastMutationId_def clients_ok_def)
  qed
  show "do_inv x cfg (compact cfg st)"
  proof (cases "cutoff \<le> 0 \<or> dead = []")
    case False
    then have "newMin \<le> m_currentVersion (do_meta st)" using new by blast
    then have "do_inv x cfg (stamp_meta (\<lambda>m. m\<lparr>m_minCursorVersion := newMin\<rparr>) st1)"
      using I(3) by (intro do_inv_stamp [OF st1]) (simp_all add: st1_def newMin_def)
    with False show ?thesis by (simp add: c)
  qed (simp add: c assms)
  have sq: "sql_inv rows" using I(2) by (simp add: rows_def)
  show "server_table (db_rows (do_db (compact cfg st))) = server_table (db_rows (do_db st))"
    using server_table_drop [OF sq, of cutoff] by (simp add: c stamp_meta_def st1_def rows_def)
  show "m_currentVersion (do_meta (compact cfg st)) = m_currentVersion (do_meta st)"
    "m_backendId (do_meta (compact cfg st)) = m_backendId (do_meta st)"
    "m_minCursorVersion (do_meta st) \<le> m_minCursorVersion (do_meta (compact cfg st))"
    by (simp_all add: c stamp_meta_def st1_def newMin_def)
  show "in_sync v (db_rows (do_db (compact cfg st))) tab"
    if "in_sync v (db_rows (do_db st)) tab" "m_minCursorVersion (do_meta (compact cfg st)) \<le> v"
  proof (cases "cutoff \<le> 0 \<or> dead = []")
    case True
    with that show ?thesis by (simp add: c)
  next
    case False
    then have "newMin \<le> v" using that(2) by (simp add: c stamp_meta_def)
    have "in_sync v (drop_tombstones cutoff rows) tab"
    proof (rule in_sync_drop [OF _ sq])
      show "in_sync v rows tab" using that(1) by (simp add: rows_def)
      fix row assume "row \<in> set rows" "row_deleted row" "row_version row \<le> cutoff"
      then have "row \<in> set dead" by (simp add: dead_def)
      from dead_le [OF this] \<open>newMin \<le> v\<close> show "row_version row \<le> v" by simp
    qed
    with False show ?thesis by (simp add: c stamp_meta_def st1_def)
  qed
qed

section \<open>Schema migration\<close>

lemma log_exact_system:
  assumes "log_exact d" "db_log d' = db_log d @ [e]" "lg_mutation e = 0" "db_clients d' = db_clients d"
  shows "log_exact d'"
  using assms by (simp add: log_exact_def client_log_def lastMutationId_def)

lemma run_steps_ok: "run_steps ops sch rows steps = Inr ws \<Longrightarrow> ws_inv ops rows ws"
  unfolding run_steps_def
proof (erule fold_res_invariant)
  fix step u v assume "ws_inv ops rows u" "run_step ops sch rows step u = Inr v"
  then show "ws_inv ops rows v"
    using run_prog_inv [of ops rows u sch]
    by (auto simp: run_step_def split: option.splits prod.splits) (metis fst_conv)
qed (rule ws_inv_new)

text \<open>What a successful migration leaves.\<close>

definition migrated :: "'x Config \<Rightarrow> 'x WorkspaceDO \<Rightarrow> 'x WorkspaceDO \<Rightarrow> bool" where
  "migrated cfg st st' \<longleftrightarrow>
     m_schemaVersion (do_meta st') = app_version (cf_app cfg) \<and> m_schemaHash (do_meta st') = cf_fingerprint cfg \<and>
     m_presenceHash (do_meta st') = cf_presenceHash cfg \<and> m_backendId (do_meta st') = m_backendId (do_meta st) \<and>
     (if m_currentVersion (do_meta st') = m_currentVersion (do_meta st)
      then db_rows (do_db st') = db_rows (do_db st) \<and> m_minCursorVersion (do_meta st') = m_minCursorVersion (do_meta st)
      else m_currentVersion (do_meta st') = m_currentVersion (do_meta st) + 1 \<and>
           m_minCursorVersion (do_meta st') = m_currentVersion (do_meta st) + 1)"

lemma migrateAppSchema_spec:
  assumes inv: "do_inv x cfg st" and sn: "do_snapshot st = None" and m: "migrateAppSchema cfg ev st = Inr st'"
  shows "do_inv x cfg st' \<and> migrated cfg st st' \<and> same_shell st (st'\<lparr>do_meta := do_meta st\<rparr>) \<and> do_snapshot st' = None \<and>
    at_level k (do_db st') = at_level k (do_db st)"
proof -
  note I = do_invD [OF inv]
  let ?mt = "do_meta st" and ?d = "do_db st" and ?app = "cf_app cfg"
  let ?v = "m_currentVersion ?mt" and ?ops = "SqlRowStore (cf_plan cfg)"
  obtain steps ws rows n ch where steps: "migrationPath ?app (m_schemaVersion ?mt) = Inr steps"
      and ws: "run_steps ?ops (app_schema ?app) (db_rows ?d) steps = Inr ws"
      and f: "flush ?ops (app_schema ?app) (db_rows ?d) ws (?v + 1) = Inr (rows, n, ch)"
    using m by (auto simp: migrateAppSchema_def Let_def bind_res_Inr_iff)
  define bump where "bump = (\<lambda>mt :: Meta. if 0 < n then mt\<lparr>m_currentVersion := ?v + 1, m_minCursorVersion := ?v + 1\<rparr> else mt)"
  define hashes where "hashes = (\<lambda>mt :: Meta. mt\<lparr>m_schemaHash := cf_fingerprint cfg, m_presenceHash := cf_presenceHash cfg\<rparr>)"
  define d1 where "d1 = update_meta hashes (set_schema_version (app_version ?app) (update_meta bump (?d\<lparr>db_rows := rows\<rparr>)))"
  define d2 where "d2 = append_log (if 0 < n then Some (?v + 1) else None) (js ''$system'') 0 (js ''$schema.migrate'')
                     (migrate_args (m_schemaVersion ?mt) (app_version ?app)) None (ev_iso ev) d1"
  define mt where "mt = bump (hashes (?mt\<lparr>m_schemaVersion := app_version ?app\<rparr>))"
  have st': "st' = st\<lparr>do_db := d2, do_meta := mt\<rparr>"
    using m by (simp add: migrateAppSchema_def Let_def steps ws f d2_def d1_def mt_def bump_def hashes_def)
  have winv: "ws_inv ?ops (db_rows ?d) ws" by (rule run_steps_ok [OF ws])
  have step: "rows_step (?v + 1) (db_rows ?d) rows \<and> (names_ok (db_rows ?d) \<longrightarrow> names_ok rows)"
    using flush_step [OF f] winv by (simp add: ws_inv_def)
  have sq: "sql_inv rows"
    by (rule sql.flush_spec [OF _ winv f]) (use I(2) in simp_all)
  have cnt: "if n = 0 then rows = db_rows ?d else at_version (?v + 1) rows" by (rule flush_count [OF f])
  have mt_eq: "mt = hashes (bump (?mt\<lparr>m_schemaVersion := app_version ?app\<rparr>))"
    by (simp add: mt_def bump_def hashes_def)
  have sync: "meta_synced d2 mt"
    using I(1) by (simp add: d2_def meta_synced_def d1_def update_meta_def set_schema_version_def mt_def bump_def hashes_def
        append_log_def)
  have rows: "db_rows d2 = rows" by (simp add: d2_def d1_def)
  have v: "m_currentVersion mt = (if n = 0 then ?v else ?v + 1)"
      "m_minCursorVersion mt = (if n = 0 then m_minCursorVersion ?mt else ?v + 1)"
      "m_backendId mt = m_backendId ?mt" "m_schemaVersion mt = app_version ?app"
      "m_schemaHash mt = cf_fingerprint cfg" "m_presenceHash mt = cf_presenceHash cfg"
    by (simp_all add: mt_def bump_def hashes_def)
  have rok: "rows_ok (m_currentVersion mt) rows"
  proof (cases "n = 0")
    case False
    have "rows_ok (?v + 1) rows"
      using rows_ok_step [OF I(2) _ sq] step rows_ok_names [OF I(2)] I(3,4) by simp
    with False show ?thesis by (simp add: v)
  qed (use cnt I(2) v in simp)
  have log: "log_ok d2"
    unfolding d2_def by (rule log_ok_append) (use I(5) in \<open>simp add: log_ok_def d1_def\<close>)
  have cl: "db_clients d2 = db_clients ?d" by (simp add: d2_def d1_def set_schema_version_def update_meta_def)
  have lg: "\<exists>e. db_log d2 = db_log ?d @ [e] \<and> lg_mutation e = 0" by (simp add: d2_def append_log_def d1_def)
  then have "x \<longrightarrow> log_exact d2" using log_exact_system [OF I(6) _ _ cl] by blast
  moreover have "x \<longrightarrow> clients_ok d2" using I(7) cl by (simp add: clients_ok_def)
  ultimately have "do_inv x cfg st'"
    using sync rok log I(3,4) v sn by (simp add: do_inv_def st' rows snapshot_ok_def)
  moreover have "migrated cfg st st'"
    using cnt v rows by (simp add: migrated_def st')
  moreover have "at_level k d2 = at_level k ?d"
    by (simp add: d2_def d1_def) (simp add: at_level_def)
  ultimately show ?thesis by (simp add: st' same_shell_def sn)
qed

section \<open>Waking up\<close>

text \<open>What storage holds between wakes.\<close>

definition stored_ok :: "bool \<Rightarrow> DB \<Rightarrow> Meta \<Rightarrow> bool" where
  "stored_ok x d mt \<longleftrightarrow> meta_synced d mt \<and> rows_ok (m_currentVersion mt) (db_rows d) \<and> 0 \<le> m_minCursorVersion mt \<and>
     m_minCursorVersion mt \<le> m_currentVersion mt \<and> log_ok d \<and> (x \<longrightarrow> log_exact d \<and> clients_ok d) \<and> 1 \<le> m_schemaVersion mt"

lemma stored_do_inv:
  "do_inv x cfg st \<Longrightarrow> 1 \<le> m_schemaVersion (do_meta st) \<Longrightarrow> stored_ok x (do_db st) (do_meta st)"
  by (simp add: stored_ok_def do_inv_def)

lemma do_inv_stored: "stored_ok x d mt \<Longrightarrow> do_db st = d \<Longrightarrow> do_meta st = mt \<Longrightarrow> do_snapshot st = None \<Longrightarrow> do_inv x cfg st"
  by (simp add: stored_ok_def do_inv_def snapshot_ok_def)

lemma stored_ok_migrate: "stored_ok x d mt \<Longrightarrow> at_level k d \<Longrightarrow> \<exists>d'. migrate d = Inr d' \<and> stored_ok x d' mt \<and>
    db_rows d' = db_rows d \<and> at_level (max k 5) d'"
  by (rule exI [of _ "if k < 5 then d\<lparr>db_tables := catalog 5, db_applied := 5\<rparr> else d"], simp add: migrate_simp)
    (auto simp: stored_ok_def meta_synced_def log_ok_def log_exact_def client_log_def lastMutationId_def clients_ok_def
      at_level_def max_def)

lemma loadOrInitMeta_stored:
  "stored_ok x d mt \<Longrightarrow> loadOrInitMeta u v h p d = Inr (mt, d)"
  by (simp add: loadOrInitMeta_def stored_ok_def meta_synced_def)

lemma restamp_presence_spec:
  assumes "do_inv x cfg st"
  shows "do_inv x cfg (restamp_presence cfg st)" "m_presenceHash (do_meta (restamp_presence cfg st)) = cf_presenceHash cfg"
    and "db_rows (do_db (restamp_presence cfg st)) = db_rows (do_db st)"
    and "\<exists>h. do_meta (restamp_presence cfg st) = (do_meta st)\<lparr>m_presenceHash := h\<rparr>"
    and "at_level k (do_db (restamp_presence cfg st)) = at_level k (do_db st)"
proof -
  note I = do_invD [OF assms]
  have "do_inv x cfg (stamp_meta (\<lambda>m. m\<lparr>m_presenceHash := h\<rparr>) s)" if "do_inv x cfg s" for h s
    using do_invD [OF that] by (intro do_inv_stamp [OF that]) simp_all
  then show "do_inv x cfg (restamp_presence cfg st)"
    using assms do_inv_emit [OF assms] by (simp add: restamp_presence_def)
  show "m_presenceHash (do_meta (restamp_presence cfg st)) = cf_presenceHash cfg"
    "db_rows (do_db (restamp_presence cfg st)) = db_rows (do_db st)"
    "at_level k (do_db (restamp_presence cfg st)) = at_level k (do_db st)"
    by (simp_all add: restamp_presence_def stamp_meta_def)
  show "\<exists>h. do_meta (restamp_presence cfg st) = (do_meta st)\<lparr>m_presenceHash := h\<rparr>"
    by (rule exI [of _ "cf_presenceHash cfg"]) (auto simp: restamp_presence_def stamp_meta_def)
qed

lemma restamp_schema_spec:
  assumes "do_inv x cfg st"
  shows "do_inv x cfg (restamp_schema cfg st)" "m_schemaHash (do_meta (restamp_schema cfg st)) = cf_fingerprint cfg"
    and "db_rows (do_db (restamp_schema cfg st)) = db_rows (do_db st)"
    and "\<exists>h. do_meta (restamp_schema cfg st) = (do_meta st)\<lparr>m_schemaHash := h\<rparr>"
    and "at_level k (do_db (restamp_schema cfg st)) = at_level k (do_db st)"
proof -
  note I = do_invD [OF assms]
  have "do_inv x cfg (stamp_meta (\<lambda>m. m\<lparr>m_schemaHash := h\<rparr>) s)" if "do_inv x cfg s" for h s
    using do_invD [OF that] by (intro do_inv_stamp [OF that]) simp_all
  then show "do_inv x cfg (restamp_schema cfg st)"
    using assms do_inv_emit [OF assms] by (simp add: restamp_schema_def)
  show "m_schemaHash (do_meta (restamp_schema cfg st)) = cf_fingerprint cfg"
    "db_rows (do_db (restamp_schema cfg st)) = db_rows (do_db st)"
    "at_level k (do_db (restamp_schema cfg st)) = at_level k (do_db st)"
    by (simp_all add: restamp_schema_def stamp_meta_def)
  show "\<exists>h. do_meta (restamp_schema cfg st) = (do_meta st)\<lparr>m_schemaHash := h\<rparr>"
    by (rule exI [of _ "cf_fingerprint cfg"]) (auto simp: restamp_schema_def stamp_meta_def)
qed

lemma initExtension_fields [simp]:
  "do_db (initExtension cfg st) = do_db st" "do_meta (initExtension cfg st) = do_meta st"
  "do_initError (initExtension cfg st) = do_initError st" "do_sockets (initExtension cfg st) = do_sockets st"
  "do_snapshot (initExtension cfg st) = do_snapshot st" "do_presence (initExtension cfg st) = do_presence st"
  "do_next (initExtension cfg st) = do_next st"
  by (simp_all add: initExtension_def split: option.split)

lemma setAlarm_fields [simp]:
  "do_db (setAlarm cfg ev st) = do_db st" "do_meta (setAlarm cfg ev st) = do_meta st"
  "do_initError (setAlarm cfg ev st) = do_initError st" "do_sockets (setAlarm cfg ev st) = do_sockets st"
  "do_snapshot (setAlarm cfg ev st) = do_snapshot st" "do_presence (setAlarm cfg ev st) = do_presence st"
  "do_next (setAlarm cfg ev st) = do_next st"
  by (simp_all add: setAlarm_def)

lemma do_inv_fields:
  "do_inv x cfg st \<Longrightarrow> do_db st' = do_db st \<Longrightarrow> do_meta st' = do_meta st \<Longrightarrow> do_snapshot st' = do_snapshot st \<Longrightarrow> do_inv x cfg st'"
  by (simp add: do_inv_def snapshot_ok_def split: option.splits prod.splits)

lemma restamp_error [simp]:
  "do_initError (restamp_presence cfg st) = do_initError st" "do_initError (restamp_schema cfg st) = do_initError st"
  "do_snapshot (restamp_presence cfg st) = do_snapshot st" "do_sockets (restamp_presence cfg st) = do_sockets st"
  "do_sockets (restamp_schema cfg st) = do_sockets st" "do_snapshot (restamp_schema cfg st) = do_snapshot st"
  by (simp_all add: restamp_presence_def restamp_schema_def stamp_meta_def emit_def)

text \<open>
  How initialization of a healthy store ends: up to date, with the rows untouched unless a
  migration rewrote them at a new version that no older cursor may catch up from; or failed,
  which only a migration can be the cause of, with the rows untouched.
\<close>

definition init_outcome :: "bool \<Rightarrow> 'x Config \<Rightarrow> DB \<Rightarrow> Meta \<Rightarrow> 'x WorkspaceDO \<Rightarrow> err option \<Rightarrow> bool" where
  "init_outcome x cfg d mt st' e =
    (case e of
      Some e \<Rightarrow> m_schemaVersion mt \<noteq> app_version (cf_app cfg) \<and> db_rows (do_db st') = db_rows d \<and> stored_ok x (do_db st') mt
    | None \<Rightarrow> do_inv x cfg st' \<and> m_schemaVersion (do_meta st') = app_version (cf_app cfg) \<and>
        m_schemaHash (do_meta st') = cf_fingerprint cfg \<and> m_presenceHash (do_meta st') = cf_presenceHash cfg \<and>
        m_backendId (do_meta st') = m_backendId mt \<and>
        (if m_currentVersion (do_meta st') = m_currentVersion mt
         then db_rows (do_db st') = db_rows d \<and> m_minCursorVersion (do_meta st') = m_minCursorVersion mt
         else m_schemaVersion mt \<noteq> app_version (cf_app cfg) \<and>
              m_currentVersion (do_meta st') = m_currentVersion mt + 1 \<and> m_minCursorVersion (do_meta st') = m_currentVersion mt + 1))"

lemma initialize_spec:
  assumes ok: "stored_ok x (do_db st) mt" and lv: "at_level k (do_db st)" and sn: "do_snapshot st = None"
    and i: "initialize cfg ev st = (st', e)"
  shows "init_outcome x cfg (do_db st) mt st' e"
    and "at_level (max k 5) (do_db st')"
proof -
  obtain d where d: "migrate (do_db st) = Inr d" "stored_ok x d mt" "db_rows d = db_rows (do_db st)" "at_level (max k 5) d"
    using stored_ok_migrate [OF ok lv] by blast
  define st1 where "st1 = st\<lparr>do_db := d, do_meta := mt\<rparr>"
  have I: "do_inv x cfg st1" by (rule do_inv_stored [OF d(2)]) (simp_all add: st1_def sn)
  define r where "r = (if m_schemaVersion mt \<noteq> app_version (cf_app cfg) then migrateAppSchema cfg ev st1
                      else Inr (restamp_presence cfg st1))"
  have i': "(case r of Inl e \<Rightarrow> (st1, Some e)
      | Inr s \<Rightarrow> let s' = initExtension cfg (restamp_schema cfg s)
                in (if do_alarm s' = None then setAlarm cfg ev s' else s', None)) = (st', e)"
    using i unfolding initialize_def d(1) sum.case loadOrInitMeta_stored [OF d(2)] prod.case Let_def st1_def r_def .
  have "init_outcome x cfg (do_db st) mt st' e
    \<and> at_level (max k 5) (do_db st')"
  proof (cases r)
    case (Inl er)
    then have "m_schemaVersion mt \<noteq> app_version (cf_app cfg)" by (simp add: r_def split: if_splits)
    with Inl i' d show ?thesis by (auto simp: st1_def init_outcome_def)
  next
    case (Inr s)
    define s1 where "s1 = restamp_schema cfg s"
    have st': "e = None" "do_db st' = do_db s1" "do_meta st' = do_meta s1" "do_snapshot st' = do_snapshot s1"
      using i' Inr by (auto simp: Let_def s1_def split: if_splits)
    have S: "do_inv x cfg s \<and> m_schemaVersion (do_meta s) = app_version (cf_app cfg) \<and>
        m_presenceHash (do_meta s) = cf_presenceHash cfg \<and> m_backendId (do_meta s) = m_backendId mt \<and>
        (if m_currentVersion (do_meta s) = m_currentVersion mt
         then db_rows (do_db s) = db_rows d \<and> m_minCursorVersion (do_meta s) = m_minCursorVersion mt
         else m_schemaVersion mt \<noteq> app_version (cf_app cfg) \<and>
              m_currentVersion (do_meta s) = m_currentVersion mt + 1 \<and> m_minCursorVersion (do_meta s) = m_currentVersion mt + 1) \<and>
        at_level (max k 5) (do_db s)"
    proof (cases "m_schemaVersion mt = app_version (cf_app cfg)")
      case True
      then have s: "s = restamp_presence cfg st1" using Inr by (simp add: r_def)
      show ?thesis
        using restamp_presence_spec [OF I] True d(4) unfolding s by (auto simp: st1_def)
    next
      case False
      then have "migrateAppSchema cfg ev st1 = Inr s" using Inr by (simp add: r_def)
      from migrateAppSchema_spec [OF I _ this] show ?thesis
        using d(4) False sn by (auto simp: st1_def migrated_def split: if_splits)
    qed
    have T: "do_inv x cfg s1" "m_schemaHash (do_meta s1) = cf_fingerprint cfg" "db_rows (do_db s1) = db_rows (do_db s)"
        "at_level (max k 5) (do_db s1)"
      using restamp_schema_spec [of x cfg s] S by (simp_all add: s1_def)
    obtain h where h: "do_meta s1 = (do_meta s)\<lparr>m_schemaHash := h\<rparr>"
      using restamp_schema_spec(4) [of x cfg s] S by (auto simp: s1_def)
    have "do_inv x cfg st'" by (rule do_inv_fields [OF T(1) st'(2-4)])
    then show ?thesis using S T h d(3) by (simp add: st' init_outcome_def)
  qed
  then show "init_outcome x cfg (do_db st) mt st' e"
    and "at_level (max k 5) (do_db st')" by blast+
qed

lemma initialize_error: "initialize cfg ev st = (st', e) \<Longrightarrow> do_initError st' = do_initError st"
proof -
  assume i: "initialize cfg ev st = (st', e)"
  have m: "do_initError s' = do_initError s" if "migrateAppSchema cfg ev s = Inr s'" for s s'
    using that by (auto simp: migrateAppSchema_def Let_def bind_res_Inr_iff)
  from m show ?thesis
    using i by (auto simp: initialize_def Let_def dest!: m split: sum.splits if_splits)
qed

lemma wake_init:
  "\<exists>s. same_core (st\<lparr>do_initError := None, do_snapshot := None, do_meta := blank_meta\<rparr>) s \<and>
     wake cfg ev st = (case initialize cfg ev s of (s', None) \<Rightarrow> s'
      | (s', Some e) \<Rightarrow> emit (Logged ''workspace initialization failed'') (s'\<lparr>do_initError := Some e\<rparr>))"
proof -
  define st1 where "st1 = st\<lparr>do_initError := None, do_presence := [], do_snapshot := None, do_counters := zero_counters ev,
    do_meta := blank_meta\<rparr>"
  define st2 where "st2 = (if app_presence (cf_app cfg) = None then st1
                else deliver_all cfg ev (readySockets st1) [presence_poll] st1)"
  have "same_core (st\<lparr>do_initError := None, do_snapshot := None, do_meta := blank_meta\<rparr>) st1"
    by (simp add: same_core_def st1_def)
  moreover have "same_core st1 st2"
    by (simp add: st2_def same_core_socket_step [OF step_deliver_all])
  ultimately have "same_core (st\<lparr>do_initError := None, do_snapshot := None, do_meta := blank_meta\<rparr>) st2"
    by (rule same_core_trans)
  moreover have "wake cfg ev st = (case initialize cfg ev st2 of (s', None) \<Rightarrow> s'
      | (s', Some e) \<Rightarrow> emit (Logged ''workspace initialization failed'') (s'\<lparr>do_initError := Some e\<rparr>))"
    by (simp only: wake_def Let_def st1_def st2_def)
  ultimately show ?thesis by blast
qed

lemma wake_outcome:
  assumes "stored_ok x (do_db st) mt" "at_level k (do_db st)"
  shows "init_outcome x cfg (do_db st) mt (wake cfg ev st) (do_initError (wake cfg ev st))"
    and "at_level (max k 5) (do_db (wake cfg ev st))"
proof -
  obtain s where "same_core (st\<lparr>do_initError := None, do_snapshot := None, do_meta := blank_meta\<rparr>) s"
    and w: "wake cfg ev st = (case initialize cfg ev s of (s', None) \<Rightarrow> s'
      | (s', Some e) \<Rightarrow> emit (Logged ''workspace initialization failed'') (s'\<lparr>do_initError := Some e\<rparr>))"
    using wake_init by blast
  then have core: "do_db s = do_db st" "do_snapshot s = None" "do_initError s = None"
    by (simp_all add: same_core_def)
  obtain st3 e where i: "initialize cfg ev s = (st3, e)" by fastforce
  have err: "do_initError st3 = None" using initialize_error [OF i] core by simp
  have o: "init_outcome x cfg (do_db st) mt st3 e" "at_level (max k 5) (do_db st3)"
    using initialize_spec [OF _ _ core(2) i, of x mt k] assms unfolding core(1) by blast+
  show "init_outcome x cfg (do_db st) mt (wake cfg ev st) (do_initError (wake cfg ev st))"
    using o(1) err unfolding w i by (cases e) (simp_all add: init_outcome_def emit_def)
  show "at_level (max k 5) (do_db (wake cfg ev st))"
    using o(2) unfolding w i by (cases e) simp_all
qed

text \<open>
  C12: A workspace wakes correctly from any healthy store at any storage level. Either it is up to
  date: the storage catalog is current, the app version and fingerprints are stamped, the history
  (backend id) is kept, and rows and versions are untouched unless a schema migration rewrote
  rows, which then is a new version that no older cursor may catch up from. Or initialization
  failed, which only a missing or failing schema migration can cause, and no row changed.
\<close>

theorem wake_recovers:
  assumes "stored_ok x (do_db st) mt" "at_level k (do_db st)"
  shows "init_outcome x cfg (do_db st) mt (wake cfg ev st) (do_initError (wake cfg ev st)) \<and>
    at_level (max k 5) (do_db (wake cfg ev st))"
  using wake_outcome [OF assms] by blast

lemma demo_stored: "stored_ok True (do_db demo_do) demo_meta"
  using stored_do_inv [OF demo_do_inv] by (simp add: demo_do_def demo_meta_def)

theorem wake_recovers_witness:
  "init_outcome True demo_cfg (do_db demo_do) demo_meta (wake demo_cfg demo_env demo_do)
     (do_initError (wake demo_cfg demo_env demo_do))"
  by (rule wake_recovers [OF demo_stored, of 5, THEN conjunct1]) (simp add: at_level_def demo_do_def demo_db_def)

section \<open>Log export\<close>

definition pending :: "'x WorkspaceDO \<Rightarrow> LogEntry list" where
  "pending st = filter (\<lambda>e. m_lastExportedSeq (do_meta st) < lg_seq e) (db_log (do_db st))"

lemma log_ok_sorted: "log_ok d \<Longrightarrow> sorted_wrt (<) (map lg_seq (db_log d))"
  by (simp add: log_ok_def)

lemma filter_drop:
  "sorted_wrt (<) (map f xs) \<Longrightarrow> 0 < k \<Longrightarrow> xs \<noteq> [] \<Longrightarrow>
     filter (\<lambda>e. (f (last (take k xs)) :: int) < f e) xs = drop k xs"
proof (induction xs arbitrary: k)
  case (Cons x xs)
  then obtain k' where k: "k = Suc k'" by (cases k) auto
  show ?case
  proof (cases "k' = 0 \<or> xs = []")
    case True
    then have "last (take k (x # xs)) = x" by (auto simp: k)
    moreover have "filter (\<lambda>e. f x < f e) xs = xs" using Cons.prems(1) by simp
    moreover have "drop k' xs = xs" using True by auto
    ultimately show ?thesis by (simp add: k)
  next
    case False
    then have "last (take k (x # xs)) = last (take k' xs)" "last (take k' xs) \<in> set xs"
      using False in_set_takeD [OF last_in_set, of k' xs] by (auto simp: k)
    moreover have "filter (\<lambda>e. f (last (take k' xs)) < f e) (x # xs) = filter (\<lambda>e. f (last (take k' xs)) < f e) xs"
    proof -
      have "f x < f (last (take k' xs))" using Cons.prems(1) calculation(2) by simp
      then have "\<not> f (last (take k' xs)) < f x" by (rule less_not_sym)
      then show ?thesis by (simp only: filter.simps if_False)
    qed
    moreover have "filter (\<lambda>e. f (last (take k' xs)) < f e) xs = drop k' xs"
      using Cons.IH [of k'] Cons.prems False by simp
    ultimately show ?thesis by (simp only: k drop_Suc_Cons)
  qed
qed simp

lemma export_step:
  assumes "sorted_wrt (<) (map lg_seq (db_log (do_db st)))" "0 < k" "pending st \<noteq> []"
  shows "pending (stamp_meta (\<lambda>m. m\<lparr>m_lastExportedSeq := lg_seq (last (take k (pending st)))\<rparr>) (emit e st)) = drop k (pending st)"
proof -
  have s: "sorted_wrt (<) (map lg_seq (pending st))"
    unfolding pending_def using assms(1) by (simp add: sorted_wrt_map sorted_wrt_filter)
  have "last (take k (pending st)) \<in> set (pending st)"
    using assms(2,3) in_set_takeD [OF last_in_set, of k "pending st"] by simp
  then have less: "m_lastExportedSeq (do_meta st) < lg_seq (last (take k (pending st)))"
    by (simp add: pending_def)
  have "pending (stamp_meta (\<lambda>m. m\<lparr>m_lastExportedSeq := lg_seq (last (take k (pending st)))\<rparr>) (emit e st)) =
      filter (\<lambda>e. lg_seq (last (take k (pending st))) < lg_seq e) (pending st)"
  proof -
    let ?n = "lg_seq (last (take k (pending st)))"
    have "pending (stamp_meta (\<lambda>m. m\<lparr>m_lastExportedSeq := ?n\<rparr>) (emit e st)) = filter (\<lambda>e. ?n < lg_seq e) (db_log (do_db st))"
      by (subst pending_def) (simp add: stamp_meta_def)
    also have "\<dots> = filter (\<lambda>e. ?n < lg_seq e) (pending st)"
    proof -
      have "filter (\<lambda>e. ?n < lg_seq e) (pending st) =
          filter (\<lambda>e. m_lastExportedSeq (do_meta st) < lg_seq e \<and> ?n < lg_seq e) (db_log (do_db st))"
        by (subst (2) pending_def) (simp only: filter_filter)
      also have "\<dots> = filter (\<lambda>e. ?n < lg_seq e) (db_log (do_db st))"
        using less by (intro filter_cong) auto
      finally show ?thesis ..
    qed
    finally show ?thesis .
  qed
  also have "\<dots> = drop k (pending st)" by (rule filter_drop [OF s assms(2,3)])
  finally show ?thesis .
qed

definition exported :: "jstr \<Rightarrow> jstr \<Rightarrow> LogEntry list \<Rightarrow> Effect" where
  "exported prefix workspace b = Exported (export_key prefix workspace (lg_seq (hd b)) (lg_seq (last b))) b"

lemma export_loop_spec:
  assumes "sorted_wrt (<) (map lg_seq (db_log (do_db st)))" "export_loop ev k prefix workspace i n st = (st', e)"
  shows "\<exists>bs. do_out st' = do_out st @ map (exported prefix workspace) bs \<and> pending st = concat bs @ pending st' \<and>
    list_all (\<lambda>b. b \<noteq> [] \<and> length b \<le> k) bs \<and> length bs \<le> n \<and>
    (e = None \<and> length bs < n \<and> 0 < k \<longrightarrow> pending st' = []) \<and>
    db_log (do_db st') = db_log (do_db st)"
  using assms
proof (induction n arbitrary: i st)
  case 0
  then show ?case by (intro exI [of _ "[]"]) simp
next
  case (Suc n)
  have srt: "sort_key lg_seq (pending st) = pending st"
  proof (rule sort_key_id_if_sorted)
    have "sorted_wrt (\<lambda>x y. lg_seq x < lg_seq y) (pending st)"
      using Suc.prems(1) unfolding pending_def by (simp add: sorted_wrt_map sorted_wrt_filter)
    then have "sorted_wrt (\<lambda>x y. lg_seq x \<le> lg_seq y) (pending st)"
      by (rule sorted_wrt_mono_rel [rotated]) simp
    then show "sorted (map lg_seq (pending st))" by (simp add: sorted_wrt_map)
  qed
  show ?case
  proof (cases "take k (pending st) = []")
    case True
    then have "st' = st" "e = None" using Suc.prems(2) srt by (simp_all add: pending_def [symmetric] Let_def)
    with True show ?thesis by (intro exI [of _ "[]"]) auto
  next
    case False
    let ?b = "take k (pending st)"
    let ?st = "stamp_meta (\<lambda>m. m\<lparr>m_lastExportedSeq := lg_seq (last ?b)\<rparr>) (emit (exported prefix workspace ?b) st)"
    have k: "0 < k" "pending st \<noteq> []" using False by auto
    show ?thesis
    proof (cases "ev_putOk ev i")
      case False
      then have "st' = st" "e \<noteq> None"
        using Suc.prems(2) srt \<open>?b \<noteq> []\<close> by (auto simp: pending_def [symmetric] Let_def)
      then show ?thesis by (intro exI [of _ "[]"]) auto
    next
      case True
      have p: "pending ?st = drop k (pending st)" by (rule export_step [OF Suc.prems(1) k])
      have o: "do_out ?st = do_out st @ [exported prefix workspace ?b]" "db_log (do_db ?st) = db_log (do_db st)"
        by (simp_all add: stamp_meta_def emit_def)
      have r: "(if length ?b < k then (?st, None) else export_loop ev k prefix workspace (Suc i) n ?st) = (st', e)"
        using Suc.prems(2) srt \<open>?b \<noteq> []\<close> True
        unfolding export_loop.simps pending_def [symmetric] Let_def exported_def by (simp only: if_False not_True_eq_False if_not_P)
      show ?thesis
      proof (cases "length ?b < k")
        case True
        then have "st' = ?st" "drop k (pending st) = []" using r unfolding if_P [OF True] by simp_all
        with p o True \<open>?b \<noteq> []\<close> show ?thesis by (intro exI [of _ "[?b]"]) auto
      next
        case False
        then have r': "export_loop ev k prefix workspace (Suc i) n ?st = (st', e)" using r by simp
        have "sorted_wrt (<) (map lg_seq (db_log (do_db ?st)))" using Suc.prems(1) o(2) by simp
        from Suc.IH [OF this r'] obtain bs where bs: "do_out st' = do_out ?st @ map (exported prefix workspace) bs"
            "pending ?st = concat bs @ pending st'" "list_all (\<lambda>b. b \<noteq> [] \<and> length b \<le> k) bs" "length bs \<le> n"
            "e = None \<and> length bs < n \<and> 0 < k \<longrightarrow> pending st' = []" "db_log (do_db st') = db_log (do_db ?st)"
          by blast
        have "pending st = ?b @ concat bs @ pending st'" using bs(2) p append_take_drop_id [of k "pending st"] by simp
        with bs o \<open>?b \<noteq> []\<close> show ?thesis by (intro exI [of _ "?b # bs"]) auto
      qed
    qed
  qed
qed

text \<open>
  C29: The log export loses and repeats nothing: the objects a run writes hold, batch after batch
  and in order, exactly the entries between the old and the new export position, each object
  named by the range it holds; a failed write leaves the position before its batch, so the next
  run writes the same range again; and a run that was not cut short by the object limit or a
  failure leaves nothing pending.
\<close>

theorem export_exact:
  assumes "log_ok (do_db st)" "exportLog ev doId xp st = (st', e)"
  shows "\<exists>prefix workspace bs. do_out st' = do_out st @ map (exported prefix workspace) bs \<and>
    pending st = concat bs @ pending st' \<and>
    list_all (\<lambda>b. b \<noteq> [] \<and> length b \<le> or_default (xp_batchRows xp) DEFAULT_EXPORT_BATCH_ROWS) bs \<and>
    (e = None \<and> length bs < or_default (xp_maxObjects xp) DEFAULT_EXPORT_MAX_OBJECTS \<and>
       0 < or_default (xp_batchRows xp) DEFAULT_EXPORT_BATCH_ROWS \<longrightarrow> pending st' = []) \<and>
    db_log (do_db st') = db_log (do_db st)"
  using export_loop_spec [OF log_ok_sorted [OF assms(1)] assms(2) [unfolded exportLog_def]] by blast

theorem export_exact_witness:
  "\<exists>st' e bs prefix workspace. exportLog demo_env [] \<lparr>xp_batchRows = Some 2, xp_maxObjects = None, xp_intervalMs = None,
      xp_prefix = None\<rparr> demo_do = (st', e) \<and> pending demo_do = concat bs @ pending st' \<and>
      do_out st' = map (exported prefix workspace) bs"
proof -
  let ?xp = "\<lparr>xp_batchRows = Some 2, xp_maxObjects = None, xp_intervalMs = None, xp_prefix = None\<rparr>"
  obtain st' e where r: "exportLog demo_env [] ?xp demo_do = (st', e)" by fastforce
  have "do_out demo_do = []" by (simp add: demo_do_def)
  with export_exact [OF do_invD(5) [OF demo_do_inv] r] r show ?thesis by auto
qed

end
