(* ===== verification/Histories.thy ===== *)
theory Histories
  imports Guards LifecycleSpec
begin

text \<open>
  Every entry point of the workspace object as one step of a history, and what all histories
  keep: storage and memory stay consistent, and a replica that applied what it was sent agrees
  with the server up to its cursor, through mutations, compaction, imports, resets, wakes and
  schema migrations.
\<close>

section \<open>Steps that only move forward\<close>

definition same_catalog :: "DB \<Rightarrow> DB \<Rightarrow> bool" where
  "same_catalog d d' \<longleftrightarrow> db_applied d' = db_applied d \<and> db_tables d' = db_tables d"

text \<open>
  What every handler but a reset does to the data: the backend stays, the version and the
  oldest accepted cursor only grow, and a replica whose cursor is still accepted afterwards
  stays in sync up to it.
\<close>

definition data_step :: "'x WorkspaceDO \<Rightarrow> 'x WorkspaceDO \<Rightarrow> bool" where
  "data_step st st' \<longleftrightarrow>
     m_backendId (do_meta st') = m_backendId (do_meta st) \<and>
     m_schemaVersion (do_meta st') = m_schemaVersion (do_meta st) \<and>
     m_minCursorVersion (do_meta st) \<le> m_minCursorVersion (do_meta st') \<and>
     m_currentVersion (do_meta st) \<le> m_currentVersion (do_meta st') \<and>
     (\<forall>v tab. m_minCursorVersion (do_meta st') \<le> v \<longrightarrow> v \<le> m_currentVersion (do_meta st) \<longrightarrow>
        in_sync v (db_rows (do_db st)) tab \<longrightarrow> in_sync v (db_rows (do_db st')) tab) \<and>
     same_catalog (do_db st) (do_db st') \<and> do_initError st' = do_initError st"

lemma data_step_refl [simp]: "data_step st st"
  by (simp add: data_step_def same_catalog_def)

lemma data_step_trans:
  assumes "data_step a b" "data_step b c"
  shows "data_step a c"
  unfolding data_step_def
proof (intro conjI allI impI)
  fix v tab
  assume v: "m_minCursorVersion (do_meta c) \<le> v" "v \<le> m_currentVersion (do_meta a)" "in_sync v (db_rows (do_db a)) tab"
  then have "in_sync v (db_rows (do_db b)) tab" "v \<le> m_currentVersion (do_meta b)"
    using assms unfolding data_step_def by (meson order_trans)+
  with v show "in_sync v (db_rows (do_db c)) tab" using assms(2) unfolding data_step_def by blast
qed (use assms in \<open>auto simp: data_step_def same_catalog_def\<close>)

lemma rows_since_le: "rows_since u rows rows' \<Longrightarrow> v \<le> u \<Longrightarrow> rows_since v rows rows'"
  unfolding rows_since_def by (meson dual_order.strict_trans2)

lemma data_step_core: "same_core st st' \<Longrightarrow> data_step st st'"
  by (simp add: data_step_def same_core_def same_catalog_def)

lemma data_step_socket: "socket_step st st' \<Longrightarrow> data_step st st'"
  by (rule data_step_core) (rule same_core_socket_step)

text \<open>A step that keeps the invariant as well.\<close>

definition good_step :: "'x Config \<Rightarrow> 'x WorkspaceDO \<Rightarrow> 'x WorkspaceDO \<Rightarrow> bool" where
  "good_step cfg st st' \<longleftrightarrow> (do_inv False cfg st \<longrightarrow> do_inv False cfg st' \<and> data_step st st')"

lemma good_step_refl [simp]: "good_step cfg st st"
  by (simp add: good_step_def)

lemma good_step_trans: "good_step cfg a b \<Longrightarrow> good_step cfg b c \<Longrightarrow> good_step cfg a c"
  unfolding good_step_def using data_step_trans by blast

section \<open>Messages\<close>

lemma commit_data:
  "db_rows (commit_mutation ev c m rows wrote r d) = rows"
  "log_ok d \<Longrightarrow> log_ok (commit_mutation ev c m rows wrote r d)"
  "meta_synced d mt \<Longrightarrow> meta_synced (commit_mutation ev c m rows wrote r d) (set_version wrote mt)"
  "same_catalog d (commit_mutation ev c m rows wrote r d)"
proof -
  show "db_rows (commit_mutation ev c m rows wrote r d) = rows"
    by (simp add: commit_mutation_def split: option.split)
  show "log_ok (commit_mutation ev c m rows wrote r d)" if "log_ok d"
    unfolding commit_mutation_def
    by (rule log_ok_append) (use that in \<open>simp add: log_ok_def split: option.split\<close>)
  show "meta_synced (commit_mutation ev c m rows wrote r d) (set_version wrote mt)" if "meta_synced d mt"
    using that by (simp add: commit_mutation_def meta_synced_def set_version_def update_meta_def split: option.split)
  show "same_catalog d (commit_mutation ev c m rows wrote r d)"
    by (simp add: same_catalog_def commit_mutation_def append_log_def set_lmid_def update_meta_def split: option.split)
qed

lemma applyMutation_data:
  assumes inv: "do_inv False cfg st" and r: "applyMutation cfg ev a m st = Inr (st', err)"
  shows "do_inv False cfg st' \<and> data_step st st'"
proof -
  let ?d = "do_db st" and ?c = "at_clientId a" and ?v = "m_currentVersion (do_meta st)"
  note I = do_invD [OF inv]
  note F = commit_data
  have v0: "0 \<le> ?v" using I(3,4) by simp
  have unwritten: "do_inv False cfg s \<and> data_step st s"
    if s: "s = st\<lparr>do_db := commit_mutation ev ?c m (db_rows ?d) None e ?d\<rparr>" for s e
  proof -
    have "meta_synced (do_db s) (do_meta s)"
      using F(3) [OF I(1), of ev ?c m "db_rows ?d" None e] by (simp add: s set_version_def)
    moreover have "snapshot_ok cfg s" using I(8) by (simp add: snapshot_ok_def s F(1) split: option.splits prod.splits)
    ultimately show ?thesis using I(2-5) F(2) [OF I(5)] F(4) [of ?d]
      by (simp add: do_inv_def data_step_def s F(1))
  qed
  show ?thesis
  proof (cases "run_mutation cfg ?v (db_rows ?d) a m")
    case (Inl e)
    then show ?thesis using r unwritten by (cases e) (auto simp: applyMutation_def Let_def)
  next
    case (Inr x)
    obtain rows wrote args changes where x: "x = (rows, wrote, args, changes)" by (cases x)
    note R = run_mutation_rows [OF Inr [unfolded x] I(2) v0]
    show ?thesis
    proof (cases wrote)
      case None
      then show ?thesis using r R unwritten by (auto simp: applyMutation_def Let_def Inr x)
    next
      case (Some v')
      have v': "v' = ?v + 1" "rows_ok (?v + 1) rows" "rows_step (?v + 1) (db_rows ?d) rows"
        using R by (simp_all add: Some)
      let ?st = "st\<lparr>do_db := commit_mutation ev ?c m rows wrote None ?d,
        do_meta := (do_meta st)\<lparr>m_currentVersion := v'\<rparr>, do_snapshot := None\<rparr>"
      have sync: "meta_synced (do_db ?st) (do_meta ?st)"
        using F(3) [OF I(1), of ev ?c m rows wrote None] by (simp add: Some set_version_def)
      have "do_inv False cfg ?st"
        using sync I(3,4) v' F(2) [OF I(5)] by (simp add: do_inv_def F(1) snapshot_ok_def)
      moreover have "data_step st ?st"
        using v' F(4) [of ?d] in_sync_since [OF _ rows_since_le [OF rows_since_step]]
        by (simp add: data_step_def F(1))
      moreover have "socket_step ?st st'"
        using r Some by (auto simp: applyMutation_def Let_def Inr x notifyCommitted_def)
      ultimately show ?thesis
        using do_inv_step data_step_trans data_step_socket by blast
    qed
  qed
qed

lemma data_step_snapshot: "data_step st (st\<lparr>do_snapshot := sn\<rparr>)"
  by (simp add: data_step_def same_catalog_def)

lemma data_step_serialize: "data_step st (serializeAttachment s a st)"
  by (rule data_step_core) simp

lemma data_step_touch: "data_step st (snd (touchClient ev c st))"
  by (simp add: touchClient_def Let_def data_step_def same_catalog_def touch_row_def)

lemma data_step_bootstrap: "data_step st (snd (bootstrapPatch cfg st))"
  by (auto simp: bootstrapPatch_def Let_def data_step_snapshot split: option.splits sum.splits if_splits)

lemma socket_step_fold: "(\<And>x s. socket_step s (f x s)) \<Longrightarrow> socket_step s (fold f xs s)"
  by (induction xs arbitrary: s) (auto intro: socket_step_trans)

lemma step_run_calls: "socket_step st (run_calls cfg ev calls st)"
proof -
  have "socket_step s (run_call cfg ev x s)" for x and s :: "'a WorkspaceDO"
    by (cases x) (simp_all add: step_deliver step_deliver_each step_dropPresence)
  then show ?thesis unfolding run_calls_def by (rule socket_step_fold)
qed

section \<open>Requests\<close>

lemma step_supersede: "socket_step st (supersede cfg ev c ss st)"
proof (induction cfg ev c ss st rule: supersede.induct)
  case (2 cfg ev c s ss st)
  have "socket_step st (case att st s of None \<Rightarrow> st | Some a \<Rightarrow>
      if at_clientId a = c then closeSocket cfg ev s CLOSE_SUPERSEDED (js ''superseded'') st else st)"
    using step_closeSocket by (auto split: option.split)
  from socket_step_trans [OF this "2.IH"] show ?case by simp
qed simp

lemma good_stamp:
  assumes "\<And>m :: Meta. m_schemaVersion (f m) = m_schemaVersion m" "\<And>m. m_backendId (f m) = m_backendId m"
    "\<And>m. m_currentVersion (f m) = m_currentVersion m" "\<And>m. m_minCursorVersion (f m) = m_minCursorVersion m"
  shows "good_step cfg st (stamp_meta f st)"
proof -
  have "data_step st (stamp_meta f st)"
    using assms by (simp add: data_step_def stamp_meta_def same_catalog_def update_meta_def)
  then show ?thesis
    unfolding good_step_def using do_inv_stamp [of False cfg st f] do_invD(3,4) [of False cfg st] assms by simp
qed

lemma step_disconnect: "socket_step st (fst (disconnect_loop cfg ev b code reason ss n st))"
proof (induction cfg ev b code reason ss n st rule: disconnect_loop.induct)
  case (2 cfg ev b code reason s ss n st)
  show ?case
  proof (cases "att st s")
    case (Some a)
    show ?thesis
    proof (cases "selected b a")
      case True
      from socket_step_trans [OF step_closeSocket "2.IH"(2) [OF Some True]] Some True show ?thesis by simp
    qed (use Some "2.IH"(3) [OF Some] in simp)
  qed (use "2.IH"(1) in simp)
qed simp

section \<open>Maintenance and import\<close>

lemma good_compact: "good_step cfg st (compact cfg st)"
  unfolding good_step_def
proof
  assume i: "do_inv False cfg st"
  note C = compact_spec [OF i]
  have same: "m_schemaVersion (do_meta (compact cfg st)) = m_schemaVersion (do_meta st)"
    "same_catalog (do_db st) (do_db (compact cfg st))" "do_initError (compact cfg st) = do_initError st"
    by (simp_all add: compact_def Let_def stamp_meta_def same_catalog_def update_meta_def)
  have "data_step st (compact cfg st)"
    unfolding data_step_def using same C(2-6) by simp
  with C(1) show "do_inv False cfg (compact cfg st) \<and> data_step st (compact cfg st)" ..
qed

text \<open>The rows an import installs.\<close>

definition row_fits :: "SnapshotRow \<Rightarrow> bool" where
  "row_fits r \<longleftrightarrow> TABLE_NAME_RE (sn_tbl r) \<and> key_ok (sn_id r)"

lemma check_row_fits: "check_row sch r = Inr r' \<Longrightarrow> row_fits r'"
  by (auto simp: check_row_def row_fits_def key_ok_def split: if_splits sum.splits err.splits)

lemma check_rows_fit: "check_rows sch rs = Inr rs' \<Longrightarrow> list_all row_fits rs'"
  by (induction rs arbitrary: rs') (auto split: sum.splits intro: check_row_fits)

lemma inserted:
  assumes "fold_res (sql_insert v) rs acc = Inr rows" "list_all row_fits rs"
    and "sql_inv acc" "list_all (\<lambda>row. row_version row = v \<and> TABLE_NAME_RE (row_tbl row) \<and> key_ok (row_id row)) acc"
  shows "sql_inv rows \<and> list_all (\<lambda>row. row_version row = v \<and> TABLE_NAME_RE (row_tbl row) \<and> key_ok (row_id row)) rows"
proof (rule fold_res_invariant [OF assms(1)])
  fix r a b
  assume r: "r \<in> set rs" and b: "sql_insert v r a = Inr b" and
    a: "sql_inv a \<and> list_all (\<lambda>row. row_version row = v \<and> TABLE_NAME_RE (row_tbl row) \<and> key_ok (row_id row)) a"
  have f: "row_fits r" using r assms(2) by (simp add: list_all_iff)
  have "\<not> list_ex (row_at (sn_tbl r) (sn_id r)) a" and b': "b = a @ [\<lparr>row_tbl = sn_tbl r, row_id = sn_id r,
      row_data = json_obj (sn_data r), row_version = v, row_deleted = False\<rparr>]"
    using b by (auto simp: sql_insert_def split: if_splits)
  then have "(sn_tbl r, sn_id r) \<notin> (\<lambda>row. (row_tbl row, row_id row)) ` set a"
    by (auto simp: list_ex_iff)
  with a f show "sql_inv b \<and> list_all (\<lambda>row. row_version row = v \<and> TABLE_NAME_RE (row_tbl row) \<and> key_ok (row_id row)) b"
    by (simp add: b' sql_inv_def row_fits_def)
qed (use assms(3,4) in simp)

lemma import_tx_spec:
  assumes "do_inv False cfg st" "import_tx cfg (m_currentVersion (do_meta st) + 1) rs x st = Inr (d, xs)" "list_all row_fits rs"
    and "st' = st\<lparr>do_db := d, do_extension := xs, do_snapshot := None,
           do_meta := (do_meta st)\<lparr>m_currentVersion := m_currentVersion (do_meta st) + 1,
                                   m_minCursorVersion := m_currentVersion (do_meta st) + 1\<rparr>\<rparr>"
  shows "do_inv False cfg st' \<and> data_step st st'"
proof -
  let ?v = "m_currentVersion (do_meta st)"
  note I = do_invD [OF assms(1)]
  obtain rows where rows: "fold_res (sql_insert (?v + 1)) rs [] = Inr rows"
    and d: "d = update_meta (\<lambda>m. m\<lparr>m_currentVersion := ?v + 1, m_minCursorVersion := ?v + 1\<rparr>) ((do_db st)\<lparr>db_rows := rows\<rparr>)"
    using assms(2) by (auto simp: import_tx_def bind_res_Inr_iff)
  have R: "sql_inv rows" "list_all (\<lambda>row. row_version row = ?v + 1 \<and> TABLE_NAME_RE (row_tbl row) \<and> key_ok (row_id row)) rows"
    using inserted [OF rows assms(3)] by (simp_all add: sql_inv_def)
  have "rows_ok (?v + 1) rows" using R I(3,4) by (auto simp: rows_ok_def list_all_iff)
  moreover have "meta_synced d (do_meta st')"
    using I(1) by (simp add: meta_synced_def d update_meta_def assms(4))
  moreover have "log_ok d" using I(5) by (simp add: d log_ok_def)
  ultimately have "do_inv False cfg st'"
    using I(3,4) by (simp add: do_inv_def assms(4) snapshot_ok_def d)
  moreover have "data_step st st'"
    using I(4) by (simp add: data_step_def assms(4) d same_catalog_def update_meta_def)
  ultimately show ?thesis ..
qed

lemma step_close_all: "socket_step st (close_all cfg ev ss code reason st)"
  by (induction cfg ev ss code reason st rule: close_all.induct)
    (auto intro: socket_step_trans [OF step_closeSocket])

section \<open>Reset\<close>

text \<open>A reset starts a new history: nothing of the old data is left.\<close>

definition renewed :: "'x Config \<Rightarrow> Env \<Rightarrow> 'x WorkspaceDO \<Rightarrow> bool" where
  "renewed cfg ev st \<longleftrightarrow> do_inv False cfg st \<and> at_level 5 (do_db st) \<and> do_initError st = None \<and>
     m_backendId (do_meta st) = ev_newBackend ev \<and> m_schemaVersion (do_meta st) = app_version (cf_app cfg) \<and>
     m_currentVersion (do_meta st) = 0 \<and> db_rows (do_db st) = [] \<and> db_clients (do_db st) = [] \<and> db_log (do_db st) = []"

definition fresh_meta :: "'x Config \<Rightarrow> Env \<Rightarrow> Meta" where
  "fresh_meta cfg ev = \<lparr>m_backendId = ev_newBackend ev, m_currentVersion = 0, m_minCursorVersion = 0, m_workspaceId = [],
     m_lastExportedSeq = 0, m_schemaVersion = app_version (cf_app cfg), m_schemaHash = cf_fingerprint cfg,
     m_presenceHash = cf_presenceHash cfg\<rparr>"

definition fresh_db :: "'x Config \<Rightarrow> Env \<Rightarrow> DB" where
  "fresh_db cfg ev = empty_db\<lparr>db_tables := catalog 5, db_applied := 5,
     db_meta := Some \<lparr>mr_meta = fresh_meta cfg ev, mr_schemaVersion = Fin (app_version (cf_app cfg))\<rparr>\<rparr>"

lemma fresh_store:
  "migrate empty_db = Inr (empty_db\<lparr>db_tables := catalog 5, db_applied := 5\<rparr>)"
  "loadOrInitMeta (ev_newBackend ev) (app_version (cf_app cfg)) (cf_fingerprint cfg) (cf_presenceHash cfg)
     (empty_db\<lparr>db_tables := catalog 5, db_applied := 5\<rparr>) = Inr (fresh_meta cfg ev, fresh_db cfg ev)"
proof -
  show "migrate empty_db = Inr (empty_db\<lparr>db_tables := catalog 5, db_applied := 5\<rparr>)"
    using migrate_simp [of 0 empty_db] catalog_simps(1) by (simp add: at_level_def empty_db_def)
qed (simp add: loadOrInitMeta_def empty_db_def fresh_meta_def fresh_db_def Let_def)

lemma fresh_db_fields [simp]:
  "db_rows (fresh_db cfg ev) = []" "db_clients (fresh_db cfg ev) = []" "db_log (fresh_db cfg ev) = []"
  "at_level 5 (fresh_db cfg ev)" "meta_synced (fresh_db cfg ev) (fresh_meta cfg ev)" "log_ok (fresh_db cfg ev)"
  by (simp_all add: fresh_db_def empty_db_def at_level_def meta_synced_def log_ok_def fresh_meta_def)

lemma rows_ok_nil [simp]: "rows_ok v []"
  by (simp add: rows_ok_def sql_inv_def)

lemma renewed_fields:
  assumes "do_db st = fresh_db cfg ev" "do_meta st = fresh_meta cfg ev" "do_snapshot st = None" "do_initError st = None"
  shows "renewed cfg ev st"
  using assms by (simp add: renewed_def do_inv_def snapshot_ok_def) (simp add: fresh_meta_def)

lemma renewed_good: "renewed cfg ev st \<Longrightarrow> same_core st st' \<Longrightarrow> renewed cfg ev st'"
  using do_inv_core [of st st' False cfg] by (simp add: renewed_def same_core_def)

lemma renewed_stamp:
  assumes "renewed cfg ev st"
  shows "renewed cfg ev (stamp_meta (\<lambda>m. m\<lparr>m_workspaceId := w\<rparr>) st)"
proof -
  have "good_step cfg st (stamp_meta (\<lambda>m. m\<lparr>m_workspaceId := w\<rparr>) st)" by (rule good_stamp) simp_all
  then show ?thesis
    using assms by (simp add: renewed_def good_step_def) (simp add: stamp_meta_def)
qed

lemma renewed_same:
  assumes "renewed cfg ev st" "do_db st' = do_db st" "do_meta st' = do_meta st" "do_snapshot st' = do_snapshot st"
    "do_initError st' = do_initError st"
  shows "renewed cfg ev st'"
  using assms do_inv_fields [of False cfg st st'] by (simp add: renewed_def)

lemma reset_renews: "renewed cfg ev (fst (admin_reset cfg ev rq st))"
proof -
  define w where "w = pick_name [m_workspaceId (do_meta st), or_default (rq_workspace rq) [], ev_doName ev]"
  define s1 where "s1 = st\<lparr>do_db := fresh_db cfg ev, do_snapshot := None, do_meta := fresh_meta cfg ev,
    do_initError := None, do_extension := None\<rparr>"
  define s2 where "s2 = (if w = [] then s1 else stamp_meta (\<lambda>m. m\<lparr>m_workspaceId := w\<rparr>) s1)"
  define s3 where "s3 = initExtension cfg s2"
  define s4 where "s4 = (case cf_extension cfg of
                      None \<Rightarrow> s3
                    | Some x \<Rightarrow> (case ext_reset x of None \<Rightarrow> s3 | Some f \<Rightarrow> s3\<lparr>do_extension := map_option f (do_extension s3)\<rparr>))"
  define s5 where "s5 = setAlarm cfg ev s4"
  have "renewed cfg ev s1" by (rule renewed_fields) (simp_all add: s1_def)
  then have "renewed cfg ev s2" by (simp add: s2_def renewed_stamp)
  then have "renewed cfg ev s3" by (rule renewed_same) (simp_all add: s3_def)
  then have "renewed cfg ev s4" by (rule renewed_same) (simp_all add: s4_def split: option.split)
  then have s5: "renewed cfg ev s5" by (rule renewed_same) (simp_all add: s5_def)
  have "admin_reset cfg ev rq st = (case packPatch [CLEAR_OP] MAX_PART_PATCH_BYTES of
               Inl e \<Rightarrow> (s5, Threw (OtherError ''OversizeItemError''))
             | Inr p \<Rightarrow> (sendPoke cfg ev (readySockets s5) None p None [] s5,
                         JsonResponse 200 (JObj [(js ''backendId'', JStr (m_backendId (do_meta s5)))])))"
    by (simp only: admin_reset_def Let_def fresh_store bind_res_simps sum.case prod.case s1_def s2_def s3_def s4_def s5_def w_def)
  then show ?thesis
    using s5 renewed_good [OF s5 same_core_socket_step [OF step_sendPoke]] by (auto split: sum.split)
qed

section \<open>Events\<close>

datatype Event =
    Fetch int "nat option" Request
  | Message nat Inbound
  | Close nat int jstr
  | SocketError nat
  | Alarm jstr

fun handle :: "'x Config \<Rightarrow> Env \<Rightarrow> Event \<Rightarrow> 'x WorkspaceDO \<Rightarrow> 'x WorkspaceDO" where
  "handle cfg ev (Fetch databaseSize quota rq) st = fst (fetch cfg ev databaseSize quota rq st)"
| "handle cfg ev (Message s raw) st = webSocketMessage cfg ev s raw st"
| "handle cfg ev (Close s code reason) st = webSocketClose cfg ev s code reason st"
| "handle cfg ev (SocketError s) st = webSocketError cfg ev s st"
| "handle cfg ev (Alarm doId) st = fst (alarm cfg ev doId st)"

lemma good_fields:
  assumes "do_db st' = do_db st" "do_meta st' = do_meta st" "do_snapshot st' = do_snapshot st" "do_initError st' = do_initError st"
  shows "good_step cfg st st'"
  unfolding good_step_def
proof
  assume i: "do_inv False cfg st"
  have "data_step st st'" using assms(1,2,4) by (simp add: data_step_def same_catalog_def)
  with do_inv_fields [OF i assms(1-3)] show "do_inv False cfg st' \<and> data_step st st'" ..
qed

text \<open>
  A relation that holds for the operations which move data (a mutation, a hello, a meta stamp,
  compaction, an import, the snapshot cache) and for everything that leaves the data alone, and
  composes, holds for every event but a reset: the glue of the handlers is gone through once.
\<close>

text \<open>A mutation moves the LMID of its client, if the database knows it, and no other.\<close>

lemma applyMutation_lmid:
  assumes "applyMutation cfg ev a m st = Inr (st', err)"
  shows "known (do_db st') c = known (do_db st) c"
    "lastMutationId (do_db st') c =
       (if c = at_clientId a \<and> known (do_db st) c then mut_id m else lastMutationId (do_db st) c)"
proof -
  obtain rows wrote e where d: "do_db st' = commit_mutation ev (at_clientId a) m rows wrote e (do_db st)"
    using assms by (auto simp: applyMutation_def Let_def notifyCommitted_def emit_def split: sum.splits err.splits option.splits if_splits)
  show "known (do_db st') c = known (do_db st) c"
    "lastMutationId (do_db st') c = (if c = at_clientId a \<and> known (do_db st) c then mut_id m else lastMutationId (do_db st) c)"
    unfolding d by (auto simp: commit_mutation_def known_def lastMutationId_def set_lmid_def map_of_update split: option.splits)
qed

text \<open>An admin reset.\<close>

fun is_reset :: "Event \<Rightarrow> bool" where
  "is_reset (Fetch n quota rq) = (rq_method rq = js ''POST'' \<and> admin_op (rq_path rq) = Some (js ''reset''))"
| "is_reset e = False"

locale event_steps =
  fixes cfg :: "'x Config" and step :: "'x WorkspaceDO \<Rightarrow> 'x WorkspaceDO \<Rightarrow> bool"
  assumes step_trans: "step a b \<Longrightarrow> step b c \<Longrightarrow> step a c"
    and step_fields: "do_db st' = do_db st \<Longrightarrow> do_meta st' = do_meta st \<Longrightarrow> do_snapshot st' = do_snapshot st \<Longrightarrow>
      do_initError st' = do_initError st \<Longrightarrow> step st st'"
    and step_apply: "applyMutation cfg ev ha m st = Inr (st', err) \<Longrightarrow>
      (known (do_db st) (at_clientId ha) \<longrightarrow> mut_id m = lastMutationId (do_db st) (at_clientId ha) + 1) \<Longrightarrow> step st st'"
    and step_touch: "step st (snd (touchClient ev client st))"
    and step_stamp: "(\<And>m :: Meta. m_schemaVersion (f m) = m_schemaVersion m) \<Longrightarrow> (\<And>m. m_backendId (f m) = m_backendId m) \<Longrightarrow>
      (\<And>m. m_currentVersion (f m) = m_currentVersion m) \<Longrightarrow> (\<And>m. m_minCursorVersion (f m) = m_minCursorVersion m) \<Longrightarrow>
      step st (stamp_meta f st)"
    and step_compact: "step st (compact cfg st)"
    and step_import: "import_tx cfg (m_currentVersion (do_meta st) + 1) rs x st = Inr (d, xs) \<Longrightarrow>
      check_rows (app_schema (cf_app cfg)) rows = Inr rs \<Longrightarrow> named_snapshot rows \<Longrightarrow>
      step st (st\<lparr>do_db := d, do_extension := xs, do_snapshot := None,
        do_meta := (do_meta st)\<lparr>m_currentVersion := m_currentVersion (do_meta st) + 1,
                                m_minCursorVersion := m_currentVersion (do_meta st) + 1\<rparr>\<rparr>)"
    and step_bootstrap: "step st (snd (bootstrapPatch cfg st))"
begin

lemma ev_refl [simp]: "step st st"
  by (rule step_fields) simp_all

lemma ev_core: "same_core st st' \<Longrightarrow> step st st'"
  by (rule step_fields) (simp_all add: same_core_def)

lemma ev_socket: "socket_step st st' \<Longrightarrow> step st st'"
  by (rule ev_core) (rule same_core_socket_step)

lemma ev_then: "step a b \<Longrightarrow> socket_step b c \<Longrightarrow> step a c"
  using step_trans ev_socket by blast

lemma ev_serialize: "step st (serializeAttachment s a st)"
  by (rule ev_core) simp

lemma ev_push_loop:
  "(known (do_db st) (at_clientId a) \<longrightarrow> lmid = lastMutationId (do_db st) (at_clientId a)) \<Longrightarrow>
     step st (pl_do (push_loop cfg ev ws a ms st lmid results))"
proof (induction ms arbitrary: st lmid results)
  case (Cons m ms)
  have cnt: "step s (count f s)" for f and s :: "'x WorkspaceDO"
    by (rule ev_socket) simp
  consider (skip) "mut_id m < lmid + 1" | (gap) "\<not> mut_id m < lmid + 1" "lmid + 1 < mut_id m"
    | (turn) "\<not> mut_id m < lmid + 1" "\<not> lmid + 1 < mut_id m" by linarith
  then show ?case
  proof cases
    case skip
    then show ?thesis using step_trans [OF cnt Cons.IH] Cons.prems by simp
  next
    case gap
    then show ?thesis using ev_socket [OF step_sendError] by simp
  next
    case turn
    show ?thesis
    proof (cases "applyMutation cfg ev a m st")
      case (Inr x)
      obtain st1 err where x: "x = (st1, err)" by (cases x)
      note ap = applyMutation_lmid [OF Inr [unfolded x], of "at_clientId a"]
      have "step st st1" using step_apply [OF Inr [unfolded x]] turn Cons.prems by auto
      from step_trans [OF step_trans [OF this cnt] Cons.IH]
      show ?thesis using turn Inr x ap by simp
    qed (use turn in simp)
  qed
qed (simp add: ev_refl)

lemma ev_push: "step st (fst (handlePush cfg ev ws a ms st))"
proof (cases "at_ready a")
  case True
  define st0 where "st0 = count (\<lambda>c. c\<lparr>ct_pushes := ct_pushes c + 1\<rparr>) st"
  define r where "r = push_loop cfg ev ws a ms st0 (lastMutationId (do_db st0) (at_clientId a)) []"
  have "step st (pl_do r)"
    unfolding r_def by (rule step_trans [OF ev_socket ev_push_loop]) (simp_all add: st0_def)
  moreover have "socket_step (pl_do r) (fst (handlePush cfg ev ws a ms st))"
    using True unfolding handlePush_def Let_def r_def [symmetric] st0_def [symmetric]
    by (auto simp: step_sendPoke r_def st0_def split: option.split sum.split)
  ultimately show ?thesis by (rule ev_then)
qed (simp add: handlePush_def ev_socket step_sendError)

lemma ev_hello: "step st (fst (handleHello cfg ev ws a p v cur st))"
proof (cases "p \<noteq> PROTOCOL_VERSION \<or> v \<noteq> app_version (cf_app cfg)")
  case True
  then show ?thesis
    by (simp add: handleHello_def ev_socket [OF socket_step_trans [OF step_sendError step_closeSocket]])
next
  case False
  define st1 where "st1 = snd (touchClient ev (at_clientId a) st)"
  define valid where "valid = cursor_valid st1 cur"
  define ps where "ps = (if valid then (pack_ops cfg (patchSince st1 (cversion (the cur))), st1) else bootstrapPatch cfg st1)"
  have "step st (snd (bootstrapPatch cfg st1))"
    unfolding st1_def by (rule step_trans [OF step_touch step_bootstrap])
  then have "step st (snd ps)" by (simp add: ps_def) (simp add: st1_def step_touch)
  moreover have "step (snd ps) (fst (handleHello cfg ev ws a p v cur st))"
  proof -
    obtain l where t: "touchClient ev (at_clientId a) st = (l, st1)"
      by (cases "touchClient ev (at_clientId a) st") (simp add: st1_def)
    obtain r s2 where ps: "ps = (r, s2)" by (cases ps)
    have s: "step s (serializeAttachment ws a' (sendPoke cfg ev ss base q l rs s))" for s a' ss base q l rs
      by (rule step_trans [OF ev_socket [OF step_sendPoke] ev_serialize])
    have d: "step s (deliver cfg ev w fs (serializeAttachment ws a' (sendPoke cfg ev ss base q l rs s)))"
      for s a' ss base q l rs w fs
      by (rule step_trans [OF s ev_socket [OF step_deliver]])
    show ?thesis
      unfolding handleHello_def if_not_P [OF False] t Let_def valid_def [symmetric] prod.case ps_def [symmetric] ps
      using s d by (auto split: sum.split)
  qed
  ultimately show ?thesis by (rule step_trans)
qed

lemma ev_presence: "step st (handlePresence cfg ev ws a v st)"
  by (rule ev_core) (rule handlePresence_core)

lemma ev_binary: "step st (fst (binary_message cfg ev s a bytes st))"
proof -
  have e: "step st (st\<lparr>do_extension := x\<rparr>)" for x by (rule step_fields) simp_all
  show ?thesis
    using ev_then [OF e step_run_calls] ev_socket [OF step_sendError]
    by (auto simp: binary_message_def split: option.split prod.split)
qed

lemma ev_dispatch: "step st (fst (dispatch cfg ev s a msg st))"
  by (cases msg) (simp_all add: dispatch_def ev_hello ev_presence ev_push)

lemma ev_message: "step st (webSocketMessage cfg ev s raw st)"
proof -
  define r where "r a = (case raw of
                 BinaryFrame bytes \<Rightarrow> binary_message cfg ev s a bytes st
               | TextFrame None \<Rightarrow> (sendError s BadMessage (Some (js ''invalid JSON'')) st, None)
               | TextFrame (Some v) \<Rightarrow>
                   (case dec_client_msg v of
                      None \<Rightarrow> (sendError s BadMessage (Some (js ''unrecognized message shape'')) st, None)
                    | Some msg \<Rightarrow> dispatch cfg ev s a msg st))" for a
  have "step st (fst (r a))" for a
    unfolding r_def using ev_binary ev_dispatch ev_socket [OF step_sendError]
    by (auto split: Inbound.split option.split)
  moreover have "step x (case e of None \<Rightarrow> x | Some _ \<Rightarrow> sendError s Internal None (emit (Logged ''internal error'') x))"
    for x and e :: "err option"
    using ev_socket [OF socket_step_trans [OF step_emit step_sendError]] by (auto split: option.split)
  ultimately have "step st (case r a of (st, e) \<Rightarrow>
      (case e of None \<Rightarrow> st | Some _ \<Rightarrow> sendError s Internal None (emit (Logged ''internal error'') st)))" for a
    by (metis (no_types, lifting) step_trans prod.case_eq_if)
  then show ?thesis
    unfolding webSocketMessage_def r_def [symmetric] Let_def
    using ev_socket [OF step_closeSocket] by (auto split: option.split)
qed

lemma ev_forget: "step st (forget_socket s st)"
  by (rule step_fields) (simp_all add: forget_socket_def)

lemma ev_close: "step st (webSocketClose cfg ev s code reason st)"
proof -
  have "socket_step st (if code \<in> set RESERVED_CLOSE_CODES then dropPresence cfg ev s st
      else emit (Closed s code reason) (dropPresence cfg ev s st))"
    using step_dropPresence socket_step_trans [OF step_dropPresence step_emit] by auto
  from step_trans [OF ev_socket [OF this] ev_forget] show ?thesis
    by (simp add: webSocketClose_def Let_def)
qed

lemma ev_error: "step st (webSocketError cfg ev s st)"
  unfolding webSocketError_def by (rule step_trans [OF ev_socket [OF step_dropPresence] ev_forget])

lemma ev_upgrade: "step st (fst (upgrade cfg ev quota rq st))"
proof -
  have "step x (fst (accept_socket a quota x))" for a and x :: "'x WorkspaceDO"
    by (rule step_fields) (simp_all add: accept_socket_def)
  from step_trans [OF ev_socket [OF step_supersede] this] show ?thesis
    by (auto simp: upgrade_def Let_def split: sum.split)
qed

lemma ev_remember: "step st (rememberWorkspaceId ev rq st)"
  by (simp add: rememberWorkspaceId_def Let_def step_stamp)

lemma ev_disconnect: "step st (fst (admin_disconnect cfg ev body st))"
proof -
  have "step st (fst (case disconnect_loop cfg ev b code reason ss n st of (st, n) \<Rightarrow> (st, f n)))"
    for b code reason ss n and f :: "nat \<Rightarrow> Response"
    using ev_socket [OF step_disconnect] by (simp add: case_prod_beta)
  then show ?thesis by (auto simp: admin_disconnect_def Let_def split: option.split)
qed

lemma ev_emit: "step st (emit e st)"
  by (rule ev_socket) simp

lemma ev_export_loop: "step st (fst (export_loop ev k prefix ws i n st))"
proof (induction n arbitrary: i st)
  case (Suc n)
  have g: "step st (stamp_meta (\<lambda>m. m\<lparr>m_lastExportedSeq := q\<rparr>) (emit e st))" for q e
    by (rule step_trans [OF ev_emit step_stamp]) simp_all
  show ?case
    using step_trans [OF g Suc.IH] g by (simp add: Let_def)
qed simp

lemma ev_alarm: "step st (fst (alarm cfg ev doId st))"
proof -
  define st1 where "st1 = (if cf_compactionDisabled cfg then st else compact cfg st)"
  define st2 where "st2 = (case cf_extension cfg of
                    None \<Rightarrow> st1
                  | Some x \<Rightarrow>
                      (case ext_alarm x of
                         None \<Rightarrow> st1
                       | Some f \<Rightarrow> st1\<lparr>do_extension := map_option f (do_extension st1)\<rparr>))"
  define r where "r = (case cf_export cfg of None \<Rightarrow> (st2, None) | Some xp \<Rightarrow> exportLog ev doId xp st2)"
  have "step st st1" by (simp add: st1_def step_compact)
  moreover have "step st1 st2"
    by (rule step_fields) (simp_all add: st2_def split: option.split)
  moreover have "step st2 (fst r)"
    by (simp add: r_def exportLog_def ev_export_loop split: option.split)
  moreover have "step (fst r) (setAlarm cfg ev (fst r))"
    by (rule step_fields) simp_all
  ultimately have "step st (setAlarm cfg ev (fst r))" using step_trans by blast
  moreover have "alarm cfg ev doId st = (if do_initError st \<noteq> None then (st, None)
      else case r of (st, e) \<Rightarrow> (setAlarm cfg ev st, e))"
    by (simp only: alarm_def Let_def st1_def st2_def r_def)
  ultimately show ?thesis by (auto simp: case_prod_beta)
qed

lemma ev_import_rows:
  assumes named: "named_snapshot rows"
  shows "step st (fst (import_rows cfg ev rows x mf st))"
proof (cases "check_rows (app_schema (cf_app cfg)) rows")
  case (Inr rs)
  let ?v = "m_currentVersion (do_meta st) + 1"
  show ?thesis
  proof (cases "(x \<noteq> JUndef \<and> \<not> can_import cfg st) \<or> (\<exists>e. import_tx cfg ?v rs x st = Inl e)")
    case True
    then show ?thesis using Inr by (auto simp: import_rows_def Let_def)
  next
    case False
    then obtain d xs where t: "import_tx cfg ?v rs x st = Inr (d, xs)" by (cases "import_tx cfg ?v rs x st") auto
    define st1 where "st1 = st\<lparr>do_db := d, do_extension := xs, do_snapshot := None,
       do_meta := (do_meta st)\<lparr>m_currentVersion := ?v, m_minCursorVersion := ?v\<rparr>\<rparr>"
    have "step st st1"
      unfolding st1_def by (rule step_import [OF t Inr named])
    moreover have "step st1 (fst (import_rows cfg ev rows x mf st))"
    proof (cases "x = JUndef")
      case True
      have b: "step st1 (snd (bootstrapPatch cfg st1))"
        by (rule step_bootstrap)
      have f: "fst (import_rows cfg ev rows x mf st) = (case bootstrapPatch cfg st1 of (patch, st) \<Rightarrow>
          (case patch of Inl e \<Rightarrow> st | Inr p \<Rightarrow> sendPoke cfg ev (readySockets st) None p None [] st))"
        using Inr True False t
        by (auto simp: import_rows_def Let_def st1_def [symmetric] case_prod_beta split: sum.split)
      show ?thesis
        unfolding f using ev_then [OF b step_sendPoke] b by (simp add: case_prod_beta split: sum.split)
    next
      case False
      then have f: "fst (import_rows cfg ev rows x mf st) = close_all cfg ev (map sk_id (do_sockets st)) CLOSE_REFRESH (js ''import'') st1"
        using Inr \<open>\<not> ((x \<noteq> JUndef \<and> \<not> can_import cfg st) \<or> (\<exists>e. import_tx cfg ?v rs x st = Inl e))\<close> t
        by (simp add: import_rows_def Let_def st1_def [symmetric])
      show ?thesis unfolding f by (rule ev_socket) (rule step_close_all)
    qed
    ultimately show ?thesis by (rule step_trans)
  qed
qed (simp add: import_rows_def)

lemma ev_import: "step st (fst (admin_import cfg ev body st))"
  by (auto simp: admin_import_def ev_import_rows dec_snapshot_named migrate_snapshot_named split: Body.split option.split sum.split)

lemma ev_export: "step st (fst (export_snapshot cfg ev st))"
proof -
  have e: "step st (st\<lparr>do_extension := x\<rparr>)" for x by (rule step_fields) simp_all
  show ?thesis using e by (auto simp: export_snapshot_def export_extension_def case_prod_beta split: option.split)
qed

lemma ev_fetch_steps:
  "step st (fst (fetch cfg ev n quota rq st)) \<or> renewed cfg ev (fst (fetch cfg ev n quota rq st))"
proof -
  have a: "step s (fst (handleAdmin cfg ev n op rq s)) \<or> renewed cfg ev (fst (handleAdmin cfg ev n op rq s))"
    for op and s :: "'x WorkspaceDO"
    using ev_export [of s ev] reset_renews [of cfg ev rq s] ev_import [of s ev "rq_body rq"] ev_disconnect [of s ev "rq_body rq"]
    by (simp add: handleAdmin_def Let_def)
  have b: "step st (fst (handleAdmin cfg ev n op rq (rememberWorkspaceId ev rq st)))
      \<or> renewed cfg ev (fst (handleAdmin cfg ev n op rq (rememberWorkspaceId ev rq st)))" for op
    using a step_trans [OF ev_remember] by blast
  show ?thesis
    using a b step_trans [OF ev_remember [of st ev rq] ev_upgrade [of _ ev quota rq]]
    by (simp add: fetch_def Let_def split: option.split)
qed

lemma ev_kept: "\<not> is_reset e \<Longrightarrow> step st (handle cfg ev e st)"
proof (cases e)
  case (Fetch n quota rq)
  assume "\<not> is_reset e"
  then have no: "rq_method rq \<noteq> js ''POST'' \<or> admin_op (rq_path rq) \<noteq> Some (js ''reset'')" by (auto simp: Fetch simp del: js_simps)
  have split: "m = js ''POST'' \<and> op = js ''reset''" if "m @ js '' '' @ op = js ''POST reset''" for m op
    using that by (auto simp: append_eq_Cons_conv)
  have admin: "step s (fst (handleAdmin cfg ev n op rq s))" if "admin_op (rq_path rq) = Some op" for op and s :: "'x WorkspaceDO"
    using no that split [of "rq_method rq" op] ev_export [of s ev] ev_import [of s ev "rq_body rq"] ev_disconnect [of s ev "rq_body rq"]
    by (auto simp: handleAdmin_def Let_def simp del: js_simps)
  show ?thesis
    using no admin step_trans [OF ev_remember [of st ev rq] admin] step_trans [OF ev_remember [of st ev rq] ev_upgrade [of _ ev quota rq]]
    by (auto simp: Fetch fetch_def Let_def simp del: js_simps split: option.split)
qed (simp_all add: ev_message ev_close ev_error ev_alarm)

lemma ev_handle: "step st (handle cfg ev e st) \<or> renewed cfg ev (handle cfg ev e st)"
  by (cases e) (simp_all add: ev_fetch_steps ev_message ev_close ev_error ev_alarm)

end

interpretation good: event_steps cfg "good_step cfg" for cfg
proof unfold_locales
  fix st :: "'a WorkspaceDO" and rs x d xs rows
  assume "import_tx cfg (m_currentVersion (do_meta st) + 1) rs x st = Inr (d, xs)" "check_rows (app_schema (cf_app cfg)) rows = Inr rs"
  from import_tx_spec [OF _ this(1) check_rows_fit [OF this(2)] refl]
  show "good_step cfg st (st\<lparr>do_db := d, do_extension := xs, do_snapshot := None,
        do_meta := (do_meta st)\<lparr>m_currentVersion := m_currentVersion (do_meta st) + 1,
                                m_minCursorVersion := m_currentVersion (do_meta st) + 1\<rparr>\<rparr>)"
    unfolding good_step_def by blast
next
  show "good_step cfg st st'" if "applyMutation cfg ev ha m st = Inr (st', err)"
      "known (do_db st) (at_clientId ha) \<longrightarrow> mut_id m = lastMutationId (do_db st) (at_clientId ha) + 1" for ev ha m st st' err
    unfolding good_step_def using applyMutation_data that(1) by blast
  show "good_step cfg st (snd (bootstrapPatch cfg st))" for st
    unfolding good_step_def using bootstrap_spec(2) data_step_bootstrap by blast
  show "good_step cfg st (snd (touchClient ev c st))" for ev c st
    unfolding good_step_def using touch_spec(1) data_step_touch by fast
qed (rule good_step_trans good_fields good_stamp good_compact; assumption)+

lemmas handle_steps = good.ev_handle

text \<open>While initialization has failed, no event but a reset touches storage.\<close>

lemma handle_failed:
  assumes "do_initError st \<noteq> None"
  shows "do_db (handle cfg ev e st) = do_db st \<and> do_initError (handle cfg ev e st) = do_initError st \<or> renewed cfg ev (handle cfg ev e st)"
proof -
  have f: "do_db (forget_socket s x) = do_db x \<and> do_initError (forget_socket s x) = do_initError x" for s and x :: "'a WorkspaceDO"
    by (simp add: forget_socket_def)
  have core: "do_db y = do_db x \<and> do_initError y = do_initError x" if "socket_step x y" for x y :: "'a WorkspaceDO"
    using that by (simp add: socket_step_def same_core_def)
  note d = core [OF step_dropPresence] core [OF step_closeSocket] core [OF step_emit]
  show ?thesis
  proof (cases e)
    case (Fetch n q rq)
    have "handleAdmin cfg ev n (js ''reset'') rq st = admin_reset cfg ev rq st" if "rq_method rq = js ''POST''"
      using that by (simp add: handleAdmin_def Let_def)
    then show ?thesis
      using assms reset_renews [of cfg ev rq st] by (auto simp: Fetch fetch_def split: option.split)
  qed (use assms f d in \<open>simp_all add: webSocketMessage_def webSocketClose_def webSocketError_def alarm_def Let_def\<close>)
qed

section \<open>A sound workspace\<close>

definition kept :: "DB \<Rightarrow> Meta" where
  "kept d = mr_meta (the (db_meta d))"

definition sound :: "'x Config \<Rightarrow> 'x WorkspaceDO \<Rightarrow> bool" where
  "sound cfg st \<longleftrightarrow> stored_ok False (do_db st) (kept (do_db st)) \<and> at_level 5 (do_db st) \<and>
     (do_initError st = None \<longrightarrow> do_inv False cfg st)"

lemma kept_synced: "meta_synced d mt \<Longrightarrow> kept d = mt"
  by (simp add: kept_def meta_synced_def)

lemma sound_meta: "sound cfg st \<Longrightarrow> do_initError st = None \<Longrightarrow> kept (do_db st) = do_meta st"
  by (rule kept_synced) (simp add: sound_def do_inv_def)

lemma sound_intro:
  "do_inv False cfg st \<Longrightarrow> 1 \<le> m_schemaVersion (do_meta st) \<Longrightarrow> at_level 5 (do_db st) \<Longrightarrow> sound cfg st"
proof -
  assume a: "do_inv False cfg st" "1 \<le> m_schemaVersion (do_meta st)" "at_level 5 (do_db st)"
  have k: "kept (do_db st) = do_meta st" by (rule kept_synced) (use a(1) in \<open>simp add: do_inv_def\<close>)
  show "sound cfg st" unfolding sound_def k using stored_do_inv [OF a(1,2)] a by blast
qed

text \<open>How storage moves from one event to the next: forward in the same history, or into a new one.\<close>

definition forward :: "DB \<Rightarrow> DB \<Rightarrow> bool" where
  "forward d d' \<longleftrightarrow>
     m_backendId (kept d') = m_backendId (kept d) \<and>
     m_minCursorVersion (kept d) \<le> m_minCursorVersion (kept d') \<and>
     m_currentVersion (kept d) \<le> m_currentVersion (kept d') \<and>
     (\<forall>v tab. m_minCursorVersion (kept d') \<le> v \<longrightarrow> v \<le> m_currentVersion (kept d) \<longrightarrow>
        in_sync v (db_rows d) tab \<longrightarrow> in_sync v (db_rows d') tab)"

lemma forward_refl [simp]: "forward d d"
  by (simp add: forward_def)

lemma handle_sound:
  assumes "sound cfg st" "1 \<le> app_version (cf_app cfg)" and st': "st' = handle cfg ev e st"
  shows "sound cfg st' \<and> (forward (do_db st) (do_db st') \<or> m_backendId (kept (do_db st')) = ev_newBackend ev)"
proof -
  have new: ?thesis if "renewed cfg ev st'"
    using that assms(2) sound_intro [of cfg st'] sound_meta [of cfg st'] by (simp add: renewed_def)
  show ?thesis
  proof (cases "do_initError st")
    case None
    then have inv: "do_inv False cfg st" "kept (do_db st) = do_meta st" using assms(1) sound_meta [OF assms(1) None] None
      by (simp add: sound_def, blast)
    from handle_steps [of cfg st ev e] show ?thesis
    proof
      assume "good_step cfg st (handle cfg ev e st)"
      then have s: "do_inv False cfg st'" "data_step st st'" using inv(1) by (simp_all add: good_step_def st')
      have l: "1 \<le> m_schemaVersion (do_meta st')" "at_level 5 (do_db st')"
        using s(2) assms(1) inv(2) by (auto simp: data_step_def sound_def stored_ok_def same_catalog_def at_level_def)
      have k: "kept (do_db st') = do_meta st'" by (rule kept_synced) (use s(1) in \<open>simp add: do_inv_def\<close>)
      have "forward (do_db st) (do_db st')" using s(2) by (simp add: forward_def data_step_def k inv(2))
      with sound_intro [OF s(1) l] show ?thesis by blast
    qed (use new st' in blast)
  next
    case (Some er)
    then have "do_db (handle cfg ev e st) = do_db st \<and> do_initError (handle cfg ev e st) = do_initError st
        \<or> renewed cfg ev (handle cfg ev e st)" by (intro handle_failed) simp
    then show ?thesis
    proof
      assume "do_db (handle cfg ev e st) = do_db st \<and> do_initError (handle cfg ev e st) = do_initError st"
      with assms(1) Some show ?thesis by (simp add: sound_def st')
    qed (use new st' in auto)
  qed
qed

text \<open>Waking under any configuration.\<close>

lemma wake_sound:
  assumes "sound cfg st" "1 \<le> app_version (cf_app cfg')" and st': "st' = wake cfg' ev st"
  shows "sound cfg' st' \<and> forward (do_db st) (do_db st')"
proof -
  let ?mt = "kept (do_db st)"
  have ok: "stored_ok False (do_db st) ?mt" "at_level 5 (do_db st)" using assms(1) by (simp_all add: sound_def)
  note O = wake_outcome(1) [OF ok, of cfg' ev, folded st']
  have l: "at_level 5 (do_db st')" using wake_outcome(2) [OF ok, of cfg' ev] by (simp add: st')
  show ?thesis
  proof (cases "do_initError st'")
    case (Some e)
    then have s: "stored_ok False (do_db st') ?mt" "db_rows (do_db st') = db_rows (do_db st)"
      using O by (simp_all add: init_outcome_def)
    have k: "kept (do_db st') = ?mt" by (rule kept_synced) (use s(1) in \<open>simp add: stored_ok_def\<close>)
    from s l Some show ?thesis by (simp add: sound_def forward_def k)
  next
    case None
    then have i: "do_inv False cfg' st'" "m_schemaVersion (do_meta st') = app_version (cf_app cfg')"
        "m_backendId (do_meta st') = m_backendId ?mt"
      and r: "if m_currentVersion (do_meta st') = m_currentVersion ?mt
         then db_rows (do_db st') = db_rows (do_db st) \<and> m_minCursorVersion (do_meta st') = m_minCursorVersion ?mt
         else m_currentVersion (do_meta st') = m_currentVersion ?mt + 1 \<and> m_minCursorVersion (do_meta st') = m_currentVersion ?mt + 1"
      using O by (auto simp: init_outcome_def split: if_splits)
    have k: "kept (do_db st') = do_meta st'" by (rule kept_synced) (use i(1) in \<open>simp add: do_inv_def\<close>)
    have "m_minCursorVersion ?mt \<le> m_currentVersion ?mt" using ok by (simp add: stored_ok_def)
    then have "forward (do_db st) (do_db st')"
      using i(3) r by (auto simp: forward_def k split: if_splits)
    moreover have "sound cfg' st'" by (rule sound_intro) (use i assms(2) l in simp_all)
    ultimately show ?thesis by simp
  qed
qed

text \<open>The first wake, on an empty database.\<close>

lemma wake_first:
  assumes "do_db st = empty_db" "1 \<le> app_version (cf_app cfg)" and st': "st' = wake cfg ev st"
  shows "sound cfg st' \<and> do_initError st' = None"
proof -
  obtain s where "same_core (st\<lparr>do_initError := None, do_snapshot := None, do_meta := blank_meta\<rparr>) s"
    and w: "wake cfg ev st = (case initialize cfg ev s of (s', None) \<Rightarrow> s'
      | (s', Some e) \<Rightarrow> emit (Logged ''workspace initialization failed'') (s'\<lparr>do_initError := Some e\<rparr>))"
    using wake_init by blast
  then have core: "do_db s = empty_db" "do_snapshot s = None" "do_initError s = None"
    using assms(1) by (simp_all add: same_core_def)
  define s1 where "s1 = s\<lparr>do_db := fresh_db cfg ev\<rparr>"
  have ok: "stored_ok False (do_db s1) (fresh_meta cfg ev)" using assms(2)
    by (simp add: s1_def stored_ok_def) (simp add: fresh_meta_def)
  have l1: "at_level 5 (do_db s1)" by (simp add: s1_def)
  have mig: "migrate (fresh_db cfg ev) = Inr (fresh_db cfg ev)"
    using migrate_simp [OF l1] by (simp add: s1_def)
  have load: "loadOrInitMeta u v h p (fresh_db cfg ev) = Inr (fresh_meta cfg ev, fresh_db cfg ev)" for u v h p
    using loadOrInitMeta_stored [OF ok] by (simp add: s1_def)
  have upd: "s1\<lparr>do_db := fresh_db cfg ev, do_meta := m\<rparr> = s\<lparr>do_db := fresh_db cfg ev, do_meta := m\<rparr>" for m
    by (simp add: s1_def)
  have "do_db s1 = fresh_db cfg ev" by (simp add: s1_def)
  then have eq: "initialize cfg ev s = initialize cfg ev s1"
    unfolding initialize_def core(1) fresh_store sum.case prod.case Let_def upd
    by (simp only: mig load upd sum.case prod.case)
  obtain s' e where i: "initialize cfg ev s1 = (s', e)" by fastforce
  have sn: "do_snapshot s1 = None" by (simp add: s1_def core)
  note S = initialize_spec [OF ok l1 sn i]
  have e: "e = None" using S(1) by (auto simp: init_outcome_def fresh_meta_def split: option.splits)
  have st: "st' = s'" unfolding st' w eq i e by simp
  have "do_inv False cfg s'" "m_schemaVersion (do_meta s') = app_version (cf_app cfg)" "at_level 5 (do_db s')"
    using S e by (simp_all add: init_outcome_def)
  then have "sound cfg s'" using assms(2) by (intro sound_intro) simp_all
  with initialize_error [OF i] st show ?thesis by (simp add: s1_def core)
qed

end
