(* ===== verification/Replicas.thy ===== *)
theory Replicas
  imports Histories
begin

text \<open>
  The workspace and its replicas. A history interleaves the events of the workspace object,
  deploys (a wake under a new configuration), the pokes it offers, and their delivery to any
  replica at any later time, or never. The abstract specification is the record \<open>H\<close>, which
  keeps, for every cursor the workspace ever had, the table it had then: every replica shows
  exactly the recorded table of its cursor.
\<close>

section \<open>Pokes and their delivery\<close>

type_synonym Poke = "Cursor option \<times> PatchOp list \<times> Cursor"

type_synonym Replica = "Cursor option \<times> table"

text \<open>The pokes the handlers send: the operations since an accepted cursor, or a snapshot.\<close>

definition offered :: "'x WorkspaceDO \<Rightarrow> Poke \<Rightarrow> bool" where
  "offered st p \<longleftrightarrow>
     p = (None, snapshot_ops (db_rows (do_db st)), current_cursor st) \<or>
     (\<exists>c. cursor_valid st (Some c) \<and> p = (Some c, patchSince st (cversion c), current_cursor st))"

text \<open>A client takes a poke based on its own cursor, or one that clears first; \<open>None\<close> is no cursor.\<close>

fun accepts :: "Cursor option \<Rightarrow> Poke \<Rightarrow> bool" where
  "accepts r (base, ops, c) \<longleftrightarrow> base = r \<or> ClearOp \<in> set ops"

fun take_poke :: "Poke \<Rightarrow> Replica \<Rightarrow> Replica" where
  "take_poke (base, ops, c) (r, tab) = (if accepts r (base, ops, c) then (Some c, apply_ops ops tab) else (r, tab))"

section \<open>The pokes of a push and a hello\<close>

lemma since_current: "rows_ok v rows \<Longrightarrow> since_ops rows v = []"
proof -
  assume a: "rows_ok v rows"
  then have "filter (\<lambda>row. v < row_version row) rows = []"
    by (fastforce simp: rows_ok_def list_all_iff filter_empty_conv)
  then show ?thesis by (simp add: since_ops_def)
qed

text \<open>
  A push that returns sends exactly one poke, and it is one any replica may take: the
  operations since the version the push started from, which every accepted cursor of that
  version covers, with the client's LMID as stored. It goes to every ready socket if a row
  changed, and otherwise to the pusher alone.
\<close>

theorem push_pokes:
  assumes "do_inv True cfg st" "known (do_db st) (at_clientId a)" "at_ready a" "handlePush cfg ev ws a ms st = (st', None)"
  shows "\<exists>s base ops p rs. st' = sendPoke cfg ev (if ops \<noteq> [] then readySockets s else [ws]) base p
        (Some [(at_clientId a, lastMutationId (do_db s) (at_clientId a))]) rs s \<and>
      pack_ops cfg ops = Inr p \<and> offered s (base, ops, current_cursor s) \<and> do_inv True cfg s"
proof -
  let ?c = "at_clientId a" and ?f = "\<lambda>c :: Counters. c\<lparr>ct_pushes := ct_pushes c + 1\<rparr>"
  define st0 where "st0 = count ?f st"
  define r where "r = push_loop cfg ev ws a ms st0 (lastMutationId (do_db st0) ?c) []"
  have s0: "socket_step st st0" and db: "do_db st0 = do_db st" "do_meta st0 = do_meta st" by (simp_all add: st0_def)
  have R: "do_inv True cfg (pl_do r)" "push_effect ?c (pl_lmid r) st0 (pl_do r)"
    using push_loop_spec [OF do_inv_step [OF s0 assms(1)], of a "lastMutationId (do_db st0) ?c" r ev ws ms "[]"] assms(2)
    by (simp_all add: r_def db)
  note I = do_invD [OF R(1)] and I0 = do_invD [OF assms(1)]
  have l: "lastMutationId (do_db (pl_do r)) ?c = pl_lmid r" and v: "m_currentVersion (do_meta st0) \<le> m_currentVersion (do_meta (pl_do r))"
      "m_minCursorVersion (do_meta (pl_do r)) = m_minCursorVersion (do_meta st)" "m_backendId (do_meta (pl_do r)) = m_backendId (do_meta st)"
    using R(2) by (simp_all add: push_effect_def db)
  have h: "(case pl_thrown r of Some e \<Rightarrow> (pl_do r, Some e)
      | None \<Rightarrow>
          if pl_lmid r = lastMutationId (do_db st0) ?c then
            (case pack_ops cfg [] of Inl e \<Rightarrow> (pl_do r, Some e)
             | Inr p \<Rightarrow> (sendPoke cfg ev [ws] (Some (current_cursor (pl_do r))) p (Some [(?c, pl_lmid r)]) [] (pl_do r), None))
          else
            (case pack_ops cfg (patchSince (pl_do r) (m_currentVersion (do_meta st0))) of Inl e \<Rightarrow> (pl_do r, Some e)
             | Inr p \<Rightarrow>
                (sendPoke cfg ev (if patchSince (pl_do r) (m_currentVersion (do_meta st0)) \<noteq> [] then readySockets (pl_do r) else [ws])
                   (Some \<lparr>backendId = m_backendId (do_meta (pl_do r)), cversion = m_currentVersion (do_meta st0)\<rparr>) p
                   (Some [(?c, pl_lmid r)]) (pl_results r) (pl_do r), None))) = (st', None)"
    using assms(3,4) unfolding handlePush_def Let_def r_def st0_def by simp
  show ?thesis
  proof (cases "pl_lmid r = lastMutationId (do_db st0) ?c")
    case True
    then obtain p where p: "pack_ops cfg [] = Inr p"
        "st' = sendPoke cfg ev [ws] (Some (current_cursor (pl_do r))) p (Some [(?c, pl_lmid r)]) [] (pl_do r)"
      using h by (auto split: option.splits sum.splits)
    have "patchSince (pl_do r) (m_currentVersion (do_meta (pl_do r))) = []"
      using since_current [OF I(2)] by (simp add: patchSince_def)
    then have "offered (pl_do r) (Some (current_cursor (pl_do r)), [], current_cursor (pl_do r))"
      using I(4) unfolding offered_def by (auto simp: cursor_valid_def current_cursor_def)
    with p l R(1) show ?thesis
      by (intro exI [of _ "pl_do r"] exI [of _ "Some (current_cursor (pl_do r))"] exI [of _ "[]"] exI [of _ p] exI [of _ "[]"]) simp
  next
    case False
    let ?b = "\<lparr>backendId = m_backendId (do_meta (pl_do r)), cversion = m_currentVersion (do_meta st0)\<rparr>"
      and ?ops = "patchSince (pl_do r) (m_currentVersion (do_meta st0))"
    obtain p where p: "pack_ops cfg ?ops = Inr p"
        "st' = sendPoke cfg ev (if ?ops \<noteq> [] then readySockets (pl_do r) else [ws]) (Some ?b) p (Some [(?c, pl_lmid r)]) (pl_results r) (pl_do r)"
      using h False by (auto split: option.splits sum.splits)
    have "cursor_valid (pl_do r) (Some ?b)" using v I0(4) by (simp add: cursor_valid_def db)
    then have "offered (pl_do r) (Some ?b, ?ops, current_cursor (pl_do r))" by (auto simp: offered_def)
    with p l R(1) show ?thesis
      by (intro exI [of _ "pl_do r"] exI [of _ "Some ?b"] exI [of _ ?ops] exI [of _ p] exI [of _ "pl_results r"]) simp
  qed
qed

theorem push_pokes_witness:
  "\<exists>s base ops p. pack_ops demo_cfg ops = Inr p \<and> offered s (base, ops, current_cursor s) \<and> do_inv True demo_cfg s"
proof -
  obtain st' where h: "handlePush demo_cfg demo_env 1 demo_att [demo_mutation] demo_do = (st', None)"
    using demo_push by blast
  have "at_ready demo_att" by (simp add: demo_att_def)
  from push_pokes [OF demo_do_inv demo_known this h] show ?thesis by blast
qed

text \<open>
  A hello that is answered gets a poke it may take: the operations since its cursor if the
  workspace accepts that cursor, or else a snapshot; with its client's LMID. The socket is ready
  from then on, and the data is as it was.
\<close>

theorem hello_pokes:
  assumes "do_inv x cfg st" "protocolVersion = PROTOCOL_VERSION" "schemaVersion = app_version (cf_app cfg)"
    and "handleHello cfg ev ws a protocolVersion schemaVersion cursor st = (st', None)"
  shows "\<exists>s base ops p. pack_ops cfg ops = Inr p \<and> offered s (base, ops, current_cursor s) \<and>
      base = (if cursor_valid st cursor then cursor else None) \<and> hello_effect (at_clientId a) st s \<and>
      (let s' = serializeAttachment ws (a\<lparr>at_ready := True\<rparr>)
                  (sendPoke cfg ev [ws] base p (Some [(at_clientId a, lastMutationId (do_db s) (at_clientId a))]) [] s)
       in st' = (if app_presence (cf_app cfg) = None then s'
                 else deliver cfg ev ws [FText (json_text (enc_server_msg (PresencePeers (peers_of (at_clientId a) s'))))] s'))"
proof -
  let ?c = "at_clientId a"
  obtain l s1 where t: "touchClient ev ?c st = (l, s1)" by (cases "touchClient ev ?c st")
  have T: "do_inv x cfg s1" "hello_effect ?c st s1" "l = lastMutationId (do_db s1) ?c"
    using touch_spec [OF assms(1), where ev = ev and c = ?c] by (simp_all add: t hello_effect_def)
  have meta: "do_meta s1 = do_meta st" using T(2) by (simp add: hello_effect_def)
  have cv: "cursor_valid s1 cursor = cursor_valid st cursor" unfolding cursor_valid_def meta ..
  define s where "s = (if cursor_valid s1 cursor then s1 else snd (bootstrapPatch cfg s1))"
  define base where "base = (if cursor_valid s1 cursor then cursor else None)"
  define ops where "ops = (if cursor_valid s1 cursor then patchSince s1 (cversion (the cursor)) else snapshot_ops (db_rows (do_db s1)))"
  note B = bootstrap_spec [OF T(1)]
  have s: "do_db s = do_db s1" "do_meta s = do_meta s1"
    using B(3) by (auto simp: s_def)
  have ps: "(if cursor_valid s1 cursor then (pack_ops cfg (patchSince s1 (cversion (the cursor))), s1) else bootstrapPatch cfg s1)
      = (pack_ops cfg ops, s)"
    using B(1) by (simp add: s_def ops_def prod_eq_iff)
  have "(case pack_ops cfg ops of Inl e \<Rightarrow> (s, Some e)
      | Inr p \<Rightarrow> let st = sendPoke cfg ev [ws] base p (Some [(?c, l)]) [] s; st = serializeAttachment ws (a\<lparr>at_ready := True\<rparr>) st
               in (if app_presence (cf_app cfg) = None then st
                   else deliver cfg ev ws
                          [FText (json_text (enc_server_msg (PresencePeers (peers_of ?c st))))] st, None)) = (st', None)"
    using assms(4) unfolding handleHello_def t Let_def prod.case ps base_def by (simp add: assms(2,3))
  then obtain p where p: "pack_ops cfg ops = Inr p" and st': "(let st = sendPoke cfg ev [ws] base p (Some [(?c, l)]) [] s;
      st = serializeAttachment ws (a\<lparr>at_ready := True\<rparr>) st in (if app_presence (cf_app cfg) = None then st
                   else deliver cfg ev ws [FText (json_text (enc_server_msg (PresencePeers (peers_of ?c st))))] st)) = st'"
    by (auto simp: Let_def split: sum.splits)
  have "offered s (base, ops, current_cursor s)"
  proof (cases "cursor_valid s1 cursor")
    case True
    then obtain c where "cursor = Some c" by (cases cursor) (simp_all add: cursor_valid_def)
    with True show ?thesis by (auto simp: offered_def base_def ops_def s_def)
  qed (simp add: offered_def base_def ops_def s)
  moreover have "hello_effect ?c st s" using T(2) by (simp add: hello_effect_def s)
  moreover have "base = (if cursor_valid st cursor then cursor else None)" by (simp add: base_def cv)
  moreover have "l = lastMutationId (do_db s) ?c" using T(3) by (simp add: s)
  ultimately show ?thesis using p st' unfolding Let_def by blast
qed

theorem hello_pokes_witness:
  "\<exists>(s :: unit WorkspaceDO) base ops p. pack_ops demo_cfg ops = Inr p \<and> offered s (base, ops, current_cursor s)
    \<and> base = Some (current_cursor demo_do)"
proof -
  define cur where "cur = Some (current_cursor demo_do)"
  have v: "cursor_valid demo_do cur"
    using do_invD(4) [OF demo_do_inv] by (simp add: cur_def cursor_valid_def current_cursor_def)
  obtain l s1 where t: "touchClient demo_env (at_clientId demo_att) demo_do = (l, s1)"
    by (cases "touchClient demo_env (at_clientId demo_att) demo_do")
  have T: "do_inv True demo_cfg s1" "hello_effect (at_clientId demo_att) demo_do s1"
    using touch_spec [OF demo_do_inv, where ev = demo_env and c = "at_clientId demo_att", unfolded t snd_conv] by blast+
  have meta: "do_meta s1 = do_meta demo_do" using T(2) by (simp add: hello_effect_def)
  have v1: "cursor_valid s1 cur" using v unfolding cursor_valid_def meta .
  have "patchSince s1 (cversion (the cur)) = []"
    using since_current [OF do_invD(2) [OF T(1)]] by (simp add: patchSince_def cur_def current_cursor_def meta)
  then obtain st' where h: "handleHello demo_cfg demo_env 1 demo_att PROTOCOL_VERSION (app_version (cf_app demo_cfg)) cur demo_do = (st', None)"
    using v1 pack_nil [of demo_cfg] unfolding handleHello_def t by (auto simp: Let_def)
  from hello_pokes [OF demo_do_inv refl refl h, unfolded if_P [OF v]] show ?thesis unfolding cur_def by blast
qed

section \<open>Histories\<close>

type_synonym tables = "Cursor \<Rightarrow> table option"

definition cursor_at :: "DB \<Rightarrow> Cursor" where
  "cursor_at d = \<lparr>backendId = m_backendId (kept d), cversion = m_currentVersion (kept d)\<rparr>"

definition note_table :: "DB \<Rightarrow> tables \<Rightarrow> tables" where
  "note_table d H = H(cursor_at d := Some (server_table (db_rows d)))"

text \<open>The id \<open>crypto.randomUUID\<close> returns for a new backend is not one seen before.\<close>

definition fresh_backend :: "Env \<Rightarrow> tables \<Rightarrow> bool" where
  "fresh_backend ev H \<longleftrightarrow> (\<forall>c. H c \<noteq> None \<longrightarrow> backendId c \<noteq> ev_newBackend ev)"

inductive history :: "'x Config \<Rightarrow> 'x WorkspaceDO \<Rightarrow> tables \<Rightarrow> Poke set \<Rightarrow> Replica set \<Rightarrow> bool" where
  start: "do_db st = empty_db \<Longrightarrow> do_sockets st = [] \<Longrightarrow> 1 \<le> app_version (cf_app cfg) \<Longrightarrow> st' = wake cfg ev st \<Longrightarrow>
    history cfg st' (note_table (do_db st') (\<lambda>_. None)) {} {}"
| event: "history cfg st H P R \<Longrightarrow> fresh_backend ev H \<Longrightarrow> st' = handle cfg ev e st \<Longrightarrow>
    history cfg st' (note_table (do_db st') H) P R"
| deploy: "history cfg st H P R \<Longrightarrow> 1 \<le> app_version (cf_app cfg') \<Longrightarrow> st' = wake cfg' ev st \<Longrightarrow>
    history cfg' st' (note_table (do_db st') H) P R"
| offer: "history cfg st H P R \<Longrightarrow> do_initError st = None \<Longrightarrow> offered st p \<Longrightarrow> history cfg st H (insert p P) R"
| join: "history cfg st H P R \<Longrightarrow> history cfg st H P (insert (None, tab) R)"
| deliver: "history cfg st H P R \<Longrightarrow> p \<in> P \<Longrightarrow> r \<in> R \<Longrightarrow> history cfg st H P (insert (take_poke p r) R)"

section \<open>The invariant\<close>

text \<open>The record agrees with storage: the current table is recorded, and accepted cursors are in sync.\<close>

definition record_ok :: "DB \<Rightarrow> tables \<Rightarrow> bool" where
  "record_ok d H \<longleftrightarrow> H (cursor_at d) = Some (server_table (db_rows d)) \<and>
     (\<forall>c tab. H c = Some tab \<longrightarrow> backendId c = m_backendId (kept d) \<longrightarrow>
        cversion c \<le> m_currentVersion (kept d) \<and>
        (m_minCursorVersion (kept d) \<le> cversion c \<longrightarrow> in_sync (cversion c) (db_rows d) tab))"

text \<open>A cursor the workspace has left behind: it will not be recorded any more.\<close>

definition settled :: "DB \<Rightarrow> tables \<Rightarrow> Cursor \<Rightarrow> bool" where
  "settled d H c \<longleftrightarrow> (\<exists>c'. H c' \<noteq> None \<and> backendId c' = backendId c) \<and>
     (backendId c = m_backendId (kept d) \<longrightarrow> cversion c \<le> m_currentVersion (kept d))"

fun poke_ok :: "DB \<Rightarrow> tables \<Rightarrow> Poke \<Rightarrow> bool" where
  "poke_ok d H (base, ops, c) \<longleftrightarrow>
     (ClearOp \<in> set ops \<longrightarrow> (\<forall>tab. H c = Some (apply_ops ops tab))) \<and>
     (case base of
        None \<Rightarrow> ClearOp \<in> set ops
      | Some b \<Rightarrow> settled d H b \<and> (\<forall>tab. H b = Some tab \<longrightarrow> H c = Some (apply_ops ops tab)))"

fun replica_ok :: "tables \<Rightarrow> Replica \<Rightarrow> bool" where
  "replica_ok H (r, tab) \<longleftrightarrow> (case r of None \<Rightarrow> True | Some c \<Rightarrow> H c = Some tab)"

lemma in_sync_current:
  assumes "rows_ok v rows" "in_sync v rows tab"
  shows "tab = server_table rows"
proof -
  have "apply_ops (since_ops rows v) tab = tab" using since_current [OF assms(1)] by (simp add: apply_ops_def)
  with since_converges [of rows v tab] assms show ?thesis by simp
qed

lemma no_clear_since: "ClearOp \<notin> set (since_ops rows v)"
  by (auto simp: since_ops_def row_op_def split: if_splits)

text \<open>Noting the table of the next state changes no entry, and no settled cursor's.\<close>

definition extends :: "DB \<Rightarrow> tables \<Rightarrow> tables \<Rightarrow> bool" where
  "extends d H H' \<longleftrightarrow> (\<forall>c tab. H c = Some tab \<longrightarrow> H' c = Some tab) \<and> (\<forall>c. settled d H c \<longrightarrow> H' c = H c)"

lemma cursor_eqI: "backendId a = backendId b \<Longrightarrow> cversion a = cversion b \<Longrightarrow> a = (b :: Cursor)"
  by simp

lemma note_forward:
  assumes "record_ok d H" "rows_ok (m_currentVersion (kept d)) (db_rows d)" "rows_ok (m_currentVersion (kept d')) (db_rows d')"
    and "m_minCursorVersion (kept d') \<le> m_currentVersion (kept d')" and f: "forward d d'"
  shows "record_ok d' (note_table d' H) \<and> extends d H (note_table d' H) \<and>
    (\<forall>c. settled d H c \<longrightarrow> settled d' (note_table d' H) c)"
proof -
  let ?v = "m_currentVersion (kept d)" and ?v' = "m_currentVersion (kept d')" and ?H = "note_table d' H"
  have b: "backendId (cursor_at d') = m_backendId (kept d)" "cversion (cursor_at d') = ?v'" "?v \<le> ?v'"
    using f by (simp_all add: forward_def cursor_at_def)
  have same: "?H c = H c" if "cversion c \<le> ?v" "backendId c = m_backendId (kept d)" "H c \<noteq> None \<or> ?v < ?v' \<or> c = cursor_at d" for c
  proof (cases "c = cursor_at d'")
    case True
    then have eq: "?v' = ?v" "cursor_at d' = cursor_at d"
      using that(1) b f by (simp_all add: forward_def cursor_at_def)
    have "in_sync ?v (db_rows d') (server_table (db_rows d))"
      using f assms(4) eq(1) in_sync_server [OF rows_ok_inv [OF assms(2)], of ?v] unfolding forward_def by simp
    then have "server_table (db_rows d) = server_table (db_rows d')"
      using in_sync_current [OF assms(3)] eq(1) by simp
    then show ?thesis using assms(1) True eq(2) by (simp add: note_table_def record_ok_def)
  qed (simp add: note_table_def)
  have same': "?H c = H c" if "H c \<noteq> None" for c
  proof (cases "backendId c = m_backendId (kept d)")
    case True
    then show ?thesis using same [of c] that assms(1) by (auto simp: record_ok_def)
  next
    case False
    then have "c \<noteq> cursor_at d'" using b(1) by auto
    then show ?thesis by (simp add: note_table_def)
  qed
  have settle: "?H c = H c" if "settled d H c" for c
  proof (cases "c = cursor_at d'")
    case True
    then have "cversion c \<le> ?v" "backendId c = m_backendId (kept d)" using that b by (simp_all add: settled_def)
    moreover from this have "?v' \<le> ?v" using True b(2) by simp
    then have "cursor_at d' = cursor_at d" using b by (simp add: cursor_at_def)
    ultimately show ?thesis using same [of c] True by blast
  qed (simp add: note_table_def)
  have "record_ok d' ?H"
    unfolding record_ok_def
  proof (intro conjI allI impI)
    show "?H (cursor_at d') = Some (server_table (db_rows d'))" by (simp add: note_table_def)
    fix c tab assume c: "?H c = Some tab" "backendId c = m_backendId (kept d')"
    show "cversion c \<le> ?v'"
      using c assms(1) b f by (cases "c = cursor_at d'") (fastforce simp: note_table_def record_ok_def forward_def)+
    assume m: "m_minCursorVersion (kept d') \<le> cversion c"
    show "in_sync (cversion c) (db_rows d') tab"
    proof (cases "c = cursor_at d'")
      case True
      then show ?thesis using c(1) in_sync_server [OF rows_ok_inv [OF assms(3)]] by (simp add: note_table_def)
    next
      case False
      then have "H c = Some tab" "backendId c = m_backendId (kept d)"
        using c f by (simp_all add: note_table_def forward_def)
      then have "cversion c \<le> ?v" "m_minCursorVersion (kept d) \<le> cversion c \<longrightarrow> in_sync (cversion c) (db_rows d) tab"
        using assms(1) unfolding record_ok_def by blast+
      then show ?thesis using f m unfolding forward_def by auto
    qed
  qed
  moreover have "extends d H ?H" unfolding extends_def using same' settle by auto
  moreover have "settled d' ?H c" if "settled d H c" for c
    using that same' b(3) f unfolding settled_def forward_def by (metis dual_order.trans)
  ultimately show ?thesis by blast
qed

lemma note_new:
  assumes "record_ok d H" "rows_ok (m_currentVersion (kept d')) (db_rows d')"
    and fr: "\<forall>c. H c \<noteq> None \<longrightarrow> backendId c \<noteq> m_backendId (kept d')"
  shows "record_ok d' (note_table d' H) \<and> extends d H (note_table d' H) \<and>
    (\<forall>c. settled d H c \<longrightarrow> settled d' (note_table d' H) c)"
proof -
  let ?H = "note_table d' H"
  have b: "backendId (cursor_at d') = m_backendId (kept d')" by (simp add: cursor_at_def)
  have same: "?H c = H c" if "backendId c \<noteq> m_backendId (kept d')" for c
    using that b by (auto simp: note_table_def)
  have "record_ok d' ?H"
    unfolding record_ok_def
  proof (intro conjI allI impI)
    show "?H (cursor_at d') = Some (server_table (db_rows d'))" by (simp add: note_table_def)
    fix c tab assume c: "?H c = Some tab" "backendId c = m_backendId (kept d')"
    then have c': "c = cursor_at d'" "tab = server_table (db_rows d')"
      using fr by (auto simp: note_table_def split: if_splits)
    show "cversion c \<le> m_currentVersion (kept d')" by (simp add: c'(1) cursor_at_def)
    show "in_sync (cversion c) (db_rows d') tab"
      using in_sync_server [OF rows_ok_inv [OF assms(2)]] by (simp add: c')
  qed
  moreover have sb: "backendId c \<noteq> m_backendId (kept d')" if "settled d H c" for c
    using that fr unfolding settled_def by metis
  moreover have "extends d H ?H" unfolding extends_def using same fr sb by auto
  moreover have "settled d' ?H c" if "settled d H c" for c
    using that sb [OF that] same fr unfolding settled_def by metis
  ultimately show ?thesis by blast
qed

lemma poke_ok_extends:
  assumes "poke_ok d H p" "extends d H H'" "\<forall>c. settled d H c \<longrightarrow> settled d' H' c"
  shows "poke_ok d' H' p"
proof -
  obtain base ops c where p: "p = (base, ops, c)" by (cases p)
  have e: "\<And>x t. H x = Some t \<Longrightarrow> H' x = Some t" "\<And>x. settled d H x \<Longrightarrow> H' x = H x"
    using assms(2) unfolding extends_def by blast+
  have c: "ClearOp \<in> set ops \<longrightarrow> (\<forall>tab. H' c = Some (apply_ops ops tab))"
    using assms(1) e(1) unfolding p poke_ok.simps by blast
  show ?thesis
  proof (cases base)
    case None
    with assms(1) c show ?thesis by (simp add: p)
  next
    case (Some b)
    then have b: "settled d H b" "\<And>tab. H b = Some tab \<Longrightarrow> H c = Some (apply_ops ops tab)"
      using assms(1) unfolding p poke_ok.simps by simp_all
    have "H' c = Some (apply_ops ops tab)" if "H' b = Some tab" for tab
      using that b(2) e(1) e(2) [OF b(1)] by simp
    with b(1) assms(3) c show ?thesis unfolding p poke_ok.simps Some option.case by blast
  qed
qed

lemma replica_ok_extends: "replica_ok H r \<Longrightarrow> extends d H H' \<Longrightarrow> replica_ok H' r"
  by (cases r) (auto simp: extends_def split: option.splits)

lemma offered_ok:
  assumes "do_inv False cfg st" "record_ok (do_db st) H" "offered st p"
  shows "poke_ok (do_db st) H p"
proof -
  note I = do_invD [OF assms(1)]
  have k: "kept (do_db st) = do_meta st" by (rule kept_synced [OF I(1)])
  have cur: "current_cursor st = cursor_at (do_db st)" by (simp add: current_cursor_def cursor_at_def k)
  have rec: "H (current_cursor st) = Some (server_table (db_rows (do_db st)))"
    using assms(2) by (simp add: record_ok_def cur)
  have sq: "sql_inv (db_rows (do_db st))" using I(2) by simp
  from assms(3) show ?thesis
    unfolding offered_def
  proof (elim disjE exE conjE)
    assume p: "p = (None, snapshot_ops (db_rows (do_db st)), current_cursor st)"
    have "ClearOp \<in> set (snapshot_ops (db_rows (do_db st)))" by (simp add: snapshot_ops_def)
    then show ?thesis using rec snapshot_converges [OF sq] by (simp add: p)
  next
    fix c assume v: "cursor_valid st (Some c)" and p: "p = (Some c, patchSince st (cversion c), current_cursor st)"
    have b: "backendId c = m_backendId (do_meta st)" "m_minCursorVersion (do_meta st) \<le> cversion c"
        "cversion c \<le> m_currentVersion (do_meta st)"
      using v by (simp_all add: cursor_valid_def)
    have "settled (do_db st) H c"
      using rec b by (auto simp: settled_def k current_cursor_def intro!: exI [of _ "current_cursor st"])
    moreover have "H (current_cursor st) = Some (apply_ops (patchSince st (cversion c)) tab)" if "H c = Some tab" for tab
    proof -
      have "in_sync (cversion c) (db_rows (do_db st)) tab"
        using assms(2) that b unfolding record_ok_def k by blast
      then show ?thesis using rec since_converges [OF sq] by (simp add: patchSince_def)
    qed
    ultimately show ?thesis using no_clear_since by (simp add: p patchSince_def)
  qed
qed

lemma take_poke_ok:
  assumes "poke_ok d H p" "replica_ok H r"
  shows "replica_ok H (take_poke p r)"
proof -
  obtain base ops c where p: "p = (base, ops, c)" by (cases p)
  obtain r0 tab where r: "r = (r0, tab)" by (cases r)
  show ?thesis using assms unfolding p r by (cases base; cases r0) auto
qed

definition history_ok :: "'x Config \<Rightarrow> 'x WorkspaceDO \<Rightarrow> tables \<Rightarrow> Poke set \<Rightarrow> Replica set \<Rightarrow> bool" where
  "history_ok cfg st H P R \<longleftrightarrow> sound cfg st \<and> 1 \<le> app_version (cf_app cfg) \<and> record_ok (do_db st) H \<and>
     (\<forall>p \<in> P. poke_ok (do_db st) H p) \<and> (\<forall>r \<in> R. replica_ok H r)"

lemma stored_rows:
  assumes "sound cfg st"
  shows "rows_ok (m_currentVersion (kept (do_db st))) (db_rows (do_db st))"
    "m_minCursorVersion (kept (do_db st)) \<le> m_currentVersion (kept (do_db st))"
  using assms by (simp_all add: sound_def stored_ok_def)

lemma history_ok_next:
  assumes "history_ok cfg st H P R" "sound cfg' st'" "1 \<le> app_version (cf_app cfg')"
    and "record_ok (do_db st') H' \<and> extends (do_db st) H H' \<and> (\<forall>c. settled (do_db st) H c \<longrightarrow> settled (do_db st') H' c)"
  shows "history_ok cfg' st' H' P R"
  using assms poke_ok_extends replica_ok_extends unfolding history_ok_def by blast

lemma history_invariant: "history cfg st H P R \<Longrightarrow> history_ok cfg st H P R"
proof (induction rule: history.induct)
  case (start st cfg st' ev)
  have s: "sound cfg st'" using wake_first [OF start(1,3,4)] by simp
  have "record_ok (do_db st') (note_table (do_db st') (\<lambda>_. None))"
    using in_sync_server [OF rows_ok_inv [OF stored_rows(1) [OF s]]]
    by (auto simp: record_ok_def note_table_def cursor_at_def split: if_splits)
  with s start(3) show ?case by (simp add: history_ok_def)
next
  case (event cfg st H P R ev st' e)
  have a: "sound cfg st" "1 \<le> app_version (cf_app cfg)" "record_ok (do_db st) H"
    using event.IH by (simp_all add: history_ok_def)
  note S = handle_sound [OF a(1,2) event.hyps(3)]
  have "record_ok (do_db st') (note_table (do_db st') H) \<and> extends (do_db st) H (note_table (do_db st') H) \<and>
      (\<forall>c. settled (do_db st) H c \<longrightarrow> settled (do_db st') (note_table (do_db st') H) c)"
    using S note_forward [OF a(3) stored_rows(1) [OF a(1)]] note_new [OF a(3)] stored_rows [of cfg st'] event.hyps(2)
    unfolding fresh_backend_def by metis
  then show ?case using history_ok_next [OF event.IH _ a(2)] S by blast
next
  case (deploy cfg st H P R cfg' st' ev)
  have a: "sound cfg st" "record_ok (do_db st) H"
    using deploy.IH by (simp_all add: history_ok_def)
  note S = wake_sound [OF a(1) deploy.hyps(2,3)]
  then have "record_ok (do_db st') (note_table (do_db st') H) \<and> extends (do_db st) H (note_table (do_db st') H) \<and>
      (\<forall>c. settled (do_db st) H c \<longrightarrow> settled (do_db st') (note_table (do_db st') H) c)"
    using note_forward [OF a(2) stored_rows(1) [OF a(1)] stored_rows [of cfg' st']] by blast
  then show ?case using history_ok_next [OF deploy.IH _ deploy.hyps(2)] S by blast
next
  case (offer cfg st H P R p)
  then have "do_inv False cfg st" "record_ok (do_db st) H" by (simp_all add: history_ok_def sound_def)
  from offered_ok [OF this offer.hyps(3)] offer.IH show ?case by (simp add: history_ok_def)
next
  case (deliver cfg st H P R p r)
  then show ?case using take_poke_ok unfolding history_ok_def by blast
qed (simp add: history_ok_def)

text \<open>
  C1: Convergence, over every history of the workspace (mutations of any clients, compaction,
  imports, resets, failed and successful deploys with schema migrations, in any order) and every
  delivery of its pokes (late, repeated, out of order, or never): a replica shows exactly the
  table the workspace had at the replica's cursor; at the current cursor that is the current
  table; and a replica whose cursor the workspace accepts becomes current by the operations
  since that cursor.
\<close>

theorem replicas_consistent:
  assumes "history cfg st H P R" "(Some c, tab) \<in> R" "do_initError st = None"
  shows "H c = Some tab \<and>
    (c = current_cursor st \<longrightarrow> tab = server_table (db_rows (do_db st))) \<and>
    (cursor_valid st (Some c) \<longrightarrow> apply_ops (patchSince st (cversion c)) tab = server_table (db_rows (do_db st)))"
proof -
  have h: "history_ok cfg st H P R" by (rule history_invariant [OF assms(1)])
  then have s: "sound cfg st" "record_ok (do_db st) H" "H c = Some tab"
    using assms(2) by (auto simp: history_ok_def)
  have k: "kept (do_db st) = do_meta st" by (rule sound_meta [OF s(1) assms(3)])
  have "tab = server_table (db_rows (do_db st))" if "c = current_cursor st"
    using s(2,3) that by (simp add: record_ok_def cursor_at_def current_cursor_def k)
  moreover have "apply_ops (patchSince st (cversion c)) tab = server_table (db_rows (do_db st))" if "cursor_valid st (Some c)"
  proof -
    have "in_sync (cversion c) (db_rows (do_db st)) tab"
      using s(2,3) that by (simp add: record_ok_def k cursor_valid_def)
    then show ?thesis
      using since_converges [OF rows_ok_inv [OF stored_rows(1) [OF s(1)]]] by (simp add: patchSince_def)
  qed
  ultimately show ?thesis using s(3) by blast
qed

theorem replicas_consistent_witness:
  "\<exists>st H P R c tab. history demo_cfg st H P R \<and> (Some c, tab) \<in> R \<and> do_initError st = None \<and> H c = Some tab"
proof -
  define st where "st = wake demo_cfg demo_env (demo_do\<lparr>do_db := empty_db, do_sockets := []\<rparr>)"
  define p where "p = (None :: Cursor option, snapshot_ops (db_rows (do_db st)), current_cursor st)"
  have v: "1 \<le> app_version (cf_app demo_cfg)" by (simp add: demo_cfg_def demo_app_def)
  have "do_db (demo_do\<lparr>do_db := empty_db, do_sockets := []\<rparr>) = empty_db" by simp
  from wake_first [OF this v st_def] have e: "do_initError st = None" by blast
  have "history demo_cfg st (note_table (do_db st) (\<lambda>_. None)) {} {}"
    by (rule history.start [OF _ _ v st_def]) simp_all
  then have "history demo_cfg st (note_table (do_db st) (\<lambda>_. None)) {p} {}"
    by (rule history.offer [OF _ e]) (simp add: p_def offered_def)
  then have "history demo_cfg st (note_table (do_db st) (\<lambda>_. None)) {p} {(None, \<lambda>_. None)}"
    by (rule history.join)
  then have h: "history demo_cfg st (note_table (do_db st) (\<lambda>_. None)) {p} (insert (take_poke p (None, \<lambda>_. None)) {(None, \<lambda>_. None)})"
    by (rule history.deliver [OF _ singletonI singletonI])
  have "take_poke p (None, \<lambda>_. None) = (Some (current_cursor st), apply_ops (snapshot_ops (db_rows (do_db st))) (\<lambda>_. None))"
    unfolding p_def take_poke.simps by simp
  then have "(Some (current_cursor st), apply_ops (snapshot_ops (db_rows (do_db st))) (\<lambda>_. None))
      \<in> insert (take_poke p (None, \<lambda>_. None)) {(None, \<lambda>_. None)}"
    by (metis insertI1)
  with replicas_consistent [OF h this e] h e show ?thesis by blast
qed

end
