(* ===== verification/Sessions.thy ===== *)
theory Sessions
  imports Replicas
begin

text \<open>
  Who is who on the wire: every presence entry is attested by the socket that set it, a client
  has one live socket, and what an event may do to sockets and presence.
\<close>

section \<open>Steps that keep identities\<close>

definition same_identity :: "Attachment \<Rightarrow> Attachment \<Rightarrow> bool" where
  "same_identity a b \<longleftrightarrow> at_clientId b = at_clientId a \<and> at_principal b = at_principal a \<and> (at_ready a \<longrightarrow> at_ready b)"

lemma same_identity_refl [simp]: "same_identity a a"
  by (simp add: same_identity_def)

lemma same_identity_kept: "att_kept a b \<Longrightarrow> same_identity a b"
  by (auto simp: att_kept_def same_identity_def)

definition shell_step :: "'x WorkspaceDO \<Rightarrow> 'x WorkspaceDO \<Rightarrow> bool" where
  "shell_step st st' \<longleftrightarrow>
     list_all2 (\<lambda>k k'. sk_id k' = sk_id k \<and> same_identity (sk_att k) (sk_att k')) (do_sockets st) (do_sockets st') \<and>
     set (do_presence st') \<subseteq> set (do_presence st) \<and> do_next st' = do_next st"

lemma shell_refl [simp]: "shell_step st st"
  by (simp add: shell_step_def list_all2_same)

lemma shell_trans: "shell_step a b \<Longrightarrow> shell_step b c \<Longrightarrow> shell_step a c"
  unfolding shell_step_def same_identity_def list_all2_conv_all_nth by auto

lemma shell_socket: "socket_step st st' \<Longrightarrow> shell_step st st'"
  unfolding socket_step_def shell_step_def sockets_kept_def same_core_def
  by (auto elim!: list_all2_mono intro: same_identity_kept)

lemma shell_fields:
  "do_sockets st' = do_sockets st \<Longrightarrow> do_presence st' = do_presence st \<Longrightarrow> do_next st' = do_next st \<Longrightarrow> shell_step st st'"
  by (simp add: shell_step_def list_all2_same)

lemma shell_then: "shell_step a b \<Longrightarrow> socket_step b c \<Longrightarrow> shell_step a c"
  using shell_trans shell_socket by blast

lemma find_distinct: "distinct (map f xs) \<Longrightarrow> x \<in> set xs \<Longrightarrow> find (\<lambda>y. f y = f x) xs = Some x"
  by (induction xs) auto

lemma att_of:
  assumes "distinct (map sk_id (do_sockets st))" "k \<in> set (do_sockets st)"
  shows "att st (sk_id k) = Some (sk_att k)"
  using find_distinct [OF assms] by (simp add: att_def socket_of_def)

lemma att_in: "att st s = Some a \<Longrightarrow> \<exists>k \<in> set (do_sockets st). sk_id k = s \<and> sk_att k = a"
  by (auto simp: att_def socket_of_def dest: find_SomeD)

section \<open>Attested presence\<close>

definition attested :: "'x Config \<Rightarrow> 'x WorkspaceDO \<Rightarrow> bool" where
  "attested cfg st \<longleftrightarrow>
     (app_presence (cf_app cfg) = None \<longrightarrow> do_presence st = []) \<and>
     distinct (map sk_id (do_sockets st)) \<and> (\<forall>k \<in> set (do_sockets st). sk_id k < do_next st) \<and>
     (\<forall>(c, e) \<in> set (do_presence st). \<exists>k \<in> set (do_sockets st). sk_id k = pe_ws e \<and> at_clientId (sk_att k) = c \<and>
        at_principal (sk_att k) = pe_principal e \<and> at_ready (sk_att k))"

lemma shell_sockets:
  assumes "shell_step st st'"
  shows "map sk_id (do_sockets st') = map sk_id (do_sockets st)"
    and "k \<in> set (do_sockets st) \<Longrightarrow> \<exists>k' \<in> set (do_sockets st'). sk_id k' = sk_id k \<and> same_identity (sk_att k) (sk_att k')"
proof -
  have l: "list_all2 (\<lambda>k k'. sk_id k' = sk_id k \<and> same_identity (sk_att k) (sk_att k')) (do_sockets st) (do_sockets st')"
    using assms by (simp add: shell_step_def)
  then show "map sk_id (do_sockets st') = map sk_id (do_sockets st)"
    by (induction rule: list_all2_induct) auto
  show "\<exists>k' \<in> set (do_sockets st'). sk_id k' = sk_id k \<and> same_identity (sk_att k) (sk_att k')" if "k \<in> set (do_sockets st)"
    using l that by (induction rule: list_all2_induct) auto
qed

lemma attested_shell:
  assumes "attested cfg st" "shell_step st st'"
  shows "attested cfg st'"
proof -
  have p: "set (do_presence st') \<subseteq> set (do_presence st)" "do_next st' = do_next st"
    using assms(2) by (simp_all add: shell_step_def)
  note S = shell_sockets [OF assms(2)]
  have "\<forall>k \<in> set (do_sockets st'). sk_id k < do_next st'"
  proof
    fix k assume "k \<in> set (do_sockets st')"
    then have "sk_id k \<in> set (map sk_id (do_sockets st))" unfolding S(1) [symmetric] by simp
    then show "sk_id k < do_next st'" using assms(1) p(2) by (auto simp: attested_def)
  qed
  moreover have "\<exists>k \<in> set (do_sockets st'). sk_id k = pe_ws e \<and> at_clientId (sk_att k) = c \<and>
        at_principal (sk_att k) = pe_principal e \<and> at_ready (sk_att k)" if "(c, e) \<in> set (do_presence st')" for c e
  proof -
    obtain k where k: "k \<in> set (do_sockets st)" "sk_id k = pe_ws e" "at_clientId (sk_att k) = c"
        "at_principal (sk_att k) = pe_principal e" "at_ready (sk_att k)"
      using assms(1) p(1) \<open>(c, e) \<in> set (do_presence st')\<close> unfolding attested_def by blast
    obtain k' where "k' \<in> set (do_sockets st')" "sk_id k' = sk_id k" "same_identity (sk_att k) (sk_att k')"
      using S(2) [OF k(1)] by blast
    with k show ?thesis by (intro bexI [of _ k']) (auto simp: same_identity_def)
  qed
  moreover have "app_presence (cf_app cfg) = None \<longrightarrow> do_presence st' = []"
    using assms(1) p(1) by (auto simp: attested_def)
  ultimately show ?thesis using assms(1) S(1) unfolding attested_def by auto
qed

section \<open>The handlers\<close>

lemma shell_serialize:
  assumes "distinct (map sk_id (do_sockets st))" "att st s = Some b" "same_identity b a"
  shows "shell_step st (serializeAttachment s a st)"
proof -
  have "same_identity (sk_att k) a" if "k \<in> set (do_sockets st)" "sk_id k = s" for k
    using att_of [OF assms(1) that(1)] that(2) assms(2,3) by simp
  then show ?thesis
    by (simp add: shell_step_def serializeAttachment_def update_socket_def list_all2_map2 list_all2_same)
qed

lemma shell_apply: "applyMutation cfg ev a m st = Inr (st', err) \<Longrightarrow> shell_step st st'"
  by (auto simp: applyMutation_def Let_def notifyCommitted_def emit_def intro!: shell_fields
      split: sum.splits err.splits option.splits if_splits)

lemma shell_push_loop: "shell_step st (pl_do (push_loop cfg ev ws a ms st lmid results))"
proof (induction cfg ev ws a ms st lmid results rule: push_loop.induct)
  case (2 cfg ev ws a m ms st lmid results)
  have cnt: "shell_step s (count f s)" for f and s :: "'a WorkspaceDO"
    by (rule shell_socket) simp
  consider (skip) "mut_id m < lmid + 1" | (gap) "\<not> mut_id m < lmid + 1" "lmid + 1 < mut_id m"
    | (turn) "\<not> mut_id m < lmid + 1" "\<not> lmid + 1 < mut_id m" by linarith
  then show ?case
  proof cases
    case skip
    then show ?thesis using shell_trans [OF cnt "2.IH"(1) [OF skip]] by simp
  next
    case gap
    then show ?thesis using shell_socket [OF step_sendError] by simp
  next
    case turn
    show ?thesis
    proof (cases "applyMutation cfg ev a m st")
      case (Inr x)
      obtain st1 err where x: "x = (st1, err)" by (cases x)
      from shell_trans [OF shell_trans [OF shell_apply [OF Inr [unfolded x]] cnt] "2.IH"(2) [OF turn Inr x [symmetric]]]
      show ?thesis using turn Inr x by simp
    qed (use turn in simp)
  qed
qed simp

lemma shell_push: "shell_step st (fst (handlePush cfg ev ws a ms st))"
proof (cases "at_ready a")
  case True
  define st0 where "st0 = count (\<lambda>c. c\<lparr>ct_pushes := ct_pushes c + 1\<rparr>) st"
  define r where "r = push_loop cfg ev ws a ms st0 (lastMutationId (do_db st0) (at_clientId a)) []"
  have "shell_step st (pl_do r)"
    unfolding r_def by (rule shell_trans [OF shell_socket shell_push_loop]) (simp add: st0_def)
  moreover have "socket_step (pl_do r) (fst (handlePush cfg ev ws a ms st))"
    using True unfolding handlePush_def Let_def r_def [symmetric] st0_def [symmetric]
    by (auto simp: step_sendPoke r_def st0_def split: option.split sum.split)
  ultimately show ?thesis by (rule shell_then)
qed (simp add: handlePush_def shell_socket step_sendError)

lemma shell_bootstrap: "shell_step st (snd (bootstrapPatch cfg st))"
  by (auto simp: bootstrapPatch_def Let_def intro: shell_fields split: option.splits sum.splits if_splits)

lemma shell_touch: "shell_step st (snd (touchClient ev c st))"
  by (rule shell_fields) (simp_all add: touchClient_def Let_def)

lemma att_shell:
  assumes "distinct (map sk_id (do_sockets st))" "shell_step st st'" "att st s = Some a"
  shows "\<exists>b. att st' s = Some b \<and> same_identity a b"
proof -
  obtain k where k: "k \<in> set (do_sockets st)" "sk_id k = s" "sk_att k = a" using att_in [OF assms(3)] by blast
  obtain k' where k': "k' \<in> set (do_sockets st')" "sk_id k' = sk_id k" "same_identity (sk_att k) (sk_att k')"
    using shell_sockets(2) [OF assms(2) k(1)] by blast
  have "distinct (map sk_id (do_sockets st'))" using assms(1) shell_sockets(1) [OF assms(2)] by simp
  from att_of [OF this k'(1)] k k' show ?thesis by auto
qed

text \<open>A hello re-serializes the attachment it was given, made ready.\<close>

lemma shell_hello:
  assumes "distinct (map sk_id (do_sockets st))" "att st ws = Some a"
  shows "shell_step st (fst (handleHello cfg ev ws a p v cur st))"
proof (cases "p \<noteq> PROTOCOL_VERSION \<or> v \<noteq> app_version (cf_app cfg)")
  case True
  then show ?thesis
    by (simp add: handleHello_def shell_socket [OF socket_step_trans [OF step_sendError step_closeSocket]])
next
  case False
  define st1 where "st1 = snd (touchClient ev (at_clientId a) st)"
  define valid where "valid = cursor_valid st1 cur"
  define ps where "ps = (if valid then (pack_ops cfg (patchSince st1 (cversion (the cur))), st1) else bootstrapPatch cfg st1)"
  have "shell_step st (snd (bootstrapPatch cfg st1))"
    unfolding st1_def by (rule shell_trans [OF shell_touch shell_bootstrap])
  then have s0: "shell_step st (snd ps)" by (simp add: ps_def) (simp add: st1_def shell_touch)
  obtain l where t: "touchClient ev (at_clientId a) st = (l, st1)"
    by (cases "touchClient ev (at_clientId a) st") (simp add: st1_def)
  obtain r s2 where ps: "ps = (r, s2)" by (cases ps)
  have s: "shell_step st (serializeAttachment ws (a\<lparr>at_ready := True\<rparr>) (sendPoke cfg ev ss base q lm rs s2))" for ss base q lm rs
  proof -
    have s1: "shell_step st (sendPoke cfg ev ss base q lm rs s2)"
      using shell_then [OF s0 step_sendPoke] by (simp add: ps)
    obtain b where "att (sendPoke cfg ev ss base q lm rs s2) ws = Some b" "same_identity a b"
      using att_shell [OF assms(1) s1 assms(2)] by blast
    moreover have "distinct (map sk_id (do_sockets (sendPoke cfg ev ss base q lm rs s2)))"
      using assms(1) shell_sockets(1) [OF s1] by simp
    ultimately have "shell_step (sendPoke cfg ev ss base q lm rs s2)
        (serializeAttachment ws (a\<lparr>at_ready := True\<rparr>) (sendPoke cfg ev ss base q lm rs s2))"
      using shell_serialize [of "sendPoke cfg ev ss base q lm rs s2" ws b "a\<lparr>at_ready := True\<rparr>"]
      by (simp add: same_identity_def)
    with s1 show ?thesis by (rule shell_trans)
  qed
  have d: "shell_step st (deliver cfg ev w fs (serializeAttachment ws (a\<lparr>at_ready := True\<rparr>) (sendPoke cfg ev ss base q lm rs s2)))"
    for ss base q lm rs w fs
    by (rule shell_then [OF s step_deliver])
  have "fst (handleHello cfg ev ws a p v cur st) = s2 \<or>
    shell_step st (fst (handleHello cfg ev ws a p v cur st))"
    unfolding handleHello_def if_not_P [OF False] t Let_def valid_def [symmetric] prod.case ps_def [symmetric] ps
    using s d by (auto split: sum.split)
  then show ?thesis using s0 by (auto simp: ps)
qed

text \<open>An announcement names the sender as its attachment does.\<close>

lemma attested_presence:
  assumes "attested cfg st" "att st ws = Some a"
  shows "attested cfg (handlePresence cfg ev ws a state st)"
proof -
  have e: "attested cfg (sendError ws PresenceInvalid m st)" for m
    by (rule attested_shell [OF assms(1) shell_socket [OF step_sendError]])
  have r: "attested cfg (relayPresence cfg ev f c p w s)" if "attested cfg s" for f c p w s
    by (rule attested_shell [OF that shell_socket [OF step_relayPresence]])
  have d: "attested cfg (st\<lparr>do_presence := AList.delete c (do_presence st)\<rparr>)" for c
    by (rule attested_shell [OF assms(1)]) (simp add: shell_step_def list_all2_same set_delete_le)
  obtain k where k: "k \<in> set (do_sockets st)" "sk_id k = ws" "sk_att k = a" using att_in [OF assms(2)] by blast
  have u: "attested cfg (st\<lparr>do_presence := AList.update (at_clientId a)
      \<lparr>pe_ws = ws, pe_principal = at_principal a, pe_state = v\<rparr> (do_presence st)\<rparr>)"
    if "at_ready a" "app_presence (cf_app cfg) \<noteq> None" for v
  proof -
    have sub: "set (AList.update x y m) \<subseteq> insert (x, y) (set m)" for x :: jstr and y :: PresenceEntry and m
      by (induction m) auto
    show ?thesis
      using assms(1) k that subsetD [OF sub] unfolding attested_def by (fastforce simp del: split_paired_All)
  qed
  show ?thesis
    unfolding handlePresence_def Let_def using assms(1) e r [OF d] r [OF u] by (auto split: option.split verdict.split)
qed

lemma shell_binary: "shell_step st (fst (binary_message cfg ev s a bytes st))"
proof -
  have e: "shell_step st (st\<lparr>do_extension := x\<rparr>)" for x by (rule shell_fields) simp_all
  show ?thesis
    using shell_then [OF e step_run_calls] shell_socket [OF step_sendError]
    by (auto simp: binary_message_def split: option.split prod.split)
qed

lemma attested_dispatch:
  assumes "attested cfg st" "att st s = Some a"
  shows "attested cfg (fst (dispatch cfg ev s a msg st))"
proof -
  have d: "distinct (map sk_id (do_sockets st))" using assms(1) by (simp add: attested_def)
  show ?thesis
    by (cases msg) (simp_all add: dispatch_def attested_presence [OF assms] attested_shell [OF assms(1) shell_push]
        attested_shell [OF assms(1) shell_hello [OF d assms(2)]])
qed

lemma attested_message:
  assumes "attested cfg st"
  shows "attested cfg (webSocketMessage cfg ev s raw st)"
proof -
  define r where "r a = (case raw of
                 BinaryFrame bytes \<Rightarrow> binary_message cfg ev s a bytes st
               | TextFrame None \<Rightarrow> (sendError s BadMessage (Some (js ''invalid JSON'')) st, None)
               | TextFrame (Some v) \<Rightarrow>
                   (case dec_client_msg v of
                      None \<Rightarrow> (sendError s BadMessage (Some (js ''unrecognized message shape'')) st, None)
                    | Some msg \<Rightarrow> dispatch cfg ev s a msg st))" for a
  have sock: "attested cfg y" if "attested cfg x" "socket_step x y" for x y
    by (rule attested_shell [OF that(1) shell_socket [OF that(2)]])
  have "attested cfg (fst (r a))" if "att st s = Some a" for a
    unfolding r_def using attested_shell [OF assms shell_binary] attested_dispatch [OF assms that] sock [OF assms step_sendError]
    by (auto split: Inbound.split option.split)
  moreover have "attested cfg (case e of None \<Rightarrow> x | Some _ \<Rightarrow> sendError s Internal None (emit (Logged ''internal error'') x))"
    if "attested cfg x" for x and e :: "err option"
    using that sock [OF that socket_step_trans [OF step_emit step_sendError]] by (auto split: option.split)
  ultimately have "attested cfg (case r a of (st, e) \<Rightarrow>
      (case e of None \<Rightarrow> st | Some _ \<Rightarrow> sendError s Internal None (emit (Logged ''internal error'') st)))" if "att st s = Some a" for a
    using that by (metis (no_types, lifting) prod.case_eq_if)
  then show ?thesis
    unfolding webSocketMessage_def r_def [symmetric] Let_def
    using assms sock [OF assms step_closeSocket] by (auto split: option.split)
qed

text \<open>Dropping a socket's presence leaves no entry of it, whatever else the cascade closes.\<close>

lemma drop_owner:
  assumes "attested cfg st" "(c, e) \<in> set (do_presence (dropPresence cfg ev s st))"
  shows "pe_ws e \<noteq> s"
proof
  assume own: "pe_ws e = s"
  have "socket_step st (dropPresence cfg ev s st)" by (rule step_dropPresence)
  then have mem: "(c, e) \<in> set (do_presence st)" using assms(2) by (auto simp: socket_step_def)
  then have ne: "app_presence (cf_app cfg) \<noteq> None" using assms(1) by (auto simp: attested_def)
  then obtain v where v: "app_presence (cf_app cfg) = Some v" by blast
  obtain c' e' where o: "owner_entry st s = Some (c', e')"
    using mem own by (cases "owner_entry st s") (auto simp: owner_entry_def find_None_iff)
  then have in': "(c', e') \<in> set (do_presence st)" "pe_ws e' = s" by (auto simp: owner_entry_def dest: find_SomeD)
  have same: "c' = c"
  proof -
    obtain k where k: "k \<in> set (do_sockets st)" "sk_id k = s" "at_clientId (sk_att k) = c"
      using assms(1) mem own unfolding attested_def by blast
    obtain k' where k': "k' \<in> set (do_sockets st)" "sk_id k' = s" "at_clientId (sk_att k') = c'"
      using assms(1) in' unfolding attested_def by blast
    have "distinct (map sk_id (do_sockets st))" using assms(1) by (simp add: attested_def)
    then have "k = k'" using k k' by (auto simp: distinct_map inj_on_def)
    with k k' show ?thesis by simp
  qed
  let ?st = "st\<lparr>do_presence := AList.delete c (do_presence st)\<rparr>"
  have eq: "dropPresence cfg ev s st = relay_with (dropPresence_fuel (length (do_presence st)) cfg ev) ev (Some s) c (pe_principal e') JNull ?st"
    using o same by (simp add: dropPresence_def v)
  have "socket_step ?st (dropPresence cfg ev s st)"
    unfolding eq relay_with_def by (rule step_deliver_each) (rule step_drop_fuel)
  then have "(c, e) \<in> set (AList.delete c (do_presence st))"
    using assms(2) by (auto simp: socket_step_def)
  then show False by (auto simp: AList.delete_eq)
qed

lemma attested_forget:
  assumes "attested cfg st" "\<And>c e. (c, e) \<in> set (do_presence st) \<Longrightarrow> pe_ws e \<noteq> s"
  shows "attested cfg (forget_socket s st)"
proof -
  have "\<exists>k \<in> set (do_sockets (forget_socket s st)). sk_id k = pe_ws e \<and> at_clientId (sk_att k) = c \<and>
        at_principal (sk_att k) = pe_principal e \<and> at_ready (sk_att k)" if m: "(c, e) \<in> set (do_presence st)" for c e
  proof -
    obtain k where "k \<in> set (do_sockets st)" "sk_id k = pe_ws e" "at_clientId (sk_att k) = c"
        "at_principal (sk_att k) = pe_principal e" "at_ready (sk_att k)"
      using assms(1) m unfolding attested_def by blast
    with assms(2) [OF m] show ?thesis by (intro bexI [of _ k]) (simp_all add: forget_socket_def)
  qed
  then have "\<forall>(c, e) \<in> set (do_presence st). \<exists>k \<in> set (do_sockets (forget_socket s st)). sk_id k = pe_ws e \<and>
      at_clientId (sk_att k) = c \<and> at_principal (sk_att k) = pe_principal e \<and> at_ready (sk_att k)"
    by blast
  moreover have f: "do_presence (forget_socket s st) = do_presence st" "do_next (forget_socket s st) = do_next st"
    "set (do_sockets (forget_socket s st)) \<subseteq> set (do_sockets st)"
    by (auto simp: forget_socket_def)
  moreover have "distinct (map sk_id (do_sockets (forget_socket s st)))"
    using assms(1) by (simp add: attested_def forget_socket_def distinct_map_filter)
  moreover have "app_presence (cf_app cfg) = None \<longrightarrow> do_presence st = []" "\<forall>k \<in> set (do_sockets st). sk_id k < do_next st"
    using assms(1) by (simp_all add: attested_def)
  ultimately show ?thesis unfolding attested_def f(1,2) by blast
qed

lemma attested_drop_forget:
  assumes "attested cfg st" "do_presence y = do_presence x" "do_sockets y = do_sockets x" "do_next y = do_next x"
    and x: "x = dropPresence cfg ev s st"
  shows "attested cfg (forget_socket s y)"
proof (rule attested_forget)
  have "attested cfg x" unfolding x by (rule attested_shell [OF assms(1) shell_socket [OF step_dropPresence]])
  then show "attested cfg y" by (rule attested_shell) (rule shell_fields; simp add: assms(2-4))
  show "pe_ws e \<noteq> s" if "(c, e) \<in> set (do_presence y)" for c e
    using that drop_owner [OF assms(1), of c e ev s] by (simp add: assms(2) x)
qed

lemma attested_closed:
  assumes "attested cfg st"
  shows "attested cfg (webSocketClose cfg ev s code reason st)" "attested cfg (webSocketError cfg ev s st)"
  unfolding webSocketClose_def webSocketError_def Let_def
  by (rule attested_drop_forget [OF assms _ _ _ refl]; simp add: emit_def)+

section \<open>Requests and wakes\<close>

lemma shell_stamp: "shell_step st (stamp_meta f st)"
  by (rule shell_fields) (simp_all add: stamp_meta_def)

lemma shell_emit: "shell_step st (emit e st)"
  by (rule shell_socket) simp

lemma shell_initExtension: "shell_step st (initExtension cfg st)"
  by (rule shell_fields) simp_all

lemma shell_setAlarm: "shell_step st (setAlarm cfg ev st)"
  by (rule shell_fields) simp_all

lemma shell_compact: "shell_step st (compact cfg st)"
  by (rule shell_fields) (simp_all add: compact_def Let_def stamp_meta_def)

lemma shell_export_loop: "shell_step st (fst (export_loop ev k prefix ws i n st))"
proof (induction n arbitrary: i st)
  case (Suc n)
  have g: "shell_step st (stamp_meta (\<lambda>m. m\<lparr>m_lastExportedSeq := q\<rparr>) (emit e st))" for q e
    by (rule shell_trans [OF shell_emit shell_stamp])
  show ?case
    using shell_trans [OF g Suc.IH] g by (simp add: Let_def)
qed simp

lemma shell_alarm: "shell_step st (fst (alarm cfg ev doId st))"
proof -
  define st1 where "st1 = (if cf_compactionDisabled cfg then st else compact cfg st)"
  define st2 where "st2 = (case cf_extension cfg of
                    None \<Rightarrow> st1
                  | Some x \<Rightarrow>
                      (case ext_alarm x of
                         None \<Rightarrow> st1
                       | Some f \<Rightarrow> st1\<lparr>do_extension := map_option f (do_extension st1)\<rparr>))"
  define r where "r = (case cf_export cfg of None \<Rightarrow> (st2, None) | Some xp \<Rightarrow> exportLog ev doId xp st2)"
  have "shell_step st st1" by (simp add: st1_def shell_compact)
  moreover have "shell_step st1 st2"
    by (rule shell_fields) (simp_all add: st2_def split: option.split)
  moreover have "shell_step st2 (fst r)"
    by (simp add: r_def exportLog_def shell_export_loop split: option.split)
  ultimately have "shell_step st (setAlarm cfg ev (fst r))" using shell_trans shell_setAlarm by blast
  moreover have "alarm cfg ev doId st = (if do_initError st \<noteq> None then (st, None)
      else case r of (st, e) \<Rightarrow> (setAlarm cfg ev st, e))"
    by (simp only: alarm_def Let_def st1_def st2_def r_def)
  ultimately show ?thesis by (auto simp: case_prod_beta)
qed

lemma shell_import: "shell_step st (fst (admin_import cfg ev body st))"
proof -
  have t: "shell_step st (st\<lparr>do_db := d, do_extension := xs, do_snapshot := None, do_meta := m\<rparr>)" for d xs m
    by (rule shell_fields) simp_all
  note c = shell_then [OF t step_close_all] and b = shell_trans [OF t shell_bootstrap]
  have i: "shell_step st (fst (import_rows cfg ev rows x mf st))" for rows x mf
    using c b shell_then [OF b step_sendPoke]
    by (auto simp: import_rows_def Let_def case_prod_beta split: sum.split)
  then show ?thesis by (auto simp: admin_import_def split: Body.split option.split sum.split)
qed

lemma shell_reset: "shell_step st (fst (admin_reset cfg ev rq st))"
proof -
  define w where "w = pick_name [m_workspaceId (do_meta st), or_default (rq_workspace rq) [], ev_doName ev]"
  define s1 where "s1 = st\<lparr>do_db := fresh_db cfg ev, do_snapshot := None, do_meta := fresh_meta cfg ev,
    do_initError := None, do_extension := None\<rparr>"
  define s2 where "s2 = (if w = [] then s1 else stamp_meta (\<lambda>m. m\<lparr>m_workspaceId := w\<rparr>) s1)"
  define s3 where "s3 = initExtension cfg s2"
  define s4 where "s4 = (case cf_extension cfg of
                      None \<Rightarrow> s3
                    | Some x \<Rightarrow> (case ext_reset x of None \<Rightarrow> s3 | Some f \<Rightarrow> s3\<lparr>do_extension := map_option f (do_extension s3)\<rparr>))"
  define s5 where "s5 = setAlarm cfg ev s4"
  have "shell_step st s1" by (rule shell_fields) (simp_all add: s1_def)
  moreover have "shell_step s1 s2" by (simp add: s2_def shell_stamp)
  moreover have "shell_step s2 s3" by (simp add: s3_def shell_initExtension)
  moreover have "shell_step s3 s4" by (rule shell_fields) (simp_all add: s4_def split: option.split)
  moreover have "shell_step s4 s5" by (simp add: s5_def shell_setAlarm)
  ultimately have s5: "shell_step st s5" using shell_trans by blast
  have "admin_reset cfg ev rq st = (case packPatch [CLEAR_OP] MAX_PART_PATCH_BYTES of
               Inl e \<Rightarrow> (s5, Threw (OtherError ''OversizeItemError''))
             | Inr p \<Rightarrow> (sendPoke cfg ev (readySockets s5) None p None [] s5,
                         JsonResponse 200 (JObj [(js ''backendId'', JStr (m_backendId (do_meta s5)))])))"
    by (simp only: admin_reset_def Let_def fresh_store bind_res_simps sum.case prod.case s1_def s2_def s3_def s4_def s5_def w_def)
  then show ?thesis
    using s5 shell_then [OF s5 step_sendPoke] by (auto split: sum.split)
qed

lemma shell_disconnect: "shell_step st (fst (admin_disconnect cfg ev body st))"
proof -
  have "shell_step st (fst (case disconnect_loop cfg ev b code reason ss n st of (st, n) \<Rightarrow> (st, f n)))"
    for b code reason ss n and f :: "nat \<Rightarrow> Response"
    using shell_socket [OF step_disconnect] by (simp add: case_prod_beta)
  then show ?thesis by (auto simp: admin_disconnect_def Let_def split: option.split)
qed

lemma shell_export: "shell_step st (fst (export_snapshot cfg ev st))"
proof -
  have e: "shell_step st (st\<lparr>do_extension := x\<rparr>)" for x by (rule shell_fields) simp_all
  show ?thesis using e by (auto simp: export_snapshot_def export_extension_def case_prod_beta split: option.split)
qed

lemma shell_admin: "shell_step st (fst (handleAdmin cfg ev n op rq st))"
  using shell_export [of st cfg ev] shell_import [of st cfg ev "rq_body rq"] shell_reset [of st cfg ev rq] shell_disconnect [of st cfg ev "rq_body rq"]
  by (simp add: handleAdmin_def Let_def)

lemma attested_upgrade:
  assumes "attested cfg st"
  shows "attested cfg (fst (upgrade cfg ev quota rq st))"
proof -
  have "attested cfg (fst (accept_socket a quota x))" if "attested cfg x" for a and x :: "'a WorkspaceDO"
  proof -
    have "distinct (map sk_id (do_sockets x) @ [do_next x])" using that by (auto simp: attested_def)
    then show ?thesis using that unfolding attested_def accept_socket_def by fastforce
  qed
  from this [OF attested_shell [OF assms shell_socket [OF step_supersede]]] assms show ?thesis
    by (auto simp: upgrade_def Let_def split: sum.split)
qed

lemma attested_fetch:
  assumes "attested cfg st"
  shows "attested cfg (fst (fetch cfg ev n quota rq st))"
proof -
  have r: "attested cfg (rememberWorkspaceId ev rq st)"
    by (rule attested_shell [OF assms]) (simp add: rememberWorkspaceId_def Let_def shell_stamp)
  show ?thesis
    using attested_shell [OF assms shell_admin] attested_shell [OF r shell_admin] attested_upgrade [OF r] assms
    by (simp add: fetch_def Let_def split: option.split)
qed

lemma attested_handle: "attested cfg st \<Longrightarrow> attested cfg (handle cfg ev e st)"
  by (cases e) (simp_all add: attested_fetch attested_message attested_closed attested_shell [OF _ shell_alarm])

lemma shell_initialize: "shell_step st (fst (initialize cfg ev st))"
proof -
  have m: "shell_step s s'" if "migrateAppSchema cfg ev s = Inr s'" for s s'
    using that by (auto simp: migrateAppSchema_def Let_def bind_res_Inr_iff intro!: shell_fields)
  have p: "shell_step s (restamp_presence cfg s)" "shell_step s (restamp_schema cfg s)" for s
    by (simp_all add: restamp_presence_def restamp_schema_def shell_stamp shell_trans [OF shell_emit shell_stamp])
  have f: "shell_step st s" if "shell_step (st\<lparr>do_db := d, do_meta := mt\<rparr>) s" for d mt s
    using that by (simp add: shell_step_def)
  have g: "shell_step st (setAlarm cfg ev (initExtension cfg (restamp_schema cfg s)))"
      "shell_step st (initExtension cfg (restamp_schema cfg s))" if "shell_step st s" for s
    by (rule shell_trans [OF that shell_trans [OF p(2) shell_trans [OF shell_initExtension shell_setAlarm]]],
        rule shell_trans [OF that shell_trans [OF p(2) shell_initExtension]])
  have d: "shell_step st (st\<lparr>do_db := x\<rparr>)" "shell_step st (st\<lparr>do_db := x, do_meta := y\<rparr>)" for x y
    by (rule shell_fields; simp)+
  define r where "r s mt = (if m_schemaVersion mt \<noteq> app_version (cf_app cfg) then migrateAppSchema cfg ev s
      else Inr (restamp_presence cfg s))" for s :: "'a WorkspaceDO" and mt :: Meta
  have r: "shell_step s s'" if "r s mt = Inr s'" for s s' mt
    using that by (auto simp: r_def intro: m p split: if_splits)
  have "shell_step st (fst (case r (st\<lparr>do_db := d, do_meta := mt\<rparr>) mt of
                  Inl e \<Rightarrow> (st\<lparr>do_db := d, do_meta := mt\<rparr>, Some e)
                | Inr s \<Rightarrow> (if do_alarm (initExtension cfg (restamp_schema cfg s)) = None
                     then setAlarm cfg ev (initExtension cfg (restamp_schema cfg s))
                     else initExtension cfg (restamp_schema cfg s), None)))" for d mt
  proof (cases "r (st\<lparr>do_db := d, do_meta := mt\<rparr>) mt")
    case (Inr s)
    from g [OF f [OF r [OF Inr]]] Inr show ?thesis by simp
  qed (simp add: d)
  then show ?thesis
    unfolding initialize_def Let_def r_def using d by (auto split: sum.split)
qed

lemma attested_wake:
  assumes "attested cfg0 st"
  shows "attested cfg (wake cfg ev st)"
proof -
  define st1 where "st1 = st\<lparr>do_initError := None, do_presence := [], do_snapshot := None, do_counters := zero_counters ev,
    do_meta := blank_meta\<rparr>"
  define st2 where "st2 = (if app_presence (cf_app cfg) = None then st1
                else deliver_all cfg ev (readySockets st1) [presence_poll] st1)"
  have "attested cfg st1" using assms by (simp add: attested_def st1_def)
  moreover have "shell_step st1 st2"
    by (simp add: st2_def shell_socket [OF step_deliver_all])
  moreover have "shell_step st2 (fst (initialize cfg ev st2))" by (rule shell_initialize)
  ultimately have i: "attested cfg (fst (initialize cfg ev st2))" using attested_shell by blast
  have e: "attested cfg (emit (Logged ''workspace initialization failed'') (s\<lparr>do_initError := x\<rparr>))" if "attested cfg s" for s x
  proof -
    have "shell_step s (s\<lparr>do_initError := x\<rparr>)" by (rule shell_fields) simp_all
    from attested_shell [OF that shell_trans [OF this shell_emit]] show ?thesis .
  qed
  have "wake cfg ev st = (case initialize cfg ev st2 of (s', None) \<Rightarrow> s'
      | (s', Some e) \<Rightarrow> emit (Logged ''workspace initialization failed'') (s'\<lparr>do_initError := Some e\<rparr>))"
    by (simp only: wake_def Let_def st1_def st2_def)
  then show ?thesis using i e [OF i] by (auto split: prod.splits option.split)
qed

text \<open>
  C18: Presence cannot be forged, in any history: every entry the workspace shows was set by a
  socket that is still connected and said hello, under that socket's own client id and with the
  principal the router stamped on it, whatever the client claimed.
\<close>

theorem presence_attested:
  assumes "history cfg st H P R"
  shows "\<forall>(c, e) \<in> set (do_presence st). \<exists>a. att st (pe_ws e) = Some a \<and> at_clientId a = c \<and>
     at_principal a = pe_principal e \<and> at_ready a"
proof -
  have "attested cfg st"
    using assms
  proof (induction rule: history.induct)
    case (start st cfg st' ev)
    have "attested cfg (st\<lparr>do_presence := []\<rparr>)" using start(2) by (simp add: attested_def)
    moreover have "wake cfg ev (st\<lparr>do_presence := []\<rparr>) = wake cfg ev st" by (simp add: wake_def)
    ultimately show ?case using attested_wake start(4) by metis
  qed (simp_all add: attested_handle attested_wake)
  then have "distinct (map sk_id (do_sockets st))" "\<forall>(c, e) \<in> set (do_presence st). \<exists>k \<in> set (do_sockets st).
      sk_id k = pe_ws e \<and> at_clientId (sk_att k) = c \<and> at_principal (sk_att k) = pe_principal e \<and> at_ready (sk_att k)"
    by (simp_all add: attested_def)
  with att_of [OF this(1)] show ?thesis by fastforce
qed

theorem presence_attested_witness:
  "\<exists>(st :: unit WorkspaceDO). do_initError st = None \<and>
     (\<forall>(c, e) \<in> set (do_presence st). \<exists>a. att st (pe_ws e) = Some a \<and> at_clientId a = c)"
proof -
  define st where "st = wake demo_cfg demo_env (demo_do\<lparr>do_db := empty_db, do_sockets := []\<rparr>)"
  have v: "1 \<le> app_version (cf_app demo_cfg)" by (simp add: demo_cfg_def demo_app_def)
  have d: "do_db (demo_do\<lparr>do_db := empty_db, do_sockets := []\<rparr>) = empty_db" by simp
  have "history demo_cfg st (note_table (do_db st) (\<lambda>_. None)) {} {}"
    by (rule history.start [OF _ _ v st_def]) simp_all
  from presence_attested [OF this] wake_first [OF d v st_def] show ?thesis by (intro exI [of _ st]) fastforce
qed

section \<open>One live socket per client\<close>

lemma att_step: "distinct (map sk_id (do_sockets st)) \<Longrightarrow> socket_step st st' \<Longrightarrow> att st s = Some a \<Longrightarrow> \<exists>b. att st' s = Some b \<and> att_kept a b"
proof -
  assume d: "distinct (map sk_id (do_sockets st))" and s: "socket_step st st'" and a: "att st s = Some a"
  obtain k where k: "k \<in> set (do_sockets st)" "sk_id k = s" "sk_att k = a" using att_in [OF a] by blast
  have l: "list_all2 (\<lambda>k k'. sk_id k' = sk_id k \<and> att_kept (sk_att k) (sk_att k')) (do_sockets st) (do_sockets st')"
    using s by (simp add: socket_step_def sockets_kept_def)
  then have "\<exists>k' \<in> set (do_sockets st'). sk_id k' = sk_id k \<and> att_kept (sk_att k) (sk_att k')"
    using k(1) by (induction rule: list_all2_induct) auto
  then obtain k' where k': "k' \<in> set (do_sockets st')" "sk_id k' = sk_id k" "att_kept (sk_att k) (sk_att k')" by blast
  have "map sk_id (do_sockets st') = map sk_id (do_sockets st)" by (rule shell_sockets(1) [OF shell_socket [OF s]])
  with d have "distinct (map sk_id (do_sockets st'))" by simp
  from att_of [OF this k'(1)] k k' show ?thesis by auto
qed

lemma closed_defunct:
  assumes "distinct (map sk_id (do_sockets st))" "att st s = Some a"
  shows "\<exists>b. att (closeSocket cfg ev s code reason st) s = Some b \<and> at_defunct b"
proof -
  have m: "att (mark_defunct s st) s = Some (a\<lparr>at_defunct := True\<rparr>)"
  proof -
    obtain k where k: "k \<in> set (do_sockets st)" "sk_id k = s" "sk_att k = a" using att_in [OF assms(2)] by blast
    let ?f = "\<lambda>k. if sk_id k = s then k\<lparr>sk_att := (sk_att k)\<lparr>at_defunct := True\<rparr>\<rparr> else k"
    have "distinct (map sk_id (do_sockets (mark_defunct s st)))"
      using assms(1) shell_sockets(1) [OF shell_socket [OF step_mark [of st s]]] by simp
    moreover have "?f k \<in> set (do_sockets (mark_defunct s st))"
      using k(1) by (auto simp: mark_defunct_def update_socket_def)
    ultimately have "att (mark_defunct s st) (sk_id (?f k)) = Some (sk_att (?f k))" by (rule att_of)
    with k show ?thesis by simp
  qed
  have d: "distinct (map sk_id (do_sockets (mark_defunct s st)))"
    using assms(1) shell_sockets(1) [OF shell_socket [OF step_mark [of st s]]] by simp
  have "socket_step (mark_defunct s st) (closeSocket cfg ev s code reason st)"
    unfolding closeSocket_def close_with_def by (rule socket_step_trans [OF step_dropPresence step_emit])
  from att_step [OF d this m] show ?thesis by (auto simp: att_kept_def)
qed

lemma supersede_closes:
  assumes "distinct (map sk_id (do_sockets st))"
  shows "s \<in> set ss \<Longrightarrow> att (supersede cfg ev c ss st) s = Some a \<Longrightarrow> at_clientId a = c \<Longrightarrow> at_defunct a"
  using assms
proof (induction cfg ev c ss st rule: supersede.induct)
  case (2 cfg ev c s' ss st)
  let ?st = "case att st s' of None \<Rightarrow> st | Some a \<Rightarrow>
      if at_clientId a = c then closeSocket cfg ev s' CLOSE_SUPERSEDED (js ''superseded'') st else st"
  have s1: "socket_step st ?st" using step_closeSocket by (auto split: option.split)
  have d: "distinct (map sk_id (do_sockets ?st))"
    using "2.prems"(4) shell_sockets(1) [OF shell_socket [OF s1]] by simp
  have s2: "socket_step ?st (supersede cfg ev c (s' # ss) st)" by (simp add: step_supersede)
  show ?case
  proof (cases "s \<in> set ss")
    case True
    then show ?thesis using "2.IH" [OF True _ "2.prems"(3) d] "2.prems"(2) by simp
  next
    case False
    then have s': "s' = s" using "2.prems"(1) by simp
    have "map sk_id (do_sockets (supersede cfg ev c (s' # ss) st)) = map sk_id (do_sockets st)"
      by (rule shell_sockets(1) [OF shell_socket [OF step_supersede]])
    moreover have "s \<in> set (map sk_id (do_sockets (supersede cfg ev c (s' # ss) st)))"
      using att_in [OF "2.prems"(2)] by auto
    ultimately obtain k where k: "k \<in> set (do_sockets st)" "sk_id k = s" by (metis in_set_conv_nth length_map nth_map)
    then obtain a0 where a0: "att st s = Some a0" using att_of [OF "2.prems"(4) k(1)] by simp
    have "\<exists>b. att (supersede cfg ev c (s' # ss) st) s = Some b \<and> att_kept a0 b"
      by (rule att_step [OF "2.prems"(4) step_supersede a0])
    then have same: "at_clientId a0 = c" using "2.prems"(2,3) by (auto simp: att_kept_def)
    then have "?st = closeSocket cfg ev s CLOSE_SUPERSEDED (js ''superseded'') st" using a0 by (simp add: s')
    then obtain b where "att ?st s = Some b" "at_defunct b"
      using closed_defunct [OF "2.prems"(4) a0] by metis
    from att_step [OF d s2 this(1)] this(2) "2.prems"(2) show ?thesis by (auto simp: att_kept_def)
  qed
qed simp

text \<open>
  C19: A client's newest connection wins: an accepted upgrade gets a fresh socket, not yet ready,
  bound to the client id of the request, and every other socket of that client is closed, so no
  delivery reaches it any more.
\<close>

theorem newest_socket_wins:
  assumes "attested cfg st" "upgrade cfg ev quota rq st = (st', Switched s)"
  shows "s = do_next st \<and> (\<exists>a. att st' s = Some a \<and> rq_clientId rq = Some (at_clientId a) \<and> \<not> at_ready a \<and>
    (\<forall>s' b. s' \<noteq> s \<longrightarrow> att st' s' = Some b \<longrightarrow> at_clientId b = at_clientId a \<longrightarrow> at_defunct b))"
proof -
  let ?c = "or_default (rq_clientId rq) []"
  have up: "?c \<noteq> []" "\<exists>a. make_attachment cfg ?c (rq_auth rq) = Inr a \<and>
      (st', Switched s) = accept_socket a quota (supersede cfg ev ?c (map sk_id (do_sockets st)) st)"
    using assms(2) by (auto simp: upgrade_def Let_def make_attachment_def split: sum.splits if_splits verdict.splits)
  then obtain a where a: "make_attachment cfg ?c (rq_auth rq) = Inr a"
    and acc: "(st', Switched s) = accept_socket a quota (supersede cfg ev ?c (map sk_id (do_sockets st)) st)" by blast
  define x where "x = supersede cfg ev ?c (map sk_id (do_sockets st)) st"
  have step: "socket_step st x" by (simp add: x_def step_supersede)
  then have nx: "do_next x = do_next st" by (simp add: socket_step_def same_core_def)
  have ax: "attested cfg x" by (rule attested_shell [OF assms(1) shell_socket [OF step]])
  have st': "st' = x\<lparr>do_sockets := do_sockets x @ [\<lparr>sk_id = do_next x, sk_att = a, sk_quota = quota\<rparr>], do_next := do_next x + 1\<rparr>"
      "s = do_next x"
    using acc by (simp_all add: accept_socket_def x_def)
  have old: "att st' s' = att x s'" if "s' \<noteq> s" for s'
  proof -
    have "find f (xs @ [y]) = find f xs" if "\<not> f y" for f and y :: Socket and xs
      using that by (induction xs) auto
    then show ?thesis using that by (simp add: att_def socket_of_def st')
  qed
  have new: "att st' s = Some a"
  proof -
    have "find (\<lambda>k. sk_id k = s) (do_sockets x) = None"
      using ax by (auto simp: find_None_iff attested_def st'(2))
    moreover have "find f (xs @ [y]) = Some y" if "find f xs = None" "f y" for f and y :: Socket and xs
      using that by (induction xs) (auto split: if_splits)
    ultimately show ?thesis by (simp add: att_def socket_of_def st')
  qed
  have ca: "at_clientId a = ?c \<and> \<not> at_ready a"
    using a by (auto simp: make_attachment_def Let_def split: sum.splits verdict.splits if_splits)
  have def: "at_defunct b" if s': "s' \<noteq> s" "att st' s' = Some b" "at_clientId b = ?c" for s' b
  proof -
    have b: "att x s' = Some b" using old [OF s'(1)] s'(2) by simp
    have "s' \<in> set (map sk_id (do_sockets x))" using att_in [OF b] by auto
    then have "s' \<in> set (map sk_id (do_sockets st))" using shell_sockets(1) [OF shell_socket [OF step]] by simp
    moreover have "distinct (map sk_id (do_sockets st))" using assms(1) by (simp add: attested_def)
    ultimately show ?thesis using supersede_closes b s'(3) unfolding x_def by blast
  qed
  have "rq_clientId rq = Some ?c" using up(1) by (cases "rq_clientId rq") (simp_all add: or_default_def)
  with new ca def nx st'(2) show ?thesis by auto
qed

definition demo_request :: Request where
  "demo_request = \<lparr>rq_method = js ''GET'', rq_path = js ''/'', rq_upgrade = Some (js ''websocket''),
     rq_clientId = Some (js ''c''), rq_workspace = None, rq_auth = None, rq_body = EmptyBody\<rparr>"

lemma demo_attachment: "\<exists>a. make_attachment demo_cfg (js ''c'') None = Inr a"
proof -
  let ?a = "\<lparr>at_clientId = js ''c'', at_ready = False, at_principal = None, at_auth = None, at_expiresAt = None, at_defunct = False\<rparr>"
  have "jsonByteSize (attachment_json ?a) \<le> 100" by code_simp
  then have "jsonByteSize (attachment_json ?a) \<le> MAX_ATTACHMENT_BYTES" by (simp add: MAX_ATTACHMENT_BYTES_def)
  then show ?thesis by (simp add: make_attachment_def Let_def)
qed

lemma demo_attested: "attested demo_cfg demo_do"
  by (simp add: attested_def demo_do_def)

theorem newest_socket_wins_witness:
  "\<exists>st' a. upgrade demo_cfg demo_env None demo_request demo_do = (st', Switched 2) \<and> att st' 2 = Some a \<and> \<not> at_ready a"
proof -
  obtain a where a: "make_attachment demo_cfg (js ''c'') None = Inr a" using demo_attachment by blast
  have l: "map_option lower (rq_upgrade demo_request) = Some (js ''websocket'')" by code_simp
  have c: "js ''c'' \<noteq> []" "\<not> 128 < length (js ''c'')" by simp_all
  define x where "x = supersede demo_cfg demo_env (js ''c'') (map sk_id (do_sockets demo_do)) demo_do"
  have "do_next x = do_next demo_do"
    using step_supersede [of demo_do demo_cfg demo_env "js ''c''"] by (simp add: x_def socket_step_def same_core_def)
  then have n: "do_next x = 2" by (simp add: demo_do_def)
  have u: "upgrade demo_cfg demo_env None demo_request demo_do = accept_socket a None x"
    using a l c by (simp add: upgrade_def demo_request_def or_default_def x_def Let_def del: js_simps)
  obtain st' where st': "upgrade demo_cfg demo_env None demo_request demo_do = (st', Switched 2)"
    using u n by (simp add: accept_socket_def)
  from newest_socket_wins [OF demo_attested st'] st' show ?thesis by blast
qed

end
