(* ===== verification/Faults.thy ===== *)
theory Faults
  imports Replicas
begin

text \<open>
  Inputs on which the server does not do what its comments promise, each proved of the
  definitions that model it.
\<close>

section \<open>A reset under a live socket\<close>

text \<open>
  The LMID of a client lives in its row of \<open>clients\<close>, which only a hello creates; a push on a
  socket that is ready without such a row updates nothing.
\<close>

lemma unknown_keeps_lmid:
  assumes "db_clients d = []"
  shows "db_clients (commit_mutation ev c m rows wrote r d) = []"
    "\<exists>e. db_log (commit_mutation ev c m rows wrote r d) = db_log d @ [e] \<and> lg_client e = c \<and> lg_mutation e = mut_id m"
  using assms by (simp_all add: commit_mutation_def set_lmid_def append_log_def split: option.split)

lemma unknown_apply:
  assumes "applyMutation cfg ev a m st = Inr (st', err)" "db_clients (do_db st) = []"
  shows "db_clients (do_db st') = [] \<and>
    (\<exists>e. db_log (do_db st') = db_log (do_db st) @ [e] \<and> lg_client e = at_clientId a \<and> lg_mutation e = mut_id m)"
  using assms unknown_keeps_lmid [OF assms(2)]
  by (auto simp: applyMutation_def Let_def notifyCommitted_def emit_def split: sum.splits err.splits option.splits if_splits)

lemma unknown_push:
  assumes "db_clients (do_db st) = []" "at_ready a" "handlePush cfg ev ws a [m] st = (st', e)"
  shows "db_clients (do_db st') = [] \<and>
    (\<exists>es. db_log (do_db st') = db_log (do_db st) @ es \<and> list_all (\<lambda>g. lg_client g = at_clientId a \<and> lg_mutation g = 1) es \<and>
       length es = (if mut_id m = 1 \<and> (e = None \<or> es \<noteq> []) then 1 else 0))"
proof -
  define st0 where "st0 = count (\<lambda>c. c\<lparr>ct_pushes := ct_pushes c + 1\<rparr>) st"
  have l: "lastMutationId (do_db st0) (at_clientId a) = 0" using assms(1) by (simp add: st0_def lastMutationId_def)
  define r where "r = push_loop cfg ev ws a [m] st0 0 []"
  have st': "socket_step (pl_do r) st'" and t: "e = None \<Longrightarrow> pl_thrown r = None"
    using assms(2,3) unfolding handlePush_def Let_def st0_def [symmetric] l r_def [symmetric]
    by (auto simp: step_sendPoke split: option.splits sum.splits if_splits)
  have d: "do_db st' = do_db (pl_do r)" using st' by (simp add: socket_step_def same_core_def)
  show ?thesis
  proof (cases "mut_id m = 1")
    case False
    then have "socket_step st0 (pl_do r)" by (auto simp: r_def step_sendError)
    then have "do_db st' = do_db st" using d by (simp add: socket_step_def same_core_def st0_def)
    then show ?thesis using assms(1) False by simp
  next
    case True
    show ?thesis
    proof (cases "applyMutation cfg ev a m st0")
      case (Inl x)
      then have "e \<noteq> None" "do_db st' = do_db st" using t d True by (auto simp: r_def st0_def)
      then show ?thesis using assms(1) by simp
    next
      case (Inr x)
      obtain s1 err where x: "applyMutation cfg ev a m st0 = Inr (s1, err)" using Inr by (cases x) auto
      have "do_db st' = do_db s1" using x True d by (simp add: r_def)
      then show ?thesis using unknown_apply [OF x] assms(1) True by (auto simp: st0_def)
    qed
  qed
qed

text \<open>The same push delivered again and again; the result of each delivery.\<close>

fun redelivered ::
  "'x Config \<Rightarrow> Attachment \<Rightarrow> Mutation \<Rightarrow> (Env \<times> nat) list \<Rightarrow> 'x WorkspaceDO \<Rightarrow> 'x WorkspaceDO \<times> err option list" where
  "redelivered cfg a m [] st = (st, [])"
| "redelivered cfg a m ((ev, ws) # ds) st =
     (let (st1, e) = handlePush cfg ev ws a [m] st; (st2, es) = redelivered cfg a m ds st1 in (st2, e # es))"

lemma unknown_redelivered:
  assumes "db_clients (do_db st) = []" "at_ready a" "redelivered cfg a m ds st = (st', rs)"
  shows "db_clients (do_db st') = [] \<and>
    (\<exists>es. db_log (do_db st') = db_log (do_db st) @ es \<and> list_all (\<lambda>g. lg_client g = at_clientId a \<and> lg_mutation g = 1) es \<and>
       (if mut_id m = 1 then length (filter (\<lambda>r. r = None) rs) \<le> length es \<and> length es \<le> length rs else es = []))"
  using assms(1,3)
proof (induction ds arbitrary: st rs)
  case (Cons d ds)
  obtain ev ws where d: "d = (ev, ws)" by (cases d)
  obtain st1 e where h: "handlePush cfg ev ws a [m] st = (st1, e)" by fastforce
  obtain rs' where r: "redelivered cfg a m ds st1 = (st', rs')" "rs = e # rs'"
    using Cons.prems(2) by (auto simp: d h split: prod.splits)
  note P = unknown_push [OF Cons.prems(1) assms(2) h]
  obtain e1 where e1: "db_log (do_db st1) = db_log (do_db st) @ e1"
      "list_all (\<lambda>g. lg_client g = at_clientId a \<and> lg_mutation g = 1) e1"
      "length e1 = (if mut_id m = 1 \<and> (e = None \<or> e1 \<noteq> []) then 1 else 0)" using P by blast
  obtain e2 where e2: "db_clients (do_db st') = []" "db_log (do_db st') = db_log (do_db st1) @ e2"
      "list_all (\<lambda>g. lg_client g = at_clientId a \<and> lg_mutation g = 1) e2"
      "if mut_id m = 1 then length (filter (\<lambda>r. r = None) rs') \<le> length e2 \<and> length e2 \<le> length rs' else e2 = []"
    using Cons.IH [OF _ r(1)] P by blast
  show ?case using e1 e2 r(2) by (intro conjI exI [of _ "e1 @ e2"]) (auto split: if_splits)
qed simp


lemma refused_push:
  assumes "db_rows (do_db st) = []" "db_clients (do_db st) = []"
  shows "\<exists>st'. handlePush demo_cfg ev ws demo_att [demo_mutation\<lparr>mut_name := js ''nope''\<rparr>] st = (st', None) \<and>
    db_rows (do_db st') = [] \<and> db_clients (do_db st') = []"
proof -
  define m where "m = demo_mutation\<lparr>mut_name := js ''nope''\<rparr>"
  define st0 where "st0 = count (\<lambda>c. c\<lparr>ct_pushes := ct_pushes c + 1\<rparr>) st"
  have r: "run_mutation demo_cfg v rows demo_att m = Inl (unknown_mutator (mut_name m))" for v rows
    by (simp add: m_def run_mutation_def prop_get_def demo_cfg_def demo_app_def proto_names_def proto_call_ok_def)
  obtain c msg where u: "unknown_mutator (mut_name m) = AppError c msg" by (simp add: unknown_mutator_def)
  obtain s1 where a: "applyMutation demo_cfg ev demo_att m st0 = Inr (s1, Some (c, msg))" "db_rows (do_db s1) = []"
    using assms(1) by (simp add: applyMutation_def r u Let_def st0_def commit_data(1))
  have d: "db_clients (do_db s1) = []" using unknown_apply [OF a(1)] assms(2) by (simp add: st0_def)
  have l: "lastMutationId (do_db st0) (at_clientId demo_att) = 0" using assms(2) by (simp add: st0_def lastMutationId_def)
  define r where "r = push_loop demo_cfg ev ws demo_att [m] st0 0 []"
  have m: "mut_id m = 1" by (simp add: m_def demo_mutation_def)
  have rd: "do_db (pl_do r) = do_db s1" "pl_thrown r = None" "pl_lmid r = 1"
    using a(1) m by (simp_all add: r_def)
  have rows: "db_rows (do_db (pl_do r)) = []" using a(2) rd(1) by simp
  have ops: "patchSince (pl_do r) v = []" for v by (simp add: patchSince_def since_ops_def rows)
  obtain p where p: "pack_ops demo_cfg [] = Inr p" using pack_nil by blast
  have rdy: "at_ready demo_att" by (simp add: demo_att_def)
  define st' where "st' = fst (handlePush demo_cfg ev ws demo_att [m] st)"
  have h: "handlePush demo_cfg ev ws demo_att [m] st = (st', None)" and s: "socket_step (pl_do r) st'"
    using rdy p rd(2,3) unfolding st'_def handlePush_def Let_def st0_def [symmetric] l r_def [symmetric] ops
    by (simp_all add: step_sendPoke)
  from s have "do_db st' = do_db s1" by (simp add: socket_step_def same_core_def rd(1))
  with h a(2) d show ?thesis unfolding m_def by auto
qed


section \<open>Expiry\<close>

text \<open>
  An authorize verdict that never expires (\<open>expiresAt: Infinity\<close>) expires at once: the trip
  through the header turns the number into \<open>null\<close>, which the expiry check takes for time zero.
\<close>

theorem infinite_expiry_expires:
  assumes "decodeAuthStamps (Some (encodeAuthStamps
      \<lparr>as_principal = p, as_context = c, as_expiresAt = Some (JNum (Inf False))\<rparr>)) = Inr s"
    and "at_expiresAt a = as_expiresAt s" "0 \<le> ev_now ev"
  shows "expired ev a \<and> \<not> past (ev_now ev) (JNum (Inf False))"
proof -
  have "as_expiresAt s = Some JNull"
    using assms(1) by (cases p; cases "c = JUndef")
      (auto simp: decodeAuthStamps_def encodeAuthStamps_def or_undefined_def field_def split: jval.splits)
  then show ?thesis using assms(2,3) by (simp add: expired_def past_def)
qed

theorem infinite_expiry_expires_witness:
  "expired demo_env (demo_att\<lparr>at_expiresAt := Some JNull\<rparr>)"
proof -
  let ?s = "\<lparr>as_principal = None, as_context = JUndef, as_expiresAt = Some (JNum (Inf False))\<rparr>"
  have d: "decodeAuthStamps (Some (encodeAuthStamps ?s)) = Inr \<lparr>as_principal = None, as_context = JUndef, as_expiresAt = Some JNull\<rparr>"
    by (simp add: decodeAuthStamps_def encodeAuthStamps_def or_undefined_def field_def)
  show ?thesis
    using infinite_expiry_expires [OF d, of "demo_att\<lparr>at_expiresAt := Some JNull\<rparr>" demo_env] by (simp add: demo_env_def)
qed

section \<open>Names\<close>

text \<open>
  A mutation whose name every JavaScript object has (\<open>toString\<close>, \<open>hasOwnProperty\<close>) is
  acknowledged as a success: no row changes, no error is recorded, and the client's LMID
  advances, where any other unknown name is refused as \<open>UnknownMutator\<close>.
\<close>

theorem inherited_mutator_acknowledged:
  assumes "prop_get (app_mutators (cf_app cfg)) (mut_name m) = Inherited p" "inherited_call_ok p (mut_args m)"
    and "known (do_db st) (at_clientId a)"
  shows "\<exists>st'. applyMutation cfg ev a m st = Inr (st', None) \<and> db_rows (do_db st') = db_rows (do_db st) \<and>
    lastMutationId (do_db st') (at_clientId a) = mut_id m"
proof -
  have r: "run_mutation cfg v rows a m = Inr (rows, None, mut_args m, [])" for v rows
    using assms(1,2) by (simp add: run_mutation_def)
  show ?thesis
    using commit_fields(1,2) [OF assms(3), of ev m "db_rows (do_db st)" None None]
    by (simp add: applyMutation_def r Let_def)
qed

theorem inherited_mutator_acknowledged_witness:
  "\<exists>st'. applyMutation demo_cfg demo_env demo_att (demo_mutation\<lparr>mut_name := js ''toString'', mut_args := JNull\<rparr>) demo_do
     = Inr (st', None)"
proof -
  let ?m = "demo_mutation\<lparr>mut_name := js ''toString'', mut_args := JNull\<rparr>"
  have "prop_get (app_mutators (cf_app demo_cfg)) (mut_name ?m) = Inherited (js ''toString'')"
    by (simp add: prop_get_def proto_names_def proto_call_ok_def demo_cfg_def demo_app_def)
  moreover have "inherited_call_ok (js ''toString'') (mut_args ?m)"
    by (simp add: inherited_call_ok_def proto_call_ok_def)
  ultimately show ?thesis using inherited_mutator_acknowledged [OF _ _ demo_known] by blast
qed

section \<open>Imported ids\<close>

text \<open>
  An import accepts rows no transaction could write: a row id with a NUL character, which
  separates table and id in row keys, passes the import's checks, and every later get, put or
  delete of that row is refused.
\<close>

theorem import_accepts_nul:
  assumes "TABLE_NAME_RE t" "0 \<in> set i" "length i \<le> MAX_ID_LENGTH" "validateRow sch t i d = Inr d'"
    and "jsonByteSize (JObj d') \<le> MAX_ROW_BYTES"
  shows "check_row sch \<lparr>sn_tbl = t, sn_id = i, sn_data = d\<rparr> = Inr \<lparr>sn_tbl = t, sn_id = i, sn_data = d'\<rparr> \<and>
    (\<exists>e. validateTarget t i = Inl e)"
  using assms by (auto simp: check_row_def validateTarget_def)

theorem import_accepts_nul_witness:
  "check_row demo_schema \<lparr>sn_tbl = js ''t'', sn_id = [0x61, 0, 0x62], sn_data = []\<rparr> =
     Inr \<lparr>sn_tbl = js ''t'', sn_id = [0x61, 0, 0x62], sn_data = []\<rparr>"
proof -
  have v: "validateRow demo_schema (js ''t'') [0x61, 0, 0x62] [] = Inr []"
    by (simp add: validateRow_def demo_schema_def prop_get_def)
  have s: "jsonByteSize (JObj []) \<le> MAX_ROW_BYTES" proof -
    have "jsonByteSize (JObj []) \<le> 10" by code_simp
    then show ?thesis by (simp add: MAX_ROW_BYTES_def)
  qed
  show ?thesis
    using import_accepts_nul [OF demo_names(1) _ _ v s] by (simp add: MAX_ID_LENGTH_def)
qed

end
