(* ===== verification/SyncStore.thy ===== *)
theory SyncStore
  imports Replicas
begin

text \<open>
  Durable client storage (client/src/store.ts, client/src/idb-store.ts): the contract as a
  locale, the in-memory and the IndexedDB store as its instances, and what the contract gives a
  client: the persisted rows are the table of the persisted cursor. The stores' promises are
  their final effect; operations run in call order (the internal queue).
\<close>

section \<open>Types\<close>

record PersistedOutboxEntry =
  po_id :: "int option"
  po_name :: jstr
  po_args :: jval
  po_seed :: "jstr option"

datatype PersistedRowOp = RowPut jstr jstr jobj | RowDel jstr jstr

record PersistedRow =
  pr_tbl :: jstr
  pr_id :: jstr
  pr_value :: jobj

record PersistedState =
  ps_schemaVersion :: "int option"
  ps_cursor :: "Cursor option"
  ps_confirmedLmid :: int
  ps_rows :: "PersistedRow list"
  ps_outbox :: "PersistedOutboxEntry list"

record PokePersist =
  pp_ops :: "PersistedRowOp list"
  pp_clear :: bool
  pp_cursor :: Cursor
  pp_schemaVersion :: int
  pp_confirmedLmid :: int
  pp_outbox :: "PersistedOutboxEntry list"

text \<open>The row operations on tables.\<close>

fun row_effect :: "PersistedRowOp \<Rightarrow> table \<Rightarrow> table" where
  "row_effect (RowPut t i v) tab = tab((t, i) := Some v)"
| "row_effect (RowDel t i) tab = tab((t, i) := None)"

definition row_effects :: "PersistedRowOp list \<Rightarrow> table \<Rightarrow> table" where
  "row_effects ops = fold row_effect ops"

definition rows_table :: "PersistedRow list \<Rightarrow> table" where
  "rows_table rows = (\<lambda>(t, i). map_option pr_value (find (\<lambda>r. pr_tbl r = t \<and> pr_id r = i) rows))"

text \<open>The subsumption guard: a poke that does not advance the stored cursor is skipped.\<close>

definition subsumed :: "Cursor option \<Rightarrow> PokePersist \<Rightarrow> bool" where
  "subsumed stored u \<longleftrightarrow> \<not> pp_clear u \<and>
     (case stored of None \<Rightarrow> False
      | Some c \<Rightarrow> backendId c = backendId (pp_cursor u) \<and> cversion (pp_cursor u) \<le> cversion c)"

section \<open>The contract\<close>

locale sync_store =
  fixes load :: "'s \<Rightarrow> PersistedState option \<times> 's"
    and apply_poke :: "PokePersist \<Rightarrow> 's \<Rightarrow> 's"
    and save_outbox :: "PersistedOutboxEntry list \<Rightarrow> int \<Rightarrow> 's \<Rightarrow> 's"
    and reset :: "'s \<Rightarrow> 's"
    and inv :: "'s \<Rightarrow> bool"
    and cursor_of :: "'s \<Rightarrow> Cursor option"
    and table_of :: "'s \<Rightarrow> table"
    and queue_of :: "'s \<Rightarrow> PersistedOutboxEntry list \<times> int"
  assumes load_state: "inv s \<Longrightarrow> load s = (Some p, s') \<Longrightarrow>
      inv s' \<and> ps_cursor p = cursor_of s \<and> (cursor_of s \<noteq> None \<longrightarrow> rows_table (ps_rows p) = table_of s) \<and>
      (ps_outbox p, ps_confirmedLmid p) = queue_of s \<and>
      cursor_of s' = cursor_of s \<and> table_of s' = table_of s \<and> queue_of s' = queue_of s"
    and load_none: "inv s \<Longrightarrow> load s = (None, s') \<Longrightarrow> inv s' \<and> cursor_of s = None \<and> queue_of s = ([], 0)"
    and apply_effect: "inv s \<Longrightarrow> inv (apply_poke u s) \<and> queue_of (apply_poke u s) = (pp_outbox u, pp_confirmedLmid u) \<and>
      (if subsumed (cursor_of s) u then cursor_of (apply_poke u s) = cursor_of s \<and> table_of (apply_poke u s) = table_of s
       else cursor_of (apply_poke u s) = Some (pp_cursor u) \<and>
            table_of (apply_poke u s) = row_effects (pp_ops u) (if pp_clear u then (\<lambda>_. None) else table_of s))"
    and save_effect: "inv s \<Longrightarrow> inv (save_outbox es l s) \<and> queue_of (save_outbox es l s) = (es, l) \<and>
      cursor_of (save_outbox es l s) = cursor_of s \<and> table_of (save_outbox es l s) = table_of s"
    and reset_effect: "inv s \<Longrightarrow> inv (reset s) \<and> cursor_of (reset s) = None \<and> queue_of (reset s) = ([], 0)"
begin

text \<open>
  A single writer persists the pokes a replica takes. The store then mirrors the replica, if
  every poke that does not move the replica's cursor forward brings no operation.
\<close>

definition mirrors :: "'s \<Rightarrow> Replica \<Rightarrow> bool" where
  "mirrors s r \<longleftrightarrow> inv s \<and> cursor_of s = fst r \<and> (fst r \<noteq> None \<longrightarrow> table_of s = snd r)"

lemma mirror_step:
  assumes "mirrors s (r, tab)" "pp_cursor u = cu" "r = base \<or> pp_clear u"
    and "pp_clear u \<or> r \<noteq> None"
    and "\<not> pp_clear u \<Longrightarrow> (case base of Some b \<Rightarrow> backendId b = backendId cu \<and> cversion cu \<le> cversion b \<longrightarrow> cu = b \<and> pp_ops u = [] | None \<Rightarrow> True)"
  shows "mirrors (apply_poke u s) (Some cu, row_effects (pp_ops u) (if pp_clear u then (\<lambda>_. None) else tab))"
proof -
  have i: "inv s" "cursor_of s = r" "r \<noteq> None \<Longrightarrow> table_of s = tab" using assms(1) by (simp_all add: mirrors_def)
  note A = apply_effect [OF i(1), of u]
  show ?thesis
  proof (cases "subsumed (cursor_of s) u")
    case True
    then obtain b where b: "r = Some b" "backendId b = backendId cu" "cversion cu \<le> cversion b" "\<not> pp_clear u"
      using assms(2) i(2) by (auto simp: subsumed_def split: option.splits)
    then have "cu = b \<and> pp_ops u = []" using assms(3,5) by auto
    with A True b i show ?thesis by (simp add: mirrors_def row_effects_def)
  next
    case False
    have "(if pp_clear u then (\<lambda>_. None) else table_of s) = (if pp_clear u then (\<lambda>_. None) else tab)"
      using assms(4) i(3) by auto
    with A False assms(2) show ?thesis by (simp add: mirrors_def)
  qed
qed

lemma restart:
  assumes "mirrors s r" "load s = (Some p, s')"
  shows "mirrors s' r" "ps_cursor p = fst r" "fst r \<noteq> None \<Longrightarrow> rows_table (ps_rows p) = snd r"
  using assms load_state [of s p s'] by (auto simp: mirrors_def)

end

section \<open>The in-memory store\<close>

record MemorySyncStore =
  ms_schemaVersion :: "int option"
  ms_cursor :: "Cursor option"
  ms_confirmedLmid :: int
  ms_rows :: "(jstr \<times> (jstr \<times> jobj) list) list"
  ms_outbox :: "PersistedOutboxEntry list"
  ms_hasState :: bool

definition ms_new :: MemorySyncStore where
  "ms_new = \<lparr>ms_schemaVersion = None, ms_cursor = None, ms_confirmedLmid = 0, ms_rows = [], ms_outbox = [],
     ms_hasState = False\<rparr>"

definition ms_flat :: "(jstr \<times> (jstr \<times> jobj) list) list \<Rightarrow> PersistedRow list" where
  "ms_flat rows = concat (map (\<lambda>(tbl, byId). map (\<lambda>(i, v). \<lparr>pr_tbl = tbl, pr_id = i, pr_value = v\<rparr>) byId) rows)"

definition ms_load :: "MemorySyncStore \<Rightarrow> PersistedState option \<times> MemorySyncStore" where
  "ms_load s =
     (if \<not> ms_hasState s then (None, s)
      else (Some \<lparr>ps_schemaVersion = ms_schemaVersion s, ps_cursor = ms_cursor s, ps_confirmedLmid = ms_confirmedLmid s,
                  ps_rows = ms_flat (ms_rows s), ps_outbox = ms_outbox s\<rparr>, s))"

fun ms_op :: "PersistedRowOp \<Rightarrow> (jstr \<times> (jstr \<times> jobj) list) list \<Rightarrow> (jstr \<times> (jstr \<times> jobj) list) list" where
  "ms_op (RowPut t i v) rows =
     AList.update t (AList.update i v (case map_of rows t of None \<Rightarrow> [] | Some byId \<Rightarrow> byId)) rows"
| "ms_op (RowDel t i) rows =
     (case map_of rows t of None \<Rightarrow> rows | Some byId \<Rightarrow> AList.update t (AList.delete i byId) rows)"

definition ms_saveOutbox :: "PersistedOutboxEntry list \<Rightarrow> int \<Rightarrow> MemorySyncStore \<Rightarrow> MemorySyncStore" where
  "ms_saveOutbox es lmid s = s\<lparr>ms_outbox := es, ms_confirmedLmid := lmid, ms_hasState := True\<rparr>"

definition ms_applyPoke :: "PokePersist \<Rightarrow> MemorySyncStore \<Rightarrow> MemorySyncStore" where
  "ms_applyPoke u s =
     (if subsumed (ms_cursor s) u then ms_saveOutbox (pp_outbox u) (pp_confirmedLmid u) s
      else s\<lparr>ms_rows := fold ms_op (pp_ops u) (if pp_clear u then [] else ms_rows s), ms_cursor := Some (pp_cursor u),
             ms_schemaVersion := Some (pp_schemaVersion u), ms_confirmedLmid := pp_confirmedLmid u,
             ms_outbox := pp_outbox u, ms_hasState := True\<rparr>)"

definition ms_reset :: "MemorySyncStore \<Rightarrow> MemorySyncStore" where
  "ms_reset s = ms_new"

text \<open>Its contents as a table.\<close>

definition ms_table :: "(jstr \<times> (jstr \<times> jobj) list) list \<Rightarrow> table" where
  "ms_table rows = (\<lambda>(t, i). Option.bind (map_of rows t) (\<lambda>byId. map_of byId i))"

definition ms_inv :: "MemorySyncStore \<Rightarrow> bool" where
  "ms_inv s \<longleftrightarrow> distinct (map fst (ms_rows s)) \<and>
     (\<not> ms_hasState s \<longrightarrow> ms_cursor s = None \<and> ms_outbox s = [] \<and> ms_confirmedLmid s = 0)"

lemma ms_table_nil [simp]: "ms_table [] = (\<lambda>_. None)"
  by (simp add: ms_table_def fun_eq_iff)

lemma ms_op_table: "ms_table (ms_op op rows) = row_effect op (ms_table rows)"
proof
  fix k show "ms_table (ms_op op rows) k = row_effect op (ms_table rows) k"
    by (cases k; cases op; cases "map_of rows (fst k)")
      (auto simp: ms_table_def map_of_update map_of_delete split: option.split)
qed

lemma ms_ops_table: "ms_table (fold ms_op ops rows) = row_effects ops (ms_table rows)"
  by (induction ops arbitrary: rows) (simp_all add: row_effects_def ms_op_table)

lemma ms_op_distinct: "distinct (map fst rows) \<Longrightarrow> distinct (map fst (ms_op op rows))"
  by (cases op) (auto simp: distinct_update split: option.split)

lemma ms_ops_distinct: "distinct (map fst rows) \<Longrightarrow> distinct (map fst (fold ms_op ops rows))"
  by (induction ops arbitrary: rows) (simp_all add: ms_op_distinct)

lemma rows_table_append:
  "rows_table (xs @ ys) k = (case rows_table xs k of None \<Rightarrow> rows_table ys k | Some v \<Rightarrow> Some v)"
proof -
  have "find P (xs @ ys) = (case find P xs of None \<Rightarrow> find P ys | Some x \<Rightarrow> Some x)" for P :: "PersistedRow \<Rightarrow> bool"
    by (induction xs) auto
  then show ?thesis by (cases k) (simp add: rows_table_def split: option.split)
qed

lemma ms_flat_table: "distinct (map fst rows) \<Longrightarrow> rows_table (ms_flat rows) = ms_table rows"
proof (induction rows)
  case Nil
  show ?case by (simp add: ms_flat_def rows_table_def ms_table_def fun_eq_iff)
next
  case (Cons r rows)
  obtain t byId where r: "r = (t, byId)" by (cases r)
  have one: "rows_table (map (\<lambda>(i, v). \<lparr>pr_tbl = t, pr_id = i, pr_value = v\<rparr>) byId) (t', i') =
      (if t' = t then map_of byId i' else None)" for t' i'
    by (induction byId) (auto simp: rows_table_def)
  have "ms_flat (r # rows) = map (\<lambda>(i, v). \<lparr>pr_tbl = t, pr_id = i, pr_value = v\<rparr>) byId @ ms_flat rows"
    by (simp add: ms_flat_def r)
  moreover have "ms_table rows (t, i') = None" for i'
  proof -
    have "map_of rows t = None" using Cons.prems by (auto simp: r map_of_eq_None_iff)
    then show ?thesis by (simp add: ms_table_def)
  qed
  ultimately show ?case
    using Cons by (auto simp: fun_eq_iff rows_table_append one r ms_table_def split: option.split)
qed

interpretation memory_store: sync_store ms_load ms_applyPoke ms_saveOutbox ms_reset ms_inv ms_cursor
  "\<lambda>s. ms_table (ms_rows s)" "\<lambda>s. (ms_outbox s, ms_confirmedLmid s)"
proof unfold_locales
  fix s p s' u es l
  show "ms_inv s' \<and> ps_cursor p = ms_cursor s \<and> (ms_cursor s \<noteq> None \<longrightarrow> rows_table (ps_rows p) = ms_table (ms_rows s)) \<and>
      (ps_outbox p, ps_confirmedLmid p) = (ms_outbox s, ms_confirmedLmid s) \<and>
      ms_cursor s' = ms_cursor s \<and> ms_table (ms_rows s') = ms_table (ms_rows s) \<and>
      (ms_outbox s', ms_confirmedLmid s') = (ms_outbox s, ms_confirmedLmid s)"
    if "ms_inv s" "ms_load s = (Some p, s')"
    using that ms_flat_table [of "ms_rows s"] by (auto simp: ms_load_def ms_inv_def split: if_splits)
  show "ms_inv s' \<and> ms_cursor s = None \<and> (ms_outbox s, ms_confirmedLmid s) = ([], 0)"
    if "ms_inv s" "ms_load s = (None, s')"
    using that by (auto simp: ms_load_def ms_inv_def split: if_splits)
  show "ms_inv (ms_applyPoke u s) \<and>
      (ms_outbox (ms_applyPoke u s), ms_confirmedLmid (ms_applyPoke u s)) = (pp_outbox u, pp_confirmedLmid u) \<and>
      (if subsumed (ms_cursor s) u
       then ms_cursor (ms_applyPoke u s) = ms_cursor s \<and> ms_table (ms_rows (ms_applyPoke u s)) = ms_table (ms_rows s)
       else ms_cursor (ms_applyPoke u s) = Some (pp_cursor u) \<and>
            ms_table (ms_rows (ms_applyPoke u s)) =
              row_effects (pp_ops u) (if pp_clear u then (\<lambda>_. None) else ms_table (ms_rows s)))"
    if "ms_inv s"
    using that ms_ops_distinct [of "ms_rows s"] ms_ops_distinct [of "[]"] ms_ops_table [of "pp_ops u"]
    by (auto simp: ms_applyPoke_def ms_saveOutbox_def ms_inv_def)
  show "ms_inv (ms_saveOutbox es l s) \<and>
      (ms_outbox (ms_saveOutbox es l s), ms_confirmedLmid (ms_saveOutbox es l s)) = (es, l) \<and>
      ms_cursor (ms_saveOutbox es l s) = ms_cursor s \<and> ms_table (ms_rows (ms_saveOutbox es l s)) = ms_table (ms_rows s)"
    if "ms_inv s"
    using that by (simp add: ms_saveOutbox_def ms_inv_def)
  show "ms_inv (ms_reset s) \<and> ms_cursor (ms_reset s) = None \<and> (ms_outbox (ms_reset s), ms_confirmedLmid (ms_reset s)) = ([], 0)"
    by (simp add: ms_reset_def ms_new_def ms_inv_def)
qed

section \<open>The IndexedDB store\<close>

text \<open>
  One database per workspace, shared by its tabs: rows by key, the meta record, and the outbox
  records by client id. A store object is a client id with an age limit; \<open>now\<close> is
  \<open>Date.now()\<close> when an operation runs. IndexedDB orders string keys by code units.
\<close>

record OutboxRecord =
  or_entries :: "PersistedOutboxEntry list"
  or_confirmedLmid :: int
  or_updatedAt :: int

record IndexedDB =
  idb_rows :: "((jstr \<times> jstr) \<times> jobj) list"
  idb_meta :: "(int \<times> Cursor) option"
  idb_outbox :: "(jstr \<times> OutboxRecord) list"

definition idb_new :: IndexedDB where
  "idb_new = \<lparr>idb_rows = [], idb_meta = None, idb_outbox = []\<rparr>"

definition WRITE_BATCH :: nat where "WRITE_BATCH = 1000"

fun idb_op :: "PersistedRowOp \<Rightarrow> ((jstr \<times> jstr) \<times> jobj) list \<Rightarrow> ((jstr \<times> jstr) \<times> jobj) list" where
  "idb_op (RowPut t i v) rows = AList.update (t, i) v rows"
| "idb_op (RowDel t i) rows = AList.delete (t, i) rows"

text \<open>The row operations are issued batch after batch.\<close>

function writeRows :: "PersistedRowOp list \<Rightarrow> ((jstr \<times> jstr) \<times> jobj) list \<Rightarrow> ((jstr \<times> jstr) \<times> jobj) list" where
  "writeRows ops rows =
     (if ops = [] then rows else writeRows (drop WRITE_BATCH ops) (fold idb_op (take WRITE_BATCH ops) rows))"
  by auto
termination by (relation "measure (length \<circ> fst)") (auto simp: WRITE_BATCH_def)

declare writeRows.simps [simp del]

lemma writeRows_fold: "writeRows ops rows = fold idb_op ops rows"
proof (induction ops rows rule: writeRows.induct)
  case (1 ops rows)
  have "fold idb_op ops rows = fold idb_op (drop WRITE_BATCH ops) (fold idb_op (take WRITE_BATCH ops) rows)"
    by (metis append_take_drop_id comp_apply fold_append)
  then show ?case using 1 by (simp add: writeRows.simps [of ops])
qed

definition idb_load :: "jstr \<Rightarrow> int \<Rightarrow> int \<Rightarrow> IndexedDB \<Rightarrow> PersistedState option \<times> IndexedDB" where
  "idb_load clientId maxAge now s =
     (let mine = map_of (idb_outbox s) clientId;
          s' = s\<lparr>idb_outbox := filter (\<lambda>(key, r). key = clientId \<or> \<not> or_updatedAt r < now - maxAge) (idb_outbox s)\<rparr>;
          rows = (if idb_meta s = None then []
                  else map (\<lambda>((t, i), v). \<lparr>pr_tbl = t, pr_id = i, pr_value = v\<rparr>) (sort_key fst (idb_rows s)))
      in if idb_meta s = None \<and> mine = None then (None, s')
         else (Some \<lparr>ps_schemaVersion = map_option fst (idb_meta s), ps_cursor = map_option snd (idb_meta s),
                     ps_confirmedLmid = (case mine of None \<Rightarrow> 0 | Some r \<Rightarrow> or_confirmedLmid r), ps_rows = rows,
                     ps_outbox = (case mine of None \<Rightarrow> [] | Some r \<Rightarrow> or_entries r)\<rparr>, s'))"

definition idb_saveOutbox :: "jstr \<Rightarrow> int \<Rightarrow> PersistedOutboxEntry list \<Rightarrow> int \<Rightarrow> IndexedDB \<Rightarrow> IndexedDB" where
  "idb_saveOutbox clientId now es lmid s =
     s\<lparr>idb_outbox := AList.update clientId \<lparr>or_entries = es, or_confirmedLmid = lmid, or_updatedAt = now\<rparr> (idb_outbox s)\<rparr>"

definition idb_applyPoke :: "jstr \<Rightarrow> int \<Rightarrow> PokePersist \<Rightarrow> IndexedDB \<Rightarrow> IndexedDB" where
  "idb_applyPoke clientId now u s =
     idb_saveOutbox clientId now (pp_outbox u) (pp_confirmedLmid u)
       (if subsumed (map_option snd (idb_meta s)) u then s
        else s\<lparr>idb_rows := writeRows (pp_ops u) (if pp_clear u then [] else idb_rows s),
               idb_meta := Some (pp_schemaVersion u, pp_cursor u)\<rparr>)"

definition idb_reset :: "IndexedDB \<Rightarrow> IndexedDB" where
  "idb_reset s = idb_new"

definition idb_inv :: "IndexedDB \<Rightarrow> bool" where
  "idb_inv s \<longleftrightarrow> distinct (map fst (idb_rows s))"

definition idb_queue :: "jstr \<Rightarrow> IndexedDB \<Rightarrow> PersistedOutboxEntry list \<times> int" where
  "idb_queue clientId s =
     (case map_of (idb_outbox s) clientId of None \<Rightarrow> ([], 0) | Some r \<Rightarrow> (or_entries r, or_confirmedLmid r))"

lemma idb_op_map: "map_of (idb_op op rows) = row_effect op (map_of rows)"
  by (cases op) (auto simp: fun_eq_iff map_of_update map_of_delete)

lemma idb_ops_map: "map_of (fold idb_op ops rows) = row_effects ops (map_of rows)"
  by (induction ops arbitrary: rows) (simp_all add: row_effects_def idb_op_map)

lemma idb_ops_distinct: "distinct (map fst rows) \<Longrightarrow> distinct (map fst (fold idb_op ops rows))"
proof (induction ops arbitrary: rows)
  case (Cons op ops)
  have "distinct (map fst (idb_op op rows))"
    using Cons.prems by (cases op) (simp_all add: distinct_update distinct_delete)
  with Cons.IH show ?case by simp
qed simp

lemma rows_table_alist:
  "distinct (map fst rows) \<Longrightarrow>
     rows_table (map (\<lambda>((t, i), v). \<lparr>pr_tbl = t, pr_id = i, pr_value = v\<rparr>) (sort_key fst rows)) = map_of rows"
proof -
  assume d: "distinct (map fst rows)"
  have l: "rows_table (map (\<lambda>((t, i), v). \<lparr>pr_tbl = t, pr_id = i, pr_value = v\<rparr>) xs) = map_of xs" for xs
    by (induction xs) (auto simp: rows_table_def fun_eq_iff)
  have "distinct (map fst (sort_key fst rows))"
    using d by (simp add: distinct_map)
  then have "map_of (sort_key fst rows) = map_of rows"
    using d by (intro map_of_eqI) (auto simp: map_of_eq_Some_iff image_iff)
  then show ?thesis by (simp add: l)
qed

interpretation indexed_db: sync_store "idb_load c age now" "idb_applyPoke c now'" "idb_saveOutbox c now''" idb_reset
  idb_inv "\<lambda>s. map_option snd (idb_meta s)" "\<lambda>s. map_of (idb_rows s)" "idb_queue c"
  for c age now now' now''
proof unfold_locales
  fix s p s' u es l
  have gc: "map_of (filter (\<lambda>(key, r). key = c \<or> P r) m) c = map_of m c" for P and m :: "(jstr \<times> OutboxRecord) list"
    by (induction m) auto
  show "idb_inv s' \<and> ps_cursor p = map_option snd (idb_meta s) \<and>
      (map_option snd (idb_meta s) \<noteq> None \<longrightarrow> rows_table (ps_rows p) = map_of (idb_rows s)) \<and>
      (ps_outbox p, ps_confirmedLmid p) = idb_queue c s \<and> map_option snd (idb_meta s') = map_option snd (idb_meta s) \<and>
      map_of (idb_rows s') = map_of (idb_rows s) \<and> idb_queue c s' = idb_queue c s"
    if "idb_inv s" "idb_load c age now s = (Some p, s')"
    using that rows_table_alist [of "idb_rows s"]
    by (auto simp: idb_load_def Let_def idb_inv_def idb_queue_def gc split: if_splits option.splits)
  show "idb_inv s' \<and> map_option snd (idb_meta s) = None \<and> idb_queue c s = ([], 0)"
    if "idb_inv s" "idb_load c age now s = (None, s')"
    using that by (auto simp: idb_load_def Let_def idb_inv_def idb_queue_def split: if_splits)
  show "idb_inv (idb_applyPoke c now' u s) \<and> idb_queue c (idb_applyPoke c now' u s) = (pp_outbox u, pp_confirmedLmid u) \<and>
      (if subsumed (map_option snd (idb_meta s)) u
       then map_option snd (idb_meta (idb_applyPoke c now' u s)) = map_option snd (idb_meta s) \<and>
            map_of (idb_rows (idb_applyPoke c now' u s)) = map_of (idb_rows s)
       else map_option snd (idb_meta (idb_applyPoke c now' u s)) = Some (pp_cursor u) \<and>
            map_of (idb_rows (idb_applyPoke c now' u s)) =
              row_effects (pp_ops u) (if pp_clear u then (\<lambda>_. None) else map_of (idb_rows s)))"
    if "idb_inv s"
    using that idb_ops_distinct [of "idb_rows s"] idb_ops_distinct [of "[]"] idb_ops_map [of "pp_ops u"]
    by (auto simp: idb_applyPoke_def idb_saveOutbox_def idb_inv_def idb_queue_def map_of_update writeRows_fold)
  show "idb_inv (idb_saveOutbox c now'' es l s) \<and> idb_queue c (idb_saveOutbox c now'' es l s) = (es, l) \<and>
      map_option snd (idb_meta (idb_saveOutbox c now'' es l s)) = map_option snd (idb_meta s) \<and>
      map_of (idb_rows (idb_saveOutbox c now'' es l s)) = map_of (idb_rows s)" if "idb_inv s"
    using that by (simp add: idb_saveOutbox_def idb_inv_def idb_queue_def map_of_update)
  show "idb_inv (idb_reset s) \<and> map_option snd (idb_meta (idb_reset s)) = None \<and> idb_queue c (idb_reset s) = ([], 0)"
    by (simp add: idb_reset_def idb_new_def idb_inv_def idb_queue_def)
qed

section \<open>One writer\<close>

text \<open>What a client persists of a poke: the row operations in patch order, and whether it clears.\<close>

fun row_op_of :: "PatchOp \<Rightarrow> PersistedRowOp list" where
  "row_op_of (PutOp t i v) = [RowPut t i v]"
| "row_op_of (DelOp t i) = [RowDel t i]"
| "row_op_of ClearOp = []"

definition row_ops_of :: "PatchOp list \<Rightarrow> PersistedRowOp list" where
  "row_ops_of ops = concat (map row_op_of ops)"

fun persist_of :: "int \<Rightarrow> int \<Rightarrow> PersistedOutboxEntry list \<Rightarrow> Poke \<Rightarrow> PokePersist" where
  "persist_of sv lmid es (base, ops, c) =
     \<lparr>pp_ops = row_ops_of ops, pp_clear = (ClearOp \<in> set ops), pp_cursor = c, pp_schemaVersion = sv,
      pp_confirmedLmid = lmid, pp_outbox = es\<rparr>"

text \<open>What the server offers: clears come first, and a poke that does not advance brings nothing.\<close>

fun poke_shape :: "Poke \<Rightarrow> bool" where
  "poke_shape (base, ops, c) \<longleftrightarrow> ClearOp \<notin> set (tl ops) \<and>
     (case base of None \<Rightarrow> ClearOp \<in> set ops
      | Some b \<Rightarrow> backendId b = backendId c \<and> cversion c \<le> cversion b \<longrightarrow> c = b \<and> ops = [])"

lemma offered_shape:
  assumes "do_inv x cfg st" "offered st p"
  shows "poke_shape p"
  using assms(2) unfolding offered_def
proof (elim disjE exE conjE)
  assume "p = (None, snapshot_ops (db_rows (do_db st)), current_cursor st)"
  then show ?thesis by (auto simp: snapshot_ops_def row_op_def split: if_splits)
next
  fix c assume v: "cursor_valid st (Some c)" and p: "p = (Some c, patchSince st (cversion c), current_cursor st)"
  have "ClearOp \<notin> set (tl (patchSince st (cversion c)))"
    using no_clear_since [of "db_rows (do_db st)" "cversion c"]
    by (cases "patchSince st (cversion c)") (auto simp: patchSince_def)
  moreover have "current_cursor st = c \<and> patchSince st (cversion c) = []"
    if "backendId c = backendId (current_cursor st)" "cversion (current_cursor st) \<le> cversion c"
  proof -
    have e: "cversion c = m_currentVersion (do_meta st)" using v that(2) by (simp add: cursor_valid_def current_cursor_def)
    then have "current_cursor st = c" using that(1) by (simp add: current_cursor_def)
    with e since_current [OF do_invD(2) [OF assms(1)]] show ?thesis by (simp add: patchSince_def)
  qed
  ultimately show ?thesis by (simp add: p)
qed

lemma row_ops_effects: "ClearOp \<notin> set ops \<Longrightarrow> apply_ops ops tab = row_effects (row_ops_of ops) tab"
proof (induction ops arbitrary: tab)
  case (Cons op ops)
  then show ?case by (cases op) (simp_all add: apply_ops_def row_effects_def row_ops_of_def)
qed (simp add: apply_ops_def row_effects_def row_ops_of_def)

lemma clear_first_effects:
  assumes "ClearOp \<notin> set (tl ops)"
  shows "apply_ops ops tab = row_effects (row_ops_of ops) (if ClearOp \<in> set ops then (\<lambda>_. None) else tab)"
proof (cases ops)
  case (Cons op ops')
  show ?thesis
  proof (cases "op = ClearOp")
    case True
    then have "apply_ops ops tab = apply_ops ops' (\<lambda>_. None)" by (simp add: Cons apply_ops_def)
    with True show ?thesis using row_ops_effects [of ops'] assms by (simp add: Cons row_ops_of_def)
  next
    case False
    then have "ClearOp \<notin> set ops" using assms by (auto simp: Cons)
    then show ?thesis using row_ops_effects by simp
  qed
qed (simp add: apply_ops_def row_effects_def row_ops_of_def)

text \<open>A tab that is alone takes pokes and persists each one it takes, with its outbox.\<close>

fun tab_run ::
  "jstr \<Rightarrow> int \<Rightarrow> (Poke \<times> int \<times> int \<times> PersistedOutboxEntry list) list \<Rightarrow> Replica \<times> IndexedDB \<Rightarrow> Replica \<times> IndexedDB" where
  "tab_run c sv [] x = x"
| "tab_run c sv ((p, now, lmid, es) # ps) ((r, tab), s) =
     tab_run c sv ps (if accepts r p then (take_poke p (r, tab), idb_applyPoke c now (persist_of sv lmid es p) s) else ((r, tab), s))"

lemma tab_run_mirrors:
  assumes "indexed_db.mirrors s r" "list_all (\<lambda>(p, _). poke_shape p) ps"
  shows "indexed_db.mirrors (snd (tab_run c sv ps (r, s))) (fst (tab_run c sv ps (r, s)))"
  using assms
proof (induction ps arbitrary: r s)
  case (Cons x ps)
  obtain base ops cu now lmid es where x: "x = ((base, ops, cu), now, lmid, es)" by (cases x) auto
  obtain rc tab where r: "r = (rc, tab)" by (cases r)
  have sh: "poke_shape (base, ops, cu)" and rest: "list_all (\<lambda>(p, _). poke_shape p) ps"
    using Cons.prems(2) by (simp_all add: x)
  show ?case
  proof (cases "accepts rc (base, ops, cu)")
    case True
    let ?u = "persist_of sv lmid es (base, ops, cu)"
    have "indexed_db.mirrors (idb_applyPoke c now ?u s)
        (Some cu, row_effects (pp_ops ?u) (if pp_clear ?u then (\<lambda>_. None) else tab))"
    proof (rule indexed_db.mirror_step [where base = base])
      show "indexed_db.mirrors s (rc, tab)" using Cons.prems(1) by (simp add: r)
      show "rc = base \<or> pp_clear ?u" using True by auto
      show "pp_clear ?u \<or> rc \<noteq> None" using True sh by (cases base) auto
      show "case base of Some b \<Rightarrow> backendId b = backendId cu \<and> cversion cu \<le> cversion b \<longrightarrow> cu = b \<and> pp_ops ?u = []
          | None \<Rightarrow> True"
        using sh by (auto simp: row_ops_of_def split: option.splits)
    qed simp
    moreover have "take_poke (base, ops, cu) (rc, tab) =
        (Some cu, row_effects (pp_ops ?u) (if pp_clear ?u then (\<lambda>_. None) else tab))"
      using True sh clear_first_effects [of ops tab] by auto
    ultimately have "indexed_db.mirrors (idb_applyPoke c now ?u s) (take_poke (base, ops, cu) (rc, tab))" by simp
    from Cons.IH [OF this rest] show ?thesis using True by (simp only: x r tab_run.simps if_True)
  next
    case False
    then show ?thesis using Cons.IH [OF Cons.prems(1) rest] by (simp only: x r tab_run.simps if_False)
  qed
qed simp

text \<open>
  C40: A tab that is alone on its database resumes where it was: whatever pokes it took, loading
  the store afterwards gives back its cursor and its table at that cursor.
\<close>

theorem persisted_mirror:
  assumes "list_all (\<lambda>(p, _). poke_shape p) ps" "tab_run c sv ps ((None, tab0), idb_new) = ((r, tab), s)"
    and "idb_load c age now s = (loaded, s')"
  shows "case loaded of None \<Rightarrow> r = None
    | Some p \<Rightarrow> ps_cursor p = r \<and> (r \<noteq> None \<longrightarrow> rows_table (ps_rows p) = tab)"
proof -
  have "indexed_db.mirrors idb_new (None, tab0)"
    by (simp add: indexed_db.mirrors_def idb_inv_def idb_new_def)
  from tab_run_mirrors [OF this assms(1), of c sv] have m: "indexed_db.mirrors s (r, tab)"
    by (simp add: assms(2))
  show ?thesis
  proof (cases loaded)
    case None
    then show ?thesis using m assms(3) indexed_db.load_none [where s = s and c = c and age = age and now = now and s' = s'] by (simp add: indexed_db.mirrors_def)
  next
    case (Some p)
    then show ?thesis using indexed_db.restart [OF m] assms(3) by simp
  qed
qed

theorem persisted_mirror_witness:
  "\<exists>s :: IndexedDB. tab_run [] 1 [((None, [ClearOp, PutOp (js ''t'') (js ''a'') []], \<lparr>backendId = js ''b'', cversion = 1\<rparr>), 0, 0, [])]
      ((None, \<lambda>_. None), idb_new) = ((Some \<lparr>backendId = js ''b'', cversion = 1\<rparr>, (\<lambda>_. None)((js ''t'', js ''a'') := Some [])), s) \<and>
    map_option ps_cursor (fst (idb_load [] 0 0 s)) = Some (Some \<lparr>backendId = js ''b'', cversion = 1\<rparr>)"
proof -
  let ?c = "\<lparr>backendId = js ''b'', cversion = 1\<rparr>"
  let ?ps = "[((None, [ClearOp, PutOp (js ''t'') (js ''a'') []], ?c), 0 :: int, 0 :: int, [] :: PersistedOutboxEntry list)]"
  have sh: "list_all (\<lambda>(p, _). poke_shape p) ?ps" by simp
  obtain s where r: "tab_run [] 1 ?ps ((None, \<lambda>_. None), idb_new) = ((Some ?c, (\<lambda>_. None)((js ''t'', js ''a'') := Some [])), s)"
    by (simp add: apply_ops_def)
  obtain loaded s' where l: "idb_load [] 0 0 s = (loaded, s')" by fastforce
  from persisted_mirror [OF sh r l] r l show ?thesis by (cases loaded) auto
qed

section \<open>Two tabs\<close>

text \<open>
  The subsumption guard is not enough for two tabs. Tab B has stored version 7; tab A, slow,
  now persists the snapshot of version 5 it got earlier, which clears and is never subsumed; tab
  B persists the poke from 7 to 8 on top of it; and tab A's pokes from 5 to 7 are then skipped
  as subsumed. The database is left at cursor 8 without what versions 6 and 7 wrote, so the next
  load starts from a table the workspace never had.
\<close>

theorem interleaved_tabs_lose_rows:
  assumes "c5 = \<lparr>backendId = b, cversion = 5\<rparr>" "c7 = \<lparr>backendId = b, cversion = 7\<rparr>" "c8 = \<lparr>backendId = b, cversion = 8\<rparr>"
    and "key \<noteq> key'"
    and "s1 = idb_applyPoke tabA now (persist_of sv la ea (None, [ClearOp], c5)) s"
    and "s2 = idb_applyPoke tabB now (persist_of sv lb eb (Some c7, [PutOp t key' v'], c8)) s1"
    and "s3 = idb_applyPoke tabA now (persist_of sv la ea (Some c5, [PutOp t key v], c7)) s2"
  shows "map_option snd (idb_meta s3) = Some c8 \<and> map_of (idb_rows s3) = (\<lambda>_. None)((t, key') := Some v') \<and>
    apply_ops [PutOp t key' v'] (apply_ops [PutOp t key v] (\<lambda>_. None)) \<noteq> map_of (idb_rows s3)"
proof -
  have 1: "idb_meta s1 = Some (sv, c5)" "idb_rows s1 = []"
    using assms(5) by (simp_all add: idb_applyPoke_def idb_saveOutbox_def subsumed_def row_ops_of_def writeRows_fold)
  have 2: "idb_meta s2 = Some (sv, c8)" "idb_rows s2 = [((t, key'), v')]"
    using assms(6) 1 assms(1,3) by (simp_all add: idb_applyPoke_def idb_saveOutbox_def subsumed_def row_ops_of_def writeRows_fold)
  have 3: "idb_meta s3 = Some (sv, c8)" "idb_rows s3 = [((t, key'), v')]"
    using assms(7) 2 assms(2,3) by (simp_all add: idb_applyPoke_def idb_saveOutbox_def subsumed_def)
  have "apply_ops [PutOp t key' v'] (apply_ops [PutOp t key v] (\<lambda>_. None)) (t, key) = Some v"
    using assms(4) by (simp add: apply_ops_def)
  moreover have m: "map_of (idb_rows s3) = (\<lambda>_. None)((t, key') := Some v')" using 3 by simp
  moreover have "map_of (idb_rows s3) (t, key) = None" using assms(4) m by simp
  ultimately have "apply_ops [PutOp t key' v'] (apply_ops [PutOp t key v] (\<lambda>_. None)) \<noteq> map_of (idb_rows s3)"
    by (metis option.distinct(1))
  then show ?thesis using 3(1) m by simp
qed

theorem interleaved_tabs_lose_rows_witness:
  "\<exists>s3 :: IndexedDB. map_option snd (idb_meta s3) = Some \<lparr>backendId = js ''b'', cversion = 8\<rparr> \<and>
     map_of (idb_rows s3) = (\<lambda>_. None)((js ''t'', js ''y'') := Some [])"
proof -
  have "js ''x'' \<noteq> js ''y''" by simp
  note run = interleaved_tabs_lose_rows [OF refl refl refl this refl refl refl, where b = "js ''b''" and t = "js ''t''" and v' = "[]"
    and v = "[]" and s = idb_new and tabA = "js ''A''" and tabB = "js ''B''" and now = 0 and sv = 1
    and la = 0 and lb = 0 and ea = "[]" and eb = "[]"]
  show ?thesis by (intro exI conjI) (rule conjunct1 [OF run], rule conjunct1 [OF conjunct2 [OF run]])
qed

text \<open>
  A tab that discards its cache (a new schema version) discards the other tabs' queued
  mutations with it: the reset clears every client's outbox record.
\<close>

theorem reset_drops_other_outboxes:
  "idb_queue other (idb_reset s) = ([], 0)"
  by (simp add: idb_queue_def idb_reset_def idb_new_def)

end
