(* ===== verification/LocalWrites.thy ===== *)
theory LocalWrites
  imports WriteSet
begin

text \<open>
  The optimistic run of client/src/local-writes.ts: the transaction a mutator runs against on
  the client. A collection (TanStack DB) shows its rows through an applier of
  client/src/types.ts; what it shows, the synced rows under the pending overlays, is a parameter.
  \<open>MissingApplierError\<close> is the tagged \<open>OtherError\<close> below; only a log line names its table.
\<close>

record TableApplier =
  ap_has :: "jstr \<Rightarrow> bool"
  ap_get :: "jstr \<Rightarrow> jobj option"
  ap_list :: "(jstr \<times> jobj) list"

type_synonym appliers = "(jstr \<times> TableApplier) list"

definition MissingApplierError :: err where
  "MissingApplierError = OtherError ''MissingApplierError''"

record LocalWriteSet =
  lw_puts :: "(jstr \<times> RowWrite) list"
  lw_dels :: "(jstr \<times> Target) list"

definition new_LocalWriteSet :: LocalWriteSet where
  "new_LocalWriteSet = \<lparr>lw_puts = [], lw_dels = []\<rparr>"

section \<open>Operations\<close>

definition applier_of :: "appliers \<Rightarrow> jstr \<Rightarrow> TableApplier res" where
  "applier_of aps tbl = (case map_of aps tbl of None \<Rightarrow> Inl MissingApplierError | Some a \<Rightarrow> Inr a)"

definition local_get :: "appliers \<Rightarrow> LocalWriteSet \<Rightarrow> jstr \<Rightarrow> jstr \<Rightarrow> jobj option res" where
  "local_get aps ws tbl i =
     bind_res (applier_of aps tbl) (\<lambda>a.
       let k = rowKey tbl i in
       if has (lw_dels ws) k then Inr None
       else case map_of (lw_puts ws) k of
         Some buffered \<Rightarrow> Inr (Some (w_data buffered))
       | None \<Rightarrow> Inr (ap_get a i))"

definition local_list :: "appliers \<Rightarrow> LocalWriteSet \<Rightarrow> jstr \<Rightarrow> jobj option \<Rightarrow> (jstr \<times> jobj) list res" where
  "local_list aps ws tbl wh =
     bind_res (applier_of aps tbl) (\<lambda>a.
     bind_res (compileWhere wh) (\<lambda>matches.
     Inr (overlay_puts matches tbl
            (drop_dels tbl (set_all [] (filter (\<lambda>(i, d). matches d) (ap_list a))) (map snd (lw_dels ws)))
            (map snd (lw_puts ws)))))"

definition validateLocalRow :: "schema \<Rightarrow> jstr \<Rightarrow> jstr \<Rightarrow> jobj \<Rightarrow> jobj res" where
  "validateLocalRow sch tbl i data =
     (case prop_get sch tbl of
        Absent \<Rightarrow> Inl (invalid_args (js ''table '' @ quoted tbl @ js '' is not defined in the schema''))
      | Inherited p \<Rightarrow> Inl (OtherError ''TypeError'')
      | Own validate \<Rightarrow>
          (case validate data of
             VAsync \<Rightarrow> Inl (invalid_args (js ''table '' @ quoted tbl @ js '': async validation is not supported''))
           | VIssues issues \<Rightarrow>
               Inl (invalid_args (js ''invalid row '' @ tbl @ js ''/'' @ i @ js '': '' @ formatIssues issues))
           | VValue v \<Rightarrow> Inr v))"

definition local_put :: "schema \<Rightarrow> appliers \<Rightarrow> LocalWriteSet \<Rightarrow> jstr \<Rightarrow> jstr \<Rightarrow> jobj \<Rightarrow> unit res \<times> LocalWriteSet" where
  "local_put sch aps ws tbl i data =
     (case bind_res (validateLocalRow sch tbl i data) (\<lambda>stored. bind_res (applier_of aps tbl) (\<lambda>_. Inr stored)) of
        Inl e \<Rightarrow> (Inl e, ws)
      | Inr stored \<Rightarrow>
          let k = rowKey tbl i in
          (Inr (), ws\<lparr>lw_dels := AList.delete k (lw_dels ws),
                       lw_puts := AList.update k \<lparr>w_tbl = tbl, w_id = i, w_data = stored\<rparr> (lw_puts ws)\<rparr>))"

definition local_del :: "appliers \<Rightarrow> LocalWriteSet \<Rightarrow> jstr \<Rightarrow> jstr \<Rightarrow> unit res \<times> LocalWriteSet" where
  "local_del aps ws tbl i =
     (case applier_of aps tbl of
        Inl e \<Rightarrow> (Inl e, ws)
      | Inr _ \<Rightarrow>
          let k = rowKey tbl i in
          (Inr (), ws\<lparr>lw_puts := AList.delete k (lw_puts ws),
                       lw_dels := AList.update k \<lparr>t_tbl = tbl, t_id = i\<rparr> (lw_dels ws)\<rparr>))"

definition isEmpty :: "LocalWriteSet \<Rightarrow> bool" where
  "isEmpty ws \<longleftrightarrow> lw_puts ws = [] \<and> lw_dels ws = []"

primrec run_local :: "schema \<Rightarrow> appliers \<Rightarrow> prog \<Rightarrow> LocalWriteSet \<Rightarrow> LocalWriteSet \<times> err option" where
  "run_local sch aps Done ws = (ws, None)"
| "run_local sch aps (Throw e) ws = (ws, Some e)"
| "run_local sch aps (CallGet t i k) ws = run_local sch aps (k (local_get aps ws t i)) ws"
| "run_local sch aps (CallList t wh k) ws = run_local sch aps (k (local_list aps ws t wh)) ws"
| "run_local sch aps (CallPut t i d k) ws =
     (let (r, ws') = local_put sch aps ws t i d in run_local sch aps (k r) ws')"
| "run_local sch aps (CallDel t i k) ws =
     (let (r, ws') = local_del aps ws t i in run_local sch aps (k r) ws')"

text \<open>What the collections are told, in order: full-row updates, inserts, deletes.\<close>

datatype LocalOp = ApUpdate jstr jstr jobj | ApInsert jstr jobj | ApDelete jstr jstr

definition put_op :: "appliers \<Rightarrow> RowWrite \<Rightarrow> LocalOp list" where
  "put_op aps w =
     (case map_of aps (w_tbl w) of
        None \<Rightarrow> []
      | Some a \<Rightarrow> if ap_has a (w_id w) then [ApUpdate (w_tbl w) (w_id w) (w_data w)]
                  else [ApInsert (w_tbl w) (w_data w)])"

definition del_op :: "appliers \<Rightarrow> Target \<Rightarrow> LocalOp list" where
  "del_op aps t =
     (case map_of aps (t_tbl t) of
        None \<Rightarrow> []
      | Some a \<Rightarrow> if ap_has a (t_id t) then [ApDelete (t_tbl t) (t_id t)] else [])"

definition flushLocalWrites :: "appliers \<Rightarrow> LocalWriteSet \<Rightarrow> LocalOp list" where
  "flushLocalWrites aps ws =
     concat (map (put_op aps) (map snd (lw_puts ws))) @ concat (map (del_op aps) (map snd (lw_dels ws)))"

section \<open>The prediction is the server's run\<close>

lemma validateLocalRow_eq: "validateLocalRow = validateRow"
  by (intro ext) (simp add: validateLocalRow_def validateRow_def)

text \<open>
  The collections show what the row store holds; a collection may list the rows in another order
  than the store, unless \<open>same_order\<close> rules it out.
\<close>

definition views_agree :: "appliers \<Rightarrow> 's EngineRowStore \<Rightarrow> 's \<Rightarrow> bool" where
  "views_agree aps ops st \<longleftrightarrow> (\<forall>t a. map_of aps t = Some a \<longrightarrow>
     TABLE_NAME_RE t \<and> (\<forall>i. ap_get a i = rs_get ops st t i) \<and>
     (\<forall>wh p. defined_where wh \<longrightarrow> compileWhere wh = Inr p \<longrightarrow>
        (\<exists>rows. rs_list ops st t wh = Inr rows \<and>
           same_rows (filter (\<lambda>(i, d). p d) rows) (filter (\<lambda>(i, d). p d) (ap_list a)))))"

definition same_order :: "appliers \<Rightarrow> 's EngineRowStore \<Rightarrow> 's \<Rightarrow> bool" where
  "same_order aps ops st \<longleftrightarrow> (\<forall>t a wh p rows. map_of aps t = Some a \<longrightarrow> compileWhere wh = Inr p \<longrightarrow>
     rs_list ops st t wh = Inr rows \<longrightarrow> defined_where wh \<longrightarrow>
     filter (\<lambda>(i, d). p d) rows = filter (\<lambda>(i, d). p d) (ap_list a))"

text \<open>
  What the client does not check: row ids, row sizes, tables without a collection, and filters
  on an undefined value. The predicate follows a run and holds if no call of it runs into one
  of these.
\<close>

primrec within_checks :: "schema \<Rightarrow> appliers \<Rightarrow> prog \<Rightarrow> LocalWriteSet \<Rightarrow> bool" where
  "within_checks sch aps Done ws = True"
| "within_checks sch aps (Throw e) ws = True"
| "within_checks sch aps (CallGet t i k) ws \<longleftrightarrow>
     t \<in> set (map fst aps) \<and> id_ok i \<and> within_checks sch aps (k (local_get aps ws t i)) ws"
| "within_checks sch aps (CallList t wh k) ws \<longleftrightarrow>
     t \<in> set (map fst aps) \<and> defined_where wh \<and> within_checks sch aps (k (local_list aps ws t wh)) ws"
| "within_checks sch aps (CallPut t i d k) ws \<longleftrightarrow>
     t \<in> set (map fst aps) \<and> id_ok i \<and>
     (case validateLocalRow sch t i d of Inl e \<Rightarrow> True | Inr v \<Rightarrow> jsonByteSize (JObj v) \<le> MAX_ROW_BYTES) \<and>
     (let (r, ws') = local_put sch aps ws t i d in within_checks sch aps (k r) ws')"
| "within_checks sch aps (CallDel t i k) ws \<longleftrightarrow>
     t \<in> set (map fst aps) \<and> id_ok i \<and>
     (let (r, ws') = local_del aps ws t i in within_checks sch aps (k r) ws')"

definition same_buffer :: "LocalWriteSet \<Rightarrow> WriteSet \<Rightarrow> bool" where
  "same_buffer lw ws \<longleftrightarrow> lw_puts lw = ws_puts ws \<and> lw_dels lw = ws_dels ws \<and> \<not> ws_validateAtFlush ws"

lemma rememberBefore_same [simp]: "same_buffer lw (rememberBefore ops st t i ws) = same_buffer lw ws"
  by (simp add: rememberBefore_def same_buffer_def Let_def)

lemma applier_known: "t \<in> set (map fst aps) \<Longrightarrow> \<exists>a. map_of aps t = Some a \<and> applier_of aps t = Inr a"
  using map_of_eq_None_iff [of aps t] by (auto simp: applier_of_def)

lemma get_agrees:
  assumes "views_agree aps ops st" "same_buffer lw ws" "t \<in> set (map fst aps)" "id_ok i"
  shows "fst (tx_get ops st ws t i) = local_get aps lw t i \<and> same_buffer lw (snd (tx_get ops st ws t i))"
proof -
  obtain a where a: "map_of aps t = Some a" "applier_of aps t = Inr a" using applier_known [OF assms(3)] by blast
  have "TABLE_NAME_RE t" "ap_get a i = rs_get ops st t i" using assms(1) a(1) by (auto simp: views_agree_def)
  then show ?thesis
    using assms(2,4) by (auto simp: tx_get_def local_get_def a(2) same_buffer_def Let_def split: option.splits)
qed

lemma list_agrees:
  assumes "views_agree aps ops st" "same_buffer lw ws" "t \<in> set (map fst aps)" "defined_where wh"
  shows "tx_list ops st ws t wh = local_list aps lw t wh \<or>
    \<not> same_order aps ops st \<and> (\<exists>xs ys. tx_list ops st ws t wh = Inr xs \<and> local_list aps lw t wh = Inr ys \<and> same_rows xs ys)"
proof -
  obtain a where a: "map_of aps t = Some a" "applier_of aps t = Inr a" using applier_known [OF assms(3)] by blast
  have t: "TABLE_NAME_RE t" using assms(1) a(1) by (auto simp: views_agree_def)
  show ?thesis
  proof (cases "compileWhere wh")
    case (Inr p)
    then obtain rows where rows: "rs_list ops st t wh = Inr rows"
        "same_rows (filter (\<lambda>(i, d). p d) rows) (filter (\<lambda>(i, d). p d) (ap_list a))"
      using assms(1,4) a(1) unfolding views_agree_def by blast
    let ?over = "overlaid p t (map snd (ws_dels ws)) (map snd (ws_puts ws))"
    have l: "local_list aps lw t wh = Inr (?over (filter (\<lambda>(i, d). p d) (ap_list a)))"
      using Inr assms(2) by (simp add: local_list_def a(2) same_buffer_def overlaid_def)
    note s = tx_list_overlaid [OF t Inr rows(1), of ws]
    show ?thesis
    proof (cases "same_order aps ops st")
      case True
      then have "filter (\<lambda>(i, d). p d) rows = filter (\<lambda>(i, d). p d) (ap_list a)"
        using a(1) Inr rows(1) assms(4) unfolding same_order_def by blast
      then show ?thesis by (simp add: s l)
    qed (use overlaid_same [OF rows(2)] s l in blast)
  qed (simp add: tx_list_def local_list_def a(2) t)
qed

lemma put_agrees:
  assumes "views_agree aps ops st" "same_buffer lw ws" "t \<in> set (map fst aps)" "id_ok i"
    and "case validateLocalRow sch t i d of Inl e \<Rightarrow> True | Inr v \<Rightarrow> jsonByteSize (JObj v) \<le> MAX_ROW_BYTES"
  shows "fst (tx_put ops sch st ws t i d) = fst (local_put sch aps lw t i d) \<and>
    same_buffer (snd (local_put sch aps lw t i d)) (snd (tx_put ops sch st ws t i d))"
proof -
  obtain a where a: "map_of aps t = Some a" "applier_of aps t = Inr a" using applier_known [OF assms(3)] by blast
  have t: "validateTarget t i = Inr ()" using assms(1,4) a(1) by (auto simp: views_agree_def)
  have nf: "\<not> ws_validateAtFlush ws" using assms(2) by (simp add: same_buffer_def)
  have same: "same_buffer lw (rememberBefore ops st t i ws)" using assms(2) by simp
  show ?thesis
  proof (cases "validateRow sch t i d")
    case (Inr v)
    then have "\<not> MAX_ROW_BYTES < jsonByteSize (JObj v)" using assms(5) by (simp add: validateLocalRow_eq)
    then show ?thesis using same nf Inr
      by (simp add: tx_put_def local_put_def validateLocalRow_eq a(2) t check_size_def Let_def) (simp add: same_buffer_def)
  qed (use assms(2) nf in \<open>simp add: tx_put_def local_put_def validateLocalRow_eq t\<close>)
qed

lemma del_agrees:
  assumes "views_agree aps ops st" "same_buffer lw ws" "t \<in> set (map fst aps)" "id_ok i"
  shows "fst (tx_del ops st ws t i) = fst (local_del aps lw t i) \<and>
    same_buffer (snd (local_del aps lw t i)) (snd (tx_del ops st ws t i))"
proof -
  obtain a where a: "map_of aps t = Some a" "applier_of aps t = Inr a" using applier_known [OF assms(3)] by blast
  have t: "validateTarget t i = Inr ()" using assms(1,4) a(1) by (auto simp: views_agree_def)
  have same: "same_buffer lw (rememberBefore ops st t i ws)" using assms(2) by simp
  then show ?thesis by (simp add: tx_del_def local_del_def a(2) t Let_def) (simp add: same_buffer_def)
qed

lemma run_agrees:
  assumes "views_agree aps ops st"
  shows "same_buffer lw ws \<Longrightarrow> within_checks sch aps p lw \<Longrightarrow> same_order aps ops st \<or> order_blind p \<Longrightarrow>
    snd (run_prog ops sch st p ws) = snd (run_local sch aps p lw) \<and>
    same_buffer (fst (run_local sch aps p lw)) (fst (run_prog ops sch st p ws))"
proof (induction p arbitrary: lw ws)
  case (CallGet t i k)
  obtain r ws' where g: "tx_get ops st ws t i = (r, ws')" by (cases "tx_get ops st ws t i")
  have "r = local_get aps lw t i" "same_buffer lw ws'"
    using get_agrees [OF assms CallGet.prems(1), of t i] CallGet.prems(2) by (simp_all add: g)
  with CallGet.IH [OF rangeI [of k "local_get aps lw t i"], of lw ws'] CallGet.prems(2,3) show ?case by (auto simp: g)
next
  case (CallList t wh k)
  have "k (tx_list ops st ws t wh) = k (local_list aps lw t wh)"
    using list_agrees [OF assms CallList.prems(1), of t wh] CallList.prems(2,3) by fastforce
  with CallList.IH [OF rangeI [of k "local_list aps lw t wh"], of lw ws] CallList.prems show ?case by auto
next
  case (CallPut t i d k)
  obtain r ws' where g: "tx_put ops sch st ws t i d = (r, ws')" by (cases "tx_put ops sch st ws t i d")
  obtain r' lw' where l: "local_put sch aps lw t i d = (r', lw')" by (cases "local_put sch aps lw t i d")
  have "r = r'" "same_buffer lw' ws'"
    using put_agrees [OF assms CallPut.prems(1), of t i sch d] CallPut.prems(2) by (simp_all add: g l)
  with CallPut.IH [OF rangeI [of k r'], of lw' ws'] CallPut.prems(2,3) show ?case by (auto simp: g l)
next
  case (CallDel t i k)
  obtain r ws' where g: "tx_del ops st ws t i = (r, ws')" by (cases "tx_del ops st ws t i")
  obtain r' lw' where l: "local_del aps lw t i = (r', lw')" by (cases "local_del aps lw t i")
  have "r = r'" "same_buffer lw' ws'"
    using del_agrees [OF assms CallDel.prems(1), of t i] CallDel.prems(2) by (simp_all add: g l)
  with CallDel.IH [OF rangeI [of k r'], of lw' ws'] CallDel.prems(2,3) show ?case by (auto simp: g l)
qed simp_all


text \<open>
  A collection that shows the rows of a workspace's SQLite store, in the order of the mirror's
  keys and not of the scan.
\<close>

definition shown :: "sql_rows \<Rightarrow> jstr \<Rightarrow> (jstr \<times> jobj) list" where
  "shown st t = map (\<lambda>row. (row_id row, row_data row)) (filter (\<lambda>row. row_tbl row = t \<and> \<not> row_deleted row) st)"

definition mirror_applier :: "sql_rows \<Rightarrow> jstr \<Rightarrow> TableApplier" where
  "mirror_applier st t = \<lparr>ap_has = (\<lambda>i. sql_get st t i \<noteq> None), ap_get = sql_get st t, ap_list = rev (shown st t)\<rparr>"

lemma map_of_shown:
  assumes "sql_inv st" "TABLE_NAME_RE t"
  shows "distinct (map fst (shown st t)) \<and> map_of (shown st t) i = sql_get st t i"
proof -
  let ?xs = "map (\<lambda>row. (row_id row, row_data row)) (filter (\<lambda>row. row_tbl row = t \<and> \<not> row_deleted row) st)"
  have l: "rs_list (SqlRowStore (\<lambda>_ _. 0)) st t None = Inr ?xs"
    using assms(2) by (simp add: SqlRowStore_def sql_list_def visit_def sort_key_const)
  from sql.list_live [OF assms l] sql.list_exact [OF assms l, of "\<lambda>_. True" i]
  show ?thesis by (simp add: shown_def defined_where_def SqlRowStore_def split: option.splits)
qed

lemma map_of_filtered:
  "distinct (map fst xs) \<Longrightarrow> map_of (filter (\<lambda>(i, d). p d) xs) i =
     (case map_of xs i of Some d \<Rightarrow> if p d then Some d else None | None \<Rightarrow> None)"
  by (induction xs) (auto split: option.splits, force+)

lemma mirror_agrees:
  assumes "list_all TABLE_NAME_RE ts" "sql_inv st"
  shows "views_agree (map (\<lambda>t. (t, mirror_applier st t)) ts) (SqlRowStore plan) st"
  unfolding views_agree_def
proof (intro allI impI conjI)
  fix t a assume "map_of (map (\<lambda>t. (t, mirror_applier st t)) ts) t = Some a"
  then have m: "t \<in> set ts" "a = mirror_applier st t" by (auto dest: map_of_SomeD)
  then show t: "TABLE_NAME_RE t" using assms(1) by (simp add: list_all_iff)
  show "ap_get a i = rs_get (SqlRowStore plan) st t i" for i by (simp add: m mirror_applier_def SqlRowStore_def)
  note sh = map_of_shown [OF assms(2) t]
  fix wh p assume wh: "defined_where wh" "compileWhere wh = Inr p"
  obtain rows where rows: "rs_list (SqlRowStore plan) st t wh = Inr rows" using sql.list_total [OF t] by blast
  let ?f = "filter (\<lambda>(i, d). p d)"
  have d: "distinct (map fst (rev (shown st t)))" using sh by (simp add: rev_map [symmetric])
  have r: "map_of (rev (shown st t)) i = sql_get st t i" for i
    using sh [of i] d by (metis map_of_eq_Some_iff set_rev not_None_eq)
  have "map_of (?f rows) i = map_of (?f (rev (shown st t))) i" for i
    using sql.list_exact [OF assms(2) t rows wh, of i] r [of i]
    by (simp add: map_of_filtered [OF d] SqlRowStore_def)
  then have "same_rows (?f rows) (?f (ap_list a))"
    using distinct_map_filter [OF conjunct1 [OF sql.list_live [OF assms(2) t rows]]] distinct_map_filter [OF d]
    by (auto simp: same_rows_def m mirror_applier_def)
  with rows show "\<exists>rows. rs_list (SqlRowStore plan) st t wh = Inr rows \<and> same_rows (?f rows) (?f (ap_list a))" by blast
qed

text \<open>A mutator that stores how many rows it found, over two rows the scan finds in the other order.\<close>

definition count_prog :: prog where
  "count_prog = CallList (js ''t'') None (orThrow (\<lambda>rows.
     CallPut (js ''t'') (js ''n'') [(js ''n'', JNum (Fin (int (length rows))))] (orThrow (\<lambda>_. Done))))"

definition two_rows :: sql_rows where
  "two_rows = [\<lparr>row_tbl = js ''t'', row_id = js ''a'', row_data = [(js ''n'', JNum (Fin 1))], row_version = 1, row_deleted = False\<rparr>,
               \<lparr>row_tbl = js ''t'', row_id = js ''b'', row_data = [(js ''n'', JNum (Fin 2))], row_version = 1, row_deleted = False\<rparr>]"

lemma same_rows_length: "same_rows xs ys \<Longrightarrow> length xs = length ys"
  unfolding same_rows_def by (metis dom_map_of_conv_image_fst length_map set_map distinct_card)

lemma count_prog_blind: "order_blind count_prog"
  by (auto simp: count_prog_def orThrow_def same_rows_length split: sum.splits)


end
