(* ===== verification/Collections.thy ===== *)
theory Collections
  imports LocalWrites
begin

text \<open>
  The collection adapter, client/src/collection.ts: the gate in front of a table's hooks, the
  translation of synced operations to inserts, updates and deletes of a TanStack collection,
  the default row key, and the mutations a collection's own writes become. The collection
  itself is a library the adapter only calls.
\<close>

section \<open>Hooks\<close>

datatype TableWriteOp = WPut jstr jobj | WDel jstr

datatype HookCall = HBegin | HWrite TableWriteOp | HCommit | HTruncate | HMarkReady

fun op_key :: "TableWriteOp \<Rightarrow> jstr" where
  "op_key (WPut i v) = i"
| "op_key (WDel i) = i"

section \<open>The gate\<close>

text \<open>The calls a gate passes on are what its target sees; \<open>hg_attached\<close> tells whether it has one.\<close>

record HookGate =
  hg_attached :: bool
  hg_pendingClear :: bool
  hg_pendingReady :: bool
  hg_pendingOps :: "(jstr \<times> TableWriteOp) list"

definition createHookGate :: HookGate where
  "createHookGate = \<lparr>hg_attached = False, hg_pendingClear = False, hg_pendingReady = False, hg_pendingOps = []\<rparr>"

fun gate_call :: "HookCall \<Rightarrow> HookGate \<Rightarrow> HookCall list \<times> HookGate" where
  "gate_call HBegin g = (if hg_attached g then [HBegin] else [], g)"
| "gate_call (HWrite wop) g =
     (if hg_attached g then ([HWrite wop], g)
      else ([], g\<lparr>hg_pendingOps := AList.update (op_key wop) wop (hg_pendingOps g)\<rparr>))"
| "gate_call HCommit g = (if hg_attached g then [HCommit] else [], g)"
| "gate_call HTruncate g =
     (if hg_attached g then ([HTruncate], g) else ([], g\<lparr>hg_pendingClear := True, hg_pendingOps := []\<rparr>))"
| "gate_call HMarkReady g = (if hg_attached g then ([HMarkReady], g) else ([], g\<lparr>hg_pendingReady := True\<rparr>))"

definition gate_attach :: "HookGate \<Rightarrow> HookCall list \<times> HookGate" where
  "gate_attach g =
     ((if hg_pendingClear g \<or> hg_pendingOps g \<noteq> [] then
         [HBegin] @ (if hg_pendingClear g then [HTruncate] else []) @ map (HWrite \<circ> snd) (hg_pendingOps g) @ [HCommit]
       else [])
      @ (if hg_pendingReady g then [HMarkReady] else []),
      \<lparr>hg_attached = True, hg_pendingClear = False, hg_pendingReady = False, hg_pendingOps = []\<rparr>)"

definition gate_detach :: "HookGate \<Rightarrow> HookGate" where
  "gate_detach g = g\<lparr>hg_attached := False\<rparr>"

fun gate_run :: "HookCall list \<Rightarrow> HookGate \<Rightarrow> HookCall list \<times> HookGate" where
  "gate_run [] g = ([], g)"
| "gate_run (c # cs) g = (let (out, g) = gate_call c g; (outs, g) = gate_run cs g in (out @ outs, g))"

section \<open>Writing to the collection\<close>

text \<open>\<open>syncedKeys\<close> is the set of keys; the target of the gate turns each call into library calls.\<close>

datatype CollectionCall = CBegin | CInsert jobj | CUpdate jobj | CDelete jstr | CCommit | CTruncate | CMarkReady

fun collection_write :: "HookCall \<Rightarrow> jstr set \<Rightarrow> CollectionCall list \<times> jstr set" where
  "collection_write HBegin ks = ([CBegin], ks)"
| "collection_write (HWrite (WPut i v)) ks = ([if i \<in> ks then CUpdate v else CInsert v], insert i ks)"
| "collection_write (HWrite (WDel i)) ks = (if i \<in> ks then [CDelete i] else [], ks - {i})"
| "collection_write HCommit ks = ([CCommit], ks)"
| "collection_write HTruncate ks = ([CTruncate], {})"
| "collection_write HMarkReady ks = ([CMarkReady], ks)"

fun collection_run :: "HookCall list \<Rightarrow> jstr set \<Rightarrow> CollectionCall list \<times> jstr set" where
  "collection_run [] ks = ([], ks)"
| "collection_run (c # cs) ks =
     (let (out, ks) = collection_write c ks; (outs, ks) = collection_run cs ks in (out @ outs, ks))"

section \<open>Keys and handlers\<close>

definition defaultKey :: "jobj \<Rightarrow> jstr res" where
  "defaultKey row = (case field row (js ''id'') of JStr i \<Rightarrow> Inr i | _ \<Rightarrow> Inl (OtherError ''no string id''))"

text \<open>\<open>onInsert\<close>, \<open>onUpdate\<close> and \<open>onDelete\<close>: each write becomes one raw mutation.\<close>

datatype CollectionMutation = CmInsert jobj | CmUpdate jobj | CmDelete jstr

definition put_mutation :: "jstr \<Rightarrow> jstr \<Rightarrow> jobj \<Rightarrow> jstr \<times> jval" where
  "put_mutation table i row = (js ''sync.put'', JObj [(js ''tbl'', JStr table), (js ''id'', JStr i), (js ''data'', JObj row)])"

fun handler_mutation :: "jstr \<Rightarrow> (jobj \<Rightarrow> jstr res) \<Rightarrow> CollectionMutation \<Rightarrow> (jstr \<times> jval) res" where
  "handler_mutation table getKey (CmInsert row) = bind_res (getKey row) (\<lambda>i. Inr (put_mutation table i row))"
| "handler_mutation table getKey (CmUpdate row) = bind_res (getKey row) (\<lambda>i. Inr (put_mutation table i row))"
| "handler_mutation table getKey (CmDelete i) =
     Inr (js ''sync.del'', JObj [(js ''tbl'', JStr table), (js ''id'', JStr i)])"

text \<open>The setup checks of \<open>workspaceCollectionOptions\<close>; a table name of \<open>Object.prototype\<close> passes the first.\<close>

definition check_collection :: "schema \<Rightarrow> mutators \<Rightarrow> jstr \<Rightarrow> unit res" where
  "check_collection sch muts table =
     (if prop_get sch table = Absent then Inl (OtherError ''unknown table'')
      else if list_ex (\<lambda>r. prop_get muts r = Absent) [js ''sync.put'', js ''sync.del''] then
        Inl (OtherError ''missing crud mutator'')
      else Inr ())"

section \<open>What the calls mean\<close>

type_synonym rows = "jstr \<Rightarrow> jobj option"

fun hook_effect :: "HookCall \<Rightarrow> rows \<Rightarrow> rows" where
  "hook_effect (HWrite (WPut i v)) tab = tab(i := Some v)"
| "hook_effect (HWrite (WDel i)) tab = tab(i := None)"
| "hook_effect HTruncate tab = (\<lambda>_. None)"
| "hook_effect _ tab = tab"

text \<open>A collection refuses to insert a key it has and to update or delete one it does not have.\<close>

fun collection_effect :: "(jobj \<Rightarrow> jstr) \<Rightarrow> CollectionCall \<Rightarrow> rows \<Rightarrow> rows option" where
  "collection_effect key (CInsert v) tab = (if tab (key v) = None then Some (tab(key v := Some v)) else None)"
| "collection_effect key (CUpdate v) tab = (if tab (key v) \<noteq> None then Some (tab(key v := Some v)) else None)"
| "collection_effect key (CDelete i) tab = (if tab i \<noteq> None then Some (tab(i := None)) else None)"
| "collection_effect key CTruncate tab = Some (\<lambda>_. None)"
| "collection_effect key _ tab = Some tab"

fun collection_effects :: "(jobj \<Rightarrow> jstr) \<Rightarrow> CollectionCall list \<Rightarrow> rows \<Rightarrow> rows option" where
  "collection_effects key [] tab = Some tab"
| "collection_effects key (c # cs) tab = Option.bind (collection_effect key c tab) (collection_effects key cs)"

lemma collection_effects_append:
  "collection_effects key (xs @ ys) tab = Option.bind (collection_effects key xs tab) (collection_effects key ys)"
  by (induction xs arbitrary: tab) (simp_all add: Option.bind_eq_Some_conv split: Option.bind_split)

text \<open>The table as the gate would give it now: its pending calls on top of what it passed on.\<close>

definition pending_effect :: "HookGate \<Rightarrow> rows \<Rightarrow> rows" where
  "pending_effect g tab =
     fold hook_effect (map (HWrite \<circ> snd) (hg_pendingOps g)) (if hg_pendingClear g then (\<lambda>_. None) else tab)"

definition gate_ok :: "HookGate \<Rightarrow> bool" where
  "gate_ok g \<longleftrightarrow> distinct (map fst (hg_pendingOps g)) \<and> list_all (\<lambda>(k, wop). op_key wop = k) (hg_pendingOps g) \<and>
     (hg_attached g \<longrightarrow> \<not> hg_pendingClear g \<and> \<not> hg_pendingReady g \<and> hg_pendingOps g = [])"

lemma write_effect: "hook_effect (HWrite wop) tab = tab(op_key wop := (case wop of WPut i v \<Rightarrow> Some v | WDel i \<Rightarrow> None))"
  by (cases wop) simp_all

lemma pending_at:
  assumes "distinct (map fst ops)" "list_all (\<lambda>(k, wop). op_key wop = k) ops"
  shows "fold hook_effect (map (HWrite \<circ> snd) ops) tab k =
    (case map_of ops k of None \<Rightarrow> tab k | Some wop \<Rightarrow> (case wop of WPut i v \<Rightarrow> Some v | WDel i \<Rightarrow> None))"
  using assms
proof (induction ops arbitrary: tab)
  case (Cons x ops)
  obtain k' wop where x: "x = (k', wop)" by (cases x)
  have n: "map_of ops k' = None" using Cons.prems(1) by (simp add: x map_of_eq_None_iff)
  have "op_key wop = k'" using Cons.prems(2) by (simp add: x)
  then have "hook_effect (HWrite wop) tab k = (if k = k' then (case wop of WPut i v \<Rightarrow> Some v | WDel i \<Rightarrow> None) else tab k)"
    by (simp add: write_effect)
  moreover have "fold hook_effect (map (HWrite \<circ> snd) (x # ops)) tab k =
      (case map_of ops k of None \<Rightarrow> hook_effect (HWrite wop) tab k | Some wop \<Rightarrow> (case wop of WPut i v \<Rightarrow> Some v | WDel i \<Rightarrow> None))"
    using Cons.IH [of "hook_effect (HWrite wop) tab"] Cons.prems by (simp add: x comp_def)
  ultimately show ?case using n by (auto simp: x comp_def split: option.splits)
qed simp

lemma keys_update:
  "list_all (\<lambda>(k, wop). op_key wop = k) ops \<Longrightarrow>
     list_all (\<lambda>(k, wop). op_key wop = k) (AList.update (op_key wop) wop ops)"
  by (induction ops) auto

lemma gate_step:
  assumes "gate_ok g" "gate_call c g = (out, g')"
  shows "gate_ok g' \<and> hg_attached g' = hg_attached g \<and>
    pending_effect g' (fold hook_effect out tab) = hook_effect c (pending_effect g tab) \<and>
    (HMarkReady \<in> set out \<or> hg_pendingReady g' \<longleftrightarrow> c = HMarkReady \<or> hg_pendingReady g)"
proof (cases "hg_attached g")
  case True
  then show ?thesis using assms by (cases c) (auto simp: gate_ok_def pending_effect_def)
next
  case False
  show ?thesis
  proof (cases c)
    case (HWrite wop)
    let ?ops = "AList.update (op_key wop) wop (hg_pendingOps g)"
    have g': "out = []" "g' = g\<lparr>hg_pendingOps := ?ops\<rparr>" using assms(2) False by (simp_all add: HWrite)
    have d: "distinct (map fst ?ops)" "list_all (\<lambda>(k, wop). op_key wop = k) ?ops"
      using assms(1) by (simp_all add: gate_ok_def distinct_update keys_update)
    have "pending_effect g' tab k = hook_effect c (pending_effect g tab) k" for k
      using assms(1) by (simp add: g' pending_effect_def pending_at [OF d] pending_at gate_ok_def HWrite write_effect map_of_update)
    then show ?thesis using d False by (auto simp: g' gate_ok_def HWrite)
  qed (use assms False in \<open>auto simp: gate_ok_def pending_effect_def\<close>)
qed

lemma gate_runs:
  "gate_ok g \<Longrightarrow> gate_run cs g = (out, g') \<Longrightarrow>
     gate_ok g' \<and> hg_attached g' = hg_attached g \<and>
     pending_effect g' (fold hook_effect out tab) = fold hook_effect cs (pending_effect g tab) \<and>
     (HMarkReady \<in> set out \<or> hg_pendingReady g' \<longleftrightarrow> HMarkReady \<in> set cs \<or> hg_pendingReady g)"
proof (induction cs arbitrary: g out tab)
  case (Cons c cs)
  obtain o1 g1 where 1: "gate_call c g = (o1, g1)" by (cases "gate_call c g")
  obtain o2 g2 where 2: "gate_run cs g1 = (o2, g2)" by (cases "gate_run cs g1")
  have r: "out = o1 @ o2" "g' = g2" using Cons.prems(2) by (simp_all add: 1 2)
  note S = gate_step [OF Cons.prems(1) 1, of tab]
  with Cons.IH [of g1 o2 "fold hook_effect o1 tab"] 2 show ?case by (auto simp: r)
qed (auto)

lemma attach_drains:
  assumes "gate_ok g" "gate_attach g = (out, g')"
  shows "gate_ok g' \<and> hg_attached g' \<and> fold hook_effect out tab = pending_effect g tab \<and>
    (HMarkReady \<in> set out \<longleftrightarrow> hg_pendingReady g)"
  using assms by (auto simp: gate_attach_def gate_ok_def pending_effect_def)

lemma collection_runs:
  assumes "list_all (\<lambda>c. case c of HWrite (WPut i v) \<Rightarrow> key v = i | _ \<Rightarrow> True) cs"
    and "ks = dom tab" "collection_run cs ks = (out, ks')"
  shows "collection_effects key out tab = Some (fold hook_effect cs tab) \<and> ks' = dom (fold hook_effect cs tab)"
  using assms
proof (induction cs arbitrary: ks tab out)
  case (Cons c cs)
  obtain o1 k1 where 1: "collection_write c ks = (o1, k1)" by (cases "collection_write c ks")
  obtain o2 k2 where 2: "collection_run cs k1 = (o2, k2)" by (cases "collection_run cs k1")
  have r: "out = o1 @ o2" "ks' = k2" using Cons.prems(3) by (simp_all add: 1 2)
  have "collection_effects key o1 tab = Some (hook_effect c tab) \<and> k1 = dom (hook_effect c tab)"
    using Cons.prems(1,2) 1
    by (cases "(c, tab)" rule: hook_effect.cases) (auto simp: fun_eq_iff split: if_splits)
  with Cons.IH [of k1 "hook_effect c tab" o2] Cons.prems(1) 2 show ?case
    by (simp add: r collection_effects_append)
qed simp

lemma ready_passes: "collection_run cs ks = (out, ks') \<Longrightarrow> CMarkReady \<in> set out \<longleftrightarrow> HMarkReady \<in> set cs"
proof (induction cs arbitrary: ks out ks')
  case (Cons c cs)
  obtain o1 k1 where 1: "collection_write c ks = (o1, k1)" by (cases "collection_write c ks")
  obtain o2 k2 where 2: "collection_run cs k1 = (o2, k2)" by (cases "collection_run cs k1")
  have "CMarkReady \<in> set o1 \<longleftrightarrow> c = HMarkReady"
    using 1 by (cases "(c, \<lambda>_ :: jstr. None :: jobj option)" rule: hook_effect.cases) (auto split: if_splits)
  moreover have "out = o1 @ o2" using Cons.prems by (simp add: 1 2)
  ultimately show ?case using Cons.IH [OF 2] by auto
qed simp

lemma detached_run:
  "\<not> hg_attached g \<Longrightarrow> gate_run cs g = (out, g') \<Longrightarrow>
     out = [] \<and> \<not> hg_attached g' \<and> snd ` set (hg_pendingOps g') \<subseteq> snd ` set (hg_pendingOps g) \<union> {wop. HWrite wop \<in> set cs}"
proof (induction cs arbitrary: g out)
  case (Cons c cs)
  obtain o1 g1 where 1: "gate_call c g = (o1, g1)" by (cases "gate_call c g")
  obtain o2 g2 where 2: "gate_run cs g1 = (o2, g2)" by (cases "gate_run cs g1")
  have u: "snd ` set (AList.update k v m) \<subseteq> insert v (snd ` set m)" for k v and m :: "(jstr \<times> TableWriteOp) list"
    by (induction m) auto
  have "o1 = [] \<and> \<not> hg_attached g1 \<and> snd ` set (hg_pendingOps g1) \<subseteq> snd ` set (hg_pendingOps g) \<union> {wop. HWrite wop \<in> {c}}"
  proof (cases c)
    case (HWrite wop)
    then have "o1 = []" "g1 = g\<lparr>hg_pendingOps := AList.update (op_key wop) wop (hg_pendingOps g)\<rparr>"
      using 1 Cons.prems(1) by simp_all
    then show ?thesis using Cons.prems(1) HWrite u [of "op_key wop" wop "hg_pendingOps g"]
      by simp
  qed (use 1 Cons.prems(1) in auto)
  moreover from this Cons.IH [of g1 o2] 2 have "o2 = [] \<and> \<not> hg_attached g2 \<and>
      snd ` set (hg_pendingOps g2) \<subseteq> snd ` set (hg_pendingOps g1) \<union> {wop. HWrite wop \<in> set cs}"
    using Cons.prems(2) 1 by auto
  moreover have "out = o1 @ o2" "g' = g2" using Cons.prems(2) by (simp_all add: 1 2)
  moreover have "{wop. HWrite wop \<in> set (c # cs)} = {wop. HWrite wop \<in> {c}} \<union> {wop. HWrite wop \<in> set cs}" by auto
  ultimately show ?case by (simp only:) blast
qed simp

lemma attached_run: "hg_attached g \<Longrightarrow> gate_run cs g = (cs, g)"
proof (induction cs)
  case (Cons c cs)
  then show ?case by (cases c) simp_all
qed simp

text \<open>\<open>keyed key cs\<close>: each row the calls put has the key it is put under.\<close>

definition keyed :: "(jobj \<Rightarrow> jstr) \<Rightarrow> HookCall list \<Rightarrow> bool" where
  "keyed key cs \<longleftrightarrow> list_all (\<lambda>c. case c of HWrite (WPut i v) \<Rightarrow> key v = i | _ \<Rightarrow> True) cs"

text \<open>
  A collection created before its first subscriber misses nothing. Whatever the client
  synced before and after the gate was attached, the collection's calls are ones it accepts (no
  insert of a row it has, no update or delete of one it does not have), they leave it with
  exactly the table the client's calls describe, and it was marked ready if the client marked
  it ready.
\<close>

theorem gate_transparent:
  assumes "gate_run before createHookGate = (o1, g1)" "gate_attach g1 = (o2, g2)" "gate_run after g2 = (o3, g3)"
    and "collection_run (o1 @ o2 @ o3) {} = (calls, ks)" "keyed key (before @ after)"
  shows "collection_effects key calls (\<lambda>_. None) = Some (fold hook_effect (before @ after) (\<lambda>_. None)) \<and>
    (CMarkReady \<in> set calls \<longleftrightarrow> HMarkReady \<in> set (before @ after))"
proof -
  have ok: "gate_ok createHookGate" "\<not> hg_attached createHookGate" by (simp_all add: createHookGate_def gate_ok_def)
  note G = gate_runs [OF ok(1) assms(1), of "\<lambda>_. None"] and D = detached_run [OF ok(2) assms(1)]
  note A = attach_drains [OF conjunct1 [OF G] assms(2), of "\<lambda>_. None"]
  have o3: "o3 = after" using attached_run [of g2 after] A assms(3) by simp
  have o1: "o1 = []" using D by simp
  have pend: "fold hook_effect o2 (\<lambda>_. None) = fold hook_effect before (\<lambda>_. None)"
    using A G by (simp add: o1 pending_effect_def createHookGate_def)
  have ready: "HMarkReady \<in> set o2 \<longleftrightarrow> HMarkReady \<in> set before"
    using A G by (simp add: o1 createHookGate_def)
  have "snd ` set (hg_pendingOps g1) \<subseteq> {wop. HWrite wop \<in> set before}" using D by (simp add: createHookGate_def)
  moreover have "list_all (\<lambda>c. c \<in> {HBegin, HCommit, HTruncate, HMarkReady} \<or> (\<exists>x \<in> set (hg_pendingOps g1). c = HWrite (snd x))) o2"
    using assms(2) by (auto simp: gate_attach_def list_all_iff)
  ultimately have "list_all (\<lambda>c. c \<in> {HBegin, HCommit, HTruncate, HMarkReady} \<or> c \<in> set before) o2"
    unfolding list_all_iff by blast
  then have "keyed key (o2 @ after)" using assms(5) by (auto simp: keyed_def list_all_iff)
  then have "collection_effects key calls (\<lambda>_. None) = Some (fold hook_effect (o2 @ after) (\<lambda>_. None))"
    using collection_runs [of key "o2 @ after" "{}" "\<lambda>_. None" calls ks] assms(4) by (simp add: keyed_def o1 o3)
  then show ?thesis using pend ready ready_passes [OF assms(4)] by (simp add: o1 o3)
qed

theorem gate_transparent_witness:
  "\<exists>calls. collection_effects (\<lambda>_. js ''a'') calls (\<lambda>_. None) = Some ((\<lambda>_. None)(js ''a'' := Some [])) \<and> CMarkReady \<in> set calls"
proof -
  let ?before = "[HBegin, HTruncate, HWrite (WPut (js ''a'') []), HCommit, HMarkReady]"
  let ?after = "[HBegin, HWrite (WPut (js ''a'') []), HCommit]"
  obtain o1 g1 where 1: "gate_run ?before createHookGate = (o1, g1)" by fastforce
  obtain o2 g2 where 2: "gate_attach g1 = (o2, g2)" by fastforce
  obtain o3 g3 where 3: "gate_run ?after g2 = (o3, g3)" by fastforce
  obtain calls ks where 4: "collection_run (o1 @ o2 @ o3) {} = (calls, ks)" by fastforce
  have "keyed (\<lambda>_. js ''a'') (?before @ ?after)" by (simp add: keyed_def)
  from gate_transparent [OF 1 2 3 4 this] show ?thesis by auto
qed

end
