(* ===== verification/Client.thy ===== *)
theory Client
  imports Collections SyncStore
begin

text \<open>
  The sync client, client/src/client.ts. \<open>Client\<close> is the state of a \<open>SyncClient\<close>; every method
  that changes it is a function on it. What the client does to the outside, in order, is the
  list \<open>cl_effects\<close>: frames sent, sockets opened and closed, calls of the table hooks, writes to
  the store, settled mutations. A callback the runtime calls later (a microtask, a timer, a
  promise's continuation) is a function of its own. Log lines, the text of errors and the
  callbacks of the application are left out; a callback does not re-enter the client. Object
  identities are numbers: \<open>oe_key\<close> of a queued mutation, \<open>cl_socket\<close> of the current socket.
\<close>

section \<open>State\<close>

datatype SyncStatus = Idle | Connecting | Syncing | Synced | Reconnecting | FatalStatus

text \<open>\<open>MutationError\<close> with its code, or the fatal error of a permanent rejection.\<close>

datatype Rejection = MutationError jstr | SyncFatalError

text \<open>A queued mutation; it has settled exactly when it is no longer in the outbox.\<close>

record OutboxEntry =
  oe_key :: nat
  oe_id :: "int option"
  oe_name :: jstr
  oe_args :: jval
  oe_seed :: jstr
  oe_timer :: bool

record PokeBuffer =
  pb_pokeId :: jstr
  pb_baseMismatch :: bool
  pb_patch :: "PatchOp list"
  pb_lmids :: "(jstr \<times> int) list"
  pb_results :: "MutationResult list"

datatype AuthToken = NoToken | TokenString jstr | TokenFunction

record SyncClientOptions =
  co_app :: AppDefinition
  co_clientId :: jstr
  co_store :: bool
  co_auth :: "jval option"
  co_authToken :: AuthToken
  co_maxBackoffMs :: "int option"
  co_pingIntervalMs :: "int option"
  co_idleTimeoutMs :: "int option"
  co_presenceThrottleMs :: "int option"

datatype ClientEffect =
    CSend nat ClientMsg
  | CPing nat
  | CClose nat int
  | COpen nat "jstr option"
  | CAskToken int
  | CHook jstr HookCall
  | COverlay nat "LocalOp list"
  | CSettled nat "Rejection option"
  | CStatus SyncStatus
  | CPending nat
  | CHydrated
  | CPresenceChanged
  | CLoad
  | CReset
  | CSaveOutbox "PersistedOutboxEntry list" int
  | CApplyPoke PokePersist
  | CProgress nat int
  | CReconnectAfter int
  | CFatal

text \<open>
  \<open>None\<close> before \<open>start\<close>, then where \<open>start\<close> is with the store: waiting for \<open>load\<close>, or for the
  continuation that connects.
\<close>

datatype Loading = NotLoading | LoadPending | LoadDone bool

record ClientPeer =
  cpeer_principal :: "jstr option"
  cpeer_state :: jval
  cpeer_receivedAt :: int

text \<open>\<open>cp_state\<close> is \<open>undefined\<close> until presence is first set, and \<open>null\<close> once it is cleared.\<close>

record PresenceState =
  cp_peers :: "(jstr \<times> ClientPeer) list"
  cp_state :: jval
  cp_live :: bool
  cp_timer :: bool
  cp_roundTripChecked :: bool
  cp_lastSentAt :: int

record Client =
  cl_socket :: "nat option"
  cl_nextSocket :: nat
  cl_status :: SyncStatus
  cl_connectEpoch :: int
  cl_refreshStreak :: int
  cl_cursor :: "Cursor option"
  cl_confirmedLmid :: int
  cl_outbox :: "OutboxEntry list"
  cl_nextKey :: nat
  cl_notifiedPending :: nat
  cl_poke :: "PokeBuffer option"
  cl_synced :: bool
  cl_awaitingCatchUp :: bool
  cl_needsRebase :: bool
  cl_started :: bool
  cl_stopped :: bool
  cl_destroyed :: bool
  cl_attempt :: nat
  cl_reconnectTimer :: bool
  cl_retryPushTimer :: bool
  cl_heartbeatTimer :: bool
  cl_flushScheduled :: bool
  cl_persistScheduled :: bool
  cl_hydrating :: bool
  cl_hydrated :: bool
  cl_latch :: bool
  cl_loading :: Loading
  cl_lastFrameAt :: int
  cl_tables :: "jstr list"
  cl_presence :: PresenceState
  cl_effects :: "ClientEffect list"

text \<open>What the runtime and the collections answer during one call.\<close>

record ClientEnv =
  ce_now :: int
  ce_socketOk :: bool
  ce_hidden :: bool
  ce_offline :: bool
  ce_seeds :: "nat \<Rightarrow> jstr"

text \<open>
  The collections as intent execution sees them, after the effects so far: their rows, and
  whether they take the writes of an overlay (a library call may throw).
\<close>

record CollectionViews =
  cv_appliers :: "ClientEffect list \<Rightarrow> appliers"
  cv_takes :: "ClientEffect list \<Rightarrow> LocalOp list \<Rightarrow> bool"

definition new_client :: Client where
  "new_client =
     \<lparr>cl_socket = None, cl_nextSocket = 0, cl_status = Idle, cl_connectEpoch = 0, cl_refreshStreak = 0,
      cl_cursor = None, cl_confirmedLmid = 0, cl_outbox = [], cl_nextKey = 0, cl_notifiedPending = 0,
      cl_poke = None, cl_synced = False, cl_awaitingCatchUp = False, cl_needsRebase = False,
      cl_started = False, cl_stopped = False, cl_destroyed = False, cl_attempt = 0,
      cl_reconnectTimer = False, cl_retryPushTimer = False, cl_heartbeatTimer = False,
      cl_flushScheduled = False, cl_persistScheduled = False, cl_hydrating = False, cl_hydrated = False,
      cl_latch = True, cl_loading = NotLoading, cl_lastFrameAt = 0, cl_tables = [],
      cl_presence = \<lparr>cp_peers = [], cp_state = JUndef, cp_live = False, cp_timer = False,
                     cp_roundTripChecked = False, cp_lastSentAt = 0\<rparr>,
      cl_effects = []\<rparr>"

section \<open>Plumbing\<close>

definition effect :: "ClientEffect \<Rightarrow> Client \<Rightarrow> Client" where
  "effect e st = st\<lparr>cl_effects := cl_effects st @ [e]\<rparr>"

text \<open>\<open>send\<close> may throw on a broken socket; the client ignores that.\<close>

definition client_send :: "ClientMsg \<Rightarrow> Client \<Rightarrow> Client" where
  "client_send msg st = (case cl_socket st of None \<Rightarrow> st | Some s \<Rightarrow> effect (CSend s msg) st)"

definition setStatus :: "SyncStatus \<Rightarrow> Client \<Rightarrow> Client" where
  "setStatus status st = (if cl_status st = status then st else effect (CStatus status) (st\<lparr>cl_status := status\<rparr>))"

definition markAllReady :: "Client \<Rightarrow> Client" where
  "markAllReady st = fold (\<lambda>t. effect (CHook t HMarkReady)) (cl_tables st) st"

section \<open>Outbox\<close>

definition notifyPending :: "Client \<Rightarrow> Client" where
  "notifyPending st =
     (let pending = length (cl_outbox st) in
      if pending = cl_notifiedPending st then st
      else effect (CPending pending) (st\<lparr>cl_notifiedPending := pending\<rparr>))"

definition outboxSnapshot :: "Client \<Rightarrow> PersistedOutboxEntry list" where
  "outboxSnapshot st =
     map (\<lambda>e. \<lparr>po_id = oe_id e, po_name = oe_name e, po_args = oe_args e, po_seed = Some (oe_seed e)\<rparr>) (cl_outbox st)"

definition persistOutbox :: "SyncClientOptions \<Rightarrow> Client \<Rightarrow> Client" where
  "persistOutbox cfg st =
     (if \<not> co_store cfg \<or> cl_hydrating st \<or> cl_stopped st \<or> cl_persistScheduled st then st
      else st\<lparr>cl_persistScheduled := True\<rparr>)"

definition persist_microtask :: "Client \<Rightarrow> Client" where
  "persist_microtask st =
     (let st = st\<lparr>cl_persistScheduled := False\<rparr> in
      if cl_stopped st then st else effect (CSaveOutbox (outboxSnapshot st) (cl_confirmedLmid st)) st)"

definition settleEntry :: "SyncClientOptions \<Rightarrow> nat \<Rightarrow> Rejection option \<Rightarrow> Client \<Rightarrow> Client" where
  "settleEntry cfg k err st =
     (let st = (if k \<in> oe_key ` set (cl_outbox st) then effect (CSettled k err) st else st)
      in persistOutbox cfg (notifyPending (st\<lparr>cl_outbox := filter (\<lambda>e. oe_key e \<noteq> k) (cl_outbox st)\<rparr>)))"

definition highest_id :: "int \<Rightarrow> OutboxEntry list \<Rightarrow> int" where
  "highest_id lmid es = fold (\<lambda>e m. case oe_id e of Some i \<Rightarrow> if m < i then i else m | None \<Rightarrow> m) es lmid"

definition nextMutationId :: "Client \<Rightarrow> int" where
  "nextMutationId st = highest_id (cl_confirmedLmid st) (cl_outbox st) + 1"

fun assign_ids :: "int \<Rightarrow> OutboxEntry list \<Rightarrow> OutboxEntry list \<Rightarrow> OutboxEntry list" where
  "assign_ids lmid done [] = done"
| "assign_ids lmid done (e # es) =
     assign_ids lmid
       (done @ [if oe_id e = None then e\<lparr>oe_id := Some (highest_id lmid (done @ e # es) + 1)\<rparr> else e]) es"

definition assignPendingIds :: "SyncClientOptions \<Rightarrow> Client \<Rightarrow> Client" where
  "assignPendingIds cfg st =
     persistOutbox cfg (st\<lparr>cl_outbox := assign_ids (cl_confirmedLmid st) [] (cl_outbox st)\<rparr>)"

fun renumber :: "int \<Rightarrow> OutboxEntry list \<Rightarrow> OutboxEntry list" where
  "renumber n [] = []"
| "renumber n (e # es) = e\<lparr>oe_id := Some (n + 1)\<rparr> # renumber (n + 1) es"

definition rebaseOutboxIds :: "SyncClientOptions \<Rightarrow> Client \<Rightarrow> Client" where
  "rebaseOutboxIds cfg st = persistOutbox cfg (st\<lparr>cl_outbox := renumber (cl_confirmedLmid st) (cl_outbox st)\<rparr>)"

text \<open>\<open>new Map\<close> of the errors: the last one of an id counts.\<close>

definition error_of :: "MutationResult list \<Rightarrow> int \<Rightarrow> Rejection option" where
  "error_of results i =
     map_option (\<lambda>(code, message). MutationError code)
       (map_of (rev (map (\<lambda>r. (res_id r, the (res_error r))) (filter (\<lambda>r. res_error r \<noteq> None) results))) i)"

definition settleOutbox :: "SyncClientOptions \<Rightarrow> MutationResult list \<Rightarrow> Client \<Rightarrow> Client" where
  "settleOutbox cfg results st =
     fold (\<lambda>e st. case oe_id e of
         Some i \<Rightarrow> if i \<le> cl_confirmedLmid st then settleEntry cfg (oe_key e) (error_of results i) st else st
       | None \<Rightarrow> st) (cl_outbox st) st"

definition schedulePush :: "Client \<Rightarrow> Client" where
  "schedulePush st = st\<lparr>cl_flushScheduled := True\<rparr>"

definition push_mutations :: "Client \<Rightarrow> Mutation list" where
  "push_mutations st =
     map (\<lambda>e. \<lparr>mut_id = the (oe_id e), mut_name = oe_name e, mut_args = oe_args e, mut_seed = oe_seed e\<rparr>)
       (sort_key (\<lambda>e. the (oe_id e))
         (filter (\<lambda>e. case oe_id e of Some i \<Rightarrow> cl_confirmedLmid st < i | None \<Rightarrow> False) (cl_outbox st)))"

definition flushPush :: "Client \<Rightarrow> Client" where
  "flushPush st =
     (if cl_socket st = None \<or> \<not> cl_synced st then st
      else if push_mutations st = [] then st else client_send (PushMsg (push_mutations st)) st)"

definition push_microtask :: "Client \<Rightarrow> Client" where
  "push_microtask st = flushPush (st\<lparr>cl_flushScheduled := False\<rparr>)"

text \<open>What a call of \<open>mutate\<close> returns: a rejected promise, or the promise of a queued mutation.\<close>

datatype MutateOutcome = Refused Rejection | Queued nat | Thrown

definition enqueue :: "SyncClientOptions \<Rightarrow> jstr \<Rightarrow> jval \<Rightarrow> jstr \<Rightarrow> Client \<Rightarrow> MutateOutcome \<times> Client" where
  "enqueue cfg name args seed st =
     (if cl_status st = FatalStatus then (Refused (MutationError (js ''Fatal'')), st)
      else if cl_stopped st then (Refused (MutationError (js ''Stopped'')), st)
      else
        let k = cl_nextKey st;
            entry = \<lparr>oe_key = k, oe_id = None, oe_name = name, oe_args = args, oe_seed = seed,
                     oe_timer = (\<not> co_store cfg)\<rparr>;
            st = notifyPending (st\<lparr>cl_nextKey := Suc k, cl_outbox := cl_outbox st @ [entry]\<rparr>);
            st = (if cl_synced st
                  then schedulePush (st\<lparr>cl_outbox := butlast (cl_outbox st) @ [entry\<lparr>oe_id := Some (nextMutationId st)\<rparr>]\<rparr>)
                  else st)
        in (Queued k, persistOutbox cfg st))"

text \<open>The timer of a mutation no store keeps.\<close>

definition confirm_timeout :: "SyncClientOptions \<Rightarrow> nat \<Rightarrow> Client \<Rightarrow> Client" where
  "confirm_timeout cfg k st =
     (if \<exists>e \<in> set (cl_outbox st). oe_key e = k \<and> oe_timer e
      then settleEntry cfg k (Some (MutationError (js ''Timeout''))) st else st)"

section \<open>Local runs\<close>

definition localContext :: "SyncClientOptions \<Rightarrow> jstr \<Rightarrow> MutatorContext" where
  "localContext cfg seed =
     \<lparr>ctx_clientId = co_clientId cfg, ctx_principal = None, ctx_auth = co_auth cfg, ctx_authoritative = False,
      ctx_seed = seed, ctx_nextId = createIdSource seed\<rparr>"

text \<open>How a local throw rejects.\<close>

fun local_rejection :: "err \<Rightarrow> Rejection" where
  "local_rejection (AppError code message) = MutationError code"
| "local_rejection (OtherError tag) = MutationError (js ''LocalApplyFailed'')"

definition local_run ::
  "SyncClientOptions \<Rightarrow> appliers \<Rightarrow> MutatorDef \<Rightarrow> jval \<Rightarrow> jstr \<Rightarrow> LocalWriteSet \<times> err option" where
  "local_run cfg aps d args seed =
     run_local (app_schema (co_app cfg)) aps (def_apply d args (localContext cfg seed)) new_LocalWriteSet"

text \<open>The runner lays the overlay, then enqueues; its own throw reaches the caller.\<close>

definition run_intent ::
  "SyncClientOptions \<Rightarrow> ClientEnv \<Rightarrow> CollectionViews \<Rightarrow> jstr \<Rightarrow> jval \<Rightarrow> LocalWriteSet \<Rightarrow> Client \<Rightarrow> MutateOutcome \<times> Client" where
  "run_intent cfg ev cv name args ws st =
     (let writes = flushLocalWrites (cv_appliers cv (cl_effects st)) ws in
      if cv_takes cv (cl_effects st) writes
      then enqueue cfg name args (ce_seeds ev 0) (effect (COverlay (cl_nextKey st) writes) st)
      else (Thrown, st))"

text \<open>
  The runtime of \<open>mutate\<close>. A name of \<open>Object.prototype\<close> finds a function, whose \<open>apply\<close> calls
  it on the transaction: it writes nothing or throws.
\<close>

definition mutateByName ::
  "SyncClientOptions \<Rightarrow> ClientEnv \<Rightarrow> CollectionViews \<Rightarrow> jstr \<Rightarrow> jval \<Rightarrow> Client \<Rightarrow> MutateOutcome \<times> Client" where
  "mutateByName cfg ev cv name args st =
     (let seed = ce_seeds ev 0; aps = cv_appliers cv (cl_effects st) in
      if cl_status st = FatalStatus then (Refused (MutationError (js ''Fatal'')), st)
      else case prop_get (app_mutators (co_app cfg)) name of
        Absent \<Rightarrow> (Refused (MutationError (js ''UnknownMutator'')), st)
      | Inherited p \<Rightarrow>
          if aps = [] \<or> inherited_call_ok p args then enqueue cfg name args seed st
          else (Refused (MutationError (js ''LocalApplyFailed'')), st)
      | Own d \<Rightarrow>
          (case (case def_args d of None \<Rightarrow> VValue args | Some validate \<Rightarrow> validate args) of
             VAsync \<Rightarrow> enqueue cfg name args seed st
           | VIssues issues \<Rightarrow> (Refused (MutationError (js ''InvalidArgs'')), st)
           | VValue applyArgs \<Rightarrow>
               if aps = [] then enqueue cfg name args seed st
               else case local_run cfg aps d applyArgs seed of
                 (ws, Some e) \<Rightarrow>
                   if e = MissingApplierError then enqueue cfg name args seed st
                   else (Refused (local_rejection e), st)
               | (ws, None) \<Rightarrow>
                   if isEmpty ws then enqueue cfg name args seed st else run_intent cfg ev cv name args ws st))"

definition rawMutate :: "SyncClientOptions \<Rightarrow> ClientEnv \<Rightarrow> jstr \<Rightarrow> jval \<Rightarrow> Client \<Rightarrow> MutateOutcome \<times> Client" where
  "rawMutate cfg ev name args st =
     (if cl_status st = FatalStatus then (Refused (MutationError (js ''Fatal'')), st)
      else case prop_get (app_mutators (co_app cfg)) name of
        Absent \<Rightarrow> (Refused (MutationError (js ''UnknownMutator'')), st)
      | Inherited p \<Rightarrow> enqueue cfg name args (ce_seeds ev 0) st
      | Own d \<Rightarrow>
          (case (case def_args d of None \<Rightarrow> VAsync | Some validate \<Rightarrow> validate args) of
             VIssues issues \<Rightarrow> (Refused (MutationError (js ''InvalidArgs'')), st)
           | _ \<Rightarrow> enqueue cfg name args (ce_seeds ev 0) st))"

text \<open>The replay of a restored mutation: its overlay, or nothing.\<close>

definition replayEntry :: "SyncClientOptions \<Rightarrow> CollectionViews \<Rightarrow> OutboxEntry \<Rightarrow> Client \<Rightarrow> Client" where
  "replayEntry cfg cv e st =
     (let aps = cv_appliers cv (cl_effects st) in
      if aps = [] then st
      else case prop_get (app_mutators (co_app cfg)) (oe_name e) of
        Own d \<Rightarrow>
          (case (case def_args d of None \<Rightarrow> VValue (oe_args e) | Some validate \<Rightarrow> validate (oe_args e)) of
             VValue applyArgs \<Rightarrow>
               (case local_run cfg aps d applyArgs (oe_seed e) of
                  (ws, Some e) \<Rightarrow> st
                | (ws, None) \<Rightarrow>
                    let writes = flushLocalWrites aps ws in
                    if isEmpty ws \<or> \<not> cv_takes cv (cl_effects st) writes then st
                    else effect (COverlay (oe_key e) writes) st)
           | _ \<Rightarrow> st)
      | _ \<Rightarrow> st)"

section \<open>Presence\<close>

definition with_presence :: "(PresenceState \<Rightarrow> PresenceState) \<Rightarrow> Client \<Rightarrow> Client" where
  "with_presence f st = st\<lparr>cl_presence := f (cl_presence st)\<rparr>"

definition notifyPresence :: "Client \<Rightarrow> Client" where
  "notifyPresence st = effect CPresenceChanged st"

definition sendPresence :: "ClientEnv \<Rightarrow> Client \<Rightarrow> Client" where
  "sendPresence ev st =
     (let p = cl_presence st in
      if \<not> cp_live p \<or> cl_socket st = None \<or> cp_state p = JUndef then st
      else client_send (PresenceMsg (cp_state p)) (with_presence (\<lambda>p :: PresenceState. p\<lparr>cp_lastSentAt := ce_now ev\<rparr>) st))"

definition schedulePresenceSend :: "SyncClientOptions \<Rightarrow> ClientEnv \<Rightarrow> Client \<Rightarrow> Client" where
  "schedulePresenceSend cfg ev st =
     (let p = cl_presence st;
          cadence = (case co_presenceThrottleMs cfg of None \<Rightarrow> 100 | Some t \<Rightarrow> t) in
      if cp_timer p then st
      else if cadence \<le> ce_now ev - cp_lastSentAt p then sendPresence ev st
      else with_presence (\<lambda>p :: PresenceState. p\<lparr>cp_timer := True\<rparr>) st)"

definition presence_timer :: "ClientEnv \<Rightarrow> Client \<Rightarrow> Client" where
  "presence_timer ev st =
     (if cp_timer (cl_presence st)
      then sendPresence ev (with_presence (\<lambda>p :: PresenceState. p\<lparr>cp_timer := False\<rparr>) st) else st)"

text \<open>\<open>presence.set\<close>: the parsed state, or the error it throws.\<close>

definition presenceSet :: "SyncClientOptions \<Rightarrow> ClientEnv \<Rightarrow> jval \<Rightarrow> Client \<Rightarrow> err option \<times> Client" where
  "presenceSet cfg ev state st =
     (case app_presence (co_app cfg) of
        None \<Rightarrow> (Some (OtherError ''no presence schema''), st)
      | Some validate \<Rightarrow>
          let store = (\<lambda>state st. notifyPresence (schedulePresenceSend cfg ev
                        (with_presence (\<lambda>p :: PresenceState. p\<lparr>cp_state := state\<rparr>) st)));
              sized = (\<lambda>state st. if MAX_PRESENCE_BYTES < jsonByteSize state
                         then (Some (OtherError ''presence too large''), st) else (None, store state st))
          in if state = JNull then (None, store state st)
             else case validate state of
               VAsync \<Rightarrow> sized state st
             | VIssues issues \<Rightarrow> (Some (OtherError ''presence fails schema''), st)
             | VValue pv \<Rightarrow>
                 if cp_roundTripChecked (cl_presence st) then sized pv st
                 else
                   let st = with_presence (\<lambda>p :: PresenceState. p\<lparr>cp_roundTripChecked := True\<rparr>) st in
                   case validate pv of
                     VIssues issues \<Rightarrow> (Some (OtherError ''presence schema does not parse its own output''), st)
                   | _ \<Rightarrow> sized pv st)"

text \<open>Object spread of the current state and the partial one; a non-object partial spreads nothing.\<close>

definition presenceUpdate :: "SyncClientOptions \<Rightarrow> ClientEnv \<Rightarrow> jval \<Rightarrow> Client \<Rightarrow> err option \<times> Client" where
  "presenceUpdate cfg ev partial st =
     (let own = (\<lambda>v. case v of JObj ob \<Rightarrow> ob | _ \<Rightarrow> []);
          current = cp_state (cl_presence st) in
      case presenceSet cfg ev (JObj (spread (own current) (own partial))) st of
        (Some e, st) \<Rightarrow>
          (Some (if current = JUndef \<or> current = JNull then OtherError ''presence.update before set'' else e), st)
      | (None, st) \<Rightarrow> (None, st))"

definition applyPeerUpdate :: "SyncClientOptions \<Rightarrow> ClientEnv \<Rightarrow> Peer \<Rightarrow> Client \<Rightarrow> Client" where
  "applyPeerUpdate cfg ev peer st =
     (let peers = cp_peers (cl_presence st); c = peer_client peer in
      if c = co_clientId cfg then st
      else if peer_state peer = JNull \<or> peer_state peer = JUndef then
        (if has peers c
         then notifyPresence (with_presence (\<lambda>p :: PresenceState. p\<lparr>cp_peers := AList.delete c peers\<rparr>) st) else st)
      else
        notifyPresence (with_presence (\<lambda>p :: PresenceState. p\<lparr>cp_peers := AList.update c
          \<lparr>cpeer_principal = peer_principal peer, cpeer_state = peer_state peer, cpeer_receivedAt = ce_now ev\<rparr> peers\<rparr>) st))"

definition presenceDisconnected :: "Client \<Rightarrow> Client" where
  "presenceDisconnected st =
     (let st = with_presence (\<lambda>p :: PresenceState. p\<lparr>cp_live := False, cp_timer := False\<rparr>) st in
      if cp_peers (cl_presence st) = [] then st
      else notifyPresence (with_presence (\<lambda>p :: PresenceState. p\<lparr>cp_peers := []\<rparr>) st))"

fun adopt_peers :: "jstr \<Rightarrow> int \<Rightarrow> Peer list \<Rightarrow> (jstr \<times> ClientPeer) list \<Rightarrow> (jstr \<times> ClientPeer) list" where
  "adopt_peers self now [] peers = peers"
| "adopt_peers self now (q # qs) peers =
     adopt_peers self now qs
       (if peer_client q = self then peers
        else AList.update (peer_client q)
          \<lparr>cpeer_principal = peer_principal q, cpeer_state = peer_state q, cpeer_receivedAt = now\<rparr> peers)"

text \<open>Re-announcing the own state, unless it was never set or is cleared.\<close>

definition reannounce :: "ClientEnv \<Rightarrow> Client \<Rightarrow> Client" where
  "reannounce ev st =
     (if cp_state (cl_presence st) \<noteq> JUndef \<and> cp_state (cl_presence st) \<noteq> JNull then sendPresence ev st else st)"

definition presencePeers_msg :: "SyncClientOptions \<Rightarrow> ClientEnv \<Rightarrow> Peer list \<Rightarrow> Client \<Rightarrow> Client" where
  "presencePeers_msg cfg ev peers st =
     reannounce ev (notifyPresence (with_presence
       (\<lambda>p :: PresenceState. p\<lparr>cp_live := True, cp_peers := adopt_peers (co_clientId cfg) (ce_now ev) peers []\<rparr>) st))"

section \<open>Connection\<close>

definition scheduleReconnect :: "SyncClientOptions \<Rightarrow> Client \<Rightarrow> Client" where
  "scheduleReconnect cfg st =
     (if cl_stopped st \<or> cl_status st = FatalStatus then st
      else
        let st = setStatus Reconnecting st;
            cap = (case co_maxBackoffMs cfg of None \<Rightarrow> 30000 | Some c \<Rightarrow> c)
        in effect (CReconnectAfter (min cap (500 * 2 ^ cl_attempt st)))
             (st\<lparr>cl_attempt := Suc (cl_attempt st), cl_reconnectTimer := True\<rparr>))"

definition openSocket :: "SyncClientOptions \<Rightarrow> ClientEnv \<Rightarrow> jstr option \<Rightarrow> Client \<Rightarrow> Client" where
  "openSocket cfg ev token st =
     (if ce_socketOk ev
      then effect (COpen (cl_nextSocket st) token)
             (st\<lparr>cl_socket := Some (cl_nextSocket st), cl_nextSocket := Suc (cl_nextSocket st), cl_synced := False\<rparr>)
      else scheduleReconnect cfg (st\<lparr>cl_socket := None\<rparr>))"

definition connect :: "SyncClientOptions \<Rightarrow> ClientEnv \<Rightarrow> Client \<Rightarrow> Client" where
  "connect cfg ev st =
     (if cl_stopped st then st
      else
        let st = st\<lparr>cl_connectEpoch := cl_connectEpoch st + 1\<rparr> in
        case co_authToken cfg of
          NoToken \<Rightarrow> openSocket cfg ev None st
        | TokenString t \<Rightarrow> openSocket cfg ev (Some t) st
        | TokenFunction \<Rightarrow> effect (CAskToken (cl_connectEpoch st)) st)"

text \<open>What the token function's promise settles with, for the connect of an epoch.\<close>

definition token_settled :: "SyncClientOptions \<Rightarrow> ClientEnv \<Rightarrow> int \<Rightarrow> jstr option \<Rightarrow> Client \<Rightarrow> Client" where
  "token_settled cfg ev epoch token st =
     (if cl_stopped st \<or> epoch \<noteq> cl_connectEpoch st then st
      else case token of
        Some t \<Rightarrow> openSocket cfg ev (Some t) st
      | None \<Rightarrow> scheduleReconnect cfg (st\<lparr>cl_socket := None\<rparr>))"

definition sendHello :: "SyncClientOptions \<Rightarrow> Client \<Rightarrow> Client" where
  "sendHello cfg st =
     client_send (HelloMsg PROTOCOL_VERSION (app_version (co_app cfg)) (cl_cursor st)) (st\<lparr>cl_awaitingCatchUp := True\<rparr>)"

definition requestResync :: "SyncClientOptions \<Rightarrow> Client \<Rightarrow> Client" where
  "requestResync cfg st = (if cl_awaitingCatchUp st \<or> cl_socket st = None then st else sendHello cfg st)"

definition requestFullResync :: "SyncClientOptions \<Rightarrow> Client \<Rightarrow> Client" where
  "requestFullResync cfg st =
     (let st = st\<lparr>cl_cursor := None, cl_awaitingCatchUp := False\<rparr> in
      if cl_socket st \<noteq> None \<and> cl_status st \<noteq> Connecting then sendHello cfg st else st)"

definition registerTable :: "SyncClientOptions \<Rightarrow> jstr \<Rightarrow> Client \<Rightarrow> err option \<times> Client" where
  "registerTable cfg tbl st =
     (if tbl \<in> set (cl_tables st) then (Some (OtherError ''table already registered''), st)
      else
        let st = st\<lparr>cl_tables := cl_tables st @ [tbl]\<rparr> in
        (None, if cl_synced st then requestFullResync cfg st else st))"

definition unregisterTable :: "jstr \<Rightarrow> Client \<Rightarrow> Client" where
  "unregisterTable tbl st = st\<lparr>cl_tables := filter (\<lambda>t. t \<noteq> tbl) (cl_tables st)\<rparr>"

definition ping_interval :: "SyncClientOptions \<Rightarrow> int" where
  "ping_interval cfg = (case co_pingIntervalMs cfg of None \<Rightarrow> 25000 | Some i \<Rightarrow> i)"

definition startHeartbeat :: "SyncClientOptions \<Rightarrow> Client \<Rightarrow> Client" where
  "startHeartbeat cfg st = st\<lparr>cl_heartbeatTimer := (0 < ping_interval cfg)\<rparr>"

definition stopHeartbeat :: "Client \<Rightarrow> Client" where
  "stopHeartbeat st = st\<lparr>cl_heartbeatTimer := False\<rparr>"

definition heartbeat_tick :: "SyncClientOptions \<Rightarrow> ClientEnv \<Rightarrow> Client \<Rightarrow> Client" where
  "heartbeat_tick cfg ev st =
     (let deadline = (case co_idleTimeoutMs cfg of None \<Rightarrow> ping_interval cfg * 2 + 5000 | Some t \<Rightarrow> t) in
      case cl_socket st of
        None \<Rightarrow> st
      | Some s \<Rightarrow>
          if \<not> cl_heartbeatTimer st then st
          else if deadline < ce_now ev - cl_lastFrameAt st then
            scheduleReconnect cfg (presenceDisconnected (stopHeartbeat
              ((effect (CClose s 4408) (st\<lparr>cl_socket := None\<rparr>))\<lparr>cl_poke := None, cl_awaitingCatchUp := False\<rparr>)))
          else effect (CPing s) st)"

definition fatal :: "SyncClientOptions \<Rightarrow> Client \<Rightarrow> Client" where
  "fatal cfg st =
     (let st = markAllReady (presenceDisconnected (stopHeartbeat (setStatus FatalStatus st)));
          st = fold (\<lambda>e. settleEntry cfg (oe_key e) (Some SyncFatalError)) (cl_outbox st) st;
          st = (case cl_socket st of None \<Rightarrow> st | Some s \<Rightarrow> effect (CClose s 1000) st)
      in effect CFatal (st\<lparr>cl_socket := None\<rparr>))"

definition onDisconnect :: "SyncClientOptions \<Rightarrow> ClientEnv \<Rightarrow> int option \<Rightarrow> Client \<Rightarrow> Client" where
  "onDisconnect cfg ev code st =
     (let st = presenceDisconnected (stopHeartbeat (st\<lparr>cl_socket := None, cl_poke := None, cl_awaitingCatchUp := False\<rparr>)) in
      if (case code of Some c \<Rightarrow> isPermanentCloseCode c | None \<Rightarrow> False) then fatal cfg st
      else if code = Some CLOSE_REFRESH then
        (let st = st\<lparr>cl_refreshStreak := cl_refreshStreak st + 1\<rparr> in
         if cl_refreshStreak st = 1 then connect cfg ev (setStatus Reconnecting st) else scheduleReconnect cfg st)
      else scheduleReconnect cfg st)"

text \<open>\<open>online\<close> and \<open>visibilitychange\<close>.\<close>

definition wake_client :: "SyncClientOptions \<Rightarrow> ClientEnv \<Rightarrow> Client \<Rightarrow> Client" where
  "wake_client cfg ev st =
     (if cl_stopped st \<or> cl_status st \<noteq> Reconnecting \<or> ce_hidden ev \<or> ce_offline ev then st
      else connect cfg ev (st\<lparr>cl_reconnectTimer := False\<rparr>))"

definition socket_open :: "SyncClientOptions \<Rightarrow> ClientEnv \<Rightarrow> Client \<Rightarrow> Client" where
  "socket_open cfg ev st = sendHello cfg (setStatus Syncing (startHeartbeat cfg (st\<lparr>cl_lastFrameAt := ce_now ev\<rparr>)))"

section \<open>Start and teardown\<close>

definition settleHydrated :: "bool \<Rightarrow> Client \<Rightarrow> Client" where
  "settleHydrated restored st =
     (if \<not> cl_latch st then st
      else
        let st = st\<lparr>cl_latch := False, cl_hydrated := restored\<rparr> in
        if restored then effect CHydrated st else st)"

definition start :: "SyncClientOptions \<Rightarrow> ClientEnv \<Rightarrow> Client \<Rightarrow> err option \<times> Client" where
  "start cfg ev st =
     (if cl_destroyed st then (Some (OtherError ''destroyed''), st)
      else if cl_started st then (None, st)
      else
        let st = setStatus Connecting (st\<lparr>cl_started := True\<rparr>) in
        (None,
         if co_store cfg then effect CLoad (st\<lparr>cl_hydrating := True, cl_loading := LoadPending\<rparr>)
         else connect cfg ev (settleHydrated False st)))"

text \<open>What \<open>store.load()\<close> settles with.\<close>

datatype LoadResult = LoadFailed | Loaded "PersistedState option"

definition restored_entries :: "SyncClientOptions \<Rightarrow> ClientEnv \<Rightarrow> nat \<Rightarrow> PersistedOutboxEntry list \<Rightarrow> OutboxEntry list" where
  "restored_entries cfg ev k es =
     map (\<lambda>(i, e). \<lparr>oe_key = k + i, oe_id = po_id e, oe_name = po_name e, oe_args = po_args e,
                      oe_seed = (case po_seed e of Some s \<Rightarrow> s | None \<Rightarrow> ce_seeds ev i), oe_timer = False\<rparr>)
       (enumerate 0 es)"

text \<open>One synced transaction on a table: the writes between \<open>begin\<close> and \<open>commit\<close>.\<close>

definition table_txn :: "jstr \<Rightarrow> HookCall list \<Rightarrow> Client \<Rightarrow> Client" where
  "table_txn t calls st = fold (\<lambda>c. effect (CHook t c)) ([HBegin] @ calls @ [HCommit]) st"

definition restore_rows :: "PersistedRow list \<Rightarrow> Client \<Rightarrow> Client" where
  "restore_rows rows st =
     fold (\<lambda>t. table_txn t (map (\<lambda>r. HWrite (WPut (pr_id r) (pr_value r))) (filter (\<lambda>r. pr_tbl r = t) rows)))
       (cl_tables st) st"

definition hydrate ::
  "SyncClientOptions \<Rightarrow> ClientEnv \<Rightarrow> CollectionViews \<Rightarrow> LoadResult \<Rightarrow> Client \<Rightarrow> bool \<times> Client" where
  "hydrate cfg ev cv result st =
     (case result of
        LoadFailed \<Rightarrow> (False, st)
      | Loaded None \<Rightarrow> (False, st)
      | Loaded (Some state) \<Rightarrow>
          if cl_stopped st then (False, st)
          else if ps_schemaVersion state \<noteq> None \<and> ps_schemaVersion state \<noteq> Some (app_version (co_app cfg)) then
            (False, effect CReset st)
          else
            let restored = restored_entries cfg ev (cl_nextKey st) (ps_outbox state);
                st = notifyPending (st\<lparr>cl_cursor := ps_cursor state, cl_confirmedLmid := ps_confirmedLmid state,
                       cl_nextKey := cl_nextKey st + length restored, cl_outbox := restored @ cl_outbox st\<rparr>);
                st = (if ps_cursor state = None then st else restore_rows (ps_rows state) st);
                st = fold (replayEntry cfg cv) restored st
            in if ps_cursor state = None then (False, st) else (True, markAllReady st))"

definition load_settled :: "SyncClientOptions \<Rightarrow> ClientEnv \<Rightarrow> CollectionViews \<Rightarrow> LoadResult \<Rightarrow> Client \<Rightarrow> Client" where
  "load_settled cfg ev cv result st =
     (if cl_loading st \<noteq> LoadPending then st
      else let (restored, st) = hydrate cfg ev cv result st in st\<lparr>cl_loading := LoadDone restored\<rparr>)"

text \<open>The continuation of \<open>start\<close> after hydration.\<close>

definition finish_start :: "SyncClientOptions \<Rightarrow> ClientEnv \<Rightarrow> Client \<Rightarrow> Client" where
  "finish_start cfg ev st =
     (case cl_loading st of
        LoadDone restored \<Rightarrow>
          let st = st\<lparr>cl_loading := NotLoading, cl_hydrating := False\<rparr>;
              st = (if cl_outbox st \<noteq> [] then persistOutbox cfg st else st);
              st = settleHydrated restored st
          in if cl_stopped st then st else connect cfg ev st
      | _ \<Rightarrow> st)"

definition shutdown :: "SyncClientOptions \<Rightarrow> Client \<Rightarrow> Client" where
  "shutdown cfg st =
     (let st = presenceDisconnected (stopHeartbeat
                 (st\<lparr>cl_stopped := True, cl_reconnectTimer := False, cl_retryPushTimer := False\<rparr>));
          st = (case cl_socket st of None \<Rightarrow> st | Some s \<Rightarrow> effect (CClose s 1000) (st\<lparr>cl_socket := None\<rparr>));
          st = fold (\<lambda>e. settleEntry cfg (oe_key e) (Some (MutationError (js ''Stopped'')))) (cl_outbox st) st
      in setStatus Idle (settleHydrated False (st\<lparr>cl_outbox := []\<rparr>)))"

definition destroy :: "SyncClientOptions \<Rightarrow> Client \<Rightarrow> Client" where
  "destroy cfg st = (if cl_destroyed st then st else shutdown cfg (st\<lparr>cl_destroyed := True\<rparr>))"

section \<open>Inbound\<close>

fun op_table :: "PatchOp \<Rightarrow> jstr option" where
  "op_table (PutOp t i v) = Some t"
| "op_table (DelOp t i) = Some t"
| "op_table ClearOp = None"

fun op_call :: "PatchOp \<Rightarrow> HookCall list" where
  "op_call (PutOp t i v) = [HWrite (WPut i v)]"
| "op_call (DelOp t i) = [HWrite (WDel i)]"
| "op_call ClearOp = []"

definition table_calls :: "PatchOp list \<Rightarrow> jstr \<Rightarrow> HookCall list" where
  "table_calls ops t = concat (map op_call (filter (\<lambda>op. op_table op = Some t) ops))"

text \<open>The keys of \<open>byTable\<close>, in the order of their first operation.\<close>

definition op_tables :: "PatchOp list \<Rightarrow> jstr list" where
  "op_tables ops = rev (remdups (rev (List.map_filter op_table ops)))"

definition apply_tables :: "PatchOp list \<Rightarrow> Client \<Rightarrow> Client" where
  "apply_tables ops st =
     (if ClearOp \<in> set ops then
        fold (\<lambda>t. table_txn t (HTruncate # table_calls ops t)) (cl_tables st) st
      else
        fold (\<lambda>t. table_txn t (table_calls ops t)) (filter (\<lambda>t. t \<in> set (cl_tables st)) (op_tables ops)) st)"

definition confirm_poke :: "SyncClientOptions \<Rightarrow> PokeBuffer \<Rightarrow> Cursor \<Rightarrow> Client \<Rightarrow> Client" where
  "confirm_poke cfg poke cur st =
     (let backendChanged = (case cl_cursor st of None \<Rightarrow> False | Some c \<Rightarrow> backendId c \<noteq> backendId cur);
          confirmed = map_of (pb_lmids poke) (co_clientId cfg);
          st = st\<lparr>cl_cursor := Some cur, cl_awaitingCatchUp := False\<rparr>
      in if backendChanged
         then rebaseOutboxIds cfg (st\<lparr>cl_confirmedLmid := (case confirmed of None \<Rightarrow> 0 | Some c \<Rightarrow> c)\<rparr>)
         else (case confirmed of
                 None \<Rightarrow> st
               | Some c \<Rightarrow> if cl_confirmedLmid st < c then st\<lparr>cl_confirmedLmid := c\<rparr> else st))"

definition become_synced :: "SyncClientOptions \<Rightarrow> Client \<Rightarrow> Client" where
  "become_synced cfg st =
     (if cl_synced st then st
      else assignPendingIds cfg (markAllReady (setStatus Synced
             (st\<lparr>cl_synced := True, cl_attempt := 0, cl_refreshStreak := 0\<rparr>))))"

definition applyPoke :: "SyncClientOptions \<Rightarrow> PokeBuffer \<Rightarrow> Cursor \<Rightarrow> Client \<Rightarrow> Client" where
  "applyPoke cfg poke cur st =
     (let st = settleOutbox cfg (pb_results poke) (confirm_poke cfg poke cur (apply_tables (pb_patch poke) st));
          st = (if cl_needsRebase st then rebaseOutboxIds cfg (st\<lparr>cl_needsRebase := False\<rparr>) else st);
          st = schedulePush (become_synced cfg st)
      in if co_store cfg then
           effect (CApplyPoke \<lparr>pp_ops = row_ops_of (pb_patch poke), pp_clear = (ClearOp \<in> set (pb_patch poke)),
             pp_cursor = cur, pp_schemaVersion = app_version (co_app cfg), pp_confirmedLmid = cl_confirmedLmid st,
             pp_outbox = outboxSnapshot st\<rparr>) st
         else st)"

fun onServerError :: "SyncClientOptions \<Rightarrow> ErrorCode \<Rightarrow> Client \<Rightarrow> Client" where
  "onServerError cfg VersionNotSupported st = fatal cfg st"
| "onServerError cfg Unauthorized st = fatal cfg st"
| "onServerError cfg CursorInvalid st = requestFullResync cfg st"
| "onServerError cfg PushInvalid st = requestResync cfg (st\<lparr>cl_needsRebase := True\<rparr>)"
| "onServerError cfg PresenceInvalid st = st"
| "onServerError cfg BadMessage st = st\<lparr>cl_retryPushTimer := True\<rparr>"
| "onServerError cfg Internal st = st\<lparr>cl_retryPushTimer := True\<rparr>"

fun onServerMsg :: "SyncClientOptions \<Rightarrow> ClientEnv \<Rightarrow> ServerMsg \<Rightarrow> Client \<Rightarrow> Client" where
  "onServerMsg cfg ev (PokeStart pid base) st =
     st\<lparr>cl_poke := Some \<lparr>pb_pokeId = pid, pb_baseMismatch = (\<not> cursorEquals base (cl_cursor st)), pb_patch = [],
                         pb_lmids = [], pb_results = []\<rparr>\<rparr>"
| "onServerMsg cfg ev (PokePart pid ops remaining lmids results) st =
     (case cl_poke st of
        Some poke \<Rightarrow>
          if pb_pokeId poke \<noteq> pid then requestResync cfg (st\<lparr>cl_poke := None\<rparr>)
          else
            let poke = poke\<lparr>pb_patch := pb_patch poke @ ops,
                            pb_lmids := spread (pb_lmids poke) (case lmids of None \<Rightarrow> [] | Some l \<Rightarrow> l),
                            pb_results := pb_results poke @ (case results of None \<Rightarrow> [] | Some rs \<Rightarrow> rs)\<rparr>;
                st = st\<lparr>cl_poke := Some poke\<rparr>
            in (case remaining of
                  Some n \<Rightarrow> if pb_baseMismatch poke then st else effect (CProgress (length (pb_patch poke)) n) st
                | None \<Rightarrow> st)
      | None \<Rightarrow> requestResync cfg st)"
| "onServerMsg cfg ev (PokeEnd pid cur info) st =
     (case cl_poke st of
        Some poke \<Rightarrow>
          let st = st\<lparr>cl_poke := None\<rparr> in
          if pb_pokeId poke \<noteq> pid then requestResync cfg st
          else if pb_baseMismatch poke \<and> ClearOp \<notin> set (pb_patch poke) then requestResync cfg st
          else applyPoke cfg poke cur st
      | None \<Rightarrow> requestResync cfg st)"
| "onServerMsg cfg ev (PresenceUpdate peer) st = applyPeerUpdate cfg ev peer st"
| "onServerMsg cfg ev (PresencePeers peers) st = presencePeers_msg cfg ev peers st"
| "onServerMsg cfg ev PresencePoll st = reannounce ev st"
| "onServerMsg cfg ev (ErrorMsg code message) st = onServerError cfg code st"

text \<open>A text frame: its parsed JSON, if it parses.\<close>

definition onMessage :: "SyncClientOptions \<Rightarrow> ClientEnv \<Rightarrow> jval option \<Rightarrow> Client \<Rightarrow> Client" where
  "onMessage cfg ev raw st =
     (case Option.bind raw dec_server_msg of None \<Rightarrow> st | Some msg \<Rightarrow> onServerMsg cfg ev msg st)"

definition retry_push :: "Client \<Rightarrow> Client" where
  "retry_push st = (if cl_retryPushTimer st then flushPush st else st)"

section \<open>What can happen to a client\<close>

text \<open>
  The calls of the application and of the runtime. A socket's events name the socket; the
  client ignores those of a socket it has replaced. A timer that is not set does not fire.
\<close>

datatype ClientEvent =
    Start
  | LoadSettled LoadResult
  | StartContinues
  | Mutate jstr jval
  | RawMutate jstr jval
  | PushMicrotask
  | PersistMicrotask
  | ConfirmTimeout nat
  | RetryTimer
  | ReconnectTimer
  | HeartbeatTimer
  | PresenceTimer
  | TokenSettled int "jstr option"
  | SocketOpen nat
  | SocketMessage nat "jval option"
  | SocketBinary nat
  | SocketClose nat "int option"
  | Online
  | RegisterTable jstr
  | UnregisterTable jstr
  | SetPresence jval
  | UpdatePresence jval
  | Destroy

fun client_event :: "SyncClientOptions \<Rightarrow> ClientEnv \<Rightarrow> CollectionViews \<Rightarrow> ClientEvent \<Rightarrow> Client \<Rightarrow> Client" where
  "client_event cfg ev cv Start st = snd (start cfg ev st)"
| "client_event cfg ev cv (LoadSettled result) st = load_settled cfg ev cv result st"
| "client_event cfg ev cv StartContinues st = finish_start cfg ev st"
| "client_event cfg ev cv (Mutate name args) st = snd (mutateByName cfg ev cv name args st)"
| "client_event cfg ev cv (RawMutate name args) st = snd (rawMutate cfg ev name args st)"
| "client_event cfg ev cv PushMicrotask st = (if cl_flushScheduled st then push_microtask st else st)"
| "client_event cfg ev cv PersistMicrotask st = (if cl_persistScheduled st then persist_microtask st else st)"
| "client_event cfg ev cv (ConfirmTimeout k) st = confirm_timeout cfg k st"
| "client_event cfg ev cv RetryTimer st = retry_push st"
| "client_event cfg ev cv ReconnectTimer st = (if cl_reconnectTimer st then connect cfg ev st else st)"
| "client_event cfg ev cv HeartbeatTimer st = heartbeat_tick cfg ev st"
| "client_event cfg ev cv PresenceTimer st = presence_timer ev st"
| "client_event cfg ev cv (TokenSettled epoch token) st =
     (if CAskToken epoch \<in> set (cl_effects st) then token_settled cfg ev epoch token st else st)"
| "client_event cfg ev cv (SocketOpen s) st = (if cl_socket st = Some s then socket_open cfg ev st else st)"
| "client_event cfg ev cv (SocketMessage s raw) st =
     (if cl_socket st = Some s then onMessage cfg ev raw (st\<lparr>cl_lastFrameAt := ce_now ev\<rparr>) else st)"
| "client_event cfg ev cv (SocketBinary s) st =
     (if cl_socket st = Some s then st\<lparr>cl_lastFrameAt := ce_now ev\<rparr> else st)"
| "client_event cfg ev cv (SocketClose s code) st = (if cl_socket st = Some s then onDisconnect cfg ev code st else st)"
| "client_event cfg ev cv Online st = wake_client cfg ev st"
| "client_event cfg ev cv (RegisterTable t) st = snd (registerTable cfg t st)"
| "client_event cfg ev cv (UnregisterTable t) st = unregisterTable t st"
| "client_event cfg ev cv (SetPresence v) st = snd (presenceSet cfg ev v st)"
| "client_event cfg ev cv (UpdatePresence v) st = snd (presenceUpdate cfg ev v st)"
| "client_event cfg ev cv Destroy st = destroy cfg st"

end
