(* ===== verification/ClientSpec.thy ===== *)
theory ClientSpec
  imports Client
begin

text \<open>
  What the client promises: a poke leaves it where the abstract replica of Replicas is; each
  queued mutation settles at most once and is never lost; and with a durable store the ids of
  the outbox are always the ones after the confirmed one, so a push never has a gap.
\<close>

section \<open>What the effects show\<close>

definition settled_keys :: "ClientEffect list \<Rightarrow> nat list" where
  "settled_keys effs = concat (map (\<lambda>e. case e of CSettled k err \<Rightarrow> [k] | _ \<Rightarrow> []) effs)"

definition pushes :: "ClientEffect list \<Rightarrow> Mutation list list" where
  "pushes effs = concat (map (\<lambda>e. case e of CSend s (PushMsg ms) \<Rightarrow> [ms] | _ \<Rightarrow> []) effs)"

text \<open>The confirmed LMID and the ids of each saved outbox.\<close>

definition saves :: "ClientEffect list \<Rightarrow> (int \<times> int option list) list" where
  "saves effs = concat (map (\<lambda>e. case e of
     CSaveOutbox es l \<Rightarrow> [(l, map po_id es)] | CApplyPoke u \<Rightarrow> [(pp_confirmedLmid u, map po_id (pp_outbox u))] | _ \<Rightarrow> []) effs)"

definition hook_step :: "ClientEffect \<Rightarrow> table \<Rightarrow> table" where
  "hook_step e tab =
     (case e of CHook t c \<Rightarrow> (\<lambda>(t', i). if t' = t then hook_effect c (\<lambda>i. tab (t, i)) i else tab (t', i)) | _ \<Rightarrow> tab)"

text \<open>The synced rows the hooks were given.\<close>

definition shown_rows :: "ClientEffect list \<Rightarrow> table" where
  "shown_rows effs = fold hook_step effs (\<lambda>_. None)"

lemma effect_lists [simp]:
  "settled_keys (xs @ ys) = settled_keys xs @ settled_keys ys"
  "pushes (xs @ ys) = pushes xs @ pushes ys" "saves (xs @ ys) = saves xs @ saves ys"
  "settled_keys [e] = (case e of CSettled k err \<Rightarrow> [k] | _ \<Rightarrow> [])"
  "pushes [e] = (case e of CSend s (PushMsg ms) \<Rightarrow> [ms] | _ \<Rightarrow> [])"
  "saves [e] = (case e of CSaveOutbox es l \<Rightarrow> [(l, map po_id es)]
     | CApplyPoke u \<Rightarrow> [(pp_confirmedLmid u, map po_id (pp_outbox u))] | _ \<Rightarrow> [])"
  "shown_rows (xs @ [e]) = hook_step e (shown_rows xs)"
  by (simp_all add: settled_keys_def pushes_def saves_def shown_rows_def)

text \<open>A step that settles, pushes, saves and queues nothing.\<close>

definition quiet :: "Client \<Rightarrow> Client \<Rightarrow> bool" where
  "quiet st st' \<longleftrightarrow>
     cl_outbox st' = cl_outbox st \<and> cl_nextKey st' = cl_nextKey st \<and> cl_confirmedLmid st' = cl_confirmedLmid st \<and>
     cl_started st' = cl_started st \<and> cl_loading st' = cl_loading st \<and> (cl_synced st' \<longrightarrow> cl_synced st) \<and>
     settled_keys (cl_effects st') = settled_keys (cl_effects st) \<and> pushes (cl_effects st') = pushes (cl_effects st) \<and>
     saves (cl_effects st') = saves (cl_effects st)"

text \<open>A step that leaves the cursor and the rows shown.\<close>

definition same_view :: "Client \<Rightarrow> Client \<Rightarrow> bool" where
  "same_view st st' \<longleftrightarrow> cl_cursor st' = cl_cursor st \<and> cl_tables st' = cl_tables st \<and>
     shown_rows (cl_effects st') = shown_rows (cl_effects st)"

text \<open>A step that cannot lead to a connection.\<close>

definition connecting :: "Client \<Rightarrow> bool" where
  "connecting st \<longleftrightarrow> cl_socket st \<noteq> None \<or> cl_reconnectTimer st \<or> cl_status st = Reconnecting \<or> cl_synced st \<or>
     (\<exists>epoch. CAskToken epoch \<in> set (cl_effects st))"

definition calm :: "Client \<Rightarrow> Client \<Rightarrow> bool" where
  "calm st st' \<longleftrightarrow> (connecting st' \<longrightarrow> connecting st)"

named_theorems quiet_intros
named_theorems view_intros
named_theorems calm_intros

lemma quiet_refl [quiet_intros]: "quiet st st" by (simp add: quiet_def)
lemma quiet_trans: "quiet a b \<Longrightarrow> quiet b c \<Longrightarrow> quiet a c" by (auto simp: quiet_def)
lemma view_refl [view_intros]: "same_view st st" by (simp add: same_view_def)
lemma view_trans: "same_view a b \<Longrightarrow> same_view b c \<Longrightarrow> same_view a c" by (simp add: same_view_def)
lemma calm_refl [calm_intros]: "calm st st" by (simp add: calm_def)
lemma calm_trans: "calm a b \<Longrightarrow> calm b c \<Longrightarrow> calm a c" by (simp add: calm_def)

lemma quiet_fold: "(\<And>x s. x \<in> set xs \<Longrightarrow> quiet s (f x s)) \<Longrightarrow> quiet st (fold f xs st)"
proof (induction xs arbitrary: st)
  case (Cons x xs)
  then have "quiet st (f x st)" "quiet (f x st) (fold f xs (f x st))" by simp_all
  then show ?case by (simp add: quiet_trans)
qed (simp add: quiet_refl)

lemma view_fold: "(\<And>x s. x \<in> set xs \<Longrightarrow> same_view s (f x s)) \<Longrightarrow> same_view st (fold f xs st)"
proof (induction xs arbitrary: st)
  case (Cons x xs)
  then have "same_view st (f x st)" "same_view (f x st) (fold f xs (f x st))" by simp_all
  then show ?case by (simp add: view_trans)
qed (simp add: view_refl)

lemma calm_fold: "(\<And>x s. x \<in> set xs \<Longrightarrow> calm s (f x s)) \<Longrightarrow> calm st (fold f xs st)"
proof (induction xs arbitrary: st)
  case (Cons x xs)
  then have "calm st (f x st)" "calm (f x st) (fold f xs (f x st))" by simp_all
  then show ?case by (simp add: calm_trans)
qed (simp add: calm_refl)

text \<open>Effects that are neither a settlement, a push nor a save.\<close>

fun plain :: "ClientEffect \<Rightarrow> bool" where
  "plain (CSettled k err) = False"
| "plain (CSend s msg) = (\<forall>ms. msg \<noteq> PushMsg ms)"
| "plain (CSaveOutbox es l) = False"
| "plain (CApplyPoke u) = False"
| "plain _ = True"

lemma plain_lists: "plain e \<Longrightarrow> settled_keys [e] = [] \<and> pushes [e] = [] \<and> saves [e] = []"
  by (cases e) (auto split: ClientMsg.splits)

lemma effect_fields [simp]:
  "cl_socket (effect e st) = cl_socket st" "cl_nextSocket (effect e st) = cl_nextSocket st"
  "cl_status (effect e st) = cl_status st" "cl_connectEpoch (effect e st) = cl_connectEpoch st"
  "cl_refreshStreak (effect e st) = cl_refreshStreak st" "cl_cursor (effect e st) = cl_cursor st"
  "cl_confirmedLmid (effect e st) = cl_confirmedLmid st" "cl_outbox (effect e st) = cl_outbox st"
  "cl_nextKey (effect e st) = cl_nextKey st" "cl_notifiedPending (effect e st) = cl_notifiedPending st"
  "cl_poke (effect e st) = cl_poke st" "cl_synced (effect e st) = cl_synced st"
  "cl_awaitingCatchUp (effect e st) = cl_awaitingCatchUp st" "cl_needsRebase (effect e st) = cl_needsRebase st"
  "cl_started (effect e st) = cl_started st" "cl_stopped (effect e st) = cl_stopped st"
  "cl_destroyed (effect e st) = cl_destroyed st" "cl_attempt (effect e st) = cl_attempt st"
  "cl_reconnectTimer (effect e st) = cl_reconnectTimer st" "cl_loading (effect e st) = cl_loading st"
  "cl_hydrating (effect e st) = cl_hydrating st" "cl_latch (effect e st) = cl_latch st"
  "cl_tables (effect e st) = cl_tables st" "cl_presence (effect e st) = cl_presence st"
  "cl_persistScheduled (effect e st) = cl_persistScheduled st" "cl_flushScheduled (effect e st) = cl_flushScheduled st"
  "cl_effects (effect e st) = cl_effects st @ [e]"
  by (simp_all add: effect_def)

lemma quiet_effect [quiet_intros]: "plain e \<Longrightarrow> quiet st (effect e st)"
  by (simp add: quiet_def plain_lists del: effect_lists(4-6))

lemma view_effect [view_intros]: "(\<And>t c. e \<noteq> CHook t c) \<Longrightarrow> same_view st (effect e st)"
  by (cases e) (auto simp: same_view_def hook_step_def)

lemma calm_effect [calm_intros]: "(\<And>epoch. e \<noteq> CAskToken epoch) \<Longrightarrow> calm st (effect e st)"
  by (auto simp: calm_def connecting_def)

section \<open>Quiet steps\<close>

lemma quiet_send: "(\<And>ms. msg \<noteq> PushMsg ms) \<Longrightarrow> quiet st (client_send msg st)"
  by (auto simp: client_send_def quiet_intros split: option.splits)

lemma quiet_setStatus: "quiet st (setStatus s st)"
  by (simp add: setStatus_def quiet_def)

lemma quiet_markAllReady: "quiet st (markAllReady st)"
  unfolding markAllReady_def by (rule quiet_fold) (simp add: quiet_intros)

lemma quiet_notifyPending: "quiet st (notifyPending st)"
  by (simp add: notifyPending_def quiet_def Let_def)

lemma quiet_persistOutbox: "quiet st (persistOutbox cfg st)"
  by (simp add: persistOutbox_def quiet_def)

lemma quiet_with_presence: "quiet st (with_presence f st)"
  by (simp add: with_presence_def quiet_def)

lemma quiet_notifyPresence: "quiet st (notifyPresence st)"
  by (simp add: notifyPresence_def quiet_intros)

lemma quiet_sendPresence: "quiet st (sendPresence ev st)"
  by (simp add: sendPresence_def Let_def quiet_refl quiet_trans [OF quiet_with_presence quiet_send])

lemma quiet_schedulePresenceSend: "quiet st (schedulePresenceSend cfg ev st)"
  by (simp add: schedulePresenceSend_def Let_def quiet_refl quiet_sendPresence quiet_with_presence)

lemma quiet_presence_timer: "quiet st (presence_timer ev st)"
  by (simp add: presence_timer_def quiet_refl quiet_trans [OF quiet_with_presence quiet_sendPresence])

lemmas quiet_store = quiet_trans [OF quiet_trans [OF quiet_with_presence quiet_schedulePresenceSend] quiet_notifyPresence]

lemma quiet_presenceSet: "quiet st (snd (presenceSet cfg ev state st))"
  by (auto simp: presenceSet_def Let_def quiet_refl quiet_store quiet_with_presence
      quiet_trans [OF quiet_with_presence quiet_store] split: option.splits verdict.splits)

lemma presenceUpdate_state: "\<exists>state. snd (presenceUpdate cfg ev partial st) = snd (presenceSet cfg ev state st)"
proof -
  define merged where "merged = JObj (spread (case cp_state (cl_presence st) of JObj ob \<Rightarrow> ob | _ \<Rightarrow> [])
    (case partial of JObj ob \<Rightarrow> ob | _ \<Rightarrow> []))"
  have "snd (presenceUpdate cfg ev partial st) = snd (presenceSet cfg ev merged st)"
    by (simp add: presenceUpdate_def Let_def merged_def [symmetric] split: prod.splits option.splits)
  then show ?thesis by blast
qed

lemma quiet_presenceUpdate: "quiet st (snd (presenceUpdate cfg ev partial st))"
  using presenceUpdate_state [of cfg ev partial st] quiet_presenceSet by auto

lemma quiet_applyPeerUpdate: "quiet st (applyPeerUpdate cfg ev peer st)"
  by (simp add: applyPeerUpdate_def Let_def quiet_refl quiet_trans [OF quiet_with_presence quiet_notifyPresence])

lemma quiet_presenceDisconnected: "quiet st (presenceDisconnected st)"
  by (simp add: presenceDisconnected_def Let_def quiet_with_presence
      quiet_trans [OF quiet_with_presence quiet_trans [OF quiet_with_presence quiet_notifyPresence]])

lemma quiet_reannounce: "quiet st (reannounce ev st)"
  by (simp add: reannounce_def quiet_refl quiet_sendPresence)

lemma quiet_presencePeers: "quiet st (presencePeers_msg cfg ev peers st)"
  unfolding presencePeers_msg_def
  by (rule quiet_trans [OF quiet_trans [OF quiet_with_presence quiet_notifyPresence] quiet_reannounce])

lemma quiet_scheduleReconnect: "quiet st (scheduleReconnect cfg st)"
  by (simp add: scheduleReconnect_def setStatus_def Let_def quiet_def)

lemma quiet_openSocket: "quiet st (openSocket cfg ev token st)"
  by (simp add: openSocket_def scheduleReconnect_def setStatus_def Let_def quiet_def)

lemma quiet_connect: "quiet st (connect cfg ev st)"
  by (auto simp: connect_def openSocket_def scheduleReconnect_def setStatus_def Let_def quiet_def split: AuthToken.splits)

lemma quiet_token_settled: "quiet st (token_settled cfg ev epoch token st)"
  by (auto simp: token_settled_def openSocket_def scheduleReconnect_def setStatus_def Let_def quiet_def split: option.splits)

lemma quiet_sendHello: "quiet st (sendHello cfg st)"
  by (auto simp: sendHello_def client_send_def quiet_def split: option.splits)

lemma quiet_requestResync: "quiet st (requestResync cfg st)"
  by (simp add: requestResync_def quiet_refl quiet_sendHello)

lemma quiet_requestFullResync: "quiet st (requestFullResync cfg st)"
  by (auto simp: requestFullResync_def sendHello_def client_send_def quiet_def Let_def split: option.splits)

lemma quiet_registerTable: "quiet st (snd (registerTable cfg t st))"
  by (auto simp: registerTable_def requestFullResync_def sendHello_def client_send_def quiet_def Let_def split: option.splits)

lemma quiet_unregisterTable: "quiet st (unregisterTable t st)"
  by (simp add: unregisterTable_def quiet_def)

lemma quiet_heartbeat_tick: "quiet st (heartbeat_tick cfg ev st)"
proof -
  have "quiet st (stopHeartbeat ((effect (CClose s 4408) (st\<lparr>cl_socket := None\<rparr>))\<lparr>cl_poke := None, cl_awaitingCatchUp := False\<rparr>))" for s
    by (simp add: stopHeartbeat_def quiet_def)
  note Q = quiet_trans [OF quiet_trans [OF this quiet_presenceDisconnected] quiet_scheduleReconnect]
  show ?thesis by (auto simp: heartbeat_tick_def Let_def Q quiet_intros split: option.splits)
qed

lemma quiet_wake_client: "quiet st (wake_client cfg ev st)"
proof -
  have "quiet st (st\<lparr>cl_reconnectTimer := False\<rparr>)" by (simp add: quiet_def)
  then show ?thesis by (simp add: wake_client_def quiet_refl quiet_trans [OF _ quiet_connect])
qed

lemma quiet_socket_open: "quiet st (socket_open cfg ev st)"
proof -
  have "quiet st (startHeartbeat cfg (st\<lparr>cl_lastFrameAt := ce_now ev\<rparr>))" by (simp add: startHeartbeat_def quiet_def)
  then show ?thesis unfolding socket_open_def by (rule quiet_trans [OF quiet_trans [OF _ quiet_setStatus] quiet_sendHello])
qed

lemma quiet_settleHydrated: "quiet st (settleHydrated r st)"
  by (simp add: settleHydrated_def Let_def quiet_def)

lemma quiet_replayEntry: "quiet st (replayEntry cfg cv e st)"
  by (auto simp: replayEntry_def Let_def quiet_intros split: slot.splits verdict.splits prod.splits option.splits)

lemma quiet_table_txn: "quiet st (table_txn t calls st)"
  unfolding table_txn_def by (rule quiet_fold) (simp add: quiet_intros)

lemma quiet_restore_rows: "quiet st (restore_rows rows st)"
  unfolding restore_rows_def by (rule quiet_fold) (rule quiet_table_txn)

lemma quiet_apply_tables: "quiet st (apply_tables ops st)"
  by (simp add: apply_tables_def quiet_fold quiet_table_txn)

lemma quiet_schedulePush: "quiet st (schedulePush st)"
  by (simp add: schedulePush_def quiet_def)

section \<open>Settling\<close>

definition settle_list :: "SyncClientOptions \<Rightarrow> (nat \<times> Rejection option) list \<Rightarrow> Client \<Rightarrow> Client" where
  "settle_list cfg xs st = fold (\<lambda>(k, err). settleEntry cfg k err) xs st"

lemma notifyPending_fields [simp]:
  "cl_outbox (notifyPending st) = cl_outbox st" "cl_nextKey (notifyPending st) = cl_nextKey st"
  "cl_confirmedLmid (notifyPending st) = cl_confirmedLmid st" "cl_synced (notifyPending st) = cl_synced st"
  "cl_started (notifyPending st) = cl_started st" "cl_loading (notifyPending st) = cl_loading st"
  "cl_socket (notifyPending st) = cl_socket st" "cl_cursor (notifyPending st) = cl_cursor st"
  "cl_tables (notifyPending st) = cl_tables st" "cl_needsRebase (notifyPending st) = cl_needsRebase st"
  "cl_stopped (notifyPending st) = cl_stopped st" "cl_status (notifyPending st) = cl_status st"
  "cl_reconnectTimer (notifyPending st) = cl_reconnectTimer st"
  "settled_keys (cl_effects (notifyPending st)) = settled_keys (cl_effects st)"
  "pushes (cl_effects (notifyPending st)) = pushes (cl_effects st)"
  "saves (cl_effects (notifyPending st)) = saves (cl_effects st)"
  "shown_rows (cl_effects (notifyPending st)) = shown_rows (cl_effects st)"
  "CAskToken e \<in> set (cl_effects (notifyPending st)) \<longleftrightarrow> CAskToken e \<in> set (cl_effects st)"
  by (auto simp: notifyPending_def Let_def hook_step_def)

lemma persistOutbox_fields [simp]:
  "cl_outbox (persistOutbox cfg st) = cl_outbox st" "cl_nextKey (persistOutbox cfg st) = cl_nextKey st"
  "cl_confirmedLmid (persistOutbox cfg st) = cl_confirmedLmid st" "cl_synced (persistOutbox cfg st) = cl_synced st"
  "cl_started (persistOutbox cfg st) = cl_started st" "cl_loading (persistOutbox cfg st) = cl_loading st"
  "cl_socket (persistOutbox cfg st) = cl_socket st" "cl_cursor (persistOutbox cfg st) = cl_cursor st"
  "cl_tables (persistOutbox cfg st) = cl_tables st" "cl_needsRebase (persistOutbox cfg st) = cl_needsRebase st"
  "cl_stopped (persistOutbox cfg st) = cl_stopped st" "cl_status (persistOutbox cfg st) = cl_status st"
  "cl_reconnectTimer (persistOutbox cfg st) = cl_reconnectTimer st"
  "cl_effects (persistOutbox cfg st) = cl_effects st"
  by (simp_all add: persistOutbox_def)

lemma settleEntry_fields [simp]:
  "cl_outbox (settleEntry cfg k err st) = filter (\<lambda>e. oe_key e \<noteq> k) (cl_outbox st)"
  "cl_nextKey (settleEntry cfg k err st) = cl_nextKey st"
  "cl_confirmedLmid (settleEntry cfg k err st) = cl_confirmedLmid st" "cl_synced (settleEntry cfg k err st) = cl_synced st"
  "cl_started (settleEntry cfg k err st) = cl_started st" "cl_loading (settleEntry cfg k err st) = cl_loading st"
  "cl_socket (settleEntry cfg k err st) = cl_socket st" "cl_cursor (settleEntry cfg k err st) = cl_cursor st"
  "cl_tables (settleEntry cfg k err st) = cl_tables st" "cl_needsRebase (settleEntry cfg k err st) = cl_needsRebase st"
  "cl_stopped (settleEntry cfg k err st) = cl_stopped st" "cl_status (settleEntry cfg k err st) = cl_status st"
  "cl_reconnectTimer (settleEntry cfg k err st) = cl_reconnectTimer st"
  "settled_keys (cl_effects (settleEntry cfg k err st)) =
     settled_keys (cl_effects st) @ (if k \<in> oe_key ` set (cl_outbox st) then [k] else [])"
  "pushes (cl_effects (settleEntry cfg k err st)) = pushes (cl_effects st)"
  "saves (cl_effects (settleEntry cfg k err st)) = saves (cl_effects st)"
  "shown_rows (cl_effects (settleEntry cfg k err st)) = shown_rows (cl_effects st)"
  "CAskToken ep \<in> set (cl_effects (settleEntry cfg k err st)) \<longleftrightarrow> CAskToken ep \<in> set (cl_effects st)"
  by (auto simp: settleEntry_def Let_def hook_step_def)

lemma settle_list_fields [simp]:
  "cl_outbox (settle_list cfg xs st) = filter (\<lambda>e. oe_key e \<notin> fst ` set xs) (cl_outbox st)"
  "cl_nextKey (settle_list cfg xs st) = cl_nextKey st"
  "cl_confirmedLmid (settle_list cfg xs st) = cl_confirmedLmid st" "cl_synced (settle_list cfg xs st) = cl_synced st"
  "cl_started (settle_list cfg xs st) = cl_started st" "cl_loading (settle_list cfg xs st) = cl_loading st"
  "cl_socket (settle_list cfg xs st) = cl_socket st" "cl_cursor (settle_list cfg xs st) = cl_cursor st"
  "cl_tables (settle_list cfg xs st) = cl_tables st" "cl_needsRebase (settle_list cfg xs st) = cl_needsRebase st"
  "cl_stopped (settle_list cfg xs st) = cl_stopped st" "cl_status (settle_list cfg xs st) = cl_status st"
  "cl_reconnectTimer (settle_list cfg xs st) = cl_reconnectTimer st"
  "pushes (cl_effects (settle_list cfg xs st)) = pushes (cl_effects st)"
  "saves (cl_effects (settle_list cfg xs st)) = saves (cl_effects st)"
  "shown_rows (cl_effects (settle_list cfg xs st)) = shown_rows (cl_effects st)"
  "CAskToken ep \<in> set (cl_effects (settle_list cfg xs st)) \<longleftrightarrow> CAskToken ep \<in> set (cl_effects st)"
  unfolding settle_list_def by (induction xs arbitrary: st) (auto simp: filter_filter intro: filter_cong)

lemma settle_list_keys:
  "distinct (map fst xs) \<Longrightarrow> fst ` set xs \<subseteq> oe_key ` set (cl_outbox st) \<Longrightarrow>
     settled_keys (cl_effects (settle_list cfg xs st)) = settled_keys (cl_effects st) @ map fst xs"
proof (induction xs arbitrary: st)
  case (Cons x xs)
  obtain k err where x: "x = (k, err)" by (cases x)
  have "fst ` set xs \<subseteq> oe_key ` set (cl_outbox (settleEntry cfg k err st))"
  proof
    fix j assume j: "j \<in> fst ` set xs"
    then obtain e where "e \<in> set (cl_outbox st)" "oe_key e = j" using Cons.prems(2) by auto
    moreover have "j \<noteq> k" using j Cons.prems(1) by (auto simp: x)
    ultimately show "j \<in> oe_key ` set (cl_outbox (settleEntry cfg k err st))" by auto
  qed
  with Cons.IH [of "settleEntry cfg k err st"] Cons.prems show ?case by (simp add: x settle_list_def)
qed (simp add: settle_list_def)

text \<open>Which entries a confirmed LMID settles.\<close>

definition confirmed_by :: "int \<Rightarrow> OutboxEntry \<Rightarrow> bool" where
  "confirmed_by l e \<longleftrightarrow> (case oe_id e of Some i \<Rightarrow> i \<le> l | None \<Rightarrow> False)"

lemma settle_fold_list:
  "fold (\<lambda>e st. case oe_id e of
      Some i \<Rightarrow> if i \<le> cl_confirmedLmid st then settleEntry cfg (oe_key e) (error_of results i) st else st
    | None \<Rightarrow> st) es st =
   settle_list cfg (map (\<lambda>e. (oe_key e, error_of results (the (oe_id e)))) (filter (confirmed_by (cl_confirmedLmid st)) es)) st"
  by (induction es arbitrary: st) (simp_all add: settle_list_def confirmed_by_def split: option.splits)

lemma settleOutbox_list:
  "settleOutbox cfg results st =
     settle_list cfg (map (\<lambda>e. (oe_key e, error_of results (the (oe_id e))))
       (filter (confirmed_by (cl_confirmedLmid st)) (cl_outbox st))) st"
  unfolding settleOutbox_def by (rule settle_fold_list)

lemma settle_all_list:
  "fold (\<lambda>e. settleEntry cfg (oe_key e) err) es st = settle_list cfg (map (\<lambda>e. (oe_key e, err)) es) st"
  by (induction es arbitrary: st) (simp_all add: settle_list_def)

section \<open>Every mutation is queued or settled\<close>

definition keys_ok :: "Client \<Rightarrow> bool" where
  "keys_ok st \<longleftrightarrow> distinct (settled_keys (cl_effects st) @ map oe_key (cl_outbox st)) \<and>
     set (settled_keys (cl_effects st) @ map oe_key (cl_outbox st)) = {..<cl_nextKey st}"

lemma keys_ok_quiet: "keys_ok st \<Longrightarrow> quiet st st' \<Longrightarrow> keys_ok st'"
  by (simp add: keys_ok_def quiet_def)

lemma keys_ok_settle:
  assumes "keys_ok st" "distinct (map fst xs)" "fst ` set xs \<subseteq> oe_key ` set (cl_outbox st)"
  shows "keys_ok (settle_list cfg xs st)"
proof -
  let ?out = "filter (\<lambda>e. oe_key e \<notin> fst ` set xs) (cl_outbox st)"
  have d: "distinct (map oe_key (cl_outbox st))" "distinct (settled_keys (cl_effects st))"
      "set (settled_keys (cl_effects st)) \<inter> oe_key ` set (cl_outbox st) = {}"
      "set (settled_keys (cl_effects st)) \<union> oe_key ` set (cl_outbox st) = {..<cl_nextKey st}"
    using assms(1) by (simp_all add: keys_ok_def)
  have "distinct (map oe_key ?out)" using d(1) by (simp add: distinct_map inj_on_def)
  moreover have "oe_key ` set ?out = oe_key ` set (cl_outbox st) - fst ` set xs" by auto
  moreover have "fst ` set xs = set (map fst xs)" by simp
  moreover have "set (settled_keys (cl_effects st)) \<inter> fst ` set xs = {}" using d(3) assms(3) by blast
  moreover have "set (settled_keys (cl_effects st)) \<union> (fst ` set xs \<union> (oe_key ` set (cl_outbox st) - fst ` set xs)) = {..<cl_nextKey st}"
    using d(4) assms(3) by blast
  moreover have "set (settled_keys (cl_effects st)) \<inter> (oe_key ` set (cl_outbox st) - fst ` set xs) = {}" using d(3) by blast
  ultimately show ?thesis
    using d(2) assms(2)
    unfolding keys_ok_def settle_list_keys [OF assms(2,3)] settle_list_fields distinct_append set_append set_map
    by (auto simp: Un_assoc)
qed

definition same_keys :: "Client \<Rightarrow> Client \<Rightarrow> bool" where
  "same_keys st st' \<longleftrightarrow> map oe_key (cl_outbox st') = map oe_key (cl_outbox st) \<and> cl_nextKey st' = cl_nextKey st \<and>
     settled_keys (cl_effects st') = settled_keys (cl_effects st)"

lemma same_keys_trans: "same_keys a b \<Longrightarrow> same_keys b c \<Longrightarrow> same_keys a c"
  by (simp add: same_keys_def)

lemma same_keys_quiet: "quiet st st' \<Longrightarrow> same_keys st st'"
  by (simp add: same_keys_def quiet_def)

lemma keys_ok_same: "keys_ok st \<Longrightarrow> same_keys st st' \<Longrightarrow> keys_ok st'"
  by (simp add: keys_ok_def same_keys_def)

lemma renumber_keys [simp]: "map oe_key (renumber n es) = map oe_key es"
  by (induction es arbitrary: n) simp_all

lemma assign_keys [simp]: "map oe_key (assign_ids l ds es) = map oe_key ds @ map oe_key es"
  by (induction es arbitrary: ds) simp_all

lemma same_keys_rebase: "same_keys st (rebaseOutboxIds cfg st)"
  by (simp add: rebaseOutboxIds_def same_keys_def)

lemma same_keys_assign: "same_keys st (assignPendingIds cfg st)"
  by (simp add: assignPendingIds_def same_keys_def)

lemma same_keys_confirm: "same_keys st (confirm_poke cfg poke cur st)"
  by (auto simp: confirm_poke_def Let_def rebaseOutboxIds_def same_keys_def split: option.splits)

lemma same_keys_become_synced: "same_keys st (become_synced cfg st)"
proof -
  let ?s = "st\<lparr>cl_synced := True, cl_attempt := 0, cl_refreshStreak := 0\<rparr>"
  have "same_keys st ?s" by (simp add: same_keys_def)
  moreover have "same_keys ?s (markAllReady (setStatus Synced ?s))"
    by (rule same_keys_quiet [OF quiet_trans [OF quiet_setStatus quiet_markAllReady]])
  ultimately have "same_keys st (assignPendingIds cfg (markAllReady (setStatus Synced ?s)))"
    by (rule same_keys_trans [OF same_keys_trans same_keys_assign])
  then show ?thesis by (simp add: become_synced_def) (simp add: same_keys_def)
qed

lemma same_keys_effect: "(\<And>k err. e \<noteq> CSettled k err) \<Longrightarrow> same_keys st (effect e st)"
  by (cases e) (auto simp: same_keys_def)

lemma same_keys_flushPush: "same_keys st (flushPush st)"
  by (auto simp: flushPush_def client_send_def same_keys_def split: option.splits)

lemma keys_ok_settleOutbox: "keys_ok st \<Longrightarrow> keys_ok (settleOutbox cfg results st)"
proof -
  assume k: "keys_ok st"
  then have d: "distinct (map oe_key (cl_outbox st))" by (simp add: keys_ok_def)
  then have "distinct (map oe_key (filter (confirmed_by (cl_confirmedLmid st)) (cl_outbox st)))"
    by (simp add: distinct_map inj_on_def)
  then show ?thesis unfolding settleOutbox_list by (intro keys_ok_settle [OF k]) (auto simp: comp_def)
qed

lemma keys_ok_settle_all:
  assumes "keys_ok st"
  shows "keys_ok (settle_list cfg (map (\<lambda>e. (oe_key e, err)) (cl_outbox st)) st) \<and>
    cl_outbox (settle_list cfg (map (\<lambda>e. (oe_key e, err)) (cl_outbox st)) st) = []"
proof -
  have "distinct (map oe_key (cl_outbox st))" using assms by (simp add: keys_ok_def)
  then have "keys_ok (settle_list cfg (map (\<lambda>e. (oe_key e, err)) (cl_outbox st)) st)"
    by (intro keys_ok_settle [OF assms]) (auto simp: comp_def)
  then show ?thesis by (auto simp: filter_empty_conv image_iff)
qed

lemma quiet_fatal_head: "quiet st (markAllReady (presenceDisconnected (stopHeartbeat (setStatus FatalStatus st))))"
proof -
  have "quiet s (stopHeartbeat s)" for s by (simp add: stopHeartbeat_def quiet_def)
  then show ?thesis using quiet_setStatus quiet_presenceDisconnected quiet_markAllReady quiet_trans by metis
qed

text \<open>A fatal error and a shutdown settle the whole outbox.\<close>

lemma fatal_split:
  "\<exists>s s'. quiet st s \<and> quiet (settle_list cfg (map (\<lambda>e. (oe_key e, Some SyncFatalError)) (cl_outbox s)) s) s' \<and>
     fatal cfg st = s'"
proof -
  define s where "s = markAllReady (presenceDisconnected (stopHeartbeat (setStatus FatalStatus st)))"
  define t where "t = settle_list cfg (map (\<lambda>e. (oe_key e, Some SyncFatalError)) (cl_outbox s)) s"
  have "fatal cfg st = effect CFatal ((case cl_socket t of None \<Rightarrow> t | Some n \<Rightarrow> effect (CClose n 1000) t)\<lparr>cl_socket := None\<rparr>)"
    unfolding fatal_def Let_def s_def [symmetric] settle_all_list t_def [symmetric] ..
  moreover have "quiet t (effect CFatal ((case cl_socket t of None \<Rightarrow> t | Some n \<Rightarrow> effect (CClose n 1000) t)\<lparr>cl_socket := None\<rparr>))"
    by (simp add: quiet_def split: option.splits)
  moreover have "quiet st s" unfolding s_def by (rule quiet_fatal_head)
  ultimately show ?thesis unfolding t_def by metis
qed

lemma shutdown_split:
  "\<exists>s s'. quiet st s \<and> s' = settle_list cfg (map (\<lambda>e. (oe_key e, Some (MutationError (js ''Stopped'')))) (cl_outbox s)) s \<and>
     quiet (s'\<lparr>cl_outbox := []\<rparr>) (shutdown cfg st)"
proof -
  define s0 where "s0 = presenceDisconnected (stopHeartbeat (st\<lparr>cl_stopped := True, cl_reconnectTimer := False, cl_retryPushTimer := False\<rparr>))"
  define s where "s = (case cl_socket s0 of None \<Rightarrow> s0 | Some n \<Rightarrow> effect (CClose n 1000) (s0\<lparr>cl_socket := None\<rparr>))"
  define s' where "s' = settle_list cfg (map (\<lambda>e. (oe_key e, Some (MutationError (js ''Stopped'')))) (cl_outbox s)) s"
  have e: "shutdown cfg st = setStatus Idle (settleHydrated False (s'\<lparr>cl_outbox := []\<rparr>))"
    unfolding shutdown_def Let_def s0_def [symmetric] s_def [symmetric] settle_all_list s'_def [symmetric] ..
  have "quiet st (stopHeartbeat (st\<lparr>cl_stopped := True, cl_reconnectTimer := False, cl_retryPushTimer := False\<rparr>))"
    by (simp add: stopHeartbeat_def quiet_def)
  from quiet_trans [OF this quiet_presenceDisconnected] have "quiet st s0" by (simp add: s0_def)
  moreover have "quiet s0 s" by (simp add: s_def quiet_def split: option.splits)
  ultimately have "quiet st s" by (rule quiet_trans)
  moreover have "quiet (s'\<lparr>cl_outbox := []\<rparr>) (shutdown cfg st)"
    unfolding e by (rule quiet_trans [OF quiet_settleHydrated quiet_setStatus])
  ultimately show ?thesis using s'_def by blast
qed

lemma keys_ok_fatal: "keys_ok st \<Longrightarrow> keys_ok (fatal cfg st)"
  using fatal_split [of st cfg] keys_ok_quiet keys_ok_settle_all by metis

lemma keys_ok_shutdown:
  assumes "keys_ok st"
  shows "keys_ok (shutdown cfg st)"
proof -
  obtain s s' where s: "quiet st s" "s' = settle_list cfg (map (\<lambda>e. (oe_key e, Some (MutationError (js ''Stopped'')))) (cl_outbox s)) s"
      "quiet (s'\<lparr>cl_outbox := []\<rparr>) (shutdown cfg st)"
    using shutdown_split by blast
  have "keys_ok s'" "cl_outbox s' = []" using keys_ok_settle_all [OF keys_ok_quiet [OF assms s(1)]] s(2) by simp_all
  then have "keys_ok (s'\<lparr>cl_outbox := []\<rparr>)" by (simp add: keys_ok_def)
  from keys_ok_quiet [OF this s(3)] show ?thesis .
qed

lemma keys_ok_enqueue:
  assumes "keys_ok st"
  shows "keys_ok (snd (enqueue cfg name args seed st))"
proof -
  have k: "set (settled_keys (cl_effects st)) \<union> oe_key ` set (cl_outbox st) = {..<cl_nextKey st}"
    using assms by (simp add: keys_ok_def)
  then have n: "cl_nextKey st \<notin> set (settled_keys (cl_effects st)) \<and> cl_nextKey st \<notin> oe_key ` set (cl_outbox st)" by blast
  have l: "{..<Suc (cl_nextKey st)} = insert (cl_nextKey st) {..<cl_nextKey st}" by auto
  show ?thesis
    using assms n unfolding keys_ok_def
    by (auto simp: enqueue_def Let_def schedulePush_def l k [symmetric])
qed

lemma keys_ok_mutate: "keys_ok st \<Longrightarrow> keys_ok (snd (mutateByName cfg ev cv name args st))"
  by (auto simp: mutateByName_def run_intent_def Let_def keys_ok_enqueue keys_ok_same [OF _ same_keys_effect]
      split: slot.splits verdict.splits prod.splits option.splits)

lemma keys_ok_rawMutate: "keys_ok st \<Longrightarrow> keys_ok (snd (rawMutate cfg ev name args st))"
  by (auto simp: rawMutate_def Let_def keys_ok_enqueue split: slot.splits verdict.splits option.splits)

lemma keys_ok_applyPoke:
  assumes "keys_ok st"
  shows "keys_ok (applyPoke cfg poke cur st)"
proof -
  define s1 where "s1 = settleOutbox cfg (pb_results poke) (confirm_poke cfg poke cur (apply_tables (pb_patch poke) st))"
  define s2 where "s2 = (if cl_needsRebase s1 then rebaseOutboxIds cfg (s1\<lparr>cl_needsRebase := False\<rparr>) else s1)"
  define s3 where "s3 = schedulePush (become_synced cfg s2)"
  have 1: "keys_ok s1" unfolding s1_def
    by (rule keys_ok_settleOutbox [OF keys_ok_same [OF keys_ok_same [OF assms same_keys_quiet [OF quiet_apply_tables]] same_keys_confirm]])
  have "same_keys s1 (s1\<lparr>cl_needsRebase := False\<rparr>)" "same_keys s1 s1" by (simp_all add: same_keys_def)
  then have "same_keys s1 s2" using same_keys_trans [OF _ same_keys_rebase] by (simp add: s2_def)
  then have "same_keys s1 s3" unfolding s3_def
    by (rule same_keys_trans [OF same_keys_trans [OF _ same_keys_become_synced] same_keys_quiet [OF quiet_schedulePush]])
  then have 3: "keys_ok s3" using keys_ok_same [OF 1] by blast
  show ?thesis
    unfolding applyPoke_def Let_def s1_def [symmetric] s2_def [symmetric] s3_def [symmetric]
    using 3 keys_ok_same [OF 3 same_keys_effect] by simp
qed

text \<open>Hydration puts the stored mutations in front of the outbox; everything else it does is quiet.\<close>

definition with_restored :: "SyncClientOptions \<Rightarrow> ClientEnv \<Rightarrow> PersistedState \<Rightarrow> Client \<Rightarrow> Client" where
  "with_restored cfg ev p st =
     st\<lparr>cl_cursor := ps_cursor p, cl_confirmedLmid := ps_confirmedLmid p,
        cl_nextKey := cl_nextKey st + length (ps_outbox p),
        cl_outbox := restored_entries cfg ev (cl_nextKey st) (ps_outbox p) @ cl_outbox st\<rparr>"

lemma restored_length [simp]: "length (restored_entries cfg ev k es) = length es"
  by (simp add: restored_entries_def)

lemma hydrate_split:
  "quiet st (snd (hydrate cfg ev cv result st)) \<or>
   (\<exists>p. result = Loaded (Some p) \<and> quiet (with_restored cfg ev p st) (snd (hydrate cfg ev cv result st)))"
proof (cases result)
  case (Loaded state)
  show ?thesis
  proof (cases state)
    case (Some p)
    show ?thesis
    proof (cases "cl_stopped st \<or> ps_schemaVersion p \<noteq> None \<and> ps_schemaVersion p \<noteq> Some (app_version (co_app cfg))")
      case True
      then show ?thesis by (auto simp: hydrate_def Loaded Some quiet_intros)
    next
      case False
      define restored where "restored = restored_entries cfg ev (cl_nextKey st) (ps_outbox p)"
      define s1 where "s1 = notifyPending (with_restored cfg ev p st)"
      define s2 where "s2 = (if ps_cursor p = None then s1 else restore_rows (ps_rows p) s1)"
      define s3 where "s3 = fold (replayEntry cfg cv) restored s2"
      have "quiet (with_restored cfg ev p st) s1" unfolding s1_def by (rule quiet_notifyPending)
      moreover have "quiet s1 s2" by (simp add: s2_def quiet_refl quiet_restore_rows)
      moreover have "quiet s2 s3" unfolding s3_def by (rule quiet_fold) (rule quiet_replayEntry)
      ultimately have "quiet (with_restored cfg ev p st) s3" using quiet_trans by blast
      moreover have "hydrate cfg ev cv result st = (if ps_cursor p = None then (False, s3) else (True, markAllReady s3))"
        using False unfolding hydrate_def Loaded Some Let_def s3_def s2_def s1_def restored_def with_restored_def
        by (simp only: LoadResult.case option.case de_Morgan_disj if_False restored_length simp_thms)
      ultimately show ?thesis using quiet_trans [OF _ quiet_markAllReady] Some Loaded by auto
    qed
  qed (simp add: hydrate_def Loaded quiet_refl)
qed (simp add: hydrate_def quiet_refl)

lemma restored_keys: "map oe_key (restored_entries cfg ev k es) = [k..<k + length es]"
proof -
  have "map oe_key (restored_entries cfg ev k es) = map ((+) k \<circ> fst) (enumerate 0 es)"
    by (simp add: restored_entries_def comp_def split_def)
  also have "\<dots> = map ((+) k) [0..<length es]" by (simp flip: map_map)
  also have "\<dots> = [k..<k + length es]" by (rule nth_equalityI) simp_all
  finally show ?thesis .
qed

lemma keys_ok_restored:
  assumes "keys_ok st"
  shows "keys_ok (with_restored cfg ev p st)"
proof -
  let ?n = "cl_nextKey st" and ?r = "restored_entries cfg ev (cl_nextKey st) (ps_outbox p)"
  have d: "distinct (map oe_key (cl_outbox st))" "distinct (settled_keys (cl_effects st))"
      "set (settled_keys (cl_effects st)) \<inter> oe_key ` set (cl_outbox st) = {}"
      "set (settled_keys (cl_effects st)) \<union> oe_key ` set (cl_outbox st) = {..<?n}"
    using assms by (simp_all add: keys_ok_def)
  have r: "oe_key ` set ?r = {?n..<?n + length (ps_outbox p)}"
    using arg_cong [OF restored_keys, of set cfg ev ?n "ps_outbox p"] by simp
  have s: "set (settled_keys (cl_effects st)) \<subseteq> {..<?n}" "oe_key ` set (cl_outbox st) \<subseteq> {..<?n}" using d(4) by blast+
  have "{?n..<?n + length (ps_outbox p)} \<inter> {..<?n} = {}" by auto
  then have disj: "set (settled_keys (cl_effects st)) \<inter> oe_key ` set ?r = {}" "oe_key ` set ?r \<inter> oe_key ` set (cl_outbox st) = {}"
    using s r by blast+
  have "set (settled_keys (cl_effects st)) \<union> (oe_key ` set ?r \<union> oe_key ` set (cl_outbox st)) = {..<?n} \<union> {?n..<?n + length (ps_outbox p)}"
    using d(4) r by blast
  also have "\<dots> = {..<?n + length (ps_outbox p)}" by auto
  finally have all: "set (settled_keys (cl_effects st)) \<union> (oe_key ` set ?r \<union> oe_key ` set (cl_outbox st)) = {..<?n + length (ps_outbox p)}" .
  have "distinct (map oe_key ?r)" by (simp only: restored_keys distinct_upt)
  with d(1-3) disj all show ?thesis
    by (simp add: keys_ok_def with_restored_def Int_Un_distrib)
qed

lemma keys_ok_hydrate: "keys_ok st \<Longrightarrow> keys_ok (snd (hydrate cfg ev cv result st))"
  using hydrate_split [of st cfg ev cv result] keys_ok_quiet keys_ok_restored by metis

lemma keys_ok_load_settled: "keys_ok st \<Longrightarrow> keys_ok (load_settled cfg ev cv result st)"
  using keys_ok_hydrate [of st cfg ev cv result] by (simp add: load_settled_def split_def Let_def keys_ok_def)

lemma same_keys_finish_start: "same_keys st (finish_start cfg ev st)"
proof (cases "cl_loading st")
  case (LoadDone b)
  define s1 where "s1 = st\<lparr>cl_loading := NotLoading, cl_hydrating := False\<rparr>"
  define s2 where "s2 = (if cl_outbox s1 \<noteq> [] then persistOutbox cfg s1 else s1)"
  have "same_keys st s1" by (simp add: s1_def same_keys_def)
  moreover have "quiet s1 s2" by (simp add: s2_def quiet_refl quiet_persistOutbox)
  ultimately have "same_keys st (settleHydrated b s2)"
    using same_keys_trans same_keys_quiet quiet_settleHydrated by blast
  then show ?thesis
    using same_keys_trans [OF _ same_keys_quiet [OF quiet_connect]]
    by (simp add: finish_start_def LoadDone Let_def s1_def [symmetric] s2_def [symmetric] del: split_paired_All)
qed (simp_all add: finish_start_def same_keys_def)

lemma same_keys_start: "same_keys st (snd (start cfg ev st))"
proof -
  have "same_keys st (setStatus Connecting (st\<lparr>cl_started := True\<rparr>))" by (simp add: setStatus_def same_keys_def)
  then have "same_keys st (connect cfg ev (settleHydrated False (setStatus Connecting (st\<lparr>cl_started := True\<rparr>))))"
    "same_keys st (effect CLoad ((setStatus Connecting (st\<lparr>cl_started := True\<rparr>))\<lparr>cl_hydrating := True, cl_loading := LoadPending\<rparr>))"
    using same_keys_trans same_keys_quiet [OF quiet_trans [OF quiet_settleHydrated quiet_connect]] by (blast, simp add: same_keys_def)
  then show ?thesis by (simp add: start_def Let_def) (simp add: same_keys_def)
qed

lemma quiet_disconnect_head:
  "quiet st (presenceDisconnected (stopHeartbeat (st\<lparr>cl_socket := None, cl_poke := None, cl_awaitingCatchUp := False\<rparr>)))"
proof -
  have "quiet st (stopHeartbeat (st\<lparr>cl_socket := None, cl_poke := None, cl_awaitingCatchUp := False\<rparr>))"
    by (simp add: stopHeartbeat_def quiet_def)
  then show ?thesis using quiet_presenceDisconnected quiet_trans by blast
qed

text \<open>A disconnect is quiet or fatal.\<close>

lemma disconnect_split:
  "quiet st (onDisconnect cfg ev code st) \<or> (\<exists>s. quiet st s \<and> onDisconnect cfg ev code st = fatal cfg s)"
proof -
  define s where "s = presenceDisconnected (stopHeartbeat (st\<lparr>cl_socket := None, cl_poke := None, cl_awaitingCatchUp := False\<rparr>))"
  define t where "t = s\<lparr>cl_refreshStreak := cl_refreshStreak s + 1\<rparr>"
  have q: "quiet st s" unfolding s_def by (rule quiet_disconnect_head)
  have "quiet s t" by (simp add: t_def quiet_def)
  then have qt: "quiet st t" using q quiet_trans by blast
  have "onDisconnect cfg ev code st = fatal cfg s \<or>
      onDisconnect cfg ev code st \<in> {connect cfg ev (setStatus Reconnecting t), scheduleReconnect cfg t, scheduleReconnect cfg s}"
    unfolding onDisconnect_def Let_def s_def [symmetric] t_def [symmetric] by auto
  then show ?thesis
    using q quiet_trans [OF qt quiet_trans [OF quiet_setStatus quiet_connect]] quiet_trans [OF qt quiet_scheduleReconnect]
      quiet_trans [OF q quiet_scheduleReconnect] by auto
qed

text \<open>What a server message can do: a quiet step, a poke applied, or a fatal error.\<close>

lemma message_split:
  "quiet st (onServerMsg cfg ev msg st) \<or> onServerMsg cfg ev msg st = fatal cfg st \<or>
   (\<exists>pid cur info poke. msg = PokeEnd pid cur info \<and> cl_poke st = Some poke \<and> pb_pokeId poke = pid \<and>
      onServerMsg cfg ev msg st = applyPoke cfg poke cur (st\<lparr>cl_poke := None\<rparr>))"
proof -
  have p: "quiet st (st\<lparr>cl_poke := x\<rparr>)" "quiet st (st\<lparr>cl_needsRebase := b\<rparr>)" "quiet st (st\<lparr>cl_retryPushTimer := b\<rparr>)" for x b
    by (simp_all add: quiet_def)
  show ?thesis
  proof (cases msg)
    case (ErrorMsg code m)
    then show ?thesis
      using p quiet_requestFullResync quiet_trans [OF p(2) quiet_requestResync] by (cases code) (simp_all add: quiet_refl)
  next
    case (PokePart pid ops remaining lmids results)
    show ?thesis
    proof (cases "cl_poke st")
      case None
      then show ?thesis by (simp add: PokePart quiet_requestResync)
    next
      case (Some poke)
      then show ?thesis
        using p(1) quiet_trans [OF p(1) quiet_requestResync] quiet_trans [OF p(1) quiet_effect]
        by (auto simp: PokePart Let_def split: option.splits)
    qed
  next
    case (PokeEnd pid cur info)
    show ?thesis
    proof (cases "cl_poke st")
      case None
      then show ?thesis by (simp add: PokeEnd quiet_requestResync)
    next
      case (Some poke)
      then show ?thesis using quiet_trans [OF p(1) quiet_requestResync] by (simp add: PokeEnd Let_def)
    qed
  qed (simp_all add: p quiet_applyPeerUpdate quiet_presencePeers quiet_reannounce)
qed

lemma keys_ok_message:
  assumes "keys_ok st"
  shows "keys_ok (onServerMsg cfg ev msg st)"
proof -
  have "keys_ok (st\<lparr>cl_poke := None\<rparr>)" using assms by (simp add: keys_ok_def)
  then show ?thesis
    using message_split [of st cfg ev msg] keys_ok_quiet [OF assms] keys_ok_fatal [OF assms] keys_ok_applyPoke by metis
qed

lemma keys_ok_event:
  assumes "keys_ok st"
  shows "keys_ok (client_event cfg ev cv e st)"
proof (cases e)
  case (SocketMessage s raw)
  have "keys_ok (st\<lparr>cl_lastFrameAt := ce_now ev\<rparr>)" using assms by (simp add: keys_ok_def)
  then show ?thesis using assms keys_ok_message by (auto simp: SocketMessage onMessage_def split: option.splits)
next
  case (SocketClose s code)
  then show ?thesis
    using assms disconnect_split [of st cfg ev code] keys_ok_quiet keys_ok_fatal by auto
next
  case (ConfirmTimeout k)
  have "keys_ok (settle_list cfg [(k, Some (MutationError (js ''Timeout'')))] st)" if "e \<in> set (cl_outbox st)" "oe_key e = k" for e
    using that by (intro keys_ok_settle [OF assms]) auto
  then show ?thesis using assms by (auto simp: ConfirmTimeout confirm_timeout_def settle_list_def)
next
  case PushMicrotask
  have "same_keys st (st\<lparr>cl_flushScheduled := False\<rparr>)" by (simp add: same_keys_def)
  then have "same_keys st (push_microtask st)" unfolding push_microtask_def by (rule same_keys_trans [OF _ same_keys_flushPush])
  then show ?thesis using assms keys_ok_same by (simp add: PushMicrotask)
next
  case PersistMicrotask
  have "same_keys st (persist_microtask st)" by (simp add: persist_microtask_def Let_def same_keys_def)
  then show ?thesis using assms keys_ok_same by (simp add: PersistMicrotask)
next
  case RetryTimer
  then show ?thesis using assms keys_ok_same [OF assms same_keys_flushPush] by (simp add: retry_push_def)
next
  case (SocketBinary s)
  then show ?thesis using assms by (simp add: keys_ok_def)
next
  case Destroy
  have "keys_ok (st\<lparr>cl_destroyed := True\<rparr>)" using assms by (simp add: keys_ok_def)
  then show ?thesis using assms keys_ok_shutdown by (simp add: Destroy destroy_def)
qed (use assms in \<open>simp_all add: keys_ok_same [OF _ same_keys_start] keys_ok_load_settled
    keys_ok_same [OF _ same_keys_finish_start] keys_ok_mutate keys_ok_rawMutate keys_ok_quiet [OF _ quiet_connect]
    keys_ok_quiet [OF _ quiet_heartbeat_tick] keys_ok_quiet [OF _ quiet_presence_timer] keys_ok_quiet [OF _ quiet_token_settled]
    keys_ok_quiet [OF _ quiet_socket_open] keys_ok_quiet [OF _ quiet_wake_client] keys_ok_quiet [OF _ quiet_registerTable]
    keys_ok_quiet [OF _ quiet_unregisterTable] keys_ok_quiet [OF _ quiet_presenceSet] keys_ok_quiet [OF _ quiet_presenceUpdate]\<close>)

section \<open>The ids of the outbox\<close>

text \<open>Consecutive ids after \<open>l\<close>, then mutations that have none yet.\<close>

fun ids_wf :: "int \<Rightarrow> int option list \<Rightarrow> bool" where
  "ids_wf l [] = True"
| "ids_wf l (Some i # ids) \<longleftrightarrow> i = l + 1 \<and> ids_wf i ids"
| "ids_wf l (None # ids) \<longleftrightarrow> set ids \<subseteq> {None}"

definition gapless :: "Mutation list \<Rightarrow> bool" where
  "gapless ms \<longleftrightarrow> (\<exists>k. map mut_id ms = [k + 1..k + int (length ms)])"

lemma ids_wf_None: "set ids \<subseteq> {None} \<Longrightarrow> ids_wf l ids"
  by (cases ids) (auto split: option.splits)

lemma ids_wf_append_None: "ids_wf l ids \<Longrightarrow> set ns \<subseteq> {None} \<Longrightarrow> ids_wf l (ids @ ns)"
  by (induction l ids rule: ids_wf.induct) (auto simp: ids_wf_None)

lemma ids_wf_snoc: "ids_wf l ids \<Longrightarrow> None \<notin> set ids \<Longrightarrow> ids_wf l (ids @ [Some (l + int (length ids) + 1)])"
  by (induction l ids rule: ids_wf.induct) (simp_all add: algebra_simps)

lemma ids_wf_upto: "ids_wf l ids \<Longrightarrow> None \<notin> set ids \<Longrightarrow> ids = map Some [l + 1..l + int (length ids)]"
proof (induction l ids rule: ids_wf.induct)
  case (2 l i ids)
  then have e: "i = l + 1" "ids = map Some [i + 1..i + int (length ids)]" by auto
  moreover have "[l + 1..l + int (length (Some i # ids))] = (l + 1) # [l + 1 + 1..l + int (length (Some i # ids))]"
    by (rule upto_rec1) simp
  ultimately show ?case using e by (simp add: algebra_simps)
qed auto

lemma ids_wf_after_None: "ids_wf l (as @ None # bs) \<Longrightarrow> set bs \<subseteq> {None}"
  by (induction l as rule: ids_wf.induct) auto

lemma ids_wf_prefix: "ids_wf l (as @ bs) \<Longrightarrow> ids_wf l as"
  by (induction l as rule: ids_wf.induct) auto

lemma highest_append: "highest_id l (as @ bs) = highest_id (highest_id l as) bs"
  by (simp add: highest_id_def)

lemma highest_None: "set (map oe_id es) \<subseteq> {None} \<Longrightarrow> highest_id l es = l"
  by (induction es arbitrary: l) (simp_all add: highest_id_def)

lemma highest_wf: "ids_wf l (map oe_id es) \<Longrightarrow> None \<notin> set (map oe_id es) \<Longrightarrow> highest_id l es = l + int (length es)"
proof (induction es arbitrary: l)
  case (Cons e es)
  then obtain i where i: "oe_id e = Some i" by (cases "oe_id e") auto
  with Cons.prems have "i = l + 1" "ids_wf i (map oe_id es)" "None \<notin> set (map oe_id es)" by auto
  with Cons.IH [of i] i show ?case by (simp add: highest_id_def)
qed (simp add: highest_id_def)

lemma assign_wf:
  "ids_wf l (map oe_id (ds @ es)) \<Longrightarrow> None \<notin> set (map oe_id ds) \<Longrightarrow>
     ids_wf l (map oe_id (assign_ids l ds es)) \<and> None \<notin> set (map oe_id (assign_ids l ds es))"
proof (induction es arbitrary: ds)
  case (Cons e es)
  show ?case
  proof (cases "oe_id e")
    case None
    then have rest: "set (map oe_id es) \<subseteq> {None}" using Cons.prems(1) ids_wf_after_None [of l "map oe_id ds" "map oe_id es"] by simp
    have "ids_wf l (map oe_id ds)"
      using Cons.prems(1) ids_wf_prefix [of l "map oe_id ds" "map oe_id (e # es)"] by simp
    have h: "highest_id l (ds @ e # es) = l + int (length ds)"
      using highest_wf [OF \<open>ids_wf l (map oe_id ds)\<close> Cons.prems(2)] rest None highest_None [of "e # es"]
      by (simp add: highest_append)
    let ?e = "e\<lparr>oe_id := Some (l + int (length ds) + 1)\<rparr>"
    have "ids_wf l (map oe_id ds @ [Some (l + int (length (map oe_id ds)) + 1)])"
      by (rule ids_wf_snoc [OF \<open>ids_wf l (map oe_id ds)\<close> Cons.prems(2)])
    from ids_wf_append_None [OF this rest] have "ids_wf l (map oe_id ((ds @ [?e]) @ es))" by simp
    from Cons.IH [OF this] Cons.prems(2) show ?thesis by (simp add: None h)
  next
    case (Some i)
    then show ?thesis using Cons.IH [of "ds @ [e]"] Cons.prems by simp
  qed
qed simp

lemma renumber_ids: "map oe_id (renumber l es) = map Some [l + 1..l + int (length es)]"
proof (induction es arbitrary: l)
  case (Cons e es)
  have "[l + 1..l + int (length (e # es))] = (l + 1) # [l + 1 + 1..l + int (length (e # es))]"
    by (rule upto_rec1) simp
  with Cons.IH [of "l + 1"] show ?case by (simp add: algebra_simps)
qed simp

lemma ids_wf_all: "ids_wf l (map Some [l + 1..l + int n])"
proof (induction n)
  case (Suc n)
  have "[l + 1..l + int (Suc n)] = [l + 1..l + int n] @ [l + int n + 1]"
    using upto_rec2 [of "l + 1" "l + int n + 1"] by (simp add: algebra_simps)
  with ids_wf_snoc [OF Suc] show ?case by simp
qed simp

lemma renumber_wf: "ids_wf l (map oe_id (renumber l es)) \<and> None \<notin> set (map oe_id (renumber l es))"
  by (simp add: renumber_ids ids_wf_all del: list.set_map)

lemma keep_above: "ids_wf i (map oe_id es) \<Longrightarrow> c \<le> i \<Longrightarrow> filter (\<lambda>e. \<not> confirmed_by c e) es = es"
proof (induction es arbitrary: i)
  case (Cons e es)
  show ?case
  proof (cases "oe_id e")
    case None
    have "\<not> confirmed_by c e'" if "e' \<in> set es" for e'
      using Cons.prems(1) None that by (auto simp: confirmed_by_def)
    then show ?thesis using None by (simp add: confirmed_by_def)
  next
    case (Some j)
    then have "j = i + 1" "ids_wf j (map oe_id es)" using Cons.prems(1) by auto
    then show ?thesis using Cons.IH [of j] Cons.prems(2) Some by (simp add: confirmed_by_def)
  qed
qed simp

text \<open>Settling what an LMID confirms leaves the ids after it.\<close>

lemma confirmed_wf:
  "ids_wf l (map oe_id es) \<Longrightarrow> l \<le> c \<Longrightarrow> ids_wf c (map oe_id (filter (\<lambda>e. \<not> confirmed_by c e) es))"
proof (induction es arbitrary: l)
  case (Cons e es)
  show ?case
  proof (cases "oe_id e")
    case None
    then have "set (map oe_id (filter (\<lambda>e. \<not> confirmed_by c e) (e # es))) \<subseteq> {None}" using Cons.prems(1) by auto
    then show ?thesis by (rule ids_wf_None)
  next
    case (Some i)
    then have i: "i = l + 1" "ids_wf i (map oe_id es)" using Cons.prems(1) by auto
    show ?thesis
    proof (cases "i \<le> c")
      case True
      then show ?thesis using Cons.IH [OF i(2)] Some by (simp add: confirmed_by_def)
    next
      case False
      then have "l = c" using i(1) Cons.prems(2) by simp
      then show ?thesis using keep_above [OF i(2), of c] i Some False by (simp add: confirmed_by_def)
    qed
  qed
qed simp

text \<open>The mutations of a push are the outbox, in order.\<close>

lemma push_is_outbox:
  assumes "ids_wf (cl_confirmedLmid st) (map oe_id (cl_outbox st))" "None \<notin> set (map oe_id (cl_outbox st))"
  shows "map mut_id (push_mutations st) = [cl_confirmedLmid st + 1..cl_confirmedLmid st + int (length (cl_outbox st))] \<and>
    push_mutations st = map (\<lambda>e. \<lparr>mut_id = the (oe_id e), mut_name = oe_name e, mut_args = oe_args e, mut_seed = oe_seed e\<rparr>) (cl_outbox st)"
proof -
  let ?l = "cl_confirmedLmid st" and ?es = "cl_outbox st"
  have u: "map oe_id ?es = map Some [?l + 1..?l + int (length ?es)]" using ids_wf_upto [OF assms] by simp
  then have ids: "map (\<lambda>e. the (oe_id e)) ?es = [?l + 1..?l + int (length ?es)]"
  proof -
    have "map (\<lambda>e. the (oe_id e)) ?es = map the (map oe_id ?es)" by simp
    then show ?thesis by (simp only: u) (simp add: comp_def)
  qed
  have "?l < i" if "e \<in> set ?es" "oe_id e = Some i" for e i
  proof -
    have "Some i \<in> set (map oe_id ?es)" using that by force
    then show ?thesis unfolding u by auto
  qed
  moreover have "oe_id e \<noteq> None" if "e \<in> set ?es" for e using assms(2) that by force
  ultimately have "filter (\<lambda>e. case oe_id e of Some i \<Rightarrow> ?l < i | None \<Rightarrow> False) ?es = ?es"
    by (auto simp: filter_id_conv split: option.splits)
  moreover have "sort_key (\<lambda>e. the (oe_id e)) ?es = ?es"
    by (rule sort_key_id_if_sorted) (simp add: ids)
  ultimately have p: "push_mutations st =
      map (\<lambda>e. \<lparr>mut_id = the (oe_id e), mut_name = oe_name e, mut_args = oe_args e, mut_seed = oe_seed e\<rparr>) ?es"
    by (simp add: push_mutations_def)
  then show ?thesis using ids by (simp add: comp_def)
qed

section \<open>The queue's invariant\<close>

definition ids_ok :: "Client \<Rightarrow> bool" where
  "ids_ok st \<longleftrightarrow> ids_wf (cl_confirmedLmid st) (map oe_id (cl_outbox st)) \<and>
     (cl_synced st \<longrightarrow> None \<notin> set (map oe_id (cl_outbox st)))"

definition trace_ok :: "Client \<Rightarrow> bool" where
  "trace_ok st \<longleftrightarrow> (\<forall>e \<in> set (cl_outbox st). \<not> oe_timer e) \<and>
     (\<forall>(l, ids) \<in> set (saves (cl_effects st)). ids_wf l ids) \<and> (\<forall>ms \<in> set (pushes (cl_effects st)). gapless ms)"

definition queue_ok :: "Client \<Rightarrow> bool" where
  "queue_ok st \<longleftrightarrow> keys_ok st \<and> ids_ok st \<and> trace_ok st"

text \<open>Before the store is loaded nothing is connected and no mutation has an id.\<close>

definition early :: "Client \<Rightarrow> bool" where
  "early st \<longleftrightarrow> \<not> cl_started st \<or> cl_loading st = LoadPending"

definition early_ok :: "Client \<Rightarrow> bool" where
  "early_ok st \<longleftrightarrow> (early st \<longrightarrow> \<not> connecting st \<and> set (map oe_id (cl_outbox st)) \<subseteq> {None}) \<and>
     (cl_loading st \<noteq> NotLoading \<longrightarrow> cl_started st)"

lemma ids_ok_quiet: "ids_ok st \<Longrightarrow> quiet st st' \<Longrightarrow> ids_ok st'"
  by (simp add: ids_ok_def quiet_def)

lemma trace_ok_quiet: "trace_ok st \<Longrightarrow> quiet st st' \<Longrightarrow> trace_ok st'"
  by (simp add: trace_ok_def quiet_def)

lemma queue_ok_quiet: "queue_ok st \<Longrightarrow> quiet st st' \<Longrightarrow> queue_ok st'"
  using keys_ok_quiet ids_ok_quiet trace_ok_quiet by (auto simp: queue_ok_def)

lemma renumber_timers [simp]: "(\<forall>e \<in> set (renumber l es). \<not> oe_timer e) \<longleftrightarrow> (\<forall>e \<in> set es. \<not> oe_timer e)"
  by (induction es arbitrary: l) simp_all

lemma assign_timers [simp]:
  "(\<forall>e \<in> set (assign_ids l ds es). \<not> oe_timer e) \<longleftrightarrow> (\<forall>e \<in> set (ds @ es). \<not> oe_timer e)"
  by (induction es arbitrary: ds) auto

lemma trace_ok_same:
  assumes "trace_ok st" "(\<forall>e \<in> set (cl_outbox st). \<not> oe_timer e) \<longrightarrow> (\<forall>e \<in> set (cl_outbox st'). \<not> oe_timer e)"
    and "saves (cl_effects st') = saves (cl_effects st)" "pushes (cl_effects st') = pushes (cl_effects st)"
  shows "trace_ok st'"
  using assms by (simp add: trace_ok_def)

lemma settle_list_trace: "trace_ok st \<Longrightarrow> trace_ok (settle_list cfg xs st)"
  by (rule trace_ok_same) simp_all

lemma rebase_ok: "ids_ok (rebaseOutboxIds cfg st) \<and> (trace_ok st \<longrightarrow> trace_ok (rebaseOutboxIds cfg st))"
  using renumber_wf [of "cl_confirmedLmid st" "cl_outbox st"]
  by (simp add: rebaseOutboxIds_def ids_ok_def trace_ok_def)

text \<open>A poke's confirmation, then the settlement of what it confirms.\<close>

lemma confirm_ids:
  assumes "ids_ok st"
  shows "(\<exists>l \<le> cl_confirmedLmid (confirm_poke cfg poke cur st).
      ids_wf l (map oe_id (cl_outbox (confirm_poke cfg poke cur st)))) \<and>
    (cl_synced (confirm_poke cfg poke cur st) \<longrightarrow> None \<notin> set (map oe_id (cl_outbox (confirm_poke cfg poke cur st))))"
proof (cases "case cl_cursor st of None \<Rightarrow> False | Some c \<Rightarrow> backendId c \<noteq> backendId cur")
  case True
  define t where "t = st\<lparr>cl_cursor := Some cur, cl_awaitingCatchUp := False,
    cl_confirmedLmid := (case map_of (pb_lmids poke) (co_clientId cfg) of None \<Rightarrow> 0 | Some c \<Rightarrow> c)\<rparr>"
  have "confirm_poke cfg poke cur st = rebaseOutboxIds cfg t" using True by (simp add: confirm_poke_def Let_def t_def)
  then show ?thesis using rebase_ok [of cfg t] by (auto simp: ids_ok_def)
next
  case False
  define t where "t = confirm_poke cfg poke cur st"
  have "cl_outbox t = cl_outbox st \<and> cl_confirmedLmid st \<le> cl_confirmedLmid t \<and> cl_synced t = cl_synced st"
    using False by (simp add: t_def confirm_poke_def Let_def split: option.splits)
  then show ?thesis using assms by (auto simp: ids_ok_def t_def [symmetric])
qed

lemma trace_ok_confirm: "trace_ok st \<Longrightarrow> trace_ok (confirm_poke cfg poke cur st)"
  by (auto simp: confirm_poke_def Let_def trace_ok_def rebaseOutboxIds_def split: option.splits)

lemma settleOutbox_outbox:
  assumes "keys_ok st"
  shows "cl_outbox (settleOutbox cfg results st) = filter (\<lambda>e. \<not> confirmed_by (cl_confirmedLmid st) e) (cl_outbox st)"
proof -
  have "inj_on oe_key (set (cl_outbox st))" using assms by (simp add: keys_ok_def distinct_map)
  then show ?thesis
    unfolding settleOutbox_list by (auto simp: image_iff inj_on_def intro!: filter_cong)
qed

lemma settleOutbox_ids:
  assumes "keys_ok st" "l \<le> cl_confirmedLmid st" "ids_wf l (map oe_id (cl_outbox st))"
    and "cl_synced st \<longrightarrow> None \<notin> set (map oe_id (cl_outbox st))"
  shows "ids_ok (settleOutbox cfg results st)"
proof -
  have "cl_confirmedLmid (settleOutbox cfg results st) = cl_confirmedLmid st"
      "cl_synced (settleOutbox cfg results st) = cl_synced st"
    by (simp_all add: settleOutbox_list)
  then show ?thesis
    using confirmed_wf [OF assms(3,2)] assms(4) by (auto simp: ids_ok_def settleOutbox_outbox [OF assms(1)])
qed

lemma become_synced_ok:
  assumes "ids_ok st" "trace_ok st"
  shows "ids_ok (become_synced cfg st) \<and> trace_ok (become_synced cfg st)"
proof (cases "cl_synced st")
  case False
  define s where "s = markAllReady (setStatus Synced (st\<lparr>cl_synced := True, cl_attempt := 0, cl_refreshStreak := 0\<rparr>))"
  have q: "quiet (st\<lparr>cl_synced := True, cl_attempt := 0, cl_refreshStreak := 0\<rparr>) s"
    unfolding s_def by (rule quiet_trans [OF quiet_setStatus quiet_markAllReady])
  have "trace_ok (st\<lparr>cl_synced := True, cl_attempt := 0, cl_refreshStreak := 0\<rparr>)" using assms(2) by (simp add: trace_ok_def)
  from trace_ok_quiet [OF this q] have t: "trace_ok s" .
  have "cl_outbox s = cl_outbox st" "cl_confirmedLmid s = cl_confirmedLmid st" using q by (simp_all add: quiet_def)
  then have "ids_wf (cl_confirmedLmid s) (map oe_id ([] @ cl_outbox s))" using assms(1) by (simp add: ids_ok_def)
  from assign_wf [OF this] have "ids_ok (assignPendingIds cfg s)"
    by (simp add: assignPendingIds_def ids_ok_def)
  moreover have "trace_ok (assignPendingIds cfg s)" using t by (simp add: assignPendingIds_def trace_ok_def)
  ultimately show ?thesis using False by (simp add: become_synced_def s_def)
qed (use assms in \<open>simp add: become_synced_def\<close>)

lemma snapshot_ids [simp]: "map po_id (outboxSnapshot st) = map oe_id (cl_outbox st)"
  by (simp add: outboxSnapshot_def comp_def)

lemma queue_ok_applyPoke:
  assumes "queue_ok st"
  shows "queue_ok (applyPoke cfg poke cur st)"
proof -
  define s0 where "s0 = apply_tables (pb_patch poke) st"
  define s1 where "s1 = settleOutbox cfg (pb_results poke) (confirm_poke cfg poke cur s0)"
  define s2 where "s2 = (if cl_needsRebase s1 then rebaseOutboxIds cfg (s1\<lparr>cl_needsRebase := False\<rparr>) else s1)"
  define s3 where "s3 = schedulePush (become_synced cfg s2)"
  have 0: "queue_ok s0" unfolding s0_def by (rule queue_ok_quiet [OF assms quiet_apply_tables])
  have k: "keys_ok (confirm_poke cfg poke cur s0)"
    using 0 keys_ok_same [OF _ same_keys_confirm] by (simp add: queue_ok_def)
  obtain l where "l \<le> cl_confirmedLmid (confirm_poke cfg poke cur s0)"
      "ids_wf l (map oe_id (cl_outbox (confirm_poke cfg poke cur s0)))"
      "cl_synced (confirm_poke cfg poke cur s0) \<longrightarrow> None \<notin> set (map oe_id (cl_outbox (confirm_poke cfg poke cur s0)))"
    using confirm_ids [of s0 cfg poke cur] 0 by (auto simp: queue_ok_def)
  then have i1: "ids_ok s1" unfolding s1_def by (rule settleOutbox_ids [OF k])
  have t1: "trace_ok s1" unfolding s1_def settleOutbox_list
    using 0 by (intro settle_list_trace trace_ok_confirm) (simp add: queue_ok_def)
  have "trace_ok (s1\<lparr>cl_needsRebase := False\<rparr>)" using t1 by (simp add: trace_ok_def)
  then have 2: "ids_ok s2" "trace_ok s2" using i1 t1 rebase_ok by (simp_all add: s2_def)
  have 3: "ids_ok s3" "trace_ok s3"
    using become_synced_ok [OF 2, of cfg] ids_ok_quiet [OF _ quiet_schedulePush] trace_ok_quiet [OF _ quiet_schedulePush]
    by (simp_all add: s3_def)
  have a: "applyPoke cfg poke cur st =
      (if co_store cfg then effect (CApplyPoke \<lparr>pp_ops = row_ops_of (pb_patch poke), pp_clear = (ClearOp \<in> set (pb_patch poke)),
         pp_cursor = cur, pp_schemaVersion = app_version (co_app cfg), pp_confirmedLmid = cl_confirmedLmid s3,
         pp_outbox = outboxSnapshot s3\<rparr>) s3 else s3)"
    unfolding applyPoke_def Let_def s0_def s1_def s2_def s3_def ..
  have "ids_ok (applyPoke cfg poke cur st) \<and> trace_ok (applyPoke cfg poke cur st)"
    using 3 unfolding a by (auto simp: ids_ok_def trace_ok_def)
  moreover have "keys_ok (applyPoke cfg poke cur st)" using assms keys_ok_applyPoke by (simp add: queue_ok_def)
  ultimately show ?thesis by (simp add: queue_ok_def)
qed

lemma queue_ok_settle_all:
  assumes "queue_ok st"
  shows "queue_ok (settle_list cfg (map (\<lambda>e. (oe_key e, err)) (cl_outbox st)) st)"
  using assms keys_ok_settle_all [of st cfg err] settle_list_trace by (auto simp: queue_ok_def ids_ok_def simp del: settle_list_fields(1))

lemma queue_ok_fatal: "queue_ok st \<Longrightarrow> queue_ok (fatal cfg st)"
  using fatal_split [of st cfg] queue_ok_quiet queue_ok_settle_all by metis

lemma queue_ok_shutdown:
  assumes "queue_ok st"
  shows "queue_ok (shutdown cfg st) \<and> cl_outbox (shutdown cfg st) = []"
proof -
  obtain s s' where s: "quiet st s" "s' = settle_list cfg (map (\<lambda>e. (oe_key e, Some (MutationError (js ''Stopped'')))) (cl_outbox s)) s"
      "quiet (s'\<lparr>cl_outbox := []\<rparr>) (shutdown cfg st)"
    using shutdown_split by blast
  have q: "queue_ok s" by (rule queue_ok_quiet [OF assms s(1)])
  then have "queue_ok s'" "cl_outbox s' = []"
    using queue_ok_settle_all [OF q] keys_ok_settle_all s(2) by (auto simp: queue_ok_def simp del: settle_list_fields(1))
  then have "queue_ok (s'\<lparr>cl_outbox := []\<rparr>)" by (simp add: queue_ok_def keys_ok_def ids_ok_def trace_ok_def)
  from queue_ok_quiet [OF this s(3)] s(3) show ?thesis by (simp add: quiet_def)
qed

lemma queue_ok_message: "queue_ok st \<Longrightarrow> queue_ok (onServerMsg cfg ev msg st)"
proof -
  assume q: "queue_ok st"
  have "quiet st (st\<lparr>cl_poke := None\<rparr>)" by (simp add: quiet_def)
  from queue_ok_quiet [OF q this] show ?thesis
    using message_split [of st cfg ev msg] queue_ok_quiet [OF q] queue_ok_fatal [OF q] queue_ok_applyPoke by metis
qed

lemma queue_ok_enqueue:
  assumes "co_store cfg" "queue_ok st"
  shows "queue_ok (snd (enqueue cfg name args seed st))"
proof -
  let ?es = "cl_outbox st" and ?l = "cl_confirmedLmid st"
  have w: "ids_wf ?l (map oe_id ?es)" "cl_synced st \<Longrightarrow> None \<notin> set (map oe_id ?es)"
    using assms(2) by (simp_all add: queue_ok_def ids_ok_def)
  have none: "ids_wf ?l (map oe_id ?es @ [None])" by (rule ids_wf_append_None [OF w(1)]) simp
  have next_id: "highest_id ?l (?es @ [e]) + 1 = ?l + int (length ?es) + 1" if "cl_synced st" "oe_id e = None" for e
    using highest_wf [OF w(1) w(2) [OF that(1)]] that(2) by (simp add: highest_append highest_None)
  have some: "ids_wf ?l (map oe_id ?es @ [Some (?l + int (length ?es) + 1)])" if "cl_synced st"
    using ids_wf_snoc [OF w(1) w(2) [OF that]] by simp
  have "ids_ok (snd (enqueue cfg name args seed st))"
  proof (cases "cl_status st = FatalStatus \<or> cl_stopped st")
    case True
    then show ?thesis using assms(2) by (auto simp: enqueue_def queue_ok_def)
  next
    case False
    then show ?thesis
      using none some w(2) next_id
      by (cases "cl_synced st") (simp_all add: enqueue_def Let_def schedulePush_def ids_ok_def nextMutationId_def)
  qed
  moreover have "trace_ok (snd (enqueue cfg name args seed st))"
    using assms by (auto simp: enqueue_def Let_def schedulePush_def queue_ok_def trace_ok_def)
  ultimately show ?thesis using keys_ok_enqueue assms(2) by (simp add: queue_ok_def)
qed

lemma overlay_quiet: "quiet st (effect (COverlay k ws) st)"
  by (rule quiet_effect) simp

lemma queue_ok_mutate:
  assumes "co_store cfg" "queue_ok st"
  shows "queue_ok (snd (mutateByName cfg ev cv name args st))"
  using assms queue_ok_enqueue [OF assms] queue_ok_enqueue [OF assms(1) queue_ok_quiet [OF assms(2) overlay_quiet]]
  by (auto simp: mutateByName_def run_intent_def Let_def split: slot.splits verdict.splits prod.splits option.splits)

lemma queue_ok_rawMutate:
  assumes "co_store cfg" "queue_ok st"
  shows "queue_ok (snd (rawMutate cfg ev name args st))"
  using assms queue_ok_enqueue [OF assms]
  by (auto simp: rawMutate_def Let_def split: slot.splits verdict.splits option.splits)

lemma queue_ok_flushPush:
  assumes "queue_ok st"
  shows "queue_ok (flushPush st)"
proof (cases "cl_socket st = None \<or> \<not> cl_synced st \<or> push_mutations st = []")
  case False
  then obtain s where s: "cl_socket st = Some s" "cl_synced st" by auto
  have i: "ids_wf (cl_confirmedLmid st) (map oe_id (cl_outbox st))" "None \<notin> set (map oe_id (cl_outbox st))"
    using assms s(2) by (simp_all add: queue_ok_def ids_ok_def)
  have "gapless (push_mutations st)"
  proof -
    have p: "map mut_id (push_mutations st) = [cl_confirmedLmid st + 1..cl_confirmedLmid st + int (length (cl_outbox st))]"
      using push_is_outbox [OF i] by blast
    have "length (push_mutations st) = length (map mut_id (push_mutations st))" by simp
    also have "\<dots> = length (cl_outbox st)" unfolding p by simp
    finally show ?thesis unfolding gapless_def p by (intro exI [of _ "cl_confirmedLmid st"]) simp
  qed
  then have "trace_ok (flushPush st)" "ids_ok (flushPush st)"
    using assms False s by (auto simp: flushPush_def client_send_def queue_ok_def trace_ok_def ids_ok_def)
  then show ?thesis using keys_ok_same [OF _ same_keys_flushPush] assms by (simp add: queue_ok_def)
qed (use assms in \<open>auto simp: flushPush_def\<close>)

section \<open>Events\<close>

definition phase :: "Client \<Rightarrow> bool \<times> Loading" where
  "phase st = (cl_started st, cl_loading st)"

lemma phase_quiet: "quiet st st' \<Longrightarrow> phase st' = phase st"
  by (simp add: phase_def quiet_def)

lemma phase_settle_list [simp]: "phase (settle_list cfg xs st) = phase st"
  by (simp add: phase_def)

lemma phase_applyPoke: "phase (applyPoke cfg poke cur st) = phase st"
proof -
  have c: "phase (confirm_poke cfg poke cur s) = phase s" for s
    by (auto simp: confirm_poke_def Let_def rebaseOutboxIds_def phase_def split: option.splits)
  have r: "phase (rebaseOutboxIds cfg s) = phase s" for s by (simp add: rebaseOutboxIds_def phase_def)
  have n: "phase (s\<lparr>cl_needsRebase := b\<rparr>) = phase s" for s b by (simp add: phase_def)
  have e: "phase (effect x s) = phase s" for x s by (simp add: phase_def)
  have b: "phase (become_synced cfg s) = phase s" for s
  proof -
    let ?s = "s\<lparr>cl_synced := True, cl_attempt := 0, cl_refreshStreak := 0\<rparr>"
    have "phase (assignPendingIds cfg t) = phase t" for t by (simp add: assignPendingIds_def phase_def)
    moreover have "phase (markAllReady (setStatus Synced ?s)) = phase ?s"
      by (rule phase_quiet [OF quiet_trans [OF quiet_setStatus quiet_markAllReady]])
    moreover have "phase ?s = phase s" by (simp add: phase_def)
    ultimately show ?thesis by (simp add: become_synced_def)
  qed
  show ?thesis
    by (simp add: applyPoke_def Let_def e phase_quiet [OF quiet_schedulePush] b r n settleOutbox_list c phase_quiet [OF quiet_apply_tables])
qed

lemma phase_fatal: "phase (fatal cfg st) = phase st"
  using fatal_split [of st cfg] phase_quiet by (metis phase_settle_list)

lemma phase_message: "phase (onServerMsg cfg ev msg st) = phase st"
proof -
  have "phase (st\<lparr>cl_poke := None\<rparr>) = phase st" by (simp add: phase_def)
  then show ?thesis
    using message_split [of st cfg ev msg] phase_quiet phase_fatal [of cfg st] phase_applyPoke by metis
qed

lemma early_busy:
  assumes "early_ok st" "connecting st" "phase st' = phase st"
  shows "early_ok st'"
  using assms by (simp add: early_ok_def early_def phase_def)

lemma early_calm:
  assumes "early_ok st" "phase st' = phase st" "early st \<Longrightarrow> connecting st' \<Longrightarrow> connecting st"
    and "early st \<Longrightarrow> set (map oe_id (cl_outbox st)) \<subseteq> {None} \<Longrightarrow> set (map oe_id (cl_outbox st')) \<subseteq> {None}"
  shows "early_ok st'"
  using assms by (simp add: early_ok_def early_def phase_def) blast

lemma early_quiet:
  assumes "early_ok st" "quiet st st'" "early st \<Longrightarrow> \<not> connecting st \<Longrightarrow> \<not> connecting st'"
  shows "early_ok st'"
  using early_calm [OF assms(1) phase_quiet [OF assms(2)]] assms by (auto simp: quiet_def early_ok_def)

text \<open>Presence and tables do not connect.\<close>

lemma connecting_with_presence [simp]: "connecting (with_presence f st) = connecting st"
  by (simp add: with_presence_def connecting_def)

lemma connecting_effect [simp]: "(\<And>epoch. e \<noteq> CAskToken epoch) \<Longrightarrow> connecting (effect e st) = connecting st"
  by (auto simp: connecting_def)

lemma connecting_send [simp]: "connecting (client_send msg st) = connecting st"
  by (simp add: client_send_def split: option.splits)

lemma connecting_presence [simp]:
  "connecting (notifyPresence st) = connecting st" "connecting (sendPresence ev st) = connecting st"
  "connecting (schedulePresenceSend cfg ev st) = connecting st" "connecting (presence_timer ev st) = connecting st"
  by (simp_all add: notifyPresence_def sendPresence_def schedulePresenceSend_def presence_timer_def Let_def)

lemma connecting_presenceSet [simp]: "connecting (snd (presenceSet cfg ev state st)) = connecting st"
  by (auto simp: presenceSet_def Let_def split: option.splits verdict.splits)

lemma connecting_presenceUpdate [simp]: "connecting (snd (presenceUpdate cfg ev state st)) = connecting st"
  using presenceUpdate_state [of cfg ev state st] by auto

lemma connecting_registerTable: "\<not> connecting st \<Longrightarrow> \<not> connecting (snd (registerTable cfg t st))"
  by (auto simp: registerTable_def connecting_def Let_def)

lemma connecting_notifyPending [simp]: "connecting (notifyPending st) = connecting st"
  by (simp add: connecting_def)

lemma connecting_enqueue: "\<not> connecting st \<Longrightarrow> \<not> connecting (snd (enqueue cfg name args seed st))"
  by (auto simp: enqueue_def Let_def connecting_def)

lemma enqueue_early:
  assumes "early_ok st"
  shows "early_ok (snd (enqueue cfg name args seed st))"
proof (rule early_calm [OF assms])
  show "phase (snd (enqueue cfg name args seed st)) = phase st"
    by (simp add: phase_def enqueue_def Let_def schedulePush_def)
  show "connecting st" if "early st" "connecting (snd (enqueue cfg name args seed st))"
    using that connecting_enqueue by blast
  show "set (map oe_id (cl_outbox (snd (enqueue cfg name args seed st)))) \<subseteq> {None}"
    if "early st" "set (map oe_id (cl_outbox st)) \<subseteq> {None}"
  proof -
    have "\<not> cl_synced st" using assms that(1) by (auto simp: early_ok_def connecting_def)
    then show ?thesis using that(2) by (auto simp: enqueue_def Let_def)
  qed
qed

lemma overlay_early: "early_ok st \<Longrightarrow> early_ok (effect (COverlay k ws) st)"
  by (rule early_quiet [OF _ overlay_quiet]) simp_all

lemma mutate_early: "early_ok st \<Longrightarrow> early_ok (snd (mutateByName cfg ev cv name args st))"
  using enqueue_early overlay_early
  by (auto simp: mutateByName_def run_intent_def Let_def split: slot.splits verdict.splits prod.splits option.splits)

lemma rawMutate_early: "early_ok st \<Longrightarrow> early_ok (snd (rawMutate cfg ev name args st))"
  using enqueue_early by (auto simp: rawMutate_def Let_def split: slot.splits verdict.splits option.splits)

lemma flushPush_early:
  assumes "early_ok st"
  shows "early_ok (flushPush st)"
proof (rule early_calm [OF assms])
  show "phase (flushPush st) = phase st" by (simp add: flushPush_def client_send_def phase_def split: option.splits)
  show "connecting (flushPush st) \<Longrightarrow> connecting st" by (simp add: flushPush_def split: if_splits)
  have "cl_outbox (flushPush st) = cl_outbox st" by (simp add: flushPush_def client_send_def split: option.splits)
  then show "set (map oe_id (cl_outbox st)) \<subseteq> {None} \<Longrightarrow> set (map oe_id (cl_outbox (flushPush st))) \<subseteq> {None}" by simp
qed

lemma connecting_head: "\<not> connecting st \<Longrightarrow> \<not> connecting (presenceDisconnected (stopHeartbeat (st\<lparr>cl_stopped := True, cl_reconnectTimer := False, cl_retryPushTimer := False\<rparr>)))"
  by (simp add: presenceDisconnected_def stopHeartbeat_def Let_def) (simp add: connecting_def)

lemma shutdown_early:
  assumes "early_ok st" "cl_outbox (shutdown cfg st) = []"
  shows "early_ok (shutdown cfg st)"
proof -
  define s0 where "s0 = presenceDisconnected (stopHeartbeat (st\<lparr>cl_stopped := True, cl_reconnectTimer := False, cl_retryPushTimer := False\<rparr>))"
  define s where "s = (case cl_socket s0 of None \<Rightarrow> s0 | Some n \<Rightarrow> effect (CClose n 1000) (s0\<lparr>cl_socket := None\<rparr>))"
  define s' where "s' = settle_list cfg (map (\<lambda>e. (oe_key e, Some (MutationError (js ''Stopped'')))) (cl_outbox s)) s"
  have e: "shutdown cfg st = setStatus Idle (settleHydrated False (s'\<lparr>cl_outbox := []\<rparr>))"
    unfolding shutdown_def Let_def s0_def [symmetric] s_def [symmetric] settle_all_list s'_def [symmetric] ..
  have "connecting (shutdown cfg st) \<Longrightarrow> connecting s'"
    unfolding e by (auto simp: setStatus_def settleHydrated_def Let_def connecting_def split: if_splits)
  moreover have "connecting s' \<Longrightarrow> connecting s" unfolding s'_def by (simp add: connecting_def)
  moreover have "connecting s \<Longrightarrow> connecting s0"
    by (auto simp: s_def connecting_def split: option.splits)
  moreover have "connecting s0 \<Longrightarrow> connecting st" unfolding s0_def using connecting_head by blast
  ultimately have c: "connecting (shutdown cfg st) \<Longrightarrow> connecting st" by blast
  obtain s1 s2 where s: "quiet st s1" "s2 = settle_list cfg (map (\<lambda>e. (oe_key e, Some (MutationError (js ''Stopped'')))) (cl_outbox s1)) s1"
      "quiet (s2\<lparr>cl_outbox := []\<rparr>) (shutdown cfg st)"
    using shutdown_split by blast
  have "phase (shutdown cfg st) = phase st"
    using phase_quiet [OF s(3)] phase_quiet [OF s(1)] by (simp add: s(2) phase_def)
  from early_calm [OF assms(1) this] c assms(2) show ?thesis by simp
qed

text \<open>A load settles with what an earlier client of the same id saved, or something as good.\<close>

fun load_ok :: "ClientEvent \<Rightarrow> bool" where
  "load_ok (LoadSettled (Loaded (Some p))) = ids_wf (ps_confirmedLmid p) (map po_id (ps_outbox p))"
| "load_ok _ = True"

lemma queue_ok_load:
  assumes "queue_ok st" "early_ok st" "load_ok (LoadSettled result)"
  shows "queue_ok (load_settled cfg ev cv result st) \<and> early_ok (load_settled cfg ev cv result st)"
proof (cases "cl_loading st = LoadPending")
  case True
  then have e: "\<not> cl_synced st" "set (map oe_id (cl_outbox st)) \<subseteq> {None}" "cl_started st"
    using assms(2) by (auto simp: early_ok_def early_def connecting_def)
  have r: "queue_ok (with_restored cfg ev p st) \<and> cl_started (with_restored cfg ev p st)" if "result = Loaded (Some p)" for p
  proof -
    have "map oe_id (restored_entries cfg ev (cl_nextKey st) (ps_outbox p)) = map po_id (ps_outbox p)"
      by (rule nth_equalityI) (simp_all add: restored_entries_def nth_enumerate_eq split_def)
    then have "ids_wf (ps_confirmedLmid p) (map oe_id (cl_outbox (with_restored cfg ev p st)))"
      using ids_wf_append_None [OF _ e(2), of "ps_confirmedLmid p" "map po_id (ps_outbox p)"] assms(3) that
      by (simp add: with_restored_def)
    moreover have "\<forall>e \<in> set (restored_entries cfg ev (cl_nextKey st) (ps_outbox p)). \<not> oe_timer e"
      by (auto simp: restored_entries_def)
    ultimately show ?thesis
      using assms(1) e keys_ok_restored [of st cfg ev p]
      by (auto simp: queue_ok_def ids_ok_def trace_ok_def with_restored_def)
  qed
  have "queue_ok (snd (hydrate cfg ev cv result st)) \<and> cl_started (snd (hydrate cfg ev cv result st))"
    using hydrate_split [of st cfg ev cv result]
  proof (elim disjE exE conjE)
    assume "quiet st (snd (hydrate cfg ev cv result st))"
    then show ?thesis using queue_ok_quiet [OF assms(1)] e(3) by (simp add: quiet_def)
  next
    fix p assume h: "result = Loaded (Some p)" "quiet (with_restored cfg ev p st) (snd (hydrate cfg ev cv result st))"
    have "queue_ok (snd (hydrate cfg ev cv result st))" by (rule queue_ok_quiet [OF conjunct1 [OF r [OF h(1)]] h(2)])
    moreover have "cl_started (snd (hydrate cfg ev cv result st))" using r [OF h(1)] h(2) by (simp add: quiet_def)
    ultimately show ?thesis ..
  qed
  then show ?thesis
    using True by (simp add: load_settled_def split_def Let_def queue_ok_def keys_ok_def ids_ok_def trace_ok_def early_ok_def early_def)
qed (use assms in \<open>simp add: load_settled_def\<close>)

lemma queue_ok_finish:
  assumes "queue_ok st" "early_ok st"
  shows "queue_ok (finish_start cfg ev st) \<and> early_ok (finish_start cfg ev st)"
proof (cases "cl_loading st")
  case (LoadDone b)
  define s1 where "s1 = st\<lparr>cl_loading := NotLoading, cl_hydrating := False\<rparr>"
  define s2 where "s2 = settleHydrated b (if cl_outbox s1 \<noteq> [] then persistOutbox cfg s1 else s1)"
  have f: "finish_start cfg ev st = (if cl_stopped s2 then s2 else connect cfg ev s2)"
    by (simp add: finish_start_def LoadDone Let_def s2_def s1_def)
  have "queue_ok s1" using assms(1) by (simp add: s1_def queue_ok_def keys_ok_def ids_ok_def trace_ok_def)
  moreover have q: "quiet s1 s2"
    using quiet_trans [OF quiet_persistOutbox quiet_settleHydrated] quiet_settleHydrated by (simp add: s2_def)
  ultimately have "queue_ok s2" by (rule queue_ok_quiet)
  then have "queue_ok (finish_start cfg ev st)" using queue_ok_quiet [OF _ quiet_connect] by (simp add: f)
  moreover have "phase (finish_start cfg ev st) = phase s1"
    using phase_quiet [OF q] phase_quiet [OF quiet_connect] by (simp add: f)
  then have "early_ok (finish_start cfg ev st)"
    using assms(2) LoadDone by (simp add: early_ok_def early_def phase_def s1_def)
  ultimately show ?thesis by simp
qed (use assms in \<open>simp_all add: finish_start_def\<close>)

lemma queue_ok_start:
  assumes "queue_ok st" "early_ok st"
  shows "queue_ok (snd (start cfg ev st)) \<and> early_ok (snd (start cfg ev st))"
proof (cases "cl_destroyed st \<or> cl_started st")
  case False
  define s where "s = setStatus Connecting (st\<lparr>cl_started := True\<rparr>)"
  have q1: "queue_ok s" unfolding s_def setStatus_def using assms(1) by (simp add: queue_ok_def keys_ok_def ids_ok_def trace_ok_def)
  have ph: "phase s = (True, cl_loading st)" by (simp add: s_def setStatus_def phase_def)
  have e: "\<not> connecting st" "set (map oe_id (cl_outbox st)) \<subseteq> {None}" "cl_loading st = NotLoading"
    using assms(2) False by (auto simp: early_ok_def early_def)
  show ?thesis
  proof (cases "co_store cfg")
    case True
    then have r: "snd (start cfg ev st) = effect CLoad (s\<lparr>cl_hydrating := True, cl_loading := LoadPending\<rparr>)"
      using False by (simp add: start_def Let_def s_def)
    have "\<not> connecting s" using e(1) by (auto simp: s_def setStatus_def connecting_def)
    then have "early_ok (snd (start cfg ev st))"
      using e(2) by (auto simp: r early_ok_def connecting_def s_def setStatus_def)
    then show ?thesis using q1 by (simp add: r queue_ok_def keys_ok_def ids_ok_def trace_ok_def)
  next
    case no: False
    then have r: "snd (start cfg ev st) = connect cfg ev (settleHydrated False s)"
      using False by (simp add: start_def Let_def s_def)
    have "quiet s (snd (start cfg ev st))" unfolding r by (rule quiet_trans [OF quiet_settleHydrated quiet_connect])
    then show ?thesis
      using queue_ok_quiet [OF q1] phase_quiet ph e(3) by (auto simp: early_ok_def early_def phase_def)
  qed
qed (use assms in \<open>auto simp: start_def\<close>)

lemma phase_disconnect: "phase (onDisconnect cfg ev code st) = phase st"
  using disconnect_split [of st cfg ev code] phase_quiet phase_fatal by metis

lemma queue_ok_event:
  assumes "co_store cfg" "queue_ok st" "early_ok st" "load_ok e"
  shows "queue_ok (client_event cfg ev cv e st) \<and> early_ok (client_event cfg ev cv e st)"
proof -
  note E = early_busy [OF assms(3)] and Q = queue_ok_quiet [OF assms(2)]
  have busy: "queue_ok st' \<and> early_ok st'" if "quiet st st'" "connecting st" for st'
    using that Q E phase_quiet by blast
  have calm: "queue_ok st' \<and> early_ok st'" if "quiet st st'" "\<not> connecting st \<Longrightarrow> \<not> connecting st'" for st'
    using that Q early_quiet [OF assms(3) that(1)] by blast
  show ?thesis
  proof (cases e)
    case (SocketMessage s raw)
    show ?thesis
    proof (cases "cl_socket st = Some s")
      case True
      define t where "t = st\<lparr>cl_lastFrameAt := ce_now ev\<rparr>"
      have t: "queue_ok t" "phase t = phase st"
        using assms(2) by (simp_all add: t_def queue_ok_def keys_ok_def ids_ok_def trace_ok_def phase_def)
      have "connecting st" using True by (simp add: connecting_def)
      then show ?thesis
        using True t E queue_ok_message [OF t(1)] phase_message
        by (auto simp: SocketMessage onMessage_def t_def [symmetric] split: option.splits)
    qed (use assms in \<open>simp add: SocketMessage\<close>)
  next
    case (SocketClose s code)
    show ?thesis
    proof (cases "cl_socket st = Some s")
      case True
      then have "connecting st" by (simp add: connecting_def)
      moreover have "queue_ok (onDisconnect cfg ev code st)"
        using disconnect_split [of st cfg ev code] Q queue_ok_fatal by metis
      ultimately show ?thesis using True E phase_disconnect by (simp add: SocketClose)
    qed (use assms in \<open>simp add: SocketClose\<close>)
  next
    case (ConfirmTimeout k)
    then show ?thesis using assms by (auto simp: confirm_timeout_def queue_ok_def trace_ok_def)
  next
    case PushMicrotask
    have "queue_ok (st\<lparr>cl_flushScheduled := False\<rparr>)" "early_ok (st\<lparr>cl_flushScheduled := False\<rparr>)"
      using assms(2,3) by (simp_all add: queue_ok_def keys_ok_def ids_ok_def trace_ok_def early_ok_def early_def connecting_def)
    then show ?thesis using assms queue_ok_flushPush flushPush_early by (simp add: PushMicrotask push_microtask_def)
  next
    case PersistMicrotask
    have "queue_ok (persist_microtask st)"
      using assms(2) by (simp add: persist_microtask_def Let_def queue_ok_def keys_ok_def ids_ok_def trace_ok_def)
    moreover have "early_ok (persist_microtask st)"
      using assms(3) by (auto simp: persist_microtask_def Let_def early_ok_def early_def connecting_def)
    ultimately show ?thesis using assms by (simp add: PersistMicrotask)
  next
    case RetryTimer
    then show ?thesis using assms queue_ok_flushPush flushPush_early by (simp add: retry_push_def)
  next
    case (SocketBinary s)
    have "quiet st (st\<lparr>cl_lastFrameAt := t\<rparr>)" "connecting (st\<lparr>cl_lastFrameAt := t\<rparr>) = connecting st" for t
      by (simp_all add: quiet_def connecting_def)
    then show ?thesis using assms(2,3) calm by (simp add: SocketBinary)
  next
    case Destroy
    have "queue_ok (st\<lparr>cl_destroyed := True\<rparr>)" "early_ok (st\<lparr>cl_destroyed := True\<rparr>)"
      using assms(2,3) by (simp_all add: queue_ok_def keys_ok_def ids_ok_def trace_ok_def early_ok_def early_def connecting_def)
    then show ?thesis using assms queue_ok_shutdown shutdown_early by (simp add: Destroy destroy_def)
  next
    case (TokenSettled epoch token)
    have "connecting st" if "CAskToken epoch \<in> set (cl_effects st)" using that by (auto simp: connecting_def)
    then show ?thesis using assms busy [OF quiet_token_settled] by (simp add: TokenSettled)
  next
    case (SocketOpen s)
    have "connecting st" if "cl_socket st = Some s" using that by (simp add: connecting_def)
    then show ?thesis using assms busy [OF quiet_socket_open] by (simp add: SocketOpen)
  next
    case ReconnectTimer
    have "connecting st" if "cl_reconnectTimer st" using that by (simp add: connecting_def)
    then show ?thesis using assms busy [OF quiet_connect] by (simp add: ReconnectTimer)
  next
    case HeartbeatTimer
    show ?thesis
    proof (cases "cl_socket st")
      case None
      then show ?thesis using assms by (simp add: HeartbeatTimer heartbeat_tick_def)
    next
      case (Some s)
      then show ?thesis using busy [OF quiet_heartbeat_tick] by (simp add: HeartbeatTimer connecting_def)
    qed
  next
    case Online
    show ?thesis
    proof (cases "cl_status st = Reconnecting")
      case True
      then show ?thesis using busy [OF quiet_wake_client] by (simp add: Online connecting_def)
    qed (use assms in \<open>simp add: Online wake_client_def\<close>)
  next
    case (RegisterTable t)
    then show ?thesis using calm [OF quiet_registerTable] connecting_registerTable by simp
  next
    case (UnregisterTable t)
    have "connecting (unregisterTable t st) = connecting st" by (simp add: unregisterTable_def connecting_def)
    then show ?thesis using calm [OF quiet_unregisterTable] by (simp add: UnregisterTable)
  qed (use assms queue_ok_start queue_ok_load queue_ok_finish queue_ok_mutate mutate_early queue_ok_rawMutate rawMutate_early
      calm [OF quiet_presenceSet] calm [OF quiet_presenceUpdate] calm [OF quiet_presence_timer] in simp_all)
qed

section \<open>Histories of a client\<close>

inductive client_history :: "SyncClientOptions \<Rightarrow> CollectionViews \<Rightarrow> Client \<Rightarrow> bool" for cfg cv where
  created: "client_history cfg cv new_client"
| event: "client_history cfg cv st \<Longrightarrow> load_ok e \<Longrightarrow> client_history cfg cv (client_event cfg ev cv e st)"

lemma history_keys: "client_history cfg cv st \<Longrightarrow> keys_ok st"
proof (induction rule: client_history.induct)
  case created
  then show ?case by (auto simp: keys_ok_def new_client_def settled_keys_def)
qed (rule keys_ok_event)

lemma history_queue:
  assumes "co_store cfg"
  shows "client_history cfg cv st \<Longrightarrow> queue_ok st \<and> early_ok st"
proof (induction rule: client_history.induct)
  case created
  have "keys_ok new_client" by (rule history_keys [OF client_history.created])
  then show ?case
    by (simp add: queue_ok_def ids_ok_def trace_ok_def early_ok_def early_def connecting_def new_client_def saves_def pushes_def)
next
  case (event st e ev)
  then show ?case using queue_ok_event [OF assms] by blast
qed

text \<open>
  C14: A mutation the client queued is never lost and settles at most once, with or without a
  store: in every history the mutations queued so far (one key each) are exactly those still in
  the outbox and those that were settled, no mutation is both, and none was settled twice.
\<close>

theorem mutations_settle_once:
  assumes "client_history cfg cv st"
  shows "distinct (settled_keys (cl_effects st)) \<and> distinct (map oe_key (cl_outbox st)) \<and>
    set (settled_keys (cl_effects st)) \<inter> oe_key ` set (cl_outbox st) = {} \<and>
    set (settled_keys (cl_effects st)) \<union> oe_key ` set (cl_outbox st) = {..<cl_nextKey st}"
  using history_keys [OF assms] by (simp add: keys_ok_def)

text \<open>
  C13: With a durable store the client's mutation sequence has no gap. In every history, over
  reloads, reconnects, rebases and new backends: every push ever sent carries consecutive ids;
  once synced, what the client would push is the whole outbox in order, numbered from the
  confirmed LMID on; and every outbox it saved is one a later client may start from.
\<close>

theorem pushes_are_gapless:
  assumes "co_store cfg" "client_history cfg cv st"
  shows "(\<forall>ms \<in> set (pushes (cl_effects st)). gapless ms) \<and>
    (\<forall>(l, ids) \<in> set (saves (cl_effects st)). ids_wf l ids) \<and>
    (cl_synced st \<longrightarrow>
       map mut_id (push_mutations st) = [cl_confirmedLmid st + 1..cl_confirmedLmid st + int (length (cl_outbox st))] \<and>
       map mut_seed (push_mutations st) = map oe_seed (cl_outbox st))"
proof -
  have q: "queue_ok st" using history_queue [OF assms] by simp
  have "map mut_id (push_mutations st) = [cl_confirmedLmid st + 1..cl_confirmedLmid st + int (length (cl_outbox st))] \<and>
      map mut_seed (push_mutations st) = map oe_seed (cl_outbox st)" if "cl_synced st"
  proof -
    have i: "ids_wf (cl_confirmedLmid st) (map oe_id (cl_outbox st))" "None \<notin> set (map oe_id (cl_outbox st))"
      using q that by (simp_all add: queue_ok_def ids_ok_def)
    note p = push_is_outbox [OF i]
    have "map mut_seed (push_mutations st) = map oe_seed (cl_outbox st)" unfolding conjunct2 [OF p] by (simp add: comp_def)
    then show ?thesis using p by blast
  qed
  with q show ?thesis by (simp add: queue_ok_def trace_ok_def)
qed

section \<open>A client is a replica\<close>

lemma shown_hooks:
  "shown_rows (effs @ map (CHook t) cs) = (\<lambda>(t', i). if t' = t then fold hook_effect cs (\<lambda>i. shown_rows effs (t, i)) i else shown_rows effs (t', i))"
proof (induction cs rule: rev_induct)
  case (snoc c cs)
  show ?case
    by (simp add: append_assoc [symmetric] snoc.IH hook_step_def fun_eq_iff del: append_assoc)
qed auto

lemma fold_effects: "fold (\<lambda>c. effect (f c)) cs st = st\<lparr>cl_effects := cl_effects st @ map f cs\<rparr>"
  by (induction cs arbitrary: st) (simp_all add: effect_def)

lemma table_txn_state: "table_txn t cs st = st\<lparr>cl_effects := cl_effects st @ map (CHook t) (HBegin # cs @ [HCommit])\<rparr>"
  by (simp add: table_txn_def fold_effects effect_def)

lemma shown_txn:
  "shown_rows (cl_effects (table_txn t cs st)) =
     (\<lambda>(t', i). if t' = t then fold hook_effect cs (\<lambda>i. shown_rows (cl_effects st) (t, i)) i else shown_rows (cl_effects st) (t', i))"
  unfolding table_txn_state by (simp add: shown_hooks fun_eq_iff del: list.map)

lemma shown_txns:
  "distinct ts \<Longrightarrow> shown_rows (cl_effects (fold (\<lambda>t. table_txn t (cs t)) ts st)) =
     (\<lambda>(t, i). if t \<in> set ts then fold hook_effect (cs t) (\<lambda>i. shown_rows (cl_effects st) (t, i)) i else shown_rows (cl_effects st) (t, i))"
proof (induction ts arbitrary: st)
  case (Cons t ts)
  then have "t \<notin> set ts" "distinct ts" by simp_all
  have "shown_rows (cl_effects (fold (\<lambda>t. table_txn t (cs t)) (t # ts) st)) (t', i) =
      (if t' \<in> set (t # ts) then fold hook_effect (cs t') (\<lambda>i. shown_rows (cl_effects st) (t', i)) i
       else shown_rows (cl_effects st) (t', i))" for t' i
    using Cons.IH [OF \<open>distinct ts\<close>, of "table_txn t (cs t) st"] \<open>t \<notin> set ts\<close>
    by (cases "t' = t") (simp_all add: shown_txn)
  then show ?case by (simp add: fun_eq_iff)
qed (simp add: fun_eq_iff)

lemma txns_cursor: "cl_cursor (fold (\<lambda>t. table_txn t (cs t)) ts st) = cl_cursor st \<and>
    cl_tables (fold (\<lambda>t. table_txn t (cs t)) ts st) = cl_tables st \<and>
    cl_confirmedLmid (fold (\<lambda>t. table_txn t (cs t)) ts st) = cl_confirmedLmid st"
  by (induction ts arbitrary: st) (simp_all add: table_txn_state)

text \<open>The hook calls of a table are the operations on it.\<close>

lemma table_calls_effect:
  "ClearOp \<notin> set ops \<Longrightarrow> fold hook_effect (table_calls ops t) (\<lambda>i. tab (t, i)) i = apply_ops ops tab (t, i)"
proof (induction ops arbitrary: tab)
  case (Cons op ops)
  have r: "apply_ops (op # ops) tab = apply_ops ops (apply_op op tab)" by (simp add: apply_ops_def)
  have c: "table_calls (op # ops) t = (if op_table op = Some t then op_call op else []) @ table_calls ops t"
    by (simp add: table_calls_def)
  have o: "(\<lambda>i. apply_op op tab (t, i)) =
      fold hook_effect (if op_table op = Some t then op_call op else []) (\<lambda>i. tab (t, i))"
    using Cons.prems by (cases op) (auto simp: fun_eq_iff)
  show ?case using Cons.IH [of "apply_op op tab"] Cons.prems by (simp add: r c o)
qed (simp add: table_calls_def apply_ops_def)

lemma untouched_table: "ClearOp \<notin> set ops \<Longrightarrow> t \<notin> set (List.map_filter op_table ops) \<Longrightarrow> apply_ops ops tab (t, i) = tab (t, i)"
proof (induction ops arbitrary: tab)
  case (Cons op ops)
  have "apply_ops (op # ops) tab = apply_ops ops (apply_op op tab)" by (simp add: apply_ops_def)
  moreover have "apply_op op tab (t, i) = tab (t, i)" using Cons.prems by (cases op) (auto simp: List.map_filter_simps)
  moreover have "t \<notin> set (List.map_filter op_table ops)" using Cons.prems by (cases op) (auto simp: List.map_filter_simps)
  ultimately show ?case using Cons by simp
qed (simp add: apply_ops_def)

definition on_tables :: "jstr list \<Rightarrow> table \<Rightarrow> table" where
  "on_tables ts tab = (\<lambda>(t, i). if t \<in> set ts then tab (t, i) else None)"

lemma apply_tables_shown:
  assumes "ClearOp \<notin> set (tl ops)" "distinct (cl_tables st)"
  shows "on_tables (cl_tables st) (shown_rows (cl_effects (apply_tables ops st))) =
      on_tables (cl_tables st) (apply_ops ops (shown_rows (cl_effects st))) \<and>
    cl_cursor (apply_tables ops st) = cl_cursor st \<and> cl_tables (apply_tables ops st) = cl_tables st"
proof (cases "ClearOp \<in> set ops")
  case True
  then obtain ops' where o: "ops = ClearOp # ops'" "ClearOp \<notin> set ops'" using assms(1) by (cases ops) auto
  have c: "table_calls ops t = table_calls ops' t" for t by (simp add: o table_calls_def)
  have "apply_ops ops (shown_rows (cl_effects st)) = apply_ops ops' (\<lambda>_. None)" by (simp add: o apply_ops_def)
  moreover have "apply_tables ops st = fold (\<lambda>t. table_txn t (HTruncate # table_calls ops' t)) (cl_tables st) st"
    using True by (simp add: apply_tables_def c)
  ultimately show ?thesis
    using table_calls_effect [OF o(2), where tab = "\<lambda>_. None"]
    by (simp add: shown_txns [OF assms(2)] txns_cursor on_tables_def fun_eq_iff)
next
  case False
  define ts where "ts = filter (\<lambda>t. t \<in> set (cl_tables st)) (op_tables ops)"
  have d: "distinct ts" by (simp add: ts_def op_tables_def)
  have m: "t \<in> set ts \<longleftrightarrow> t \<in> set (cl_tables st) \<and> t \<in> set (List.map_filter op_table ops)" for t
    by (auto simp: ts_def op_tables_def)
  have "apply_tables ops st = fold (\<lambda>t. table_txn t (table_calls ops t)) ts st"
    using False by (simp add: apply_tables_def ts_def)
  then show ?thesis
    using table_calls_effect [OF False] untouched_table [OF False] m
    by (simp add: shown_txns [OF d] txns_cursor on_tables_def fun_eq_iff)
qed

text \<open>The rest of \<open>applyPoke\<close> leaves the rows alone.\<close>

lemma shown_ready: "shown_rows (cl_effects (markAllReady st)) = shown_rows (cl_effects st) \<and> cl_cursor (markAllReady st) = cl_cursor st \<and>
    cl_tables (markAllReady st) = cl_tables st"
proof -
  have "same_view s (effect (CHook t HMarkReady) s)" for s t by (auto simp: same_view_def hook_step_def)
  then have "same_view st (markAllReady st)" unfolding markAllReady_def by (rule view_fold)
  then show ?thesis by (simp add: same_view_def)
qed

lemma view_applyPoke:
  "shown_rows (cl_effects (applyPoke cfg poke cur st)) = shown_rows (cl_effects (apply_tables (pb_patch poke) st)) \<and>
   cl_cursor (applyPoke cfg poke cur st) = Some cur \<and>
   cl_tables (applyPoke cfg poke cur st) = cl_tables (apply_tables (pb_patch poke) st)"
proof -
  define s0 where "s0 = apply_tables (pb_patch poke) st"
  define s1 where "s1 = settleOutbox cfg (pb_results poke) (confirm_poke cfg poke cur s0)"
  define s2 where "s2 = (if cl_needsRebase s1 then rebaseOutboxIds cfg (s1\<lparr>cl_needsRebase := False\<rparr>) else s1)"
  define s3 where "s3 = schedulePush (become_synced cfg s2)"
  have c: "shown_rows (cl_effects (confirm_poke cfg poke cur s0)) = shown_rows (cl_effects s0)"
      "cl_cursor (confirm_poke cfg poke cur s0) = Some cur" "cl_tables (confirm_poke cfg poke cur s0) = cl_tables s0"
    by (auto simp: confirm_poke_def Let_def rebaseOutboxIds_def split: option.splits)
  have 1: "shown_rows (cl_effects s1) = shown_rows (cl_effects s0)" "cl_cursor s1 = Some cur" "cl_tables s1 = cl_tables s0"
    by (simp_all add: s1_def settleOutbox_list c)
  have 2: "shown_rows (cl_effects s2) = shown_rows (cl_effects s1)" "cl_cursor s2 = cl_cursor s1" "cl_tables s2 = cl_tables s1"
    by (simp_all add: s2_def rebaseOutboxIds_def)
  have "same_view s2 (setStatus Synced (s2\<lparr>cl_synced := True, cl_attempt := 0, cl_refreshStreak := 0\<rparr>))"
    by (simp add: setStatus_def same_view_def hook_step_def)
  then have 3: "shown_rows (cl_effects s3) = shown_rows (cl_effects s2)" "cl_cursor s3 = cl_cursor s2" "cl_tables s3 = cl_tables s2"
    by (simp_all add: s3_def schedulePush_def become_synced_def assignPendingIds_def shown_ready same_view_def)
  have a: "applyPoke cfg poke cur st =
      (if co_store cfg then effect (CApplyPoke \<lparr>pp_ops = row_ops_of (pb_patch poke), pp_clear = (ClearOp \<in> set (pb_patch poke)),
         pp_cursor = cur, pp_schemaVersion = app_version (co_app cfg), pp_confirmedLmid = cl_confirmedLmid s3,
         pp_outbox = outboxSnapshot s3\<rparr>) s3 else s3)"
    unfolding applyPoke_def Let_def s0_def s1_def s2_def s3_def ..
  show ?thesis unfolding a using 1 2 3 by (simp add: s0_def hook_step_def)
qed

text \<open>Receiving the parts of a poke collects its operations.\<close>

lemma parts_collected:
  assumes "cl_poke st = Some b" "pb_pokeId b = pid"
  shows "\<exists>st' b'. fold (onServerMsg cfg ev) (part_msgs pid l rs left groups) st = st' \<and> cl_poke st' = Some b' \<and>
    pb_pokeId b' = pid \<and> pb_baseMismatch b' = pb_baseMismatch b \<and> pb_patch b' = pb_patch b @ concat groups \<and>
    same_view st st'"
  using assms
proof (induction groups arbitrary: st b l rs left)
  case (Cons g groups)
  define st1 where "st1 = onServerMsg cfg ev (PokePart pid g (Some (int (left - length g))) l (if rs = [] then None else Some rs)) st"
  obtain b1 where b1: "cl_poke st1 = Some b1" "pb_pokeId b1 = pid" "pb_baseMismatch b1 = pb_baseMismatch b"
      "pb_patch b1 = pb_patch b @ g" and v: "same_view st st1"
    using Cons.prems by (auto simp: st1_def Let_def same_view_def hook_step_def)
  from Cons.IH [OF b1(1,2), of None "[]" "left - length g"] obtain st' b' where s:
      "fold (onServerMsg cfg ev) (part_msgs pid None [] (left - length g) groups) st1 = st'" "cl_poke st' = Some b'"
      "pb_pokeId b' = pid" "pb_baseMismatch b' = pb_baseMismatch b1" "pb_patch b' = pb_patch b1 @ concat groups"
      "same_view st1 st'"
    by blast
  show ?case
    using s b1 view_trans [OF v s(6)] by (intro exI [of _ st'] exI [of _ b']) (simp add: st1_def)
qed (simp add: same_view_def)

lemma view_requestResync: "same_view st (requestResync cfg st)"
  by (auto simp: requestResync_def sendHello_def client_send_def same_view_def hook_step_def split: option.splits)

text \<open>
  C4: The client implements the abstract replica. When the frames of a poke reach it, its cursor
  and the rows it has given to its registered tables become what \<open>take_poke\<close> makes of them: a
  poke based on its cursor, or one that clears, is applied; any other is dropped and changes
  neither.
\<close>

theorem client_takes_poke:
  assumes "poke_shape (base, concat groups, cur)" "distinct (cl_tables st)"
    and "st' = fold (onServerMsg cfg ev) (poke_msgs pid base groups l rs cur) st"
    and "take_poke (base, concat groups, cur) (cl_cursor st, shown_rows (cl_effects st)) = (r', tab')"
  shows "cl_cursor st' = r' \<and> on_tables (cl_tables st) (shown_rows (cl_effects st')) = on_tables (cl_tables st) tab'"
proof -
  define st1 where "st1 = onServerMsg cfg ev (PokeStart pid base) st"
  define b where "b = \<lparr>pb_pokeId = pid, pb_baseMismatch = (\<not> cursorEquals base (cl_cursor st)), pb_patch = [],
      pb_lmids = [], pb_results = []\<rparr>"
  have b: "cl_poke st1 = Some b" "pb_pokeId b = pid" by (simp_all add: st1_def b_def)
  have v1: "same_view st st1" by (simp add: st1_def same_view_def)
  from parts_collected [OF b, of cfg ev l rs "length (concat groups)" groups] obtain st2 b2 where 2:
      "fold (onServerMsg cfg ev) (part_msgs pid l rs (length (concat groups)) groups) st1 = st2" "cl_poke st2 = Some b2"
      "pb_pokeId b2 = pid" "pb_baseMismatch b2 = (\<not> cursorEquals base (cl_cursor st))" "pb_patch b2 = concat groups"
      "same_view st1 st2"
    by (auto simp: b_def)
  have v: "cl_cursor st2 = cl_cursor st" "cl_tables st2 = cl_tables st" "shown_rows (cl_effects st2) = shown_rows (cl_effects st)"
    using view_trans [OF v1 2(6)] by (simp_all add: same_view_def)
  define s where "s = st2\<lparr>cl_poke := None\<rparr>"
  have end': "st' = (if \<not> accepts (cl_cursor st) (base, concat groups, cur) then requestResync cfg s else applyPoke cfg b2 cur s)"
  proof -
    have "st' = onServerMsg cfg ev (PokeEnd pid cur NoMore) st2"
      unfolding assms(3) poke_msgs_def 2(1) [symmetric] st1_def by (simp del: onServerMsg.simps)
    then show ?thesis using 2(2-5) by (simp add: s_def Let_def cursorEquals_iff)
  qed
  show ?thesis
  proof (cases "accepts (cl_cursor st) (base, concat groups, cur)")
    case True
    have "ClearOp \<notin> set (tl (pb_patch b2))" using assms(1) 2(5) by simp
    note A = apply_tables_shown [OF this, of s] and V = view_applyPoke [of cfg b2 cur s]
    have "shown_rows (cl_effects s) = shown_rows (cl_effects st)" "cl_tables s = cl_tables st" using v by (simp_all add: s_def)
    with A V assms(2,4) True show ?thesis by (simp add: end' 2(5))
  next
    case False
    then show ?thesis
      using view_requestResync [of s cfg] v assms(4) by (simp add: end' same_view_def s_def)
  qed
qed

section \<open>A timed-out id\<close>

lemma notifyPending_mono: "set (cl_effects st) \<subseteq> set (cl_effects (notifyPending st))"
  by (auto simp: notifyPending_def Let_def)

lemma enqueue_effects:
  assumes "enqueue cfg name args seed st = (outcome, st')"
  shows "set (cl_effects st) \<subseteq> set (cl_effects st')"
proof -
  have m: "set (cl_effects st) \<subseteq> set (cl_effects (notifyPending (st\<lparr>cl_nextKey := n, cl_outbox := es\<rparr>)))" for n es
    using notifyPending_mono [of "st\<lparr>cl_nextKey := n, cl_outbox := es\<rparr>"] by simp
  show ?thesis
    using assms by (auto simp: enqueue_def Let_def schedulePush_def split: if_splits intro: m [THEN subsetD])
qed

text \<open>
  In a client without a store the sequence can lie. The one mutation in its outbox was
  pushed under id \<open>n\<close>, the server applied it, but its confirmation is late: the timeout rejects
  it and forgets it. The next mutation gets the id \<open>n\<close> again. When the confirmation of \<open>n\<close> then
  arrives (after a reconnect, say), it settles that second mutation as a success, which was
  never sent.
\<close>

theorem timed_out_id_reused:
  assumes "\<not> co_store cfg" "cl_synced st" "\<not> cl_stopped st" "cl_status st \<noteq> FatalStatus"
    and "cl_outbox st = [a]" "oe_key a < cl_nextKey st" "oe_id a = Some n" "oe_timer a" "n = cl_confirmedLmid st + 1"
    and "enqueue cfg name args seed (confirm_timeout cfg (oe_key a) st) = (outcome, st2)"
    and "map_of (pb_lmids poke) (co_clientId cfg) = Some n" "pb_results poke = []"
    and "\<forall>c. cl_cursor st = Some c \<longrightarrow> backendId c = backendId cur"
  shows "outcome = Queued (cl_nextKey st) \<and> map oe_id (cl_outbox st2) = [Some n] \<and>
    CSettled (oe_key a) (Some (MutationError (js ''Timeout''))) \<in> set (cl_effects st2) \<and>
    CSettled (cl_nextKey st) None \<in> set (cl_effects (applyPoke cfg poke cur st2)) \<and>
    pushes (cl_effects (applyPoke cfg poke cur st2)) = pushes (cl_effects st)"
proof -
  let ?e = "\<lparr>oe_key = cl_nextKey st, oe_id = Some n, oe_name = name, oe_args = args, oe_seed = seed, oe_timer = True\<rparr>"
  have e: "outcome = Queued (cl_nextKey st)" "cl_outbox st2 = [?e]" "cl_synced st2" "cl_cursor st2 = cl_cursor st"
      "cl_confirmedLmid st2 = cl_confirmedLmid st" "pushes (cl_effects st2) = pushes (cl_effects st)"
      "CSettled (oe_key a) (Some (MutationError (js ''Timeout''))) \<in> set (cl_effects st2)"
  proof -
    define st1 where "st1 = settleEntry cfg (oe_key a) (Some (MutationError (js ''Timeout''))) st"
    have 1: "cl_outbox st1 = []" "cl_synced st1" "\<not> cl_stopped st1" "cl_status st1 \<noteq> FatalStatus" "cl_nextKey st1 = cl_nextKey st"
        "cl_cursor st1 = cl_cursor st" "cl_confirmedLmid st1 = cl_confirmedLmid st" "pushes (cl_effects st1) = pushes (cl_effects st)"
      using assms(2-5) by (simp_all add: st1_def del: js_simps)
    have t: "CSettled (oe_key a) (Some (MutationError (js ''Timeout''))) \<in> set (cl_effects st1)"
      using assms(5) by (simp add: st1_def settleEntry_def notifyPending_def Let_def del: js_simps)
    have "confirm_timeout cfg (oe_key a) st = st1" using assms(5,8) by (simp add: confirm_timeout_def st1_def del: js_simps)
    then have q: "(outcome, st2) = enqueue cfg name args seed st1" using assms(10) by simp
    then have r: "outcome = Queued (cl_nextKey st)" "cl_outbox st2 = [?e]" "cl_synced st2" "cl_cursor st2 = cl_cursor st"
        "cl_confirmedLmid st2 = cl_confirmedLmid st" "pushes (cl_effects st2) = pushes (cl_effects st)"
      using 1 assms(1,9) by (simp_all add: enqueue_def Let_def schedulePush_def nextMutationId_def highest_id_def)
    have "set (cl_effects st1) \<subseteq> set (cl_effects st2)"
      by (rule enqueue_effects [OF q [symmetric]])
    with r t show "outcome = Queued (cl_nextKey st)" "cl_outbox st2 = [?e]" "cl_synced st2" "cl_cursor st2 = cl_cursor st"
        "cl_confirmedLmid st2 = cl_confirmedLmid st" "pushes (cl_effects st2) = pushes (cl_effects st)"
        "CSettled (oe_key a) (Some (MutationError (js ''Timeout''))) \<in> set (cl_effects st2)" by blast+
  qed
  define s0 where "s0 = apply_tables (pb_patch poke) st2"
  define s1 where "s1 = confirm_poke cfg poke cur s0"
  define s2 where "s2 = settleEntry cfg (cl_nextKey st) None s1"
  have q: "quiet st2 s0" unfolding s0_def by (rule quiet_apply_tables)
  have cur: "cl_cursor s0 = cl_cursor st2"
    unfolding s0_def by (simp add: apply_tables_def txns_cursor)
  have 1: "cl_outbox s1 = [?e]" "cl_confirmedLmid s1 = n" "pushes (cl_effects s1) = pushes (cl_effects st)"
  proof -
    have "\<not> (case cl_cursor s0 of None \<Rightarrow> False | Some c \<Rightarrow> backendId c \<noteq> backendId cur)"
      using assms(13) unfolding cur e(4) by (cases "cl_cursor st") auto
    moreover have "cl_confirmedLmid s0 < n" using q e(5) assms(9) by (simp add: quiet_def)
    ultimately have "s1 = s0\<lparr>cl_cursor := Some cur, cl_awaitingCatchUp := False, cl_confirmedLmid := n\<rparr>"
      using assms(11) by (simp add: s1_def confirm_poke_def Let_def)
    then show "cl_outbox s1 = [?e]" "cl_confirmedLmid s1 = n" "pushes (cl_effects s1) = pushes (cl_effects st)"
      using q e(2,6) by (simp_all add: quiet_def)
  qed
  have s2: "settleOutbox cfg (pb_results poke) s1 = s2"
    using 1 assms(12) by (simp add: settleOutbox_def s2_def error_of_def)
  have settled: "CSettled (cl_nextKey st) None \<in> set (cl_effects s2)" "pushes (cl_effects s2) = pushes (cl_effects st)" "cl_outbox s2 = []"
    using 1 by (simp_all add: s2_def) (simp add: settleEntry_def notifyPending_def Let_def)
  define s3 where "s3 = (if cl_needsRebase s2 then rebaseOutboxIds cfg (s2\<lparr>cl_needsRebase := False\<rparr>) else s2)"
  have 3: "cl_effects s3 = cl_effects s2" by (simp add: s3_def rebaseOutboxIds_def)
  have a: "applyPoke cfg poke cur st2 = schedulePush (become_synced cfg s3)"
    unfolding applyPoke_def Let_def s0_def [symmetric] s1_def [symmetric] s2 s3_def [symmetric] using assms(1) by simp
  have mono: "set (cl_effects s) \<subseteq> set (cl_effects (become_synced cfg s)) \<and> pushes (cl_effects (become_synced cfg s)) = pushes (cl_effects s)" for s
  proof -
    let ?t = "setStatus Synced (s\<lparr>cl_synced := True, cl_attempt := 0, cl_refreshStreak := 0\<rparr>)"
    have "quiet (s\<lparr>cl_synced := True, cl_attempt := 0, cl_refreshStreak := 0\<rparr>) (markAllReady ?t)"
      by (rule quiet_trans [OF quiet_setStatus quiet_markAllReady])
    moreover have "set (cl_effects ?t) \<subseteq> set (cl_effects (markAllReady ?t))"
      by (simp add: markAllReady_def fold_effects [of "\<lambda>t. CHook t HMarkReady"] subset_iff)
    ultimately show ?thesis by (auto simp: become_synced_def assignPendingIds_def quiet_def setStatus_def)
  qed
  show ?thesis
    using e settled 3 mono [of s3] by (auto simp: a schedulePush_def)
qed

section \<open>Witnesses\<close>

definition demo_options :: "bool \<Rightarrow> SyncClientOptions" where
  "demo_options store = \<lparr>co_app = demo_app, co_clientId = js ''c'', co_store = store, co_auth = None,
     co_authToken = NoToken, co_maxBackoffMs = None, co_pingIntervalMs = None, co_idleTimeoutMs = None,
     co_presenceThrottleMs = None\<rparr>"

definition demo_client_env :: ClientEnv where
  "demo_client_env = \<lparr>ce_now = 0, ce_socketOk = True, ce_hidden = False, ce_offline = False, ce_seeds = (\<lambda>_. js ''s'')\<rparr>"

definition demo_views :: CollectionViews where
  "demo_views = \<lparr>cv_appliers = (\<lambda>_. []), cv_takes = (\<lambda>_ _. True)\<rparr>"

definition run_events :: "bool \<Rightarrow> ClientEvent list \<Rightarrow> Client" where
  "run_events store es = fold (client_event (demo_options store) demo_client_env demo_views) es new_client"

lemma run_events_history: "list_all load_ok es \<Longrightarrow> client_history (demo_options store) demo_views (run_events store es)"
proof (induction es rule: rev_induct)
  case Nil
  show ?case by (simp add: run_events_def client_history.created)
next
  case (snoc e es)
  then have "client_history (demo_options store) demo_views (client_event (demo_options store) demo_client_env demo_views e (run_events store es))"
    by (intro client_history.event) simp_all
  then show ?case by (simp add: run_events_def)
qed

text \<open>Start, connect, queue a mutation, receive an empty poke, push.\<close>

definition demo_events :: "ClientEvent list" where
  "demo_events =
     [Start, LoadSettled (Loaded None), StartContinues, SocketOpen 0, RawMutate (js ''add'') (JNum (Fin 5)),
      SocketMessage 0 (Some (enc_server_msg (PokeStart (js ''p'') None))),
      SocketMessage 0 (Some (enc_server_msg (PokeEnd (js ''p'') \<lparr>backendId = js ''b'', cversion = 0\<rparr> NoMore))), PushMicrotask]"

lemma demo_pushed: "map (map mut_id) (pushes (cl_effects (run_events True demo_events))) = [[1]] \<and>
    cl_synced (run_events True demo_events) \<and> map oe_key (cl_outbox (run_events True demo_events)) = [0]"
  by code_simp

lemma demo_history: "client_history (demo_options True) demo_views (run_events True demo_events)"
  by (rule run_events_history) (simp add: demo_events_def)

theorem mutations_settle_once_witness:
  "set (settled_keys (cl_effects (run_events True demo_events))) \<union> oe_key ` set (cl_outbox (run_events True demo_events)) =
     {..<cl_nextKey (run_events True demo_events)} \<and> map oe_key (cl_outbox (run_events True demo_events)) = [0]"
  using mutations_settle_once [OF demo_history] demo_pushed by simp

theorem pushes_are_gapless_witness:
  "\<exists>ms. pushes (cl_effects (run_events True demo_events)) = [ms] \<and> gapless ms \<and> ms \<noteq> []"
proof -
  obtain ms where ms: "pushes (cl_effects (run_events True demo_events)) = [ms]" "map mut_id ms = [1]"
    using demo_pushed by (auto simp: map_eq_Cons_conv)
  have "co_store (demo_options True)" by (simp add: demo_options_def)
  from pushes_are_gapless [OF this demo_history] ms show ?thesis by auto
qed

theorem client_takes_poke_witness:
  "\<exists>st' :: Client. cl_cursor st' = Some \<lparr>backendId = js ''b'', cversion = 1\<rparr> \<and>
     on_tables [js ''t''] (shown_rows (cl_effects st')) = (\<lambda>_. None)((js ''t'', js ''a'') := Some [])"
proof -
  define t c g where "t = js ''t''" and "c = \<lparr>backendId = js ''b'', cversion = 1\<rparr>" and "g = [[ClearOp], [PutOp t (js ''a'') []]]"
  define st where "st = new_client\<lparr>cl_tables := [t]\<rparr>"
  define st' where "st' = fold (onServerMsg (demo_options True) demo_client_env) (poke_msgs (js ''p'') None g None [] c) st"
  have sh: "poke_shape (None, concat g, c)" by (simp add: g_def)
  have ct: "cl_tables st = [t]" by (simp add: st_def)
  then have d: "distinct (cl_tables st)" by simp
  have tk: "take_poke (None, concat g, c) (cl_cursor st, shown_rows (cl_effects st)) =
      (Some c, (\<lambda>_. None)((t, js ''a'') := Some []))"
    by (simp add: new_client_def shown_rows_def apply_ops_def st_def g_def)
  have "on_tables [t] ((\<lambda>_. None)((t, js ''a'') := Some [])) = (\<lambda>_. None)((t, js ''a'') := Some [])"
    by (auto simp: on_tables_def fun_eq_iff)
  with client_takes_poke [OF sh d st'_def tk] show ?thesis
    unfolding ct by (intro exI [of _ st']) (simp only: t_def c_def simp_thms)
qed

definition demo_late :: Client where
  "demo_late = new_client\<lparr>cl_synced := True, cl_status := Synced, cl_nextKey := 1,
     cl_outbox := [\<lparr>oe_key = 0, oe_id = Some 1, oe_name = js ''add'', oe_args = JNull, oe_seed = js ''s'', oe_timer = True\<rparr>]\<rparr>"

theorem timed_out_id_reused_witness:
  "\<exists>st :: Client. CSettled 1 None \<in> set (cl_effects st) \<and> pushes (cl_effects st) = []"
proof -
  let ?a = "\<lparr>oe_key = 0, oe_id = Some 1, oe_name = js ''add'', oe_args = JNull, oe_seed = js ''s'', oe_timer = True\<rparr>"
  let ?poke = "\<lparr>pb_pokeId = js ''p'', pb_baseMismatch = False, pb_patch = [], pb_lmids = [(js ''c'', 1)], pb_results = []\<rparr>"
  obtain outcome st2 where q: "enqueue (demo_options False) (js ''add'') JNull (js ''z'') (confirm_timeout (demo_options False) (oe_key ?a) demo_late) = (outcome, st2)"
    by fastforce
  have h: "\<not> co_store (demo_options False)" "cl_synced demo_late" "\<not> cl_stopped demo_late" "cl_status demo_late \<noteq> FatalStatus"
      "cl_outbox demo_late = [?a]" "oe_key ?a < cl_nextKey demo_late" "oe_id ?a = Some 1" "oe_timer ?a" "1 = cl_confirmedLmid demo_late + 1"
      "map_of (pb_lmids ?poke) (co_clientId (demo_options False)) = Some 1" "pb_results ?poke = []"
      "\<forall>c. cl_cursor demo_late = Some c \<longrightarrow> backendId c = backendId \<lparr>backendId = js ''b'', cversion = 0\<rparr>"
      "cl_nextKey demo_late = 1" "pushes (cl_effects demo_late) = []"
    by (simp_all add: demo_options_def demo_late_def new_client_def pushes_def)
  from timed_out_id_reused [OF h(1-9) q h(10-12)] h(13,14) show ?thesis by (metis)
qed

end
