(* ===== verification/RoundTrip.thy ===== *)
theory RoundTrip
  imports Replicas ClientSpec
begin

text \<open>
  One round trip of the two halves of the engine: a synced client pushes its outbox, the workspace
  object applies it and pokes, the poke's messages reach the client. The client's own account of
  the run (client.ts) is matched against the object's log and rows (do.ts).
\<close>

section \<open>A gapless push\<close>

lemma applyMutation_logs:
  assumes "known (do_db st) (at_clientId a)" "applyMutation cfg ev a m st = Inr (st', err)"
  shows "do_sockets st' = do_sockets st \<and> lastMutationId (do_db st') = (lastMutationId (do_db st))(at_clientId a := mut_id m) \<and>
    (\<forall>c. known (do_db st') c = known (do_db st) c) \<and>
    (\<exists>e. db_log (do_db st') = db_log (do_db st) @ [e] \<and> lg_client e = at_clientId a \<and> lg_mutation e = mut_id m \<and>
       lg_name e = mut_name m \<and> lg_args e = json_value (mut_args m) \<and> lg_result e = err)"
  using assms(2) commit_fields [OF assms(1)]
  by (auto simp: applyMutation_def Let_def notifyCommitted_def emit_def split: sum.splits err.splits option.splits if_splits)

text \<open>The log entry of a mutation, and the result a poke carries for it.\<close>

definition logged_as :: "jstr \<Rightarrow> Mutation \<Rightarrow> LogEntry \<Rightarrow> bool" where
  "logged_as c m e \<longleftrightarrow> lg_client e = c \<and> lg_mutation e = mut_id m \<and> lg_name e = mut_name m \<and> lg_args e = json_value (mut_args m)"

definition result_of :: "LogEntry \<Rightarrow> MutationResult" where
  "result_of e = \<lparr>res_id = lg_mutation e, res_error = lg_result e\<rparr>"

lemma push_loop_gapless:
  assumes "known (do_db st) (at_clientId a)"
    and "map mut_id ms = [lmid + 1..lmid + int (length ms)]"
    and "r = push_loop cfg ev ws a ms st lmid results" "pl_thrown r = None"
  shows "do_sockets (pl_do r) = do_sockets st \<and> pl_lmid r = lmid + int (length ms) \<and>
    (\<exists>es. db_log (do_db (pl_do r)) = db_log (do_db st) @ es \<and> list_all2 (logged_as (at_clientId a)) ms es \<and>
       pl_results r = results @ map result_of es)"
  using assms
proof (induction ms arbitrary: st lmid results r)
  case (Cons m ms)
  have up: "[lmid + 1..lmid + int (length (m # ms))] = (lmid + 1) # [lmid + 1 + 1..lmid + 1 + int (length ms)]"
    by (subst upto_rec1) (simp_all add: add_ac)
  have m: "mut_id m = lmid + 1" "map mut_id ms = [mut_id m + 1..mut_id m + int (length ms)]"
    using Cons.prems(2) unfolding up by simp_all
  show ?case
  proof (cases "applyMutation cfg ev a m st")
    case (Inl e)
    then show ?thesis using Cons.prems(3,4) m(1) by simp
  next
    case (Inr x)
    obtain st1 err where x: "x = (st1, err)" by (cases x)
    define f :: "Counters \<Rightarrow> Counters" where "f = (\<lambda>c. if err \<noteq> None then c\<lparr>ct_mutationErrors := ct_mutationErrors c + 1\<rparr>
                      else c\<lparr>ct_mutationsApplied := ct_mutationsApplied c + 1\<rparr>)"
    note A = applyMutation_logs [OF Cons.prems(1) Inr [unfolded x]]
    obtain e where e: "db_log (do_db st1) = db_log (do_db st) @ [e]" "logged_as (at_clientId a) m e"
        "result_of e = \<lparr>res_id = mut_id m, res_error = err\<rparr>"
      using A by (auto simp: logged_as_def result_of_def)
    have c: "do_db (count f st1) = do_db st1" "do_sockets (count f st1) = do_sockets st1" by (simp_all add: count_def)
    have r: "r = push_loop cfg ev ws a ms (count f st1) (mut_id m) (results @ [\<lparr>res_id = mut_id m, res_error = err\<rparr>])"
      using Cons.prems(3) m(1) Inr x by (simp add: f_def)
    have "known (do_db (count f st1)) (at_clientId a)" using A Cons.prems(1) c by simp
    from Cons.IH [OF this m(2) r Cons.prems(4)] obtain es where
      "do_sockets (pl_do r) = do_sockets st1" "pl_lmid r = mut_id m + int (length ms)"
      "db_log (do_db (pl_do r)) = db_log (do_db st1) @ es" "list_all2 (logged_as (at_clientId a)) ms es"
      "pl_results r = (results @ [result_of e]) @ map result_of es"
      by (auto simp: c e(3))
    then show ?thesis using A e(1,2) m(1) by (auto intro!: exI [of _ "e # es"])
  qed
qed auto

text \<open>
  What such a push does: the object logs every mutation, and sends one poke based on the cursor
  before it, with its results, to sockets among which is the pusher's.
\<close>

lemma gapless_push:
  assumes "do_inv True cfg st" "known (do_db st) (at_clientId a)" "at_ready a" "ws \<in> set (readySockets st)" "ms \<noteq> []"
    and "map mut_id ms = [lastMutationId (do_db st) (at_clientId a) + 1..lastMutationId (do_db st) (at_clientId a) + int (length ms)]"
    and "handlePush cfg ev ws a ms st = (st', None)"
  obtains s ss p es where "st' = sendPoke cfg ev ss (Some (current_cursor st)) p
        (Some [(at_clientId a, lastMutationId (do_db s) (at_clientId a))]) (map result_of es) s"
    "ws \<in> set ss" "pack_ops cfg (since_ops (db_rows (do_db s)) (m_currentVersion (do_meta st))) = Inr p"
    "db_log (do_db s) = db_log (do_db st) @ es" "list_all2 (logged_as (at_clientId a)) ms es"
    "lastMutationId (do_db s) (at_clientId a) = lastMutationId (do_db st) (at_clientId a) + int (length ms)"
    "do_inv True cfg s" "backendId (current_cursor s) = backendId (current_cursor st)"
    "apply_ops (since_ops (db_rows (do_db s)) (m_currentVersion (do_meta st))) (server_table (db_rows (do_db st))) =
       server_table (db_rows (do_db s))"
proof -
  let ?c = "at_clientId a" and ?f = "\<lambda>c :: Counters. c\<lparr>ct_pushes := ct_pushes c + 1\<rparr>"
  define st0 where "st0 = count ?f st"
  define r where "r = push_loop cfg ev ws a ms st0 (lastMutationId (do_db st0) ?c) []"
  have s0: "socket_step st st0" and db: "do_db st0 = do_db st" "do_meta st0 = do_meta st" "do_sockets st0 = do_sockets st"
    by (simp_all add: st0_def)
  have R: "do_inv True cfg (pl_do r)" "push_effect ?c (pl_lmid r) st0 (pl_do r)"
    using push_loop_spec [OF do_inv_step [OF s0 assms(1)], of a "lastMutationId (do_db st0) ?c" r ev ws ms "[]"] assms(2)
    by (simp_all add: r_def db)
  note I = do_invD [OF R(1)] and I0 = do_invD [OF assms(1)]
  have l: "lastMutationId (do_db (pl_do r)) ?c = pl_lmid r"
      and v: "m_backendId (do_meta (pl_do r)) = m_backendId (do_meta st)"
      and since: "rows_since (m_currentVersion (do_meta st)) (db_rows (do_db st)) (db_rows (do_db (pl_do r)))"
    using R(2) by (simp_all add: push_effect_def db)
  have h: "(case pl_thrown r of Some e \<Rightarrow> (pl_do r, Some e)
      | None \<Rightarrow>
          if pl_lmid r = lastMutationId (do_db st0) ?c then
            (case pack_ops cfg [] of Inl e \<Rightarrow> (pl_do r, Some e)
             | Inr p \<Rightarrow> (sendPoke cfg ev [ws] (Some (current_cursor (pl_do r))) p (Some [(?c, pl_lmid r)]) [] (pl_do r), None))
          else
            (case pack_ops cfg (patchSince (pl_do r) (m_currentVersion (do_meta st0))) of Inl e \<Rightarrow> (pl_do r, Some e)
             | Inr p \<Rightarrow>
                (sendPoke cfg ev (if patchSince (pl_do r) (m_currentVersion (do_meta st0)) \<noteq> [] then readySockets (pl_do r) else [ws])
                   (Some \<lparr>backendId = m_backendId (do_meta (pl_do r)), cversion = m_currentVersion (do_meta st0)\<rparr>) p
                   (Some [(?c, pl_lmid r)]) (pl_results r) (pl_do r), None))) = (st', None)"
    using assms(3,7) unfolding handlePush_def Let_def r_def st0_def by simp
  then have t: "pl_thrown r = None" by (auto split: option.splits)
  have k: "known (do_db st0) ?c" using assms(2) by (simp add: db)
  have ids: "map mut_id ms = [lastMutationId (do_db st0) ?c + 1..lastMutationId (do_db st0) ?c + int (length ms)]"
    using assms(6) by (simp add: db)
  obtain es where g: "do_sockets (pl_do r) = do_sockets st" "pl_lmid r = lastMutationId (do_db st) ?c + int (length ms)"
      "db_log (do_db (pl_do r)) = db_log (do_db st) @ es" "list_all2 (logged_as ?c) ms es" "pl_results r = map result_of es"
    using push_loop_gapless [OF k ids r_def t] by (auto simp: db)
  let ?ops = "patchSince (pl_do r) (m_currentVersion (do_meta st0))"
  have "pl_lmid r \<noteq> lastMutationId (do_db st0) ?c" using g(2) assms(5) by (simp add: db)
  then obtain p where p: "pack_ops cfg ?ops = Inr p"
      "st' = sendPoke cfg ev (if ?ops \<noteq> [] then readySockets (pl_do r) else [ws])
         (Some \<lparr>backendId = m_backendId (do_meta (pl_do r)), cversion = m_currentVersion (do_meta st0)\<rparr>) p
         (Some [(?c, pl_lmid r)]) (pl_results r) (pl_do r)"
    using h t by (auto split: sum.splits)
  have b: "\<lparr>backendId = m_backendId (do_meta (pl_do r)), cversion = m_currentVersion (do_meta st0)\<rparr> = current_cursor st"
    by (simp add: current_cursor_def v db)
  have ready: "readySockets (pl_do r) = readySockets st" by (simp add: readySockets_def g(1))
  have "in_sync (m_currentVersion (do_meta st)) (db_rows (do_db (pl_do r))) (server_table (db_rows (do_db st)))"
    by (rule in_sync_since [OF in_sync_server since]) (use I0(2) in simp)
  then have conv: "apply_ops (since_ops (db_rows (do_db (pl_do r))) (m_currentVersion (do_meta st))) (server_table (db_rows (do_db st))) =
      server_table (db_rows (do_db (pl_do r)))"
    by (rule since_converges [rotated]) (use I(2) in simp)
  show thesis
  proof (rule that [of "if ?ops \<noteq> [] then readySockets (pl_do r) else [ws]" p "pl_do r" es])
    show "st' = sendPoke cfg ev (if ?ops \<noteq> [] then readySockets (pl_do r) else [ws]) (Some (current_cursor st)) p
        (Some [(?c, lastMutationId (do_db (pl_do r)) ?c)]) (map result_of es) (pl_do r)"
      by (simp only: p(2) b l g(5))
    show "ws \<in> set (if ?ops \<noteq> [] then readySockets (pl_do r) else [ws])" using assms(4) by (simp add: ready)
    show "pack_ops cfg (since_ops (db_rows (do_db (pl_do r))) (m_currentVersion (do_meta st))) = Inr p"
      using p(1) by (simp add: patchSince_def db)
    show "backendId (current_cursor (pl_do r)) = backendId (current_cursor st)" by (simp add: current_cursor_def v)
  qed (use g l R(1) conv in simp_all)
qed

section \<open>The client's side of the poke\<close>

definition progress_only :: "ClientEffect list \<Rightarrow> bool" where
  "progress_only es \<longleftrightarrow> (\<forall>e \<in> set es. \<exists>m n. e = CProgress m n)"

lemma progress_lists:
  assumes "progress_only es"
  shows "settled_keys es = [] \<and> fold hook_step es tab = tab"
  using assms
  by (induction es arbitrary: tab) (auto simp: progress_only_def settled_keys_def hook_step_def)

lemma parts_received:
  assumes "cl_poke st = Some b" "pb_pokeId b = pid"
  shows "\<exists>b' ps. fold (onServerMsg cfg ev) (part_msgs pid l rs left groups) st = st\<lparr>cl_poke := Some b', cl_effects := cl_effects st @ ps\<rparr> \<and>
    progress_only ps \<and> pb_pokeId b' = pid \<and> pb_baseMismatch b' = pb_baseMismatch b \<and> pb_patch b' = pb_patch b @ concat groups \<and>
    pb_lmids b' = (if groups = [] then pb_lmids b else spread (pb_lmids b) (case l of None \<Rightarrow> [] | Some l \<Rightarrow> l)) \<and>
    pb_results b' = (if groups = [] then pb_results b else pb_results b @ rs)"
  using assms
proof (induction groups arbitrary: st b l rs left)
  case Nil
  then show ?case by (intro exI [of _ b] exI [of _ "[]"]) (simp add: progress_only_def)
next
  case (Cons g groups)
  define b1 where "b1 = b\<lparr>pb_patch := pb_patch b @ g, pb_lmids := spread (pb_lmids b) (case l of None \<Rightarrow> [] | Some l \<Rightarrow> l),
    pb_results := pb_results b @ rs\<rparr>"
  define p1 where "p1 = (if pb_baseMismatch b then [] else [CProgress (length (pb_patch b1)) (int (left - length g))])"
  define st1 where "st1 = st\<lparr>cl_poke := Some b1, cl_effects := cl_effects st @ p1\<rparr>"
  have one: "onServerMsg cfg ev (PokePart pid g (Some (int (left - length g))) l (if rs = [] then None else Some rs)) st = st1"
    using Cons.prems by (simp add: st1_def b1_def p1_def Let_def effect_def)
  have "cl_poke st1 = Some b1" "pb_pokeId b1 = pid" using Cons.prems(2) by (simp_all add: st1_def b1_def)
  from Cons.IH [OF this, of None "[]" "left - length g"] obtain b' ps where ps:
      "fold (onServerMsg cfg ev) (part_msgs pid None [] (left - length g) groups) st1 = st1\<lparr>cl_poke := Some b', cl_effects := cl_effects st1 @ ps\<rparr>"
      "progress_only ps" "pb_pokeId b' = pid" "pb_baseMismatch b' = pb_baseMismatch b1" "pb_patch b' = pb_patch b1 @ concat groups"
      "pb_lmids b' = pb_lmids b1" "pb_results b' = pb_results b1"
    by auto
  have "st1\<lparr>cl_poke := Some b', cl_effects := cl_effects st1 @ ps\<rparr> = st\<lparr>cl_poke := Some b', cl_effects := cl_effects st @ (p1 @ ps)\<rparr>"
    by (simp add: st1_def)
  moreover have "progress_only (p1 @ ps)" using ps(2) by (auto simp: progress_only_def p1_def split: if_splits)
  ultimately show ?case
    using ps one by (intro exI [of _ b'] exI [of _ "p1 @ ps"]) (simp add: b1_def del: onServerMsg.simps)
qed

text \<open>A whole poke based on the client's cursor is applied.\<close>

lemma poke_received:
  assumes "base = cl_cursor st" "groups \<noteq> []"
  shows "\<exists>b ps. fold (onServerMsg cfg ev) (poke_msgs pid base groups (Some l) rs cur) st =
      applyPoke cfg b cur (st\<lparr>cl_effects := cl_effects st @ ps, cl_poke := None\<rparr>) \<and> progress_only ps \<and>
      pb_patch b = concat groups \<and> pb_lmids b = spread [] l \<and> pb_results b = rs"
proof -
  define b where "b = \<lparr>pb_pokeId = pid, pb_baseMismatch = False, pb_patch = [], pb_lmids = [], pb_results = []\<rparr>"
  define st1 where "st1 = st\<lparr>cl_poke := Some b\<rparr>"
  have s: "onServerMsg cfg ev (PokeStart pid base) st = st1" using assms(1) by (simp add: st1_def b_def cursorEquals_iff)
  have "cl_poke st1 = Some b" "pb_pokeId b = pid" by (simp_all add: st1_def b_def)
  from parts_received [OF this, of cfg ev "Some l" rs "length (concat groups)" groups] assms(2) obtain b' ps where p:
      "fold (onServerMsg cfg ev) (part_msgs pid (Some l) rs (length (concat groups)) groups) st1 =
         st1\<lparr>cl_poke := Some b', cl_effects := cl_effects st1 @ ps\<rparr>"
      "progress_only ps" "pb_pokeId b' = pid" "\<not> pb_baseMismatch b'" "pb_patch b' = concat groups" "pb_lmids b' = spread [] l" "pb_results b' = rs"
    by (auto simp: b_def)
  have "onServerMsg cfg ev (PokeEnd pid cur NoMore) (st1\<lparr>cl_poke := Some b', cl_effects := cl_effects st1 @ ps\<rparr>) =
      applyPoke cfg b' cur (st\<lparr>cl_effects := cl_effects st @ ps, cl_poke := None\<rparr>)"
    using p(3,4) by (simp add: st1_def Let_def)
  then show ?thesis
    using p s by (intro exI [of _ b'] exI [of _ ps]) (simp add: poke_msgs_def del: onServerMsg.simps)
qed

lemma settle_list_mono: "set (cl_effects st) \<subseteq> set (cl_effects (settle_list cfg xs st))"
proof (induction xs arbitrary: st)
  case (Cons x xs)
  have "set (cl_effects st) \<subseteq> set (cl_effects (settleEntry cfg (fst x) (snd x) st))"
    using notifyPending_mono by (fastforce simp: settleEntry_def Let_def effect_def)
  then show ?case using Cons.IH [of "settleEntry cfg (fst x) (snd x) st"]
    by (auto simp: settle_list_def case_prod_beta)
qed (simp add: settle_list_def)

lemma settle_list_settles:
  assumes "distinct (map fst xs)" "fst ` set xs \<subseteq> oe_key ` set (cl_outbox st)" "(k, err) \<in> set xs"
  shows "CSettled k err \<in> set (cl_effects (settle_list cfg xs st))"
  using assms
proof (induction xs arbitrary: st)
  case (Cons x xs)
  let ?s = "settleEntry cfg (fst x) (snd x) st"
  have step: "settle_list cfg (x # xs) st = settle_list cfg xs ?s" by (simp add: settle_list_def case_prod_beta)
  show ?case
  proof (cases "x = (k, err)")
    case True
    have "k \<in> oe_key ` set (cl_outbox st)" using Cons.prems(2) True by auto
    then have "CSettled k err \<in> set (cl_effects ?s)"
      using notifyPending_mono by (fastforce simp: True settleEntry_def Let_def effect_def)
    then show ?thesis unfolding step using settle_list_mono by blast
  next
    case False
    have "fst ` set xs \<subseteq> oe_key ` set (cl_outbox ?s)"
    proof
      fix j assume j: "j \<in> fst ` set xs"
      then obtain e where "e \<in> set (cl_outbox st)" "oe_key e = j" using Cons.prems(2) by auto
      moreover have "j \<noteq> fst x" using j Cons.prems(1) by (simp, metis)
      ultimately show "j \<in> oe_key ` set (cl_outbox ?s)" by auto
    qed
    then show ?thesis unfolding step using Cons.IH [of ?s] Cons.prems False by auto
  qed
qed simp

lemma apply_tables_rebase: "cl_needsRebase (apply_tables ops st) = cl_needsRebase st \<and> cl_synced (apply_tables ops st) = cl_synced st"
proof -
  have f: "cl_needsRebase (fold (\<lambda>c. effect (CHook t c)) cs s) = cl_needsRebase s \<and> cl_synced (fold (\<lambda>c. effect (CHook t c)) cs s) = cl_synced s" for t cs s
    by (induction cs arbitrary: s) (simp_all add: effect_def)
  have t: "cl_needsRebase (table_txn t cs s) = cl_needsRebase s \<and> cl_synced (table_txn t cs s) = cl_synced s" for t cs s
    unfolding table_txn_def by (rule f)
  have "cl_needsRebase (fold (\<lambda>t. table_txn t (cs t)) ts s) = cl_needsRebase s \<and> cl_synced (fold (\<lambda>t. table_txn t (cs t)) ts s) = cl_synced s" for cs ts s
    by (induction ts arbitrary: s) (simp_all add: t)
  then show ?thesis by (simp add: apply_tables_def)
qed

text \<open>A poke that confirms the whole outbox settles it, entry by entry, with the poke's results.\<close>

lemma poke_settles:
  assumes "keys_ok st" "cl_synced st"
    and "\<forall>e \<in> set (cl_outbox st). \<exists>i \<le> l. oe_id e = Some i"
    and "map_of (pb_lmids b) (co_clientId cfg) = Some l" "cl_confirmedLmid st < l"
    and "\<forall>c. cl_cursor st = Some c \<longrightarrow> backendId c = backendId cur"
    and "cl' = applyPoke cfg b cur st"
  shows "cl_outbox cl' = [] \<and> cl_confirmedLmid cl' = l \<and>
    settled_keys (cl_effects cl') = settled_keys (cl_effects st) @ map oe_key (cl_outbox st) \<and>
    (\<forall>e \<in> set (cl_outbox st). CSettled (oe_key e) (error_of (pb_results b) (the (oe_id e))) \<in> set (cl_effects cl'))"
proof -
  define s0 where "s0 = apply_tables (pb_patch b) st"
  define s1 where "s1 = confirm_poke cfg b cur s0"
  define s2 where "s2 = settleOutbox cfg (pb_results b) s1"
  have q: "quiet st s0" unfolding s0_def by (rule quiet_apply_tables)
  have 0: "cl_outbox s0 = cl_outbox st" "settled_keys (cl_effects s0) = settled_keys (cl_effects st)" "cl_confirmedLmid s0 = cl_confirmedLmid st"
    using q by (simp_all add: quiet_def)
  have v: "cl_cursor s0 = cl_cursor st"
    by (auto simp: s0_def apply_tables_def txns_cursor)
  have r: "cl_needsRebase s0 = cl_needsRebase st" "cl_synced s0 = cl_synced st" using apply_tables_rebase by (simp_all add: s0_def)
  have nb: "\<not> (case cl_cursor s0 of None \<Rightarrow> False | Some c \<Rightarrow> backendId c \<noteq> backendId cur)"
    unfolding v using assms(6) by (cases "cl_cursor st") simp_all
  have up: "cl_confirmedLmid (s0\<lparr>cl_cursor := Some cur, cl_awaitingCatchUp := False\<rparr>) < l" using assms(5) 0(3) by simp
  have s1: "s1 = s0\<lparr>cl_cursor := Some cur, cl_awaitingCatchUp := False, cl_confirmedLmid := l\<rparr>"
    unfolding s1_def confirm_poke_def Let_def if_not_P [OF nb] assms(4) option.case if_P [OF up] ..
  have 1: "cl_outbox s1 = cl_outbox st" "cl_effects s1 = cl_effects s0" "cl_confirmedLmid s1 = l" "cl_synced s1"
    using assms(2) 0 r by (simp_all add: s1)
  let ?xs = "map (\<lambda>e. (oe_key e, error_of (pb_results b) (the (oe_id e)))) (cl_outbox st)"
  have "filter (confirmed_by l) (cl_outbox st) = cl_outbox st"
    using assms(3) by (auto simp: filter_id_conv confirmed_by_def)
  then have s2: "s2 = settle_list cfg ?xs s1" unfolding s2_def settleOutbox_list 1 by simp
  have d: "distinct (map fst ?xs)" using assms(1) by (simp add: keys_ok_def comp_def)
  have sub: "fst ` set ?xs \<subseteq> oe_key ` set (cl_outbox s1)" unfolding 1 by auto
  have "fst ` set ?xs = oe_key ` set (cl_outbox st)" by (simp add: image_image)
  then have out: "cl_outbox s2 = []" unfolding s2 settle_list_fields 1 by (simp add: filter_empty_conv)
  have 2: "cl_confirmedLmid s2 = l" "cl_synced s2"
    "settled_keys (cl_effects s2) = settled_keys (cl_effects st) @ map oe_key (cl_outbox st)"
    using 1 0 settle_list_keys [OF d sub, of cfg] by (simp_all add: s2 comp_def)
  have set: "CSettled (oe_key e) (error_of (pb_results b) (the (oe_id e))) \<in> set (cl_effects s2)" if "e \<in> set (cl_outbox st)" for e
    unfolding s2 by (rule settle_list_settles [OF d sub]) (use that in auto)
  define s3 where "s3 = (if cl_needsRebase s2 then rebaseOutboxIds cfg (s2\<lparr>cl_needsRebase := False\<rparr>) else s2)"
  have 3: "cl_outbox s3 = []" "cl_confirmedLmid s3 = l" "cl_synced s3" "cl_effects s3 = cl_effects s2"
    using out 2 by (auto simp: s3_def rebaseOutboxIds_def)
  have "\<exists>pp. cl' = (if co_store cfg then effect (CApplyPoke pp) (schedulePush s3) else schedulePush s3)"
  proof -
    have b: "become_synced cfg s3 = s3" using 3(3) by (simp add: become_synced_def)
    show ?thesis
      unfolding assms(7) applyPoke_def Let_def s0_def [symmetric] s1_def [symmetric] s2_def [symmetric] s3_def [symmetric] b by auto
  qed
  then show ?thesis using 2 3 set by (auto simp: schedulePush_def effect_def)
qed

lemma error_of_results:
  assumes "distinct (map lg_mutation es)" "e \<in> set es"
  shows "error_of (map result_of es) (lg_mutation e) = map_option (\<lambda>(code, message). MutationError code) (lg_result e)"
proof -
  let ?xs = "map (\<lambda>r. (res_id r, the (res_error r))) (filter (\<lambda>r. res_error r \<noteq> None) (map result_of es))"
  have x: "?xs = map (\<lambda>e. (lg_mutation e, the (lg_result e))) (filter (\<lambda>e. lg_result e \<noteq> None) es)"
    by (induction es) (auto simp: result_of_def)
  have m: "map fst (map (\<lambda>e. (lg_mutation e, the (lg_result e))) ys) = map lg_mutation ys" for ys
    by simp
  have "distinct (map fst ?xs)" unfolding x m by (rule distinct_map_filter [OF assms(1)])
  then have d: "distinct (map fst (rev ?xs))" by (simp only: rev_map [symmetric] distinct_rev)
  have "map_of (rev ?xs) (lg_mutation e) = lg_result e"
  proof (cases "lg_result e")
    case None
    have "lg_mutation e \<notin> fst ` set ?xs"
    proof
      assume "lg_mutation e \<in> fst ` set ?xs"
      then obtain e' where "e' \<in> set es" "lg_mutation e' = lg_mutation e" "lg_result e' \<noteq> None" unfolding x by auto
      moreover have "inj_on lg_mutation (set es)" using assms(1) by (simp only: distinct_map)
      ultimately have "e' = e" using assms(2) by (blast dest: inj_onD)
      then show False using \<open>lg_result e' \<noteq> None\<close> None by simp
    qed
    then show ?thesis using None by (simp add: map_of_eq_None_iff)
  next
    case (Some p)
    then have "(lg_mutation e, p) \<in> set (rev ?xs)" unfolding x using assms(2) by force
    from map_of_is_SomeI [OF d this] Some show ?thesis by (simp only:)
  qed
  then show ?thesis unfolding error_of_def by simp
qed

section \<open>The round trip\<close>

text \<open>Operations that agree on a client's tables go on agreeing.\<close>

lemma apply_ops_on_tables:
  assumes "on_tables ts tab = on_tables ts tab'"
  shows "on_tables ts (apply_ops ops tab) = on_tables ts (apply_ops ops tab')"
  using assms
proof (induction ops arbitrary: tab tab')
  case (Cons x ops)
  have "tab (t, i) = tab' (t, i)" if "t \<in> set ts" for t i
    using fun_cong [OF Cons.prems, of "(t, i)"] that by (simp add: on_tables_def)
  then have "on_tables ts (apply_op x tab) = on_tables ts (apply_op x tab')"
    by (cases x) (auto simp: on_tables_def fun_eq_iff)
  from Cons.IH [OF this] show ?case by (simp add: apply_ops_def)
qed (simp add: apply_ops_def)

text \<open>The frames of a poke to a client are the frames of its messages.\<close>

lemma sendPoke_messages:
  assumes "pack_ops cfg ops = Inr p" "cf_jsonQuote cfg = json_quote" "ss \<noteq> []"
  obtains groups s' where "concat groups = ops" "groups \<noteq> []" "do_db s' = do_db s" "do_meta s' = do_meta s"
    "sendPoke cfg ev ss base p (Some l) rs s =
       deliver_all cfg ev ss (map FText (map (json_text \<circ> enc_server_msg) (poke_msgs (ev_uuid ev) base groups (Some l) rs (current_cursor s)))) s'"
proof -
  have "packPatch (map (op_json json_quote) ops) MAX_PART_PATCH_BYTES = Inr p"
    using assms(1,2) by (simp add: pack_ops_def split: sum.splits)
  from pokeFrames_msgs [OF this] obtain groups where g: "concat groups = ops" "groups \<noteq> []"
    "pokeFrames \<lparr>poke_id = ev_uuid ev, poke_base = base, poke_patch = p, poke_lmids = Some l, poke_results = rs, poke_cursor = current_cursor s\<rparr>
      = map (\<lambda>m. json_text (enc_server_msg m)) (poke_msgs (ev_uuid ev) base groups (Some l) rs (current_cursor s))"
    by blast
  show thesis
    by (rule that [OF g(1,2), of "count (\<lambda>c. c\<lparr>ct_pokesSent := ct_pokesSent c + 1, ct_lastFanout := length ss\<rparr>) s"])
      (use assms(3) g(3) in \<open>simp_all add: sendPoke_def Let_def comp_def\<close>)
qed

text \<open>The log entry of an outbox entry, and what its caller is told.\<close>

definition logs_entry :: "jstr \<Rightarrow> OutboxEntry \<Rightarrow> LogEntry \<Rightarrow> bool" where
  "logs_entry c e l \<longleftrightarrow> lg_client l = c \<and> oe_id e = Some (lg_mutation l) \<and> lg_name l = oe_name e \<and> lg_args l = json_value (oe_args e)"

definition rejection_of :: "LogEntry \<Rightarrow> Rejection option" where
  "rejection_of l = map_option (\<lambda>(code, message). MutationError code) (lg_result l)"

text \<open>
  C2: A synced client's mutations complete in one round trip. Take a client with a store, in any
  state of any history, that is synced, shows the workspace's rows on its tables and has
  mutations in its outbox; let the object handle the push of that outbox and return. Then the
  object has appended exactly those mutations, in order, to its log, each with the result it had,
  and sends the client's socket the frames of a poke; when the client has received its messages,
  the outbox is empty, every mutation of it is settled, in order and with the result the log has
  for it, the confirmed LMID and the cursor are the object's, and the rows on its tables are the
  object's again.
\<close>

theorem mutations_round_trip:
  assumes "do_inv True scfg sv" "known (do_db sv) (co_clientId ccfg)" "cf_jsonQuote scfg = json_quote"
    and "at_clientId a = co_clientId ccfg" "at_ready a" "ws \<in> set (readySockets sv)"
    and "co_store ccfg" "client_history ccfg cv cl" "cl_synced cl" "distinct (cl_tables cl)" "cl_outbox cl \<noteq> []"
    and "cl_cursor cl = Some (current_cursor sv)" "cl_confirmedLmid cl = lastMutationId (do_db sv) (co_clientId ccfg)"
    and "on_tables (cl_tables cl) (shown_rows (cl_effects cl)) = on_tables (cl_tables cl) (server_table (db_rows (do_db sv)))"
    and "handlePush scfg sev ws a (push_mutations cl) sv = (sv', None)"
  shows "\<exists>ss s msgs es cl'. ws \<in> set ss \<and>
      sv' = deliver_all scfg sev ss (map FText (map (json_text \<circ> enc_server_msg) msgs)) s \<and>
      db_log (do_db sv') = db_log (do_db sv) @ es \<and> list_all2 (logs_entry (co_clientId ccfg)) (cl_outbox cl) es \<and>
      cl' = fold (onServerMsg ccfg cev) msgs cl \<and> cl_outbox cl' = [] \<and>
      settled_keys (cl_effects cl') = settled_keys (cl_effects cl) @ map oe_key (cl_outbox cl) \<and>
      (\<forall>(e, l) \<in> set (zip (cl_outbox cl) es). CSettled (oe_key e) (rejection_of l) \<in> set (cl_effects cl')) \<and>
      cl_confirmedLmid cl' = lastMutationId (do_db sv') (co_clientId ccfg) \<and> cl_cursor cl' = Some (current_cursor sv') \<and>
      on_tables (cl_tables cl) (shown_rows (cl_effects cl')) = on_tables (cl_tables cl) (server_table (db_rows (do_db sv')))"
proof -
  let ?c = "co_clientId ccfg" and ?out = "cl_outbox cl" and ?n = "cl_confirmedLmid cl"
  have Q: "queue_ok cl" using history_queue [OF assms(7,8)] by simp
  have ids: "ids_wf ?n (map oe_id ?out)" "None \<notin> set (map oe_id ?out)" using Q assms(9) by (simp_all add: queue_ok_def ids_ok_def)
  note P = push_is_outbox [OF ids]
  have len: "length (push_mutations cl) = length ?out" by (simp add: conjunct2 [OF P])
  have up: "map oe_id ?out = map Some [?n + 1..?n + int (length ?out)]" using ids_wf_upto [OF ids] by simp
  obtain s ss p es where S: "sv' = sendPoke scfg sev ss (Some (current_cursor sv)) p (Some [(?c, lastMutationId (do_db s) ?c)]) (map result_of es) s"
      "ws \<in> set ss" "pack_ops scfg (since_ops (db_rows (do_db s)) (m_currentVersion (do_meta sv))) = Inr p"
      "db_log (do_db s) = db_log (do_db sv) @ es" "list_all2 (logged_as ?c) (push_mutations cl) es"
      "lastMutationId (do_db s) ?c = ?n + int (length ?out)" "backendId (current_cursor s) = backendId (current_cursor sv)"
      "apply_ops (since_ops (db_rows (do_db s)) (m_currentVersion (do_meta sv))) (server_table (db_rows (do_db sv))) =
         server_table (db_rows (do_db s))"
  proof -
    have "known (do_db sv) (at_clientId a)" "push_mutations cl \<noteq> []" using assms(2,4,11) len by (simp, fastforce)
    moreover have "map mut_id (push_mutations cl) =
        [lastMutationId (do_db sv) (at_clientId a) + 1..lastMutationId (do_db sv) (at_clientId a) + int (length (push_mutations cl))]"
      using conjunct1 [OF P] by (simp only: assms(4) assms(13) [symmetric] len)
    ultimately show thesis
      using gapless_push [OF assms(1) _ assms(5,6) _ _ assms(15), where thesis = thesis] that
      by (simp only: assms(4) assms(13) [symmetric] len) blast
  qed
  let ?ops = "since_ops (db_rows (do_db s)) (m_currentVersion (do_meta sv))"
  have "ss \<noteq> []" using S(2) by auto
  from sendPoke_messages [OF S(3) assms(3) this] obtain groups s' where G: "concat groups = ?ops" "groups \<noteq> []"
      "do_db s' = do_db s" "do_meta s' = do_meta s"
      "sv' = deliver_all scfg sev ss (map FText (map (json_text \<circ> enc_server_msg)
         (poke_msgs (ev_uuid sev) (Some (current_cursor sv)) groups (Some [(?c, lastMutationId (do_db s) ?c)]) (map result_of es) (current_cursor s)))) s'"
    unfolding S(1) by blast
  let ?msgs = "poke_msgs (ev_uuid sev) (Some (current_cursor sv)) groups (Some [(?c, lastMutationId (do_db s) ?c)]) (map result_of es) (current_cursor s)"
  have sv': "do_db sv' = do_db s" "do_meta sv' = do_meta s"
    using step_deliver_all [of s' scfg sev ss "map FText (map (json_text \<circ> enc_server_msg) ?msgs)"] G(3,4)
    by (simp_all add: G(5) socket_step_def same_core_def)
  have cur: "current_cursor sv' = current_cursor s" by (simp add: current_cursor_def sv')
  obtain b ps where R: "fold (onServerMsg ccfg cev) ?msgs cl = applyPoke ccfg b (current_cursor s) (cl\<lparr>cl_effects := cl_effects cl @ ps, cl_poke := None\<rparr>)"
      "progress_only ps" "pb_patch b = ?ops" "pb_lmids b = spread [] [(?c, lastMutationId (do_db s) ?c)]" "pb_results b = map result_of es"
    using poke_received [OF assms(12) [symmetric] G(2)] G(1) by metis
  define cl1 where "cl1 = cl\<lparr>cl_effects := cl_effects cl @ ps, cl_poke := None\<rparr>"
  have 1: "cl_outbox cl1 = ?out" "cl_synced cl1" "cl_confirmedLmid cl1 = ?n" "cl_cursor cl1 = Some (current_cursor sv)" "cl_tables cl1 = cl_tables cl"
      "settled_keys (cl_effects cl1) = settled_keys (cl_effects cl)" "shown_rows (cl_effects cl1) = shown_rows (cl_effects cl)"
      "cl_nextKey cl1 = cl_nextKey cl"
    using assms(9,12) progress_lists [OF R(2)] by (simp_all add: cl1_def settled_keys_def shown_rows_def)
  define cl' where "cl' = applyPoke ccfg b (current_cursor s) cl1"
  have K: "keys_ok cl1" using Q 1 by (simp add: queue_ok_def keys_ok_def)
  have le: "\<forall>e \<in> set (cl_outbox cl1). \<exists>i \<le> lastMutationId (do_db s) ?c. oe_id e = Some i"
  proof
    fix e assume "e \<in> set (cl_outbox cl1)"
    then have "oe_id e \<in> set (map oe_id ?out)" by (simp add: 1)
    then show "\<exists>i \<le> lastMutationId (do_db s) ?c. oe_id e = Some i" unfolding up S(6) by auto
  qed
  have lm: "map_of (pb_lmids b) ?c = Some (lastMutationId (do_db s) ?c)" by (simp add: R(4))
  have lt: "cl_confirmedLmid cl1 < lastMutationId (do_db s) ?c" using assms(11) by (simp add: 1 S(6))
  have bk: "\<forall>c. cl_cursor cl1 = Some c \<longrightarrow> backendId c = backendId (current_cursor s)" by (simp add: 1 S(7))
  note T = poke_settles [OF K 1(2) le lm lt bk cl'_def]
  have all2: "list_all2 (logs_entry ?c) ?out es"
  proof -
    have "oe_id e \<noteq> None" if "e \<in> set ?out" for e using ids(2) that by force
    then show ?thesis using S(5) unfolding conjunct2 [OF P] list.rel_map
      by (auto elim!: list.rel_mono_strong simp: logged_as_def logs_entry_def)
  qed
  have dist: "distinct (map lg_mutation es)"
  proof -
    have "list_all2 (\<lambda>e l. oe_id e = Some (lg_mutation l)) ?out es" by (rule list.rel_mono_strong [OF all2]) (simp add: logs_entry_def)
    then have "map oe_id ?out = map Some (map lg_mutation es)" by (induction rule: list_all2_induct) simp_all
    then have "map lg_mutation es = [?n + 1..?n + int (length ?out)]"
      unfolding up by (metis inj_Some list.inj_map_strong option.inject)
    then show ?thesis by (simp only: distinct_upto)
  qed
  have settled: "\<forall>(e, l) \<in> set (zip ?out es). CSettled (oe_key e) (rejection_of l) \<in> set (cl_effects cl')"
  proof clarify
    fix e l assume z: "(e, l) \<in> set (zip ?out es)"
    have in_sets: "e \<in> set ?out" "l \<in> set es" using z by (auto dest: set_zip_leftD set_zip_rightD)
    have "oe_id e = Some (lg_mutation l)" using all2 z by (auto simp: list_all2_iff logs_entry_def)
    moreover have "CSettled (oe_key e) (error_of (pb_results b) (the (oe_id e))) \<in> set (cl_effects cl')"
      using T in_sets(1) by (simp add: 1)
    ultimately show "CSettled (oe_key e) (rejection_of l) \<in> set (cl_effects cl')"
      by (simp add: R(5) error_of_results [OF dist in_sets(2)] rejection_of_def)
  qed
  have nc: "ClearOp \<notin> set (tl (pb_patch b))" unfolding R(3) using no_clear_since [of "db_rows (do_db s)" "m_currentVersion (do_meta sv)"]
    by (cases ?ops) simp_all
  note V = view_applyPoke [of ccfg b "current_cursor s" cl1] and A = apply_tables_shown [OF nc, of cl1]
  have rows: "on_tables (cl_tables cl) (shown_rows (cl_effects cl')) = on_tables (cl_tables cl) (server_table (db_rows (do_db sv')))"
    using V A apply_ops_on_tables [OF assms(14), of ?ops] assms(10) by (simp add: 1 cl'_def R(3) S(8) sv')
  show ?thesis
  proof (intro exI conjI)
    show "sv' = deliver_all scfg sev ss (map FText (map (json_text \<circ> enc_server_msg) ?msgs)) s'" by (rule G(5))
    show "cl' = fold (onServerMsg ccfg cev) ?msgs cl" unfolding R(1) cl'_def cl1_def ..
  qed (use S(2,4) all2 settled rows T V in \<open>simp_all add: 1 sv' cur cl'_def\<close>)
qed

text \<open>
  The example: a client that registered a table, synced with the demo workspace, queued one
  mutation and pushed it.
\<close>

definition trip_client :: Client where
  "trip_client = run_events True (RegisterTable (js ''t'') # demo_events)"

definition trip_cfg :: "unit Config" where
  "trip_cfg = demo_cfg\<lparr>cf_jsonQuote := json_quote\<rparr>"

lemma trip_facts: "push_mutations trip_client = [demo_mutation] \<and> cl_synced trip_client \<and> cl_tables trip_client = [js ''t''] \<and>
    cl_cursor trip_client = Some \<lparr>backendId = js ''b'', cversion = 0\<rparr> \<and> cl_confirmedLmid trip_client = 0 \<and>
    map oe_key (cl_outbox trip_client) = [0]"
  by code_simp

lemma trip_history: "client_history (demo_options True) demo_views trip_client"
  unfolding trip_client_def by (rule run_events_history) (simp add: demo_events_def)

lemma trip_applied: "applyMutation trip_cfg demo_env demo_att demo_mutation (count f demo_do) =
   Inr ((count f demo_do)\<lparr>do_db := commit_mutation demo_env (js ''c'') demo_mutation [demo_row] (Some 1) None demo_db,
     do_meta := demo_meta\<lparr>m_currentVersion := 1\<rparr>, do_snapshot := None\<rparr>, None)"
proof -
  have c: "cf_app trip_cfg = cf_app demo_cfg" "cf_plan trip_cfg = cf_plan demo_cfg" "cf_hook trip_cfg = cf_hook demo_cfg"
    by (simp_all add: trip_cfg_def)
  then have "run_mutation trip_cfg v rows a m = run_mutation demo_cfg v rows a m" for v rows a m
    by (simp only: run_mutation_def)
  moreover have "notifyCommitted trip_cfg e st = notifyCommitted demo_cfg e st" for e and st :: "unit WorkspaceDO"
    by (simp only: notifyCommitted_def c(3))
  ultimately have "applyMutation trip_cfg ev a m st = applyMutation demo_cfg ev a m st" for ev a m and st :: "unit WorkspaceDO"
    by (simp only: applyMutation_def)
  then show ?thesis by (simp only: demo_applied)
qed

lemma trip_pack: "\<exists>p. pack_ops trip_cfg [PutOp (js ''t'') (js ''a'') [(js ''n'', JNum (Fin 5))]] = Inr p"
proof -
  have "utf8ByteLength (op_json json_quote (PutOp (js ''t'') (js ''a'') [(js ''n'', JNum (Fin 5))])) < 100"
    by code_simp
  then show ?thesis
    by (simp add: pack_ops_def packPatch_def trip_cfg_def MAX_PART_PATCH_BYTES_def Let_def del: js_simps split: sum.split)
qed

lemma trip_push: "\<exists>st. handlePush trip_cfg demo_env 1 demo_att [demo_mutation] demo_do = (st, None)"
proof -
  obtain p where p: "pack_ops trip_cfg [PutOp (js ''t'') (js ''a'') [(js ''n'', JNum (Fin 5))]] = Inr p"
    using trip_pack by blast
  have m: "mut_id demo_mutation = 1" by (simp add: demo_mutation_def)
  have rows: "db_rows (commit_mutation ev c m rows w r d) = rows" for ev c m rows w r d
    by (simp add: commit_mutation_def split: option.split)
  show ?thesis
    by (simp add: handlePush_def Let_def demo_start trip_applied m patchSince_def rows since_demo p del: js_simps)
qed

lemma trip_inv: "do_inv True trip_cfg demo_do"
  using demo_do_inv by (simp add: do_inv_def snapshot_ok_def trip_cfg_def demo_do_def)

lemma trip_rows: "shown_rows (cl_effects trip_client) = (\<lambda>_. None)"
proof -
  have "fold hook_step es tab = tab" if "list_all (\<lambda>e. case e of CHook t c \<Rightarrow> c = HMarkReady | _ \<Rightarrow> True) es" for es tab
    using that by (induction es arbitrary: tab) (auto simp: hook_step_def fun_eq_iff split: ClientEffect.splits)
  moreover have "list_all (\<lambda>e. case e of CHook t c \<Rightarrow> c = HMarkReady | _ \<Rightarrow> True) (cl_effects trip_client)" by code_simp
  ultimately show ?thesis unfolding shown_rows_def .
qed

theorem mutations_round_trip_witness:
  "\<exists>sv' cl' :: Client. handlePush trip_cfg demo_env 1 demo_att [demo_mutation] demo_do = (sv', None) \<and> cl_outbox cl' = [] \<and>
     settled_keys (cl_effects cl') = settled_keys (cl_effects trip_client) @ [0] \<and>
     on_tables [js ''t''] (shown_rows (cl_effects cl')) = on_tables [js ''t''] (server_table (db_rows (do_db sv')))"
proof -
  obtain sv' where h: "handlePush trip_cfg demo_env 1 demo_att (push_mutations trip_client) demo_do = (sv', None)"
    using trip_push trip_facts by auto
  note F = trip_facts
  let ?o = "demo_options True"
  have c: "co_clientId ?o = js ''c''" "co_store ?o" by (simp_all add: demo_options_def del: js_simps)
  have f1: "known (do_db demo_do) (co_clientId ?o)" using demo_known by (simp only: c demo_ready)
  have f2: "cf_jsonQuote trip_cfg = json_quote" by (simp add: trip_cfg_def)
  have f3: "at_clientId demo_att = co_clientId ?o" by (simp only: c demo_ready)
  have f4: "1 \<in> set (readySockets demo_do)" by (simp add: readySockets_def demo_do_def demo_att_def)
  have f5: "cl_outbox trip_client \<noteq> []" using F by auto
  have f6: "cl_cursor trip_client = Some (current_cursor demo_do)" using F by (simp add: current_cursor_def demo_do_def demo_meta_def)
  have f7: "cl_confirmedLmid trip_client = lastMutationId (do_db demo_do) (co_clientId ?o)"
    using F demo_lmid by (simp only: c demo_ready)
  have f8: "on_tables (cl_tables trip_client) (shown_rows (cl_effects trip_client)) =
      on_tables (cl_tables trip_client) (server_table (db_rows (do_db demo_do)))"
    by (simp add: trip_rows server_table_def demo_do_def demo_db_def on_tables_def sql_get_def fun_eq_iff)
  have f9: "distinct (cl_tables trip_client)" "cl_synced trip_client" using F by simp_all
  from mutations_round_trip [OF trip_inv f1 f2 f3 demo_ready(1) f4 c(2) trip_history f9(2) f9(1) f5 f6 f7 f8 h, where cev = demo_client_env]
  obtain cl' :: Client where R: "cl_outbox cl' = []"
      "settled_keys (cl_effects cl') = settled_keys (cl_effects trip_client) @ map oe_key (cl_outbox trip_client)"
      "on_tables (cl_tables trip_client) (shown_rows (cl_effects cl')) = on_tables (cl_tables trip_client) (server_table (db_rows (do_db sv')))"
    by (elim exE conjE) (rule that)
  have "map oe_key (cl_outbox trip_client) = [0]" "cl_tables trip_client = [js ''t'']" "push_mutations trip_client = [demo_mutation]"
    using F by blast+
  with R h show ?thesis by auto
qed

end
