(* ===== verification/Base64.thy ===== *)
theory Base64
  imports JsText
begin

text \<open>
  The base64 text an extension snapshot carries (yjs/src/server.ts): \<open>btoa\<close> and the forgiving
  decoder \<open>atob\<close> of the HTML standard, and the two conversions around them. Theorem
  \<open>fromBase64_toBase64\<close>: a blob survives the trip.
\<close>

section \<open>btoa and atob\<close>

definition b64_char :: "nat \<Rightarrow> 16 word" where
  "b64_char n =
     (if n < 26 then of_nat (65 + n) else if n < 52 then of_nat (71 + n)
      else if n < 62 then of_nat (n - 4) else if n = 62 then 43 else 47)"

definition b64_value :: "16 word \<Rightarrow> nat option" where
  "b64_value c =
     (let n = unat c in
      if 65 \<le> n \<and> n \<le> 90 then Some (n - 65) else if 97 \<le> n \<and> n \<le> 122 then Some (n - 71)
      else if 48 \<le> n \<and> n \<le> 57 then Some (n + 4) else if n = 43 then Some 62
      else if n = 47 then Some 63 else None)"

fun sextets :: "nat list \<Rightarrow> nat list" where
  "sextets [] = []"
| "sextets [a] = [a div 4, a mod 4 * 16]"
| "sextets [a, b] = [a div 4, a mod 4 * 16 + b div 16, b mod 16 * 4]"
| "sextets (a # b # c # rest) =
     a div 4 # (a mod 4 * 16 + b div 16) # (b mod 16 * 4 + c div 64) # c mod 64 # sextets rest"

text \<open>Left-over bits of an incomplete group are discarded.\<close>

fun octets :: "nat list \<Rightarrow> nat list" where
  "octets (s # t # u # v # rest) =
     (s * 4 + t div 16) mod 256 # (t * 16 + u div 4) mod 256 # (u * 64 + v) mod 256 # octets rest"
| "octets [s, t, u] = [(s * 4 + t div 16) mod 256, (t * 16 + u div 4) mod 256]"
| "octets [s, t] = [(s * 4 + t div 16) mod 256]"
| "octets _ = []"

definition padding :: "nat \<Rightarrow> nat" where
  "padding n = (if n mod 3 = 0 then 0 else if n mod 3 = 1 then 2 else 1)"

text \<open>\<open>btoa\<close> throws on a character above \<open>U+00FF\<close>.\<close>

definition btoa :: "jstr \<Rightarrow> jstr option" where
  "btoa s =
     (if list_all (\<lambda>c. c < 256) s
      then Some (map b64_char (sextets (map unat s)) @ replicate (padding (length s)) 61) else None)"

definition ascii_space :: "16 word \<Rightarrow> bool" where
  "ascii_space c \<longleftrightarrow> c = 9 \<or> c = 10 \<or> c = 12 \<or> c = 13 \<or> c = 32"

definition drop_equals :: "jstr \<Rightarrow> jstr" where
  "drop_equals s = (if s \<noteq> [] \<and> last s = 61 then butlast s else s)"

fun all_values :: "jstr \<Rightarrow> nat list option" where
  "all_values [] = Some []"
| "all_values (c # cs) =
     (case b64_value c of None \<Rightarrow> None | Some n \<Rightarrow> map_option ((#) n) (all_values cs))"

definition atob :: "jstr \<Rightarrow> jstr option" where
  "atob text =
     (let s = filter (\<lambda>c. \<not> ascii_space c) text;
          t = (if length s mod 4 = 0 then drop_equals (drop_equals s) else s) in
      if length t mod 4 = 1 then None else map_option (\<lambda>vs. map of_nat (octets vs)) (all_values t))"

section \<open>Blobs\<close>

function binary_string :: "u8 list \<Rightarrow> jstr" where
  "binary_string bytes =
     (if bytes = [] then [] else map ucast (take 0x8000 bytes) @ binary_string (drop 0x8000 bytes))"
  by pat_completeness auto
termination by (relation "measure length") auto

declare binary_string.simps [simp del]

definition toBase64 :: "u8 list \<Rightarrow> jstr res" where
  "toBase64 bytes = (case btoa (binary_string bytes) of None \<Rightarrow> Inl (OtherError ''btoa'') | Some s \<Rightarrow> Inr s)"

definition fromBase64 :: "jstr \<Rightarrow> u8 list res" where
  "fromBase64 value = (case atob value of None \<Rightarrow> Inl (OtherError ''atob'') | Some bin \<Rightarrow> Inr (map ucast bin))"

section \<open>The round trip\<close>

lemma b64_table: "list_all (\<lambda>n. b64_value (b64_char n) = Some n \<and> b64_char n \<noteq> 61 \<and> \<not> ascii_space (b64_char n)) [0..<64]"
  by code_simp

lemma b64_char_facts:
  assumes "n < 64"
  shows "b64_value (b64_char n) = Some n" "b64_char n \<noteq> 61" "\<not> ascii_space (b64_char n)"
proof -
  have "n \<in> set [0..<64]" using assms by simp
  with b64_table show "b64_value (b64_char n) = Some n" "b64_char n \<noteq> 61" "\<not> ascii_space (b64_char n)"
    by (auto simp only: list_all_iff)
qed

lemma sextets_less: "list_all (\<lambda>n. n < 256) ns \<Longrightarrow> list_all (\<lambda>n. n < 64) (sextets ns)"
  by (induction ns rule: sextets.induct) auto

lemma split_octet:
  fixes a b :: nat
  shows "a < 256 \<Longrightarrow> (a div 4 * 4 + (a mod 4 * 16 + x) div 16) mod 256 = (a + x div 16) mod 256"
    and "b < 256 \<Longrightarrow> ((a mod 4 * 16 + b div 16) * 16 + (b mod 16 * 4 + y) div 4) mod 256 = (b + y div 4) mod 256"
proof -
  have "(a mod 4 * 16 + x) div 16 = a mod 4 + x div 16" by (metis add.commute div_mult_self1 zero_neq_numeral)
  then show "a < 256 \<Longrightarrow> (a div 4 * 4 + (a mod 4 * 16 + x) div 16) mod 256 = (a + x div 16) mod 256"
    by (metis add.assoc div_mult_mod_eq)
  have "(b mod 16 * 4 + y) div 4 = b mod 16 + y div 4" by (metis add.commute div_mult_self1 zero_neq_numeral)
  then have "(a mod 4 * 16 + b div 16) * 16 + (b mod 16 * 4 + y) div 4 = a mod 4 * 256 + (b + y div 4)"
    using div_mult_mod_eq [of b 16] by (simp add: algebra_simps)
  also have "\<dots> mod 256 = (b + y div 4) mod 256" by (rule mod_mult_self3)
  finally show "b < 256 \<Longrightarrow> ((a mod 4 * 16 + b div 16) * 16 + (b mod 16 * 4 + y) div 4) mod 256 = (b + y div 4) mod 256" .
qed

lemma octets_sextets: "list_all (\<lambda>n. n < 256) ns \<Longrightarrow> octets (sextets ns) = ns"
proof (induction ns rule: sextets.induct)
  case (2 a)
  then show ?case using split_octet(1) [of a 0] by simp
next
  case (3 a b)
  moreover from 3 have "b div 16 div 16 = 0" by (simp add: div_mult2_eq [symmetric])
  ultimately show ?case using split_octet(1) [of a "b div 16"] split_octet(2) [of b a 0] by simp
next
  case (4 a b c rest)
  have "((b mod 16 * 4 + c div 64) * 64 + c mod 64) mod 256 = c"
  proof -
    have "(b mod 16 * 4 + c div 64) * 64 + c mod 64 = b mod 16 * 256 + c"
      using div_mult_mod_eq [of c 64] by (simp add: algebra_simps)
    then show ?thesis using 4 by simp
  qed
  moreover have "b div 16 < 16" "c div 64 < 4" using 4(2) by auto
  ultimately show ?case using 4 split_octet(1) [of a "b div 16"] split_octet(2) [of b a "c div 64"] by simp
qed simp

lemma length_sextets:
  "length (sextets ns) mod 4 = (if length ns mod 3 = 0 then 0 else if length ns mod 3 = 1 then 2 else 3)"
  by (induction ns rule: sextets.induct) auto

lemma all_values_chars: "list_all (\<lambda>n. n < 64) ns \<Longrightarrow> all_values (map b64_char ns) = Some ns"
  by (induction ns) (auto simp: b64_char_facts)

lemma filter_chars: "list_all (\<lambda>n. n < 64) ns \<Longrightarrow> filter (\<lambda>c. \<not> ascii_space c) (map b64_char ns) = map b64_char ns"
  by (induction ns) (auto simp: b64_char_facts)

lemma drop_equals_chars: "list_all (\<lambda>n. n < 64) ns \<Longrightarrow> drop_equals (map b64_char ns) = map b64_char ns"
  by (auto simp: drop_equals_def last_map list_all_iff b64_char_facts)

lemma drop_equals_snoc: "drop_equals (s @ [61]) = s"
  by (simp add: drop_equals_def)

lemma atob_btoa:
  assumes "btoa s = Some t"
  shows "atob t = Some s"
proof -
  define ns where "ns = sextets (map unat s)"
  have small: "list_all (\<lambda>n. n < 256) (map unat s)"
    using assms by (auto simp: btoa_def list_all_iff word_less_nat_alt split: if_splits)
  have ns: "list_all (\<lambda>n. n < 64) ns" "octets ns = map unat s"
    using sextets_less [OF small] octets_sextets [OF small] by (simp_all add: ns_def)
  have len: "length ns mod 4 = (if length s mod 3 = 0 then 0 else if length s mod 3 = 1 then 2 else 3)"
    by (simp only: ns_def length_sextets length_map)
  have t: "t = map b64_char ns @ replicate (padding (length s)) 61"
    using assms by (simp add: btoa_def ns_def split: if_splits)
  have f: "filter (\<lambda>c. \<not> ascii_space c) t = t"
    using filter_chars [OF ns(1)] by (simp add: t) (simp add: ascii_space_def)
  have tl: "length t mod 4 = 0"
    using len by (auto simp: t padding_def split: if_splits) presburger+
  have d: "drop_equals (drop_equals t) = map b64_char ns"
    using drop_equals_snoc [of "map b64_char ns @ [61]"]
    by (auto simp: t padding_def numeral_2_eq_2 drop_equals_chars [OF ns(1)] drop_equals_snoc)
  have n1: "length ns mod 4 \<noteq> Suc 0" using len by auto
  have "map of_nat (octets ns) = s" by (simp add: ns(2) comp_def)
  then show ?thesis by (simp add: atob_def f tl d all_values_chars [OF ns(1)] Let_def n1)
qed

lemma binary_string_eq: "binary_string bytes = map ucast bytes"
proof (induction bytes rule: binary_string.induct)
  case (1 bytes)
  have "map ucast (take 0x8000 bytes) @ map ucast (drop 0x8000 bytes) = (map ucast bytes :: jstr)"
    by (simp only: map_append [symmetric] append_take_drop_id)
  with 1 show ?case by (subst binary_string.simps) simp
qed

lemma ucast_byte: "(ucast (ucast b :: 16 word) :: u8) = b" "(ucast b :: 16 word) < 256" for b :: u8
proof -
  have "unat b < 256" using unsigned_less [of b, where 'a = nat] by simp
  then have u: "unat (ucast b :: 16 word) = unat b" by (simp add: unsigned_ucast_eq take_bit_nat_eq_self)
  show "(ucast b :: 16 word) < 256" using u \<open>unat b < 256\<close> by (simp add: word_less_nat_alt)
  show "(ucast (ucast b :: 16 word) :: u8) = b" by (simp add: ucast_down_ucast_id is_down)
qed

lemma toBase64_total: "\<exists>s. toBase64 bytes = Inr s"
  by (simp add: toBase64_def btoa_def binary_string_eq list_all_iff ucast_byte)

lemma fromBase64_toBase64: "toBase64 bytes = Inr s \<Longrightarrow> fromBase64 s = Inr bytes"
proof -
  assume "toBase64 bytes = Inr s"
  then have "btoa (binary_string bytes) = Some s" by (simp add: toBase64_def split: option.splits)
  from atob_btoa [OF this] show ?thesis
    by (simp add: fromBase64_def binary_string_eq comp_def ucast_byte)
qed

end
