(* ===== verification/YjsServer.thy ===== *)
theory YjsServer
  imports Lifecycle FieldFrames Base64
begin

text \<open>
  The server half of the Yjs add-on (yjs/src/server.ts): an engine extension that keeps, per
  field, an optional snapshot and a log of updates in two tables, a bounded cache of
  materialized documents, and the fields each socket has been refused on. The documents are
  the yjs library's: record \<open>Yjs\<close> holds the functions the add-on calls, a parameter of every
  operation. \<open>authorizeWrite\<close> is application code that may throw.
\<close>

section \<open>The document library\<close>

text \<open>
  \<open>y_apply\<close> returns the document after \<open>applyUpdate\<close> and whether the call threw (it may leave
  the document changed); \<open>y_diff\<close> is None where \<open>encodeStateAsUpdate\<close> throws on the state vector.
\<close>

record 'd Yjs =
  y_new :: 'd
  y_apply :: "u8 list \<Rightarrow> 'd \<Rightarrow> 'd \<times> bool"
  y_encode :: "'d \<Rightarrow> u8 list"
  y_diff :: "'d \<Rightarrow> u8 list \<Rightarrow> u8 list option"
  y_vector :: "'d \<Rightarrow> u8 list"
  y_decodes :: "u8 list \<Rightarrow> bool"

section \<open>State\<close>

record YjsFieldWriteContext =
  wc_fieldId :: jstr
  wc_auth :: "jval option"
  wc_principal :: "jstr option"
  wc_clientId :: jstr

record YjsFieldsOptions =
  yo_authorizeWrite :: "(YjsFieldWriteContext \<Rightarrow> bool res) option"
  yo_maxCachedDocs :: "nat option"
  yo_compactionThreshold :: "nat option"

definition DEFAULT_MAX_CACHED_DOCS :: nat where "DEFAULT_MAX_CACHED_DOCS = 8"
definition DEFAULT_COMPACTION_THRESHOLD :: nat where "DEFAULT_COMPACTION_THRESHOLD = 200"

record FieldRow =
  fr_snapshot :: "u8 list option"
  fr_snapshotSeq :: nat
  fr_byteTotal :: nat
  fr_frozen :: bool

record UpdateRow =
  up_field :: jstr
  up_seq :: nat
  up_bytes :: "u8 list"

text \<open>
  The tables \<open>yjs_fields\<close> (by its primary key) and \<open>yjs_updates\<close> are durable; the cache (a
  \<open>Map\<close>, oldest entry first) and the refusals (by socket) are memory.
\<close>

record 'd FieldStore =
  ys_fields :: "(jstr \<times> FieldRow) list"
  ys_updates :: "UpdateRow list"
  ys_cache :: "(jstr \<times> 'd) list"
  ys_refused :: "(nat \<times> jstr list) list"

definition empty_store :: "'d FieldStore" where
  "empty_store = \<lparr>ys_fields = [], ys_updates = [], ys_cache = [], ys_refused = []\<rparr>"

section \<open>Options\<close>

definition opt_authorizeWrite :: "YjsFieldsOptions \<Rightarrow> YjsFieldWriteContext \<Rightarrow> bool res" where
  "opt_authorizeWrite opts = or_default (yo_authorizeWrite opts) (\<lambda>_. Inr True)"

definition opt_maxCachedDocs :: "YjsFieldsOptions \<Rightarrow> nat" where
  "opt_maxCachedDocs opts = or_default (yo_maxCachedDocs opts) DEFAULT_MAX_CACHED_DOCS"

definition opt_compactionThreshold :: "YjsFieldsOptions \<Rightarrow> nat" where
  "opt_compactionThreshold opts = or_default (yo_compactionThreshold opts) DEFAULT_COMPACTION_THRESHOLD"

section \<open>Rows and cache\<close>

definition fieldRow :: "'d FieldStore \<Rightarrow> jstr \<Rightarrow> FieldRow option" where
  "fieldRow s fid = map_of (ys_fields s) fid"

function trim_cache :: "nat \<Rightarrow> (jstr \<times> 'd) list \<Rightarrow> (jstr \<times> 'd) list" where
  "trim_cache limit c = (if limit < length c then trim_cache limit (tl c) else c)"
  by pat_completeness auto
termination by (relation "measure (\<lambda>(l, c). length c)") auto

declare trim_cache.simps [simp del]

definition cacheDoc :: "YjsFieldsOptions \<Rightarrow> jstr \<Rightarrow> 'd \<Rightarrow> 'd FieldStore \<Rightarrow> 'd FieldStore" where
  "cacheDoc opts fid d s =
     s\<lparr>ys_cache := trim_cache (opt_maxCachedDocs opts) (AList.delete fid (ys_cache s) @ [(fid, d)])\<rparr>"

definition evictDoc :: "jstr \<Rightarrow> 'd FieldStore \<Rightarrow> 'd FieldStore" where
  "evictDoc fid s = s\<lparr>ys_cache := AList.delete fid (ys_cache s)\<rparr>"

definition snapshot_seq :: "FieldRow option \<Rightarrow> nat" where
  "snapshot_seq row = (case row of None \<Rightarrow> 0 | Some r \<Rightarrow> fr_snapshotSeq r)"

definition log_tail :: "'d FieldStore \<Rightarrow> jstr \<Rightarrow> nat \<Rightarrow> UpdateRow list" where
  "log_tail s fid after = sort_key up_seq (filter (\<lambda>u. up_field u = fid \<and> after < up_seq u) (ys_updates s))"

text \<open>A fresh build: the snapshot, which must apply, then the tail, corrupt rows skipped.\<close>

definition materialize :: "'d Yjs \<Rightarrow> 'd FieldStore \<Rightarrow> jstr \<Rightarrow> 'd res" where
  "materialize Y s fid =
     (let row = fieldRow s fid in
      bind_res
        (case (case row of None \<Rightarrow> None | Some r \<Rightarrow> fr_snapshot r) of
           None \<Rightarrow> Inr (y_new Y)
         | Some b \<Rightarrow> (case y_apply Y b (y_new Y) of
                        (d, threw) \<Rightarrow> if threw then Inl (OtherError ''corrupt snapshot'') else Inr d))
        (\<lambda>d. Inr (fold (\<lambda>u d. fst (y_apply Y (up_bytes u) d)) (log_tail s fid (snapshot_seq row)) d)))"

definition loadDoc :: "'d Yjs \<Rightarrow> YjsFieldsOptions \<Rightarrow> bool \<Rightarrow> jstr \<Rightarrow> 'd FieldStore \<Rightarrow> 'd FieldStore \<times> 'd res" where
  "loadDoc Y opts fresh fid s =
     (case (if fresh then None else map_of (ys_cache s) fid) of
        Some d \<Rightarrow> (cacheDoc opts fid d s, Inr d)
      | None \<Rightarrow> (case materialize Y s fid of
                   Inl e \<Rightarrow> (s, Inl e)
                 | Inr d \<Rightarrow> (cacheDoc opts fid d s, Inr d)))"

section \<open>Refusals\<close>

definition refused_on :: "'d FieldStore \<Rightarrow> nat \<Rightarrow> jstr \<Rightarrow> bool" where
  "refused_on s ws fid = (case map_of (ys_refused s) ws of None \<Rightarrow> False | Some fs \<Rightarrow> fid \<in> set fs)"

definition markRefused :: "nat \<Rightarrow> jstr \<Rightarrow> 'd FieldStore \<Rightarrow> 'd FieldStore" where
  "markRefused ws fid s =
     s\<lparr>ys_refused := AList.update ws
         (let fs = or_default (map_of (ys_refused s) ws) [] in if fid \<in> set fs then fs else fs @ [fid])
         (ys_refused s)\<rparr>"

type_synonym 'd outcome = "'d FieldStore \<times> ExtCall list \<times> err option"

text \<open>Sending a frame; building one may throw.\<close>

definition send_frame :: "nat \<Rightarrow> u8 list res \<Rightarrow> 'd FieldStore \<Rightarrow> 'd outcome" where
  "send_frame ws frame s = (case frame of Inl e \<Rightarrow> (s, [], Some e) | Inr bytes \<Rightarrow> (s, [XSend ws bytes], None))"

definition reject :: "nat \<Rightarrow> jstr \<Rightarrow> FieldRejectReason \<Rightarrow> 'd FieldStore \<Rightarrow> 'd outcome" where
  "reject ws fid reason s =
     send_frame ws (encodeFieldFrame FIELD_MSG_REJECT fid (encodeFieldReject reason)) (markRefused ws fid s)"

definition writeContext :: "jstr \<Rightarrow> ExtCtx \<Rightarrow> YjsFieldWriteContext" where
  "writeContext fid c = \<lparr>wc_fieldId = fid, wc_auth = xc_auth c, wc_principal = xc_principal c, wc_clientId = xc_clientId c\<rparr>"

section \<open>Messages\<close>

definition state_diff :: "'d Yjs \<Rightarrow> 'd \<Rightarrow> u8 list \<Rightarrow> u8 list" where
  "state_diff Y d clientSV =
     (if clientSV = [] then y_encode Y d
      else case y_diff Y d clientSV of None \<Rightarrow> y_encode Y d | Some u \<Rightarrow> u)"

definition handleGet :: "'d Yjs \<Rightarrow> YjsFieldsOptions \<Rightarrow> nat \<Rightarrow> jstr \<Rightarrow> u8 list \<Rightarrow> ExtCtx \<Rightarrow> 'd FieldStore \<Rightarrow> 'd outcome" where
  "handleGet Y opts ws fid clientSV c s =
     (let row = fieldRow s fid in
      case opt_authorizeWrite opts (writeContext fid c) of
        Inl e \<Rightarrow> (s, [], Some e)
      | Inr ok \<Rightarrow>
          let w = (ok \<and> \<not> (case row of None \<Rightarrow> False | Some r \<Rightarrow> fr_frozen r) \<and> \<not> refused_on s ws fid) in
          case loadDoc Y opts False fid s of
            (s, Inl e) \<Rightarrow> (s, [], Some e)
          | (s, Inr d) \<Rightarrow>
              send_frame ws
                (bind_res (encodeFieldState \<lparr>writable = w, stateVector = y_vector Y d, diff = state_diff Y d clientSV\<rparr>)
                   (encodeFieldFrame FIELD_MSG_STATE fid)) s)"

text \<open>The append transaction: the upsert of the field's row and the next row of its log.\<close>

definition upsert_totals :: "jstr \<Rightarrow> nat \<Rightarrow> bool \<Rightarrow> 'd FieldStore \<Rightarrow> 'd FieldStore" where
  "upsert_totals fid byteTotal frz s =
     s\<lparr>ys_fields := AList.update fid
         (case fieldRow s fid of
            None \<Rightarrow> \<lparr>fr_snapshot = None, fr_snapshotSeq = 0, fr_byteTotal = byteTotal, fr_frozen = frz\<rparr>
          | Some r \<Rightarrow> r\<lparr>fr_byteTotal := byteTotal, fr_frozen := frz\<rparr>)
         (ys_fields s)\<rparr>"

definition max_seq :: "'d FieldStore \<Rightarrow> jstr \<Rightarrow> nat option" where
  "max_seq s fid =
     (case map up_seq (filter (\<lambda>u. up_field u = fid) (ys_updates s)) of [] \<Rightarrow> None | n # ns \<Rightarrow> Some (fold max ns n))"

definition append_update :: "jstr \<Rightarrow> u8 list \<Rightarrow> FieldRow option \<Rightarrow> 'd FieldStore \<Rightarrow> 'd FieldStore" where
  "append_update fid update row s =
     s\<lparr>ys_updates := ys_updates s
         @ [\<lparr>up_field = fid, up_seq = or_default (max_seq s fid) (snapshot_seq row) + 1, up_bytes = update\<rparr>]\<rparr>"

text \<open>A cached document is brought up to date, or evicted.\<close>

definition refresh_cached :: "'d Yjs \<Rightarrow> jstr \<Rightarrow> u8 list \<Rightarrow> 'd FieldStore \<Rightarrow> 'd FieldStore" where
  "refresh_cached Y fid update s =
     (case map_of (ys_cache s) fid of
        None \<Rightarrow> s
      | Some d \<Rightarrow> (case y_apply Y update d of
                     (d', threw) \<Rightarrow> if threw then evictDoc fid s
                                   else s\<lparr>ys_cache := AList.update fid d' (ys_cache s)\<rparr>))"

definition handleUpdate ::
  "'d Yjs \<Rightarrow> YjsFieldsOptions \<Rightarrow> nat \<Rightarrow> jstr \<Rightarrow> u8 list \<Rightarrow> u8 list \<Rightarrow> ExtCtx \<Rightarrow> 'd FieldStore \<Rightarrow> 'd outcome" where
  "handleUpdate Y opts ws fid update frame c s =
     (if refused_on s ws fid then (s, [], None)
      else case opt_authorizeWrite opts (writeContext fid c) of
        Inl e \<Rightarrow> (s, [], Some e)
      | Inr ok \<Rightarrow>
          if \<not> ok then reject ws fid NotWritable s
          else if MAX_FIELD_UPDATE_BYTES < length update then reject ws fid TooLarge s
          else
            let row = fieldRow s fid in
            if (case row of None \<Rightarrow> False | Some r \<Rightarrow> fr_frozen r) then reject ws fid Frozen s
            else if \<not> y_decodes Y update then (s, [], None)
            else
              let byteTotal = (case row of None \<Rightarrow> 0 | Some r \<Rightarrow> fr_byteTotal r) + length update;
                  s = append_update fid update row (upsert_totals fid byteTotal (MAX_FIELD_BYTES < byteTotal) s)
              in (refresh_cached Y fid update s, [XBroadcast frame (Some ws)], None))"

definition onBinaryMessage :: "'d Yjs \<Rightarrow> YjsFieldsOptions \<Rightarrow> nat \<Rightarrow> u8 list \<Rightarrow> ExtCtx \<Rightarrow> 'd FieldStore \<Rightarrow> 'd outcome" where
  "onBinaryMessage Y opts ws bytes c s =
     (if \<not> xc_ready c then (s, [], None)
      else case decodeFieldFrame bytes of
        None \<Rightarrow> (s, [], None)
      | Some f \<Rightarrow>
          if msgType f = FIELD_MSG_GET then handleGet Y opts ws (fieldId f) (payload f) c s
          else if msgType f = FIELD_MSG_UPDATE then handleUpdate Y opts ws (fieldId f) (payload f) bytes c s
          else (s, [], None))"

section \<open>Compaction\<close>

text \<open>An error is thrown before the transaction has written anything.\<close>

definition compactField :: "'d Yjs \<Rightarrow> YjsFieldsOptions \<Rightarrow> jstr \<Rightarrow> 'd FieldStore \<Rightarrow> 'd FieldStore \<times> err option" where
  "compactField Y opts fid s =
     (case max_seq s fid of
        None \<Rightarrow> (s, None)
      | Some lastSeq \<Rightarrow>
          (case loadDoc Y opts True fid s of
             (s, Inl e) \<Rightarrow> (s, Some e)
           | (s, Inr d) \<Rightarrow>
               let snap = y_encode Y d;
                   s = s\<lparr>ys_fields := map (\<lambda>(k, r). (k, if k = fid then r\<lparr>fr_snapshot := Some snap,
                           fr_snapshotSeq := lastSeq, fr_byteTotal := length snap\<rparr> else r)) (ys_fields s)\<rparr>;
                   s = s\<lparr>ys_updates := filter (\<lambda>u. \<not> (up_field u = fid \<and> up_seq u \<le> lastSeq)) (ys_updates s)\<rparr>
               in (cacheDoc opts fid d s, None)))"

text \<open>The candidates in the order of the primary key, which \<open>GROUP BY\<close> follows.\<close>

definition compaction_candidates :: "YjsFieldsOptions \<Rightarrow> 'd FieldStore \<Rightarrow> jstr list" where
  "compaction_candidates opts s =
     filter (\<lambda>f. opt_compactionThreshold opts < length (filter (\<lambda>u. up_field u = f) (ys_updates s)))
       (sort_key utf8 (remdups (map up_field (ys_updates s))))"

definition onAlarm :: "'d Yjs \<Rightarrow> YjsFieldsOptions \<Rightarrow> 'd FieldStore \<Rightarrow> 'd FieldStore" where
  "onAlarm Y opts s = fold (\<lambda>f s. fst (compactField Y opts f s)) (compaction_candidates opts s) s"

section \<open>Export, import, reset and statistics\<close>

text \<open>\<open>fields[key] = text\<close> on an object literal: assigning a string to \<open>__proto__\<close> does nothing.\<close>

definition assign_text :: "jstr \<Rightarrow> jstr \<Rightarrow> jobj \<Rightarrow> jobj" where
  "assign_text k v ob = (if k = js ''__proto__'' then ob else AList.update k (JStr v) ob)"

definition export_field :: "'d Yjs \<Rightarrow> YjsFieldsOptions \<Rightarrow> jstr \<Rightarrow> 'd FieldStore \<times> jobj res \<Rightarrow> 'd FieldStore \<times> jobj res" where
  "export_field Y opts fid st =
     (case st of
        (s, Inl e) \<Rightarrow> (s, Inl e)
      | (s, Inr ob) \<Rightarrow>
          (case loadDoc Y opts True fid s of
             (s, Inl e) \<Rightarrow> (s, Inl e)
           | (s, Inr d) \<Rightarrow> (s, bind_res (toBase64 (y_encode Y d)) (\<lambda>text. Inr (assign_text fid text ob)))))"

definition onExport :: "'d Yjs \<Rightarrow> YjsFieldsOptions \<Rightarrow> 'd FieldStore \<Rightarrow> 'd FieldStore \<times> jval res" where
  "onExport Y opts s =
     (let (s, r) = fold (export_field Y opts) (sort_key utf8 (map fst (ys_fields s))) (s, Inr []) in
      (s, bind_res r (\<lambda>fields. Inr (JObj [(js ''fields'', JObj fields)]))))"

text \<open>\<open>Object.entries\<close> of a value whose \<open>typeof\<close> is object; of null it throws.\<close>

definition object_entries :: "jval \<Rightarrow> jobj res option" where
  "object_entries v =
     (case v of
        JObj ob \<Rightarrow> Some (Inr ob)
      | JArr xs \<Rightarrow> Some (Inr (map (\<lambda>(i, x). (digits_of i, x)) (enumerate 0 xs)))
      | JNull \<Rightarrow> Some (Inl (OtherError ''TypeError''))
      | _ \<Rightarrow> None)"

definition import_field :: "'d Yjs \<Rightarrow> jstr \<times> jval \<Rightarrow> (jstr \<times> FieldRow) list \<Rightarrow> (jstr \<times> FieldRow) list res" where
  "import_field Y entry rows =
     (case snd entry of
        JStr encoded \<Rightarrow>
          bind_res (fromBase64 encoded) (\<lambda>snap.
            if snd (y_apply Y snap (y_new Y)) then Inl (OtherError ''corrupt snapshot'')
            else if map_of rows (fst entry) \<noteq> None then Inl (OtherError ''UNIQUE constraint failed'')
            else Inr (rows @ [(fst entry, \<lparr>fr_snapshot = Some snap, fr_snapshotSeq = 0,
                    fr_byteTotal = length snap, fr_frozen = MAX_FIELD_BYTES < length snap\<rparr>)]))
      | _ \<Rightarrow> Inl (OtherError ''snapshot must be base64''))"

definition onImport :: "'d Yjs \<Rightarrow> jval \<Rightarrow> 'd FieldStore \<Rightarrow> 'd FieldStore res" where
  "onImport Y data s =
     (case (case data of JObj ob \<Rightarrow> object_entries (field ob (js ''fields'')) | _ \<Rightarrow> None) of
        None \<Rightarrow> Inl (OtherError ''extension snapshot must be { fields }'')
      | Some r \<Rightarrow>
          bind_res r (\<lambda>entries. bind_res (fold_res (import_field Y) entries [])
            (\<lambda>rows. Inr (s\<lparr>ys_fields := rows, ys_updates := [], ys_cache := []\<rparr>))))"

definition onReset :: "'d FieldStore \<Rightarrow> 'd FieldStore" where
  "onReset s = s\<lparr>ys_fields := [], ys_updates := [], ys_cache := [], ys_refused := []\<rparr>"

text \<open>Waking up: the tables persist, the memory is new.\<close>

definition init :: "'d FieldStore option \<Rightarrow> 'd FieldStore" where
  "init old = (case old of None \<Rightarrow> empty_store | Some s \<Rightarrow> s\<lparr>ys_cache := [], ys_refused := []\<rparr>)"

definition onStats :: "'d FieldStore \<Rightarrow> jobj" where
  "onStats s =
     (let num = (\<lambda>n. JNum (Fin (int n))) in
      [(js ''fields'', num (length (ys_fields s))),
       (js ''frozenFields'', num (length (filter (\<lambda>(k, r). fr_frozen r) (ys_fields s)))),
       (js ''fieldBytes'', num (sum_list (map (\<lambda>(k, r). fr_byteTotal r) (ys_fields s)))),
       (js ''pendingUpdates'', num (length (ys_updates s))),
       (js ''cachedDocs'', num (length (ys_cache s)))])"

definition yjsFields :: "'d Yjs \<Rightarrow> YjsFieldsOptions \<Rightarrow> 'd FieldStore EngineExtension" where
  "yjsFields Y opts =
     \<lparr>ext_init = init,
      ext_message = onBinaryMessage Y opts,
      ext_alarm = Some (onAlarm Y opts),
      ext_export = Some (onExport Y opts),
      ext_import = Some (onImport Y),
      ext_reset = Some onReset,
      ext_stats = Some onStats\<rparr>"

end
