(* ===== verification/YjsClient.thy ===== *)
theory YjsClient
  imports YjsServer
begin

text \<open>
  The client half of the Yjs add-on (yjs/src/client.ts): live, reference-counted fields over a
  sync client's binary lane. The state is one record; what it asks of its environment (frames
  to send, listeners to call, promises to resolve) is appended to \<open>yc_out\<close>. The status of the
  sync client is an argument (\<open>synced\<close>) of the operations that read it, and listeners do not throw.
\<close>

section \<open>State\<close>

datatype WriteBlockedReason = ServerReason FieldRejectReason | LocalTooLarge

record 'd FieldEntry =
  en_uid :: nat
  en_fieldId :: jstr
  en_doc :: 'd
  en_refs :: nat
  en_canWrite :: bool
  en_rejected :: bool
  en_writeBlocked :: "WriteBlockedReason option"
  en_synced :: bool
  en_listeners :: "nat list"

datatype FieldOut = SendBinary "u8 list" | Notified jstr nat | ResolvedSynced jstr

text \<open>
  \<open>yc_handles\<close> are the handles given out, by identity: the field, the identity of the entry the
  handle holds, and whether it was released.
\<close>

record 'd YjsFields =
  yc_entries :: "(jstr \<times> 'd FieldEntry) list"
  yc_destroyed :: bool
  yc_handles :: "(nat \<times> jstr \<times> nat \<times> bool) list"
  yc_next :: nat
  yc_out :: "FieldOut list"

definition createYjsFields :: "'d YjsFields" where
  "createYjsFields = \<lparr>yc_entries = [], yc_destroyed = False, yc_handles = [], yc_next = 0, yc_out = []\<rparr>"

definition isEmptyUpdate :: "u8 list \<Rightarrow> bool" where
  "isEmptyUpdate u \<longleftrightarrow> length u \<le> 2"

section \<open>Sending\<close>

definition entry_of :: "'d YjsFields \<Rightarrow> jstr \<Rightarrow> 'd FieldEntry option" where
  "entry_of s f = map_of (yc_entries s) f"

definition put_entry :: "'d FieldEntry \<Rightarrow> 'd YjsFields \<Rightarrow> 'd YjsFields" where
  "put_entry e s = s\<lparr>yc_entries := AList.update (en_fieldId e) e (yc_entries s)\<rparr>"

definition out :: "FieldOut list \<Rightarrow> 'd YjsFields \<Rightarrow> 'd YjsFields" where
  "out xs s = s\<lparr>yc_out := yc_out s @ xs\<rparr>"

definition notify :: "'d FieldEntry \<Rightarrow> 'd YjsFields \<Rightarrow> 'd YjsFields" where
  "notify e s = out (map (Notified (en_fieldId e)) (en_listeners e)) s"

text \<open>An id the wire cannot carry makes \<open>encodeFieldFrame\<close> throw: then nothing is sent.\<close>

definition send_binary :: "u8 list res \<Rightarrow> 'd YjsFields \<Rightarrow> 'd YjsFields res" where
  "send_binary frame s = bind_res frame (\<lambda>b. Inr (out [SendBinary b] s))"

definition sendGet :: "'d Yjs \<Rightarrow> 'd FieldEntry \<Rightarrow> 'd YjsFields \<Rightarrow> 'd YjsFields res" where
  "sendGet Y e s = send_binary (encodeFieldFrame FIELD_MSG_GET (en_fieldId e) (y_vector Y (en_doc e))) s"

definition refused_locally :: "'d FieldEntry \<Rightarrow> 'd FieldEntry" where
  "refused_locally e = e\<lparr>en_rejected := True, en_writeBlocked := Some LocalTooLarge, en_canWrite := False\<rparr>"

definition sendUpdate :: "'d FieldEntry \<Rightarrow> u8 list \<Rightarrow> 'd YjsFields \<Rightarrow> ('d FieldEntry \<times> 'd YjsFields) res" where
  "sendUpdate e update s =
     (if MAX_FIELD_UPDATE_BYTES < length update then
        let e = refused_locally e in Inr (e, notify e (put_entry e s))
      else bind_res (send_binary (encodeFieldFrame FIELD_MSG_UPDATE (en_fieldId e) update) s) (\<lambda>s. Inr (e, s)))"

section \<open>Frames from the server\<close>

definition on_update :: "'d Yjs \<Rightarrow> 'd FieldEntry \<Rightarrow> u8 list \<Rightarrow> 'd YjsFields \<Rightarrow> 'd YjsFields" where
  "on_update Y e update s = put_entry (e\<lparr>en_doc := fst (y_apply Y update (en_doc e))\<rparr>) s"

text \<open>A throw inside the push-back is caught; the entry keeps what was done before it.\<close>

definition push_back :: "'d Yjs \<Rightarrow> u8 list \<Rightarrow> 'd FieldEntry \<Rightarrow> 'd YjsFields \<Rightarrow> 'd FieldEntry \<times> 'd YjsFields" where
  "push_back Y sv e s =
     (case y_diff Y (en_doc e) sv of
        None \<Rightarrow> (e, s)
      | Some u \<Rightarrow>
          if isEmptyUpdate u then (e, s)
          else case sendUpdate e u s of Inl err \<Rightarrow> (e, s) | Inr r \<Rightarrow> r)"

definition state_entry :: "'d FieldEntry \<Rightarrow> 'd \<Rightarrow> bool \<Rightarrow> 'd FieldEntry" where
  "state_entry e d w =
     e\<lparr>en_doc := d, en_canWrite := w \<and> \<not> en_rejected e,
       en_writeBlocked := (if en_rejected e then en_writeBlocked e
         else if w then None else Some (ServerReason NotWritable)),
       en_synced := True\<rparr>"

definition on_state :: "'d Yjs \<Rightarrow> 'd FieldEntry \<Rightarrow> FieldState \<Rightarrow> 'd YjsFields \<Rightarrow> 'd YjsFields" where
  "on_state Y e state s =
     (case (if isEmptyUpdate (diff state) then (en_doc e, False) else y_apply Y (diff state) (en_doc e)) of
        (d, threw) \<Rightarrow>
          if threw then put_entry (e\<lparr>en_doc := d\<rparr>) s
          else
            let e' = state_entry e d (writable state);
                s' = put_entry e' s;
                (e'', s'') = (if en_canWrite e' then push_back Y (stateVector state) e' s' else (e', s'));
                s'' = (if en_canWrite e'' \<noteq> en_canWrite e \<or> en_writeBlocked e'' \<noteq> en_writeBlocked e \<or> \<not> en_synced e
                       then notify e'' s'' else s'')
            in out [ResolvedSynced (en_fieldId e)] s'')"

definition refused_by_server :: "'d FieldEntry \<Rightarrow> u8 list \<Rightarrow> 'd FieldEntry" where
  "refused_by_server e bytes =
     e\<lparr>en_rejected := True,
       en_writeBlocked := Some (ServerReason (or_default (decodeFieldReject bytes) NotWritable)),
       en_canWrite := False\<rparr>"

definition on_reject :: "'d FieldEntry \<Rightarrow> u8 list \<Rightarrow> 'd YjsFields \<Rightarrow> 'd YjsFields" where
  "on_reject e bytes s =
     (let e = refused_by_server e bytes
      in notify e (put_entry e s))"

definition onFrame :: "'d Yjs \<Rightarrow> u8 list \<Rightarrow> 'd YjsFields \<Rightarrow> 'd YjsFields" where
  "onFrame Y bytes s =
     (if yc_destroyed s then s
      else case decodeFieldFrame bytes of
        None \<Rightarrow> s
      | Some frame \<Rightarrow>
          (case entry_of s (fieldId frame) of
             None \<Rightarrow> s
           | Some e \<Rightarrow>
               if msgType frame = FIELD_MSG_UPDATE then on_update Y e (payload frame) s
               else if msgType frame = FIELD_MSG_STATE then
                 (case decodeFieldState (payload frame) of None \<Rightarrow> s | Some state \<Rightarrow> on_state Y e state s)
               else if msgType frame = FIELD_MSG_REJECT then on_reject e (payload frame) s
               else s))"

section \<open>The sync client's status\<close>

definition resync_entry :: "'d Yjs \<Rightarrow> jstr \<times> 'd FieldEntry \<Rightarrow> 'd YjsFields \<Rightarrow> 'd YjsFields" where
  "resync_entry Y e s = (case sendGet Y (snd e) s of Inl err \<Rightarrow> s | Inr s \<Rightarrow> s)"

definition onStatus :: "'d Yjs \<Rightarrow> bool \<Rightarrow> 'd YjsFields \<Rightarrow> 'd YjsFields" where
  "onStatus Y synced s = (if yc_destroyed s \<or> \<not> synced then s else fold (resync_entry Y) (yc_entries s) s)"

section \<open>Local edits\<close>

text \<open>A transaction of the editor leaves document \<open>d\<close> and emits the update.\<close>

definition local_edit :: "'d Yjs \<Rightarrow> bool \<Rightarrow> jstr \<Rightarrow> 'd \<Rightarrow> u8 list \<Rightarrow> 'd YjsFields \<Rightarrow> 'd YjsFields" where
  "local_edit Y synced f d update s =
     (case entry_of s f of
        None \<Rightarrow> s
      | Some e \<Rightarrow>
          let e = e\<lparr>en_doc := d\<rparr>; s = put_entry e s in
          if \<not> en_canWrite e \<or> \<not> synced then s
          else case sendUpdate e update s of Inl err \<Rightarrow> s | Inr (e, s) \<Rightarrow> s)"

section \<open>Handles\<close>

definition new_entry :: "'d Yjs \<Rightarrow> nat \<Rightarrow> jstr \<Rightarrow> 'd FieldEntry" where
  "new_entry Y n f = \<lparr>en_uid = n, en_fieldId = f, en_doc = y_new Y, en_refs = 0, en_canWrite = False, en_rejected = False,
     en_writeBlocked = None, en_synced = False, en_listeners = []\<rparr>"

text \<open>The entry of a field, created and announced on first use.\<close>

definition acquire_entry :: "'d Yjs \<Rightarrow> bool \<Rightarrow> jstr \<Rightarrow> 'd YjsFields \<Rightarrow> 'd YjsFields res" where
  "acquire_entry Y synced f s =
     (case entry_of s f of
        Some e \<Rightarrow> Inr s
      | None \<Rightarrow>
          let e = new_entry Y (yc_next s) f; s = put_entry e s in
          if synced then sendGet Y e s else Inr s)"

definition give_handle :: "jstr \<Rightarrow> 'd FieldEntry \<Rightarrow> 'd YjsFields \<Rightarrow> 'd YjsFields" where
  "give_handle f e s =
     (put_entry (e\<lparr>en_refs := en_refs e + 1\<rparr>) s)
       \<lparr>yc_handles := yc_handles s @ [(yc_next s, f, en_uid e, False)], yc_next := yc_next s + 1\<rparr>"

definition getDoc :: "'d Yjs \<Rightarrow> bool \<Rightarrow> jstr \<Rightarrow> 'd YjsFields \<Rightarrow> ('d YjsFields \<times> nat) res" where
  "getDoc Y synced f s =
     (if yc_destroyed s then Inl (OtherError ''destroyed'')
      else
        let idLen = length (utf8 f) in
        if idLen = 0 \<or> MAX_FIELD_ID_BYTES < idLen then Inl (OtherError ''fieldId length'')
        else
          bind_res (acquire_entry Y synced f s)
            (\<lambda>s. case entry_of s f of
               None \<Rightarrow> Inl (OtherError ''unreachable'')
             | Some e \<Rightarrow> Inr (give_handle f e s, yc_next s)))"

definition handle_entry :: "nat \<Rightarrow> 'd YjsFields \<Rightarrow> 'd FieldEntry option" where
  "handle_entry h s =
     (case map_of (yc_handles s) h of
        None \<Rightarrow> None
      | Some (f, uid, released) \<Rightarrow>
          (case entry_of s f of None \<Rightarrow> None | Some e \<Rightarrow> if en_uid e = uid then Some e else None))"

definition subscribe :: "nat \<Rightarrow> nat \<Rightarrow> 'd YjsFields \<Rightarrow> 'd YjsFields" where
  "subscribe h l s =
     (case handle_entry h s of
        None \<Rightarrow> s
      | Some e \<Rightarrow> put_entry (e\<lparr>en_listeners := (if l \<in> set (en_listeners e) then en_listeners e else en_listeners e @ [l])\<rparr>) s)"

definition unsubscribe :: "nat \<Rightarrow> nat \<Rightarrow> 'd YjsFields \<Rightarrow> 'd YjsFields" where
  "unsubscribe h l s =
     (case handle_entry h s of
        None \<Rightarrow> s
      | Some e \<Rightarrow> put_entry (e\<lparr>en_listeners := removeAll l (en_listeners e)\<rparr>) s)"

definition release :: "nat \<Rightarrow> 'd YjsFields \<Rightarrow> 'd YjsFields" where
  "release h s =
     (case map_of (yc_handles s) h of
        None \<Rightarrow> s
      | Some (f, uid, released) \<Rightarrow>
          if released then s
          else
            let held = handle_entry h s; s = s\<lparr>yc_handles := AList.update h (f, uid, True) (yc_handles s)\<rparr> in
            case held of
              None \<Rightarrow> s
            | Some e \<Rightarrow>
                if en_refs e - 1 = 0 then s\<lparr>yc_entries := AList.delete f (yc_entries s)\<rparr>
                else put_entry (e\<lparr>en_refs := en_refs e - 1\<rparr>) s)"

definition destroy :: "'d YjsFields \<Rightarrow> 'd YjsFields" where
  "destroy s = (if yc_destroyed s then s else s\<lparr>yc_destroyed := True, yc_entries := []\<rparr>)"

section \<open>Histories\<close>

datatype 'd FieldsEvent =
    CFrame "u8 list"
  | CStatus bool
  | CEdit bool jstr 'd "u8 list"
  | CGetDoc bool jstr
  | CSubscribe nat nat
  | CUnsubscribe nat nat
  | CRelease nat
  | CDestroy

fun fields_event :: "'d Yjs \<Rightarrow> 'd FieldsEvent \<Rightarrow> 'd YjsFields \<Rightarrow> 'd YjsFields" where
  "fields_event Y (CFrame bytes) s = onFrame Y bytes s"
| "fields_event Y (CStatus synced) s = onStatus Y synced s"
| "fields_event Y (CEdit synced f d u) s = local_edit Y synced f d u s"
| "fields_event Y (CGetDoc synced f) s = (case getDoc Y synced f s of Inl e \<Rightarrow> s | Inr (s, h) \<Rightarrow> s)"
| "fields_event Y (CSubscribe h l) s = subscribe h l s"
| "fields_event Y (CUnsubscribe h l) s = unsubscribe h l s"
| "fields_event Y (CRelease h) s = release h s"
| "fields_event Y CDestroy s = destroy s"

end
