(* ===== verification/YjsServerSpec.thy ===== *)
theory YjsServerSpec
  imports YjsServer
begin

text \<open>
  What the Yjs server half promises: the cached documents are the ones the log holds, byte
  totals are exact, compaction and an export followed by an import keep every document, an
  update is relayed only when it is durable, and a refused socket appends nothing.
  \<open>yjs_restores\<close> is the one law of the library these rest on.
\<close>

section \<open>Histories of an extension\<close>

datatype FieldEvent = FMessage nat "u8 list" ExtCtx | FAlarm | FExport | FImport jval | FReset | FWake

fun field_event :: "'d Yjs \<Rightarrow> YjsFieldsOptions \<Rightarrow> FieldEvent \<Rightarrow> 'd FieldStore \<Rightarrow> 'd FieldStore" where
  "field_event Y opts (FMessage ws bytes c) s = fst (onBinaryMessage Y opts ws bytes c s)"
| "field_event Y opts FAlarm s = onAlarm Y opts s"
| "field_event Y opts FExport s = fst (onExport Y opts s)"
| "field_event Y opts (FImport data) s = (case onImport Y data s of Inl e \<Rightarrow> s | Inr s' \<Rightarrow> s')"
| "field_event Y opts FReset s = onReset s"
| "field_event Y opts FWake s = init (Some s)"

definition field_run :: "'d Yjs \<Rightarrow> YjsFieldsOptions \<Rightarrow> FieldEvent list \<Rightarrow> 'd FieldStore \<Rightarrow> 'd FieldStore" where
  "field_run Y opts = fold (field_event Y opts)"

text \<open>The documented law: a document's encoding builds that document again.\<close>

definition yjs_restores :: "'d Yjs \<Rightarrow> bool" where
  "yjs_restores Y \<longleftrightarrow> (\<forall>d. y_apply Y (y_encode Y d) (y_new Y) = (d, False))"

section \<open>The invariant\<close>

definition log_of :: "'d FieldStore \<Rightarrow> jstr \<Rightarrow> UpdateRow list" where
  "log_of s f = filter (\<lambda>u. up_field u = f) (ys_updates s)"

definition logged_bytes :: "'d FieldStore \<Rightarrow> jstr \<Rightarrow> nat" where
  "logged_bytes s f = sum_list (map (\<lambda>u. length (up_bytes u)) (log_of s f))"

definition snapshot_bytes :: "FieldRow \<Rightarrow> nat" where
  "snapshot_bytes r = (case fr_snapshot r of None \<Rightarrow> 0 | Some b \<Rightarrow> length b)"

definition row_ok :: "'d FieldStore \<Rightarrow> jstr \<Rightarrow> bool" where
  "row_ok s f =
     (case fieldRow s f of
        None \<Rightarrow> log_of s f = []
      | Some r \<Rightarrow> fr_byteTotal r = snapshot_bytes r + logged_bytes s f \<and>
                  list_all (\<lambda>u. fr_snapshotSeq r < up_seq u) (log_of s f))"

definition cache_ok :: "'d Yjs \<Rightarrow> YjsFieldsOptions \<Rightarrow> 'd FieldStore \<Rightarrow> bool" where
  "cache_ok Y opts s \<longleftrightarrow> distinct (map fst (ys_cache s)) \<and> length (ys_cache s) \<le> opt_maxCachedDocs opts \<and>
     (\<forall>(f, d) \<in> set (ys_cache s). materialize Y s f = Inr d)"

definition keys_unique :: "'d FieldStore \<Rightarrow> bool" where
  "keys_unique s \<longleftrightarrow> distinct (map fst (ys_fields s)) \<and> distinct (map (\<lambda>u. (up_field u, up_seq u)) (ys_updates s))"

definition field_inv :: "'d Yjs \<Rightarrow> YjsFieldsOptions \<Rightarrow> 'd FieldStore \<Rightarrow> bool" where
  "field_inv Y opts s \<longleftrightarrow> keys_unique s \<and> (\<forall>f. row_ok s f) \<and> cache_ok Y opts s"

section \<open>The cache\<close>

lemma trim_cache_drop: "trim_cache limit c = List.drop (length c - limit) c"
proof (induction limit c rule: trim_cache.induct)
  case (1 limit c)
  show ?case
  proof (cases "limit < length c")
    case True
    then have "trim_cache limit c = List.drop (length (tl c) - limit) (tl c)"
      using 1 by (subst trim_cache.simps) simp
    also have "\<dots> = List.drop (Suc (length c - 1 - limit)) c" by (simp add: drop_Suc)
    finally show ?thesis using True by (simp add: Suc_diff_Suc)
  next
    case False
    then show ?thesis by (subst trim_cache.simps) simp
  qed
qed

lemma cacheDoc_fields [simp]:
  "ys_fields (cacheDoc opts f d s) = ys_fields s" "ys_updates (cacheDoc opts f d s) = ys_updates s"
  "ys_refused (cacheDoc opts f d s) = ys_refused s"
  by (simp_all add: cacheDoc_def)

lemma fieldRow_cong: "ys_fields s = ys_fields s' \<Longrightarrow> fieldRow s f = fieldRow s' f"
  by (simp add: fieldRow_def)

lemma materialize_cong:
  assumes "fieldRow s f = fieldRow s' f" "log_of s f = log_of s' f"
  shows "materialize Y s f = materialize Y s' f"
proof -
  have "filter (\<lambda>u. up_field u = f \<and> n < up_seq u) (ys_updates t) = filter (\<lambda>u. n < up_seq u) (log_of t f)"
    for n and t :: "'c FieldStore" by (simp add: log_of_def conj_commute)
  then have "log_tail s f n = log_tail s' f n" for n
    using assms(2) by (simp add: log_tail_def log_of_def conj_commute flip: filter_filter)
  then show ?thesis using assms(1) by (simp add: materialize_def)
qed

lemma materialize_tables:
  "ys_fields s = ys_fields s' \<Longrightarrow> ys_updates s = ys_updates s' \<Longrightarrow> materialize Y s f = materialize Y s' f"
  by (rule materialize_cong) (simp_all add: fieldRow_def log_of_def)

lemma cache_entries: "(g, e) \<in> set (ys_cache (cacheDoc opts f d s)) \<Longrightarrow> (g, e) \<in> set (ys_cache s) \<or> (g, e) = (f, d)"
  by (auto simp: cacheDoc_def trim_cache_drop AList.delete_eq dest!: in_set_dropD)

lemma cache_ok_cacheDoc:
  assumes "cache_ok Y opts s" "materialize Y s f = Inr d"
  shows "cache_ok Y opts (cacheDoc opts f d s)"
proof -
  have m: "materialize Y (cacheDoc opts f d s) g = materialize Y s g" for g
    by (rule materialize_tables) simp_all
  define c where "c = AList.delete f (ys_cache s) @ [(f, d)]"
  have "distinct (map fst c)"
    using assms(1) by (simp add: c_def cache_ok_def delete_keys distinct_removeAll)
  then have "distinct (map fst (ys_cache (cacheDoc opts f d s)))"
    by (simp add: cacheDoc_def trim_cache_drop c_def [symmetric] distinct_drop flip: drop_map)
  moreover have "length (ys_cache (cacheDoc opts f d s)) \<le> opt_maxCachedDocs opts"
    by (simp add: cacheDoc_def trim_cache_drop)
  ultimately show ?thesis
    using assms cache_entries [of _ _ opts f d s] by (fastforce simp: cache_ok_def m)
qed

lemma cache_ok_subset:
  assumes "cache_ok Y opts s" "set (ys_cache s') \<subseteq> set (ys_cache s)" "distinct (map fst (ys_cache s'))"
    "length (ys_cache s') \<le> length (ys_cache s)"
    "\<And>f d. (f, d) \<in> set (ys_cache s') \<Longrightarrow> materialize Y s' f = materialize Y s f"
  shows "cache_ok Y opts s'"
  using assms by (fastforce simp: cache_ok_def)

lemma row_ok_tables:
  assumes "ys_fields s' = ys_fields s" "ys_updates s' = ys_updates s"
  shows "row_ok s' f = row_ok s f"
proof -
  have "log_of s' f = log_of s f" "fieldRow s' f = fieldRow s f" using assms by (simp_all add: log_of_def fieldRow_def)
  then show ?thesis by (cases "fieldRow s f") (simp_all add: row_ok_def logged_bytes_def)
qed

text \<open>The invariant depends on the tables and the cache only.\<close>

lemma field_inv_tables:
  assumes "field_inv Y opts s" "ys_fields s' = ys_fields s" "ys_updates s' = ys_updates s" "cache_ok Y opts s'"
  shows "field_inv Y opts s'"
  using assms row_ok_tables [OF assms(2,3)] by (simp add: field_inv_def keys_unique_def)

lemma cache_ok_same:
  "ys_fields s' = ys_fields s \<Longrightarrow> ys_updates s' = ys_updates s \<Longrightarrow> ys_cache s' = ys_cache s
   \<Longrightarrow> cache_ok Y opts s' = cache_ok Y opts s"
  using materialize_tables [of s' s Y] by (simp add: cache_ok_def)

lemma loadDoc_tables [simp]:
  "ys_fields (fst (loadDoc Y opts b f s)) = ys_fields s" "ys_updates (fst (loadDoc Y opts b f s)) = ys_updates s"
  "ys_refused (fst (loadDoc Y opts b f s)) = ys_refused s"
  by (simp_all add: loadDoc_def split: option.split sum.split)

lemma loadDoc_result:
  assumes "cache_ok Y opts s"
  shows "snd (loadDoc Y opts b f s) = materialize Y s f" "cache_ok Y opts (fst (loadDoc Y opts b f s))"
proof -
  have c: "materialize Y s f = Inr d" if "map_of (ys_cache s) f = Some d" for d
    using assms map_of_SomeD [OF that] by (auto simp: cache_ok_def)
  show "snd (loadDoc Y opts b f s) = materialize Y s f"
    by (auto simp: loadDoc_def c split: option.split sum.split)
  show "cache_ok Y opts (fst (loadDoc Y opts b f s))"
    using assms cache_ok_cacheDoc [OF assms] c by (auto simp: loadDoc_def split: option.split sum.split)
qed

lemma field_inv_loadDoc: "field_inv Y opts s \<Longrightarrow> field_inv Y opts (fst (loadDoc Y opts b f s))"
  by (rule field_inv_tables) (simp_all add: loadDoc_result field_inv_def)


section \<open>Appending to the log\<close>

lemma log_tail_of: "log_tail s f n = sort_key up_seq (filter (\<lambda>u. n < up_seq u) (log_of s f))"
  by (simp add: log_tail_def log_of_def conj_commute)

lemma materialize_eq:
  "materialize Y s f =
     bind_res (case (case fieldRow s f of None \<Rightarrow> None | Some r \<Rightarrow> fr_snapshot r) of
           None \<Rightarrow> Inr (y_new Y)
         | Some b \<Rightarrow> (case y_apply Y b (y_new Y) of
                        (d, threw) \<Rightarrow> if threw then Inl (OtherError ''corrupt snapshot'') else Inr d))
        (\<lambda>d. Inr (fold (\<lambda>u d. fst (y_apply Y (up_bytes u) d)) (log_tail s f (snapshot_seq (fieldRow s f))) d))"
  by (simp only: materialize_def Let_def)

lemma fold_max: "(\<forall>x \<in> set xs. x \<le> fold max xs n) \<and> n \<le> fold max xs n \<and> fold max xs n \<in> insert n (set xs)"
  for n :: nat
  by (induction xs arbitrary: n) (fastforce simp: max_def)+

lemma max_seq_None: "max_seq s f = None \<longleftrightarrow> log_of s f = []"
  by (auto simp: max_seq_def log_of_def split: list.split)

lemma max_seq_Some:
  assumes "max_seq s f = Some n"
  shows "n \<in> up_seq ` set (log_of s f)" "\<And>u. u \<in> set (log_of s f) \<Longrightarrow> up_seq u \<le> n"
proof -
  obtain m ms where m: "map up_seq (log_of s f) = m # ms" "n = fold max ms m"
    using assms by (auto simp: max_seq_def log_of_def split: list.splits)
  have "up_seq ` set (log_of s f) = insert m (set ms)" using m(1) by (metis list.set_map list.simps(15))
  then show "n \<in> up_seq ` set (log_of s f)" "\<And>u. u \<in> set (log_of s f) \<Longrightarrow> up_seq u \<le> n"
    using fold_max [of ms m] m(2) by (blast, fastforce)
qed

lemma insort_last: "up_seq u \<le> up_seq v \<Longrightarrow> insort_key up_seq u (xs @ [v]) = insort_key up_seq u xs @ [v]"
  by (induction xs) auto

lemma sort_snoc: "(\<And>u. u \<in> set xs \<Longrightarrow> up_seq u < up_seq v) \<Longrightarrow> sort_key up_seq (xs @ [v]) = sort_key up_seq xs @ [v]"
proof (induction xs)
  case (Cons u xs)
  then have "up_seq u \<le> up_seq v" by (simp add: less_imp_le)
  then show ?case using Cons insort_last [of u v "sort_key up_seq xs"] by auto
qed simp

definition next_seq :: "'d FieldStore \<Rightarrow> jstr \<Rightarrow> nat" where
  "next_seq s f = or_default (max_seq s f) (snapshot_seq (fieldRow s f)) + 1"

lemma next_seq_new:
  assumes "row_ok s f"
  shows "snapshot_seq (fieldRow s f) < next_seq s f" "\<And>u. u \<in> set (log_of s f) \<Longrightarrow> up_seq u < next_seq s f"
proof -
  show l: "up_seq u < next_seq s f" if "u \<in> set (log_of s f)" for u
  proof (cases "max_seq s f")
    case None
    then show ?thesis using that by (simp add: max_seq_None)
  next
    case (Some n)
    then show ?thesis using max_seq_Some(2) [OF Some that] by (simp add: next_seq_def or_default_def)
  qed
  show "snapshot_seq (fieldRow s f) < next_seq s f"
  proof (cases "max_seq s f")
    case None
    then show ?thesis by (simp add: next_seq_def or_default_def)
  next
    case (Some n)
    then obtain u where u: "u \<in> set (log_of s f)" using max_seq_Some(1) [OF Some] by auto
    then have "snapshot_seq (fieldRow s f) < up_seq u"
      using assms by (auto simp: row_ok_def snapshot_seq_def list_all_iff split: option.splits)
    then show ?thesis using l [OF u] by simp
  qed
qed

text \<open>The state after the append transaction.\<close>

definition appended :: "jstr \<Rightarrow> u8 list \<Rightarrow> nat \<Rightarrow> bool \<Rightarrow> 'd FieldStore \<Rightarrow> 'd FieldStore" where
  "appended f u n b s = append_update f u (fieldRow s f) (upsert_totals f n b s)"

lemma max_seq_upsert [simp]: "max_seq (upsert_totals f n b s) g = max_seq s g"
  by (simp add: max_seq_def upsert_totals_def)

lemma appended_fields [simp]:
  "ys_cache (appended f u n b s) = ys_cache s" "ys_refused (appended f u n b s) = ys_refused s"
  by (simp_all add: appended_def append_update_def upsert_totals_def)

lemma appended_row:
  "fieldRow (appended f u n b s) g =
     (if g = f then Some (case fieldRow s f of
            None \<Rightarrow> \<lparr>fr_snapshot = None, fr_snapshotSeq = 0, fr_byteTotal = n, fr_frozen = b\<rparr>
          | Some r \<Rightarrow> r\<lparr>fr_byteTotal := n, fr_frozen := b\<rparr>) else fieldRow s g)"
  by (simp add: appended_def append_update_def upsert_totals_def fieldRow_def map_facts)

lemma appended_updates:
  "ys_updates (appended f u n b s) = ys_updates s @ [\<lparr>up_field = f, up_seq = next_seq s f, up_bytes = u\<rparr>]"
  by (simp add: appended_def append_update_def next_seq_def) (simp add: upsert_totals_def)

lemma appended_log:
  "log_of (appended f u n b s) g =
     (if g = f then log_of s f @ [\<lparr>up_field = f, up_seq = next_seq s f, up_bytes = u\<rparr>] else log_of s g)"
  by (simp add: log_of_def appended_updates)

lemma materialize_appended:
  assumes "row_ok s f"
  shows "materialize Y (appended f u n b s) g =
    (if g = f then bind_res (materialize Y s f) (\<lambda>d. Inr (fst (y_apply Y u d))) else materialize Y s g)"
proof (cases "g = f")
  case True
  let ?s = "appended f u n b s"
  have q: "snapshot_seq (fieldRow ?s f) = snapshot_seq (fieldRow s f)"
    by (simp add: appended_row snapshot_seq_def split: option.split)
  have "log_tail ?s f (snapshot_seq (fieldRow s f))
      = log_tail s f (snapshot_seq (fieldRow s f)) @ [\<lparr>up_field = f, up_seq = next_seq s f, up_bytes = u\<rparr>]"
    using next_seq_new [OF assms] by (simp add: log_tail_of appended_log) (rule sort_snoc, auto)
  moreover have "(case fieldRow ?s f of None \<Rightarrow> None | Some r \<Rightarrow> fr_snapshot r)
      = (case fieldRow s f of None \<Rightarrow> None | Some r \<Rightarrow> fr_snapshot r)"
    by (simp add: appended_row split: option.split)
  ultimately show ?thesis
    by (simp add: True materialize_eq q bind_res_def split: sum.split)
next
  case False
  then show ?thesis using materialize_cong [of "appended f u n b s" g s Y] by (simp add: appended_row appended_log)
qed

lemma keys_unique_appended:
  assumes "keys_unique s" "row_ok s f"
  shows "keys_unique (appended f u n b s)"
proof -
  have "(f, next_seq s f) \<notin> (\<lambda>u. (up_field u, up_seq u)) ` set (ys_updates s)"
    using next_seq_new(2) [OF assms(2)] by (fastforce simp: log_of_def)
  moreover have "distinct (map fst (ys_fields (appended f u n b s)))"
    using assms(1) by (auto simp: appended_def append_update_def upsert_totals_def keys_unique_def)
  ultimately show ?thesis using assms(1) by (simp add: keys_unique_def appended_updates)
qed

lemma row_ok_appended:
  assumes "row_ok s f" "row_ok s g" "n = (case fieldRow s f of None \<Rightarrow> 0 | Some r \<Rightarrow> fr_byteTotal r) + length u"
  shows "row_ok (appended f u n b s) g"
proof (cases "g = f")
  case True
  have "snapshot_seq (fieldRow s f) < next_seq s f" by (rule next_seq_new(1) [OF assms(1)])
  then show ?thesis using assms
    by (simp add: True row_ok_def appended_row appended_log logged_bytes_def snapshot_bytes_def snapshot_seq_def
        split: option.splits)
next
  case False
  then show ?thesis using assms(2)
    by (simp add: row_ok_def appended_row appended_log logged_bytes_def split: option.splits)
qed

lemma refresh_tables [simp]:
  "ys_fields (refresh_cached Y f u s) = ys_fields s" "ys_updates (refresh_cached Y f u s) = ys_updates s"
  "ys_refused (refresh_cached Y f u s) = ys_refused s"
  by (simp_all add: refresh_cached_def evictDoc_def split: option.split prod.split)

lemma field_inv_append:
  assumes i: "field_inv Y opts s"
    and n: "n = (case fieldRow s f of None \<Rightarrow> 0 | Some r \<Rightarrow> fr_byteTotal r) + length u"
  shows "field_inv Y opts (refresh_cached Y f u (appended f u n b s))"
proof -
  let ?a = "appended f u n b s"
  let ?s = "refresh_cached Y f u ?a"
  have r: "row_ok s g" for g using i by (simp add: field_inv_def)
  have c: "cache_ok Y opts s" using i by (simp add: field_inv_def)
  have m: "materialize Y ?s g = materialize Y ?a g" for g by (rule materialize_tables) simp_all
  have sub: "(g, d) \<in> set (ys_cache ?s) \<Longrightarrow> materialize Y ?a g = Inr d" for g d
  proof (cases "g = f")
    case True
    assume e: "(g, d) \<in> set (ys_cache ?s)"
    obtain d0 where d0: "map_of (ys_cache s) f = Some d0" "y_apply Y u d0 = (d, False)"
    proof (cases "map_of (ys_cache s) f")
      case None
      with e True show ?thesis by (simp add: refresh_cached_def) (auto simp: map_of_eq_None_iff image_iff)
    next
      case (Some d0)
      obtain d1 t where a: "y_apply Y u d0 = (d1, t)" by fastforce
      have t: "\<not> t" using e True Some a by (auto simp: refresh_cached_def evictDoc_def AList.delete_eq)
      then have "map_of (ys_cache ?s) g = Some d"
        using e c Some a by (intro map_of_is_SomeI) (auto simp: refresh_cached_def cache_ok_def)
      then show ?thesis using that Some a t True by (simp add: refresh_cached_def map_facts)
    qed
    have "materialize Y s f = Inr d0" using c map_of_SomeD [OF d0(1)] by (auto simp: cache_ok_def)
    then show ?thesis by (simp add: True materialize_appended [OF r] d0(2))
  next
    case False
    assume e: "(g, d) \<in> set (ys_cache ?s)"
    have "(g, d) \<in> set (ys_cache s)"
    proof (cases "map_of (ys_cache s) f")
      case None
      with e show ?thesis by (simp add: refresh_cached_def)
    next
      case (Some d0)
      obtain d1 t where a: "y_apply Y u d0 = (d1, t)" by fastforce
      show ?thesis
      proof (cases t)
        case True
        then show ?thesis using e Some a by (auto simp: refresh_cached_def evictDoc_def AList.delete_eq)
      next
        case False
        have "map_of (AList.update f d1 (ys_cache s)) g = Some d"
          using e c Some a False by (intro map_of_is_SomeI) (auto simp: refresh_cached_def cache_ok_def)
        then show ?thesis using \<open>g \<noteq> f\<close> by (auto simp: map_facts intro: map_of_SomeD)
      qed
    qed
    then show ?thesis using c False by (auto simp: cache_ok_def materialize_appended [OF r])
  qed
  have d: "distinct (map fst (ys_cache ?s))" "length (ys_cache ?s) \<le> length (ys_cache s)"
    using c by (auto simp: refresh_cached_def evictDoc_def cache_ok_def length_update_present length_delete_le distinct_delete
        split: option.split prod.split)
  have "cache_ok Y opts ?s" using sub d c by (fastforce simp: cache_ok_def m)
  moreover have "keys_unique ?s" using keys_unique_appended [of s f u n b] i r by (simp add: keys_unique_def field_inv_def)
  moreover have "row_ok ?s g" for g using row_ok_appended [OF r r n] row_ok_tables [of ?s ?a g] by simp
  ultimately show ?thesis by (simp add: field_inv_def)
qed


section \<open>Messages\<close>

lemma markRefused_tables [simp]:
  "ys_fields (markRefused ws f s) = ys_fields s" "ys_updates (markRefused ws f s) = ys_updates s"
  "ys_cache (markRefused ws f s) = ys_cache s"
  by (simp_all add: markRefused_def)

lemma send_frame_state [simp]: "fst (send_frame ws r s) = s"
  by (simp add: send_frame_def split: sum.split)

lemma field_inv_markRefused: "field_inv Y opts s \<Longrightarrow> field_inv Y opts (markRefused ws f s)"
  by (rule field_inv_tables) (simp_all add: field_inv_def cache_ok_same [of "markRefused ws f s" s])

text \<open>What an update message does: nothing, a refusal, or an append that is relayed.\<close>

definition accepts :: "'d Yjs \<Rightarrow> YjsFieldsOptions \<Rightarrow> nat \<Rightarrow> jstr \<Rightarrow> u8 list \<Rightarrow> ExtCtx \<Rightarrow> 'd FieldStore \<Rightarrow> bool" where
  "accepts Y opts ws f u c s \<longleftrightarrow>
     \<not> refused_on s ws f \<and> opt_authorizeWrite opts (writeContext f c) = Inr True \<and>
     length u \<le> MAX_FIELD_UPDATE_BYTES \<and>
     (case fieldRow s f of None \<Rightarrow> True | Some r \<Rightarrow> \<not> fr_frozen r) \<and> y_decodes Y u"

definition new_total :: "'d FieldStore \<Rightarrow> jstr \<Rightarrow> u8 list \<Rightarrow> nat" where
  "new_total s f u = (case fieldRow s f of None \<Rightarrow> 0 | Some r \<Rightarrow> fr_byteTotal r) + length u"

lemma handleUpdate_cases:
  "(accepts Y opts ws f u c s \<and>
     handleUpdate Y opts ws f u frame c s
     = (refresh_cached Y f u (appended f u (new_total s f u) (MAX_FIELD_BYTES < new_total s f u) s),
        [XBroadcast frame (Some ws)], None))
   \<or> (\<not> accepts Y opts ws f u c s \<and> (\<exists>e. handleUpdate Y opts ws f u frame c s = (s, [], e)))
   \<or> (\<not> accepts Y opts ws f u c s \<and> (\<exists>r. handleUpdate Y opts ws f u frame c s = reject ws f r s))"
  by (auto simp: handleUpdate_def accepts_def new_total_def appended_def Let_def split: sum.splits option.splits)

lemma reject_state: "fst (reject ws f r s) = markRefused ws f s"
  by (simp add: reject_def)

lemma field_inv_update:
  assumes "field_inv Y opts s"
  shows "field_inv Y opts (fst (handleUpdate Y opts ws f u frame c s))"
  using handleUpdate_cases [of Y opts ws f u c s frame]
    field_inv_append [OF assms, of "new_total s f u" f u] field_inv_markRefused [OF assms]
  by (auto simp: reject_state new_total_def assms)

lemma handleGet_state:
  "fst (handleGet Y opts ws f sv c s) = s \<or> fst (handleGet Y opts ws f sv c s) = fst (loadDoc Y opts False f s)"
  by (auto simp: handleGet_def Let_def split: sum.split prod.split)

lemma handleGet_tables [simp]:
  "ys_fields (fst (handleGet Y opts ws f sv c s)) = ys_fields s"
  "ys_updates (fst (handleGet Y opts ws f sv c s)) = ys_updates s"
  "ys_refused (fst (handleGet Y opts ws f sv c s)) = ys_refused s"
  using handleGet_state [of Y opts ws f sv c s] by (metis loadDoc_tables)+

lemma onBinaryMessage_cases:
  obtains "fst (onBinaryMessage Y opts ws bytes c s) = s" "fst (snd (onBinaryMessage Y opts ws bytes c s)) = []"
  | fr where "decodeFieldFrame bytes = Some fr" "msgType fr = FIELD_MSG_GET" "xc_ready c"
      "onBinaryMessage Y opts ws bytes c s = handleGet Y opts ws (fieldId fr) (payload fr) c s"
  | fr where "decodeFieldFrame bytes = Some fr" "msgType fr = FIELD_MSG_UPDATE" "xc_ready c"
      "onBinaryMessage Y opts ws bytes c s = handleUpdate Y opts ws (fieldId fr) (payload fr) bytes c s"
proof (cases "xc_ready c \<and> decodeFieldFrame bytes \<noteq> None")
  case True
  then obtain fr where "decodeFieldFrame bytes = Some fr" by auto
  with True that show ?thesis
    by (cases "msgType fr = FIELD_MSG_GET"; cases "msgType fr = FIELD_MSG_UPDATE")
       (simp_all add: onBinaryMessage_def FIELD_MSG_GET_def FIELD_MSG_UPDATE_def)
qed (use that(1) in \<open>auto simp: onBinaryMessage_def\<close>)

lemma field_inv_message:
  assumes "field_inv Y opts s"
  shows "field_inv Y opts (fst (onBinaryMessage Y opts ws bytes c s))"
proof (rule onBinaryMessage_cases [of Y opts ws bytes c s])
  fix fr
  assume "onBinaryMessage Y opts ws bytes c s = handleGet Y opts ws (fieldId fr) (payload fr) c s"
  then show ?thesis
    using handleGet_state [of Y opts ws "fieldId fr" "payload fr" c s] assms field_inv_loadDoc [OF assms] by auto
qed (use assms field_inv_update in simp_all)

section \<open>Compaction\<close>

definition compacted :: "jstr \<Rightarrow> u8 list \<Rightarrow> nat \<Rightarrow> 'd FieldStore \<Rightarrow> 'd FieldStore" where
  "compacted f snap n s =
     s\<lparr>ys_fields := map (\<lambda>(k, r). (k, if k = f then r\<lparr>fr_snapshot := Some snap,
                           fr_snapshotSeq := n, fr_byteTotal := length snap\<rparr> else r)) (ys_fields s),
       ys_updates := filter (\<lambda>u. \<not> (up_field u = f \<and> up_seq u \<le> n)) (ys_updates s)\<rparr>"

lemma compacted_row:
  "fieldRow (compacted f snap n s) g =
     (if g = f then map_option (\<lambda>r. r\<lparr>fr_snapshot := Some snap, fr_snapshotSeq := n, fr_byteTotal := length snap\<rparr>)
                      (fieldRow s f) else fieldRow s g)"
proof -
  have "map_of (map (\<lambda>(k, r). (k, if k = f then h r else r)) xs) g
      = (if g = f then map_option h (map_of xs f) else map_of xs g)" for xs and h :: "FieldRow \<Rightarrow> FieldRow"
    by (induction xs) auto
  then show ?thesis by (simp add: fieldRow_def compacted_def)
qed

lemma compacted_log:
  assumes "max_seq s f = Some n"
  shows "log_of (compacted f snap n s) g = (if g = f then [] else log_of s g)"
proof (cases "g = f")
  case True
  then show ?thesis using max_seq_Some(2) [OF assms] by (auto simp: log_of_def compacted_def filter_empty_conv)
next
  case False
  then show ?thesis by (auto simp: log_of_def compacted_def intro: filter_cong)
qed

lemma compacted_materialize:
  assumes "max_seq s f = Some n" "row_ok s f" "materialize Y s f = Inr d" "yjs_restores Y"
  shows "materialize Y (compacted f (y_encode Y d) n s) g = materialize Y s g"
proof (cases "g = f")
  case True
  have "log_of s f \<noteq> []" using assms(1) by (simp add: max_seq_None [symmetric])
  then obtain r where r: "fieldRow s f = Some r" using assms(2) by (auto simp: row_ok_def split: option.splits)
  have "y_apply Y (y_encode Y d) (y_new Y) = (d, False)" using assms(4) by (simp add: yjs_restores_def)
  then show ?thesis
    by (simp add: True assms(3)) (simp add: materialize_eq compacted_row r log_tail_of compacted_log [OF assms(1)])
next
  case False
  then show ?thesis
    using materialize_cong [of "compacted f (y_encode Y d) n s" g s Y] by (simp add: compacted_row compacted_log [OF assms(1)])
qed

lemma compactField_cases:
  assumes "field_inv Y opts s"
  shows "(max_seq s f = None \<or> (\<exists>e. materialize Y s f = Inl e)) \<and> fst (compactField Y opts f s) = s
    \<or> (\<exists>n d. max_seq s f = Some n \<and> materialize Y s f = Inr d \<and>
         fst (compactField Y opts f s) = cacheDoc opts f d (compacted f (y_encode Y d) n (cacheDoc opts f d s)))"
  by (auto simp: compactField_def loadDoc_def Let_def compacted_def cacheDoc_def split: option.split sum.split)

lemma map_fst_compacted: "map fst (ys_fields (compacted f b n s)) = map fst (ys_fields s)"
  by (simp add: compacted_def case_prod_beta comp_def)

lemma field_inv_compact:
  assumes i: "field_inv Y opts s" and y: "yjs_restores Y"
  shows "field_inv Y opts (fst (compactField Y opts f s)) \<and>
    (\<forall>g. materialize Y (fst (compactField Y opts f s)) g = materialize Y s g) \<and>
    (\<forall>g. map_option fr_frozen (fieldRow (fst (compactField Y opts f s)) g) = map_option fr_frozen (fieldRow s g)) \<and>
    (\<forall>g. g \<noteq> f \<longrightarrow> log_of (fst (compactField Y opts f s)) g = log_of s g) \<and>
    ((\<exists>d. materialize Y s f = Inr d) \<longrightarrow> log_of (fst (compactField Y opts f s)) f = [])"
  using compactField_cases [OF i, of f]
proof (elim disjE exE conjE)
  fix n d
  assume n: "max_seq s f = Some n" and d: "materialize Y s f = Inr d"
    and e: "fst (compactField Y opts f s) = cacheDoc opts f d (compacted f (y_encode Y d) n (cacheDoc opts f d s))"
  let ?s = "cacheDoc opts f d s"
  let ?c = "compacted f (y_encode Y d) n ?s"
  have m: "materialize Y ?s g = materialize Y s g" for g by (rule materialize_tables) simp_all
  have n': "max_seq ?s f = Some n" using n by (simp add: max_seq_def)
  have is': "field_inv Y opts ?s"
    using i d cache_ok_cacheDoc by (intro field_inv_tables [OF i]) (auto simp: field_inv_def)
  have r: "row_ok ?s g" for g using is' by (simp add: field_inv_def)
  have mc: "materialize Y ?c g = materialize Y ?s g" for g
    by (rule compacted_materialize [OF n' r _ y]) (simp add: m d)
  have k: "cache_ok Y opts ?s" using is' by (simp add: field_inv_def)
  have kc: "ys_cache ?c = ys_cache ?s" by (simp add: compacted_def)
  have "cache_ok Y opts ?c"
  proof (rule cache_ok_subset [OF k])
    show "distinct (map fst (ys_cache ?c))" unfolding kc using k by (simp add: cache_ok_def)
  qed (simp_all only: kc mc order.refl)
  then have "cache_ok Y opts (cacheDoc opts f d ?c)" by (rule cache_ok_cacheDoc) (simp add: mc m d)
  moreover have "distinct (map fst (ys_fields ?c))"
    using is' by (simp only: map_fst_compacted field_inv_def keys_unique_def)
  then have "keys_unique ?c"
    using is' by (simp add: field_inv_def keys_unique_def) (simp add: compacted_def distinct_map_filter)
  moreover have "row_ok ?c g" for g
    using r [of g] by (auto simp: row_ok_def compacted_row compacted_log [OF n'] logged_bytes_def snapshot_bytes_def
        split: option.splits if_splits)
  ultimately have "field_inv Y opts (cacheDoc opts f d ?c)"
    using row_ok_tables [of "cacheDoc opts f d ?c" ?c] by (simp add: field_inv_def keys_unique_def)
  moreover have "materialize Y (cacheDoc opts f d ?c) g = materialize Y s g" for g
    using materialize_tables [of "cacheDoc opts f d ?c" ?c Y g] by (simp add: mc m)
  moreover have "fieldRow (cacheDoc opts f d t) g = fieldRow t g" "log_of (cacheDoc opts f d t) g = log_of t g" for g t
    by (simp_all add: fieldRow_def log_of_def)
  then have "map_option fr_frozen (fieldRow (cacheDoc opts f d ?c) g) = map_option fr_frozen (fieldRow s g)"
    "log_of (cacheDoc opts f d ?c) g = (if g = f then [] else log_of s g)" for g
    by (simp_all add: compacted_row compacted_log [OF n'] option.map_comp comp_def)
  ultimately show ?thesis unfolding e by simp
qed (use i in \<open>auto simp: max_seq_None\<close>)


lemma compact_all:
  assumes "field_inv Y opts s" "yjs_restores Y"
  shows "field_inv Y opts (fold (\<lambda>f s. fst (compactField Y opts f s)) fs s) \<and>
    (\<forall>g. materialize Y (fold (\<lambda>f s. fst (compactField Y opts f s)) fs s) g = materialize Y s g) \<and>
    (\<forall>g. map_option fr_frozen (fieldRow (fold (\<lambda>f s. fst (compactField Y opts f s)) fs s) g)
         = map_option fr_frozen (fieldRow s g)) \<and>
    (\<forall>g. log_of (fold (\<lambda>f s. fst (compactField Y opts f s)) fs s) g \<in> {log_of s g, []}) \<and>
    (\<forall>g \<in> set fs. (\<exists>d. materialize Y s g = Inr d) \<longrightarrow> log_of (fold (\<lambda>f s. fst (compactField Y opts f s)) fs s) g = [])"
  using assms(1)
proof (induction fs arbitrary: s)
  case (Cons f fs)
  define s1 where "s1 = fst (compactField Y opts f s)"
  define s2 where "s2 = fold (\<lambda>f s. fst (compactField Y opts f s)) fs s1"
  note a = field_inv_compact [OF Cons.prems assms(2), of f, folded s1_def]
  note b = Cons.IH [of s1, folded s2_def]
  have e: "fold (\<lambda>f s. fst (compactField Y opts f s)) (f # fs) s = s2" by (simp add: s1_def s2_def)
  have l: "log_of s1 g \<in> {log_of s g, []}" for g
    using a compactField_cases [OF Cons.prems, of f, folded s1_def] by (cases "g = f") auto
  show ?case unfolding e using a b l by simp (metis insert_iff singletonD)
qed simp

lemma onAlarm_keeps:
  assumes "field_inv Y opts s" "yjs_restores Y"
  shows "field_inv Y opts (onAlarm Y opts s)"
    "materialize Y (onAlarm Y opts s) g = materialize Y s g"
    "map_option fr_frozen (fieldRow (onAlarm Y opts s) g) = map_option fr_frozen (fieldRow s g)"
    "materialize Y s g = Inr d \<Longrightarrow> length (log_of (onAlarm Y opts s) g) \<le> opt_compactionThreshold opts"
proof -
  note a = compact_all [OF assms, of "compaction_candidates opts s", folded onAlarm_def]
  show "field_inv Y opts (onAlarm Y opts s)"
    "materialize Y (onAlarm Y opts s) g = materialize Y s g"
    "map_option fr_frozen (fieldRow (onAlarm Y opts s) g) = map_option fr_frozen (fieldRow s g)"
    using a by blast+
  assume d: "materialize Y s g = Inr d"
  show "length (log_of (onAlarm Y opts s) g) \<le> opt_compactionThreshold opts"
  proof (cases "g \<in> set (compaction_candidates opts s)")
    case True
    then have "log_of (onAlarm Y opts s) g = []" using a d by blast
    then show ?thesis by simp
  next
    case False
    then have "length (log_of s g) \<le> opt_compactionThreshold opts"
      by (cases "log_of s g") (auto simp: compaction_candidates_def log_of_def image_iff filter_eq_Cons_iff not_less)
    moreover have "log_of (onAlarm Y opts s) g \<in> {log_of s g, []}" using a by blast
    ultimately show ?thesis by auto
  qed
qed

text \<open>What the alarm does to the rows of each field.\<close>

definition same_field :: "jstr \<Rightarrow> 'd FieldStore \<Rightarrow> 'd FieldStore \<Rightarrow> bool" where
  "same_field f s s' \<longleftrightarrow> fieldRow s' f = fieldRow s f \<and> log_of s' f = log_of s f"

definition folded_field :: "'d Yjs \<Rightarrow> 'd \<Rightarrow> jstr \<Rightarrow> 'd FieldStore \<Rightarrow> 'd FieldStore \<Rightarrow> bool" where
  "folded_field Y d f s s' \<longleftrightarrow> log_of s' f = [] \<and>
     (\<exists>n r. fieldRow s f = Some r \<and> (\<forall>u \<in> set (log_of s f). up_seq u \<le> n) \<and>
        fieldRow s' f = Some (r\<lparr>fr_snapshot := Some (y_encode Y d), fr_snapshotSeq := n, fr_byteTotal := length (y_encode Y d)\<rparr>))"

lemma compactField_exact:
  assumes "field_inv Y opts s"
  shows "g \<noteq> f \<Longrightarrow> same_field g s (fst (compactField Y opts f s))"
    "materialize Y s f = Inl e \<Longrightarrow> same_field f s (fst (compactField Y opts f s))"
    "materialize Y s f = Inr d \<Longrightarrow> log_of s f \<noteq> [] \<Longrightarrow> folded_field Y d f s (fst (compactField Y opts f s))"
proof -
  let ?s' = "fst (compactField Y opts f s)"
  consider (same) "?s' = s" "max_seq s f = None \<or> (\<exists>e. materialize Y s f = Inl e)"
    | (new) n d where "max_seq s f = Some n" "materialize Y s f = Inr d"
        "?s' = cacheDoc opts f d (compacted f (y_encode Y d) n (cacheDoc opts f d s))"
    using compactField_cases [OF assms, of f] by blast
  then have "(g \<noteq> f \<longrightarrow> same_field g s ?s') \<and> (materialize Y s f = Inl e \<longrightarrow> same_field f s ?s') \<and>
     (materialize Y s f = Inr d \<longrightarrow> log_of s f \<noteq> [] \<longrightarrow> folded_field Y d f s ?s')"
  proof cases
    case same
    then show ?thesis by (auto simp: same_field_def max_seq_None)
  next
    case (new n d')
    have n: "max_seq (cacheDoc opts f x s) f = Some n" for x using new(1) by (simp add: max_seq_def)
    have c: "fieldRow (cacheDoc opts f x t) h = fieldRow t h" "log_of (cacheDoc opts f x t) h = log_of t h" for h t x
      by (simp_all add: fieldRow_def log_of_def)
    have "log_of s f \<noteq> []" using new(1) by (simp add: max_seq_None [symmetric])
    moreover have "row_ok s f" using assms by (simp add: field_inv_def)
    ultimately obtain r where r: "fieldRow s f = Some r" by (auto simp: row_ok_def split: option.splits)
    have "\<forall>u \<in> set (log_of s f). up_seq u \<le> n" using max_seq_Some(2) [OF new(1)] by (auto simp: log_of_def)
    then show ?thesis using new(2) r
      by (auto simp: new(3) same_field_def folded_field_def c compacted_row compacted_log [OF n])
  qed
  then show "g \<noteq> f \<Longrightarrow> same_field g s ?s'" "materialize Y s f = Inl e \<Longrightarrow> same_field f s ?s'"
    "materialize Y s f = Inr d \<Longrightarrow> log_of s f \<noteq> [] \<Longrightarrow> folded_field Y d f s ?s'" by blast+
qed

lemma same_field_trans: "same_field f a b \<Longrightarrow> same_field f b c \<Longrightarrow> same_field f a c"
  by (simp add: same_field_def)

lemma compact_all_exact:
  assumes "field_inv Y opts s" "yjs_restores Y" "distinct fs" "\<forall>f \<in> set fs. log_of s f \<noteq> []"
    and "s' = fold (\<lambda>f s. fst (compactField Y opts f s)) fs s"
  shows "case materialize Y s g of
      Inl e \<Rightarrow> same_field g s s'
    | Inr d \<Rightarrow> if g \<in> set fs then folded_field Y d g s s' else same_field g s s'"
  using assms(1,3-5)
proof (induction fs arbitrary: s)
  case Nil
  then show ?case by (simp add: same_field_def split: sum.split)
next
  case (Cons f fs)
  define s1 where "s1 = fst (compactField Y opts f s)"
  note a = field_inv_compact [OF Cons.prems(1) assms(2), of f, folded s1_def]
  note x = compactField_exact [OF Cons.prems(1), where f = f, folded s1_def]
  have fs: "distinct fs" "f \<notin> set fs" "s' = fold (\<lambda>f s. fst (compactField Y opts f s)) fs s1"
    using Cons.prems by (simp_all add: s1_def)
  have l: "\<forall>h \<in> set fs. log_of s1 h \<noteq> []" using Cons.prems(3) fs(2) a by (metis list.set_intros(2))
  have m: "materialize Y s1 g = materialize Y s g" using a by blast
  note IH = Cons.IH [OF _ fs(1) l fs(3)]
  have i: "field_inv Y opts s1" using a by blast
  show ?case
  proof (cases "materialize Y s g")
    case (Inl e)
    then have "same_field g s1 s'" using IH [OF i] by (simp add: m)
    moreover have "same_field g s s1" using x(1,2) Inl by (cases "g = f") auto
    ultimately show ?thesis using Inl same_field_trans by auto
  next
    case (Inr d)
    have IH: "if g \<in> set fs then folded_field Y d g s1 s' else same_field g s1 s'" using IH [OF i] Inr by (simp add: m)
    show ?thesis
    proof (cases "g = f")
      case True
      then have "folded_field Y d g s s1" using x(3) Inr Cons.prems(3) by simp
      moreover have "same_field g s1 s'" using IH True fs(2) by simp
      ultimately show ?thesis using Inr True by (simp add: folded_field_def same_field_def)
    next
      case False
      then have "same_field g s s1" using x(1) by blast
      then show ?thesis using IH Inr False by (auto simp: folded_field_def same_field_def split: if_splits)
    qed
  qed
qed

lemma candidates_exact:
  "distinct (compaction_candidates opts s)"
  "g \<in> set (compaction_candidates opts s) \<longleftrightarrow> opt_compactionThreshold opts < length (log_of s g)"
proof -
  have "g \<in> up_field ` set (ys_updates s)" if "opt_compactionThreshold opts < length (log_of s g)"
    using that by (cases "log_of s g") (auto simp: log_of_def filter_eq_Cons_iff)
  then show "g \<in> set (compaction_candidates opts s) \<longleftrightarrow> opt_compactionThreshold opts < length (log_of s g)"
    by (auto simp: compaction_candidates_def log_of_def)
qed (simp add: compaction_candidates_def)

section \<open>Export and import\<close>

definition exported :: "'d Yjs \<Rightarrow> 'd FieldStore \<Rightarrow> jobj \<Rightarrow> bool" where
  "exported Y s ob \<longleftrightarrow> distinct (map fst ob) \<and>
     (\<forall>(k, v) \<in> set ob. \<exists>d t. v = JStr t \<and> fromBase64 t = Inr (y_encode Y d) \<and> materialize Y s k = Inr d)"

lemma export_keeps:
  assumes "field_inv Y opts s"
  shows "field_inv Y opts (fst (fold (export_field Y opts) fs (s, r))) \<and>
    ys_fields (fst (fold (export_field Y opts) fs (s, r))) = ys_fields s \<and>
    ys_updates (fst (fold (export_field Y opts) fs (s, r))) = ys_updates s \<and>
    ys_refused (fst (fold (export_field Y opts) fs (s, r))) = ys_refused s"
  using assms
proof (induction fs arbitrary: s r)
  case (Cons f fs)
  obtain s1 r1 where e: "export_field Y opts f (s, r) = (s1, r1)" by fastforce
  have "s1 = s \<or> s1 = fst (loadDoc Y opts True f s)"
    using e by (auto simp: export_field_def split: sum.splits prod.splits)
  then have "field_inv Y opts s1 \<and> ys_fields s1 = ys_fields s \<and> ys_updates s1 = ys_updates s \<and> ys_refused s1 = ys_refused s"
    using Cons.prems field_inv_loadDoc [OF Cons.prems] by auto
  then show ?case using Cons.IH [of s1 r1] by (simp add: e)
qed simp

lemma export_values:
  assumes "field_inv Y opts s" "exported Y s ob"
    and "snd (fold (export_field Y opts) fs (s, Inr ob)) = Inr ob'"
  shows "exported Y s ob' \<and> set (map fst ob') = set (map fst ob) \<union> (set fs - {js ''__proto__''})"
  using assms
proof (induction fs arbitrary: s ob)
  case (Cons f fs)
  have stop: "snd (fold (export_field Y opts) fs (t, Inl e)) = Inl e" for t e
    by (induction fs) (simp_all add: export_field_def)
  define s1 where "s1 = fst (loadDoc Y opts True f s)"
  have r: "loadDoc Y opts True f s = (s1, materialize Y s f)"
    using loadDoc_result(1) [of Y opts s True f] Cons.prems(1) by (simp add: s1_def field_inv_def prod_eq_iff)
  obtain d where d: "materialize Y s f = Inr d"
  proof (cases "materialize Y s f")
    case (Inl e)
    then have "export_field Y opts f (s, Inr ob) = (s1, Inl e)" by (simp add: export_field_def r)
    with Cons.prems(3) stop [of s1 e] show ?thesis by simp
  qed
  obtain t where t: "toBase64 (y_encode Y d) = Inr t" using toBase64_total by blast
  have e: "export_field Y opts f (s, Inr ob) = (s1, Inr (assign_text f t ob))" by (simp add: export_field_def r d t)
  have m: "materialize Y s1 g = materialize Y s g" for g by (rule materialize_tables) (simp_all add: s1_def)
  have x: "exported Y s (assign_text f t ob)"
  proof -
    have "v = JStr t \<and> k = f \<or> (k, v) \<in> set ob" if "(k, v) \<in> set (AList.update f (JStr t) ob)" for k v
    proof -
      have "map_of (AList.update f (JStr t) ob) k = Some v"
        using that Cons.prems(2) by (intro map_of_is_SomeI) (auto simp: exported_def)
      then show ?thesis by (auto simp: map_facts split: if_splits dest: map_of_SomeD)
    qed
    then show ?thesis
      using Cons.prems(2) d fromBase64_toBase64 [OF t] by (fastforce simp: exported_def assign_text_def)
  qed
  have "exported Y s1 (assign_text f t ob)" using x by (simp add: exported_def m)
  moreover have "field_inv Y opts s1" unfolding s1_def by (rule field_inv_loadDoc [OF Cons.prems(1)])
  ultimately have "exported Y s1 ob' \<and> set (map fst ob') = set (map fst (assign_text f t ob)) \<union> (set fs - {js ''__proto__''})"
    using Cons.prems(3) by (intro Cons.IH) (simp_all add: e)
  moreover have "set (map fst (assign_text f t ob)) = set (map fst ob) \<union> ({f} - {js ''__proto__''})"
    by (simp add: assign_text_def dom_update del: js_simps)
  ultimately show ?case by (auto simp: exported_def m simp del: js_simps)
qed simp

definition imported_row :: "jstr \<times> jval \<Rightarrow> jstr \<times> FieldRow" where
  "imported_row e = (fst e,
     case snd e of JStr t \<Rightarrow> (case fromBase64 t of Inr b \<Rightarrow>
         \<lparr>fr_snapshot = Some b, fr_snapshotSeq = 0, fr_byteTotal = length b, fr_frozen = MAX_FIELD_BYTES < length b\<rparr>))"

lemma import_exported:
  assumes "exported Y s ob" "yjs_restores Y" "distinct (map fst rows @ map fst ob)"
  shows "fold_res (import_field Y) ob rows = Inr (rows @ map imported_row ob)"
  using assms
proof (induction ob arbitrary: rows)
  case (Cons e ob)
  obtain k v where e: "e = (k, v)" by fastforce
  obtain d t where v: "v = JStr t" "fromBase64 t = Inr (y_encode Y d)" using Cons.prems(1) e by (auto simp: exported_def)
  have n: "map_of rows k = None" using Cons.prems(3) e by (auto simp: map_of_eq_None_iff)
  have "import_field Y e rows = Inr (rows @ [imported_row e])"
    using Cons.prems(2) by (simp add: e v n import_field_def imported_row_def yjs_restores_def)
  moreover have "exported Y s ob" using Cons.prems(1) by (auto simp: exported_def)
  ultimately show ?case
    using Cons.IH [of "rows @ [imported_row e]"] Cons.prems by (simp add: imported_row_def)
qed simp

lemma import_rows_inv:
  assumes "fold_res (import_field Y) entries [] = Inr rows"
  shows "distinct (map fst rows) \<and> (\<forall>(k, r) \<in> set rows. fr_byteTotal r = snapshot_bytes r)"
  using assms
proof (rule fold_res_invariant)
  fix x and u v :: "(jstr \<times> FieldRow) list"
  assume "distinct (map fst u) \<and> (\<forall>(k, r) \<in> set u. fr_byteTotal r = snapshot_bytes r)" and "import_field Y x u = Inr v"
  then show "distinct (map fst v) \<and> (\<forall>(k, r) \<in> set v. fr_byteTotal r = snapshot_bytes r)"
    by (auto simp: import_field_def bind_res_Inr_iff snapshot_bytes_def map_of_eq_None_iff
        split: jval.splits if_splits)
qed simp

lemma field_inv_import:
  assumes "onImport Y data s = Inr s'"
  shows "field_inv Y opts s'"
proof -
  obtain entries rows where "fold_res (import_field Y) entries [] = Inr rows"
    and s': "s' = s\<lparr>ys_fields := rows, ys_updates := [], ys_cache := []\<rparr>"
    using assms by (auto simp: onImport_def bind_res_Inr_iff split: option.splits)
  note r = import_rows_inv [OF this(1)]
  have "row_ok s' f" for f
    using r by (auto simp: s' row_ok_def fieldRow_def log_of_def logged_bytes_def split: option.split dest!: map_of_SomeD)
  then show ?thesis using r by (simp add: s' field_inv_def keys_unique_def cache_ok_def)
qed

section \<open>Every history\<close>

lemma field_inv_empty [simp]: "field_inv Y opts empty_store"
  by (simp add: field_inv_def keys_unique_def cache_ok_def row_ok_def fieldRow_def log_of_def empty_store_def)

lemma field_inv_wake: "field_inv Y opts s \<Longrightarrow> field_inv Y opts (init (Some s))"
  by (rule field_inv_tables) (simp_all add: init_def cache_ok_def)

lemma field_inv_event:
  assumes "field_inv Y opts s" "yjs_restores Y"
  shows "field_inv Y opts (field_event Y opts e s)"
proof (cases e)
  case FExport
  then show ?thesis using export_keeps [OF assms(1)] by (simp add: onExport_def case_prod_beta)
next
  case (FImport data)
  then show ?thesis using assms(1) field_inv_import [of Y data s] by (simp split: sum.split)
next
  case FReset
  have "onReset s = empty_store" by (simp add: onReset_def empty_store_def)
  with FReset show ?thesis by simp
qed (use assms field_inv_message field_inv_wake onAlarm_keeps(1) in simp_all)

lemma field_inv_run:
  assumes "field_inv Y opts s" "yjs_restores Y"
  shows "field_inv Y opts (field_run Y opts evs s)"
  using assms(1) by (induction evs arbitrary: s) (simp_all add: field_run_def field_inv_event [OF _ assms(2)])


section \<open>A concrete library\<close>

text \<open>A document is the largest number seen: a replicated maximum, which merges by \<open>max\<close>.\<close>

definition max_yjs :: "u8 Yjs" where
  "max_yjs =
     \<lparr>y_new = 0,
      y_apply = (\<lambda>u d. if length u = 2 then (d, False) else if length u = 3 then (max d (u ! 2), False) else (d, True)),
      y_encode = (\<lambda>d. [0, 0, d]),
      y_diff = (\<lambda>d v. if length v = 1 then Some (if d \<le> v ! 0 then [0, 0] else [0, 0, d]) else None),
      y_vector = (\<lambda>d. [d]),
      y_decodes = (\<lambda>u. length u = 2 \<or> length u = 3)\<rparr>"

lemma max_yjs_restores [simp]: "yjs_restores max_yjs"
  by (simp add: yjs_restores_def max_yjs_def)

definition demo_field_options :: YjsFieldsOptions where
  "demo_field_options = \<lparr>yo_authorizeWrite = Some (\<lambda>w. Inr (wc_clientId w \<noteq> js ''r'')),
     yo_maxCachedDocs = Some 1, yo_compactionThreshold = Some 1\<rparr>"

definition demo_ctx :: "string \<Rightarrow> ExtCtx" where
  "demo_ctx c = \<lparr>xc_clientId = js c, xc_ready = True, xc_principal = None, xc_auth = None\<rparr>"

text \<open>Field \<open>a\<close>: two updates from socket 1, a read; field \<open>b\<close>: one read, one refused update of socket 2.\<close>

definition demo_field_events :: "FieldEvent list" where
  "demo_field_events =
     [FMessage 1 [3, 0, 1, 97, 0, 0, 5] (demo_ctx ''w''), FMessage 1 [1, 0, 1, 97] (demo_ctx ''w''),
      FMessage 1 [3, 0, 1, 97, 0, 0, 7] (demo_ctx ''w''), FMessage 2 [3, 0, 1, 98, 0, 0, 9] (demo_ctx ''r'')]"

definition demo_fields :: "u8 FieldStore" where
  "demo_fields = field_run max_yjs demo_field_options demo_field_events empty_store"


lemma demo_frames:
  "decodeFieldFrame [3, 0, 1, 97, 0, 0, 5] = Some \<lparr>msgType = 3, fieldId = js ''a'', payload = [0, 0, 5]\<rparr>"
  "decodeFieldFrame [1, 0, 1, 97] = Some \<lparr>msgType = 1, fieldId = js ''a'', payload = []\<rparr>"
  "decodeFieldFrame [3, 0, 1, 97, 0, 0, 7] = Some \<lparr>msgType = 3, fieldId = js ''a'', payload = [0, 0, 7]\<rparr>"
  "decodeFieldFrame [3, 0, 1, 98, 0, 0, 9] = Some \<lparr>msgType = 3, fieldId = js ''b'', payload = [0, 0, 9]\<rparr>"
  "decodeFieldFrame [3, 0, 1, 97, 0, 0, 8] = Some \<lparr>msgType = 3, fieldId = js ''a'', payload = [0, 0, 8]\<rparr>"
  by (simp_all add: decodeFieldFrame_def get_u16_def utf8_decode_def unit_of_def FIELD_MSG_GET_def FIELD_MSG_REJECT_def MAX_FIELD_ID_BYTES_def)

lemmas field_eval = onBinaryMessage_def handleUpdate_def handleGet_def demo_frames demo_ctx_def demo_field_options_def
  FIELD_MSG_GET_def FIELD_MSG_UPDATE_def refused_on_def opt_authorizeWrite_def or_default_def writeContext_def Let_def
  fieldRow_def MAX_FIELD_UPDATE_BYTES_def MAX_FIELD_BYTES_def max_yjs_def append_update_def upsert_totals_def max_seq_def
  refresh_cached_def snapshot_seq_def loadDoc_def materialize_def log_tail_def cacheDoc_def trim_cache_drop opt_maxCachedDocs_def
  reject_def markRefused_def

lemma demo_fields_value: "demo_fields =
  \<lparr>ys_fields = [(js ''a'', \<lparr>fr_snapshot = None, fr_snapshotSeq = 0, fr_byteTotal = 6, fr_frozen = False\<rparr>)],
   ys_updates = [\<lparr>up_field = js ''a'', up_seq = 1, up_bytes = [0, 0, 5]\<rparr>, \<lparr>up_field = js ''a'', up_seq = 2, up_bytes = [0, 0, 7]\<rparr>],
   ys_cache = [(js ''a'', 7)], ys_refused = [(2, [js ''b''])]\<rparr>"
  by (simp add: demo_fields_def field_run_def demo_field_events_def field_eval empty_store_def)

section \<open>Properties\<close>

text \<open>
  C20: After any history of messages, alarms, exports, imports, resets and wakes, the cache
  holds at most its limit, each cached document is the one the field's snapshot and log
  build, a field's byte total is the size of its snapshot plus that of its log, and its log rows
  have different sequence numbers above the snapshot's.
\<close>
theorem documents_follow_log:
  assumes "yjs_restores Y" and "s = field_run Y opts evs empty_store"
  shows "length (ys_cache s) \<le> opt_maxCachedDocs opts \<and>
    (map_of (ys_cache s) f = Some d \<longrightarrow> materialize Y s f = Inr d) \<and>
    (fieldRow s f = Some r \<longrightarrow> fr_byteTotal r = snapshot_bytes r + logged_bytes s f \<and>
       (\<forall>u \<in> set (log_of s f). fr_snapshotSeq r < up_seq u) \<and> distinct (map up_seq (log_of s f))) \<and>
    (fieldRow s f = None \<longrightarrow> log_of s f = [])"
proof -
  have i: "field_inv Y opts s" using field_inv_run [OF field_inv_empty assms(1)] assms(2) by simp
  then have k: "row_ok s f" "cache_ok Y opts s" "keys_unique s" by (simp_all add: field_inv_def)
  then have "inj_on (\<lambda>u. (up_field u, up_seq u)) (set (ys_updates s))" "distinct (ys_updates s)"
    by (simp_all add: keys_unique_def distinct_map)
  then have "distinct (map up_seq (log_of s f))" by (auto simp: log_of_def distinct_map inj_on_def)
  then show ?thesis using k(1,2) by (auto simp: cache_ok_def row_ok_def list_all_iff dest!: map_of_SomeD)
qed

theorem documents_follow_log_witness:
  "map_of (ys_cache demo_fields) (js ''a'') = Some 7 \<and> materialize max_yjs demo_fields (js ''a'') = Inr 7"
proof -
  have "map_of (ys_cache demo_fields) (js ''a'') = Some 7" by (simp add: demo_fields_value)
  then show ?thesis
    using documents_follow_log [OF max_yjs_restores, of demo_fields demo_field_options demo_field_events "js ''a''" 7]
    by (simp add: demo_fields_def del: js_simps)
qed

text \<open>
  C23: The alarm's compaction changes no document and no frozen flag, and it folds exactly the
  fields whose log is longer than the threshold: such a field's log is empty after it and its
  snapshot is the encoding of its document, at a sequence number no log row was above, with the
  byte total of the snapshot. Every other field, and every field whose snapshot does not apply,
  keeps its row and its log.
\<close>
theorem compaction_keeps_documents:
  assumes "yjs_restores Y" and "s = field_run Y opts evs empty_store" and "s' = onAlarm Y opts s"
  shows "materialize Y s' f = materialize Y s f \<and>
    map_option fr_frozen (fieldRow s' f) = map_option fr_frozen (fieldRow s f) \<and>
    (case materialize Y s f of
       Inl e \<Rightarrow> same_field f s s'
     | Inr d \<Rightarrow> if opt_compactionThreshold opts < length (log_of s f) then folded_field Y d f s s' else same_field f s s')"
proof -
  have i: "field_inv Y opts s" using field_inv_run [OF field_inv_empty assms(1)] assms(2) by simp
  have "\<forall>f \<in> set (compaction_candidates opts s). log_of s f \<noteq> []" by (auto simp: candidates_exact(2))
  note exact = compact_all_exact [OF i assms(1) candidates_exact(1) this, folded onAlarm_def, OF assms(3), of f]
  then show ?thesis
    unfolding candidates_exact(2) using onAlarm_keeps(2,3) [OF i assms(1)] by (simp add: assms(3))
qed

theorem compaction_keeps_documents_witness:
  "length (log_of demo_fields (js ''a'')) = 2 \<and>
   folded_field max_yjs 7 (js ''a'') demo_fields (onAlarm max_yjs demo_field_options demo_fields)"
proof -
  have "length (log_of demo_fields (js ''a'')) = 2" "materialize max_yjs demo_fields (js ''a'') = Inr 7"
    "opt_compactionThreshold demo_field_options = 1"
    by (simp_all add: demo_fields_value log_of_def field_eval opt_compactionThreshold_def)
  then show ?thesis
    using compaction_keeps_documents [OF max_yjs_restores, of demo_fields demo_field_options demo_field_events
        "onAlarm max_yjs demo_field_options demo_fields" "js ''a''"]
    by (simp add: demo_fields_def del: js_simps)
qed

lemma reject_sends: "XBroadcast b x \<notin> set (fst (snd (reject ws f r s)))"
  by (simp add: reject_def send_frame_def split: sum.split)

lemma broadcast_of_message:
  assumes "XBroadcast b x \<in> set (fst (snd (onBinaryMessage Y opts ws bytes c s)))"
  obtains fr where "decodeFieldFrame bytes = Some fr" "msgType fr = FIELD_MSG_UPDATE" "xc_ready c"
    "accepts Y opts ws (fieldId fr) (payload fr) c s" "b = bytes" "x = Some ws"
    "fst (onBinaryMessage Y opts ws bytes c s)
     = refresh_cached Y (fieldId fr) (payload fr) (appended (fieldId fr) (payload fr) (new_total s (fieldId fr) (payload fr))
         (MAX_FIELD_BYTES < new_total s (fieldId fr) (payload fr)) s)"
proof (rule onBinaryMessage_cases [of Y opts ws bytes c s])
  fix fr
  assume "onBinaryMessage Y opts ws bytes c s = handleGet Y opts ws (fieldId fr) (payload fr) c s"
  then show ?thesis using assms
    by (auto simp: handleGet_def send_frame_def Let_def split: sum.splits prod.splits)
next
  fix fr
  assume "decodeFieldFrame bytes = Some fr" "msgType fr = FIELD_MSG_UPDATE" "xc_ready c"
    and "onBinaryMessage Y opts ws bytes c s = handleUpdate Y opts ws (fieldId fr) (payload fr) bytes c s"
  then show ?thesis
    using assms that [of fr] handleUpdate_cases [of Y opts ws "fieldId fr" "payload fr" c s bytes]
    by (auto simp: reject_sends)
qed (use assms in simp)

text \<open>
  C22: A frame an extension relays is an accepted update that is already durable: it came from an
  authorized socket not refused on the field, it is the last row of the field's log, the
  field's document is the old one with the update applied, and the field is frozen exactly
  when its byte total passed the limit.
\<close>
theorem relayed_means_durable:
  assumes "yjs_restores Y" and "s = field_run Y opts evs empty_store"
    and "onBinaryMessage Y opts ws bytes c s = (s', calls, e)" and "XBroadcast b x \<in> set calls"
  shows "\<exists>fr. decodeFieldFrame bytes = Some fr \<and> b = bytes \<and> x = Some ws \<and>
    accepts Y opts ws (fieldId fr) (payload fr) c s \<and>
    map up_bytes (log_of s' (fieldId fr)) = map up_bytes (log_of s (fieldId fr)) @ [payload fr] \<and>
    materialize Y s' (fieldId fr)
      = bind_res (materialize Y s (fieldId fr)) (\<lambda>d. Inr (fst (y_apply Y (payload fr) d))) \<and>
    map_option fr_frozen (fieldRow s' (fieldId fr)) = Some (MAX_FIELD_BYTES < new_total s (fieldId fr) (payload fr))"
proof -
  have "XBroadcast b x \<in> set (fst (snd (onBinaryMessage Y opts ws bytes c s)))" using assms(3,4) by simp
  then obtain fr where fr: "decodeFieldFrame bytes = Some fr" "accepts Y opts ws (fieldId fr) (payload fr) c s"
    "b = bytes" "x = Some ws"
    and s': "s' = refresh_cached Y (fieldId fr) (payload fr) (appended (fieldId fr) (payload fr)
         (new_total s (fieldId fr) (payload fr)) (MAX_FIELD_BYTES < new_total s (fieldId fr) (payload fr)) s)"
    by (rule broadcast_of_message) (use assms(3) in auto)
  define a where "a = appended (fieldId fr) (payload fr)
         (new_total s (fieldId fr) (payload fr)) (MAX_FIELD_BYTES < new_total s (fieldId fr) (payload fr)) s"
  have i: "row_ok s f" for f
    using field_inv_run [OF field_inv_empty assms(1)] assms(2) by (simp add: field_inv_def)
  have t: "fieldRow s' f = fieldRow a f" "log_of s' f = log_of a f" "materialize Y s' f = materialize Y a f" for f
    by (simp_all add: s' a_def [symmetric] fieldRow_def log_of_def, rule materialize_tables, simp_all)
  have "map_option fr_frozen (fieldRow s' (fieldId fr)) = Some (MAX_FIELD_BYTES < new_total s (fieldId fr) (payload fr))"
    by (simp add: t) (simp add: a_def appended_row split: option.split)
  then show ?thesis using fr by (simp add: t a_def appended_log materialize_appended [OF i])
qed

theorem relayed_means_durable_witness:
  "map up_bytes (log_of (fst (onBinaryMessage max_yjs demo_field_options 1 [3, 0, 1, 97, 0, 0, 8] (demo_ctx ''w'') demo_fields)) (js ''a''))
   = map up_bytes (log_of demo_fields (js ''a'')) @ [[0, 0, 8]]"
proof -
  let ?m = "onBinaryMessage max_yjs demo_field_options 1 [3, 0, 1, 97, 0, 0, 8] (demo_ctx ''w'') demo_fields"
  have "?m = (fst ?m, [XBroadcast [3, 0, 1, 97, 0, 0, 8] (Some 1)], None)"
    by (simp add: demo_fields_value field_eval)
  then show ?thesis
    using relayed_means_durable [OF max_yjs_restores, of demo_fields demo_field_options demo_field_events
        1 "[3, 0, 1, 97, 0, 0, 8]" "demo_ctx ''w''" "fst ?m" "[XBroadcast [3, 0, 1, 97, 0, 0, 8] (Some 1)]" None]
    by (simp add: demo_frames demo_fields_def del: js_simps)
qed

text \<open>Refusals last until the extension forgets its memory.\<close>

lemma refused_update: "refused_on s ws f \<Longrightarrow> refused_on (markRefused w g s) ws f"
  by (auto simp: refused_on_def markRefused_def map_facts or_default_def Let_def split: option.splits)

lemma refused_same: "ys_refused s' = ys_refused s \<Longrightarrow> refused_on s' ws f = refused_on s ws f"
  by (simp add: refused_on_def)

lemma refused_message:
  assumes "refused_on s ws f"
  shows "refused_on (fst (onBinaryMessage Y opts w bytes c s)) ws f"
proof (rule onBinaryMessage_cases [of Y opts w bytes c s])
  fix fr
  assume e: "onBinaryMessage Y opts w bytes c s = handleUpdate Y opts w (fieldId fr) (payload fr) bytes c s"
  show ?thesis
    using handleUpdate_cases [of Y opts w "fieldId fr" "payload fr" c s bytes] assms
      refused_update [OF assms, of w "fieldId fr"] refused_same
    unfolding e by (auto simp: reject_state refused_on_def)
next
  fix fr
  assume "onBinaryMessage Y opts w bytes c s = handleGet Y opts w (fieldId fr) (payload fr) c s"
  then show ?thesis using assms refused_same [of "fst (handleGet Y opts w (fieldId fr) (payload fr) c s)" s] by simp
qed (use assms in simp)

lemma compact_refused: "ys_refused (fst (compactField Y opts f s)) = ys_refused s"
  by (simp add: compactField_def loadDoc_def Let_def split: option.split sum.split)

lemma alarm_refused: "ys_refused (onAlarm Y opts s) = ys_refused s"
proof -
  have "ys_refused (fold (\<lambda>f s. fst (compactField Y opts f s)) fs s) = ys_refused s" for fs
    by (induction fs arbitrary: s) (simp_all add: compact_refused)
  then show ?thesis by (simp add: onAlarm_def)
qed

lemma export_refused: "ys_refused (fst (onExport Y opts s)) = ys_refused s"
proof -
  have "ys_refused (fst (export_field Y opts f (s, r))) = ys_refused s" for f and s :: "'a FieldStore" and r
    using loadDoc_tables(3) [of Y opts True f s]
    by (cases "loadDoc Y opts True f s") (auto simp: export_field_def split: sum.split)
  then have f: "ys_refused (fst (export_field Y opts f st)) = ys_refused (fst st)" for f and st :: "'a FieldStore \<times> jobj res"
    by (cases st) simp
  have "ys_refused (fst (fold (export_field Y opts) fs st)) = ys_refused (fst st)" for fs and st :: "'a FieldStore \<times> jobj res"
    by (induction fs arbitrary: st) (simp_all add: f)
  then show ?thesis by (simp add: onExport_def case_prod_beta)
qed

lemma refused_event:
  assumes "refused_on s ws f" "e \<noteq> FWake" "e \<noteq> FReset"
  shows "refused_on (field_event Y opts e s) ws f"
proof (cases e)
  case (FImport data)
  have "ys_refused s' = ys_refused s" if "onImport Y data s = Inr s'" for s'
    using that by (auto simp: onImport_def bind_res_Inr_iff split: option.splits)
  then show ?thesis using assms(1) refused_same FImport by (fastforce split: sum.split)
qed (use assms in \<open>simp_all add: refused_message refused_same [OF alarm_refused] refused_same [OF export_refused]\<close>)

lemma get_when_refused:
  assumes "refused_on s ws f" "handleGet Y opts ws f sv c s = (s', calls, e)" "x \<in> set calls"
  shows "\<exists>b v u. x = XSend ws b \<and>
       bind_res (encodeFieldState \<lparr>writable = False, stateVector = v, diff = u\<rparr>)
         (encodeFieldFrame FIELD_MSG_STATE f) = Inr b"
proof -
  obtain s1 r where l: "loadDoc Y opts False f s = (s1, r)" by fastforce
  show ?thesis
  proof (cases "opt_authorizeWrite opts (writeContext f c)")
    case (Inl e)
    then show ?thesis using assms(2,3) by (simp add: handleGet_def Let_def)
  next
    case (Inr ok)
    show ?thesis
    proof (cases r)
      case (Inl e)
      then show ?thesis using assms(2,3) Inr by (simp add: handleGet_def Let_def l)
    next
      case d: (Inr d)
      let ?r = "bind_res (encodeFieldState \<lparr>writable = False, stateVector = y_vector Y d, diff = state_diff Y d sv\<rparr>)
         (encodeFieldFrame FIELD_MSG_STATE f)"
      have "(s', calls, e) = send_frame ws ?r s1" using assms(1,2) Inr d by (simp add: handleGet_def Let_def l)
      then show ?thesis using assms(3) by (cases ?r) (auto simp: send_frame_def)
    qed
  qed
qed

text \<open>The REJECT frames of a field.\<close>

definition reject_frame :: "jstr \<Rightarrow> u8 list \<Rightarrow> bool" where
  "reject_frame f b \<longleftrightarrow> (\<exists>r \<in> {NotWritable, Frozen, TooLarge}. encodeFieldFrame FIELD_MSG_REJECT f (encodeFieldReject r) = Inr b)"

lemma frame_head: "encodeFieldFrame t f p = Inr b \<Longrightarrow> hd b = t"
  by (auto simp: encodeFieldFrame_def Let_def split: if_splits)

lemma reject_refuses:
  assumes "onBinaryMessage Y opts ws bytes c s = (s', calls, e)" "XSend ws b \<in> set calls"
    and "decodeFieldFrame bytes = Some fr" "reject_frame f b"
  shows "refused_on s' ws (fieldId fr)"
proof (rule onBinaryMessage_cases [of Y opts ws bytes c s])
  fix g
  assume "onBinaryMessage Y opts ws bytes c s = handleGet Y opts ws (fieldId g) (payload g) c s"
  then have "\<exists>p. encodeFieldFrame FIELD_MSG_STATE (fieldId g) p = Inr b"
    using assms(1,2) by (auto simp: handleGet_def Let_def send_frame_def bind_res_Inr_iff split: sum.splits prod.splits)
  then have "hd b = FIELD_MSG_STATE" using frame_head by blast
  moreover have "hd b = FIELD_MSG_REJECT" using assms(4) frame_head by (auto simp: reject_frame_def)
  ultimately show ?thesis by (simp add: FIELD_MSG_STATE_def FIELD_MSG_REJECT_def)
next
  fix g
  assume g: "decodeFieldFrame bytes = Some g"
    and "onBinaryMessage Y opts ws bytes c s = handleUpdate Y opts ws (fieldId g) (payload g) bytes c s"
  then have "\<exists>r. (s', calls, e) = reject ws (fieldId g) r s"
    using assms(1,2) handleUpdate_cases [of Y opts ws "fieldId g" "payload g" c s bytes] by auto
  then have "s' = markRefused ws (fieldId g) s" by (metis fst_conv reject_state)
  then show ?thesis using g assms(3) by (simp add: refused_on_def markRefused_def map_facts Let_def)
qed (use assms in simp)

text \<open>
  C24: A refusal sticks. Once a frame of a socket for a field was answered with a REJECT, then
  until the object wakes or is reset (which forget refusals), whatever happens in between, a
  frame of that socket for that field leaves both tables as they are and relays nothing, and a
  read is answered with the writable flag off.
\<close>
theorem refused_socket_appends_nothing:
  assumes "onBinaryMessage Y opts ws bytes0 c0 s0 = (s, calls0, e0)" and "decodeFieldFrame bytes0 = Some fr0"
    and "XSend ws b0 \<in> set calls0" and "reject_frame (fieldId fr0) b0"
    and "\<forall>e \<in> set evs. e \<noteq> FWake \<and> e \<noteq> FReset" and "s' = field_run Y opts evs s"
    and "decodeFieldFrame bytes = Some fr" and "fieldId fr = fieldId fr0"
    and "onBinaryMessage Y opts ws bytes c s' = (s'', calls, e)"
  shows "ys_fields s'' = ys_fields s' \<and> ys_updates s'' = ys_updates s' \<and>
    (\<forall>x \<in> set calls. \<exists>b sv u. x = XSend ws b \<and>
       bind_res (encodeFieldState \<lparr>writable = False, stateVector = sv, diff = u\<rparr>)
         (encodeFieldFrame FIELD_MSG_STATE (fieldId fr)) = Inr b)"
proof -
  have "refused_on s ws (fieldId fr)" using reject_refuses [OF assms(1,3,2,4)] assms(8) by simp
  then have r: "refused_on (fold (field_event Y opts) evs s) ws (fieldId fr)"
    using assms(5) by (induction evs arbitrary: s) (simp_all add: refused_event)
  then have r: "refused_on s' ws (fieldId fr)" using assms(6) by (simp add: field_run_def)
  show ?thesis
  proof (rule onBinaryMessage_cases [of Y opts ws bytes c s'])
    fix g
    assume g: "decodeFieldFrame bytes = Some g"
      and e: "onBinaryMessage Y opts ws bytes c s' = handleGet Y opts ws (fieldId g) (payload g) c s'"
    have "g = fr" using g assms(7) by simp
    with e have h: "handleGet Y opts ws (fieldId fr) (payload fr) c s' = (s'', calls, e)" using assms(9) by simp
    then have "ys_fields s'' = ys_fields s' \<and> ys_updates s'' = ys_updates s'"
      by (metis fst_conv handleGet_tables(1,2))
    moreover have "x \<in> set calls \<Longrightarrow> \<exists>b sv u. x = XSend ws b \<and>
       bind_res (encodeFieldState \<lparr>writable = False, stateVector = sv, diff = u\<rparr>)
         (encodeFieldFrame FIELD_MSG_STATE (fieldId fr)) = Inr b" for x
      using get_when_refused [OF r h] .
    ultimately show ?thesis by blast
  next
    fix g
    assume "decodeFieldFrame bytes = Some g"
      and "onBinaryMessage Y opts ws bytes c s' = handleUpdate Y opts ws (fieldId g) (payload g) bytes c s'"
    then show ?thesis using assms(7,9) r by (simp add: handleUpdate_def)
  qed (use assms(9) in simp)
qed

text \<open>The update the reader of field \<open>b\<close> was refused, an alarm, and another update of it.\<close>

theorem refused_socket_appends_nothing_witness:
  "\<exists>s calls e. onBinaryMessage max_yjs demo_field_options 2 [3, 0, 1, 98, 0, 0, 9] (demo_ctx ''r'') empty_store = (s, calls, e) \<and>
     XSend 2 [4, 0, 1, 98, 1] \<in> set calls \<and>
     ys_updates (fst (onBinaryMessage max_yjs demo_field_options 2 [3, 0, 1, 98, 0, 0, 9] (demo_ctx ''w'')
       (field_run max_yjs demo_field_options [FAlarm] s))) = ys_updates (field_run max_yjs demo_field_options [FAlarm] s)"
proof -
  let ?fr = "\<lparr>msgType = 3, fieldId = js ''b'', payload = [0, 0, 9]\<rparr>"
  obtain s e where m: "onBinaryMessage max_yjs demo_field_options 2 [3, 0, 1, 98, 0, 0, 9] (demo_ctx ''r'') empty_store
      = (s, [XSend 2 [4, 0, 1, 98, 1]], e)"
    by (simp add: field_eval empty_store_def send_frame_def encodeFieldFrame_def encodeFieldReject_def MAX_FIELD_ID_BYTES_def
        FIELD_MSG_REJECT_def put_u16_def)
  let ?t = "field_run max_yjs demo_field_options [FAlarm] s"
  let ?m = "onBinaryMessage max_yjs demo_field_options 2 [3, 0, 1, 98, 0, 0, 9] (demo_ctx ''w'') ?t"
  have r: "reject_frame (fieldId ?fr) [4, 0, 1, 98, 1]"
    by (simp add: reject_frame_def encodeFieldFrame_def encodeFieldReject_def MAX_FIELD_ID_BYTES_def FIELD_MSG_REJECT_def put_u16_def)
  have t: "?m = (fst ?m, fst (snd ?m), snd (snd ?m))" by simp
  have "ys_updates (fst ?m) = ys_updates ?t"
    using refused_socket_appends_nothing [OF m demo_frames(4) _ r _ refl demo_frames(4) refl t] by simp
  then show ?thesis using m by auto
qed

text \<open>
  C28: Importing what an export produced, into any store, succeeds and gives every field its
  document back, except a field named \<open>__proto__\<close>, whose text the export's object literal
  does not keep.
\<close>
theorem export_import_keeps:
  assumes "yjs_restores Y" and "s = field_run Y opts evs empty_store"
    and "onExport Y opts s = (s1, Inr data)"
  shows "\<exists>t'. onImport Y data t = Inr t' \<and>
    materialize Y t' f = (if f = js ''__proto__'' then Inr (y_new Y) else materialize Y s f)"
proof -
  have i: "field_inv Y opts s" using field_inv_run [OF field_inv_empty assms(1)] assms(2) by simp
  define fs where "fs = sort_key utf8 (map fst (ys_fields s))"
  obtain ob where ob: "snd (fold (export_field Y opts) fs (s, Inr [])) = Inr ob"
    and data: "data = JObj [(js ''fields'', JObj ob)]"
    using assms(3) by (auto simp: onExport_def fs_def [symmetric] case_prod_beta bind_res_Inr_iff simp del: js_simps)
  have x: "exported Y s ob" "set (map fst ob) = set fs - {js ''__proto__''}"
    using export_values [OF i _ ob] by (simp_all add: exported_def del: js_simps)
  have keys: "f \<in> set (map fst ob) \<longleftrightarrow> fieldRow s f \<noteq> None \<and> f \<noteq> js ''__proto__''"
    using x(2) by (auto simp add: fs_def fieldRow_def map_of_eq_None_iff simp del: js_simps)
  define t' where "t' = t\<lparr>ys_fields := map imported_row ob, ys_updates := [], ys_cache := []\<rparr>"
  have imp: "onImport Y data t = Inr t'"
    using import_exported [OF x(1) assms(1), of "[]"] x(1)
    by (simp add: onImport_def data field_def object_entries_def t'_def exported_def del: js_simps)
  have row: "fieldRow t' f = map_option (\<lambda>v. snd (imported_row (f, v))) (map_of ob f)"
  proof -
    have "map_of (map imported_row xs) f = map_option (\<lambda>v. snd (imported_row (f, v))) (map_of xs f)" for xs
      by (induction xs) (auto simp: imported_row_def)
    then show ?thesis by (simp add: fieldRow_def t'_def)
  qed
  have lg: "log_of t' f = []" by (simp add: t'_def log_of_def)
  have "materialize Y t' f = (if f = js ''__proto__'' then Inr (y_new Y) else materialize Y s f)"
  proof (cases "map_of ob f")
    case None
    then have n: "f \<notin> set (map fst ob)" by (simp add: map_of_eq_None_iff)
    have "materialize Y t' f = Inr (y_new Y)"
      by (simp add: materialize_eq row None log_tail_of lg)
    moreover have "materialize Y s f = Inr (y_new Y)" if "f \<noteq> js ''__proto__''"
    proof -
      have r: "fieldRow s f = None" using n keys that by blast
      have "row_ok s f" using i by (simp add: field_inv_def)
      then have "log_of s f = []" by (simp add: row_ok_def r)
      then show ?thesis by (simp add: materialize_eq r log_tail_of)
    qed
    ultimately show ?thesis by (cases "f = js ''__proto__''") (simp_all only: if_True if_False simp_thms)
  next
    case (Some v)
    obtain d u where u: "v = JStr u" "fromBase64 u = Inr (y_encode Y d)" "materialize Y s f = Inr d"
      using x(1) map_of_SomeD [OF Some] by (auto simp: exported_def)
    have "f \<in> set (map fst ob)" using map_of_SomeD [OF Some] by force
    then have "f \<noteq> js ''__proto__''" using keys by blast
    moreover have "materialize Y t' f = Inr d"
      using assms(1) by (simp add: materialize_eq row Some imported_row_def u log_tail_of lg yjs_restores_def)
    ultimately show ?thesis by (simp only: u(3) if_False)
  qed
  with imp show ?thesis by blast
qed


theorem export_import_keeps_witness:
  "\<exists>t'. onImport max_yjs (projr (snd (onExport max_yjs demo_field_options demo_fields))) empty_store = Inr t' \<and>
     materialize max_yjs t' (js ''a'') = Inr 7"
proof -
  let ?x = "onExport max_yjs demo_field_options demo_fields"
  have "\<exists>v. snd ?x = Inr v"
    using toBase64_total [of "[0, 0, 7]"]
    by (auto simp: onExport_def demo_fields_value export_field_def field_eval assign_text_def case_prod_beta)
  then have "?x = (fst ?x, Inr (projr (snd ?x)))" by (auto simp: prod_eq_iff)
  moreover have "materialize max_yjs demo_fields (js ''a'') = Inr 7"
    by (simp add: demo_fields_value field_eval)
  moreover have "js ''a'' \<noteq> js ''__proto__''" by simp
  ultimately show ?thesis
    using export_import_keeps [OF max_yjs_restores, of demo_fields demo_field_options demo_field_events
        "fst ?x" "projr (snd ?x)" empty_store "js ''a''"]
    by (simp only: demo_fields_def if_False)
qed

end
