(* ===== verification/YjsClientSpec.thy ===== *)
theory YjsClientSpec
  imports YjsClient YjsServerSpec
begin

text \<open>
  What the Yjs client half promises: a refused field stays silent until its handle is released,
  and how the frames of an exchange merge into its document, given
  the merge laws of the document library (\<open>yjs_merges\<close>).
\<close>

section \<open>The client's invariant\<close>

definition entry_ok :: "jstr \<Rightarrow> 'd FieldEntry \<Rightarrow> bool" where
  "entry_ok f e \<longleftrightarrow> en_fieldId e = f \<and> (en_canWrite e \<longrightarrow> \<not> en_rejected e \<and> en_writeBlocked e = None) \<and>
     (en_rejected e \<longrightarrow> en_writeBlocked e \<noteq> None)"

definition client_ok :: "'d YjsFields \<Rightarrow> bool" where
  "client_ok s \<longleftrightarrow> (\<forall>f e. entry_of s f = Some e \<longrightarrow> entry_ok f e) \<and> distinct (map fst (yc_entries s))"

text \<open>A frame the client may send: a read of a held field, or an update of a writable one.\<close>

definition may_send :: "'d YjsFields \<Rightarrow> u8 list \<Rightarrow> bool" where
  "may_send s b \<longleftrightarrow> (\<exists>f e. entry_of s f = Some e \<and>
     ((\<exists>v. encodeFieldFrame FIELD_MSG_GET f v = Inr b) \<or>
      (en_canWrite e \<and> (\<exists>u. length u \<le> MAX_FIELD_UPDATE_BYTES \<and> encodeFieldFrame FIELD_MSG_UPDATE f u = Inr b))))"

definition refusals_kept :: "'d YjsFields \<Rightarrow> 'd YjsFields \<Rightarrow> bool" where
  "refusals_kept s s' \<longleftrightarrow>
     (\<forall>f e e'. entry_of s f = Some e \<and> en_rejected e \<and> entry_of s' f = Some e' \<longrightarrow> en_rejected e')"

definition fields_step :: "'d YjsFields \<Rightarrow> 'd YjsFields \<Rightarrow> bool" where
  "fields_step s s' \<longleftrightarrow> client_ok s' \<and> refusals_kept s s' \<and>
     (\<exists>xs. yc_out s' = yc_out s @ xs \<and> (\<forall>b. SendBinary b \<in> set xs \<longrightarrow> may_send s' b))"

lemma entry_put: "entry_of (put_entry e s) f = (if f = en_fieldId e then Some e else entry_of s f)"
  by (simp add: entry_of_def put_entry_def map_facts)

lemma entry_out [simp]: "entry_of (out xs s) f = entry_of s f" "entry_of (notify e s) f = entry_of s f"
  by (simp_all add: entry_of_def out_def notify_def)

lemma client_ok_put:
  "client_ok s \<Longrightarrow> entry_ok (en_fieldId e) e \<Longrightarrow> client_ok (put_entry e s)"
  by (auto simp: client_ok_def entry_put) (simp add: put_entry_def distinct_update)

lemma client_ok_out [simp]: "client_ok (out xs s) = client_ok s" "client_ok (notify e s) = client_ok s"
  by (simp_all add: client_ok_def notify_def) (simp_all add: out_def)

lemma yc_out_simps [simp]:
  "yc_out (put_entry e s) = yc_out s" "yc_out (out xs s) = yc_out s @ xs"
  "yc_out (notify e s) = yc_out s @ map (Notified (en_fieldId e)) (en_listeners e)"
  by (simp_all add: put_entry_def out_def notify_def)

lemma step_refl: "client_ok s \<Longrightarrow> fields_step s s"
  by (auto simp: fields_step_def refusals_kept_def)

text \<open>Replacing a held entry by one that keeps its refusal.\<close>

lemma step_put:
  assumes "client_ok s" "entry_of s (en_fieldId e) = Some old" "entry_ok (en_fieldId e) e" "en_rejected old \<longrightarrow> en_rejected e"
  shows "fields_step s (put_entry e s)"
  using assms client_ok_put [OF assms(1,3)] by (auto simp: fields_step_def refusals_kept_def entry_put)

lemma step_out:
  assumes "fields_step s s'" "\<And>b. SendBinary b \<in> set xs \<Longrightarrow> may_send s' b"
  shows "fields_step s (out xs s')"
proof -
  have "may_send (out xs s') b = may_send s' b" for b by (simp add: may_send_def)
  then show ?thesis using assms by (auto simp: fields_step_def refusals_kept_def)
qed

lemma step_notify: "fields_step s s' \<Longrightarrow> fields_step s (notify e s')"
  unfolding notify_def by (rule step_out) auto

lemma changed_entry [simp]:
  "en_fieldId (refused_locally e) = en_fieldId e" "en_fieldId (refused_by_server e bs) = en_fieldId e"
  "en_fieldId (state_entry e d w) = en_fieldId e" "en_rejected (refused_locally e)" "en_rejected (refused_by_server e bs)"
  "en_rejected (state_entry e d w) = en_rejected e" "en_canWrite (state_entry e d w) = (w \<and> \<not> en_rejected e)"
  "en_doc (state_entry e d w) = d" "en_synced (state_entry e d w)"
  by (simp_all add: refused_locally_def refused_by_server_def state_entry_def)

lemma changed_entry_ok [simp]:
  "entry_ok (en_fieldId e) (refused_locally e)" "entry_ok (en_fieldId e) (refused_by_server e bs)"
  "entry_ok f e \<Longrightarrow> entry_ok f (state_entry e d w)"
  by (auto simp: entry_ok_def refused_locally_def refused_by_server_def state_entry_def)

lemma sendUpdate_step:
  assumes st: "fields_step s s1" "yc_out s1 = yc_out s" and e: "entry_of s1 (en_fieldId e) = Some e" "en_canWrite e"
    and r: "sendUpdate e u s1 = Inr (e2, s2)"
  shows "fields_step s s2 \<and> entry_of s2 (en_fieldId e) = Some e2 \<and> en_fieldId e2 = en_fieldId e"
proof (cases "MAX_FIELD_UPDATE_BYTES < length u")
  case True
  have eq: "e2 = refused_locally e" "s2 = notify e2 (put_entry e2 s1)"
    using r True by (auto simp: sendUpdate_def Let_def)
  have "client_ok (put_entry e2 s1)" using st by (intro client_ok_put) (simp_all add: fields_step_def eq)
  moreover have "refusals_kept s (put_entry e2 s1)"
    using st e by (auto simp: refusals_kept_def fields_step_def entry_put eq)
  ultimately have "fields_step s (put_entry e2 s1)" by (simp add: fields_step_def st(2))
  then show ?thesis using step_notify [of s "put_entry e2 s1" e2] by (simp add: eq entry_put)
next
  case False
  with r have x: "bind_res (send_binary (encodeFieldFrame FIELD_MSG_UPDATE (en_fieldId e) u) s1) (\<lambda>s. Inr (e, s)) = Inr (e2, s2)"
    by (simp only: sendUpdate_def if_False)
  then obtain b where b: "encodeFieldFrame FIELD_MSG_UPDATE (en_fieldId e) u = Inr b" "e2 = e" "s2 = out [SendBinary b] s1"
    by (cases "encodeFieldFrame FIELD_MSG_UPDATE (en_fieldId e) u") (simp_all add: send_binary_def)
  then have "may_send s1 b" using e False by (auto simp: may_send_def not_less)
  then show ?thesis using b e step_out [OF st(1), of "[SendBinary b]"] by simp
qed

lemma on_state_step:
  assumes ok: "client_ok s" and e: "entry_of s f = Some e"
  shows "fields_step s (on_state Y e st s)"
proof -
  have f: "en_fieldId e = f" and eo: "entry_ok f e" using ok e by (simp_all add: client_ok_def entry_ok_def)
  obtain d t where d: "(if isEmptyUpdate (diff st) then (en_doc e, False) else y_apply Y (diff st) (en_doc e)) = (d, t)"
    by fastforce
  show ?thesis
  proof (cases t)
    case True
    have "entry_ok f (e\<lparr>en_doc := d\<rparr>)" using eo by (simp add: entry_ok_def)
    then have "fields_step s (put_entry (e\<lparr>en_doc := d\<rparr>) s)" using ok e f by (intro step_put [where old = e]) simp_all
    then show ?thesis using d True by (simp add: on_state_def)
  next
    case False
    define e1 where "e1 = state_entry e d (writable st)"
    define s1 where "s1 = put_entry e1 s"
    obtain e2 s2 where r: "(if en_canWrite e1 then push_back Y (stateVector st) e1 s1 else (e1, s1)) = (e2, s2)" by fastforce
    have e1: "entry_of s1 (en_fieldId e1) = Some e1" by (simp add: s1_def entry_put)
    have s1: "fields_step s s1" "yc_out s1 = yc_out s"
      unfolding s1_def using ok e f eo by (intro step_put [where old = e]) (simp_all add: e1_def)
    have "fields_step s s2"
      using r s1 sendUpdate_step [OF s1 e1] by (auto simp: push_back_def split: if_splits option.splits sum.splits)
    moreover define s3 where "s3 = (if en_canWrite e2 \<noteq> en_canWrite e \<or> en_writeBlocked e2 \<noteq> en_writeBlocked e \<or> \<not> en_synced e
                       then notify e2 s2 else s2)"
    ultimately have "fields_step s s3" by (simp add: step_notify)
    then have "fields_step s (out [ResolvedSynced (en_fieldId e)] s3)" by (rule step_out) simp
    moreover have "on_state Y e st s = out [ResolvedSynced (en_fieldId e)] s3"
      using False by (simp only: on_state_def d prod.case if_False Let_def e1_def [symmetric] s1_def [symmetric] r s3_def)
    ultimately show ?thesis by simp
  qed
qed

lemma onFrame_step:
  assumes ok: "client_ok s"
  shows "fields_step s (onFrame Y bytes s)"
proof (cases "decodeFieldFrame bytes")
  case None
  then show ?thesis by (simp add: onFrame_def step_refl ok)
next
  case (Some fr)
  show ?thesis
  proof (cases "entry_of s (fieldId fr)")
    case None
    then show ?thesis by (simp add: onFrame_def Some step_refl ok)
  next
    case e: (Some e)
    have f: "en_fieldId e = fieldId fr" "entry_ok (fieldId fr) e" using ok e by (simp_all add: client_ok_def entry_ok_def)
    have "fields_step s (on_update Y e u s)" for u
      unfolding on_update_def using ok e f by (intro step_put [where old = e]) (simp_all add: entry_ok_def)
    moreover have "fields_step s (on_reject e u s)" for u
      unfolding on_reject_def Let_def using ok e f
      by (intro step_notify step_put [where old = e]) (simp_all add: changed_entry_ok(2) [of e, unfolded f(1)])
    ultimately show ?thesis
      using on_state_step [OF ok e] by (simp add: onFrame_def Some e step_refl ok split: option.split)
  qed
qed

lemma sendGet_step:
  assumes "fields_step s s1" "entry_of s1 (en_fieldId e) = Some e1" "sendGet Y e s1 = Inr s2"
  shows "fields_step s s2 \<and> yc_entries s2 = yc_entries s1"
proof -
  obtain b where b: "encodeFieldFrame FIELD_MSG_GET (en_fieldId e) (y_vector Y (en_doc e)) = Inr b" "s2 = out [SendBinary b] s1"
    using assms(3) by (auto simp: sendGet_def send_binary_def bind_res_Inr_iff)
  then have "may_send s1 b" using assms(2) by (auto simp: may_send_def)
  then show ?thesis using b step_out [OF assms(1), of "[SendBinary b]"] by (simp add: out_def)
qed

lemma onStatus_step:
  assumes ok: "client_ok s"
  shows "fields_step s (onStatus Y synced s)"
proof -
  have k: "entry_of s (en_fieldId e) = Some e" if "(f, e) \<in> set (yc_entries s)" for f e
  proof -
    have f: "entry_of s f = Some e" using ok that by (simp add: client_ok_def entry_of_def)
    then have "entry_ok f e" using ok by (simp add: client_ok_def)
    then show ?thesis using f by (simp add: entry_ok_def)
  qed
  have "fields_step s s1 \<and> yc_entries s1 = yc_entries s \<Longrightarrow> set es \<subseteq> set (yc_entries s) \<Longrightarrow>
      fields_step s (fold (resync_entry Y) es s1)" for es s1
  proof (induction es arbitrary: s1)
    case (Cons p es)
    have "entry_of s1 (en_fieldId (snd p)) = Some (snd p)"
      using k [of "fst p" "snd p"] Cons.prems by (simp add: entry_of_def)
    then have "fields_step s (resync_entry Y p s1) \<and> yc_entries (resync_entry Y p s1) = yc_entries s"
      using Cons.prems(1) sendGet_step [of s s1 "snd p" "snd p" Y]
      by (cases "sendGet Y (snd p) s1") (simp_all add: resync_entry_def)
    then show ?case using Cons by simp
  qed simp
  from this [of s "yc_entries s"] show ?thesis by (simp add: onStatus_def step_refl ok)
qed


lemma local_edit_step:
  assumes ok: "client_ok s"
  shows "fields_step s (local_edit Y synced f d u s)"
proof (cases "entry_of s f")
  case None
  then show ?thesis by (simp add: local_edit_def step_refl ok)
next
  case (Some e)
  define e1 where "e1 = e\<lparr>en_doc := d\<rparr>"
  define s1 where "s1 = put_entry e1 s"
  have eo: "entry_ok f e" using ok Some by (simp add: client_ok_def)
  then have f: "en_fieldId e = f" by (simp add: entry_ok_def)
  have s1: "fields_step s s1" "yc_out s1 = yc_out s"
    unfolding s1_def using ok Some eo f by (intro step_put [where old = e]) (simp_all add: e1_def entry_ok_def)
  have e1: "entry_of s1 (en_fieldId e1) = Some e1" by (simp add: s1_def entry_put)
  have "local_edit Y synced f d u s
      = (if \<not> en_canWrite e1 \<or> \<not> synced then s1 else case sendUpdate e1 u s1 of Inl err \<Rightarrow> s1 | Inr (e, s) \<Rightarrow> s)"
    by (simp only: local_edit_def Some option.case Let_def e1_def [symmetric] s1_def [symmetric])
  then show ?thesis using s1 sendUpdate_step [OF s1 e1] by (auto split: sum.split)
qed

text \<open>Steps that send nothing.\<close>

lemma step_quiet:
  assumes "client_ok s'" "yc_out s' = yc_out s"
    and "\<And>f e e'. entry_of s f = Some e \<Longrightarrow> en_rejected e \<Longrightarrow> entry_of s' f = Some e' \<Longrightarrow> en_rejected e'"
  shows "fields_step s s'"
  using assms by (auto simp: fields_step_def refusals_kept_def)

lemma handle_entry_in: "handle_entry h s = Some e \<Longrightarrow> \<exists>f. entry_of s f = Some e"
  by (auto simp: handle_entry_def split: option.splits if_splits)

lemma held_update_step:
  assumes "client_ok s" "handle_entry h s = Some e" "en_fieldId e' = en_fieldId e" "entry_ok (en_fieldId e) e \<Longrightarrow> entry_ok (en_fieldId e) e'"
    "en_rejected e' = en_rejected e"
  shows "fields_step s (put_entry e' s)"
proof -
  obtain f where f: "entry_of s f = Some e" using handle_entry_in [OF assms(2)] ..
  then have "entry_ok f e" using assms(1) by (simp add: client_ok_def)
  then have "en_fieldId e = f" by (simp add: entry_ok_def)
  then show ?thesis using assms f \<open>entry_ok f e\<close> by (intro step_put [where old = e]) simp_all
qed

lemma step_trans_quiet:
  assumes "fields_step s s1" "client_ok s2" "yc_out s2 = yc_out s1"
    and "\<And>f e. entry_of s1 f = Some e \<Longrightarrow> \<exists>e2. entry_of s2 f = Some e2 \<and> en_rejected e2 = en_rejected e \<and> en_canWrite e2 = en_canWrite e"
    and "\<And>f. entry_of s1 f = None \<Longrightarrow> entry_of s2 f = None"
  shows "fields_step s s2"
proof -
  have "may_send s1 b \<Longrightarrow> may_send s2 b" for b using assms(4) by (fastforce simp: may_send_def)
  moreover have "refusals_kept s s2"
    unfolding refusals_kept_def
  proof (intro allI impI)
    fix f e e'
    assume a: "entry_of s f = Some e \<and> en_rejected e \<and> entry_of s2 f = Some e'"
    then obtain e1 where e1: "entry_of s1 f = Some e1" using assms(5) [of f] by (cases "entry_of s1 f") auto
    then have "en_rejected e1" using a assms(1) by (auto simp: fields_step_def refusals_kept_def)
    then show "en_rejected e'" using assms(4) [OF e1] a by auto
  qed
  ultimately show ?thesis using assms(1,2,3) by (auto simp: fields_step_def)
qed

lemma acquire_step:
  assumes ok: "client_ok s" and g: "acquire_entry Y synced f s = Inr s1"
  shows "fields_step s s1"
proof (cases "entry_of s f")
  case (Some e0)
  then show ?thesis using g step_refl [OF ok] by (simp add: acquire_entry_def)
next
  case None
  let ?e = "new_entry Y (yc_next s) f"
  have "client_ok (put_entry ?e s)" using ok by (intro client_ok_put) (simp_all add: new_entry_def entry_ok_def)
  then have p: "fields_step s (put_entry ?e s)"
    using None by (intro step_quiet) (auto simp: entry_put new_entry_def split: if_splits)
  have "en_fieldId ?e = f" by (simp add: new_entry_def)
  then show ?thesis
    using g None p sendGet_step [OF p, of ?e ?e Y s1] by (auto simp: acquire_entry_def Let_def entry_put split: if_splits)
qed

lemma getDoc_step:
  assumes ok: "client_ok s" and g: "getDoc Y synced f s = Inr (s', h)"
  shows "fields_step s s'"
proof -
  obtain s1 e where s1: "acquire_entry Y synced f s = Inr s1" "entry_of s1 f = Some e" "s' = give_handle f e s1"
    using g by (auto simp: getDoc_def Let_def bind_res_Inr_iff split: if_splits option.splits)
  have st: "fields_step s s1" by (rule acquire_step [OF ok s1(1)])
  have eo: "entry_ok f e" using st s1(2) by (simp add: fields_step_def client_ok_def)
  then have f: "en_fieldId e = f" by (simp add: entry_ok_def)
  let ?p = "put_entry (e\<lparr>en_refs := en_refs e + 1\<rparr>) s1"
  have ent: "entry_of s' g = entry_of ?p g" for g by (simp add: s1(3) give_handle_def entry_of_def)
  have "client_ok ?p" using st eo f by (intro client_ok_put) (simp_all add: fields_step_def entry_ok_def)
  then have "client_ok s'" by (simp add: client_ok_def ent) (simp add: s1(3) give_handle_def)
  moreover have "yc_out s' = yc_out s1" by (simp add: s1(3) give_handle_def)
  ultimately show ?thesis
    by (rule step_trans_quiet [OF st]) (use s1(2) f in \<open>auto simp: ent entry_put split: if_splits\<close>)
qed

lemma release_step:
  assumes ok: "client_ok s"
  shows "fields_step s (release h s)"
proof (cases "\<exists>f uid. map_of (yc_handles s) h = Some (f, uid, False)")
  case False
  then show ?thesis by (auto simp: release_def step_refl ok split: option.split)
next
  case True
  then obtain f uid where h: "map_of (yc_handles s) h = Some (f, uid, False)" by blast
  define s1 where "s1 = s\<lparr>yc_handles := AList.update h (f, uid, True) (yc_handles s)\<rparr>"
  have ent: "entry_of s1 g = entry_of s g" for g by (simp add: s1_def entry_of_def)
  have ok1: "client_ok s1" using ok by (simp add: client_ok_def ent) (simp add: s1_def)
  have o1: "yc_out s1 = yc_out s" by (simp add: s1_def)
  have eq: "release h s = (case handle_entry h s of None \<Rightarrow> s1 | Some e \<Rightarrow>
       if en_refs e - 1 = 0 then s1\<lparr>yc_entries := AList.delete f (yc_entries s1)\<rparr>
       else put_entry (e\<lparr>en_refs := en_refs e - 1\<rparr>) s1)"
    by (simp only: release_def h option.case prod.case if_False Let_def s1_def [symmetric])
  show ?thesis
  proof (cases "handle_entry h s")
    case None
    have "fields_step s s1" by (rule step_quiet [OF ok1 o1]) (auto simp: ent)
    then show ?thesis by (simp add: eq None)
  next
    case (Some e)
    let ?d = "s1\<lparr>yc_entries := AList.delete f (yc_entries s1)\<rparr>"
    have e: "entry_of s f = Some e" using Some h by (auto simp: handle_entry_def split: option.splits if_splits)
    have eo: "entry_ok f e" using ok e by (simp add: client_ok_def)
    have ed: "entry_of ?d g = (if g = f then None else entry_of s g)" for g
      by (simp add: entry_of_def map_facts s1_def)
    have "client_ok ?d" using ok by (simp add: client_ok_def ed) (simp add: s1_def distinct_delete)
    then have "fields_step s ?d" by (rule step_quiet) (auto simp: o1 ed split: if_splits)
    moreover have "fields_step s (put_entry (e\<lparr>en_refs := en_refs e - 1\<rparr>) s1)"
      using eo e by (intro step_quiet client_ok_put [OF ok1]) (auto simp: entry_ok_def o1 entry_put ent split: if_splits)
    ultimately show ?thesis by (simp add: eq Some)
  qed
qed

lemma fields_event_step:
  assumes ok: "client_ok s"
  shows "fields_step s (fields_event Y ev s)"
proof (cases ev)
  case (CGetDoc synced f)
  then show ?thesis using getDoc_step [OF ok, of Y synced f] by (auto simp: step_refl ok split: sum.split)
next
  case (CSubscribe h l)
  have "fields_step s (subscribe h l s)"
    using held_update_step [OF ok, of h] by (auto simp: subscribe_def step_refl ok entry_ok_def split: option.split)
  then show ?thesis by (simp add: CSubscribe)
next
  case (CUnsubscribe h l)
  have "fields_step s (unsubscribe h l s)"
    using held_update_step [OF ok, of h] by (auto simp: unsubscribe_def step_refl ok entry_ok_def split: option.split)
  then show ?thesis by (simp add: CUnsubscribe)
next
  case CDestroy
  have "fields_step s (s\<lparr>yc_destroyed := True, yc_entries := []\<rparr>)"
    by (rule step_quiet) (simp_all add: client_ok_def entry_of_def)
  then show ?thesis by (simp add: CDestroy destroy_def step_refl ok)
qed (simp_all add: onFrame_step onStatus_step local_edit_step release_step ok)

lemma client_ok_created [simp]: "client_ok createYjsFields"
  by (simp add: client_ok_def createYjsFields_def entry_of_def)

definition fields_run :: "'d Yjs \<Rightarrow> 'd FieldsEvent list \<Rightarrow> 'd YjsFields" where
  "fields_run Y evs = fold (fields_event Y) evs createYjsFields"

lemma client_ok_run: "client_ok (fields_run Y evs)"
proof -
  have "client_ok s \<Longrightarrow> client_ok (fold (fields_event Y) evs s)" for s :: "'a YjsFields"
  proof (induction evs arbitrary: s)
    case (Cons ev evs)
    then show ?case using fields_event_step [OF Cons.prems, of Y ev] by (simp add: fields_step_def)
  qed simp
  then show ?thesis by (simp add: fields_run_def)
qed

end
