(* ===== verification/YjsConvergence.thy ===== *)
theory YjsConvergence
  imports YjsClientSpec
begin

text \<open>
  The two halves of the Yjs add-on together: one exchange makes a client's field and the
  server's document equal, whatever each held before; and the field ids \<open>getDoc\<close> accepts but no
  frame can address.
\<close>

section \<open>The merge laws of the library\<close>

text \<open>
  Documents merge to a least upper bound: applying an encoding, or a difference against the
  receiver's state vector, merges; an encoding of at most two bytes carries nothing.
\<close>

definition yjs_merges :: "'d Yjs \<Rightarrow> ('d \<Rightarrow> 'd \<Rightarrow> 'd) \<Rightarrow> bool" where
  "yjs_merges Y m \<longleftrightarrow>
     (\<forall>a b c. m (m a b) c = m a (m b c)) \<and> (\<forall>a b. m a b = m b a) \<and> (\<forall>a. m a a = a) \<and>
     (\<forall>a. m (y_new Y) a = a) \<and>
     (\<forall>c d. y_apply Y (y_encode Y d) c = (m c d, False) \<and> (length (y_encode Y d) \<le> 2 \<longrightarrow> m c d = c)) \<and>
     (\<forall>c d. \<exists>u. y_diff Y d (y_vector Y c) = Some u \<and> y_apply Y u c = (m c d, False) \<and> y_decodes Y u \<and>
              (length u \<le> 2 \<longrightarrow> m c d = c))"

lemma merges_restores: "yjs_merges Y m \<Longrightarrow> yjs_restores Y"
  unfolding yjs_merges_def yjs_restores_def by metis

lemma max_yjs_merges: "yjs_merges max_yjs max"
  by (auto simp: yjs_merges_def max_yjs_def max.assoc max.commute max_def)

lemma merges_diff:
  assumes "yjs_merges Y m" "y_diff Y d (y_vector Y c) = Some u"
  shows "y_apply Y u c = (m c d, False)" "y_decodes Y u" "length u \<le> 2 \<Longrightarrow> m c d = c"
proof -
  have "\<exists>u. y_diff Y d (y_vector Y c) = Some u \<and> y_apply Y u c = (m c d, False) \<and> y_decodes Y u \<and>
              (length u \<le> 2 \<longrightarrow> m c d = c)" using assms(1) unfolding yjs_merges_def by blast
  then show "y_apply Y u c = (m c d, False)" "y_decodes Y u" "length u \<le> 2 \<Longrightarrow> m c d = c"
    using assms(2) by auto
qed

lemma merges_algebra:
  assumes "yjs_merges Y m"
  shows "m d (m c d) = m c d" "m (m c d) d = m c d" "m a b = m b a"
proof -
  have c: "m a b = m b a" and i: "m a a = a" and s: "m (m a b) c = m a (m b c)" for a b c
    using assms unfolding yjs_merges_def by blast+
  show "m (m c d) d = m c d" by (simp add: s i)
  then show "m d (m c d) = m c d" by (simp add: c [of d])
  show "m a b = m b a" by (rule c)
qed

text \<open>What the server answers a state vector with: a difference that merges.\<close>

lemma state_diff_merges:
  assumes "yjs_merges Y m"
  shows "y_apply Y (state_diff Y d (y_vector Y c)) c = (m c d, False)"
    "length (state_diff Y d (y_vector Y c)) \<le> 2 \<Longrightarrow> m c d = c"
proof -
  have e: "y_apply Y (y_encode Y d) c = (m c d, False)" "length (y_encode Y d) \<le> 2 \<Longrightarrow> m c d = c"
    using assms by (simp_all add: yjs_merges_def)
  show "y_apply Y (state_diff Y d (y_vector Y c)) c = (m c d, False)"
    "length (state_diff Y d (y_vector Y c)) \<le> 2 \<Longrightarrow> m c d = c"
    using e merges_diff [OF assms, of d c] by (auto simp: state_diff_def split: option.splits if_splits)
qed

section \<open>One exchange\<close>

definition sends :: "FieldOut list \<Rightarrow> u8 list list" where
  "sends xs = concat (map (\<lambda>x. case x of SendBinary b \<Rightarrow> [b] | _ \<Rightarrow> []) xs)"

definition answers :: "nat \<Rightarrow> ExtCall list \<Rightarrow> u8 list list" where
  "answers ws calls = concat (map (\<lambda>x. case x of XSend w b \<Rightarrow> if w = ws then [b] else [] | _ \<Rightarrow> []) calls)"

text \<open>A frame of socket \<open>ws\<close> is served and its answers are delivered back.\<close>

definition serve ::
  "'d Yjs \<Rightarrow> YjsFieldsOptions \<Rightarrow> nat \<Rightarrow> ExtCtx \<Rightarrow> u8 list \<Rightarrow> 'd YjsFields \<times> 'd FieldStore \<Rightarrow> 'd YjsFields \<times> 'd FieldStore" where
  "serve Y opts ws ctx bytes st =
     (let (s, calls, e) = onBinaryMessage Y opts ws bytes ctx (snd st)
      in (fold (onFrame Y) (answers ws calls) (fst st), s))"

text \<open>The read of one field, its answer, and whatever the client sends on it.\<close>

definition sync_field ::
  "'d Yjs \<Rightarrow> YjsFieldsOptions \<Rightarrow> nat \<Rightarrow> ExtCtx \<Rightarrow> jstr \<Rightarrow> 'd YjsFields \<times> 'd FieldStore \<Rightarrow> 'd YjsFields \<times> 'd FieldStore" where
  "sync_field Y opts ws ctx f st =
     (let cl = (fst st)\<lparr>yc_out := []\<rparr>;
          gets = (case entry_of cl f of None \<Rightarrow> [] | Some e \<Rightarrow>
                    (case sendGet Y e cl of Inl err \<Rightarrow> [] | Inr cl \<Rightarrow> sends (yc_out cl)));
          (cl, s) = fold (serve Y opts ws ctx) gets (cl, snd st)
      in fold (serve Y opts ws ctx) (sends (yc_out cl)) (cl, s))"

lemma sends_simps [simp]:
  "sends [] = []" "sends (SendBinary b # xs) = b # sends xs" "sends (Notified f l # xs) = sends xs"
  "sends (ResolvedSynced f # xs) = sends xs" "sends (xs @ ys) = sends xs @ sends ys"
  "sends (map (Notified f) ls) = []"
proof -
  show "sends (map (Notified f) ls) = []" by (induction ls) (simp_all add: sends_def)
qed (simp_all add: sends_def)

lemma frame_of:
  assumes "well_formed f" "take 1 f \<noteq> [0xFEFF]" "1 \<le> length (utf8 f)" "length (utf8 f) \<le> MAX_FIELD_ID_BYTES" "valid_type t"
  obtains b where "encodeFieldFrame t f p = Inr b" "decodeFieldFrame b = Some \<lparr>msgType = t, fieldId = f, payload = p\<rparr>"
proof -
  have "utf8 f \<noteq> []" using assms(3) by auto
  then obtain b where b: "encodeFieldFrame t f p = Inr b" using assms(4) by (simp add: encodeFieldFrame_def Let_def)
  then show ?thesis using that decode_encode_frame [OF b assms(5)] utf8_decode_utf8 [OF assms(1,2)] by simp
qed

lemma state_payload:
  assumes "length v \<le> 0xFFFF"
  obtains p where "encodeFieldState \<lparr>writable = w, stateVector = v, diff = u\<rparr> = Inr p"
    "decodeFieldState p = Some \<lparr>writable = w, stateVector = v, diff = u\<rparr>"
  using assms that
  by (simp add: encodeFieldState_def decodeFieldState_def put_u16_def Let_def u16_roundtrip FIELD_STATE_WRITABLE_def)

text \<open>A field both sides can write: the client was not refused and the server grants the write.\<close>

definition writable_on :: "YjsFieldsOptions \<Rightarrow> nat \<Rightarrow> ExtCtx \<Rightarrow> jstr \<Rightarrow> 'd FieldStore \<Rightarrow> bool" where
  "writable_on opts ws ctx f s \<longleftrightarrow> xc_ready ctx \<and> opt_authorizeWrite opts (writeContext f ctx) = Inr True \<and>
     \<not> refused_on s ws f \<and> map_option fr_frozen (fieldRow s f) \<noteq> Some True"

lemma serve_get:
  assumes i: "field_inv Y opts s" and w: "writable_on opts ws ctx f s"
    and d: "materialize Y s f = Inr d" and v: "length (y_vector Y d) \<le> 0xFFFF"
    and b: "decodeFieldFrame b = Some \<lparr>msgType = FIELD_MSG_GET, fieldId = f, payload = sv\<rparr>"
    and id: "well_formed f" "take 1 f \<noteq> [0xFEFF]" "1 \<le> length (utf8 f)" "length (utf8 f) \<le> MAX_FIELD_ID_BYTES"
  obtains p r where
    "decodeFieldState p = Some \<lparr>writable = True, stateVector = y_vector Y d, diff = state_diff Y d sv\<rparr>"
    "decodeFieldFrame r = Some \<lparr>msgType = FIELD_MSG_STATE, fieldId = f, payload = p\<rparr>"
    "onBinaryMessage Y opts ws b ctx s = (fst (loadDoc Y opts False f s), [XSend ws r], None)"
proof -
  obtain p where p: "encodeFieldState \<lparr>writable = True, stateVector = y_vector Y d, diff = state_diff Y d sv\<rparr> = Inr p"
    "decodeFieldState p = Some \<lparr>writable = True, stateVector = y_vector Y d, diff = state_diff Y d sv\<rparr>"
    by (rule state_payload [OF v])
  have t: "valid_type FIELD_MSG_STATE" by (simp add: valid_type_def FIELD_MSG_GET_def FIELD_MSG_STATE_def FIELD_MSG_REJECT_def)
  obtain r where r: "encodeFieldFrame FIELD_MSG_STATE f p = Inr r"
    "decodeFieldFrame r = Some \<lparr>msgType = FIELD_MSG_STATE, fieldId = f, payload = p\<rparr>"
    by (rule frame_of [OF id t])
  have l: "loadDoc Y opts False f s = (fst (loadDoc Y opts False f s), Inr d)"
    using loadDoc_result(1) [of Y opts s False f] i d by (simp add: prod_eq_iff field_inv_def)
  have g: "(case fieldRow s f of None \<Rightarrow> False | Some r \<Rightarrow> fr_frozen r) = False"
    using w by (cases "fieldRow s f") (simp_all add: writable_on_def)
  have "handleGet Y opts ws f sv ctx s = (fst (loadDoc Y opts False f s), [XSend ws r], None)"
    unfolding handleGet_def Let_def g using w
    by (subst l) (simp add: writable_on_def p(1) r(1) send_frame_def)
  then have "onBinaryMessage Y opts ws b ctx s = (fst (loadDoc Y opts False f s), [XSend ws r], None)"
    using w by (simp add: onBinaryMessage_def b writable_on_def)
  with p(2) r(2) that show ?thesis by blast
qed

lemma serve_update:
  assumes w: "writable_on opts ws ctx f s" and u: "length u \<le> MAX_FIELD_UPDATE_BYTES" "y_decodes Y u"
    and b: "decodeFieldFrame b = Some \<lparr>msgType = FIELD_MSG_UPDATE, fieldId = f, payload = u\<rparr>"
  shows "onBinaryMessage Y opts ws b ctx s
      = (refresh_cached Y f u (appended f u (new_total s f u) (MAX_FIELD_BYTES < new_total s f u) s),
         [XBroadcast b (Some ws)], None)"
proof -
  have "accepts Y opts ws f u ctx s"
    using w u by (auto simp: accepts_def writable_on_def split: option.split)
  then have "handleUpdate Y opts ws f u b ctx s
      = (refresh_cached Y f u (appended f u (new_total s f u) (MAX_FIELD_BYTES < new_total s f u) s),
         [XBroadcast b (Some ws)], None)"
    using handleUpdate_cases [of Y opts ws f u ctx s b] by blast
  then show ?thesis
    using w by (simp add: onBinaryMessage_def b writable_on_def FIELD_MSG_GET_def FIELD_MSG_UPDATE_def)
qed

lemma writable_tables:
  "ys_fields s' = ys_fields s \<Longrightarrow> ys_refused s' = ys_refused s \<Longrightarrow> writable_on opts ws ctx f s' = writable_on opts ws ctx f s"
  by (simp add: writable_on_def refused_on_def fieldRow_def)


section \<open>Convergence\<close>

lemma on_state_merges:
  assumes y: "yjs_merges Y m" and e: "en_fieldId e = f" "\<not> en_rejected e" and o: "yc_out cl = []"
    and id: "well_formed f" "take 1 f \<noteq> [0xFEFF]" "1 \<le> length (utf8 f)" "length (utf8 f) \<le> MAX_FIELD_ID_BYTES"
    and u: "y_diff Y (m (en_doc e) d) (y_vector Y d) = Some u" "length u \<le> MAX_FIELD_UPDATE_BYTES"
    and r: "cl' = on_state Y e \<lparr>writable = True, stateVector = y_vector Y d,
                               diff = state_diff Y d (y_vector Y (en_doc e))\<rparr> cl"
  shows "entry_of cl' f = Some (state_entry e (m (en_doc e) d) True) \<and>
    (if length u \<le> 2 then sends (yc_out cl') = []
     else \<exists>b. sends (yc_out cl') = [b] \<and> decodeFieldFrame b = Some \<lparr>msgType = FIELD_MSG_UPDATE, fieldId = f, payload = u\<rparr>)"
proof -
  let ?x = "m (en_doc e) d"
  define st where "st = \<lparr>writable = True, stateVector = y_vector Y d, diff = state_diff Y d (y_vector Y (en_doc e))\<rparr>"
  have stf: "writable st" "stateVector st = y_vector Y d" "diff st = state_diff Y d (y_vector Y (en_doc e))"
    by (simp_all add: st_def)
  have d: "(if isEmptyUpdate (diff st) then (en_doc e, False) else y_apply Y (diff st) (en_doc e)) = (?x, False)"
    using state_diff_merges [OF y, of d "en_doc e"] by (simp add: stf isEmptyUpdate_def)
  define e1 where "e1 = state_entry e ?x True"
  define s1 where "s1 = put_entry e1 cl"
  have e1: "en_canWrite e1" "en_fieldId e1 = f" "en_doc e1 = ?x" using e by (simp_all add: e1_def)
  have s1: "entry_of s1 f = Some e1" "yc_out s1 = []" by (simp_all add: s1_def entry_put e1 o)
  have t: "valid_type FIELD_MSG_UPDATE" by (simp add: valid_type_def FIELD_MSG_GET_def FIELD_MSG_UPDATE_def FIELD_MSG_REJECT_def)
  obtain b where b: "encodeFieldFrame FIELD_MSG_UPDATE f u = Inr b"
    "decodeFieldFrame b = Some \<lparr>msgType = FIELD_MSG_UPDATE, fieldId = f, payload = u\<rparr>"
    by (rule frame_of [OF id t])
  define s2 where "s2 = (if length u \<le> 2 then s1 else out [SendBinary b] s1)"
  have p: "push_back Y (y_vector Y d) e1 s1 = (e1, s2)"
    using u by (simp add: push_back_def e1 s2_def isEmptyUpdate_def sendUpdate_def b(1) send_binary_def)
  define s3 where "s3 = (if en_canWrite e1 \<noteq> en_canWrite e \<or> en_writeBlocked e1 \<noteq> en_writeBlocked e \<or> \<not> en_synced e
                       then notify e1 s2 else s2)"
  have "cl' = out [ResolvedSynced (en_fieldId e)] s3"
    unfolding r st_def [symmetric]
    by (simp only: on_state_def stf d [unfolded stf] prod.case if_False Let_def e1_def [symmetric] s1_def [symmetric] e1(1) if_True p s3_def)
  then have c: "entry_of cl' f = entry_of s2 f" "sends (yc_out cl') = sends (yc_out s2)"
    by (simp_all add: s3_def)
  have "entry_of s2 f = Some e1" using s1 by (simp add: s2_def)
  moreover have "sends (yc_out s2) = (if length u \<le> 2 then [] else [b])" by (simp add: s2_def s1)
  ultimately show ?thesis using c b(2) by (simp add: e1_def)
qed

text \<open>
  C21: One exchange makes a writable field converge. Whatever documents a client's entry and the
  server hold, after the client's read is answered and what it then sends is served, both hold
  the merge of the two, and the entry is synced and writable. Assumed are the library's merge
  laws, an id the wire carries, a state vector that fits its length field and a push-back
  within the update limit.
\<close>
theorem sync_round_converges:
  assumes y: "yjs_merges Y m"
    and s: "s = field_run Y opts evs empty_store" and cl: "cl = fields_run Y cevs" "\<not> yc_destroyed cl"
    and e: "entry_of cl f = Some e" "\<not> en_rejected e"
    and w: "writable_on opts ws ctx f s" and d: "materialize Y s f = Inr d"
    and id: "well_formed f" "take 1 f \<noteq> [0xFEFF]" "1 \<le> length (utf8 f)" "length (utf8 f) \<le> MAX_FIELD_ID_BYTES"
    and v: "length (y_vector Y d) \<le> 0xFFFF"
    and u: "\<forall>u. y_diff Y (m (en_doc e) d) (y_vector Y d) = Some u \<longrightarrow> length u \<le> MAX_FIELD_UPDATE_BYTES"
    and r: "sync_field Y opts ws ctx f (cl, s) = (cl', s')"
  shows "materialize Y s' f = Inr (m (en_doc e) d) \<and>
    (\<exists>e'. entry_of cl' f = Some e' \<and> en_doc e' = m (en_doc e) d \<and> en_synced e' \<and> en_canWrite e')"
proof -
  let ?x = "m (en_doc e) d"
  have i: "field_inv Y opts s" using field_inv_run [OF field_inv_empty merges_restores [OF y]] s by simp
  define cl0 where "cl0 = cl\<lparr>yc_out := []\<rparr>"
  have cl0: "entry_of cl0 f = Some e" "yc_out cl0 = []" "\<not> yc_destroyed cl0"
    using e cl(2) by (simp_all add: cl0_def entry_of_def)
  have ok: "client_ok cl" using client_ok_run [of Y cevs] cl by simp
  then have fe: "en_fieldId e = f" using e by (auto simp: client_ok_def entry_ok_def)
  have t: "valid_type FIELD_MSG_GET" by (simp add: valid_type_def FIELD_MSG_GET_def FIELD_MSG_REJECT_def)
  obtain g where g: "encodeFieldFrame FIELD_MSG_GET f (y_vector Y (en_doc e)) = Inr g"
    "decodeFieldFrame g = Some \<lparr>msgType = FIELD_MSG_GET, fieldId = f, payload = y_vector Y (en_doc e)\<rparr>"
    by (rule frame_of [OF id t])
  define s1 where "s1 = fst (loadDoc Y opts False f s)"
  obtain p a where p: "decodeFieldState p = Some \<lparr>writable = True, stateVector = y_vector Y d,
        diff = state_diff Y d (y_vector Y (en_doc e))\<rparr>"
    and a: "decodeFieldFrame a = Some \<lparr>msgType = FIELD_MSG_STATE, fieldId = f, payload = p\<rparr>"
    and get: "onBinaryMessage Y opts ws g ctx s = (s1, [XSend ws a], None)"
    unfolding s1_def by (rule serve_get [OF i w d v g(2) id])
  define cl1 where "cl1 = on_state Y e \<lparr>writable = True, stateVector = y_vector Y d,
        diff = state_diff Y d (y_vector Y (en_doc e))\<rparr> cl0"
  have fr: "onFrame Y a cl0 = cl1"
    using cl0 by (simp add: onFrame_def a p cl1_def FIELD_MSG_STATE_def FIELD_MSG_UPDATE_def)
  have sv: "serve Y opts ws ctx g (cl0, s) = (cl1, s1)" by (simp add: serve_def get answers_def fr)
  have round: "sync_field Y opts ws ctx f (cl, s) = fold (serve Y opts ws ctx) (sends (yc_out cl1)) (cl1, s1)"
    by (simp add: sync_field_def cl0_def [symmetric] cl0 sendGet_def fe g(1) send_binary_def sv)
  obtain u where diff: "y_diff Y ?x (y_vector Y d) = Some u"
    using y unfolding yjs_merges_def by blast
  then have ul: "length u \<le> MAX_FIELD_UPDATE_BYTES" using u by blast
  note m = on_state_merges [OF y fe e(2) cl0(2) id diff ul cl1_def]
  have s1: "field_inv Y opts s1" "writable_on opts ws ctx f s1" "materialize Y s1 f = Inr d"
    using field_inv_loadDoc [OF i] w d writable_tables [of s1 s] materialize_tables [of s1 s Y f]
    by (simp_all add: s1_def)
  have fin: "entry_of cl1 f = Some (state_entry e ?x True)" using m by simp
  have ent: "\<exists>e'. entry_of cl1 f = Some e' \<and> en_doc e' = ?x \<and> en_synced e' \<and> en_canWrite e'"
    using fin e(2) by simp
  note du = merges_diff [OF y diff]
  show ?thesis
  proof (cases "length u \<le> 2")
    case True
    then have "sends (yc_out cl1) = []" using m by simp
    then have "(cl', s') = (cl1, s1)" using r round by simp
    moreover have "?x = d" using du(3) [OF True] merges_algebra [OF y] by simp
    ultimately show ?thesis using ent s1(3) by simp
  next
    case False
    then obtain b where b: "sends (yc_out cl1) = [b]"
      "decodeFieldFrame b = Some \<lparr>msgType = FIELD_MSG_UPDATE, fieldId = f, payload = u\<rparr>" using m by auto
    define s2 where "s2 = appended f u (new_total s1 f u) (MAX_FIELD_BYTES < new_total s1 f u) s1"
    have "onBinaryMessage Y opts ws b ctx s1 = (refresh_cached Y f u s2, [XBroadcast b (Some ws)], None)"
      unfolding s2_def by (rule serve_update [OF s1(2) ul du(2) b(2)])
    then have "(cl', s') = (cl1, refresh_cached Y f u s2)"
      using r round by (simp add: b(1) serve_def answers_def)
    moreover have "materialize Y (refresh_cached Y f u s2) f = materialize Y s2 f" by (rule materialize_tables) simp_all
    moreover have "row_ok s1 f" using s1(1) by (simp add: field_inv_def)
    then have "materialize Y s2 f = Inr ?x"
      using du(1) s1(3) merges_algebra [OF y] by (simp add: s2_def materialize_appended)
    ultimately show ?thesis using ent by simp
  qed
qed


text \<open>A client that edited field \<open>a\<close> offline to 9 meets the server's 7.\<close>

definition offline_client :: "u8 YjsFields" where
  "offline_client = fields_run max_yjs [CGetDoc False (js ''a''), CEdit False (js ''a'') 9 [0, 0, 9]]"

lemma offline_client_value:
  "offline_client =
   \<lparr>yc_entries = [(js ''a'', \<lparr>en_uid = 0, en_fieldId = js ''a'', en_doc = 9, en_refs = 1, en_canWrite = False,
       en_rejected = False, en_writeBlocked = None, en_synced = False, en_listeners = []\<rparr>)],
    yc_destroyed = False, yc_handles = [(0, js ''a'', 0, False)], yc_next = 1, yc_out = []\<rparr>"
  by (simp add: offline_client_def fields_run_def createYjsFields_def getDoc_def acquire_entry_def give_handle_def
      entry_of_def put_entry_def new_entry_def local_edit_def Let_def max_yjs_def MAX_FIELD_ID_BYTES_def
      high_surrogate_def low_surrogate_def)

theorem sync_round_converges_witness:
  "materialize max_yjs (snd (sync_field max_yjs demo_field_options 1 (demo_ctx ''w'') (js ''a'') (offline_client, demo_fields)))
     (js ''a'') = Inr 9"
proof -
  let ?r = "sync_field max_yjs demo_field_options 1 (demo_ctx ''w'') (js ''a'') (offline_client, demo_fields)"
  let ?e = "\<lparr>en_uid = 0, en_fieldId = js ''a'', en_doc = 9, en_refs = 1, en_canWrite = False,
       en_rejected = False, en_writeBlocked = None, en_synced = False, en_listeners = []\<rparr> :: u8 FieldEntry"
  have "materialize max_yjs (snd ?r) (js ''a'') = Inr (max (en_doc ?e) 7) \<and>
    (\<exists>e'. entry_of (fst ?r) (js ''a'') = Some e' \<and> en_doc e' = max (en_doc ?e) 7 \<and> en_synced e' \<and> en_canWrite e')"
  proof (rule sync_round_converges [OF max_yjs_merges, of _ demo_field_options demo_field_events
        _ "[CGetDoc False (js ''a''), CEdit False (js ''a'') 9 [0, 0, 9]]" _ _ 1 "demo_ctx ''w''"])
    show "demo_fields = field_run max_yjs demo_field_options demo_field_events empty_store" by (rule demo_fields_def)
    show "offline_client = fields_run max_yjs [CGetDoc False (js ''a''), CEdit False (js ''a'') 9 [0, 0, 9]]"
      by (rule offline_client_def)
    show "entry_of offline_client (js ''a'') = Some ?e" by (simp add: offline_client_value entry_of_def)
    show "writable_on demo_field_options 1 (demo_ctx ''w'') (js ''a'') demo_fields"
      by (simp add: writable_on_def demo_fields_value field_eval)
    show "materialize max_yjs demo_fields (js ''a'') = Inr 7" by (simp add: demo_fields_value field_eval)
  qed (simp_all add: offline_client_value max_yjs_def MAX_FIELD_ID_BYTES_def MAX_FIELD_UPDATE_BYTES_def
      high_surrogate_def low_surrogate_def)
  then show ?thesis by (simp add: max_def)
qed

section \<open>Ids no frame can address\<close>

text \<open>\<open>TextDecoder\<close> only ever yields text without lone surrogates.\<close>

definition scalar :: "nat \<Rightarrow> bool" where
  "scalar cp \<longleftrightarrow> cp < 0xD800 \<or> (0xE000 \<le> cp \<and> cp < 0x110000)"

lemma well_formed_unit:
  assumes "scalar cp" "well_formed rest"
  shows "well_formed (unit_of cp @ rest)"
proof (cases "cp < 0x10000")
  case True
  then have u: "unat (of_nat cp :: 16 word) = cp" by (simp add: unat_of_nat)
  have "\<not> high_surrogate (of_nat cp)" "\<not> low_surrogate (of_nat cp)"
    using assms(1) u by (auto simp: high_surrogate_def low_surrogate_def scalar_def word_le_nat_alt)
  then show ?thesis using assms(2) True by (simp add: unit_of_def)
next
  case False
  define a where "a = 0xD800 + (cp - 0x10000) div 1024"
  define b where "b = 0xDC00 + (cp - 0x10000) mod 1024"
  have "cp - 0x10000 < 1024 * 1024" using assms(1) False by (auto simp: scalar_def)
  then have ab: "0xD800 \<le> a" "a \<le> 0xDBFF" "0xDC00 \<le> b" "b \<le> 0xDFFF"
    using less_mult_imp_div_less [of "cp - 0x10000" 1024 1024] by (auto simp: a_def b_def)
  then have u: "unat (of_nat a :: 16 word) = a" "unat (of_nat b :: 16 word) = b" by (simp_all add: unat_of_nat)
  have "high_surrogate (of_nat a)" "low_surrogate (of_nat b)"
    using ab u by (simp_all add: high_surrogate_def low_surrogate_def word_le_nat_alt)
  moreover have "unit_of cp = [of_nat a, of_nat b]" using False by (simp add: unit_of_def a_def b_def)
  ultimately show ?thesis using assms(2) by simp
qed

lemma well_formed_bad: "well_formed rest \<Longrightarrow> well_formed (bad_unit @ rest)"
  by (simp add: bad_unit_def high_surrogate_def low_surrogate_def)

primrec cont_ok :: "nat \<Rightarrow> nat \<Rightarrow> nat \<Rightarrow> nat \<Rightarrow> bool" where
  "cont_ok 0 cp lo hi = True"
| "cont_ok (Suc k) cp lo hi =
     (\<forall>n. lo \<le> n \<and> n \<le> hi \<longrightarrow>
        (if k = 0 then scalar (cp * 64 + (n - 0x80)) else cont_ok k (cp * 64 + (n - 0x80)) 0x80 0xBF))"

lemma cont_ok_step:
  assumes "cont_ok (Suc k) cp lo hi" "lo \<le> n" "n \<le> hi"
  shows "k = 0 \<Longrightarrow> scalar (cp * 64 + (n - 0x80))" "k \<noteq> 0 \<Longrightarrow> cont_ok k (cp * 64 + (n - 0x80)) 0x80 0xBF"
  using assms unfolding cont_ok.simps by meson+

lemma cont_ok_2:
  "cont_ok (Suc (Suc 0)) cp lo hi \<longleftrightarrow>
     (\<forall>x. lo \<le> x \<and> x \<le> hi \<longrightarrow> (\<forall>y. 0x80 \<le> y \<and> y \<le> 0xBF \<longrightarrow> scalar ((cp * 64 + (x - 0x80)) * 64 + (y - 0x80))))"
  by (simp only: cont_ok.simps nat.simps if_False if_True simp_thms)

lemma cont_ok_3:
  "cont_ok (Suc (Suc (Suc 0))) cp lo hi \<longleftrightarrow>
     (\<forall>x. lo \<le> x \<and> x \<le> hi \<longrightarrow> (\<forall>y. 0x80 \<le> y \<and> y \<le> 0xBF \<longrightarrow> (\<forall>z. 0x80 \<le> z \<and> z \<le> 0xBF \<longrightarrow>
        scalar (((cp * 64 + (x - 0x80)) * 64 + (y - 0x80)) * 64 + (z - 0x80)))))"
  by (simp only: cont_ok.simps nat.simps if_False if_True simp_thms)

declare cont_ok.simps(2) [simp del]

lemma lead2_ok: "0xC2 \<le> n \<Longrightarrow> n \<le> 0xDF \<Longrightarrow> cont_ok (Suc 0) (n - 0xC0) 0x80 0xBF"
  by (auto simp: scalar_def cont_ok.simps(2))

lemma lead3_ok:
  assumes "0xE0 \<le> n" "n \<le> 0xEF"
  shows "cont_ok (Suc (Suc 0)) (n - 0xE0) (if n = 0xE0 then 0xA0 else 0x80) (if n = 0xED then 0x9F else 0xBF)"
proof -
  define cp where "cp = n - 0xE0"
  have cp: "cp < 13 \<or> cp = 13 \<and> n = 0xED \<or> 14 \<le> cp \<and> cp \<le> 15" using assms by (auto simp: cp_def)
  have "scalar ((cp * 64 + (x - 0x80)) * 64 + (y - 0x80))"
    if "x \<le> (if n = 0xED then 0x9F else 0xBF)" "y \<le> 0xBF" for x y
  proof -
    define u v where "u = x - 0x80" and "v = y - 0x80"
    have uv: "u < 64" "v < 64" "n = 0xED \<Longrightarrow> u < 32" using that by (auto simp: u_def v_def split: if_splits)
    have "scalar ((cp * 64 + u) * 64 + v)"
      using cp
    proof (elim disjE conjE)
      assume "cp = 13" "n = 0xED"
      then show ?thesis using uv by (simp add: scalar_def)
    qed (use uv in \<open>simp_all add: scalar_def\<close>)
    then show ?thesis by (simp add: u_def v_def)
  qed
  then show ?thesis unfolding cont_ok_2 cp_def [symmetric] by blast
qed

lemma lead4_ok:
  assumes "0xF0 \<le> n" "n \<le> 0xF4"
  shows "cont_ok (Suc (Suc (Suc 0))) (n - 0xF0) (if n = 0xF0 then 0x90 else 0x80) (if n = 0xF4 then 0x8F else 0xBF)"
proof -
  define cp where "cp = n - 0xF0"
  have cp: "cp = 0 \<and> n = 0xF0 \<or> 1 \<le> cp \<and> cp \<le> 3 \<or> cp = 4 \<and> n = 0xF4" using assms by (auto simp: cp_def)
  have "scalar (((cp * 64 + (x - 0x80)) * 64 + (y - 0x80)) * 64 + (z - 0x80))"
    if "(if n = 0xF0 then 0x90 else 0x80) \<le> x" "x \<le> (if n = 0xF4 then 0x8F else 0xBF)" "y \<le> 0xBF" "z \<le> 0xBF" for x y z
  proof -
    define u v t where "u = x - 0x80" and "v = y - 0x80" and "t = z - 0x80"
    have uv: "u < 64" "v < 64" "t < 64" "n = 0xF0 \<Longrightarrow> 16 \<le> u" "n = 0xF4 \<Longrightarrow> u < 16"
      using that by (auto simp: u_def v_def t_def split: if_splits)
    have "scalar (((cp * 64 + u) * 64 + v) * 64 + t)"
      using cp by (elim disjE conjE) (use uv in \<open>simp_all add: scalar_def\<close>)
    then show ?thesis by (simp add: u_def v_def t_def)
  qed
  then show ?thesis unfolding cont_ok_3 cp_def [symmetric] by blast
qed

lemma well_formed_decode:
  "cont_ok needed cp lo hi \<Longrightarrow> well_formed (decode_loop needed cp lo hi bs)"
proof (induction needed cp lo hi bs rule: decode_loop.induct)
  case (1 needed cp lo hi)
  then show ?case by (simp add: bad_unit_def high_surrogate_def low_surrogate_def)
next
  case (2 needed cp lo hi b bs)
  let ?n = "unat b"
  show ?case
  proof (cases needed)
    case 0
    consider "?n < 0x80" | "0xC2 \<le> ?n" "?n \<le> 0xDF" | "0xE0 \<le> ?n" "?n \<le> 0xEF" | "0xF0 \<le> ?n" "?n \<le> 0xF4"
      | "0x80 \<le> ?n" "\<not> (0xC2 \<le> ?n \<and> ?n \<le> 0xF4)" by linarith
    then show ?thesis
    proof cases
      case 1
      then show ?thesis using 2(1) [OF refl 0] 0 by (simp add: well_formed_unit scalar_def)
    next
      case a: 2
      then show ?thesis using 2(2) [OF refl 0] lead2_ok [OF a] 0 by (simp add: Let_def)
    next
      case a: 3
      then show ?thesis using 2(3) [OF refl 0] lead3_ok [OF a] 0 by (simp add: Let_def numeral_2_eq_2)
    next
      case a: 4
      then show ?thesis using 2(4) [OF refl 0] lead4_ok [OF a] 0 by (simp add: Let_def numeral_3_eq_3)
    next
      case a: 5
      then show ?thesis using 2(5) [OF refl 0] 0 by (auto simp add: Let_def well_formed_bad)
    qed
  next
    case (Suc k)
    then have k: "needed \<noteq> 0" "Suc k \<noteq> 0" by simp_all
    show ?thesis
    proof (cases "?n < lo \<or> hi < ?n")
      case True
      have "well_formed (decode_loop 0 0 0x80 0xBF (b # bs))" using 2(6) [OF refl k(1) True] by simp
      then have "well_formed (bad_unit @ decode_loop 0 0 0x80 0xBF (b # bs))" by (rule well_formed_bad)
      then show ?thesis using k True by (subst decode_loop.simps) (simp only: Let_def if_False if_True)
    next
      case False
      show ?thesis
      proof (cases k)
        case 0
        then have "needed = 1" using Suc by simp
        then have "well_formed (decode_loop 0 0 0x80 0xBF bs)" using 2(7) [OF refl k(1) False] by simp
        moreover have "scalar (cp * 64 + (?n - 0x80))" using cont_ok_step(1) [of 0 cp lo hi ?n] 2(9) False \<open>needed = 1\<close> by simp
        ultimately have "well_formed (unit_of (cp * 64 + (?n - 0x80)) @ decode_loop 0 0 0x80 0xBF bs)"
          by (intro well_formed_unit)
        then show ?thesis using False \<open>needed = 1\<close> by (subst decode_loop.simps) (simp only: Let_def if_False if_True one_neq_zero simp_thms)
      next
        case (Suc j)
        then have n1: "needed \<noteq> 1" "needed - 1 = k" using \<open>needed = Suc k\<close> by simp_all
        have "cont_ok k (cp * 64 + (?n - 0x80)) 0x80 0xBF" using cont_ok_step(2) [of k cp lo hi ?n] 2(9) False \<open>k = Suc j\<close> \<open>needed = Suc k\<close>
          by (simp del: One_nat_def)
        then have "well_formed (decode_loop k (cp * 64 + (?n - 0x80)) 0x80 0xBF bs)"
          by (rule 2(8) [OF refl k(1) False n1(1), unfolded n1(2)])
        then show ?thesis using False k(1) n1 by (subst decode_loop.simps) (simp only: Let_def if_False if_True)
      qed
    qed
  qed
qed

lemma well_formed_utf8_decode: "well_formed (utf8_decode bs)"
  by (simp add: utf8_decode_def well_formed_decode del: decode_loop.simps split: list.split)

lemma decoded_id_well_formed: "decodeFieldFrame bytes = Some fr \<Longrightarrow> well_formed (fieldId fr)"
  by (auto simp: decodeFieldFrame_def well_formed_utf8_decode Let_def split: list.splits if_splits)

lemma sendUpdate_other:
  "sendUpdate e u s = Inr (e2, s2) \<Longrightarrow> en_fieldId e \<noteq> f \<Longrightarrow> entry_of s2 f = entry_of s f"
proof (cases "MAX_FIELD_UPDATE_BYTES < length u")
  case True
  assume "sendUpdate e u s = Inr (e2, s2)" and f: "en_fieldId e \<noteq> f"
  with True have "s2 = notify (refused_locally e) (put_entry (refused_locally e) s)"
    by (auto simp: sendUpdate_def Let_def)
  then show ?thesis using f by (simp add: entry_put)
next
  case False
  assume "sendUpdate e u s = Inr (e2, s2)"
  with False have "bind_res (send_binary (encodeFieldFrame FIELD_MSG_UPDATE (en_fieldId e) u) s) (\<lambda>s. Inr (e, s)) = Inr (e2, s2)"
    by (simp only: sendUpdate_def if_False)
  then show ?thesis by (cases "encodeFieldFrame FIELD_MSG_UPDATE (en_fieldId e) u") (auto simp: send_binary_def)
qed

lemma push_back_other:
  assumes "push_back Y sv e s = (e2, s2)" "en_fieldId e \<noteq> f"
  shows "entry_of s2 f = entry_of s f"
proof (cases "y_diff Y (en_doc e) sv")
  case (Some u)
  then show ?thesis using assms sendUpdate_other [of e u s e2 s2 f]
    by (cases "sendUpdate e u s") (auto simp: push_back_def split: if_splits)
qed (use assms in \<open>simp add: push_back_def\<close>)

lemma on_state_other:
  assumes "en_fieldId e \<noteq> f"
  shows "entry_of (on_state Y e st s) f = entry_of s f"
proof -
  obtain d t where d: "(if isEmptyUpdate (diff st) then (en_doc e, False) else y_apply Y (diff st) (en_doc e)) = (d, t)"
    by fastforce
  define e1 where "e1 = state_entry e d (writable st)"
  define s1 where "s1 = put_entry e1 s"
  obtain e2 s2 where p: "(if en_canWrite e1 then push_back Y (stateVector st) e1 s1 else (e1, s1)) = (e2, s2)" by fastforce
  have e1: "en_fieldId e1 \<noteq> f" using assms by (simp add: e1_def)
  have "entry_of s2 f = entry_of s1 f" using p push_back_other [OF _ e1] by (auto split: if_splits)
  moreover have "entry_of s1 f = entry_of s f" using e1 by (simp add: s1_def entry_put)
  moreover have "on_state Y e st s = (if t then put_entry (e\<lparr>en_doc := d\<rparr>) s else out [ResolvedSynced (en_fieldId e)]
      (if en_canWrite e2 \<noteq> en_canWrite e \<or> en_writeBlocked e2 \<noteq> en_writeBlocked e \<or> \<not> en_synced e then notify e2 s2 else s2))"
    by (simp only: on_state_def d prod.case Let_def e1_def [symmetric] s1_def [symmetric] p)
  ultimately show ?thesis using assms by (simp add: entry_put)
qed

text \<open>An entry nothing can reach is neither synced nor writable, whatever happens.\<close>

definition out_of_reach :: "jstr \<Rightarrow> 'd YjsFields \<Rightarrow> bool" where
  "out_of_reach f s \<longleftrightarrow> (\<forall>e. entry_of s f = Some e \<longrightarrow> \<not> en_synced e \<and> \<not> en_canWrite e)"

lemma reach_put:
  "out_of_reach f s \<Longrightarrow> (en_fieldId e = f \<Longrightarrow> \<not> en_synced e \<and> \<not> en_canWrite e) \<Longrightarrow> out_of_reach f (put_entry e s)"
  by (auto simp: out_of_reach_def entry_put)

lemma reach_entries: "entry_of s' f = entry_of s f \<Longrightarrow> out_of_reach f s \<Longrightarrow> out_of_reach f s'"
  by (simp add: out_of_reach_def)

lemma reach_frame:
  assumes "\<not> well_formed f" "client_ok s" "out_of_reach f s"
  shows "out_of_reach f (onFrame Y bytes s)"
proof (cases "decodeFieldFrame bytes")
  case (Some fr)
  then have n: "fieldId fr \<noteq> f" using decoded_id_well_formed assms(1) by blast
  show ?thesis
  proof (cases "entry_of s (fieldId fr)")
    case None
    then show ?thesis using assms(3) by (simp add: onFrame_def Some)
  next
    case e: (Some e)
    have "entry_ok (fieldId fr) e" using assms(2) e by (simp add: client_ok_def)
    then have f: "en_fieldId e \<noteq> f" using n by (simp add: entry_ok_def)
    have "entry_of (on_update Y e u s) f = entry_of s f" "entry_of (on_reject e u s) f = entry_of s f" for u
      using f by (simp_all add: on_update_def on_reject_def entry_put Let_def)
    then have "entry_of (onFrame Y bytes s) f = entry_of s f"
      using on_state_other [OF f] by (simp add: onFrame_def Some e split: option.split)
    then show ?thesis using assms(3) by (rule reach_entries)
  qed
qed (use assms(3) in \<open>simp add: onFrame_def\<close>)

lemma reach_held:
  assumes "client_ok s" "out_of_reach f s" "entry_of s g = Some e"
    and "en_fieldId e' = en_fieldId e" "en_synced e' = en_synced e" "en_canWrite e' = en_canWrite e"
  shows "out_of_reach f (put_entry e' s)"
proof (rule reach_put [OF assms(2)])
  have "entry_ok g e" using assms(1,3) by (simp add: client_ok_def)
  then have "en_fieldId e = g" by (simp add: entry_ok_def)
  then show "\<not> en_synced e' \<and> \<not> en_canWrite e'" if "en_fieldId e' = f"
    using assms that by (simp add: out_of_reach_def)
qed

lemma reach_handle:
  assumes "client_ok s" "out_of_reach f s" "handle_entry h s = Some e"
    and "en_fieldId e' = en_fieldId e" "en_synced e' = en_synced e" "en_canWrite e' = en_canWrite e"
  shows "out_of_reach f (put_entry e' s)"
  using handle_entry_in [OF assms(3)] reach_held [OF assms(1,2) _ assms(4-6)] by blast

lemma reach_release:
  assumes ok: "client_ok s" and r: "out_of_reach f s"
  shows "out_of_reach f (release h s)"
proof (cases "\<exists>g uid. map_of (yc_handles s) h = Some (g, uid, False)")
  case False
  then show ?thesis using r by (auto simp: release_def split: option.split)
next
  case True
  then obtain g uid where h: "map_of (yc_handles s) h = Some (g, uid, False)" by blast
  define s1 where "s1 = s\<lparr>yc_handles := AList.update h (g, uid, True) (yc_handles s)\<rparr>"
  have ent: "entry_of s1 i = entry_of s i" for i by (simp add: s1_def entry_of_def)
  have ok1: "client_ok s1" using ok by (simp add: client_ok_def ent) (simp add: s1_def)
  have r1: "out_of_reach f s1" using r by (simp add: out_of_reach_def ent)
  have eq: "release h s = (case handle_entry h s of None \<Rightarrow> s1 | Some e \<Rightarrow>
       if en_refs e - 1 = 0 then s1\<lparr>yc_entries := AList.delete g (yc_entries s1)\<rparr>
       else put_entry (e\<lparr>en_refs := en_refs e - 1\<rparr>) s1)"
    by (simp only: release_def h option.case prod.case if_False Let_def s1_def [symmetric])
  show ?thesis
  proof (cases "handle_entry h s")
    case None
    then show ?thesis using r1 by (simp add: eq)
  next
    case (Some e)
    then obtain i where i: "entry_of s1 i = Some e" using handle_entry_in ent by metis
    have "out_of_reach f (put_entry (e\<lparr>en_refs := en_refs e - 1\<rparr>) s1)"
      by (rule reach_held [OF ok1 r1 i]) simp_all
    moreover have "out_of_reach f (s1\<lparr>yc_entries := AList.delete g (yc_entries s1)\<rparr>)"
      using r1 by (simp add: out_of_reach_def entry_of_def map_facts)
    ultimately show ?thesis by (simp add: eq Some)
  qed
qed

lemma sendGet_entries: "sendGet Y e s = Inr s' \<Longrightarrow> entry_of s' f = entry_of s f"
  by (cases "encodeFieldFrame FIELD_MSG_GET (en_fieldId e) (y_vector Y (en_doc e))") (auto simp: sendGet_def send_binary_def)

lemma reach_event:
  assumes wf: "\<not> well_formed f" and ok: "client_ok s" and r: "out_of_reach f s"
  shows "out_of_reach f (fields_event Y ev s)"
proof (cases ev)
  case (CFrame bytes)
  then show ?thesis using reach_frame [OF wf ok r] by simp
next
  case (CStatus synced)
  have "entry_of (fold (resync_entry Y) es t) f = entry_of t f" for es and t :: "'a YjsFields"
    by (induction es arbitrary: t) (simp_all add: resync_entry_def sendGet_entries split: sum.split)
  then show ?thesis using r reach_entries [OF _ r] by (simp add: CStatus onStatus_def)
next
  case (CEdit synced g d u)
  show ?thesis
  proof (cases "entry_of s g")
    case None
    then show ?thesis using r by (simp add: CEdit local_edit_def)
  next
    case (Some e)
    define e1 where "e1 = e\<lparr>en_doc := d\<rparr>"
    define s1 where "s1 = put_entry e1 s"
    have "entry_ok g e" using ok Some by (simp add: client_ok_def)
    then have g: "en_fieldId e1 = g" by (simp add: entry_ok_def e1_def)
    have s1: "out_of_reach f s1"
      unfolding s1_def using r Some g by (intro reach_put) (auto simp: out_of_reach_def e1_def)
    have "local_edit Y synced g d u s
        = (if \<not> en_canWrite e1 \<or> \<not> synced then s1 else case sendUpdate e1 u s1 of Inl err \<Rightarrow> s1 | Inr (e, s) \<Rightarrow> s)"
      by (simp only: local_edit_def Some option.case Let_def e1_def [symmetric] s1_def [symmetric])
    moreover have "out_of_reach f s2" if "en_canWrite e1" "sendUpdate e1 u s1 = Inr (e2, s2)" for e2 s2
    proof -
      have "g \<noteq> f" using that(1) r Some by (auto simp: out_of_reach_def e1_def)
      then have "entry_of s2 f = entry_of s1 f" using sendUpdate_other [OF that(2)] g by simp
      then show ?thesis using s1 by (rule reach_entries)
    qed
    ultimately show ?thesis using s1 by (auto simp: CEdit split: sum.split)
  qed
next
  case (CGetDoc synced g)
  have "out_of_reach f s'" if h: "getDoc Y synced g s = Inr (s', h)" for s' h
  proof -
    obtain s1 e where a: "acquire_entry Y synced g s = Inr s1" "entry_of s1 g = Some e" "s' = give_handle g e s1"
      using h by (auto simp: getDoc_def Let_def bind_res_Inr_iff split: if_splits option.splits)
    have n: "out_of_reach f (put_entry (new_entry Y n g) s)" for n
      by (rule reach_put [OF r]) (simp add: new_entry_def)
    have s1: "out_of_reach f s1"
      using a(1) r n reach_entries [OF sendGet_entries n]
      by (auto simp: acquire_entry_def Let_def split: option.splits if_splits)
    have "client_ok s1" using acquire_step [OF ok a(1)] by (simp add: fields_step_def)
    then have "out_of_reach f (put_entry (e\<lparr>en_refs := en_refs e + 1\<rparr>) s1)"
      by (rule reach_held [OF _ s1 a(2)]) simp_all
    then show ?thesis by (rule reach_entries [rotated]) (simp add: a(3) give_handle_def entry_of_def)
  qed
  then show ?thesis using r by (auto simp: CGetDoc split: sum.split)
next
  case (CSubscribe h l)
  then show ?thesis using r reach_handle [OF ok r, of h] by (simp add: subscribe_def split: option.split)
next
  case (CUnsubscribe h l)
  then show ?thesis using r reach_handle [OF ok r, of h] by (simp add: unsubscribe_def split: option.split)
next
  case (CRelease h)
  then show ?thesis using reach_release [OF ok r] by simp
next
  case CDestroy
  then show ?thesis using r by (simp add: destroy_def out_of_reach_def entry_of_def)
qed


text \<open>
  \<open>getDoc\<close> accepts a field id with a lone surrogate, though no frame the client receives can
  name it: whatever frames arrive and whatever else happens, the field never becomes synced
  or writable.
\<close>
theorem unaddressable_field_never_syncs:
  assumes "\<not> well_formed f" and "1 \<le> length (utf8 f)" and "length (utf8 f) \<le> MAX_FIELD_ID_BYTES"
    and "s = fields_run Y evs"
  shows "(\<not> yc_destroyed s \<longrightarrow> (\<exists>s' h. getDoc Y synced f s = Inr (s', h))) \<and>
    (entry_of s f = Some e \<longrightarrow> \<not> en_synced e \<and> \<not> en_canWrite e)"
proof
  show "entry_of s f = Some e \<longrightarrow> \<not> en_synced e \<and> \<not> en_canWrite e"
  proof -
    have "client_ok t \<Longrightarrow> out_of_reach f t \<Longrightarrow> out_of_reach f (fold (fields_event Y) evs t)" for t :: "'a YjsFields"
    proof (induction evs arbitrary: t)
      case (Cons ev evs)
      then show ?case
        using reach_event [OF assms(1) Cons.prems, of Y ev] fields_event_step [OF Cons.prems(1), of Y ev]
        by (simp add: fields_step_def)
    qed simp
    moreover have "out_of_reach f (createYjsFields :: 'a YjsFields)"
      by (simp add: createYjsFields_def out_of_reach_def entry_of_def)
    ultimately have "out_of_reach f s" unfolding assms(4) fields_run_def using client_ok_created by blast
    then show ?thesis by (simp add: out_of_reach_def)
  qed
next
  have ok: "client_ok s" using client_ok_run assms(4) by simp
  have id: "utf8 f \<noteq> []" "\<not> MAX_FIELD_ID_BYTES < length (utf8 f)" using assms(2,3) by auto
  have "\<exists>s1 e. acquire_entry Y synced f s = Inr s1 \<and> entry_of s1 f = Some e"
  proof (cases "entry_of s f")
    case (Some e)
    then show ?thesis by (simp add: acquire_entry_def)
  next
    case None
    have "en_fieldId (new_entry Y n f) = f" for n by (simp add: new_entry_def)
    then show ?thesis
      using id by (simp add: acquire_entry_def None Let_def sendGet_def encodeFieldFrame_def send_binary_def entry_put)
  qed
  then show "\<not> yc_destroyed s \<longrightarrow> (\<exists>s' h. getDoc Y synced f s = Inr (s', h))"
    using id by (auto simp: getDoc_def)
qed

theorem unaddressable_field_never_syncs_witness:
  "\<exists>e. entry_of (fields_run max_yjs [CGetDoc True [0xD800], CFrame [2, 0, 3, 0xED, 0xA0, 0x80, 1, 0, 0]]) [0xD800] = Some e \<and>
     \<not> en_synced e"
proof -
  let ?f = "[0xD800] :: jstr"
  let ?s = "fields_run max_yjs [CGetDoc True ?f, CFrame [2, 0, 3, 0xED, 0xA0, 0x80, 1, 0, 0]]"
  have u: "utf8 ?f = [0xEF, 0xBF, 0xBD]" by (simp add: high_surrogate_def replacement_def)
  have "\<exists>e. entry_of ?s ?f = Some e"
    by (simp add: fields_run_def createYjsFields_def getDoc_def acquire_entry_def give_handle_def u
        entry_of_def put_entry_def new_entry_def Let_def max_yjs_def MAX_FIELD_ID_BYTES_def sendGet_def send_binary_def
        encodeFieldFrame_def out_def onFrame_def decodeFieldFrame_def get_u16_def FIELD_MSG_GET_def FIELD_MSG_REJECT_def
        utf8_decode_def bad_unit_def del: utf8.simps)
  then obtain e where e: "entry_of ?s ?f = Some e" ..
  have "\<not> well_formed ?f" "1 \<le> length (utf8 ?f)" "length (utf8 ?f) \<le> MAX_FIELD_ID_BYTES"
    by (simp add: high_surrogate_def) (simp_all add: u MAX_FIELD_ID_BYTES_def del: utf8.simps)
  then show ?thesis using unaddressable_field_never_syncs [OF _ _ _ refl, of ?f max_yjs _ True e] e by blast
qed

text \<open>What a step of a refused entry sends.\<close>

definition silent_on :: "jstr \<Rightarrow> u8 list \<Rightarrow> bool" where
  "silent_on f b \<longleftrightarrow> (\<exists>g. (\<exists>v. encodeFieldFrame FIELD_MSG_GET g v = Inr b) \<or>
     (g \<noteq> f \<and> (\<exists>u. length u \<le> MAX_FIELD_UPDATE_BYTES \<and> encodeFieldFrame FIELD_MSG_UPDATE g u = Inr b)))"

definition refused_entry :: "'d FieldEntry \<Rightarrow> bool" where
  "refused_entry e \<longleftrightarrow> en_rejected e \<and> \<not> en_canWrite e \<and> en_writeBlocked e \<noteq> None"

lemma refused_step:
  assumes "client_ok s" "entry_of s f = Some e" "en_rejected e" "entry_of (fields_event Y ev s) f = Some e'"
  shows "refused_entry e' \<and> client_ok (fields_event Y ev s) \<and>
    (\<exists>xs. yc_out (fields_event Y ev s) = yc_out s @ xs \<and> (\<forall>b. SendBinary b \<in> set xs \<longrightarrow> silent_on f b))"
proof -
  let ?s = "fields_event Y ev s"
  have st: "fields_step s ?s" using fields_event_step [OF assms(1)] by simp
  have r: "en_rejected e'" using st assms(2-4) by (auto simp: fields_step_def refusals_kept_def)
  have ok: "client_ok ?s" using st by (simp add: fields_step_def)
  then have w: "refused_entry e'" using r assms(4) by (auto simp: refused_entry_def client_ok_def entry_ok_def)
  obtain xs where xs: "yc_out ?s = yc_out s @ xs" "\<And>b. SendBinary b \<in> set xs \<Longrightarrow> may_send ?s b"
    using st by (auto simp: fields_step_def)
  have "silent_on f b" if sent: "SendBinary b \<in> set xs" for b
  proof -
    obtain g eg where g: "entry_of ?s g = Some eg" "(\<exists>v. encodeFieldFrame FIELD_MSG_GET g v = Inr b) \<or>
      (en_canWrite eg \<and> (\<exists>u. length u \<le> MAX_FIELD_UPDATE_BYTES \<and> encodeFieldFrame FIELD_MSG_UPDATE g u = Inr b))"
      using xs(2) [OF sent] by (auto simp: may_send_def)
    have "g \<noteq> f" if W: "en_canWrite eg" using W g(1) w assms(4) by (auto simp: refused_entry_def)
    then show ?thesis using g(2) unfolding silent_on_def by blast
  qed
  then show ?thesis using w ok xs(1) by blast
qed

text \<open>The field has an entry in every state from the first to the last.\<close>

fun held_through :: "'d Yjs \<Rightarrow> jstr \<Rightarrow> 'd FieldsEvent list \<Rightarrow> 'd YjsFields \<Rightarrow> bool" where
  "held_through Y f [] s = (entry_of s f \<noteq> None)"
| "held_through Y f (ev # evs) s = (entry_of s f \<noteq> None \<and> held_through Y f evs (fields_event Y ev s))"

lemma refused_run:
  assumes "client_ok s" "entry_of s f = Some e" "refused_entry e" "held_through Y f evs s"
  shows "\<exists>e' xs. entry_of (fold (fields_event Y) evs s) f = Some e' \<and> refused_entry e' \<and>
    yc_out (fold (fields_event Y) evs s) = yc_out s @ xs \<and> (\<forall>b. SendBinary b \<in> set xs \<longrightarrow> silent_on f b)"
  using assms
proof (induction evs arbitrary: s e)
  case (Cons ev evs)
  let ?s = "fields_event Y ev s"
  have "entry_of ?s f \<noteq> None" using Cons.prems(4) by (cases evs) simp_all
  then obtain e1 where e1: "entry_of ?s f = Some e1" by blast
  have "en_rejected e" using Cons.prems(3) by (simp add: refused_entry_def)
  from refused_step [OF Cons.prems(1,2) this e1] obtain xs where st: "refused_entry e1" "client_ok ?s"
      "yc_out ?s = yc_out s @ xs" "\<forall>b. SendBinary b \<in> set xs \<longrightarrow> silent_on f b" by blast
  from Cons.IH [OF st(2) e1 st(1)] Cons.prems(4) obtain e' ys where
      "entry_of (fold (fields_event Y) evs ?s) f = Some e'" "refused_entry e'"
      "yc_out (fold (fields_event Y) evs ?s) = yc_out ?s @ ys" "\<forall>b. SendBinary b \<in> set ys \<longrightarrow> silent_on f b" by auto
  then show ?case using st by (intro exI [of _ e'] exI [of _ "xs @ ys"]) auto
qed auto

text \<open>
  An event that refuses a field: a REJECT frame for it, or a local edit on a synced client whose
  update is too large.
\<close>

fun refuses :: "jstr \<Rightarrow> 'd FieldEntry \<Rightarrow> 'd FieldsEvent \<Rightarrow> bool" where
  "refuses f e (CFrame bytes) = (\<exists>p. decodeFieldFrame bytes = Some \<lparr>msgType = FIELD_MSG_REJECT, fieldId = f, payload = p\<rparr>)"
| "refuses f e (CEdit synced g d u) = (g = f \<and> synced \<and> en_canWrite e \<and> MAX_FIELD_UPDATE_BYTES < length u)"
| "refuses f e ev = False"

lemma refusal:
  assumes "client_ok s" "entry_of s f = Some e" "\<not> yc_destroyed s" "refuses f e ev"
  shows "\<exists>e'. entry_of (fields_event Y ev s) f = Some e' \<and> refused_entry e'"
proof -
  have f: "en_fieldId e = f" using assms(1,2) by (auto simp: client_ok_def entry_ok_def)
  show ?thesis
    using assms(2-4) f
    by (cases ev) (auto simp: onFrame_def FIELD_MSG_REJECT_def FIELD_MSG_UPDATE_def FIELD_MSG_STATE_def on_reject_def Let_def entry_put
        refused_entry_def refused_by_server_def local_edit_def sendUpdate_def refused_locally_def)
qed

text \<open>
  C25: A refused field is silent until it is let go. After a REJECT frame for a held field, or a
  local edit that was too large for an update, and as long as the field keeps an entry - until
  its last handle is released or the client destroyed; a handle acquired later starts afresh -
  whatever frames, edits and reconnects follow, a later STATE that grants the write included,
  the entry stays refused and read-only, and every frame the client sends is a read or an update
  of another field.
\<close>
theorem refused_field_is_silent:
  assumes "s0 = fields_run Y evs0" and "\<not> yc_destroyed s0" and "entry_of s0 f = Some e" and "refuses f e ev"
    and "s = fields_event Y ev s0" and "held_through Y f evs s" and "s' = fold (fields_event Y) evs s"
  shows "\<exists>e' xs. entry_of s' f = Some e' \<and> en_rejected e' \<and> \<not> en_canWrite e' \<and> en_writeBlocked e' \<noteq> None \<and>
    yc_out s' = yc_out s @ xs \<and>
    (\<forall>b. SendBinary b \<in> set xs \<longrightarrow>
       (\<exists>g. (\<exists>v. encodeFieldFrame FIELD_MSG_GET g v = Inr b) \<or>
          (g \<noteq> f \<and> (\<exists>u. length u \<le> MAX_FIELD_UPDATE_BYTES \<and> encodeFieldFrame FIELD_MSG_UPDATE g u = Inr b))))"
proof -
  have ok: "client_ok s0" using client_ok_run assms(1) by simp
  obtain e1 where e1: "entry_of s f = Some e1" "refused_entry e1" using refusal [OF ok assms(3,2,4)] assms(5) by blast
  have "client_ok s" using fields_event_step [OF ok] assms(5) by (simp add: fields_step_def)
  from refused_run [OF this e1 assms(6)] show ?thesis
    unfolding assms(7) refused_entry_def silent_on_def by blast
qed

text \<open>A field the server rejects, then a STATE that says it is writable, and an edit.\<close>

definition refused_events :: "u8 FieldsEvent list" where
  "refused_events = [CFrame [2, 0, 1, 97, 1, 0, 0], CEdit True (js ''a'') 9 [0, 0, 9]]"

theorem refused_field_is_silent_witness:
  "\<exists>e' xs. entry_of (fold (fields_event max_yjs) refused_events
       (fields_event max_yjs (CFrame [4, 0, 1, 97, 2]) (fields_run max_yjs [CGetDoc False (js ''a'')]))) (js ''a'') = Some e' \<and>
     en_rejected e' \<and> \<not> en_canWrite e'"
proof -
  let ?f = "js ''a''" and ?s0 = "fields_run max_yjs [CGetDoc False (js ''a'')]" and ?ev = "CFrame [4, 0, 1, 97, 2] :: u8 FieldsEvent"
  have d: "decodeFieldFrame [4, 0, 1, 97, 2] = Some \<lparr>msgType = 4, fieldId = ?f, payload = [2]\<rparr>"
    "decodeFieldFrame [2, 0, 1, 97, 1, 0, 0] = Some \<lparr>msgType = 2, fieldId = ?f, payload = [1, 0, 0]\<rparr>"
    by (simp_all add: decodeFieldFrame_def get_u16_def utf8_decode_def unit_of_def FIELD_MSG_GET_def FIELD_MSG_REJECT_def MAX_FIELD_ID_BYTES_def)
  let ?e0 = "(new_entry max_yjs 0 ?f)\<lparr>en_refs := 1\<rparr>"
  have s0: "?s0 = \<lparr>yc_entries = [(?f, ?e0)], yc_destroyed = False, yc_handles = [(0, ?f, 0, False)], yc_next = 1, yc_out = []\<rparr>"
    by (simp add: fields_run_def createYjsFields_def getDoc_def acquire_entry_def give_handle_def
      entry_of_def put_entry_def new_entry_def Let_def MAX_FIELD_ID_BYTES_def high_surrogate_def low_surrogate_def)
  have r: "refuses ?f ?e0 ?ev" by (simp add: d FIELD_MSG_REJECT_def del: js_simps)
  have "held_through max_yjs ?f refused_events (fields_event max_yjs ?ev ?s0)"
    unfolding s0 refused_events_def
    by (simp add: onFrame_def d on_reject_def on_state_def on_update_def state_entry_def refused_by_server_def decodeFieldState_def
        get_u16_def isEmptyUpdate_def local_edit_def notify_def out_def put_entry_def entry_of_def new_entry_def Let_def
        FIELD_MSG_REJECT_def FIELD_MSG_UPDATE_def FIELD_MSG_STATE_def del: js_simps)
  from refused_field_is_silent [OF refl _ _ r refl this refl] show ?thesis by (auto simp: s0 entry_of_def simp del: js_simps)
qed

end
