(* ===== verification/Uri.thy ===== *)
theory Uri
  imports FieldFrames Messages
begin

text \<open>
  \<open>encodeURIComponent\<close> and \<open>decodeURIComponent\<close> of the ECMAScript standard, which the client
  builds its URLs with (client/src/defaults.ts) and the worker reads them with
  (server/src/worker.ts). Lemma \<open>decode_encode_uri\<close>: every text without lone surrogates
  survives the trip.
\<close>

section \<open>Encoding\<close>

definition unreserved :: "16 word \<Rightarrow> bool" where
  "unreserved c \<longleftrightarrow> (97 \<le> c \<and> c \<le> 122) \<or> (65 \<le> c \<and> c \<le> 90) \<or> (48 \<le> c \<and> c \<le> 57)
     \<or> c \<in> set (js ''-_.!~*'') \<or> c = 39 \<or> c = 40 \<or> c = 41"

definition upper_hex :: "nat \<Rightarrow> 16 word" where
  "upper_hex n = of_nat (if n < 10 then 48 + n else 55 + n)"

definition percent_byte :: "u8 \<Rightarrow> jstr" where
  "percent_byte b = [37, upper_hex (unat b div 16), upper_hex (unat b mod 16)]"

definition encode_point :: "jstr \<Rightarrow> jstr" where
  "encode_point p = (if length p = 1 \<and> unreserved (hd p) then p else concat (map percent_byte (utf8 p)))"

text \<open>A lone surrogate throws a \<open>URIError\<close>.\<close>

definition encodeURIComponent :: "jstr \<Rightarrow> jstr option" where
  "encodeURIComponent s = (if well_formed s then Some (concat (map encode_point (code_points s))) else None)"

section \<open>Decoding\<close>

definition hex_value :: "16 word \<Rightarrow> nat option" where
  "hex_value c =
     (let n = unat c in
      if 48 \<le> n \<and> n \<le> 57 then Some (n - 48) else if 65 \<le> n \<and> n \<le> 70 then Some (n - 55)
      else if 97 \<le> n \<and> n \<le> 102 then Some (n - 87) else None)"

text \<open>\<open>k\<close> percent-encoded octets and what follows them.\<close>

fun take_octets :: "nat \<Rightarrow> jstr \<Rightarrow> (u8 list \<times> jstr) option" where
  "take_octets 0 s = Some ([], s)"
| "take_octets (Suc k) (p # a # b # s) =
     (if p \<noteq> 37 then None
      else case (hex_value a, hex_value b) of
        (Some x, Some y) \<Rightarrow> map_option (\<lambda>(bs, r). (of_nat (x * 16 + y) # bs, r)) (take_octets k s)
      | _ \<Rightarrow> None)"
| "take_octets (Suc k) _ = None"

definition octet_count :: "nat \<Rightarrow> nat option" where
  "octet_count n =
     (if n < 0x80 then Some 1 else if 0xC2 \<le> n \<and> n \<le> 0xDF then Some 2
      else if 0xE0 \<le> n \<and> n \<le> 0xEF then Some 3 else if 0xF0 \<le> n \<and> n \<le> 0xF4 then Some 4 else None)"

text \<open>The octets of one code point, which must be its UTF-8 encoding.\<close>

definition decode_point :: "jstr \<Rightarrow> (jstr \<times> jstr) option" where
  "decode_point s =
     (case take_octets 1 s of
        None \<Rightarrow> None
      | Some (b, _) \<Rightarrow>
          (case octet_count (unat (hd b)) of
             None \<Rightarrow> None
           | Some k \<Rightarrow>
               (case take_octets k s of
                  None \<Rightarrow> None
                | Some (bs, rest) \<Rightarrow> if utf8 (dec bs) = bs then Some (dec bs, rest) else None)))"

lemma take_octets_shorter: "take_octets k s = Some (bs, r) \<Longrightarrow> length r + 3 * k = length s \<and> length bs = k"
  by (induction k s arbitrary: bs rule: take_octets.induct) (auto split: if_splits option.splits)

lemma decode_point_shorter: "decode_point s = Some (t, r) \<Longrightarrow> length r < length s"
  using take_octets_shorter
  by (auto simp: decode_point_def octet_count_def split: option.splits if_splits) fastforce+

function decodeURIComponent :: "jstr \<Rightarrow> jstr option" where
  "decodeURIComponent s =
     (case s of
        [] \<Rightarrow> Some []
      | c # cs \<Rightarrow>
          if c \<noteq> 37 then map_option ((#) c) (decodeURIComponent cs)
          else case decode_point s of
            None \<Rightarrow> None
          | Some (t, rest) \<Rightarrow> map_option ((@) t) (decodeURIComponent rest))"
  by pat_completeness auto
termination
  by (relation "measure length") (auto dest: decode_point_shorter)

declare decodeURIComponent.simps [simp del]

section \<open>The round trip\<close>

lemma hex_table: "list_all (\<lambda>n. hex_value (upper_hex n) = Some n) [0..<16]"
  by code_simp

lemma hex_value_upper: "n < 16 \<Longrightarrow> hex_value (upper_hex n) = Some n"
  using hex_table by (simp only: list_all_iff) simp

lemma take_percent: "take_octets (length bs) (concat (map percent_byte bs) @ r) = Some (bs, r)"
proof (induction bs)
  case (Cons b bs)
  have "unat b < 256" using unsigned_less [of b, where 'a = nat] by simp
  then have "unat b div 16 < 16" "unat b mod 16 < 16" by auto
  then show ?case using Cons by (simp add: percent_byte_def hex_value_upper del: of_nat_add of_nat_mult)
qed simp

lemma octet_count_utf8:
  assumes "well_formed p" "p = [c] \<or> p = [c, d] \<and> high_surrogate c"
  shows "utf8 p \<noteq> []" "octet_count (unat (hd (utf8 p))) = Some (length (utf8 p))"
proof -
  have n: "unat c < 0x10000" using unsigned_less [of c] by simp
  have lt: "c < 0x80 \<longleftrightarrow> unat c < 128" "c < 0x800 \<longleftrightarrow> unat c < 0x800" by (simp_all add: word_less_nat_alt)
  have "utf8 p \<noteq> [] \<and> octet_count (unat (hd (utf8 p))) = Some (length (utf8 p))"
    using assms(2)
  proof
    assume p: "p = [c]"
    then have s: "\<not> high_surrogate c" "\<not> low_surrogate c" using assms(1) by (auto split: if_splits)
    consider "unat c < 128" | "128 \<le> unat c" "unat c < 0x800" | "0x800 \<le> unat c" by linarith
    then show ?thesis
    proof cases
      case 1
      then have "unat (of_nat (unat c) :: u8) = unat c" using unat_lead [of "unat c"] by (simp add: lead_byte_def)
      then show ?thesis using 1 by (simp add: p lt octet_count_def)
    next
      case 2
      then have "2 \<le> unat c div 64" "unat c div 64 < 32" by linarith+
      then show ?thesis using 2 by (simp add: p lt enc_lead unat_lead octet_count_def)
    next
      case 3
      have "unat c div 4096 < 16" using n by linarith
      then show ?thesis using 3 s by (simp add: p lt enc_lead unat_lead octet_count_def)
    qed
  next
    assume p: "p = [c, d] \<and> high_surrogate c"
    then have d: "low_surrogate d" using assms(1) by (auto split: if_splits)
    have "\<not> c < 0x80" "\<not> c < 0x800" using p by (auto simp: high_surrogate_def word_le_nat_alt word_less_nat_alt)
    moreover have "pair_code c d div 262144 \<le> 4" using unit_of_pair(3) [of c d] p d by simp
    ultimately show ?thesis using p d by (simp add: enc_lead unat_lead octet_count_def)
  qed
  then show "utf8 p \<noteq> []" "octet_count (unat (hd (utf8 p))) = Some (length (utf8 p))" by simp_all
qed

lemma code_points_shape:
  "well_formed s \<Longrightarrow> p \<in> set (code_points s) \<Longrightarrow> well_formed p \<and> (\<exists>c d. p = [c] \<or> p = [c, d] \<and> high_surrogate c)"
proof (induction s rule: code_points.induct)
  case (2 c cs)
  then show ?case by (cases cs) (auto split: if_splits)
qed simp

lemma decode_point_encoded:
  assumes "well_formed p" "p = [c] \<or> p = [c, d] \<and> high_surrogate c"
  shows "decode_point (concat (map percent_byte (utf8 p)) @ r) = Some (p, r)"
proof -
  note o = octet_count_utf8 [OF assms]
  obtain b bs where b: "utf8 p = b # bs" using o(1) by (cases "utf8 p") auto
  have "take_octets 1 (concat (map percent_byte (utf8 p)) @ r) = Some ([b], concat (map percent_byte bs) @ r)"
    using take_percent [of "[b]" "concat (map percent_byte bs) @ r"] by (simp add: b)
  moreover have "dec (utf8 p) = p" by (rule dec_utf8 [OF assms(1)])
  ultimately show ?thesis using o(2) take_percent [of "utf8 p" r] by (simp add: decode_point_def b del: decode_loop.simps)
qed

lemma decode_encode_point:
  assumes "well_formed p" "p = [c] \<or> p = [c, d] \<and> high_surrogate c"
  shows "decodeURIComponent (encode_point p @ r) = map_option ((@) p) (decodeURIComponent r)"
proof (cases "length p = 1 \<and> unreserved (hd p)")
  case True
  then obtain c where p: "p = [c]" by (cases p) auto
  with True have "c \<noteq> 37" by (auto simp: unreserved_def)
  moreover have "(@) [c] = (#) c" by (simp add: fun_eq_iff)
  ultimately show ?thesis using True by (subst decodeURIComponent.simps) (simp add: p encode_point_def)
next
  case False
  obtain b bs where b: "utf8 p = b # bs" using octet_count_utf8(1) [OF assms] by (cases "utf8 p") auto
  have e: "encode_point p = concat (map percent_byte (utf8 p))" using False by (auto simp: encode_point_def)
  have "\<exists>xs. encode_point p @ r = 37 # xs" by (simp add: e b percent_byte_def)
  then obtain xs where xs: "encode_point p @ r = 37 # xs" ..
  have "decode_point (37 # xs) = Some (p, r)"
    unfolding xs [symmetric] e by (rule decode_point_encoded [OF assms])
  then show ?thesis by (simp add: xs) (subst decodeURIComponent.simps, simp)
qed

lemma decode_encode_uri:
  assumes "encodeURIComponent s = Some t"
  shows "decodeURIComponent t = Some s"
proof -
  have wf: "well_formed s" and t: "t = concat (map encode_point (code_points s))"
    using assms by (auto simp: encodeURIComponent_def split: if_splits)
  have "(\<forall>p \<in> set ps. well_formed p \<and> (\<exists>c d. p = [c] \<or> p = [c, d] \<and> high_surrogate c)) \<Longrightarrow>
      decodeURIComponent (concat (map encode_point ps)) = Some (concat ps)" for ps
  proof (induction ps)
    case Nil
    show ?case by (simp add: decodeURIComponent.simps)
  next
    case (Cons p ps)
    then obtain c d where "well_formed p" "p = [c] \<or> p = [c, d] \<and> high_surrogate c" by auto
    then show ?case using Cons decode_encode_point by simp
  qed
  then show ?thesis using code_points_shape [OF wf] t by simp
qed

end
