(* ===== verification/Worker.thy ===== *)
theory Worker
  imports Sessions Uri
begin

text \<open>
  The worker in front of the workspace object (server/src/worker.ts): the sync route, the admin
  route, the bearer-token hook and the typed admin surface. A request is the parsed URL's path
  and query, the method, the headers (by lower-case name; the auth header holds either text or
  the stamps the router encodes) and the body. \<open>authorize\<close> is application code; the
  namespace accessor is a parameter, None when the binding is missing.
\<close>

section \<open>Requests\<close>

datatype Header = HText jstr | HStamps jval

record WorkerRequest =
  wr_path :: jstr
  wr_query :: "(jstr \<times> jstr) list"
  wr_method :: jstr
  wr_headers :: "(jstr \<times> Header) list"
  wr_body :: Body

text \<open>What reaches the object of a workspace: the name its stub was derived from, and the request.\<close>

record ForwardedRequest =
  fw_name :: jstr
  fw_path :: jstr
  fw_query :: "(jstr \<times> jstr) list"
  fw_method :: jstr
  fw_headers :: "(jstr \<times> Header) list"
  fw_body :: Body

datatype Routed = NotMine | Respond Response | Forward ForwardedRequest | RouteThrew err

definition WORKSPACE_HEADER :: jstr where "WORKSPACE_HEADER = js ''x-cf-sync-workspace''"
definition AUTH_HEADER :: jstr where "AUTH_HEADER = js ''x-cf-sync-auth''"

definition header_text :: "(jstr \<times> Header) list \<Rightarrow> jstr \<Rightarrow> jstr option" where
  "header_text hs k = (case map_of hs k of Some (HText t) \<Rightarrow> Some t | _ \<Rightarrow> None)"

text \<open>
  \<open>Headers.set\<close>: a value is a byte string without NUL, CR and LF, else the call throws; leading
  and trailing white space is dropped (the Fetch standard).
\<close>

definition http_space :: "16 word \<Rightarrow> bool" where
  "http_space c \<longleftrightarrow> c = 9 \<or> c = 10 \<or> c = 13 \<or> c = 32"

definition normalize_value :: "jstr \<Rightarrow> jstr" where
  "normalize_value v = rev (dropWhile http_space (rev (dropWhile http_space v)))"

definition set_text :: "jstr \<Rightarrow> jstr \<Rightarrow> (jstr \<times> Header) list \<Rightarrow> (jstr \<times> Header) list res" where
  "set_text k v hs =
     (let w = normalize_value v in
      if list_all (\<lambda>c. c < 256 \<and> c \<noteq> 0 \<and> c \<noteq> 10 \<and> c \<noteq> 13) w then Inr (AList.update k (HText w) hs)
      else Inl (OtherError ''TypeError''))"

definition search_param :: "(jstr \<times> jstr) list \<Rightarrow> jstr \<Rightarrow> jstr option" where
  "search_param q k = map_of q k"

definition starts_with :: "jstr \<Rightarrow> jstr \<Rightarrow> bool" where
  "starts_with s p \<longleftrightarrow> take (length p) s = p"

section \<open>Bearer tokens\<close>

text \<open>The loop accumulates the exclusive or of every pair of bytes.\<close>

definition timingSafeEqual :: "jstr \<Rightarrow> jstr \<Rightarrow> bool" where
  "timingSafeEqual a b =
     (let aBytes = utf8 a; bBytes = utf8 b in
      if length aBytes \<noteq> length bBytes then False
      else fold (\<lambda>(x, y) d. or d (xor x y)) (zip aBytes bBytes) 0 = (0 :: u8))"

definition bearerTokenAuth :: "jstr option \<Rightarrow> WorkerRequest \<Rightarrow> bool" where
  "bearerTokenAuth token rq =
     (case token of
        None \<Rightarrow> False
      | Some expected \<Rightarrow>
          if expected = [] then False
          else case header_text (wr_headers rq) (js ''authorization'') of
            None \<Rightarrow> False
          | Some h \<Rightarrow> starts_with h (js ''Bearer '') \<and> timingSafeEqual (drop (length (js ''Bearer '')) h) expected)"

section \<open>The sync route\<close>

datatype AuthVerdict =
    VTrue
  | VFalse
  | VResponse Response
  | VOk "jstr option" jval "jval option"
  | VReject "int option" "jstr option"

record SyncFetchOptions =
  so_namespace :: bool
  so_authorize :: "(WorkerRequest \<Rightarrow> jstr \<Rightarrow> jstr \<Rightarrow> AuthVerdict res) option"
  so_pathPrefix :: "jstr option"

text \<open>\<open>so_authorize = None\<close> is the literal \<open>'public'\<close>.\<close>

definition rejectUpgrade :: "int \<Rightarrow> jstr \<Rightarrow> Response" where
  "rejectUpgrade code reason = Rejected code (truncateCloseReason reason)"

text \<open>The headers to forward after the verdict, or the response that ends the request.\<close>

definition apply_verdict :: "AuthVerdict \<Rightarrow> (jstr \<times> Header) list \<Rightarrow> Response + (jstr \<times> Header) list" where
  "apply_verdict v hs =
     (case v of
        VResponse r \<Rightarrow> Inl r
      | VFalse \<Rightarrow> Inl (TextResponse 403 ''unauthorized'')
      | VReject code reason \<Rightarrow>
          Inl (rejectUpgrade (or_default code CLOSE_UNAUTHORIZED) (or_default reason (js ''unauthorized'')))
      | VOk p c e \<Rightarrow>
          Inr (AList.update AUTH_HEADER
            (HStamps (encodeAuthStamps \<lparr>as_principal = p, as_context = c, as_expiresAt = e\<rparr>)) hs)
      | VTrue \<Rightarrow> Inr hs)"

definition createSyncRoute :: "SyncFetchOptions \<Rightarrow> WorkerRequest \<Rightarrow> Routed" where
  "createSyncRoute opts rq =
     (let prefix = or_default (so_pathPrefix opts) (js ''/sync'') in
      if \<not> starts_with (wr_path rq) (prefix @ js ''/'') then NotMine
      else case decodeURIComponent (drop (length prefix + 1) (wr_path rq)) of
        None \<Rightarrow> RouteThrew (OtherError ''URIError'')
      | Some workspaceId \<Rightarrow>
          if workspaceId = [] \<or> 47 \<in> set workspaceId then NotMine
          else if map_option lower (header_text (wr_headers rq) (js ''upgrade'')) \<noteq> Some (js ''websocket'') then
            Respond (TextResponse 426 ''expected websocket upgrade'')
          else
            let clientId = or_default (search_param (wr_query rq) (js ''clientId'')) [] in
            if clientId = [] then Respond (TextResponse 400 ''missing clientId'')
            else case set_text WORKSPACE_HEADER workspaceId (AList.delete AUTH_HEADER (wr_headers rq)) of
              Inl e \<Rightarrow> RouteThrew e
            | Inr hs \<Rightarrow>
                (case (case so_authorize opts of
                         None \<Rightarrow> Inr (Inr hs)
                       | Some authorize \<Rightarrow> bind_res (authorize rq workspaceId clientId) (\<lambda>v. Inr (apply_verdict v hs))) of
                   Inl e \<Rightarrow> RouteThrew e
                 | Inr (Inl r) \<Rightarrow> Respond r
                 | Inr (Inr hs) \<Rightarrow>
                     if \<not> so_namespace opts then RouteThrew (OtherError ''missingNamespace'')
                     else Forward \<lparr>fw_name = workspaceId, fw_path = wr_path rq,
                            fw_query = filter (\<lambda>(k, v). k \<noteq> js ''token'') (wr_query rq), fw_method = js ''GET'',
                            fw_headers = hs, fw_body = EmptyBody\<rparr>))"

definition not_found :: "Routed \<Rightarrow> Routed" where
  "not_found r = (case r of NotMine \<Rightarrow> Respond (TextResponse 404 ''not found'') | _ \<Rightarrow> r)"

definition createSyncFetch :: "SyncFetchOptions \<Rightarrow> WorkerRequest \<Rightarrow> Routed" where
  "createSyncFetch opts rq = not_found (createSyncRoute opts rq)"

section \<open>The admin route\<close>

definition ADMIN_METHODS :: "(jstr \<times> jstr) list" where
  "ADMIN_METHODS =
     [(js ''stats'', js ''GET''), (js ''export'', js ''GET''), (js ''import'', js ''POST''),
      (js ''reset'', js ''POST''), (js ''disconnect'', js ''POST'')]"

record AdminFetchOptions =
  ao_namespace :: bool
  ao_authorize :: "WorkerRequest \<Rightarrow> jstr \<Rightarrow> jstr \<Rightarrow> (Response + bool) res"
  ao_pathPrefix :: "jstr option"

fun split_slash :: "jstr \<Rightarrow> jstr list" where
  "split_slash [] = [[]]"
| "split_slash (c # cs) =
     (case split_slash cs of
        [] \<Rightarrow> [[c]]
      | p # ps \<Rightarrow> if c = 47 then [] # p # ps else (c # p) # ps)"

text \<open>
  \<open>op in ADMIN_METHODS\<close> also finds the properties of \<open>Object.prototype\<close>; none of them is a
  string, so no method equals one.
\<close>

definition createAdminRoute :: "AdminFetchOptions \<Rightarrow> WorkerRequest \<Rightarrow> Routed" where
  "createAdminRoute opts rq =
     (let prefix = or_default (ao_pathPrefix opts) (js ''/admin'') in
      if \<not> starts_with (wr_path rq) (prefix @ js ''/'') then NotMine
      else case split_slash (drop (length prefix + 1) (wr_path rq)) of
        [p0, op] \<Rightarrow>
          (case decodeURIComponent p0 of
             None \<Rightarrow> RouteThrew (OtherError ''URIError'')
           | Some workspaceId \<Rightarrow>
               (let method = prop_get ADMIN_METHODS op in
                if workspaceId = [] \<or> method = Absent then NotMine
                else if method \<noteq> Own (wr_method rq) then Respond (TextResponse 405 ''method not allowed'')
                else case ao_authorize opts rq workspaceId op of
                  Inl e \<Rightarrow> RouteThrew e
                | Inr (Inl r) \<Rightarrow> Respond r
                | Inr (Inr ok) \<Rightarrow>
                    if \<not> ok then Respond (TextResponse 403 ''unauthorized'')
                    else if \<not> ao_namespace opts then RouteThrew (OtherError ''missingNamespace'')
                    else case set_text WORKSPACE_HEADER workspaceId (wr_headers rq) of
                      Inl e \<Rightarrow> RouteThrew e
                    | Inr hs \<Rightarrow> Forward \<lparr>fw_name = workspaceId, fw_path = js ''/admin/'' @ op, fw_query = [],
                        fw_method = wr_method rq, fw_headers = hs,
                        fw_body = (if wr_method rq = js ''POST'' then wr_body rq else EmptyBody)\<rparr>))
      | _ \<Rightarrow> NotMine)"

definition createAdminFetch :: "AdminFetchOptions \<Rightarrow> WorkerRequest \<Rightarrow> Routed" where
  "createAdminFetch opts rq = not_found (createAdminRoute opts rq)"

section \<open>The request the object reads\<close>

definition object_request :: "ForwardedRequest \<Rightarrow> Request" where
  "object_request fw =
     \<lparr>rq_method = fw_method fw, rq_path = fw_path fw, rq_upgrade = header_text (fw_headers fw) (js ''upgrade''),
      rq_clientId = search_param (fw_query fw) (js ''clientId''),
      rq_workspace = header_text (fw_headers fw) WORKSPACE_HEADER,
      rq_auth = (case map_of (fw_headers fw) AUTH_HEADER of
                   None \<Rightarrow> None | Some (HText t) \<Rightarrow> Some None | Some (HStamps v) \<Rightarrow> Some (Some v)),
      rq_body = fw_body fw\<rparr>"

section \<open>The typed admin surface\<close>

text \<open>\<open>workspaceAdmin(...).op(body)\<close>: the request, and what the caller gets of the response.\<close>

definition admin_call :: "jstr \<Rightarrow> jstr \<Rightarrow> jval option \<Rightarrow> ForwardedRequest res" where
  "admin_call workspaceId op body =
     bind_res (set_text WORKSPACE_HEADER workspaceId []) (\<lambda>hs.
       Inr \<lparr>fw_name = workspaceId, fw_path = js ''/admin/'' @ op, fw_query = [],
            fw_method = or_default (map_of ADMIN_METHODS op) [], fw_headers = hs,
            fw_body = (case body of None \<Rightarrow> EmptyBody | Some v \<Rightarrow> JsonBody (json_value v))\<rparr>)"

definition admin_result :: "Response \<Rightarrow> jval res" where
  "admin_result r =
     (case r of
        JsonResponse status v \<Rightarrow>
          if 200 \<le> status \<and> status \<le> 299 then Inr v else Inl (OtherError ''workspaceAdmin failed'')
      | TextResponse _ _ \<Rightarrow> Inl (OtherError ''SyntaxError'')
      | Rejected _ _ \<Rightarrow> Inl (OtherError ''SyntaxError'')
      | Switched _ \<Rightarrow> Inl (OtherError ''SyntaxError'')
      | Threw e \<Rightarrow> Inl e)"


section \<open>Properties\<close>

lemma xor_accumulates:
  "length xs = length ys \<Longrightarrow> fold (\<lambda>(x, y) d. or d (xor x y)) (zip xs ys) e = 0 \<longleftrightarrow> e = 0 \<and> xs = ys" for e :: u8
proof (induction xs ys arbitrary: e rule: list_induct2)
  case (Cons x xs y ys)
  have "xor x y = 0 \<longleftrightarrow> x = y" by (metis xor.assoc xor_self_eq xor.right_neutral xor.left_neutral)
  then have "or e (xor x y) = 0 \<longleftrightarrow> e = 0 \<and> x = y" by (simp add: or_eq_0_iff)
  then show ?case using Cons by auto
qed simp

lemma timingSafeEqual_iff: "timingSafeEqual a b \<longleftrightarrow> utf8 a = utf8 b"
  by (auto simp: timingSafeEqual_def Let_def xor_accumulates)

lemma starts_with_iff: "starts_with s p \<longleftrightarrow> (\<exists>t. s = p @ t)"
  unfolding starts_with_def by (metis append_take_drop_id append_eq_conv_conj)

text \<open>
  The bearer-token hook lets a request through exactly when a non-empty secret is configured
  and the authorization header is \<open>Bearer \<close> followed by a token with the secret's UTF-8 bytes:
  the accumulating comparison decides equality, and a missing secret denies everything.
\<close>
theorem bearerTokenAuth_iff:
  "bearerTokenAuth token rq \<longleftrightarrow>
     (\<exists>secret t. token = Some secret \<and> secret \<noteq> [] \<and>
        header_text (wr_headers rq) (js ''authorization'') = Some (js ''Bearer '' @ t) \<and> utf8 t = utf8 secret)"
proof -
  define p where "p = js ''Bearer ''"
  have "(starts_with h p \<and> timingSafeEqual (drop (length p) h) e) \<longleftrightarrow> (\<exists>t. h = p @ t \<and> utf8 t = utf8 e)" for h e
    by (auto simp: starts_with_iff timingSafeEqual_iff)
  then show ?thesis
    by (cases token; cases "header_text (wr_headers rq) (js ''authorization'')")
      (simp_all add: bearerTokenAuth_def p_def [symmetric] del: js_simps length_js)
qed

text \<open>What a forwarded sync request went through.\<close>

lemma sync_forward:
  assumes "createSyncRoute opts rq = Forward fw"
  obtains ws hs0 hs where "decodeURIComponent (drop (length (or_default (so_pathPrefix opts) (js ''/sync'')) + 1) (wr_path rq)) = Some ws"
    "set_text WORKSPACE_HEADER ws (AList.delete AUTH_HEADER (wr_headers rq)) = Inr hs0"
    "or_default (search_param (wr_query rq) (js ''clientId'')) [] \<noteq> []" "ws \<noteq> []"
    "(so_authorize opts = None \<and> hs = hs0) \<or> (\<exists>f v. so_authorize opts = Some f \<and>
       f rq ws (or_default (search_param (wr_query rq) (js ''clientId'')) []) = Inr v \<and> apply_verdict v hs0 = Inr hs)"
    "fw = \<lparr>fw_name = ws, fw_path = wr_path rq, fw_query = filter (\<lambda>(k, v). k \<noteq> js ''token'') (wr_query rq),
        fw_method = js ''GET'', fw_headers = hs, fw_body = EmptyBody\<rparr>"
  using assms
  by (auto simp: createSyncRoute_def Let_def bind_res_Inr_iff split: if_splits option.splits sum.splits simp del: js_simps length_js)

lemma set_text_get:
  "set_text k v hs = Inr hs' \<Longrightarrow> map_of hs' g = (if g = k then Some (HText (normalize_value v)) else map_of hs g)"
  by (auto simp: set_text_def Let_def map_facts split: if_splits)

lemma map_of_filter_key: "map_of (filter (\<lambda>(k, v). k \<noteq> t) q) k = (if k = t then None else map_of q k)"
  by (induction q) auto

lemma client_param: "search_param (filter (\<lambda>(k, v). k \<noteq> js ''token'') q) (js ''clientId'') = search_param q (js ''clientId'')"
proof -
  have "js ''clientId'' \<noteq> js ''token''" by simp
  then show ?thesis by (simp add: search_param_def map_of_filter_key del: js_simps)
qed

lemma header_names: "AUTH_HEADER \<noteq> WORKSPACE_HEADER" "js ''upgrade'' \<noteq> AUTH_HEADER"
  by (simp_all add: AUTH_HEADER_def WORKSPACE_HEADER_def)

lemma upgrade_attachment:
  assumes "upgrade cfg ev quota rq st = (st', Switched s)"
  shows "\<exists>a ss. make_attachment cfg (or_default (rq_clientId rq) []) (rq_auth rq) = Inr a \<and>
    do_sockets st' = ss @ [\<lparr>sk_id = s, sk_att = a, sk_quota = quota\<rparr>]"
proof -
  have m: "\<exists>a. make_attachment cfg c r = Inr a" if "(case make_attachment cfg c r of Inl r \<Rightarrow> (t, r) | Inr a \<Rightarrow> f a) = (st', Switched s)"
    for c r f and t :: "'a WorkspaceDO"
    using that by (auto simp: make_attachment_def Let_def split: sum.splits verdict.splits if_splits option.splits)
  from assms obtain a where "make_attachment cfg (or_default (rq_clientId rq) []) (rq_auth rq) = Inr a"
    by (auto simp: upgrade_def Let_def split: if_splits dest!: m)
  then show ?thesis using assms by (auto simp: upgrade_def Let_def accept_socket_def split: if_splits)
qed

lemma stamps_decoded:
  "decodeAuthStamps (Some (encodeAuthStamps \<lparr>as_principal = p, as_context = c, as_expiresAt = e\<rparr>)) =
   Inr \<lparr>as_principal = p, as_context = through_json c,
        as_expiresAt = (case e of None \<Rightarrow> None | Some v \<Rightarrow> if v = JUndef then None else Some (json_value v))\<rparr>"
  by (cases p; cases e; cases "c = JUndef"; cases "the e = JUndef")
    (auto simp: decodeAuthStamps_def encodeAuthStamps_def or_undefined_def through_json_def field_def json_value_defined
      split: jval.splits)

text \<open>\<open>at_auth\<close> holds what the app's context schema makes of a context; \<open>undefined\<close> is not stored.\<close>

definition auth_parsed :: "AppDefinition \<Rightarrow> jval \<Rightarrow> jval option \<Rightarrow> bool" where
  "auth_parsed app c auth =
     (case app_authContext app of
        None \<Rightarrow> auth = (if c = JUndef then None else Some c)
      | Some validate \<Rightarrow> (case validate c of VValue v \<Rightarrow> auth = (if v = JUndef then None else Some v) | _ \<Rightarrow> False))"

lemma make_attachment_fields:
  assumes "make_attachment cfg c r = Inr a"
  shows "at_clientId a = c \<and> \<not> at_ready a \<and>
    (r = None \<longrightarrow> at_principal a = None \<and> at_auth a = None \<and> at_expiresAt a = None) \<and>
    (\<forall>h. r = Some h \<longrightarrow> (\<exists>sm. decodeAuthStamps h = Inr sm \<and> at_principal a = as_principal sm \<and>
       at_expiresAt a = as_expiresAt sm \<and> auth_parsed (cf_app cfg) (as_context sm) (at_auth a)))"
proof (cases r)
  case None
  then show ?thesis using assms by (auto simp: make_attachment_def Let_def split: if_splits)
next
  case (Some h)
  obtain sm where sm: "decodeAuthStamps h = Inr sm"
    using assms Some by (cases "decodeAuthStamps h") (simp_all add: make_attachment_def Let_def)
  obtain auth where v: "(case app_authContext (cf_app cfg) of None \<Rightarrow> VValue (as_context sm) | Some validate \<Rightarrow> validate (as_context sm)) = VValue auth"
    and a: "a = \<lparr>at_clientId = c, at_ready = False, at_principal = as_principal sm, at_auth = (if auth = JUndef then None else Some auth),
        at_expiresAt = as_expiresAt sm, at_defunct = False\<rparr>"
    using assms Some sm
    by (cases "case app_authContext (cf_app cfg) of None \<Rightarrow> VValue (as_context sm) | Some validate \<Rightarrow> validate (as_context sm)")
      (simp_all add: make_attachment_def Let_def split: if_splits)
  have "auth_parsed (cf_app cfg) (as_context sm) (at_auth a)"
    using v by (auto simp: a auth_parsed_def split: option.splits)
  then show ?thesis using sm by (simp add: Some a)
qed

text \<open>
  The attachment has the stamps of the verdict: the principal as it is, the context as JSON
  carries it and the app's schema parses it, and an expiry that was given as JSON carries it - a
  finite number as it is, a non-finite one as \<open>null\<close>.
\<close>

definition stamped :: "AppDefinition \<Rightarrow> SyncFetchOptions \<Rightarrow> WorkerRequest \<Rightarrow> jstr \<Rightarrow> Attachment \<Rightarrow> bool" where
  "stamped app opts rq ws a =
    (case so_authorize opts of
       None \<Rightarrow> at_principal a = None \<and> at_auth a = None \<and> at_expiresAt a = None
     | Some f \<Rightarrow>
         (case f rq ws (at_clientId a) of
            Inr VTrue \<Rightarrow> at_principal a = None \<and> at_auth a = None \<and> at_expiresAt a = None
          | Inr (VOk p c e) \<Rightarrow> at_principal a = p \<and> auth_parsed app (through_json c) (at_auth a) \<and>
              at_expiresAt a = (case e of None \<Rightarrow> None | Some v \<Rightarrow> if v = JUndef then None else Some (json_value v))
          | _ \<Rightarrow> False))"

text \<open>
  C27: A socket carries the verdict of \<open>authorize\<close> and nothing else. When the sync route forwards a
  request and the object accepts it, the new socket's client id is the one \<open>authorize\<close> was asked
  about, and its principal, context and expiry are those of the verdict, the context parsed by the
  app's schema: none when the route is public or the verdict is a bare true, whatever auth header
  the caller sent. The object is the one named by the workspace id \<open>authorize\<close> saw.
\<close>
theorem socket_carries_verdict:
  assumes "createSyncRoute opts rq = Forward fw"
    and "do_initError st = None" and "admin_op (wr_path rq) = None"
    and "fetch cfg ev n quota (object_request fw) st = (st', Switched s)"
  shows "\<exists>ss a. do_sockets st' = ss @ [\<lparr>sk_id = s, sk_att = a, sk_quota = quota\<rparr>] \<and>
    search_param (wr_query rq) (js ''clientId'') = Some (at_clientId a) \<and>
    stamped (cf_app cfg) opts rq (fw_name fw) a"
proof -
  obtain ws hs0 hs where f: "set_text WORKSPACE_HEADER ws (AList.delete AUTH_HEADER (wr_headers rq)) = Inr hs0"
    "or_default (search_param (wr_query rq) (js ''clientId'')) [] \<noteq> []"
    and v: "(so_authorize opts = None \<and> hs = hs0) \<or> (\<exists>f v. so_authorize opts = Some f \<and>
       f rq ws (or_default (search_param (wr_query rq) (js ''clientId'')) []) = Inr v \<and> apply_verdict v hs0 = Inr hs)"
    and fw: "fw = \<lparr>fw_name = ws, fw_path = wr_path rq, fw_query = filter (\<lambda>(k, v). k \<noteq> js ''token'') (wr_query rq),
        fw_method = js ''GET'', fw_headers = hs, fw_body = EmptyBody\<rparr>"
    by (rule sync_forward [OF assms(1)])
  obtain c where c: "search_param (wr_query rq) (js ''clientId'') = Some c"
    using f(2) by (cases "search_param (wr_query rq) (js ''clientId'')") (auto simp: or_default_def)
  have u: "\<exists>st1. upgrade cfg ev quota (object_request fw) st1 = (st', Switched s)"
    using assms(2-4) by (auto simp: fetch_def Let_def object_request_def fw)
  then obtain a ss where a: "make_attachment cfg (or_default (rq_clientId (object_request fw)) []) (rq_auth (object_request fw)) = Inr a"
    "do_sockets st' = ss @ [\<lparr>sk_id = s, sk_att = a, sk_quota = quota\<rparr>]"
    using upgrade_attachment by blast
  have rc: "rq_clientId (object_request fw) = Some c" by (simp add: object_request_def fw client_param c del: js_simps)
  have au0: "map_of hs0 AUTH_HEADER = None"
    using set_text_get [OF f(1)] header_names by (simp add: map_facts)
  have m: "at_clientId a = c" using make_attachment_fields [OF a(1)] rc by (simp add: or_default_def)
  have none: "at_principal a = None \<and> at_auth a = None \<and> at_expiresAt a = None" if "hs = hs0"
    using make_attachment_fields [OF a(1)] that au0 by (simp add: object_request_def fw)
  have "stamped (cf_app cfg) opts rq ws a"
  proof (cases "so_authorize opts")
    case None
    then show ?thesis using v none by (simp add: stamped_def)
  next
    case (Some f)
    then obtain w where w: "f rq ws c = Inr w" "apply_verdict w hs0 = Inr hs" using v c by (auto simp: or_default_def)
    show ?thesis
    proof (cases w)
      case VTrue
      then show ?thesis using Some w none by (simp add: apply_verdict_def stamped_def m)
    next
      case (VOk p x e)
      let ?sm = "\<lparr>as_principal = p, as_context = x, as_expiresAt = e\<rparr>"
      have "rq_auth (object_request fw) = Some (Some (encodeAuthStamps ?sm))"
        using w(2) VOk by (auto simp: apply_verdict_def object_request_def fw map_facts)
      then obtain sm where sm: "decodeAuthStamps (Some (encodeAuthStamps ?sm)) = Inr sm"
        "at_principal a = as_principal sm" "at_expiresAt a = as_expiresAt sm" "auth_parsed (cf_app cfg) (as_context sm) (at_auth a)"
        using make_attachment_fields [OF a(1)] by auto
      have "sm = \<lparr>as_principal = p, as_context = through_json x,
          as_expiresAt = (case e of None \<Rightarrow> None | Some v \<Rightarrow> if v = JUndef then None else Some (json_value v))\<rparr>"
        using sm(1) by (simp add: stamps_decoded)
      then show ?thesis using Some w(1) VOk sm(2-4) by (simp add: stamped_def m)
    qed (use w in \<open>simp_all add: apply_verdict_def\<close>)
  qed
  moreover have "fw_name fw = ws" by (simp add: fw)
  ultimately show ?thesis using a(2) c m by auto
qed


text \<open>A caller that forges the auth header of another principal.\<close>

definition forged_request :: WorkerRequest where
  "forged_request = \<lparr>wr_path = js ''/sync/w'', wr_query = [(js ''clientId'', js ''c''), (js ''token'', js ''t'')], wr_method = js ''GET'',
     wr_headers = [(js ''upgrade'', HText (js ''WebSocket'')), (AUTH_HEADER, HStamps (JObj [(js ''principal'', JStr (js ''root''))]))],
     wr_body = EmptyBody\<rparr>"

definition demo_sync_options :: SyncFetchOptions where
  "demo_sync_options = \<lparr>so_namespace = True,
     so_authorize = Some (\<lambda>rq ws c. if c = js ''c'' then Inr (VOk (Some (js ''u'')) JUndef None) else Inr VFalse),
     so_pathPrefix = None\<rparr>"

definition demo_forwarded :: ForwardedRequest where
  "demo_forwarded = \<lparr>fw_name = js ''w'', fw_path = js ''/sync/w'', fw_query = [(js ''clientId'', js ''c'')], fw_method = js ''GET'',
     fw_headers = [(js ''upgrade'', HText (js ''WebSocket'')), (WORKSPACE_HEADER, HText (js ''w'')),
                   (AUTH_HEADER, HStamps (JObj [(js ''principal'', JStr (js ''u''))]))],
     fw_body = EmptyBody\<rparr>"

lemma demo_route: "createSyncRoute demo_sync_options forged_request = Forward demo_forwarded"
  by code_simp

lemma upgrade_switches:
  assumes "make_attachment cfg c (rq_auth rq) = Inr a" "rq_clientId rq = Some c" "c \<noteq> []" "length c \<le> 128"
    "map_option lower (rq_upgrade rq) = Some (js ''websocket'')"
  shows "\<exists>st' s. upgrade cfg ev quota rq st = (st', Switched s)"
  using assms by (simp add: upgrade_def or_default_def accept_socket_def not_less)

theorem socket_carries_verdict_witness:
  "\<exists>st' s ss a. fetch demo_cfg demo_env 0 None (object_request demo_forwarded) demo_do = (st', Switched s) \<and>
     do_sockets st' = ss @ [\<lparr>sk_id = s, sk_att = a, sk_quota = None\<rparr>] \<and> at_principal a = Some (js ''u'')"
proof -
  let ?rq = "object_request demo_forwarded"
  let ?a = "\<lparr>at_clientId = js ''c'', at_ready = False, at_principal = Some (js ''u''), at_auth = None, at_expiresAt = None, at_defunct = False\<rparr>"
  have "jsonByteSize (attachment_json ?a) \<le> 100" by code_simp
  then have "jsonByteSize (attachment_json ?a) \<le> MAX_ATTACHMENT_BYTES" by (simp add: MAX_ATTACHMENT_BYTES_def)
  moreover have "rq_auth ?rq = Some (Some (JObj [(js ''principal'', JStr (js ''u''))]))" "rq_clientId ?rq = Some (js ''c'')"
    "map_option lower (rq_upgrade ?rq) = Some (js ''websocket'')" "admin_op (rq_path ?rq) = None" "admin_op (wr_path forged_request) = None"
    by code_simp+
  moreover have "app_authContext (cf_app demo_cfg) = None" by (simp add: demo_cfg_def demo_app_def)
  ultimately have m: "make_attachment demo_cfg (js ''c'') (rq_auth ?rq) = Inr ?a"
    by (simp add: make_attachment_def decodeAuthStamps_def field_def Let_def)
  have l: "js ''c'' \<noteq> []" "length (js ''c'') \<le> 128" by simp_all
  obtain st' s where "upgrade demo_cfg demo_env None ?rq (rememberWorkspaceId demo_env ?rq demo_do) = (st', Switched s)"
    using upgrade_switches [OF m \<open>rq_clientId ?rq = _\<close> l \<open>map_option lower _ = _\<close>] by blast
  then have f: "fetch demo_cfg demo_env 0 None ?rq demo_do = (st', Switched s)"
    using \<open>admin_op (rq_path ?rq) = None\<close> by (simp add: fetch_def demo_do_def Let_def)
  have "do_initError demo_do = None" by (simp add: demo_do_def)
  from socket_carries_verdict [OF demo_route this \<open>admin_op (wr_path forged_request) = None\<close> f]
  obtain ss a where "do_sockets st' = ss @ [\<lparr>sk_id = s, sk_att = a, sk_quota = None\<rparr>]"
    "search_param (wr_query forged_request) (js ''clientId'') = Some (at_clientId a)" "stamped (cf_app demo_cfg) demo_sync_options forged_request (js ''w'') a"
    by (auto simp: demo_forwarded_def simp del: js_simps)
  then show ?thesis using f
    by (auto simp: stamped_def demo_sync_options_def forged_request_def search_param_def)
qed

text \<open>
  An admin request reaches the object exactly when its path is the prefix, an id and one of
  the five operations, the method is that operation's, \<open>authorize\<close> allows it and the namespace is
  bound; the object is then the named workspace's and runs that operation. Nothing else is
  forwarded.
\<close>
theorem admin_forward_iff:
  "createAdminRoute opts rq = Forward fw \<longleftrightarrow>
     (\<exists>p0 op ws m hs. starts_with (wr_path rq) (or_default (ao_pathPrefix opts) (js ''/admin'') @ js ''/'') \<and>
        split_slash (drop (length (or_default (ao_pathPrefix opts) (js ''/admin'')) + 1) (wr_path rq)) = [p0, op] \<and>
        decodeURIComponent p0 = Some ws \<and> ws \<noteq> [] \<and> map_of ADMIN_METHODS op = Some m \<and> wr_method rq = m \<and>
        ao_authorize opts rq ws op = Inr (Inr True) \<and> ao_namespace opts \<and>
        set_text WORKSPACE_HEADER ws (wr_headers rq) = Inr hs \<and>
        fw = \<lparr>fw_name = ws, fw_path = js ''/admin/'' @ op, fw_query = [], fw_method = m, fw_headers = hs,
              fw_body = (if m = js ''POST'' then wr_body rq else EmptyBody)\<rparr> \<and>
        admin_op (rq_path (object_request fw)) = Some op)"
proof -
  have a: "admin_op (js ''/admin/'' @ op) = Some op" for op by (simp add: admin_op_def Let_def)
  have b: "prop_get ob k = Own v" if "map_of ob k = Some v" for ob :: "(jstr \<times> jstr) list" and k v
    using that by (simp add: prop_get_def)
  show ?thesis
    by (auto simp: createAdminRoute_def Let_def prop_get_Own_iff object_request_def a
        dest: b
        split: if_splits option.splits sum.splits list.splits simp del: js_simps length_js)
qed

end
