(* ===== verification/Fingerprint.thy ===== *)
theory Fingerprint
  imports SchemaKit "HOL-Library.List_Lexorder"
begin

text \<open>
  Structural fingerprints of an app's schemas, server/src/fingerprint.ts: the shape of a table, its
  canonical JSON text with object keys sorted, and a 32-bit FNV-1a hash of that text. What zod
  emits as the JSON Schema of a table is a field of the table here; the order of strings is that
  of their code units.
\<close>

section \<open>Shapes\<close>

text \<open>\<open>ts_emission\<close> is what \<open>z.toJSONSchema\<close> returns, nothing when it throws.\<close>

record TableSchema =
  ts_vendor :: jstr
  ts_emission :: "jval option"

definition tableShape :: "TableSchema \<Rightarrow> jval" where
  "tableShape t =
     (if ts_vendor t \<noteq> js ''zod'' then JObj [(js ''opaque'', JStr (ts_vendor t))]
      else case ts_emission t of
        Some shape \<Rightarrow> shape
      | None \<Rightarrow> JObj [(js ''opaque'', JStr (js ''zod-unrepresentable''))])"

text \<open>\<open>String(value)\<close> of a data value.\<close>

fun to_string :: "jval \<Rightarrow> jstr" where
  "to_string JUndef = js ''undefined''"
| "to_string JNull = js ''null''"
| "to_string (JBool b) = (if b then js ''true'' else js ''false'')"
| "to_string (JNum (Fin i)) = js_of_int i"
| "to_string (JNum NaN) = js ''NaN''"
| "to_string (JNum (Inf neg)) = (if neg then js ''-Infinity'' else js ''Infinity'')"
| "to_string (JStr s) = s"
| "to_string (JArr vs) = join_with comma (map (\<lambda>v. if v = JNull \<or> v = JUndef then [] else to_string v) vs)"
| "to_string (JObj ob) = js ''[object Object]''"

definition unfingerprintableTables :: "(jstr \<times> TableSchema) list \<Rightarrow> (jstr \<times> jstr) list" where
  "unfingerprintableTables tables =
     concat (map (\<lambda>(name, table).
       case tableShape table of
         JObj ob \<Rightarrow> (case map_of ob (js ''opaque'') of Some v \<Rightarrow> [(name, to_string v)] | None \<Rightarrow> [])
       | _ \<Rightarrow> []) tables)"

section \<open>Canonical text\<close>

definition colon :: jstr where "colon = js '':''"

text \<open>Unlike \<open>JSON.stringify\<close>, a property holding \<open>undefined\<close> is written, as \<open>null\<close>.\<close>

function stableStringify :: "jval \<Rightarrow> jstr" where
  "stableStringify (JArr vs) = js ''['' @ join_with comma (map stableStringify vs) @ js '']''"
| "stableStringify (JObj ob) =
     js ''{'' @ join_with comma (map (\<lambda>(k, v). json_quote k @ colon @ stableStringify v) (sort_key fst ob)) @ js ''}''"
| "stableStringify JUndef = json_text JUndef"
| "stableStringify JNull = json_text JNull"
| "stableStringify (JBool b) = json_text (JBool b)"
| "stableStringify (JNum n) = json_text (JNum n)"
| "stableStringify (JStr s) = json_text (JStr s)"
  by pat_completeness auto

termination stableStringify
  by (relation "measure size") (auto dest: size_jval_obj size_jval_arr simp del: jval.size)

section \<open>The hash\<close>

text \<open>\<open>Math.imul\<close> and \<open>>>> 0\<close> keep the low 32 bits.\<close>

definition fnv_step :: "32 word \<Rightarrow> 16 word \<Rightarrow> 32 word" where
  "fnv_step hash c = xor hash (ucast c) * 0x01000193"

fun to_hex :: "nat \<Rightarrow> jstr" where
  "to_hex n = (if n < 16 then [hex_digit n] else to_hex (n div 16) @ [hex_digit (n mod 16)])"

declare to_hex.simps [simp del]

definition padStart :: "nat \<Rightarrow> 16 word \<Rightarrow> jstr \<Rightarrow> jstr" where
  "padStart n c s = replicate (n - length s) c @ s"

definition fnv1a :: "jstr \<Rightarrow> jstr" where
  "fnv1a input = padStart 8 0x30 (to_hex (unat (foldl fnv_step 0x811c9dc5 input)))"

text \<open>
  \<open>shape[name] = ...\<close> on an object literal: a table named \<open>__proto__\<close> would set the prototype
  instead of a property, so its shape is not among the keys.
\<close>

definition table_shapes :: "(jstr \<times> TableSchema) list \<Rightarrow> jobj" where
  "table_shapes tables =
     map (\<lambda>(name, table). (name, tableShape table)) (filter (\<lambda>(name, table). name \<noteq> js ''__proto__'') tables)"

definition schemaFingerprint :: "(jstr \<times> TableSchema) list \<Rightarrow> jstr" where
  "schemaFingerprint tables = fnv1a (stableStringify (JObj (table_shapes tables)))"

definition presenceFingerprint :: "TableSchema option \<Rightarrow> jstr" where
  "presenceFingerprint presence =
     (case presence of None \<Rightarrow> [] | Some p \<Rightarrow> fnv1a (stableStringify (tableShape p)))"

section \<open>What the fingerprint does not see\<close>

text \<open>Two values that differ in the order of object keys only, at any depth.\<close>

inductive reordered :: "jval \<Rightarrow> jval \<Rightarrow> bool" where
  same: "reordered v v"
| arrays: "list_all2 reordered vs ws \<Longrightarrow> reordered (JArr vs) (JArr ws)"
| objects: "distinct (map fst a) \<Longrightarrow> distinct (map fst b) \<Longrightarrow>
    (\<forall>k. rel_option reordered (map_of a k) (map_of b k)) \<Longrightarrow> reordered (JObj a) (JObj b)"

lemma distinct_fst_sort_key: "distinct (map fst (sort_key f xs)) = distinct (map fst xs)"
  by (simp add: distinct_map inj_on_def)

lemma map_of_sort_key:
  fixes a :: "('k::linorder \<times> 'v) list"
  assumes "distinct (map fst a)"
  shows "map_of (sort_key fst a) k = map_of a k"
proof -
  have d: "distinct (map fst (sort_key fst a))" using assms by (simp only: distinct_fst_sort_key)
  have "map_of (sort_key fst a) k = Some v \<longleftrightarrow> map_of a k = Some v" for v
    using map_of_eq_Some_iff [OF d, of k v] map_of_eq_Some_iff [OF assms, of k v] by simp
  then show ?thesis by (metis not_Some_eq)
qed

text \<open>Sorted by key, two objects with the same keys line up entry by entry.\<close>

lemma sorted_entries_align:
  fixes a b :: "('k::linorder \<times> 'v) list"
  assumes "distinct (map fst a)" "distinct (map fst b)" "\<forall>k. rel_option R (map_of a k) (map_of b k)"
  shows "list_all2 (\<lambda>x y. fst x = fst y \<and> R (snd x) (snd y)) (sort_key fst a) (sort_key fst b)"
proof -
  let ?a = "sort_key fst a" and ?b = "sort_key fst b"
  have "map_of a k = None \<longleftrightarrow> map_of b k = None" for k
    using assms(3) by (metis option.rel_sel)
  then have "fst ` set a = fst ` set b" by (auto simp: map_of_eq_None_iff) 
  then have "set (map fst ?a) = set (map fst ?b)" by simp
  moreover have d: "distinct (map fst ?a)" "distinct (map fst ?b)" using assms by (simp_all only: distinct_fst_sort_key)
  ultimately have keys: "map fst ?a = map fst ?b" by (intro sorted_distinct_set_unique) simp_all
  have len: "length ?a = length ?b" using arg_cong [OF keys, of length] by simp
  show ?thesis
  proof (rule list_all2_all_nthI [OF len])
    fix n assume n: "n < length ?a"
    have f: "fst (?a ! n) = fst (?b ! n)" using arg_cong [OF keys, of "\<lambda>xs. xs ! n"] n len by simp
    have "map_of ?a (fst (?a ! n)) = Some (snd (?a ! n))" using map_of_is_SomeI [OF d(1), of "fst (?a ! n)" "snd (?a ! n)"] nth_mem [OF n] by simp
    moreover have "map_of ?b (fst (?b ! n)) = Some (snd (?b ! n))" using map_of_is_SomeI [OF d(2), of "fst (?b ! n)" "snd (?b ! n)"] nth_mem [of n ?b] n len by simp
    ultimately have "map_of a (fst (?a ! n)) = Some (snd (?a ! n))" "map_of b (fst (?a ! n)) = Some (snd (?b ! n))"
      using assms(1,2) f by (simp_all add: map_of_sort_key)
    then have "R (snd (?a ! n)) (snd (?b ! n))" using assms(3) by (metis option.rel_inject(2))
    with f show "fst (?a ! n) = fst (?b ! n) \<and> R (snd (?a ! n)) (snd (?b ! n))" by simp
  qed
qed

lemma stable_reordered: "reordered a b \<Longrightarrow> stableStringify a = stableStringify b"
proof (induction rule: reordered.induct)
  case (arrays vs ws)
  have "list_all2 (\<lambda>v w. stableStringify v = stableStringify w) vs ws"
    by (rule list_all2_mono [OF arrays]) simp
  then have "map stableStringify vs = map stableStringify ws"
    by (simp add: list_all2_conv_all_nth list_eq_iff_nth_eq)
  then show ?case by (simp only: stableStringify.simps)
next
  case (objects a b)
  have "rel_option (\<lambda>v w. stableStringify v = stableStringify w) (map_of a k) (map_of b k)" for k
    using spec [OF objects(3), of k] by (rule option.rel_mono_strong) simp
  then have "list_all2 (\<lambda>x y. fst x = fst y \<and> stableStringify (snd x) = stableStringify (snd y)) (sort_key fst a) (sort_key fst b)"
    by (intro sorted_entries_align objects) simp
  then have "list_all2 (\<lambda>x y. (\<lambda>(k, v). json_quote k @ colon @ stableStringify v) x = (\<lambda>(k, v). json_quote k @ colon @ stableStringify v) y)
      (sort_key fst a) (sort_key fst b)"
    by (rule list_all2_mono) (simp add: case_prod_beta)
  then have "map (\<lambda>(k, v). json_quote k @ colon @ stableStringify v) (sort_key fst a) =
      map (\<lambda>(k, v). json_quote k @ colon @ stableStringify v) (sort_key fst b)"
    unfolding list_all2_conv_all_nth list_eq_iff_nth_eq by simp
  then show ?case by (simp only: stableStringify.simps)
qed simp

text \<open>
  Reordering declarations does not change a fingerprint: two schemas with the same tables, in
  any order, whose shapes differ in the order of object keys only, at any depth, hash the same.
\<close>

theorem fingerprint_ignores_order:
  assumes "distinct (map fst ts)" "distinct (map fst us)"
    and "\<And>name. rel_option (\<lambda>t u. reordered (tableShape t) (tableShape u)) (map_of ts name) (map_of us name)"
  shows "schemaFingerprint ts = schemaFingerprint us"
proof -
  have m: "map_of (table_shapes xs) k = (if k = js ''__proto__'' then None else map_option tableShape (map_of xs k))" for xs k
    by (induction xs) (auto simp: table_shapes_def simp del: js_simps)
  have names: "map fst (table_shapes xs) = filter (\<lambda>name. name \<noteq> js ''__proto__'') (map fst xs)" for xs
    by (induction xs) (auto simp: table_shapes_def simp del: js_simps)
  have d: "distinct (map fst (table_shapes xs))" if "distinct (map fst xs)" for xs
    unfolding names using that by simp
  have "rel_option reordered (map_of (table_shapes ts) k) (map_of (table_shapes us) k)" for k
    using assms(3) [of k] by (simp add: m option.rel_map)
  then have "reordered (JObj (table_shapes ts)) (JObj (table_shapes us))"
    by (intro reordered.objects d assms(1,2)) simp
  then show ?thesis unfolding schemaFingerprint_def by (simp only: stable_reordered)
qed

definition demo_tables :: "bool \<Rightarrow> (jstr \<times> TableSchema) list" where
  "demo_tables swapped =
     (let ob = [(js ''type'', JStr (js ''object'')), (js ''required'', JArr [JStr (js ''id'')])];
          ts = [(js ''a'', \<lparr>ts_vendor = js ''zod'', ts_emission = Some (JObj (if swapped then rev ob else ob))\<rparr>),
                (js ''b'', \<lparr>ts_vendor = js ''valibot'', ts_emission = None\<rparr>)]
      in if swapped then rev ts else ts)"

theorem fingerprint_ignores_order_witness:
  "demo_tables True \<noteq> demo_tables False \<and> schemaFingerprint (demo_tables True) = schemaFingerprint (demo_tables False)"
proof
  show "demo_tables True \<noteq> demo_tables False" by (simp add: demo_tables_def Let_def)
  let ?ob = "[(js ''type'', JStr (js ''object'')), (js ''required'', JArr [JStr (js ''id'')])]"
  have "reordered (JObj (rev ?ob)) (JObj ?ob)"
    by (rule reordered.objects) (auto simp: reordered.same)
  then show "schemaFingerprint (demo_tables True) = schemaFingerprint (demo_tables False)"
    by (intro fingerprint_ignores_order) (auto simp: demo_tables_def Let_def tableShape_def reordered.same)
qed

section \<open>The text of a hash\<close>

lemma length_to_hex: "n < 16 ^ Suc k \<Longrightarrow> length (to_hex n) \<le> Suc k"
proof (induction k arbitrary: n)
  case 0
  then show ?case by (simp add: to_hex.simps)
next
  case (Suc k)
  then have "n div 16 < 16 ^ Suc k" by (simp add: div_less_iff_less_mult mult.commute)
  then show ?case using Suc.IH [of "n div 16"] by (simp add: to_hex.simps [of n])
qed

lemma to_hex_digits: "set (to_hex n) \<subseteq> hex_digit ` {..<16}"
proof (induction n rule: to_hex.induct)
  case (1 n)
  then show ?case by (subst to_hex.simps) auto
qed

text \<open>A hash is eight lower-case hexadecimal digits.\<close>

lemma fnv1a_digits: "length (fnv1a s) = 8 \<and> set (fnv1a s) \<subseteq> hex_digit ` {..<16}"
proof -
  let ?h = "unat (foldl fnv_step 0x811c9dc5 s)"
  have "?h < 2 ^ LENGTH(32)" by (rule unsigned_less)
  then have "length (to_hex ?h) \<le> 8" using length_to_hex [of ?h 7] by simp
  moreover have "(0x30 :: 16 word) \<in> hex_digit ` {..<16}" by (rule image_eqI [of _ _ 0]) (simp_all add: hex_digit_def)
  ultimately show ?thesis using to_hex_digits [of ?h] by (auto simp: fnv1a_def padStart_def)
qed

end
