(* ===== verification/TestEngine.thy ===== *)
theory TestEngine
  imports EngineSpec Lifecycle Fingerprint
begin

text \<open>
  The in-memory engine applications test against, server/src/testing.ts: the class \<open>TestEngine\<close>
  over \<open>MemoryRowStore\<close> and the shared write set, and \<open>checkSchemaEvolution\<close>, the check of a
  committed schema snapshot. A mutation's seed is minted by a function of the caller: it is an
  argument of \<open>mutateAs\<close>.
\<close>

section \<open>The engine\<close>

record TestEngineOptions =
  teo_storedVersion :: "int option"
  teo_rows :: "(jstr \<times> (jstr \<times> jobj) list) list"
  teo_clientId :: "jstr option"
  teo_principal :: "jstr option"
  teo_auth :: "jval option"

record TestMutationResult =
  tm_error :: "(jstr \<times> jstr) option"
  tm_changes :: "RowChange list"

record TestEngine =
  te_app :: AppDefinition
  te_store :: memory_rows
  te_lmids :: "(jstr \<times> int) list"
  te_clientId :: jstr
  te_principal :: "jstr option"
  te_auth :: "jval option"
  te_version :: int

definition seedRaw :: "jstr \<Rightarrow> jstr \<Rightarrow> jobj \<Rightarrow> TestEngine \<Rightarrow> TestEngine" where
  "seedRaw tbl i data eng =
     (let v = te_version eng + 1 in eng\<lparr>te_store := memory_put (te_store eng) tbl i data v, te_version := v\<rparr>)"

definition seed_row :: "jstr \<Rightarrow> jstr \<Rightarrow> jobj \<Rightarrow> TestEngine \<Rightarrow> TestEngine res" where
  "seed_row tbl i data eng =
     bind_res (validateRow (app_schema (te_app eng)) tbl i data) (\<lambda>row. Inr (seedRaw tbl i row eng))"

text \<open>The auth context is parsed once, at construction.\<close>

definition checked_auth :: "AppDefinition \<Rightarrow> jval option \<Rightarrow> jval option res" where
  "checked_auth app auth =
     (case (auth, app_authContext app) of
        (Some a, Some validate) \<Rightarrow>
          (case validate a of
             VAsync \<Rightarrow> Inl (OtherError ''createTestEngine: async authContext validation is not supported'')
           | VIssues issues \<Rightarrow> Inl (OtherError ''createTestEngine: auth fails the app's authContext schema'')
           | VValue v \<Rightarrow> Inr (Some v))
      | _ \<Rightarrow> Inr auth)"

definition seed_all :: "(jstr \<Rightarrow> jstr \<Rightarrow> jobj \<Rightarrow> TestEngine \<Rightarrow> TestEngine res) \<Rightarrow> (jstr \<times> (jstr \<times> jobj) list) list
    \<Rightarrow> TestEngine \<Rightarrow> TestEngine res" where
  "seed_all put rows = fold_res (\<lambda>(tbl, byId). fold_res (\<lambda>(i, data). put tbl i data) byId) rows"

definition createTestEngine :: "AppDefinition \<Rightarrow> TestEngineOptions \<Rightarrow> TestEngine res" where
  "createTestEngine app opts =
     bind_res (checked_auth app (teo_auth opts)) (\<lambda>auth.
       let eng = \<lparr>te_app = app, te_store = [], te_lmids = [], te_clientId = or_default (teo_clientId opts) (js ''test''),
                  te_principal = teo_principal opts, te_auth = auth, te_version = 0\<rparr>;
           storedVersion = or_default (teo_storedVersion opts) (app_version app)
       in if storedVersion = app_version app then seed_all seed_row (teo_rows opts) eng
          else
            bind_res (migrationPath app storedVersion) (\<lambda>steps.
            bind_res (seed_all (\<lambda>tbl i data eng. Inr (seedRaw tbl i data eng)) (teo_rows opts) eng) (\<lambda>eng.
            bind_res (run_steps MemoryRowStore (app_schema app) (te_store eng) steps) (\<lambda>writes.
            bind_res (flush MemoryRowStore (app_schema app) (te_store eng) writes (te_version eng + 1)) (\<lambda>(store, _, _).
              Inr (eng\<lparr>te_store := store, te_version := te_version eng + 1\<rparr>))))))"

definition te_lastMutationId :: "TestEngine \<Rightarrow> jstr \<Rightarrow> int" where
  "te_lastMutationId eng c = or_default (map_of (te_lmids eng) c) 0"

definition te_get :: "TestEngine \<Rightarrow> jstr \<Rightarrow> jstr \<Rightarrow> jobj option" where
  "te_get eng tbl i = memory_get (te_store eng) tbl i"

definition te_list :: "TestEngine \<Rightarrow> jstr \<Rightarrow> (jstr \<times> jobj) list res" where
  "te_list eng tbl = memory_list (te_store eng) tbl None"

definition te_ctx :: "TestEngine \<Rightarrow> jstr \<Rightarrow> jstr \<Rightarrow> MutatorContext" where
  "te_ctx eng clientId seed =
     \<lparr>ctx_clientId = clientId, ctx_principal = te_principal eng, ctx_auth = te_auth eng,
      ctx_authoritative = True, ctx_seed = seed, ctx_nextId = createIdSource seed\<rparr>"

text \<open>
  What the body of the \<open>try\<close> leaves: the store, the number of rows written and the changes. A
  name of \<open>Object.prototype\<close> is called as in the Durable Object.
\<close>

definition te_run :: "TestEngine \<Rightarrow> jstr \<Rightarrow> jstr \<Rightarrow> jval \<Rightarrow> jstr \<Rightarrow> (memory_rows \<times> nat \<times> RowChange list) res" where
  "te_run eng clientId name args seed =
     (let sch = app_schema (te_app eng); store = te_store eng; candidate = te_version eng + 1 in
      case prop_get (app_mutators (te_app eng)) name of
        Absent \<Rightarrow> Inl (unknown_mutator name)
      | Inherited p \<Rightarrow>
          if inherited_call_ok p args then flush MemoryRowStore sch store (new_WriteSet False True) candidate
          else Inl (OtherError ''TypeError'')
      | Own d \<Rightarrow>
          bind_res (parse_args name d args) (\<lambda>args.
            case run_prog MemoryRowStore sch store (def_apply d args (te_ctx eng clientId seed)) (new_WriteSet False True) of
              (_, Some e) \<Rightarrow> Inl e
            | (writes, None) \<Rightarrow> flush MemoryRowStore sch store writes candidate))"

text \<open>An error of the result is the transient throw, which leaves the engine as it was.\<close>

definition mutateAs :: "TestEngine \<Rightarrow> jstr \<Rightarrow> jstr \<Rightarrow> jval \<Rightarrow> jstr \<Rightarrow> (TestEngine \<times> TestMutationResult) res" where
  "mutateAs eng clientId name args seed =
     (let mutationId = te_lastMutationId eng clientId + 1;
          settled = (\<lambda>eng. eng\<lparr>te_lmids := AList.update clientId mutationId (te_lmids eng)\<rparr>)
      in case te_run eng clientId name args seed of
           Inl (OtherError t) \<Rightarrow> Inl (OtherError t)
         | Inl (AppError code message) \<Rightarrow> Inr (settled eng, \<lparr>tm_error = Some (code, message), tm_changes = []\<rparr>)
         | Inr (store, written, changes) \<Rightarrow>
             Inr (settled (eng\<lparr>te_store := store,
                               te_version := (if 0 < written then te_version eng + 1 else te_version eng)\<rparr>),
                  \<lparr>tm_error = None, tm_changes = changes\<rparr>))"

definition te_mutate :: "TestEngine \<Rightarrow> jstr \<Rightarrow> jval \<Rightarrow> jstr \<Rightarrow> (TestEngine \<times> TestMutationResult) res" where
  "te_mutate eng = mutateAs eng (te_clientId eng)"

section \<open>The two stores side by side\<close>

text \<open>
  The tombstoned map in memory and the table hold the same records in the same order, when every
  stored row is a JSON document.
\<close>

definition mirror :: "memory_rows \<Rightarrow> sql_rows \<Rightarrow> bool" where
  "mirror ms rows \<longleftrightarrow> memory_inv ms \<and> map snd ms = rows \<and> list_all (\<lambda>row. json_obj (row_data row) = row_data row) rows"

lemma mirror_sql_inv:
  assumes "mirror ms rows" shows "sql_inv rows"
proof -
  have inv: "memory_inv ms" and rows: "rows = map snd ms" using assms by (auto simp: mirror_def)
  have "map fst ms = map (\<lambda>row. rowKey (row_tbl row) (row_id row)) (map snd ms)"
    using inv by (auto simp: memory_inv_def list_all_iff)
  then have "map fst ms = map (\<lambda>row. rowKey (row_tbl row) (row_id row)) rows" by (simp add: rows)
  then have "distinct (map (\<lambda>row. rowKey (row_tbl row) (row_id row)) rows)"
    using assms unfolding mirror_def memory_inv_def by metis
  then have "distinct (map (\<lambda>row. (row_tbl row, row_id row)) rows)"
    by (auto simp: distinct_map inj_on_def)
  then show ?thesis using assms by (simp add: sql_inv_def mirror_def)
qed

lemma mirror_row:
  assumes "mirror ms rows" "r \<in> set rows"
  shows "map_of ms (rowKey (row_tbl r) (row_id r)) = Some r"
proof -
  obtain k where "(k, r) \<in> set ms" using assms by (auto simp: mirror_def)
  then show ?thesis using assms(1) memory_mem by (auto simp: mirror_def)
qed

lemma mirror_get:
  assumes "mirror ms rows" "TABLE_NAME_RE t"
  shows "memory_get ms t i = sql_get rows t i"
proof -
  have inv: "memory_inv ms" and rows: "rows = map snd ms" using assms(1) by (auto simp: mirror_def)
  have "memory_get ms t i = Some d \<longleftrightarrow> sql_get rows t i = Some d" for d
  proof
    assume "memory_get ms t i = Some d"
    then obtain row where row: "map_of ms (rowKey t i) = Some row" "\<not> row_deleted row" "d = row_data row"
      by (auto simp: memory_get_def split: option.splits if_splits)
    then have "row_at t i row" "row \<in> set rows"
      using memory_inv_lookup [OF inv row(1)] assms(2) by (force simp: rowKey_inj rows dest: map_of_SomeD)+
    then show "sql_get rows t i = Some d"
      using row by (auto simp: sql_get_Some_iff [OF mirror_sql_inv [OF assms(1)]])
  next
    assume "sql_get rows t i = Some d"
    then obtain row where "row \<in> set rows" "live_at t i row" "row_data row = d"
      by (auto simp: sql_get_Some_iff [OF mirror_sql_inv [OF assms(1)]])
    moreover from this obtain k where "(k, row) \<in> set ms" by (auto simp: rows)
    ultimately show "memory_get ms t i = Some d"
      using memory_mem [OF inv] by (auto simp: memory_get_def)
  qed
  then show ?thesis by (metis not_Some_eq)
qed

lemma update_is_upsert:
  assumes "list_all (\<lambda>(k, row). k = rowKey (row_tbl row) (row_id row) \<and> TABLE_NAME_RE (row_tbl row)) ms"
    and "TABLE_NAME_RE (row_tbl r)"
  shows "map snd (AList.update (rowKey (row_tbl r) (row_id r)) r ms) = sql_upsert r (map snd ms)"
  using assms by (induction ms) (auto simp: rowKey_inj)

lemma mirror_put:
  assumes "mirror ms rows" "TABLE_NAME_RE t" "json_obj d = d"
  shows "mirror (memory_put ms t i d v) (sql_put rows t i d v)"
proof -
  let ?r = "\<lparr>row_tbl = t, row_id = i, row_data = d, row_version = v, row_deleted = False\<rparr>"
  have "map snd (AList.update (rowKey (row_tbl ?r) (row_id ?r)) ?r ms) = sql_upsert ?r (map snd ms)"
    using assms(1,2) by (intro update_is_upsert) (simp_all add: mirror_def memory_inv_def)
  moreover have "memory_inv (memory_put ms t i d v)"
    using assms(1,2) by (simp add: memory_put_def mirror_def memory_inv_update)
  moreover have "sql_inv (sql_put rows t i d v)" by (rule sql_inv_put [OF mirror_sql_inv [OF assms(1)]])
  ultimately show ?thesis
    using assms by (simp add: mirror_def memory_put_def sql_put_def sql_inv_def)
qed

lemma map_hit_none:
  "list_all (\<lambda>r. \<not> P r) rows \<Longrightarrow> map (\<lambda>r. if P r then f r else r) rows = rows \<and> filter P rows = []"
  by (induction rows) auto

lemma delete_in_place:
  assumes "distinct (map fst ms)" "map_of ms k = Some row"
    and "list_all (\<lambda>(k, row). k = rowKey (row_tbl row) (row_id row) \<and> TABLE_NAME_RE (row_tbl row)) ms"
    and "k = rowKey t i" "TABLE_NAME_RE t"
  shows "map snd (AList.update k (f row) ms) = map (\<lambda>row. if row_at t i row then f row else row) (map snd ms) \<and>
    length (filter (\<lambda>row. row_at t i row \<and> P row) (map snd ms)) = (if P row then 1 else 0)"
  using assms
proof (induction ms)
  case (Cons a ms)
  obtain k' row' where a: "a = (k', row')" by (cases a)
  show ?case
  proof (cases "k' = k")
    case True
    have "k \<notin> fst ` set ms" using Cons.prems(1) True by (simp add: a)
    then have n: "\<forall>r \<in> set (map snd ms). \<not> row_at t i r"
      using Cons.prems(3,4) by (force simp: a list_all_iff)
    have "map (\<lambda>row. if row_at t i row then f row else row) (map snd ms) = map snd ms"
      "filter (\<lambda>row. row_at t i row \<and> P row) (map snd ms) = []"
      using n by (auto simp: filter_empty_conv intro!: map_idI)
    then show ?thesis using Cons.prems True by (auto simp: a rowKey_inj)
  next
    case False
    then have "\<not> row_at t i row'" using Cons.prems by (auto simp: a)
    moreover have "map snd (AList.update k (f row) ms) = map (\<lambda>row. if row_at t i row then f row else row) (map snd ms) \<and>
        length (filter (\<lambda>row. row_at t i row \<and> P row) (map snd ms)) = (if P row then 1 else 0)"
      by (rule Cons.IH) (use Cons.prems False in \<open>simp_all add: a\<close>)
    ultimately show ?thesis using False by (simp only: a list.map snd_conv filter.simps update.simps if_False) simp
  qed
qed simp

lemma mirror_del:
  assumes "mirror ms rows" "TABLE_NAME_RE t"
  shows "mirror (fst (memory_del ms t i v)) (fst (sql_del rows t i v)) \<and>
    snd (memory_del ms t i v) = snd (sql_del rows t i v)"
proof -
  have inv: "memory_inv ms" and rows: "rows = map snd ms" using assms(1) by (auto simp: mirror_def)
  have s: "sql_inv (fst (sql_del rows t i v))" by (rule sql_inv_del [OF mirror_sql_inv [OF assms(1)]])
  have m: "memory_inv (fst (memory_del ms t i v))"
    using memory.inv_del [OF inv assms(2), of i v] by (simp add: MemoryRowStore_def)
  have ks: "distinct (map fst ms)" "list_all (\<lambda>(k, row). k = rowKey (row_tbl row) (row_id row) \<and> TABLE_NAME_RE (row_tbl row)) ms"
    using inv by (auto simp: memory_inv_def)
  have "map snd (fst (memory_del ms t i v)) = fst (sql_del rows t i v) \<and>
    snd (memory_del ms t i v) = snd (sql_del rows t i v)"
  proof (cases "map_of ms (rowKey t i)")
    case None
    have "\<not> live_at t i r" if "r \<in> set rows" for r
      using mirror_row [OF assms(1) that] None by auto
    then have "list_all (\<lambda>r. \<not> live_at t i r) rows" by (simp only: list_all_iff) blast
    note map_hit_none [OF this, of "\<lambda>row. row\<lparr>row_deleted := True, row_version := v\<rparr>"]
    then show ?thesis using None by (simp add: memory_del_def sql_del_def Let_def rows [symmetric])
  next
    case (Some row)
    have at: "row_at t i row" using memory_inv_lookup [OF inv Some] assms(2) by (auto simp: rowKey_inj)
    note D = delete_in_place [OF ks(1) Some ks(2) refl assms(2)]
    show ?thesis
    proof (cases "row_deleted row")
      case True
      have "\<not> live_at t i r" if "r \<in> set rows" for r
        using mirror_row [OF assms(1) that] Some True by auto
      then have "list_all (\<lambda>r. \<not> live_at t i r) rows" by (simp only: list_all_iff) blast
      note map_hit_none [OF this, of "\<lambda>row. row\<lparr>row_deleted := True, row_version := v\<rparr>"]
      then show ?thesis using Some True by (simp add: memory_del_def sql_del_def Let_def rows [symmetric])
    next
      case False
      let ?f = "\<lambda>row. if \<not> row_deleted row then row\<lparr>row_deleted := True, row_version := v\<rparr> else row"
      have "map (\<lambda>row. if row_at t i row then ?f row else row) rows =
          map (\<lambda>row. if live_at t i row then row\<lparr>row_deleted := True, row_version := v\<rparr> else row) rows" by auto
      moreover have "length (filter (live_at t i) rows) = 1"
        using conjunct2 [OF D [of ?f "\<lambda>row. \<not> row_deleted row"]] False by (simp add: rows [symmetric])
      ultimately show ?thesis
        using conjunct1 [OF D [of ?f "\<lambda>row. True"]] Some False by (simp add: memory_del_def sql_del_def Let_def rows [symmetric])
    qed
  qed
  then show ?thesis using s m by (simp add: mirror_def sql_inv_def)
qed

section \<open>The two runs side by side\<close>

text \<open>A table visited in rowid order, as by a plain scan; validators that return JSON documents.\<close>

definition in_order :: "plan \<Rightarrow> bool" where
  "in_order plan \<longleftrightarrow> (\<forall>rows. visit plan rows = rows)"

definition json_schema :: "schema \<Rightarrow> bool" where
  "json_schema sch \<longleftrightarrow> (\<forall>t validate d v. map_of sch t = Some validate \<longrightarrow> validate d = VValue v \<longrightarrow> json_obj v = v)"

text \<open>Application code that never filters on an undefined value.\<close>

primrec defined_filters :: "prog \<Rightarrow> bool" where
  "defined_filters Done = True"
| "defined_filters (Throw e) = True"
| "defined_filters (CallGet t i k) = (\<forall>r. defined_filters (k r))"
| "defined_filters (CallList t wh k) \<longleftrightarrow> defined_where wh \<and> (\<forall>r. defined_filters (k r))"
| "defined_filters (CallPut t i d k) = (\<forall>r. defined_filters (k r))"
| "defined_filters (CallDel t i k) = (\<forall>r. defined_filters (k r))"

text \<open>The buffers agree; so do the remembered rows, where the engine remembers any.\<close>

definition twins :: "WriteSet \<Rightarrow> WriteSet \<Rightarrow> bool" where
  "twins wm w \<longleftrightarrow> ws_puts wm = ws_puts w \<and> ws_dels wm = ws_dels w \<and>
     \<not> ws_validateAtFlush wm \<and> \<not> ws_validateAtFlush w \<and> ws_trackChanges wm \<and>
     (ws_trackChanges w \<longrightarrow> ws_before wm = ws_before w) \<and>
     list_all (\<lambda>(k, p). json_obj (w_data p) = w_data p) (ws_puts w)"

lemma mirror_list:
  assumes "mirror ms rows" "TABLE_NAME_RE t" "defined_where wh" "compileWhere wh = Inr p"
  shows "\<exists>xs ys. memory_list ms t wh = Inr xs \<and> sql_list plan rows t wh = Inr ys \<and>
    same_rows (filter (\<lambda>(i, d). p d) xs) (filter (\<lambda>(i, d). p d) ys) \<and>
    (in_order plan \<longrightarrow> filter (\<lambda>(i, d). p d) xs = filter (\<lambda>(i, d). p d) ys)"
proof -
  let ?cs = "concat (map where_clause (case wh of None \<Rightarrow> [] | Some w \<Rightarrow> w))"
  have c: "list_all (clause_holds (row_data row)) ?cs" if r: "row \<in> set rows" "p (row_data row)" for row
  proof (cases wh)
    case (Some w)
    have j: "json_obj (row_data row) = row_data row" using assms(1) r(1) by (auto simp: mirror_def list_all_iff)
    have "list_all (clause_holds (row_data row)) (where_clause (f, v))" if m: "(f, v) \<in> set w" for f v
    proof (cases "v = JUndef")
      case True
      then have "\<not> FIELD_RE f" using assms(3) m by (auto simp: Some defined_where_def list_all_iff)
      then show ?thesis by (simp add: where_clause_def)
    next
      case False
      then have "scalar v \<and> strict_eq (field (row_data row) f) v"
        using compileWhere_entries [OF assms(4) [unfolded Some] r(2) m] by simp
      then show ?thesis by (intro clause_superset [OF j]) auto
    qed
    then show ?thesis by (auto simp: Some list_all_iff)
  qed simp
  have same: "filter (\<lambda>(i, d). p d) (map (\<lambda>row. (row_id row, row_data row)) (filter (\<lambda>row. row_tbl row = t \<and> \<not> row_deleted row) rows)) =
      filter (\<lambda>(i, d). p d) (map (\<lambda>row. (row_id row, row_data row))
        (filter (\<lambda>row. row_tbl row = t \<and> \<not> row_deleted row \<and> list_all (clause_holds (row_data row)) ?cs) rows))"
    using c by (induction rows) auto
  obtain xs ys where l: "memory_list ms t wh = Inr xs" "sql_list plan rows t wh = Inr ys"
    using assms(2) by (simp add: memory_list_def sql_list_def)
  have m: "memory_inv ms" using assms(1) by (simp add: mirror_def)
  have lm: "rs_list MemoryRowStore ms t wh = Inr xs" "rs_list (SqlRowStore plan) rows t wh = Inr ys"
    using l by (simp_all add: MemoryRowStore_def SqlRowStore_def)
  note ml = memory.list_live [OF m assms(2) lm(1)] and sl = sql.list_live [OF mirror_sql_inv [OF assms(1)] assms(2) lm(2)]
  have g: "rs_get MemoryRowStore ms t i = rs_get (SqlRowStore plan) rows t i" for i
    using mirror_get [OF assms(1,2)] by (simp add: MemoryRowStore_def SqlRowStore_def)
  have "map_of (filter (\<lambda>(i, d). p d) xs) i = map_of (filter (\<lambda>(i, d). p d) ys) i" for i
    using memory.list_exact [OF m assms(2) lm(1) assms(3,4), of i]
      sql.list_exact [OF mirror_sql_inv [OF assms(1)] assms(2) lm(2) assms(3,4), of i] by (simp only: g)
  then have "same_rows (filter (\<lambda>(i, d). p d) xs) (filter (\<lambda>(i, d). p d) ys)"
    using distinct_map_filter [OF conjunct1 [OF ml]] distinct_map_filter [OF conjunct1 [OF sl]] by (auto simp: same_rows_def)
  moreover have "in_order plan \<longrightarrow> filter (\<lambda>(i, d). p d) xs = filter (\<lambda>(i, d). p d) ys"
    using assms(1,2) l same by (auto simp: memory_list_def sql_list_def mirror_def in_order_def Let_def)
  ultimately show ?thesis using l by blast
qed

lemma twins_get:
  assumes "mirror ms rows" "twins wm w"
  shows "fst (tx_get MemoryRowStore ms wm t i) = fst (tx_get (SqlRowStore plan) rows w t i) \<and>
    twins (snd (tx_get MemoryRowStore ms wm t i)) (snd (tx_get (SqlRowStore plan) rows w t i))"
proof (rule validateTarget_cases [of t i])
  assume t: "validateTarget t i = Inr ()" "TABLE_NAME_RE t"
  have g: "rs_get MemoryRowStore ms t i = rs_get (SqlRowStore plan) rows t i"
    using mirror_get [OF assms(1) t(2)] by (simp add: MemoryRowStore_def SqlRowStore_def)
  show ?thesis using assms(2) by (auto simp: tx_get_def t(1) Let_def g twins_def split: option.splits)
qed (use assms(2) in \<open>simp add: tx_get_def\<close>)

lemma twins_remember:
  assumes "mirror ms rows" "twins wm w" "TABLE_NAME_RE t"
  shows "twins (rememberBefore MemoryRowStore ms t i wm) (rememberBefore (SqlRowStore plan) rows t i w)"
proof -
  have g: "rs_get MemoryRowStore ms t i = rs_get (SqlRowStore plan) rows t i"
    using mirror_get [OF assms(1,3)] by (simp add: MemoryRowStore_def SqlRowStore_def)
  show ?thesis using assms(2) by (auto simp: rememberBefore_def Let_def g twins_def)
qed

lemma twins_put:
  assumes "mirror ms rows" "twins wm w" "json_schema sch"
  shows "fst (tx_put MemoryRowStore sch ms wm t i d) = fst (tx_put (SqlRowStore plan) sch rows w t i d) \<and>
    twins (snd (tx_put MemoryRowStore sch ms wm t i d)) (snd (tx_put (SqlRowStore plan) sch rows w t i d))"
proof -
  have nf: "\<not> ws_validateAtFlush wm" "\<not> ws_validateAtFlush w" using assms(2) by (auto simp: twins_def)
  show ?thesis
  proof (rule tx_put_cases [of "SqlRowStore plan" sch rows w t i d])
    fix e assume "tx_put (SqlRowStore plan) sch rows w t i d = (Inl e, w)"
    then show ?thesis using assms(2) nf by (auto simp: tx_put_def Let_def split: sum.splits)
  next
    fix stored
    assume p: "tx_put (SqlRowStore plan) sch rows w t i d = (Inr (), after_put (rememberBefore (SqlRowStore plan) rows t i w) t i stored)"
      and t: "TABLE_NAME_RE t" "id_ok i" "jsonByteSize (JObj stored) \<le> MAX_ROW_BYTES"
      and v: "if ws_validateAtFlush w then stored = d else validateRow sch t i d = Inr stored"
    have v': "validateRow sch t i d = Inr stored" using v nf by simp
    then obtain validate where "map_of sch t = Some validate" "validate d = VValue stored"
      by (auto simp: validateRow_def prop_get_def split: option.splits if_splits verdict.splits)
    then have j: "json_obj stored = stored" using assms(3) unfolding json_schema_def by blast
    have m: "tx_put MemoryRowStore sch ms wm t i d = (Inr (), after_put (rememberBefore MemoryRowStore ms t i wm) t i stored)"
      using t nf v' by (simp add: tx_put_def check_size_def not_less [symmetric] Let_def after_put_def)
    have s: "set (AList.update k x m) \<subseteq> insert (k, x) (set m)" for k :: jstr and x :: RowWrite and m
      by (induction m) auto
    have "twins (rememberBefore MemoryRowStore ms t i wm) (rememberBefore (SqlRowStore plan) rows t i w)"
      by (rule twins_remember [OF assms(1,2) t(1)])
    then have "twins (after_put (rememberBefore MemoryRowStore ms t i wm) t i stored)
        (after_put (rememberBefore (SqlRowStore plan) rows t i w) t i stored)"
      using j s by (fastforce simp: twins_def after_put_def list_all_iff)
    then show ?thesis by (simp add: p m)
  qed
qed

lemma twins_del:
  assumes "mirror ms rows" "twins wm w"
  shows "fst (tx_del MemoryRowStore ms wm t i) = fst (tx_del (SqlRowStore plan) rows w t i) \<and>
    twins (snd (tx_del MemoryRowStore ms wm t i)) (snd (tx_del (SqlRowStore plan) rows w t i))"
proof (rule validateTarget_cases [of t i])
  assume t: "validateTarget t i = Inr ()" "TABLE_NAME_RE t"
  have d: "set (AList.delete k m) \<subseteq> set m" for k :: jstr and m :: "(jstr \<times> RowWrite) list" by (auto simp: AList.delete_eq)
  from twins_remember [OF assms t(2), of i plan] d show ?thesis
    by (auto simp: tx_del_def t(1) Let_def) (fastforce simp: twins_def list_all_iff)
qed (use assms(2) in \<open>simp add: tx_del_def\<close>)

lemma twins_run:
  assumes "mirror ms rows" "json_schema sch"
  shows "twins wm w \<Longrightarrow> defined_filters p \<Longrightarrow> in_order plan \<or> order_blind p \<Longrightarrow>
    snd (run_prog MemoryRowStore sch ms p wm) = snd (run_prog (SqlRowStore plan) sch rows p w) \<and>
    twins (fst (run_prog MemoryRowStore sch ms p wm)) (fst (run_prog (SqlRowStore plan) sch rows p w))"
proof (induction p arbitrary: wm w)
  case (CallGet t i k)
  then show ?case using CallGet.IH [OF rangeI] twins_get [OF assms(1) CallGet.prems(1), of t i plan]
    by (auto simp: case_prod_beta)
next
  case (CallList t wh k)
  have "k (tx_list MemoryRowStore ms wm t wh) = k (tx_list (SqlRowStore plan) rows w t wh)"
  proof (cases "TABLE_NAME_RE t")
    case True
    show ?thesis
    proof (cases "compileWhere wh")
      case (Inr p)
      obtain xs ys where l: "memory_list ms t wh = Inr xs" "sql_list plan rows t wh = Inr ys"
          "same_rows (filter (\<lambda>(i, d). p d) xs) (filter (\<lambda>(i, d). p d) ys)"
          "in_order plan \<longrightarrow> filter (\<lambda>(i, d). p d) xs = filter (\<lambda>(i, d). p d) ys"
        using mirror_list [OF assms(1) True _ Inr, of plan] CallList.prems(2) unfolding defined_filters.simps by blast
      let ?over = "overlaid p t (map snd (ws_dels w)) (map snd (ws_puts w))"
      have "tx_list MemoryRowStore ms wm t wh = Inr (?over (filter (\<lambda>(i, d). p d) xs))"
          "tx_list (SqlRowStore plan) rows w t wh = Inr (?over (filter (\<lambda>(i, d). p d) ys))"
        using True Inr CallList.prems(1) l(1,2)
        by (simp_all add: tx_list_def MemoryRowStore_def SqlRowStore_def twins_def overlaid_def)
      with l(4) CallList.prems(3) overlaid_same [OF l(3)] show ?thesis by auto
    qed (simp add: tx_list_def True)
  qed (simp add: tx_list_def)
  then show ?case using CallList.IH [OF rangeI] CallList.prems by auto
next
  case (CallPut t i d k)
  then show ?case using CallPut.IH [OF rangeI] twins_put [OF assms(1) CallPut.prems(1) assms(2), of t i d plan]
    by (auto simp: case_prod_beta)
next
  case (CallDel t i k)
  then show ?case using CallDel.IH [OF rangeI] twins_del [OF assms(1) CallDel.prems(1), of t i plan]
    by (auto simp: case_prod_beta)
qed simp_all

lemma mirror_flush_puts:
  assumes "mirror ms rows" "list_all (\<lambda>w. TABLE_NAME_RE (w_tbl w) \<and> json_obj (w_data w) = w_data w) ps"
  shows "\<exists>ms' rows' after'. fold_res (flush_put MemoryRowStore sch False v) ps (ms, after) = Inr (ms', after') \<and>
    fold_res (flush_put (SqlRowStore plan) sch False v) ps (rows, after) = Inr (rows', after') \<and> mirror ms' rows'"
  using assms
proof (induction ps arbitrary: ms rows after)
  case (Cons w ps)
  have "mirror (memory_put ms (w_tbl w) (w_id w) (w_data w) v) (sql_put rows (w_tbl w) (w_id w) (w_data w) v)"
    using Cons.prems by (intro mirror_put) auto
  from Cons.IH [OF this] Cons.prems(2) show ?case
    by (simp add: flush_put_def flush_data_def MemoryRowStore_def SqlRowStore_def)
qed simp

lemma mirror_flush_dels:
  assumes "mirror ms rows" "list_all (\<lambda>d. TABLE_NAME_RE (t_tbl d)) ds"
  shows "\<exists>ms' rows' after'. flush_dels MemoryRowStore v ds (ms, after) = (ms', after') \<and>
    flush_dels (SqlRowStore plan) v ds (rows, after) = (rows', after') \<and> mirror ms' rows'"
  using assms
proof (induction ds arbitrary: ms rows after)
  case (Cons d ds)
  have m: "mirror (fst (memory_del ms (t_tbl d) (t_id d) v)) (fst (sql_del rows (t_tbl d) (t_id d) v))"
    "snd (memory_del ms (t_tbl d) (t_id d) v) = snd (sql_del rows (t_tbl d) (t_id d) v)"
    using mirror_del [OF Cons.prems(1)] Cons.prems(2) by auto
  from Cons.IH [OF m(1)] Cons.prems(2) m(2) show ?case
    by (simp add: MemoryRowStore_def SqlRowStore_def case_prod_beta Let_def)
qed simp

lemma mirror_flush:
  assumes "mirror ms rows" "twins wm w" "ws_inv (SqlRowStore plan) rows w"
  shows "\<exists>ms' rows' n chm ch. flush MemoryRowStore sch ms wm v = Inr (ms', n, chm) \<and>
    flush (SqlRowStore plan) sch rows w v = Inr (rows', n, ch) \<and> mirror ms' rows' \<and> (ws_trackChanges w \<longrightarrow> chm = ch \<and> length ch = n)"
proof -
  have ps: "puts_ok (ws_puts w)" and ds: "dels_ok (ws_dels w)" using assms(3) by (auto simp: ws_inv_def)
  have "list_all (\<lambda>w. TABLE_NAME_RE (w_tbl w) \<and> json_obj (w_data w) = w_data w) (map snd (ws_puts w))"
    using ps assms(2) by (auto simp: puts_ok_def twins_def list_all_iff dest!: map_of_is_SomeI)
  from mirror_flush_puts [OF assms(1) this, of sch v "[]" plan] obtain ms1 rows1 after1 where
    p: "fold_res (flush_put MemoryRowStore sch False v) (map snd (ws_puts w)) (ms, []) = Inr (ms1, after1)"
      "fold_res (flush_put (SqlRowStore plan) sch False v) (map snd (ws_puts w)) (rows, []) = Inr (rows1, after1)"
      "mirror ms1 rows1" by blast
  have "list_all (\<lambda>d. TABLE_NAME_RE (t_tbl d)) (map snd (ws_dels w))"
    using ds by (auto simp: dels_ok_def list_all_iff dest!: map_of_is_SomeI)
  from mirror_flush_dels [OF p(3) this, of v after1 plan] obtain ms2 rows2 after2 where
    d: "flush_dels MemoryRowStore v (map snd (ws_dels w)) (ms1, after1) = (ms2, after2)"
      "flush_dels (SqlRowStore plan) v (map snd (ws_dels w)) (rows1, after1) = (rows2, after2)" "mirror ms2 rows2" by blast
  have fm: "flush MemoryRowStore sch ms wm v = Inr (ms2, length after2, changes_of wm after2)"
    and fs: "flush (SqlRowStore plan) sch rows w v = Inr (rows2, length after2, changes_of w after2)"
    using assms(2) p d by (simp_all add: flush_def twins_def)
  have "changes_of wm after2 = changes_of w after2 \<and> length (changes_of w after2) = length after2" if t: "ws_trackChanges w"
  proof
    have "ws_puts wm = ws_puts w" "ws_dels wm = ws_dels w" using assms(2) by (auto simp: twins_def)
    then have "change_target wm = change_target w" by (intro ext) (simp add: change_target_def split: option.split)
    then show "changes_of wm after2 = changes_of w after2"
      using assms(2) t by (simp add: changes_of_def twins_def)
    show "length (changes_of w after2) = length after2"
      using sql.flush_changes [OF mirror_sql_inv [OF assms(1)] assms(3) fs t] by simp
  qed
  with fm fs d(3) show ?thesis by blast
qed

section \<open>A mutation on both engines\<close>

definition filters_defined :: "AppDefinition \<Rightarrow> bool" where
  "filters_defined app \<longleftrightarrow> (\<forall>d \<in> snd ` set (app_mutators app). \<forall>args ctx. defined_filters (def_apply d args ctx))"

text \<open>
  No mutator depends on the order \<open>list\<close> returns rows in; the statement of a scan has no
  \<open>ORDER BY\<close>, so the order SQLite visits rows in is its own choice.
\<close>

definition order_free :: "AppDefinition \<Rightarrow> bool" where
  "order_free app \<longleftrightarrow> (\<forall>d \<in> snd ` set (app_mutators app). \<forall>args ctx. order_blind (def_apply d args ctx))"

lemma te_run_mirrors:
  assumes "mirror (te_store eng) rows" "te_app eng = cf_app cfg" "te_version eng = v"
    and "in_order (cf_plan cfg) \<or> order_free (cf_app cfg)" "json_schema (app_schema (cf_app cfg))" "filters_defined (cf_app cfg)"
    and "te_ctx eng c (mut_seed m) = mutation_ctx a m"
  shows "case te_run eng c (mut_name m) (mut_args m) (mut_seed m) of
      Inl e \<Rightarrow> run_mutation cfg v rows a m = Inl e
    | Inr (ms', n, chm) \<Rightarrow> (\<exists>rows' args ch.
        run_mutation cfg v rows a m = Inr (rows', if 0 < n then Some (v + 1) else None, args, ch) \<and>
        mirror ms' rows' \<and> (cf_hook cfg \<longrightarrow> chm = ch \<and> length ch = n))"
proof (cases "prop_get (app_mutators (cf_app cfg)) (mut_name m)")
  case (Own d)
  show ?thesis
  proof (cases "parse_args (mut_name m) d (mut_args m)")
    case (Inr ar)
    let ?p = "def_apply d ar (mutation_ctx a m)" and ?sch = "app_schema (cf_app cfg)" and ?plan = "cf_plan cfg"
    obtain wm em where rm: "run_prog MemoryRowStore ?sch (te_store eng) ?p (new_WriteSet False True) = (wm, em)" by fastforce
    obtain w e where rs: "run_prog (SqlRowStore ?plan) ?sch rows ?p (new_WriteSet False (cf_hook cfg)) = (w, e)" by fastforce
    have mem: "(mut_name m, d) \<in> set (app_mutators (cf_app cfg))" using Own by (auto simp: prop_get_Own_iff dest: map_of_SomeD)
    then have f: "defined_filters ?p" using assms(6) by (force simp: filters_defined_def)
    have tw: "twins (new_WriteSet False True) (new_WriteSet False (cf_hook cfg))" by (simp add: twins_def new_WriteSet_def)
    have b: "in_order ?plan \<or> order_blind ?p" using assms(4) mem by (force simp: order_free_def)
    from twins_run [OF assms(1,5) tw f b] have t: "em = e" "twins wm w" by (simp_all add: rm rs)
    show ?thesis
    proof (cases e)
      case None
      have i: "ws_inv (SqlRowStore ?plan) rows w" "ws_trackChanges w = cf_hook cfg"
        using run_prog_inv [OF ws_inv_new, of "SqlRowStore ?plan" rows ?sch ?p False "cf_hook cfg"]
          run_prog_fields [of "SqlRowStore ?plan" ?sch rows ?p "new_WriteSet False (cf_hook cfg)"]
        unfolding rs by (simp_all add: new_WriteSet_def)
      from mirror_flush [OF assms(1) t(2) i(1), of ?sch "v + 1"] obtain ms' rows' n chm ch where
        "flush MemoryRowStore ?sch (te_store eng) wm (v + 1) = Inr (ms', n, chm)"
        "flush (SqlRowStore ?plan) ?sch rows w (v + 1) = Inr (rows', n, ch)" "mirror ms' rows'"
        "cf_hook cfg \<longrightarrow> chm = ch \<and> length ch = n" unfolding i(2) by blast
      then show ?thesis using None t
        by (simp add: te_run_def run_mutation_def Let_def assms(2,3,7) Own Inr rm rs)
    qed (simp add: te_run_def run_mutation_def Let_def assms(2,3,7) Own Inr rm rs t(1))
  qed (simp add: te_run_def run_mutation_def Let_def assms(2) Own)
next
  case (Inherited p)
  then show ?thesis using assms(1)
    by (simp add: te_run_def run_mutation_def Let_def assms(2) new_WriteSet_def flush_def changes_of_def)
qed (simp add: te_run_def run_mutation_def Let_def assms(2))

text \<open>The engine of a test and a workspace in the same state.\<close>

definition same_workspace :: "'x Config \<Rightarrow> TestEngine \<Rightarrow> 'x WorkspaceDO \<Rightarrow> bool" where
  "same_workspace cfg eng st \<longleftrightarrow> te_app eng = cf_app cfg \<and> mirror (te_store eng) (db_rows (do_db st)) \<and>
     te_version eng = m_currentVersion (do_meta st) \<and>
     (\<forall>c. known (do_db st) c \<longrightarrow> te_lastMutationId eng c = lastMutationId (do_db st) c)"

text \<open>A call of \<open>mutateAs\<close>, and the mutation the client's next push would carry.\<close>

record TestCall =
  call_client :: jstr
  call_name :: jstr
  call_args :: jval
  call_seed :: jstr

definition test_call :: "TestCall \<Rightarrow> TestEngine \<Rightarrow> TestEngine \<times> TestMutationResult res" where
  "test_call call eng =
     (case mutateAs eng (call_client call) (call_name call) (call_args call) (call_seed call) of
        Inl e \<Rightarrow> (eng, Inl e) | Inr (eng', r) \<Rightarrow> (eng', Inr r))"

definition pushed_call :: "'x Config \<Rightarrow> Env \<Rightarrow> (jstr \<Rightarrow> Attachment) \<Rightarrow> TestCall \<Rightarrow> 'x WorkspaceDO \<Rightarrow> 'x WorkspaceDO \<times> (jstr \<times> jstr) option res" where
  "pushed_call cfg ev who call st =
     (case applyMutation cfg ev (who (call_client call))
             \<lparr>mut_id = lastMutationId (do_db st) (call_client call) + 1, mut_name = call_name call,
              mut_args = call_args call, mut_seed = call_seed call\<rparr> st of
        Inl e \<Rightarrow> (st, Inl e) | Inr (st', r) \<Rightarrow> (st', Inr r))"

fun run_calls_with :: "('c \<Rightarrow> 's \<Rightarrow> 's \<times> 'r) \<Rightarrow> 'c list \<Rightarrow> 's \<Rightarrow> 's \<times> 'r list" where
  "run_calls_with f [] s = (s, [])"
| "run_calls_with f (c # cs) s = (let (s', r) = f c s; (s'', rs) = run_calls_with f cs s' in (s'', r # rs))"

definition reported :: "TestMutationResult res \<Rightarrow> RowChange list list" where
  "reported r = (case r of Inr t \<Rightarrow> if tm_changes t = [] then [] else [tm_changes t] | Inl _ \<Rightarrow> [])"

definition hook_changes :: "'x WorkspaceDO \<Rightarrow> RowChange list list" where
  "hook_changes st = concat (map (\<lambda>e. case e of HookRan mc \<Rightarrow> [mc_changes mc] | _ \<Rightarrow> []) (do_out st))"

lemma test_call_mirrors:
  assumes "same_workspace cfg eng st" "known (do_db st) (call_client call)"
    and "in_order (cf_plan cfg) \<or> order_free (cf_app cfg)" "json_schema (app_schema (cf_app cfg))" "filters_defined (cf_app cfg)" "cf_hook cfg"
    and "at_clientId (who (call_client call)) = call_client call" "at_principal (who (call_client call)) = te_principal eng"
      "at_auth (who (call_client call)) = te_auth eng"
    and "test_call call eng = (eng', r)"
  shows "\<exists>st' r'. pushed_call cfg ev who call st = (st', r') \<and> r' = map_sum (\<lambda>e. e) tm_error r \<and> same_workspace cfg eng' st' \<and>
    hook_changes st' = hook_changes st @ reported r \<and> (\<forall>c. known (do_db st') c = known (do_db st) c) \<and>
    te_principal eng' = te_principal eng \<and> te_auth eng' = te_auth eng"
proof -
  let ?c = "call_client call" and ?d = "do_db st" and ?v = "m_currentVersion (do_meta st)"
  let ?m = "\<lparr>mut_id = lastMutationId ?d ?c + 1, mut_name = call_name call, mut_args = call_args call, mut_seed = call_seed call\<rparr>"
  have w: "te_app eng = cf_app cfg" "mirror (te_store eng) (db_rows ?d)" "te_version eng = ?v"
    "\<And>c. known ?d c \<Longrightarrow> te_lastMutationId eng c = lastMutationId ?d c"
    using assms(1) by (auto simp: same_workspace_def)
  have ctx: "te_ctx eng ?c (mut_seed ?m) = mutation_ctx (who ?c) ?m"
    using assms(7-9) by (simp add: te_ctx_def mutation_ctx_def)
  note R = te_run_mirrors [OF w(2,1,3) assms(3-5) ctx]
  note F = commit_fields [OF assms(2)]
  note lm = te_lastMutationId_def map_of_update
  have lmw: "or_default (map_of (te_lmids eng) c) 0 = lastMutationId ?d c" if "known ?d c" for c
    using w(4) [OF that] by (simp add: te_lastMutationId_def)
  have some: "or_default (Some k) d = k" for k d :: int by (simp add: or_default_def)
  show ?thesis
  proof (cases "te_run eng ?c (call_name call) (call_args call) (call_seed call)")
    case (Inl e)
    then have e: "run_mutation cfg ?v (db_rows ?d) (who ?c) ?m = Inl e" using R by simp
    show ?thesis
    proof (cases e)
      case (AppError code msg)
      then show ?thesis using assms(2,10) Inl e w(1-3) lmw F
        by (auto simp: test_call_def mutateAs_def pushed_call_def applyMutation_def Let_def assms(7) same_workspace_def lm some
            reported_def hook_changes_def)
    next
      case (OtherError t)
      then show ?thesis using assms(1,10) Inl e
        by (auto simp: test_call_def mutateAs_def pushed_call_def applyMutation_def Let_def reported_def)
    qed
  next
    case (Inr x)
    obtain ms n chm where x: "x = (ms, n, chm)" by (cases x)
    obtain rows' args where r: "run_mutation cfg ?v (db_rows ?d) (who ?c) ?m = Inr (rows', if 0 < n then Some (?v + 1) else None, args, chm)"
      "mirror ms rows'" "length chm = n"
      using R assms(6) by (auto simp: Inr x)
    show ?thesis
    proof (cases "0 < n")
      case True
      then have "chm \<noteq> []" using r(3) by auto
      then show ?thesis using assms(2,6,10) Inr r w(1-3) lmw F True
        by (auto simp: x test_call_def mutateAs_def pushed_call_def applyMutation_def Let_def assms(7) same_workspace_def lm some
            reported_def hook_changes_def notifyCommitted_def emit_def)
    next
      case False
      then show ?thesis using assms(2,10) Inr r w(1-3) lmw F
        by (auto simp: x test_call_def mutateAs_def pushed_call_def applyMutation_def Let_def assms(7) same_workspace_def lm some
            reported_def hook_changes_def)
    qed
  qed
qed

text \<open>
  C17: The test engine is faithful. From the same rows, version and mutation ids, any series of
  mutations by known clients ends the same way on the in-memory engine and on the workspace
  object, mutation by mutation: the same errors, permanent and transient, the same changes
  reported, and afterwards again the same rows in the same order, version and ids. It holds for
  an app whose schemas parse to JSON documents (\<open>json_schema\<close>), whose mutators never ask SQLite
  about an undefined value (\<open>filters_defined\<close>) and do not depend on the order \<open>list\<close> returns rows
  in (\<open>order_free\<close>); for mutators that do, only over a database that happens to scan a table in
  insertion order (\<open>in_order\<close>), which SQLite does not promise.
\<close>

theorem test_engine_faithful:
  assumes "same_workspace cfg eng st" "list_all (\<lambda>call. known (do_db st) (call_client call)) calls"
    and "in_order (cf_plan cfg) \<or> order_free (cf_app cfg)" "json_schema (app_schema (cf_app cfg))" "filters_defined (cf_app cfg)" "cf_hook cfg"
    and "\<And>c. at_clientId (who c) = c \<and> at_principal (who c) = te_principal eng \<and> at_auth (who c) = te_auth eng"
    and "run_calls_with test_call calls eng = (eng', rs)" "run_calls_with (pushed_call cfg ev who) calls st = (st', es)"
  shows "es = map (map_sum (\<lambda>e. e) tm_error) rs \<and> same_workspace cfg eng' st' \<and>
    hook_changes st' = hook_changes st @ concat (map reported rs)"
  using assms(1,2,7-9)
proof (induction calls arbitrary: eng st rs es)
  case (Cons call calls)
  obtain eng1 r where t: "test_call call eng = (eng1, r)" by fastforce
  obtain rs' where ts: "run_calls_with test_call calls eng1 = (eng', rs')" "rs = r # rs'"
    using Cons.prems(4) by (auto simp: t split: prod.splits)
  obtain st1 where p: "pushed_call cfg ev who call st = (st1, map_sum (\<lambda>e. e) tm_error r)" "same_workspace cfg eng1 st1"
      "hook_changes st1 = hook_changes st @ reported r" "\<And>c. known (do_db st1) c = known (do_db st) c"
      "te_principal eng1 = te_principal eng" "te_auth eng1 = te_auth eng"
    using test_call_mirrors [OF Cons.prems(1) _ assms(3-6) _ _ _ t, of who ev] Cons.prems(2,3) by auto
  obtain es' where ps: "run_calls_with (pushed_call cfg ev who) calls st1 = (st', es')" "es = map_sum (\<lambda>e. e) tm_error r # es'"
    using Cons.prems(5) by (auto simp: p(1) split: prod.splits)
  have "es' = map (map_sum (\<lambda>e. e) tm_error) rs' \<and> same_workspace cfg eng' st' \<and>
      hook_changes st' = hook_changes st1 @ concat (map reported rs')"
    by (rule Cons.IH [OF p(2) _ _ ts(1) ps(1)]) (use Cons.prems(2,3) p(4-6) in auto)
  then show ?case by (simp add: ts ps p(3))
qed auto

definition json_app :: AppDefinition where
  "json_app = demo_app\<lparr>app_schema := [(js ''t'', \<lambda>d. VValue (json_obj d))]\<rparr>"

definition hooked_cfg :: "unit Config" where
  "hooked_cfg = demo_cfg\<lparr>cf_app := json_app, cf_hook := True\<rparr>"

definition demo_engine :: TestEngine where
  "demo_engine = \<lparr>te_app = json_app, te_store = [], te_lmids = [], te_clientId = js ''c'', te_principal = None, te_auth = None,
     te_version = 0\<rparr>"

definition demo_calls :: "TestCall list" where
  "demo_calls = [\<lparr>call_client = js ''c'', call_name = js ''nope'', call_args = JUndef, call_seed = js ''s''\<rparr>,
     \<lparr>call_client = js ''c'', call_name = js ''add'', call_args = JNum (Fin 5), call_seed = js ''s''\<rparr>]"

lemma demo_engine_runs:
  "\<exists>eng' chs. run_calls_with test_call demo_calls demo_engine =
     (eng', [Inr \<lparr>tm_error = Some (js ''UnknownMutator'', js ''no mutator named '' @ quoted (js ''nope'')), tm_changes = []\<rparr>,
             Inr \<lparr>tm_error = None, tm_changes = chs\<rparr>]) \<and> te_version eng' = 1"
proof -
  have n: "prop_get (app_mutators json_app) (js ''nope'') = Absent"
    by (simp add: prop_get_def json_app_def demo_app_def proto_names_def proto_call_ok_def)
  have "id_ok (js ''a'')" "js ''a'' \<noteq> []" "0 \<notin> set (js ''a'')" "1 \<le> MAX_ID_LENGTH"
    by (simp_all add: id_ok_def MAX_ID_LENGTH_def)
  then have r: "\<exists>ms chs. te_run (demo_engine\<lparr>te_lmids := l\<rparr>) (js ''c'') (js ''add'') (JNum (Fin 5)) s = Inr (ms, 1, chs)" for l s
    using demo_size demo_names(1)
    by (simp add: te_run_def demo_engine_def json_app_def demo_app_def prop_get_def parse_args_def
      new_WriteSet_def orThrow_def tx_put_def flush_def Let_def validateRow_def check_size_def rememberBefore_def
      flush_put_def flush_data_def MemoryRowStore_def memory_put_def memory_get_def json_obj_def validateTarget_def
      MAX_ROW_BYTES_def del: js_simps)
  have u: "te_run demo_engine (js ''c'') (js ''nope'') JUndef s = Inl (unknown_mutator (js ''nope''))" for s
    using n by (simp add: te_run_def demo_engine_def Let_def del: js_simps)
  have v: "te_version demo_engine = 0" by (simp add: demo_engine_def)
  from r obtain ms chs where "te_run (demo_engine\<lparr>te_lmids := AList.update (js ''c'') (te_lastMutationId demo_engine (js ''c'') + 1) (te_lmids demo_engine)\<rparr>)
      (js ''c'') (js ''add'') (JNum (Fin 5)) (js ''s'') = Inr (ms, 1, chs)" by blast
  then show ?thesis
    using u by (auto simp: demo_calls_def test_call_def mutateAs_def Let_def unknown_mutator_def v simp del: js_simps)
qed

theorem test_engine_faithful_witness:
  "\<exists>eng' rs st'. run_calls_with (pushed_call hooked_cfg demo_env (\<lambda>c. demo_att\<lparr>at_clientId := c\<rparr>)) demo_calls demo_do =
       (st', [Inr (Some (js ''UnknownMutator'', js ''no mutator named '' @ quoted (js ''nope''))), Inr None]) \<and>
     same_workspace hooked_cfg eng' st' \<and> te_version eng' = 1"
proof -
  have s: "same_workspace hooked_cfg demo_engine demo_do"
    by (auto simp: same_workspace_def hooked_cfg_def demo_engine_def demo_do_def demo_db_def demo_meta_def mirror_def memory_inv_def
        te_lastMutationId_def or_default_def lastMutationId_def)
  have k: "list_all (\<lambda>call. known (do_db demo_do) (call_client call)) demo_calls"
    by (simp add: demo_calls_def known_def demo_do_def demo_db_def)
  have ob: "order_blind (orThrow (\<lambda>_. Done) r)" for r :: "unit res"
    by (simp add: orThrow_def split: sum.split)
  then have o: "in_order (cf_plan hooked_cfg) \<or> order_free (cf_app hooked_cfg)"
    by (simp add: order_free_def hooked_cfg_def json_app_def demo_app_def)
  have j: "json_schema (app_schema (cf_app hooked_cfg))"
    by (auto simp: json_schema_def hooked_cfg_def json_app_def split: if_splits)
  have d: "defined_filters (orThrow (\<lambda>_. Done) r)" for r :: "unit res"
    by (simp add: orThrow_def split: sum.split)
  have f: "filters_defined (cf_app hooked_cfg)"
    using d by (simp add: filters_defined_def hooked_cfg_def json_app_def demo_app_def)
  have h: "cf_hook hooked_cfg" by (simp add: hooked_cfg_def)
  have w: "at_clientId (demo_att\<lparr>at_clientId := c\<rparr>) = c \<and> at_principal (demo_att\<lparr>at_clientId := c\<rparr>) = te_principal demo_engine \<and>
      at_auth (demo_att\<lparr>at_clientId := c\<rparr>) = te_auth demo_engine" for c
    by (simp add: demo_att_def demo_engine_def)
  obtain eng' chs where t: "run_calls_with test_call demo_calls demo_engine =
     (eng', [Inr \<lparr>tm_error = Some (js ''UnknownMutator'', js ''no mutator named '' @ quoted (js ''nope'')), tm_changes = []\<rparr>,
             Inr \<lparr>tm_error = None, tm_changes = chs\<rparr>])" "te_version eng' = 1"
    using demo_engine_runs by blast
  obtain st' es where p: "run_calls_with (pushed_call hooked_cfg demo_env (\<lambda>c. demo_att\<lparr>at_clientId := c\<rparr>)) demo_calls demo_do = (st', es)"
    by fastforce
  from test_engine_faithful [OF s k o j f h w t(1) p] t(2) p show ?thesis by auto
qed

section \<open>checkSchemaEvolution\<close>

text \<open>
  The snapshot file is what \<open>readFileSync\<close> returns: nothing when it throws, else the document
  its text parses to, if it parses. The result is the snapshot returned or the error thrown, and
  what the file holds afterwards.
\<close>

record SchemaSnapshot =
  ss_version :: int
  ss_fingerprint :: jstr

type_synonym snapshot_file = "jval option option"

definition snapshot_comment :: jstr where
  "snapshot_comment = js ''cf-sync schema snapshot (checkSchemaEvolution) '' @ [0x2014] @ js '' commit this file''"

definition serialize_snapshot :: "jstr \<Rightarrow> SchemaSnapshot \<Rightarrow> snapshot_file" where
  "serialize_snapshot comment snap =
     Some (Some (JObj [(js ''__comment'', JStr comment), (js ''version'', JNum (Fin (ss_version snap))),
                       (js ''fingerprint'', JStr (ss_fingerprint snap))]))"

definition parse_snapshot :: "jval option \<Rightarrow> (jnum \<times> jstr) option" where
  "parse_snapshot raw =
     (case raw of
        Some (JObj ob) \<Rightarrow>
          (case (field ob (js ''version''), field ob (js ''fingerprint'')) of
             (JNum v, JStr fp) \<Rightarrow> Some (v, fp) | _ \<Rightarrow> None)
      | _ \<Rightarrow> None)"

text \<open>\<open>a > b\<close> of a stored number and an integer.\<close>

definition num_gt :: "jnum \<Rightarrow> int \<Rightarrow> bool" where
  "num_gt a b = (case a of Fin i \<Rightarrow> b < i | NaN \<Rightarrow> False | Inf neg \<Rightarrow> \<not> neg)"

definition evolution_err :: "string \<Rightarrow> err" where
  "evolution_err s = OtherError (''checkSchemaEvolution: '' @ s)"

definition checkSchemaEvolution ::
  "int \<Rightarrow> (jstr \<times> TableSchema) list \<Rightarrow> snapshot_file \<Rightarrow> SchemaSnapshot res \<times> snapshot_file" where
  "checkSchemaEvolution version tables file =
     (if unfingerprintableTables tables \<noteq> [] then (Inl (evolution_err ''tables cannot be fingerprinted''), file)
      else
        let current = \<lparr>ss_version = version, ss_fingerprint = schemaFingerprint tables\<rparr>;
            written = serialize_snapshot snapshot_comment current
        in case file of
             None \<Rightarrow> (Inr current, written)
           | Some raw \<Rightarrow>
               (case parse_snapshot raw of
                  None \<Rightarrow> (Inl (evolution_err ''not a schema snapshot''), file)
                | Some (v, fp) \<Rightarrow>
                    if v = Fin version then
                      (if fp = ss_fingerprint current then (Inr current, file)
                       else (Inl (evolution_err ''table schemas changed without a version bump''), file))
                    else if num_gt v version then (Inl (evolution_err ''version rollback''), file)
                    else (Inr current, written)))"

text \<open>What the committed file must not say: nothing readable, another fingerprint, a later version.\<close>

definition conflicts :: "int \<Rightarrow> jstr \<Rightarrow> snapshot_file \<Rightarrow> bool" where
  "conflicts version fingerprint file =
     (case file of
        None \<Rightarrow> False
      | Some raw \<Rightarrow>
          (case parse_snapshot raw of
             None \<Rightarrow> True
           | Some (v, fp) \<Rightarrow> v = Fin version \<and> fp \<noteq> fingerprint \<or> num_gt v version))"

text \<open>
  C30: The schema check fails exactly when it should, and settles. Over an app whose tables can all
  be fingerprinted, it throws if and only if the committed file is not a snapshot, or records the
  same version with another fingerprint, or a later version; then the file is left alone.
  Otherwise it returns the app's snapshot; run again on the file it leaves it succeeds without
  touching it, and any change of the fingerprint under the same version then fails.
\<close>

theorem schema_check_settles:
  assumes "unfingerprintableTables tables = []"
    and "checkSchemaEvolution version tables file = (r, file')"
  shows "if conflicts version (schemaFingerprint tables) file then (\<exists>e. r = Inl e) \<and> file' = file
    else r = Inr \<lparr>ss_version = version, ss_fingerprint = schemaFingerprint tables\<rparr> \<and>
      checkSchemaEvolution version tables file' = (r, file') \<and>
      (\<forall>tables'. unfingerprintableTables tables' = [] \<and> schemaFingerprint tables' \<noteq> schemaFingerprint tables \<longrightarrow>
         (\<exists>e. checkSchemaEvolution version tables' file' = (Inl e, file')))"
proof -
  have p: "parse_snapshot (Some (JObj [(js ''__comment'', JStr c), (js ''version'', JNum (Fin v)), (js ''fingerprint'', JStr fp)])) =
      Some (Fin v, fp)" for c v fp
    by (simp add: parse_snapshot_def field_def)
  show ?thesis
    using assms
    by (auto simp: checkSchemaEvolution_def conflicts_def Let_def serialize_snapshot_def p num_gt_def
        split: option.splits prod.splits if_splits simp del: js_simps)
qed

theorem schema_check_settles_witness:
  "\<exists>snap file'. checkSchemaEvolution 2 [(js ''t'', \<lparr>ts_vendor = js ''zod'', ts_emission = Some (JObj [])\<rparr>)] None = (Inr snap, file') \<and>
     (\<exists>e. checkSchemaEvolution 2 [(js ''u'', \<lparr>ts_vendor = js ''zod'', ts_emission = Some (JObj [])\<rparr>)] file' = (Inl e, file'))"
proof -
  let ?t = "\<lambda>n. [(n, \<lparr>ts_vendor = js ''zod'', ts_emission = Some (JObj [])\<rparr>)]"
  have u: "unfingerprintableTables (?t n) = []" for n
    by (simp add: unfingerprintableTables_def tableShape_def)
  have d: "schemaFingerprint (?t (js ''u'')) \<noteq> schemaFingerprint (?t (js ''t''))"
    by (simp add: schemaFingerprint_def table_shapes_def tableShape_def colon_def json_quote_def high_surrogate_def low_surrogate_def
        escape_unit_def fnv1a_def fnv_step_def to_hex.simps padStart_def hex_digit_def)
  obtain r file' where c: "checkSchemaEvolution 2 (?t (js ''t'')) None = (r, file')" by fastforce
  have "\<not> conflicts 2 (schemaFingerprint (?t (js ''t''))) None" by (simp add: conflicts_def)
  with schema_check_settles [OF u c] u d c show ?thesis by auto
qed

end
