(* ===== verification/Wire.thy ===== *)
theory Wire
  imports Frames
begin

text \<open>
  Messages on the wire: what a side sends is the JSON text of a message's object, and what the
  other side reads is the value that text parses to, through the message schemas of
  protocol/src/messages.ts. The locale \<open>wire_codec\<close> is the contract between an encoder and the
  schema that reads it - which messages pass and what arrives - and every schema is an
  interpretation of it, the composite ones resting on those of their parts.
\<close>

section \<open>The contract\<close>

locale wire_codec =
  fixes enc :: "'a \<Rightarrow> jval" and dec :: "jval \<Rightarrow> 'a option" and passes :: "'a \<Rightarrow> bool" and arrives :: "'a \<Rightarrow> 'a"
  assumes exact: "dec (json_value (enc x)) = (if passes x then Some (arrives x) else None)"
    and no_null: "enc x \<noteq> JNull"
    and no_undefined: "enc x \<noteq> JUndef"
    and scalar: "json_value (enc x) \<noteq> JNull"
begin

lemma those_wire:
  "those (map (\<lambda>x. dec (json_value (enc x))) xs) = (if list_all passes xs then Some (map arrives xs) else None)"
  by (induction xs) (simp_all add: exact)

lemma array: "z_array dec (JArr (map (json_value \<circ> enc) xs)) = (if list_all passes xs then Some (map arrives xs) else None)"
  using those_wire [of xs] by (simp add: z_array_def comp_def)

lemma nullable:
  "z_nullable dec (json_value (case x of None \<Rightarrow> JNull | Some c \<Rightarrow> enc c)) =
     (if pred_option passes x then Some (map_option arrives x) else None)"
  by (cases x) (simp_all add: z_nullable_def exact scalar)

lemma optional:
  "z_optional dec (case x of None \<Rightarrow> JUndef | Some c \<Rightarrow> json_value (enc c)) =
     (if pred_option passes x then Some (map_option arrives x) else None)"
  by (cases x) (simp_all add: z_optional_def exact)

lemma read_apart: "passes x \<Longrightarrow> passes y \<Longrightarrow> json_value (enc x) = json_value (enc y) \<Longrightarrow> arrives x = arrives y"
  using exact [of x] exact [of y] by simp

end

section \<open>Fields on the wire\<close>

text \<open>The property of an object literal after a trip: \<open>undefined\<close> stays absent.\<close>

definition wire_value :: "jval \<Rightarrow> jval" where
  "wire_value v = (if v = JUndef then JUndef else json_value v)"

lemma wire_value_simps [simp]:
  "wire_value JUndef = JUndef" "v \<noteq> JUndef \<Longrightarrow> wire_value v = json_value v"
  by (simp_all add: wire_value_def)

lemma field_wire:
  assumes "distinct (map fst kvs)"
  shows "field (json_obj kvs) k = wire_value (field kvs k)"
  using assms
proof (induction kvs)
  case (Cons x kvs)
  obtain k' v where x: "x = (k', v)" by (cases x)
  have absent: "field (json_obj kvs) k' = JUndef" if "k' \<notin> fst ` set kvs"
    using that by (induction kvs) (auto simp: field_def json_obj_def)
  have "json_obj (x # kvs) = (if v = JUndef then [] else [(k', json_value v)]) @ json_obj kvs"
    by (simp add: x json_obj_def)
  then show ?case using Cons absent by (cases "k = k'") (simp_all add: x field_def wire_value_def)
qed (simp add: field_def json_obj_def)

lemma field_simps [simp]:
  "field [] k = JUndef" "field ((k, v) # kvs) k = v" "k \<noteq> k' \<Longrightarrow> field ((k', v) # kvs) k = field kvs k"
  by (simp_all add: field_def)

lemma z_object_wire: "z_object f (JObj ob) = f ob"
  by (simp add: z_object_def)

lemma z_scalars:
  "z_int ok (JNum (Fin i)) = (if \<bar>i\<bar> \<le> max_safe \<and> ok i then Some i else None)"
  "z_string (JStr s) = Some s"
  "z_string_in f (JStr s) = (if f (length s) then Some s else None)"
  by (simp_all add: z_int_def z_string_def z_string_in_def)

lemmas wire_simps = z_object_wire json_value_JObj field_wire z_scalars

section \<open>Parts of messages\<close>

definition cursor_passes :: "Cursor \<Rightarrow> bool" where
  "cursor_passes c \<longleftrightarrow> backendId c \<noteq> [] \<and> 0 \<le> cversion c \<and> cversion c \<le> max_safe"

interpretation cursor: wire_codec enc_cursor dec_cursor cursor_passes id
proof unfold_locales
  show "dec_cursor (json_value (enc_cursor c)) = (if cursor_passes c then Some (id c) else None)" for c
    unfolding dec_cursor_def enc_cursor_def by (auto simp: wire_simps cursor_passes_def Suc_le_eq simp del: json_value.simps(7))
qed (simp_all add: enc_cursor_def)

definition mutation_passes :: "Mutation \<Rightarrow> bool" where
  "mutation_passes m \<longleftrightarrow> 0 < mut_id m \<and> mut_id m \<le> max_safe \<and> mut_name m \<noteq> [] \<and> mut_seed m \<noteq> [] \<and> length (mut_seed m) \<le> 128"

definition mutation_arrives :: "Mutation \<Rightarrow> Mutation" where
  "mutation_arrives m = m\<lparr>mut_args := wire_value (mut_args m)\<rparr>"

interpretation mutation: wire_codec enc_mutation dec_mutation mutation_passes mutation_arrives
proof unfold_locales
  show "dec_mutation (json_value (enc_mutation m)) = (if mutation_passes m then Some (mutation_arrives m) else None)" for m
    unfolding dec_mutation_def enc_mutation_def
    by (auto simp: wire_simps mutation_passes_def mutation_arrives_def Suc_le_eq simp del: json_value.simps(7))
qed (simp_all add: enc_mutation_def)

fun op_passes :: "PatchOp \<Rightarrow> bool" where
  "op_passes (PutOp t i row) = (t \<noteq> [] \<and> i \<noteq> [])"
| "op_passes (DelOp t i) = (t \<noteq> [] \<and> i \<noteq> [])"
| "op_passes ClearOp = True"

fun op_arrives :: "PatchOp \<Rightarrow> PatchOp" where
  "op_arrives (PutOp t i row) = PutOp t i (json_obj row)"
| "op_arrives wop = wop"

interpretation patch_op: wire_codec enc_patch_op dec_patch_op op_passes op_arrives
proof unfold_locales
  show "dec_patch_op (json_value (enc_patch_op x)) = (if op_passes x then Some (op_arrives x) else None)" for x
    unfolding dec_patch_op_def
    by (cases x) (auto simp: wire_simps Let_def Suc_le_eq simp del: json_value.simps(7))
  show "enc_patch_op x \<noteq> JNull" "enc_patch_op x \<noteq> JUndef" "json_value (enc_patch_op x) \<noteq> JNull" for x
    by (cases x; simp)+
qed

definition result_passes :: "MutationResult \<Rightarrow> bool" where
  "result_passes r \<longleftrightarrow> 0 < res_id r \<and> res_id r \<le> max_safe"

interpretation result: wire_codec enc_result dec_result result_passes id
proof unfold_locales
  show "dec_result (json_value (enc_result r)) = (if result_passes r then Some (id r) else None)" for r
    unfolding dec_result_def enc_result_def dec_error_pair_def
    by (cases "res_error r") (auto simp: wire_simps result_passes_def z_optional_def simp del: json_value.simps(7))
qed (simp_all add: enc_result_def)

fun page_passes :: "PageInfo \<Rightarrow> bool" where
  "page_passes NoMore = True"
| "page_passes (More n) = (0 \<le> n \<and> n \<le> max_safe)"

interpretation page: wire_codec enc_page_info dec_page_info page_passes id
proof unfold_locales
  show "dec_page_info (json_value (enc_page_info x)) = (if page_passes x then Some (id x) else None)" for x
    unfolding dec_page_info_def by (cases x) (auto simp: wire_simps simp del: json_value.simps(7))
  show "enc_page_info x \<noteq> JNull" "enc_page_info x \<noteq> JUndef" "json_value (enc_page_info x) \<noteq> JNull" for x
    by (cases x; simp)+
qed

definition peer_passes :: "Peer \<Rightarrow> bool" where
  "peer_passes p \<longleftrightarrow> peer_client p \<noteq> []"

definition peer_arrives :: "Peer \<Rightarrow> Peer" where
  "peer_arrives p = p\<lparr>peer_state := wire_value (peer_state p)\<rparr>"

interpretation peer: wire_codec "\<lambda>p. JObj (peer_fields p)" dec_peer peer_passes peer_arrives
proof unfold_locales
  show "dec_peer (json_value (JObj (peer_fields p))) = (if peer_passes p then Some (peer_arrives p) else None)" for p
    unfolding dec_peer_def peer_fields_def
    by (cases "peer_principal p") (auto simp: wire_simps peer_passes_def peer_arrives_def z_optional_def Suc_le_eq simp del: json_value.simps(7))
qed simp_all

section \<open>Client messages\<close>

fun client_passes :: "ClientMsg \<Rightarrow> bool" where
  "client_passes (HelloMsg p s c) = (\<bar>p\<bar> \<le> max_safe \<and> 0 < s \<and> s \<le> max_safe \<and> pred_option cursor_passes c)"
| "client_passes (PushMsg ms) = (ms \<noteq> [] \<and> list_all mutation_passes ms)"
| "client_passes (PresenceMsg st) = True"

fun client_arrives :: "ClientMsg \<Rightarrow> ClientMsg" where
  "client_arrives (HelloMsg p s c) = HelloMsg p s c"
| "client_arrives (PushMsg ms) = PushMsg (map mutation_arrives ms)"
| "client_arrives (PresenceMsg st) = PresenceMsg (wire_value st)"

lemma cursor_wire: "z_nullable dec_cursor (wire_value (enc_cursor_opt c)) = (if pred_option cursor_passes c then Some c else None)"
  using cursor.nullable [of c] by (cases c) (simp_all add: enc_cursor_opt_def cursor.no_undefined option.map_id0)

interpretation client_msg: wire_codec enc_client_msg dec_client_msg client_passes client_arrives
proof unfold_locales
  show "dec_client_msg (json_value (enc_client_msg m)) = (if client_passes m then Some (client_arrives m) else None)" for m
  proof (cases m)
    case (HelloMsg p s c)
    then show ?thesis unfolding dec_client_msg_def
      by (auto simp: wire_simps Let_def cursor_wire simp del: json_value.simps(7))
  next
    case (PushMsg ms)
    then show ?thesis unfolding dec_client_msg_def
      by (auto simp: wire_simps Let_def mutation.array simp del: json_value.simps(7))
  next
    case (PresenceMsg st)
    then show ?thesis unfolding dec_client_msg_def
      by (auto simp: wire_simps Let_def simp del: json_value.simps(7))
  qed
  show "enc_client_msg x \<noteq> JNull" "enc_client_msg x \<noteq> JUndef" "json_value (enc_client_msg x) \<noteq> JNull" for x
    by (cases x; simp)+
qed

section \<open>Server messages\<close>

definition lmid_passes :: "int \<Rightarrow> bool" where
  "lmid_passes i \<longleftrightarrow> 0 \<le> i \<and> i \<le> max_safe"

fun server_passes :: "ServerMsg \<Rightarrow> bool" where
  "server_passes (PokeStart p c) = (p \<noteq> [] \<and> pred_option cursor_passes c)"
| "server_passes (PokePart p ops r l rs) =
     (p \<noteq> [] \<and> list_all op_passes ops \<and> pred_option lmid_passes r \<and>
      pred_option (list_all (lmid_passes \<circ> snd)) l \<and> pred_option (list_all result_passes) rs)"
| "server_passes (PokeEnd p c i) = (p \<noteq> [] \<and> cursor_passes c \<and> page_passes i)"
| "server_passes (PresenceUpdate q) = peer_passes q"
| "server_passes (PresencePeers qs) = list_all peer_passes qs"
| "server_passes PresencePoll = True"
| "server_passes (ErrorMsg c m) = True"

fun server_arrives :: "ServerMsg \<Rightarrow> ServerMsg" where
  "server_arrives (PokePart p ops r l rs) = PokePart p (map op_arrives ops) r l rs"
| "server_arrives (PresenceUpdate q) = PresenceUpdate (peer_arrives q)"
| "server_arrives (PresencePeers qs) = PresencePeers (map peer_arrives qs)"
| "server_arrives m = m"

lemma lmids_wire:
  "z_optional (z_record (z_int ((\<le>) 0))) (json_value (enc_lmids l)) =
     (if list_all (lmid_passes \<circ> snd) l then Some (Some l) else None)"
proof -
  have "z_record (z_int ((\<le>) 0)) (JObj (json_obj (map (\<lambda>(k, i). (k, JNum (Fin i))) l))) =
      (if list_all (lmid_passes \<circ> snd) l then Some l else None)"
  proof (induction l)
    case (Cons x l)
    obtain k i where x: "x = (k, i)" by (cases x)
    have "json_obj (map (\<lambda>(k, i). (k, JNum (Fin i))) (x # l)) = (k, JNum (Fin i)) # json_obj (map (\<lambda>(k, i). (k, JNum (Fin i))) l)"
      by (simp add: x json_obj_def)
    with Cons show ?case by (auto simp: x z_record_def z_scalars lmid_passes_def split: if_splits)
  qed (simp add: z_record_def json_obj_def)
  then show ?thesis by (simp add: enc_lmids_def json_value_JObj z_optional_def del: json_value.simps(7))
qed

lemma lmid_wire: "z_optional (z_int ((\<le>) 0)) (JNum (Fin i)) = (if lmid_passes i then Some (Some i) else None)"
  by (auto simp: z_optional_def z_scalars lmid_passes_def)

lemma results_wire:
  "z_optional (z_array dec_result) (JArr (map (json_value \<circ> enc_result) rs)) = (if list_all result_passes rs then Some (Some rs) else None)"
  by (simp add: z_optional_def result.array)

lemma code_wire: "dec_code (JStr (code_text c)) = Some c"
  by (cases c) (simp_all add: dec_code_def)

lemma absent_wire: "z_optional d JUndef = Some None"
  by (simp add: z_optional_def)

lemmas message_simps = wire_simps cursor_wire lmid_wire results_wire code_wire absent_wire patch_op.array peer.array cursor.exact page.exact
  cursor.no_undefined page.no_undefined

lemma peer_field: "k \<noteq> js ''type'' \<Longrightarrow> field ((js ''type'', t) # kvs) k = field kvs k"
  by simp

interpretation server_msg: wire_codec enc_server_msg dec_server_msg server_passes server_arrives
proof unfold_locales
  show "dec_server_msg (json_value (enc_server_msg m)) = (if server_passes m then Some (server_arrives m) else None)" for m
  proof (cases m)
    case (PokeStart p c)
    then show ?thesis unfolding dec_server_msg_def
      by (auto simp: message_simps Let_def Suc_le_eq simp del: json_value.simps(7))
  next
    case (PokePart p ops r l rs)
    have u: "enc_lmids l \<noteq> JUndef" for l by (simp add: enc_lmids_def)
    show ?thesis unfolding dec_server_msg_def PokePart
      by (cases r; cases l; cases rs)
        (auto simp: message_simps lmids_wire u Let_def opt_field_def Suc_le_eq simp del: json_value.simps(7))
  next
    case (PokeEnd p c i)
    then show ?thesis unfolding dec_server_msg_def
      by (auto simp: message_simps Let_def Suc_le_eq simp del: json_value.simps(7))
  next
    case (PresenceUpdate q)
    then show ?thesis unfolding dec_server_msg_def dec_peer_def
      by (cases "peer_principal q")
        (auto simp: message_simps Let_def peer_fields_def peer_passes_def peer_arrives_def z_optional_def Suc_le_eq simp del: json_value.simps(7))
  next
    case (PresencePeers qs)
    have a: "z_array dec_peer (JArr (map (json_value \<circ> (\<lambda>q. JObj (peer_fields q))) qs)) =
        (if list_all peer_passes qs then Some (map peer_arrives qs) else None)"
      by (rule peer.array)
    show ?thesis unfolding dec_server_msg_def PresencePeers
      using a by (simp add: wire_simps Let_def comp_def del: json_value.simps(7))
  next
    case PresencePoll
    then show ?thesis unfolding dec_server_msg_def
      by (auto simp: message_simps Let_def simp del: json_value.simps(7))
  next
    case (ErrorMsg c msg)
    then show ?thesis unfolding dec_server_msg_def
      by (cases msg) (auto simp: message_simps z_optional_def opt_field_def Let_def simp del: json_value.simps(7))
  qed
  show "enc_server_msg x \<noteq> JNull" "enc_server_msg x \<noteq> JUndef" "json_value (enc_server_msg x) \<noteq> JNull" for x
    by (cases x; simp)+
qed

end
