(* ===== verification/Typing.thy ===== *)
theory Typing
  imports Histories
begin

text \<open>
  Typing of the stored rows: every row has an addressable key, and every live row is the JSON
  document of a value that its table's schema gave back, within the size limit. Every event of
  the workspace object keeps the table typed.
\<close>

section \<open>Every event\<close>

definition typed_step :: "'x Config \<Rightarrow> 'x WorkspaceDO \<Rightarrow> 'x WorkspaceDO \<Rightarrow> bool" where
  "typed_step cfg st st' \<longleftrightarrow>
     (typed_rows (app_schema (cf_app cfg)) (db_rows (do_db st)) \<longrightarrow> typed_rows (app_schema (cf_app cfg)) (db_rows (do_db st')))"

lemma typed_same: "db_rows (do_db st') = db_rows (do_db st) \<Longrightarrow> typed_step cfg st st'"
  by (simp add: typed_step_def)

lemma typed_apply:
  assumes "applyMutation cfg ev a m st = Inr (st', err)"
  shows "typed_step cfg st st'"
  unfolding typed_step_def
proof
  let ?sch = "app_schema (cf_app cfg)" and ?v = "m_currentVersion (do_meta st)"
  assume t: "typed_rows ?sch (db_rows (do_db st))"
  have run: "typed_rows ?sch rows" if R: "run_mutation cfg ?v (db_rows (do_db st)) a m = Inr (rows, wrote, args, ch)" for rows wrote args ch
  proof (cases "prop_get (app_mutators (cf_app cfg)) (mut_name m)")
    case (Own d)
    let ?ops = "SqlRowStore (cf_plan cfg)" and ?rows = "db_rows (do_db st)"
    obtain r where p: "parse_args (mut_name m) d (mut_args m) = Inr r"
      using R by (auto simp: run_mutation_def Own bind_res_Inr_iff)
    obtain ws thrown where w: "run_prog ?ops ?sch ?rows (def_apply d r (mutation_ctx a m)) (new_WriteSet False (cf_hook cfg)) = (ws, thrown)"
      by fastforce
    have none: "thrown = None"
      using R by (cases thrown) (simp_all add: run_mutation_def Own p w)
    obtain n where f: "flush ?ops ?sch ?rows ws (?v + 1) = Inr (rows, n, ch)"
      using R by (auto simp: run_mutation_def Own p w none bind_res_Inr_iff)
    have "guarded_buffer ?sch ws" using guarded_run [OF guarded_new, of ?sch ?ops ?rows _ False "cf_hook cfg"] w by (metis fst_conv)
    from sql_typed.flushed [OF t this f] show ?thesis .
  qed (use R t in \<open>auto simp: run_mutation_def split: if_splits\<close>)
  show "typed_rows ?sch (db_rows (do_db st'))"
  proof (cases "run_mutation cfg ?v (db_rows (do_db st)) a m")
    case (Inl e)
    then show ?thesis using assms t by (cases e) (auto simp: applyMutation_def Let_def commit_data(1))
  next
    case (Inr x)
    obtain rows wrote args ch where x: "x = (rows, wrote, args, ch)" by (cases x)
    show ?thesis using assms run [OF Inr [unfolded x]]
      by (cases wrote) (auto simp: applyMutation_def Let_def Inr x commit_data(1) notifyCommitted_def)
  qed
qed

lemma typed_check:
  assumes "check_rows sch rows = Inr rs" "r \<in> set rs"
  shows "TABLE_NAME_RE (sn_tbl r) \<and> schema_value sch (sn_tbl r) (sn_data r) \<and> (\<exists>r' \<in> set rows. sn_id r = sn_id r')"
  using assms
proof (induction rows arbitrary: rs)
  case (Cons x xs)
  obtain x' xs' where x: "check_row sch x = Inr x'" "check_rows sch xs = Inr xs'" "rs = x' # xs'"
    using Cons.prems(1) by (auto split: sum.splits)
  have "TABLE_NAME_RE (sn_tbl x') \<and> schema_value sch (sn_tbl x') (sn_data x') \<and> sn_id x' = sn_id x"
    using x(1) by (fastforce simp: check_row_def schema_value_def split: sum.splits if_splits err.splits)
  then show ?case using Cons.IH [OF x(2)] Cons.prems(2) by (auto simp: x(3))
qed simp

lemma typed_import:
  assumes "import_tx cfg v rs x st = Inr (d, xs)" "check_rows (app_schema (cf_app cfg)) rows = Inr rs" "named_snapshot rows"
  shows "typed_rows (app_schema (cf_app cfg)) (db_rows d)"
proof -
  let ?sch = "app_schema (cf_app cfg)"
  have "typed_rows ?sch acc'" if "fold_res (sql_insert v) ys acc = Inr acc'" "typed_rows ?sch acc" "set ys \<subseteq> set rs" for ys acc acc'
    using that
  proof (induction ys arbitrary: acc)
    case (Cons y ys)
    obtain acc1 where a: "sql_insert v y acc = Inr acc1" "fold_res (sql_insert v) ys acc1 = Inr acc'"
      using Cons.prems(1) by (auto simp: bind_res_Inr_iff)
    have "TABLE_NAME_RE (sn_tbl y) \<and> schema_value ?sch (sn_tbl y) (sn_data y) \<and> sn_id y \<noteq> []"
      using Cons.prems(3) typed_check [OF assms(2), of y] assms(3) by (auto simp: named_snapshot_def)
    then have "typed_rows ?sch acc1" using a(1) Cons.prems(2) by (auto simp: sql_insert_def typed_rows_def typed_row_def split: if_splits)
    with Cons a(2) show ?case by simp
  qed simp
  then show ?thesis using assms(1) by (auto simp: import_tx_def bind_res_Inr_iff typed_rows_def)
qed

interpretation typed: event_steps cfg "typed_step cfg" for cfg
proof unfold_locales
  show "typed_step cfg a b \<Longrightarrow> typed_step cfg b c \<Longrightarrow> typed_step cfg a c" for a b c by (simp add: typed_step_def)
  show "typed_step cfg st st'" if "applyMutation cfg ev ha m st = Inr (st', err)"
      "known (do_db st) (at_clientId ha) \<longrightarrow> mut_id m = lastMutationId (do_db st) (at_clientId ha) + 1" for ev ha m st st' err
    by (rule typed_apply) (rule that(1))
  show "typed_step cfg st (compact cfg st)" for st
    by (auto simp: typed_step_def compact_def Let_def stamp_meta_def typed_rows_def drop_tombstones_def list_all_iff)
  show "typed_step cfg st (snd (bootstrapPatch cfg st))" for st
    by (rule typed_same) (auto simp: bootstrapPatch_def Let_def split: option.splits sum.splits)
qed (auto simp: typed_step_def stamp_meta_def touchClient_def touch_row_def Let_def typed_import)

text \<open>
  C31: Stored rows keep their type. Whatever events a workspace object handles under a
  configuration - messages of any client, requests, imports and resets, alarms, closes - if every
  row is under a valid table name and a non-empty id and every live row is the JSON document of a
  value its table's schema returned, of at most the size limit, then so they are afterwards: no
  path to the table bypasses the schema.
\<close>

theorem rows_stay_typed:
  assumes "typed_rows (app_schema (cf_app cfg)) (db_rows (do_db st))"
  shows "typed_rows (app_schema (cf_app cfg)) (db_rows (do_db (fold (\<lambda>(ev, e). handle cfg ev e) events st)))"
  using assms
proof (induction events arbitrary: st)
  case (Cons x events)
  obtain ev e where x: "x = (ev, e)" by (cases x)
  have "typed_rows (app_schema (cf_app cfg)) (db_rows (do_db (handle cfg ev e st)))"
    using typed.ev_handle [of cfg st ev e] Cons.prems by (auto simp: typed_step_def renewed_def typed_rows_def)
  from Cons.IH [OF this] show ?case by (simp add: x)
qed simp

theorem rows_stay_typed_witness:
  "typed_rows demo_schema (db_rows (do_db (fold (\<lambda>(ev, e). handle demo_cfg ev e) [(demo_env, Message 1 (TextFrame (Some (enc_client_msg (PushMsg [demo_mutation])))))] demo_do)))"
proof -
  have "app_schema (cf_app demo_cfg) = demo_schema" by (simp add: demo_cfg_def demo_app_def)
  moreover have "typed_rows demo_schema (db_rows (do_db demo_do))" by (simp add: demo_do_def demo_db_def typed_rows_def)
  ultimately show ?thesis
    using rows_stay_typed [of demo_cfg demo_do "[(demo_env, Message 1 (TextFrame (Some (enc_client_msg (PushMsg [demo_mutation])))))]"] by metis
qed

end
