(* ===== verification/Delivery.thy ===== *)
theory Delivery
  imports Wire RoundTrip Typing
begin

text \<open>
  From the object's socket to the client's handler: the frames of a poke are JSON texts, which the
  client parses and reads through the message schemas. Every poke of a typed table is read back
  message by message, so what \<open>ClientSpec\<close> and \<open>RoundTrip\<close> say of messages holds of the frames.
\<close>

lemma row_op_passes:
  assumes "typed_row sch row" "json_obj (row_data row) = row_data row"
  shows "op_passes (row_op row) \<and> op_arrives (row_op row) = row_op row"
proof -
  have "row_tbl row \<noteq> []" using assms(1) by (auto simp: typed_row_def TABLE_NAME_RE_def)
  then show ?thesis using assms by (simp add: row_op_def typed_row_def)
qed

lemma patch_passes:
  assumes "typed_rows sch rows" "sql_inv rows" "ops = since_ops rows v \<or> ops = snapshot_ops rows"
  shows "\<forall>wop \<in> set ops. op_passes wop \<and> op_arrives wop = wop"
proof -
  have "\<forall>row \<in> set rows. op_passes (row_op row) \<and> op_arrives (row_op row) = row_op row"
    using assms(1,2) row_op_passes by (auto simp: typed_rows_def sql_inv_def list_all_iff)
  then show ?thesis using assms(3) by (auto simp: since_ops_def snapshot_ops_def live_rows_def)
qed

lemma part_msgs_pass:
  assumes "pid \<noteq> []" "\<forall>wop \<in> set (concat gs). op_passes wop \<and> op_arrives wop = wop" "int left \<le> max_safe"
    and "pred_option (list_all (lmid_passes \<circ> snd)) l" "list_all result_passes rs"
  shows "\<forall>m \<in> set (part_msgs pid l rs left gs). server_passes m \<and> server_arrives m = m"
  using assms
proof (induction gs arbitrary: left l rs)
  case (Cons g gs)
  have "map op_arrives g = g" using Cons.prems(2) by (simp add: map_idI)
  moreover have "lmid_passes (int (left - length g))" using Cons.prems(3) by (simp add: lmid_passes_def)
  moreover have "\<forall>m \<in> set (part_msgs pid None [] (left - length g) gs). server_passes m \<and> server_arrives m = m"
    by (rule Cons.IH) (use Cons.prems in auto)
  moreover have "list_all op_passes g" using Cons.prems(2) by (simp add: list_all_iff)
  ultimately show ?case using Cons.prems(1,4,5) by (simp add: comp_def)
qed simp

text \<open>What the client makes of a text frame.\<close>

definition receive_frame :: "SyncClientOptions \<Rightarrow> ClientEnv \<Rightarrow> ServerMsg \<Rightarrow> Client \<Rightarrow> Client" where
  "receive_frame cfg ev m = onMessage cfg ev (Some (json_value (enc_server_msg m)))"

lemma receive_passed: "server_passes m \<Longrightarrow> receive_frame cfg ev m = onServerMsg cfg ev (server_arrives m)"
  by (simp add: receive_frame_def onMessage_def server_msg.exact fun_eq_iff)

text \<open>
  C3: Every poke is read as it was meant. Take an object whose invariant holds and whose rows are
  typed, and a patch of it - the operations since some version, or the snapshot: the frames
  \<open>sendPoke\<close> delivers are the JSON texts of a poke's messages over exactly those operations, and a
  client that parses them and reads them through its message schemas handles exactly these
  messages, none dropped and none changed.
\<close>

theorem pokes_are_readable:
  assumes "do_inv x cfg st" "typed_rows sch (db_rows (do_db st))" "cf_jsonQuote cfg = json_quote" "ss \<noteq> []"
    and "ops = since_ops (db_rows (do_db st)) v \<or> ops = snapshot_ops (db_rows (do_db st))" "pack_ops cfg ops = Inr p"
    and "int (length ops) \<le> max_safe" "cursor_passes (current_cursor st)" "ev_uuid ev \<noteq> []" "pred_option cursor_passes base"
    and "pred_option (list_all (lmid_passes \<circ> snd)) l" "list_all result_passes rs"
  shows "\<exists>groups msgs st'. concat groups = ops \<and> msgs = poke_msgs (ev_uuid ev) base groups l rs (current_cursor st) \<and>
    sendPoke cfg ev ss base p l rs st = deliver_all cfg ev ss (map FText (map (json_text \<circ> enc_server_msg) msgs)) st' \<and>
    (\<forall>m \<in> set msgs. dec_server_msg (json_value (enc_server_msg m)) = Some m) \<and>
    fold (receive_frame ccfg cev) msgs cl = fold (onServerMsg ccfg cev) msgs cl"
proof -
  have "packPatch (map (op_json json_quote) ops) MAX_PART_PATCH_BYTES = Inr p"
    using assms(6,3) by (simp add: pack_ops_def split: sum.splits)
  from pokeFrames_msgs [OF this, of "ev_uuid ev" base l rs "current_cursor st"] obtain groups where g: "concat groups = ops"
    "pokeFrames \<lparr>poke_id = ev_uuid ev, poke_base = base, poke_patch = p, poke_lmids = l, poke_results = rs, poke_cursor = current_cursor st\<rparr>
      = map (\<lambda>m. json_text (enc_server_msg m)) (poke_msgs (ev_uuid ev) base groups l rs (current_cursor st))"
    by blast
  let ?msgs = "poke_msgs (ev_uuid ev) base groups l rs (current_cursor st)"
  have "sql_inv (db_rows (do_db st))" using do_invD(2) [OF assms(1)] by (simp add: rows_ok_def)
  from patch_passes [OF assms(2) this assms(5)]
  have "\<forall>m \<in> set (part_msgs (ev_uuid ev) l rs (length (concat groups)) groups). server_passes m \<and> server_arrives m = m"
    using part_msgs_pass [of "ev_uuid ev" groups "length (concat groups)" l rs] assms(7,9,11,12) by (simp add: g(1))
  then have P: "\<forall>m \<in> set ?msgs. server_passes m \<and> server_arrives m = m"
    using assms(8-10) by (simp add: poke_msgs_def)
  then have "\<forall>m \<in> set ?msgs. dec_server_msg (json_value (enc_server_msg m)) = Some m" by (simp add: server_msg.exact)
  moreover have "fold (receive_frame ccfg cev) ?msgs cl = fold (onServerMsg ccfg cev) ?msgs cl"
    by (rule fold_cong) (use P in \<open>simp_all add: receive_passed\<close>)
  moreover have "sendPoke cfg ev ss base p l rs st = deliver_all cfg ev ss (map FText (map (json_text \<circ> enc_server_msg) ?msgs))
      (count (\<lambda>c. c\<lparr>ct_pokesSent := ct_pokesSent c + 1, ct_lastFanout := length ss\<rparr>) st)"
    using assms(4) g(2) by (simp add: sendPoke_def Let_def comp_def)
  ultimately show ?thesis using g(1) by blast
qed

text \<open>
  C9: The wire carries messages exactly. A message of either side, sent as the JSON text of its
  object and parsed by the other, passes the schema exactly when its ids, versions and counts
  are in range and its names are not empty, and then arrives as itself, with application values
  (arguments, rows, presence states) as JSON carries them.
\<close>

theorem messages_on_the_wire:
  "dec_client_msg (json_value (enc_client_msg c)) = (if client_passes c then Some (client_arrives c) else None) \<and>
   dec_server_msg (json_value (enc_server_msg m)) = (if server_passes m then Some (server_arrives m) else None)"
  by (rule conjI [OF client_msg.exact server_msg.exact])

theorem pokes_are_readable_witness:
  "\<exists>groups msgs. concat groups = [ClearOp] \<and> msgs = poke_msgs (ev_uuid demo_env) None groups None [] (current_cursor demo_do) \<and>
    fold (receive_frame (demo_options True) demo_client_env) msgs new_client = fold (onServerMsg (demo_options True) demo_client_env) msgs new_client"
proof -
  have t: "typed_rows demo_schema (db_rows (do_db demo_do))" by (simp add: demo_do_def demo_db_def typed_rows_def)
  have q: "cf_jsonQuote trip_cfg = json_quote" by (simp add: trip_cfg_def)
  have o: "[ClearOp] = snapshot_ops (db_rows (do_db demo_do))" by (simp add: snapshot_ops_def live_rows_def demo_do_def demo_db_def)
  have s: "1 \<le> max_safe" by (simp add: max_safe_def)
  have c: "cursor_passes (current_cursor demo_do)"
    by (simp add: cursor_passes_def current_cursor_def demo_do_def demo_meta_def max_safe_def)
  have u: "ev_uuid demo_env \<noteq> []" by (simp add: demo_env_def)
  have "utf8ByteLength CLEAR_OP < 100" by code_simp
  then obtain p where p: "pack_ops trip_cfg [ClearOp] = Inr p"
    by (auto simp: pack_ops_def packPatch_def MAX_PART_PATCH_BYTES_def Let_def split: sum.split)
  have "\<exists>groups msgs st'. concat groups = [ClearOp] \<and> msgs = poke_msgs (ev_uuid demo_env) None groups None [] (current_cursor demo_do) \<and>
    sendPoke trip_cfg demo_env [1] None p None [] demo_do = deliver_all trip_cfg demo_env [1] (map FText (map (json_text \<circ> enc_server_msg) msgs)) st' \<and>
    (\<forall>m \<in> set msgs. dec_server_msg (json_value (enc_server_msg m)) = Some m) \<and>
    fold (receive_frame (demo_options True) demo_client_env) msgs new_client = fold (onServerMsg (demo_options True) demo_client_env) msgs new_client"
    by (rule pokes_are_readable [OF trip_inv t q _ disjI2 [OF o] p _ c u]) (use s in simp_all)
  then show ?thesis by blast
qed

end
