(* ===== verification/Redelivery.thy ===== *)
theory Redelivery
  imports Histories
begin

text \<open>
  What the object remembers of a client: its row of \<open>clients\<close>, hence its LMID, survives every
  event but an admin reset and every wake, and the LMID never goes down. So a push that was
  acknowledged is harmless whenever it comes again.
\<close>

section \<open>The memory of a client\<close>

definition remembers :: "'x WorkspaceDO \<Rightarrow> 'x WorkspaceDO \<Rightarrow> bool" where
  "remembers st st' \<longleftrightarrow> (\<forall>c. known (do_db st) c \<longrightarrow> known (do_db st') c \<and> lastMutationId (do_db st) c \<le> lastMutationId (do_db st') c)"

lemma remembers_trans: "remembers a b \<Longrightarrow> remembers b c \<Longrightarrow> remembers a c"
  unfolding remembers_def by (meson order_trans)

lemma remembers_clients: "db_clients (do_db st') = db_clients (do_db st) \<Longrightarrow> remembers st st'"
  by (simp add: remembers_def known_def lastMutationId_def)

interpretation memory: event_steps cfg remembers for cfg
proof unfold_locales
  show "remembers a b \<Longrightarrow> remembers b c \<Longrightarrow> remembers a c" for a b c :: "'a WorkspaceDO" by (rule remembers_trans)
  show "remembers st st'" if "applyMutation cfg ev ha m st = Inr (st', err)"
      "known (do_db st) (at_clientId ha) \<longrightarrow> mut_id m = lastMutationId (do_db st) (at_clientId ha) + 1"
    for ev ha m and st st' :: "'a WorkspaceDO" and err
    using applyMutation_lmid [OF that(1)] that(2) by (simp add: remembers_def)
  show "remembers st (snd (touchClient ev client st))" for ev client and st :: "'a WorkspaceDO"
    using touch_known [of "ev_iso ev" client "do_db st"] by (simp add: remembers_def touchClient_def Let_def known_def del: not_None_eq)
  show "remembers st (stamp_meta f st)" for f and st :: "'a WorkspaceDO"
    by (rule remembers_clients) (simp add: stamp_meta_def)
  show "remembers st (compact cfg st)" for st
    by (rule remembers_clients) (simp add: compact_def Let_def stamp_meta_def)
  show "remembers st (snd (bootstrapPatch cfg st))" for st
    by (rule remembers_clients) (auto simp: bootstrapPatch_def Let_def split: option.splits sum.splits)
  show "remembers st (st\<lparr>do_db := d, do_extension := xs, do_snapshot := None,
      do_meta := (do_meta st)\<lparr>m_currentVersion := m_currentVersion (do_meta st) + 1,
                              m_minCursorVersion := m_currentVersion (do_meta st) + 1\<rparr>\<rparr>)"
    if "import_tx cfg (m_currentVersion (do_meta st) + 1) rs x st = Inr (d, xs)" for rs x d xs and st :: "'a WorkspaceDO"
    by (rule remembers_clients) (use that in \<open>auto simp: import_tx_def bind_res_Inr_iff\<close>)
qed (rule remembers_clients, simp)

lemma migrate_clients: "migrate d = Inr d' \<Longrightarrow> db_clients d' = db_clients d"
proof -
  have "fold_res run_migration vs d = Inr d' \<Longrightarrow> db_clients d' = db_clients d" for vs
  proof (induction vs arbitrary: d)
    case (Cons v vs)
    then obtain d1 where d1: "run_migration v d = Inr d1" "fold_res run_migration vs d1 = Inr d'"
      by (cases "run_migration v d") auto
    then show ?case using Cons.IH [OF d1(2)] by (auto simp: run_migration_def bind_res_Inr_iff)
  qed simp
  then show "migrate d = Inr d' \<Longrightarrow> db_clients d' = db_clients d" by (simp add: migrate_def)
qed

lemma migrateApp_clients: "migrateAppSchema cfg ev st = Inr st' \<Longrightarrow> db_clients (do_db st') = db_clients (do_db st)"
  by (auto simp: migrateAppSchema_def Let_def bind_res_Inr_iff)

lemma initialize_clients: "db_clients (do_db (fst (initialize cfg ev st))) = db_clients (do_db st)"
proof (cases "migrate (do_db st)")
  case (Inr d)
  note m = migrate_clients [OF Inr]
  show ?thesis
  proof (cases "loadOrInitMeta (ev_newBackend ev) (app_version (cf_app cfg)) (cf_fingerprint cfg) (cf_presenceHash cfg) d")
    case (Inl e)
    then show ?thesis using Inr m by (simp add: initialize_def)
  next
    case l: (Inr r)
    obtain mt d1 where r: "r = (mt, d1)" by (cases r)
    let ?st = "st\<lparr>do_db := d1, do_meta := mt\<rparr>"
    have c1: "db_clients d1 = db_clients d"
      using l r by (auto simp: loadOrInitMeta_def Let_def split: option.splits jnum.splits if_splits)
    obtain out where o: "(if m_schemaVersion mt \<noteq> app_version (cf_app cfg) then migrateAppSchema cfg ev ?st
        else Inr (restamp_presence cfg ?st)) = out" by blast
    show ?thesis
    proof (cases out)
      case Inl
      then show ?thesis using Inr l r o m c1 by (simp add: initialize_def)
    next
      case out: (Inr st2)
      have "db_clients (do_db st2) = db_clients d1"
        using o out migrateApp_clients [of cfg ev ?st st2]
        by (auto simp: restamp_presence_def stamp_meta_def emit_def split: if_splits)
      moreover have "db_clients (do_db (initExtension cfg (restamp_schema cfg st2))) = db_clients (do_db st2)"
        by (simp add: initExtension_def restamp_schema_def stamp_meta_def emit_def split: option.split)
      ultimately show ?thesis using Inr l r o out m c1 by (simp add: initialize_def Let_def setAlarm_def)
    qed
  qed
qed (simp add: initialize_def)

lemma remembers_wake: "remembers st (wake cfg ev st)"
proof (rule remembers_clients)
  define st0 where "st0 = st\<lparr>do_initError := None, do_presence := [], do_snapshot := None, do_counters := zero_counters ev,
                   do_meta := blank_meta\<rparr>"
  define st1 where "st1 = (if app_presence (cf_app cfg) = None then st0 else deliver_all cfg ev (readySockets st0) [presence_poll] st0)"
  have "do_db st1 = do_db st0" using step_deliver_all [of st0 cfg ev "readySockets st0" "[presence_poll]"] by (simp add: st1_def socket_step_def same_core_def)
  then have "db_clients (do_db st1) = db_clients (do_db st)" by (simp add: st0_def)
  moreover have "wake cfg ev st = (case initialize cfg ev st1 of (st, None) \<Rightarrow> st
         | (st, Some e) \<Rightarrow> emit (Logged ''workspace initialization failed'') (st\<lparr>do_initError := Some e\<rparr>))"
    by (simp add: wake_def Let_def st1_def st0_def)
  ultimately show "db_clients (do_db (wake cfg ev st)) = db_clients (do_db st)"
    using initialize_clients [of cfg ev st1] by (auto simp: emit_def split: prod.split option.split)
qed

section \<open>Delivering again\<close>

text \<open>What may happen between two deliveries: events and wakes, under any configuration.\<close>

datatype 'x Later = Handled "'x Config" Env Event | Woken "'x Config" Env

fun later :: "'x Later \<Rightarrow> 'x WorkspaceDO \<Rightarrow> 'x WorkspaceDO" where
  "later (Handled cfg ev e) st = handle cfg ev e st"
| "later (Woken cfg ev) st = wake cfg ev st"

fun resets :: "'x Later \<Rightarrow> bool" where
  "resets (Handled cfg ev e) = is_reset e"
| "resets (Woken cfg ev) = False"

lemma remembers_later: "list_all (\<lambda>l. \<not> resets l) ls \<Longrightarrow> remembers st (fold later ls st)"
proof (induction ls arbitrary: st)
  case (Cons l ls)
  have "remembers st (later l st)"
    using Cons.prems by (cases l) (simp_all add: memory.ev_kept remembers_wake)
  then show ?case using Cons remembers_trans by fastforce
qed (simp add: remembers_def)

lemma skipped_push:
  assumes "list_all (\<lambda>m. mut_id m \<le> lastMutationId (do_db st) (at_clientId a)) ms" "handlePush cfg ev ws a ms st = (st', e)"
  shows "do_db st' = do_db st \<and> do_meta st' = do_meta st \<and> e = None"
proof -
  have s: "socket_step t (pl_do (push_loop cfg ev ws a ms t (lastMutationId (do_db st) (at_clientId a)) rs))" for t rs
    using assms(1)
  proof (induction ms arbitrary: t)
    case (Cons m ms)
    then show ?case using socket_step_trans [OF step_count Cons.IH] by simp
  qed simp
  obtain st1 where p: "handlePush cfg ev ws a ms st = (st1, None)" using push_again [OF refl assms(1)] by blast
  have "socket_step st st'"
  proof (cases "at_ready a")
    case False
    then show ?thesis using assms(2) by (auto simp: handlePush_def step_sendError)
  next
    case True
    define st0 where "st0 = count (\<lambda>c. c\<lparr>ct_pushes := ct_pushes c + 1\<rparr>) st"
    define r where "r = push_loop cfg ev ws a ms st0 (lastMutationId (do_db st0) (at_clientId a)) []"
    have "socket_step st (pl_do r)" unfolding r_def using s [of st0 "[]"] socket_step_trans [OF step_count] by (simp add: st0_def)
    moreover have "socket_step (pl_do r) st'"
      using True assms(2) unfolding handlePush_def Let_def st0_def [symmetric] r_def [symmetric]
      by (auto simp: step_sendPoke split: option.splits sum.splits if_splits)
    ultimately show ?thesis by (rule socket_step_trans)
  qed
  then show ?thesis using p assms(2) by (simp add: socket_step_def same_core_def)
qed

lemma accept_run: "k \<le> n + 1 \<Longrightarrow> l \<le> accept n [k..l]"
proof (induction "nat (l - k + 1)" arbitrary: k n)
  case (Suc i)
  then have "[k..l] = k # [k + 1..l]" by (simp add: upto_rec1)
  then show ?case using Suc by (auto intro!: Suc.hyps(1))
qed (simp add: accept_ge)

text \<open>
  C7: Redelivery is harmless. A push whose ids run on from what the object knows of its client, and
  which ended without an error, may be delivered again at any later time - after other pushes,
  hellos that rewrite the client's row, compactions, imports, closes and wakes under a new deploy,
  but no admin reset, which forgets the clients - and on any socket of that client: it changes
  nothing in the database (rows, log, LMIDs, version) nor in the copy of meta in memory.
\<close>

theorem push_redelivery:
  assumes "do_inv True cfg st" "known (do_db st) (at_clientId a)" "at_ready a"
    and "map mut_id ms = [k..l]" "k \<le> lastMutationId (do_db st) (at_clientId a) + 1"
    and "handlePush cfg ev ws a ms st = (st1, None)"
    and "list_all (\<lambda>l. \<not> resets l) ls" "st2 = fold later ls st1"
    and "at_clientId a' = at_clientId a" "handlePush cfg' ev' ws' a' ms st2 = (st3, e)"
  shows "do_db st3 = do_db st2 \<and> do_meta st3 = do_meta st2 \<and> e = None"
proof -
  let ?c = "at_clientId a"
  obtain n where n: "push_effect ?c n st st1" "n = accept (lastMutationId (do_db st) ?c) [k..l]"
    using handlePush_spec [OF assms(1,2,6)] assms(3,4) by auto
  have "l \<le> lastMutationId (do_db st1) ?c" "known (do_db st1) ?c"
    using n accept_run [OF assms(5)] assms(2) by (simp_all add: push_effect_def)
  moreover have "remembers st1 st2" using remembers_later [OF assms(7)] assms(8) by simp
  ultimately have "l \<le> lastMutationId (do_db st2) ?c" unfolding remembers_def by (meson order_trans)
  moreover have "mut_id m \<in> {k..l}" if "m \<in> set ms" for m
    using that assms(4) by (metis image_eqI list.set_map set_upto)
  ultimately have "list_all (\<lambda>m. mut_id m \<le> lastMutationId (do_db st2) (at_clientId a')) ms"
    unfolding assms(9) list_all_iff by fastforce
  then show ?thesis using skipped_push assms(10) by blast
qed

text \<open>A push, a hello of the same client and a wake, and the push again.\<close>

theorem push_redelivery_witness:
  "\<exists>st1 st2 st3. handlePush demo_cfg demo_env 1 demo_att [demo_mutation] demo_do = (st1, None) \<and>
     st2 = wake demo_cfg demo_env (handle demo_cfg demo_env (Message 1 (TextFrame (Some (enc_client_msg (HelloMsg PROTOCOL_VERSION 1 None))))) st1) \<and>
     handlePush demo_cfg demo_env 2 demo_att [demo_mutation] st2 = (st3, None) \<and> do_db st3 = do_db st2"
proof -
  let ?m = "[demo_mutation]" and ?ls = "[Handled demo_cfg demo_env (Message 1 (TextFrame (Some (enc_client_msg (HelloMsg PROTOCOL_VERSION 1 None))))), Woken demo_cfg demo_env]"
  obtain st1 where h: "handlePush demo_cfg demo_env 1 demo_att ?m demo_do = (st1, None)" using demo_push by blast
  have m: "map mut_id ?m = [1..1]" "1 \<le> lastMutationId (do_db demo_do) (at_clientId demo_att) + 1" "at_ready demo_att"
    using demo_lmid by (simp_all add: demo_mutation_def)
  have r: "list_all (\<lambda>l. \<not> resets l) ?ls" by simp
  obtain st3 e where h3: "handlePush demo_cfg demo_env 2 demo_att ?m (fold later ?ls st1) = (st3, e)" by fastforce
  from push_redelivery [OF demo_do_inv demo_known m(3,1,2) h r refl refl h3] h h3 show ?thesis by auto
qed

end
