(* ===== verification/Defaults.thy ===== *)
theory Defaults
  imports ClientSpec Worker
begin

text \<open>
  What a client is made of before it runs: the default URL, client id and fatal recovery
  (client/src/defaults.ts) and the constructor of \<open>SyncClient\<close> (client/src/client.ts). The URL a
  client opens is read back by the worker's router: \<open>url_parts\<close> is the URL standard's parse.
\<close>

section \<open>Building the URL\<close>

definition strip_slashes :: "jstr \<Rightarrow> jstr" where
  "strip_slashes s = rev (dropWhile (\<lambda>c. c = 47) (rev s))"

definition buildSyncUrl :: "jstr \<Rightarrow> jstr \<Rightarrow> jstr \<Rightarrow> jstr \<Rightarrow> jstr res" where
  "buildSyncUrl base prefix workspaceId clientId =
     (if 63 \<in> set base \<or> 35 \<in> set base then Inl (OtherError ''SyncClient: url must not carry a query or fragment'')
      else
        let wsBase = strip_slashes (if starts_with base (js ''http'') then js ''ws'' @ drop 4 base else base) in
        case (encodeURIComponent workspaceId, encodeURIComponent clientId) of
          (Some w, Some c) \<Rightarrow> Inr (wsBase @ prefix @ js ''/'' @ w @ js ''?clientId='' @ c)
        | _ \<Rightarrow> Inl (OtherError ''URIError''))"

definition withToken :: "jstr \<Rightarrow> jstr \<Rightarrow> jstr res" where
  "withToken url token =
     (case encodeURIComponent token of
        Some t \<Rightarrow> Inr (url @ js ''&token='' @ t) | None \<Rightarrow> Inl (OtherError ''URIError''))"

section \<open>Reading it back\<close>

text \<open>
  The URL standard, for a text \<open>scheme://authority/path?query\<close> without a fragment whose characters
  the parser copies: any other text has no parse here. Dot segments are resolved; the query is
  decoded as \<open>application/x-www-form-urlencoded\<close>.
\<close>

definition copied_char :: "16 word \<Rightarrow> bool" where
  "copied_char c \<longleftrightarrow> 33 \<le> c \<and> c \<le> 126 \<and> c \<notin> {34, 35, 60, 62, 92, 94, 96, 123, 124, 125}"

definition single_dot :: "jstr \<Rightarrow> bool" where
  "single_dot s \<longleftrightarrow> lower s \<in> {js ''.'', js ''%2e''}"

definition double_dot :: "jstr \<Rightarrow> bool" where
  "double_dot s \<longleftrightarrow> lower s \<in> {js ''..'', js ''.%2e'', js ''%2e.'', js ''%2e%2e''}"

fun path_segments :: "jstr list \<Rightarrow> jstr list \<Rightarrow> jstr list" where
  "path_segments acc [] = acc"
| "path_segments acc [s] =
     (if double_dot s then butlast acc @ [[]] else if single_dot s then acc @ [[]] else acc @ [s])"
| "path_segments acc (s # t # ss) =
     path_segments (if double_dot s then butlast acc else if single_dot s then acc else acc @ [s]) (t # ss)"

fun percent_bytes :: "jstr \<Rightarrow> u8 list" where
  "percent_bytes [] = []"
| "percent_bytes (c # cs) =
     (if c = 37 then
        (case cs of
           a # b # r \<Rightarrow>
             (case (hex_value a, hex_value b) of
                (Some x, Some y) \<Rightarrow> of_nat (x * 16 + y) # percent_bytes r
              | _ \<Rightarrow> 37 # percent_bytes cs)
         | _ \<Rightarrow> 37 # percent_bytes cs)
      else of_nat (unat c) # percent_bytes cs)"

definition form_text :: "jstr \<Rightarrow> jstr" where
  "form_text s = dec (percent_bytes (map (\<lambda>c. if c = 43 then 32 else c) s))"

fun split_at :: "16 word \<Rightarrow> jstr \<Rightarrow> jstr list" where
  "split_at sep [] = [[]]"
| "split_at sep (c # cs) =
     (case split_at sep cs of
        [] \<Rightarrow> [[c]]
      | p # ps \<Rightarrow> if c = sep then [] # p # ps else (c # p) # ps)"

definition form_params :: "jstr \<Rightarrow> (jstr \<times> jstr) list" where
  "form_params q =
     map (\<lambda>p. (form_text (takeWhile (\<lambda>c. c \<noteq> 61) p), form_text (drop 1 (dropWhile (\<lambda>c. c \<noteq> 61) p))))
       (filter (\<lambda>p. p \<noteq> []) (split_at 38 q))"

fun after_scheme :: "jstr \<Rightarrow> jstr option" where
  "after_scheme [] = None"
| "after_scheme (c # cs) = (if starts_with (c # cs) (js ''://'') then Some (drop 3 (c # cs)) else after_scheme cs)"

definition url_parts :: "jstr \<Rightarrow> (jstr \<times> (jstr \<times> jstr) list) option" where
  "url_parts url =
     (if \<not> list_all copied_char url then None
      else case after_scheme url of
        None \<Rightarrow> None
      | Some rest \<Rightarrow>
          let path = takeWhile (\<lambda>c. c \<noteq> 63) (dropWhile (\<lambda>c. c \<noteq> 47 \<and> c \<noteq> 63) rest);
              query = drop 1 (dropWhile (\<lambda>c. c \<noteq> 63) rest)
          in Some (js ''/'' @ join_with [47] (path_segments [] (split_slash (drop 1 path))), form_params query))"

section \<open>Client ids and fatal recovery\<close>

text \<open>
  The tab's \<open>sessionStorage\<close>, as far as the library uses it: under the encoded workspace id, the
  client id and the time of the last reload. Reading or writing may throw where it is blocked.
\<close>

record TabStorage =
  tab_readable :: bool
  tab_writable :: bool
  tab_clientIds :: "(jstr \<times> jstr) list"
  tab_reloads :: "(jstr \<times> int) list"

text \<open>\<open>fresh\<close> is what \<open>crypto.randomUUID()\<close> returns.\<close>

definition defaultClientId :: "jstr \<Rightarrow> jstr \<Rightarrow> TabStorage \<Rightarrow> (jstr \<times> TabStorage) res" where
  "defaultClientId workspaceId fresh tab =
     (case encodeURIComponent workspaceId of
        None \<Rightarrow> Inl (OtherError ''URIError'')
      | Some key \<Rightarrow>
          Inr (if \<not> tab_readable tab then (fresh, tab)
               else let stored = or_default (map_of (tab_clientIds tab) key) [] in
                 if stored \<noteq> [] then (stored, tab)
                 else (fresh, if tab_writable tab then tab\<lparr>tab_clientIds := AList.update key fresh (tab_clientIds tab)\<rparr> else tab)))"

definition FATAL_RELOAD_MIN_INTERVAL_MS :: int where "FATAL_RELOAD_MIN_INTERVAL_MS = 60000"

text \<open>Whether the page is reloaded; \<open>browser\<close> tells whether there is a \<open>location\<close>.\<close>

definition defaultFatalRecovery :: "bool \<Rightarrow> jstr \<Rightarrow> int \<Rightarrow> TabStorage \<Rightarrow> (bool \<times> TabStorage) res" where
  "defaultFatalRecovery browser workspaceId now tab =
     (if \<not> browser then Inr (False, tab)
      else case encodeURIComponent workspaceId of
        None \<Rightarrow> Inl (OtherError ''URIError'')
      | Some key \<Rightarrow>
          let lastReloadAt = (if tab_readable tab then or_default (map_of (tab_reloads tab) key) 0 else 0) in
          Inr (if now - lastReloadAt < FATAL_RELOAD_MIN_INTERVAL_MS then (False, tab)
               else (True, if tab_writable tab then tab\<lparr>tab_reloads := AList.update key now (tab_reloads tab)\<rparr> else tab)))"

section \<open>The client's URL reaches its workspace\<close>

lemma utf8_points: "well_formed s \<Longrightarrow> utf8 s = concat (map utf8 (code_points s))"
proof (induction s rule: code_points.induct)
  case (2 c cs)
  show ?case
  proof (cases cs)
    case Nil
    then show ?thesis by simp
  next
    case (Cons d ds)
    have "high_surrogate x \<Longrightarrow> \<not> low_surrogate x \<and> \<not> x < 0x800 \<and> \<not> x < 0x80" for x
      by (auto simp: high_surrogate_def low_surrogate_def word_le_nat_alt word_less_nat_alt)
    then show ?thesis using 2 Cons by (auto split: if_splits)
  qed
qed simp

lemma percent_bytes_byte: "percent_bytes (percent_byte b @ r) = b # percent_bytes r"
proof -
  have "unat b < 256" using unsigned_less [of b, where 'a = nat] by simp
  then have "unat b div 16 < 16" "unat b mod 16 < 16" by auto
  then show ?thesis by (simp add: percent_byte_def hex_value_upper del: of_nat_add of_nat_mult)
qed

lemma percent_bytes_bytes: "percent_bytes (concat (map percent_byte bs) @ r) = bs @ percent_bytes r"
  by (induction bs) (simp_all add: percent_bytes_byte)

text \<open>Every character of an encoded text is unreserved or a percent sign.\<close>

lemma hex_unreserved: "n < 16 \<Longrightarrow> unreserved (upper_hex n)"
proof -
  assume "n < 16"
  then have "n \<in> set [0..<16]" by simp
  moreover have "list_all (\<lambda>n. unreserved (upper_hex n)) [0..<16]" by code_simp
  ultimately show ?thesis by (simp only: list_all_iff)
qed

lemma encoded_chars: "encodeURIComponent s = Some t \<Longrightarrow> c \<in> set t \<Longrightarrow> unreserved c \<or> c = 37"
proof -
  assume e: "encodeURIComponent s = Some t" "c \<in> set t"
  then obtain p where p: "p \<in> set (code_points s)" "c \<in> set (encode_point p)"
    by (auto simp: encodeURIComponent_def split: if_splits)
  show ?thesis
  proof (cases "length p = 1 \<and> unreserved (hd p)")
    case True
    then obtain x where "p = [x]" by (cases p) auto
    with True p(2) show ?thesis by (simp add: encode_point_def)
  next
    case False
    then obtain b where b: "c \<in> set (percent_byte b)" using p(2) by (auto simp: encode_point_def)
    have "unat b < 256" using unsigned_less [of b, where 'a = nat] by simp
    then have "unat b div 16 < 16" "unat b mod 16 < 16" by auto
    then show ?thesis using b hex_unreserved by (auto simp: percent_byte_def)
  qed
qed

lemma unreserved_ascii: "unreserved c \<Longrightarrow> 33 \<le> c \<and> c \<le> 126"
  unfolding unreserved_def by (elim disjE) (auto simp: word_le_nat_alt)

lemma percent_bytes_point:
  "percent_bytes (encode_point p @ r) = utf8 p @ percent_bytes r"
proof (cases "length p = 1 \<and> unreserved (hd p)")
  case True
  then obtain c where p: "p = [c]" by (cases p) auto
  with True have u: "unreserved c" by simp
  have "c \<noteq> 37" using u by (auto simp: unreserved_def)
  moreover have "c < 0x80" using unreserved_ascii [OF u] by (simp add: word_le_nat_alt word_less_nat_alt)
  ultimately show ?thesis using True by (simp add: p encode_point_def)
next
  case False
  then show ?thesis by (auto simp: encode_point_def percent_bytes_bytes)
qed

lemma form_encoded:
  assumes "encodeURIComponent s = Some t"
  shows "form_text t = s"
proof -
  have wf: "well_formed s" and t: "t = concat (map encode_point (code_points s))"
    using assms by (auto simp: encodeURIComponent_def split: if_splits)
  have "43 \<notin> set t" using encoded_chars [OF assms, of 43] by (auto simp: unreserved_def)
  then have plus: "map (\<lambda>c. if c = 43 then 32 else c) t = t" by (auto intro!: map_idI)
  have "percent_bytes (concat (map encode_point ps)) = concat (map utf8 ps)" for ps
  proof (induction ps)
    case (Cons p ps)
    then show ?case using percent_bytes_point [of p "concat (map encode_point ps)"] by simp
  qed simp
  then have "percent_bytes t = utf8 s" by (simp add: t utf8_points [OF wf])
  then show ?thesis unfolding form_text_def plus using dec_utf8 [OF wf] by simp
qed

text \<open>Slashes and dots.\<close>

lemma split_at_free: "sep \<notin> set s \<Longrightarrow> split_at sep s = [s]"
  by (induction s) auto

lemma split_at_nonempty [simp]: "split_at sep s \<noteq> []"
  by (induction s) (auto split: list.splits)

lemma split_at_append: "sep \<notin> set a \<Longrightarrow> split_at sep (a @ sep # b) = a # split_at sep b"
  by (induction a) (auto split: list.splits)

lemma split_slash_nonempty [simp]: "split_slash s \<noteq> []"
  by (induction s) (auto split: list.splits)

lemma split_slash_free: "47 \<notin> set s \<Longrightarrow> split_slash s = [s]"
  by (induction s) auto

lemma split_slash_append: "split_slash (a @ 47 # b) = split_slash a @ split_slash b"
  by (induction a) (auto split: list.splits simp: neq_Nil_conv)

lemma join_split: "join_with [47] (split_slash s) = s"
proof (induction s)
  case (Cons c s)
  obtain p ps where "split_slash s = p # ps" by (cases "split_slash s") auto
  with Cons show ?case by (cases ps) auto
qed simp

lemma join_snoc: "join_with sep (xs @ [x]) = join_with sep (xs @ [[]]) @ x"
proof (induction xs)
  case (Cons y ys)
  then show ?case by (cases ys) auto
qed simp

lemma path_segments_plain:
  assumes "list_all (\<lambda>s. \<not> single_dot s \<and> \<not> double_dot s) ss"
  shows "path_segments acc (ss @ [w]) =
    (if double_dot w then butlast (acc @ ss) @ [[]] else if single_dot w then acc @ ss @ [[]] else acc @ ss @ [w])"
  using assms
proof (induction ss arbitrary: acc)
  case (Cons s ss)
  obtain t ts where t: "ss @ [w] = t # ts" by (cases "ss @ [w]") auto
  have "path_segments acc ((s # ss) @ [w]) = path_segments (acc @ [s]) (ss @ [w])"
    using Cons.prems by (simp add: t)
  then show ?case using Cons by simp
qed simp

definition lower_one :: "16 word \<Rightarrow> 16 word" where
  "lower_one c = (if 65 \<le> c \<and> c \<le> 90 then c + 32 else c)"

lemma lower_one_eq:
  "lower_one x = 46 \<longleftrightarrow> x = 46" "lower_one x = 37 \<longleftrightarrow> x = 37" "lower_one x = 50 \<longleftrightarrow> x = 50"
  "lower_one x = 101 \<longleftrightarrow> x = 69 \<or> x = 101"
  unfolding lower_one_def by (auto split: if_splits; unat_arith)+

lemma map_cons_iff: "map f w = v # vs \<longleftrightarrow> (\<exists>x xs. w = x # xs \<and> f x = v \<and> map f xs = vs)"
  by (auto simp: map_eq_Cons_conv)

lemma map_append_iff: "map f w = a @ b \<longleftrightarrow> (\<exists>u v. w = u @ v \<and> map f u = a \<and> map f v = b)"
  by (auto simp: map_eq_append_conv)

lemma lower_texts:
  "lower w = [46] \<longleftrightarrow> w = [46]"
  "lower w = [37, 50, 101] \<longleftrightarrow> w = [37, 50, 69] \<or> w = [37, 50, 101]"
  "lower w = [46, 46] \<longleftrightarrow> w = [46, 46]"
  "lower w = [46, 37, 50, 101] \<longleftrightarrow> w = [46, 37, 50, 69] \<or> w = [46, 37, 50, 101]"
  "lower w = [37, 50, 101, 46] \<longleftrightarrow> w = [37, 50, 69, 46] \<or> w = [37, 50, 101, 46]"
  "lower w = [37, 50, 101, 37, 50, 101] \<longleftrightarrow> w = [37, 50, 69, 37, 50, 69] \<or> w = [37, 50, 69, 37, 50, 101] \<or>
     w = [37, 50, 101, 37, 50, 69] \<or> w = [37, 50, 101, 37, 50, 101]"
proof -
  have l: "lower w = map lower_one w" for w by (simp add: lower_def lower_one_def)
  note f = l map_cons_iff lower_one_eq list.map_disc_iff
  show "lower w = [46] \<longleftrightarrow> w = [46]" unfolding f by auto
  have e: "lower w = [37, 50, 101] \<longleftrightarrow> w = [37, 50, 69] \<or> w = [37, 50, 101]" for w unfolding f by auto
  show "lower w = [37, 50, 101] \<longleftrightarrow> w = [37, 50, 69] \<or> w = [37, 50, 101]" by (rule e)
  show "lower w = [46, 46] \<longleftrightarrow> w = [46, 46]" unfolding f by auto
  show "lower w = [46, 37, 50, 101] \<longleftrightarrow> w = [46, 37, 50, 69] \<or> w = [46, 37, 50, 101]" unfolding f by auto
  show "lower w = [37, 50, 101, 46] \<longleftrightarrow> w = [37, 50, 69, 46] \<or> w = [37, 50, 101, 46]" unfolding f by auto
  have "lower w = [37, 50, 101] @ [37, 50, 101] \<longleftrightarrow> (\<exists>u v. w = u @ v \<and> lower u = [37, 50, 101] \<and> lower v = [37, 50, 101])"
    unfolding l by (rule map_append_iff)
  also have "\<dots> \<longleftrightarrow> (\<exists>u v. w = u @ v \<and> (u = [37, 50, 69] \<or> u = [37, 50, 101]) \<and> (v = [37, 50, 69] \<or> v = [37, 50, 101]))"
    unfolding e ..
  also have "\<dots> \<longleftrightarrow> w = [37, 50, 69] @ [37, 50, 69] \<or> w = [37, 50, 69] @ [37, 50, 101] \<or>
      w = [37, 50, 101] @ [37, 50, 69] \<or> w = [37, 50, 101] @ [37, 50, 101]" by blast
  finally show "lower w = [37, 50, 101, 37, 50, 101] \<longleftrightarrow> w = [37, 50, 69, 37, 50, 69] \<or> w = [37, 50, 69, 37, 50, 101] \<or>
     w = [37, 50, 101, 37, 50, 69] \<or> w = [37, 50, 101, 37, 50, 101]" by (simp only: append.simps)
qed

lemma decode_dot_unit:
  "decodeURIComponent [] = Some []"
  "decodeURIComponent (46 # r) = map_option ((#) 46) (decodeURIComponent r)"
  "decodeURIComponent (37 # 50 # 69 # r) = map_option ((#) 46) (decodeURIComponent r)"
  "decodeURIComponent (37 # 50 # 101 # r) = map_option ((#) 46) (decodeURIComponent r)"
proof -
  show "decodeURIComponent [] = Some []" by (simp add: decodeURIComponent.simps)
  show "decodeURIComponent (46 # r) = map_option ((#) 46) (decodeURIComponent r)"
    by (subst decodeURIComponent.simps) simp
  have h: "hex_value 50 = Some 2" "hex_value 69 = Some 14" "hex_value 101 = Some 14" by (simp_all add: hex_value_def)
  have d: "dec [46] = [46]" "utf8 [46] = [46]" by (simp_all add: unit_of_def)
  have "decode_point (37 # 50 # 69 # r) = Some ([46], r)" "decode_point (37 # 50 # 101 # r) = Some ([46], r)"
    by (simp_all add: decode_point_def h octet_count_def d del: decode_loop.simps utf8.simps)
  moreover have "(@) [46 :: 16 word] = (#) 46" by (simp add: fun_eq_iff)
  ultimately show "decodeURIComponent (37 # 50 # 69 # r) = map_option ((#) 46) (decodeURIComponent r)"
      "decodeURIComponent (37 # 50 # 101 # r) = map_option ((#) 46) (decodeURIComponent r)"
    by (simp_all add: decodeURIComponent.simps [of "37 # 50 # 69 # r"] decodeURIComponent.simps [of "37 # 50 # 101 # r"])
qed

lemma dot_decode:
  "single_dot w \<Longrightarrow> decodeURIComponent w = Some (js ''.'')"
  "double_dot w \<Longrightarrow> decodeURIComponent w = Some (js ''..'')"
proof -
  let ?one = "[[46], [37, 50, 69], [37, 50, 101]] :: jstr list"
    and ?two = "[[46, 46], [46, 37, 50, 69], [46, 37, 50, 101], [37, 50, 69, 46], [37, 50, 101, 46],
     [37, 50, 69, 37, 50, 69], [37, 50, 69, 37, 50, 101], [37, 50, 101, 37, 50, 69], [37, 50, 101, 37, 50, 101]] :: jstr list"
  have t: "js ''.'' = [46]" "js ''%2e'' = [37, 50, 101]" "js ''..'' = [46, 46]" "js ''.%2e'' = [46, 37, 50, 101]"
    "js ''%2e.'' = [37, 50, 101, 46]" "js ''%2e%2e'' = [37, 50, 101, 37, 50, 101]" by simp_all
  have "list_all (\<lambda>w. decodeURIComponent w = Some [46]) ?one" by (simp add: decode_dot_unit)
  then have one: "\<forall>w \<in> set ?one. decodeURIComponent w = Some [46]" by (simp only: list_all_iff)
  have "single_dot w \<Longrightarrow> w \<in> set ?one"
    unfolding single_dot_def t insert_iff empty_iff lower_texts by (elim disjE) simp_all
  then show "single_dot w \<Longrightarrow> decodeURIComponent w = Some (js ''.'')" unfolding t using one by blast
  have "list_all (\<lambda>w. decodeURIComponent w = Some [46, 46]) ?two" by (simp add: decode_dot_unit)
  then have two: "\<forall>w \<in> set ?two. decodeURIComponent w = Some [46, 46]" by (simp only: list_all_iff)
  have "double_dot w \<Longrightarrow> w \<in> set ?two"
    unfolding double_dot_def t insert_iff empty_iff lower_texts by (elim disjE) simp_all
  then show "double_dot w \<Longrightarrow> decodeURIComponent w = Some (js ''..'')" unfolding t using two by blast
qed

lemma encoded_dots:
  assumes "encodeURIComponent s = Some w"
  shows "single_dot w \<longleftrightarrow> s = js ''.''" "double_dot w \<longleftrightarrow> s = js ''..''"
proof -
  have "encodeURIComponent (js ''.'') = Some (js ''.'')" "encodeURIComponent (js ''..'') = Some (js ''..'')"
    "single_dot (js ''.'')" "double_dot (js ''..'')" by code_simp+
  then show "single_dot w \<longleftrightarrow> s = js ''.''" "double_dot w \<longleftrightarrow> s = js ''..''"
    using dot_decode [of w] decode_encode_uri [OF assms] assms by auto
qed

text \<open>The prefix of the sync routes, as both sides are configured with it.\<close>

definition clean_prefix :: "jstr \<Rightarrow> bool" where
  "clean_prefix prefix =
     (case prefix of
        [] \<Rightarrow> False
      | c # p \<Rightarrow> c = 47 \<and> list_all (\<lambda>c. copied_char c \<and> c \<noteq> 63) p \<and>
          list_all (\<lambda>s. \<not> single_dot s \<and> \<not> double_dot s) (split_slash p))"

definition clean_host :: "jstr \<Rightarrow> bool" where
  "clean_host host \<longleftrightarrow> host \<noteq> [] \<and> list_all (\<lambda>c. copied_char c \<and> c \<noteq> 47 \<and> c \<noteq> 63) host"

lemma after_scheme_drop: "58 \<notin> set s \<Longrightarrow> after_scheme (s @ js ''://'' @ r) = Some r"
proof (induction s)
  case Nil
  show ?case by (simp add: starts_with_def)
next
  case (Cons c s)
  then have "\<not> starts_with (c # s @ js ''://'' @ r) (js ''://'')" by (simp add: starts_with_def)
  with Cons show ?case by (simp del: js_simps)
qed

lemma encoded_copied: "encodeURIComponent s = Some t \<Longrightarrow> list_all (\<lambda>c. copied_char c \<and> c \<notin> {47, 63, 61, 38}) t"
proof -
  assume e: "encodeURIComponent s = Some t"
  have "copied_char c \<and> c \<notin> {47, 63, 61, 38}" if "unreserved c" for c
    using unreserved_ascii [OF that] that by (auto simp: copied_char_def unreserved_def)
  moreover have "copied_char 37" by (simp add: copied_char_def)
  ultimately show ?thesis using encoded_chars [OF e] by (force simp: list_all_iff)
qed

text \<open>The path of the URL: the prefix and the encoded id, unless the id is a dot segment.\<close>

lemma sync_path:
  assumes "clean_prefix (47 # p)" "encodeURIComponent ws = Some w"
  shows "js ''/'' @ join_with [47] (path_segments [] (split_slash (p @ 47 # w))) =
    (if ws = js ''..'' then 47 # join_with [47] (butlast (split_slash p) @ [[]])
     else if ws = js ''.'' then (47 # p) @ [47] else (47 # p) @ 47 # w)"
proof -
  have f: "47 \<notin> set w" using encoded_copied [OF assms(2)] by (auto simp: list_all_iff)
  have s: "split_slash (p @ 47 # w) = split_slash p @ [w]" by (simp add: split_slash_append split_slash_free [OF f])
  have j: "join_with [47] (split_slash p @ [x]) = p @ 47 # x" if "47 \<notin> set x" for x
    using join_split [of "p @ 47 # x"] by (simp only: split_slash_append split_slash_free [OF that])
  show ?thesis
    using assms(1) j [OF f] j [of "[]"] encoded_dots [OF assms(2)]
    by (simp add: s clean_prefix_def path_segments_plain del: js_simps) (simp add: j)
qed

lemma dotdot_path: "length (join_with [47] (butlast (split_slash p) @ [[]])) \<le> length p"
proof -
  obtain xs x where x: "split_slash p = xs @ [x]" by (cases "split_slash p" rule: rev_cases) auto
  then show ?thesis using join_split [of p] join_snoc [of "[47]" xs x] by simp (metis le_add1 length_append)
qed

lemma form_names: "form_text (js ''clientId'') = js ''clientId''" "form_text (js ''token'') = js ''token''"
  by (rule form_encoded, simp add: encodeURIComponent_def high_surrogate_def low_surrogate_def encode_point_def unreserved_def)+

lemma sync_params:
  assumes "encodeURIComponent c = Some c'" "encodeURIComponent t = Some t'"
  shows "form_params (js ''clientId='' @ c') = [(js ''clientId'', c)]"
    "form_params (js ''clientId='' @ c' @ js ''&token='' @ t') = [(js ''clientId'', c), (js ''token'', t)]"
proof -
  have f: "38 \<notin> set x \<and> 61 \<notin> set x" if "encodeURIComponent y = Some x" for x y
    using encoded_copied [OF that] by (auto simp: list_all_iff)
  have one: "split_at 38 (js ''clientId='' @ c') = [js ''clientId='' @ c']"
    by (rule split_at_free) (use f [OF assms(1)] in simp)
  have "js ''clientId='' @ c' @ js ''&token='' @ t' = (js ''clientId='' @ c') @ 38 # js ''token='' @ t'" by simp
  then have two: "split_at 38 (js ''clientId='' @ c' @ js ''&token='' @ t') = [js ''clientId='' @ c', js ''token='' @ t']"
    using f [OF assms(1)] f [OF assms(2)] by (simp only: split_at_append split_at_free) (simp add: split_at_append split_at_free)
  have n: "takeWhile (\<lambda>c. c \<noteq> 61) (js ''clientId='' @ x) = js ''clientId''" "drop 1 (dropWhile (\<lambda>c. c \<noteq> 61) (js ''clientId='' @ x)) = x"
      "takeWhile (\<lambda>c. c \<noteq> 61) (js ''token='' @ x) = js ''token''" "drop 1 (dropWhile (\<lambda>c. c \<noteq> 61) (js ''token='' @ x)) = x" for x
    by simp_all
  have ne: "js ''clientId='' @ x \<noteq> []" "js ''token='' @ x \<noteq> []" for x by simp_all
  show "form_params (js ''clientId='' @ c') = [(js ''clientId'', c)]"
    unfolding form_params_def one by (simp only: list.map filter.simps ne if_True n form_names form_encoded [OF assms(1)] simp_thms)
  show "form_params (js ''clientId='' @ c' @ js ''&token='' @ t') = [(js ''clientId'', c), (js ''token'', t)]"
    unfolding form_params_def two
    by (simp only: list.map filter.simps ne if_True n form_names form_encoded [OF assms(1)] form_encoded [OF assms(2)] simp_thms)
qed

lemma strip_replicate: "xs \<noteq> [] \<Longrightarrow> last xs \<noteq> 47 \<Longrightarrow> strip_slashes (xs @ replicate n 47) = xs"
  by (cases xs rule: rev_cases) (auto simp: strip_slashes_def dropWhile_append)

definition url_schemes :: "jstr list" where
  "url_schemes = [js ''http'', js ''https'', js ''ws'', js ''wss'']"

lemma built_url:
  assumes "sch \<in> set url_schemes" "clean_host host"
    and "buildSyncUrl (sch @ js ''://'' @ host @ replicate n 47) prefix ws c = Inr url"
  obtains sch' w c' where "url = sch' @ js ''://'' @ host @ prefix @ 47 # w @ js ''?clientId='' @ c'" "58 \<notin> set sch'"
    "list_all copied_char sch'" "encodeURIComponent ws = Some w" "encodeURIComponent c = Some c'"
proof -
  let ?base = "sch @ js ''://'' @ host @ replicate n 47"
  define sch' where "sch' = (if starts_with sch (js ''http'') then js ''ws'' @ drop 4 sch else sch)"
  have h: "host \<noteq> []" "47 \<notin> set host" using assms(2) by (auto simp: clean_host_def list_all_iff)
  then have l: "last (sch' @ js ''://'' @ host) \<noteq> 47" using last_in_set by fastforce
  have sch: "(if starts_with ?base (js ''http'') then js ''ws'' @ drop 4 ?base else ?base) = (sch' @ js ''://'' @ host) @ replicate n 47"
    and c: "58 \<notin> set sch' \<and> list_all copied_char sch'"
    using assms(1) by (auto simp: url_schemes_def sch'_def starts_with_def copied_char_def)
  have "strip_slashes (if starts_with ?base (js ''http'') then js ''ws'' @ drop 4 ?base else ?base) = sch' @ js ''://'' @ host"
    unfolding sch by (rule strip_replicate [OF _ l]) (use h in simp)
  then have "\<exists>w c'. encodeURIComponent ws = Some w \<and> encodeURIComponent c = Some c' \<and>
      url = sch' @ js ''://'' @ host @ prefix @ 47 # w @ js ''?clientId='' @ c'"
    using assms(3) by (auto simp: buildSyncUrl_def Let_def split: if_splits option.splits)
  then show thesis using that c by blast
qed

text \<open>What the router makes of the URL, with or without a token.\<close>

lemma parse_built:
  assumes "58 \<notin> set sch" "list_all copied_char sch" "clean_host host" "clean_prefix (47 # p)"
    and "encodeURIComponent ws = Some w" "list_all copied_char q"
  shows "url_parts (sch @ js ''://'' @ host @ (47 # p) @ 47 # w @ 63 # q) =
    Some (if ws = js ''..'' then 47 # join_with [47] (butlast (split_slash p) @ [[]])
          else if ws = js ''.'' then (47 # p) @ [47] else (47 # p) @ 47 # w, form_params q)"
proof -
  have h: "list_all (\<lambda>c. copied_char c \<and> c \<noteq> 47 \<and> c \<noteq> 63) host" using assms(3) by (simp add: clean_host_def)
  have p: "list_all (\<lambda>c. copied_char c \<and> c \<noteq> 63) p" using assms(4) by (simp add: clean_prefix_def)
  have w: "list_all (\<lambda>c. copied_char c \<and> c \<notin> {47, 63, 61, 38}) w" by (rule encoded_copied [OF assms(5)])
  have c: "copied_char 58" "copied_char 47" "copied_char 63" by (simp_all add: copied_char_def)
  let ?rest = "host @ (47 # p) @ 47 # w @ 63 # q"
  have "list_all copied_char (sch @ js ''://'' @ ?rest)"
    using assms(2,6) h p w c by (simp add: list_all_iff ball_Un)
  moreover have "after_scheme (sch @ js ''://'' @ ?rest) = Some ?rest" by (rule after_scheme_drop [OF assms(1)])
  moreover have "dropWhile (\<lambda>c. c \<noteq> 47 \<and> c \<noteq> 63) ?rest = 47 # p @ 47 # w @ 63 # q"
    using h by (simp add: dropWhile_append list_all_iff)
  moreover have "takeWhile (\<lambda>c. c \<noteq> 63) (47 # p @ 47 # w @ 63 # q) = 47 # p @ 47 # w"
    using p w by (simp add: takeWhile_append list_all_iff)
  moreover have "dropWhile (\<lambda>c. c \<noteq> 63) ?rest = 63 # q"
    using h p w by (simp add: dropWhile_append list_all_iff)
  ultimately show ?thesis
    using sync_path [OF assms(4,5)] by (simp add: url_parts_def Let_def del: after_scheme.simps js_simps)
qed

text \<open>
  C32: The URL a client opens reaches its workspace. Whatever origin it is built on, with whatever
  prefix both sides are configured, for any workspace id, client id and token: the router parses
  the URL and answers with that workspace id and client id, the token removed, exactly when the
  id is one path segment; an id with a slash, or one the URL standard takes for a dot segment,
  is nobody's traffic, although the client's constructor accepted it.
\<close>

theorem client_url_routed:
  assumes "sch \<in> set url_schemes" "clean_host host" "clean_prefix prefix" "ws \<noteq> []" "c \<noteq> []"
    and "buildSyncUrl (sch @ js ''://'' @ host @ replicate n 47) prefix ws c = Inr url"
    and "url' = url \<or> withToken url token = Inr url'"
    and "so_pathPrefix opts = Some prefix" "so_authorize opts = None" "so_namespace opts"
  shows "\<exists>path query. url_parts url' = Some (path, query) \<and>
    (\<forall>rq. wr_path rq = path \<and> wr_query rq = query \<and> header_text (wr_headers rq) (js ''upgrade'') = Some (js ''websocket'') \<longrightarrow>
       createSyncRoute opts rq =
         (if 47 \<in> set ws \<or> ws = js ''.'' \<or> ws = js ''..'' then NotMine
          else case set_text WORKSPACE_HEADER ws (AList.delete AUTH_HEADER (wr_headers rq)) of
            Inl e \<Rightarrow> RouteThrew e
          | Inr hs \<Rightarrow> Forward \<lparr>fw_name = ws, fw_path = path, fw_query = [(js ''clientId'', c)], fw_method = js ''GET'',
              fw_headers = hs, fw_body = EmptyBody\<rparr>))"
proof -
  obtain p where p: "prefix = 47 # p" using assms(3) by (auto simp: clean_prefix_def split: list.splits)
  obtain sch' w c' where u: "url = sch' @ js ''://'' @ host @ prefix @ 47 # w @ js ''?clientId='' @ c'" "58 \<notin> set sch'"
      "list_all copied_char sch'" "encodeURIComponent ws = Some w" "encodeURIComponent c = Some c'"
    by (rule built_url [OF assms(1,2,6)])
  have cc: "list_all copied_char x" if "encodeURIComponent y = Some x" for x y
    using encoded_copied [OF that] by (simp add: list_all_iff)
  obtain q query where q: "url' = sch' @ js ''://'' @ host @ (47 # p) @ 47 # w @ 63 # q" "list_all copied_char q" "form_params q = query"
      "search_param query (js ''clientId'') = Some c" "filter (\<lambda>(k, v). k \<noteq> js ''token'') query = [(js ''clientId'', c)]"
    using assms(7)
  proof
    assume "url' = url"
    then show thesis
      using that [of "js ''clientId='' @ c'" "[(js ''clientId'', c)]"] u cc [OF u(5)] sync_params(1) [OF u(5) u(5)]
      by (simp add: p search_param_def copied_char_def)
  next
    assume "withToken url token = Inr url'"
    then obtain t' where t: "encodeURIComponent token = Some t'" "url' = url @ js ''&token='' @ t'"
      by (auto simp: withToken_def split: option.splits)
    then show thesis
      using that [of "js ''clientId='' @ c' @ js ''&token='' @ t'" "[(js ''clientId'', c), (js ''token'', token)]"] u
        cc [OF u(5)] cc [OF t(1)] sync_params(2) [OF u(5) t(1)]
      by (simp add: p search_param_def copied_char_def)
  qed
  define path where "path = (if ws = js ''..'' then 47 # join_with [47] (butlast (split_slash p) @ [[]])
          else if ws = js ''.'' then (47 # p) @ [47] else (47 # p) @ 47 # w)"
  have parts: "url_parts url' = Some (path, query)"
    using parse_built [OF u(2,3) assms(2) assms(3) [unfolded p] u(4) q(2)] q(1,3) by (simp only: path_def)
  have pre: "or_default (so_pathPrefix opts) (js ''/sync'') = 47 # p" using assms(8) p by (simp add: or_default_def)
  have route: "createSyncRoute opts rq =
         (if 47 \<in> set ws \<or> ws = js ''.'' \<or> ws = js ''..'' then NotMine
          else case set_text WORKSPACE_HEADER ws (AList.delete AUTH_HEADER (wr_headers rq)) of
            Inl e \<Rightarrow> RouteThrew e
          | Inr hs \<Rightarrow> Forward \<lparr>fw_name = ws, fw_path = path, fw_query = [(js ''clientId'', c)], fw_method = js ''GET'',
              fw_headers = hs, fw_body = EmptyBody\<rparr>)"
    if rq: "wr_path rq = path" "wr_query rq = query" "header_text (wr_headers rq) (js ''upgrade'') = Some (js ''websocket'')" for rq
  proof -
    have od: "or_default (Some c) [] = c" by (simp add: or_default_def)
    consider "ws = js ''..''" | "ws = js ''.''" | "ws \<noteq> js ''.''" "ws \<noteq> js ''..''" by blast
    then show ?thesis
    proof cases
      case 1
      have "length path \<le> length (47 # p)" using dotdot_path [of p] by (simp add: path_def 1)
      then have "\<not> starts_with path ((47 # p) @ js ''/'')" by (auto simp: starts_with_iff)
      then show ?thesis using 1 by (simp add: createSyncRoute_def Let_def pre rq del: js_simps)
    next
      case 2
      have "starts_with path ((47 # p) @ js ''/'')" "drop (length (47 # p) + 1) path = []"
        by (simp_all add: path_def 2 starts_with_iff)
      then show ?thesis using 2
        by (simp add: createSyncRoute_def Let_def pre rq decode_dot_unit del: js_simps)
    next
      case 3
      have "starts_with path ((47 # p) @ js ''/'')" "drop (length (47 # p) + 1) path = w"
        using 3 by (simp_all add: path_def starts_with_iff)
      moreover have "map_option lower (Some (js ''websocket'')) = Some (js ''websocket'')" by (simp add: lower_def)
      ultimately show ?thesis using 3 assms(4,5,9,10) q(4,5) decode_encode_uri [OF u(4)] od
        unfolding createSyncRoute_def Let_def pre rq
        by (simp del: js_simps split: sum.split)
    qed
  qed
  show ?thesis using parts route by blast
qed

theorem client_url_routed_witness:
  "\<exists>path query. \<forall>rq. wr_path rq = path \<and> wr_query rq = query \<and> header_text (wr_headers rq) (js ''upgrade'') = Some (js ''websocket'') \<longrightarrow>
     createSyncRoute \<lparr>so_namespace = True, so_authorize = None, so_pathPrefix = Some (js ''/sync'')\<rparr> rq =
       (case set_text WORKSPACE_HEADER (js ''a b'') (AList.delete AUTH_HEADER (wr_headers rq)) of
          Inl e \<Rightarrow> RouteThrew e
        | Inr hs \<Rightarrow> Forward \<lparr>fw_name = js ''a b'', fw_path = path, fw_query = [(js ''clientId'', js ''c'')], fw_method = js ''GET'',
            fw_headers = hs, fw_body = EmptyBody\<rparr>)"
proof -
  have s: "js ''https'' \<in> set url_schemes" by (simp add: url_schemes_def)
  have h: "clean_host (js ''h'')" "clean_prefix (js ''/sync'')" by code_simp+
  obtain url where b: "buildSyncUrl (js ''https'' @ js ''://'' @ js ''h'' @ replicate 1 47) (js ''/sync'') (js ''a b'') (js ''c'') = Inr url"
    by (simp add: buildSyncUrl_def Let_def encodeURIComponent_def high_surrogate_def low_surrogate_def)
  have n: "js ''a b'' \<noteq> []" "js ''c'' \<noteq> []" "\<not> (47 \<in> set (js ''a b'') \<or> js ''a b'' = js ''.'' \<or> js ''a b'' = js ''..'')"
    by simp_all
  show ?thesis
    using client_url_routed [OF s h n(1,2) b disjI1 [OF refl], where opts = "\<lparr>so_namespace = True, so_authorize = None, so_pathPrefix = Some (js ''/sync'')\<rparr>"]
    unfolding if_not_P [OF n(3)] SyncFetchOptions.simps by blast
qed

section \<open>Reloads are throttled\<close>

fun fatal_reloads :: "jstr \<Rightarrow> int list \<Rightarrow> TabStorage \<Rightarrow> int list" where
  "fatal_reloads w [] tab = []"
| "fatal_reloads w (t # ts) tab =
     (case defaultFatalRecovery True w t tab of
        Inr (True, tab) \<Rightarrow> t # fatal_reloads w ts tab
      | Inr (False, tab) \<Rightarrow> fatal_reloads w ts tab
      | Inl e \<Rightarrow> fatal_reloads w ts tab)"

lemma reloads_after:
  assumes "tab_readable tab" "tab_writable tab" "encodeURIComponent w = Some key" "map_of (tab_reloads tab) key = Some t0"
  shows "sorted_wrt (\<lambda>a b. a + FATAL_RELOAD_MIN_INTERVAL_MS \<le> b) (t0 # fatal_reloads w ts tab)"
  using assms
proof (induction ts arbitrary: tab t0)
  case (Cons t ts)
  show ?case
  proof (cases "t - t0 < FATAL_RELOAD_MIN_INTERVAL_MS")
    case True
    then show ?thesis using Cons by (simp add: defaultFatalRecovery_def or_default_def)
  next
    case False
    define tab' where "tab' = tab\<lparr>tab_reloads := AList.update key t (tab_reloads tab)\<rparr>"
    have "sorted_wrt (\<lambda>a b. a + FATAL_RELOAD_MIN_INTERVAL_MS \<le> b) (t # fatal_reloads w ts tab')"
      by (rule Cons.IH) (use Cons.prems in \<open>simp_all add: tab'_def map_facts\<close>)
    moreover have "fatal_reloads w (t # ts) tab = t # fatal_reloads w ts tab'"
      using Cons.prems False by (simp add: defaultFatalRecovery_def or_default_def tab'_def)
    moreover have "0 \<le> FATAL_RELOAD_MIN_INTERVAL_MS" by (simp add: FATAL_RELOAD_MIN_INTERVAL_MS_def)
    ultimately show ?thesis using False by force
  qed
qed simp

text \<open>
  C35: The default fatal recovery never loops. Where the tab has a session storage, whatever fatal
  errors a workspace meets and whenever, over any number of page loads (the clock may even jump
  back), two reloads are at least a minute apart; and a fatal error a minute after the last
  reload, or the first one, does reload.
\<close>

theorem reloads_throttled:
  assumes "tab_readable tab" "tab_writable tab" "encodeURIComponent w = Some key"
  shows "sorted_wrt (\<lambda>a b. a + 60000 \<le> b) (fatal_reloads w ts tab) \<and>
    (60000 \<le> t - or_default (map_of (tab_reloads tab) key) 0 \<longrightarrow> fatal_reloads w (t # ts) tab \<noteq> [])"
proof -
  have "sorted_wrt (\<lambda>a b. a + FATAL_RELOAD_MIN_INTERVAL_MS \<le> b) (fatal_reloads w ts tab)"
    using assms
  proof (induction ts)
    case (Cons t ts)
    define tab' where "tab' = tab\<lparr>tab_reloads := AList.update key t (tab_reloads tab)\<rparr>"
    have "sorted_wrt (\<lambda>a b. a + FATAL_RELOAD_MIN_INTERVAL_MS \<le> b) (t # fatal_reloads w ts tab')"
      by (rule reloads_after [where key = key]) (use Cons.prems in \<open>simp_all add: tab'_def map_facts\<close>)
    then show ?case using Cons by (simp add: defaultFatalRecovery_def tab'_def)
  qed simp
  then show ?thesis using assms by (simp add: defaultFatalRecovery_def FATAL_RELOAD_MIN_INTERVAL_MS_def)
qed

theorem reloads_throttled_witness:
  "fatal_reloads (js ''w'') [100000, 130000, 160000] \<lparr>tab_readable = True, tab_writable = True, tab_clientIds = [], tab_reloads = []\<rparr>
     = [100000, 160000] \<and> sorted_wrt (\<lambda>a b. a + 60000 \<le> b) [100000, 160000 :: int]"
proof -
  let ?tab = "\<lparr>tab_readable = True, tab_writable = True, tab_clientIds = [], tab_reloads = []\<rparr> :: TabStorage"
  have e: "encodeURIComponent (js ''w'') = Some (js ''w'')" by code_simp
  have r: "fatal_reloads (js ''w'') [100000, 130000, 160000] ?tab = [100000, 160000]"
    by (simp add: defaultFatalRecovery_def e or_default_def FATAL_RELOAD_MIN_INTERVAL_MS_def del: js_simps)
  from reloads_throttled [OF _ _ e, of ?tab "[100000, 130000, 160000]"] show ?thesis unfolding r by simp
qed

end
