(* ===== verification/MutateTree.thy ===== *)
theory MutateTree
  imports Defaults
begin

text \<open>
  \<open>client.mutate\<close>, the tree of functions built from the names of an app's mutators
  (client/src/mutate.ts), and the constructor of \<open>SyncClient\<close> (client/src/client.ts), which builds
  it. An object of the tree is a plain namespace, a function, or a primitive: an arrow function
  has own properties \<open>length\<close> and \<open>name\<close>, which are a number and a string.
\<close>

section \<open>The tree\<close>

text \<open>A leaf carries the mutator it invokes; the root invokes the name it is called with.\<close>

datatype MNode = Prim | Namespace "(jstr \<times> MNode) list" | Callable "jstr option" "(jstr \<times> MNode) list"

definition own_of_function :: "(jstr \<times> MNode) list" where
  "own_of_function = [(js ''length'', Prim), (js ''name'', Prim)]"

fun own_props :: "MNode \<Rightarrow> (jstr \<times> MNode) list" where
  "own_props Prim = []"
| "own_props (Namespace ps) = ps"
| "own_props (Callable f ps) = ps"

text \<open>\<open>Object.defineProperty\<close>: a primitive target throws.\<close>

fun define_prop :: "MNode \<Rightarrow> jstr \<Rightarrow> MNode \<Rightarrow> MNode res" where
  "define_prop Prim k v = Inl (OtherError ''TypeError'')"
| "define_prop (Namespace ps) k v = Inr (Namespace (AList.update k v ps))"
| "define_prop (Callable f ps) k v = Inr (Callable f (AList.update k v ps))"

text \<open>
  \<open>Object.assign(call, existing)\<close>: assignment to \<open>length\<close> and \<open>name\<close> of a function throws.
\<close>

definition assign_kids :: "(jstr \<times> MNode) list \<Rightarrow> (jstr \<times> MNode) list res" where
  "assign_kids kids =
     (if list_ex (\<lambda>(k, v). k = js ''length'' \<or> k = js ''name'') kids then Inl (OtherError ''TypeError'')
      else Inr (spread own_of_function kids))"

text \<open>One name of the registry: its segments are walked, the last becomes the function.\<close>

fun attach_name :: "jstr list \<Rightarrow> jstr \<Rightarrow> MNode \<Rightarrow> MNode res" where
  "attach_name [] name node = Inr node"
| "attach_name [leaf] name node =
     bind_res (case map_of (own_props node) leaf of
                 Some (Namespace kids) \<Rightarrow> assign_kids kids
               | _ \<Rightarrow> Inr own_of_function)
       (\<lambda>ps. define_prop node leaf (Callable (Some name) ps))"
| "attach_name (segment # s # ss) name node =
     bind_res (case map_of (own_props node) segment of
                 Some child \<Rightarrow> Inr (node, child)
               | None \<Rightarrow> bind_res (define_prop node segment (Namespace [])) (\<lambda>node. Inr (node, Namespace [])))
       (\<lambda>(node, child). bind_res (attach_name (s # ss) name child) (\<lambda>child. define_prop node segment child))"

definition buildMutate :: "jstr list \<Rightarrow> MNode res" where
  "buildMutate names = fold_res (\<lambda>name. attach_name (split_dots [] name) name) names (Callable None own_of_function)"

text \<open>Property access along a path.\<close>

fun walk :: "jstr list \<Rightarrow> MNode \<Rightarrow> MNode option" where
  "walk [] node = Some node"
| "walk (s # ss) node = (case map_of (own_props node) s of None \<Rightarrow> None | Some child \<Rightarrow> walk ss child)"

section \<open>Every mutator is where its name says\<close>

lemma own_define: "define_prop node k v = Inr node' \<Longrightarrow> map_of (own_props node') = (map_of (own_props node))(k \<mapsto> v)"
  by (cases node) (auto simp: map_facts)

lemma define_ok: "node \<noteq> Prim \<Longrightarrow> \<exists>node'. define_prop node k v = Inr node'"
  by (cases node) auto

text \<open>What a name adds: its own leaf and the namespaces above it; every other path stays.\<close>

definition comparable :: "'x list \<Rightarrow> 'x list \<Rightarrow> bool" where
  "comparable p q \<longleftrightarrow> (\<exists>r. p = q @ r \<or> q = p @ r)"

text \<open>No node on the way is a primitive, and the leaf is not a namespace yet.\<close>

definition way_free :: "jstr list \<Rightarrow> MNode \<Rightarrow> bool" where
  "way_free p node \<longleftrightarrow> (\<forall>a b. p = a @ b \<and> b \<noteq> [] \<longrightarrow> walk a node \<noteq> Some Prim) \<and> (\<forall>ps. walk p node \<noteq> Some (Namespace ps))"

lemma way_free_child:
  assumes "way_free (s # ss) node" "map_of (own_props node) s = Some child"
  shows "way_free ss child"
  unfolding way_free_def
proof (intro conjI allI impI)
  fix a b assume "ss = a @ b \<and> b \<noteq> []"
  then have "s # ss = (s # a) @ b \<and> b \<noteq> []" by simp
  then have "walk (s # a) node \<noteq> Some Prim" using assms(1) unfolding way_free_def by blast
  then show "walk a child \<noteq> Some Prim" using assms(2) by simp
next
  fix ps
  have "walk (s # ss) node \<noteq> Some (Namespace ps)" using assms(1) unfolding way_free_def by blast
  then show "walk ss child \<noteq> Some (Namespace ps)" using assms(2) by simp
qed

lemma way_free_empty: "ss \<noteq> [] \<Longrightarrow> way_free ss (Namespace [])"
  unfolding way_free_def
proof (intro conjI allI impI)
  fix a b assume "ss \<noteq> []" "ss = a @ b \<and> b \<noteq> []"
  show "walk a (Namespace []) \<noteq> Some Prim" by (cases a) auto
next
  fix ps assume "ss \<noteq> []"
  then show "walk ss (Namespace []) \<noteq> Some (Namespace ps)" by (cases ss) auto
qed

lemma attach_walk:
  assumes "p \<noteq> []" "way_free p node"
  shows "\<exists>node'. attach_name p name node = Inr node' \<and> walk p node' = Some (Callable (Some name) own_of_function) \<and>
    (\<forall>q. \<not> comparable p q \<longrightarrow> walk q node' = walk q node) \<and>
    (\<forall>a b. p = a @ b \<and> b \<noteq> [] \<longrightarrow> (\<exists>n'. walk a node' = Some n' \<and>
       (case walk a node of None \<Rightarrow> \<exists>ps. n' = Namespace ps
        | Some (Namespace _) \<Rightarrow> \<exists>ps. n' = Namespace ps | Some (Callable f _) \<Rightarrow> \<exists>ps. n' = Callable f ps | Some Prim \<Rightarrow> False)))"
  using assms
proof (induction p name node rule: attach_name.induct)
  case (2 leaf name node)
  have n: "node \<noteq> Prim" using "2.prems" unfolding way_free_def by (metis append_Nil not_Cons_self2 walk.simps(1))
  have "walk [leaf] node \<noteq> Some (Namespace ps)" for ps using "2.prems" unfolding way_free_def by blast
  then have nn: "map_of (own_props node) leaf \<noteq> Some (Namespace ps)" for ps
    by (metis option.simps(5) walk.simps)
  have e: "(case map_of (own_props node) leaf of Some (Namespace kids) \<Rightarrow> assign_kids kids | _ \<Rightarrow> Inr own_of_function)
      = Inr own_of_function"
    by (cases "map_of (own_props node) leaf") (auto simp: nn split: MNode.split)
  obtain node' where d: "define_prop node leaf (Callable (Some name) own_of_function) = Inr node'"
    using define_ok [OF n] by blast
  note m = own_define [OF d]
  have kind: "case node of Namespace _ \<Rightarrow> \<exists>ps. node' = Namespace ps | Callable f _ \<Rightarrow> \<exists>ps. node' = Callable f ps | Prim \<Rightarrow> False"
    using d by (cases node) auto
  have other: "walk q node' = walk q node" if "\<not> comparable [leaf] q" for q
  proof (cases q)
    case Nil
    then show ?thesis using that by (simp add: comparable_def)
  next
    case (Cons x xs)
    then have "x \<noteq> leaf" using that by (auto simp: comparable_def)
    then show ?thesis by (simp add: Cons m)
  qed
  have nil: "a = []" if l: "[leaf] = a @ b" "b \<noteq> []" for a b using l by (cases a) auto
  show ?case
  proof (rule exI [of _ node'], intro conjI allI impI)
    show "attach_name [leaf] name node = Inr node'" using e d by simp
    show "walk [leaf] node' = Some (Callable (Some name) own_of_function)" using m by simp
  next
    fix q assume "\<not> comparable [leaf] q"
    then show "walk q node' = walk q node" by (rule other)
  next
    fix a b assume "[leaf] = a @ b \<and> b \<noteq> []"
    then have "a = []" using nil by blast
    then show "\<exists>n'. walk a node' = Some n' \<and>
       (case walk a node of None \<Rightarrow> \<exists>ps. n' = Namespace ps
        | Some (Namespace _) \<Rightarrow> \<exists>ps. n' = Namespace ps | Some (Callable f _) \<Rightarrow> \<exists>ps. n' = Callable f ps | Some Prim \<Rightarrow> False)"
      using kind by (auto split: MNode.splits)
  qed
next
  case (3 s t ss name node)
  have n: "node \<noteq> Prim" using "3.prems" unfolding way_free_def by (metis append_Nil list.distinct(1) walk.simps(1))
  obtain node1 child where c: "(case map_of (own_props node) s of
                 Some child \<Rightarrow> Inr (node, child)
               | None \<Rightarrow> bind_res (define_prop node s (Namespace [])) (\<lambda>node. Inr (node, Namespace []))) = (Inr (node1, child) :: (MNode \<times> MNode) res)"
      and free: "way_free (t # ss) child" and n1: "node1 \<noteq> Prim"
      and kind1: "case node of Namespace _ \<Rightarrow> \<exists>ps. node1 = Namespace ps | Callable f _ \<Rightarrow> \<exists>ps. node1 = Callable f ps | Prim \<Rightarrow> False"
      and m1: "\<And>x. x \<noteq> s \<Longrightarrow> map_of (own_props node1) x = map_of (own_props node) x"
      and old: "map_of (own_props node) s = Some child \<or> map_of (own_props node) s = None \<and> child = Namespace []"
  proof (cases "map_of (own_props node) s")
    case None
    obtain node1 where d: "define_prop node s (Namespace []) = Inr node1" using define_ok [OF n] by blast
    have "case node of Namespace _ \<Rightarrow> \<exists>ps. node1 = Namespace ps | Callable f _ \<Rightarrow> \<exists>ps. node1 = Callable f ps | Prim \<Rightarrow> False"
      using d by (cases node) auto
    then show thesis using that [of node1 "Namespace []"] None d own_define [OF d] way_free_empty [of "t # ss"]
      by (auto split: MNode.splits)
  next
    case (Some child)
    then show thesis using that [of node child] way_free_child [OF "3.prems"(2)] n by (auto split: MNode.splits)
  qed
  from "3.IH" [OF list.distinct(2) free] obtain child' where C: "attach_name (t # ss) name child = Inr child'"
      "walk (t # ss) child' = Some (Callable (Some name) own_of_function)"
      "\<forall>q. \<not> comparable (t # ss) q \<longrightarrow> walk q child' = walk q child"
      "\<forall>a b. t # ss = a @ b \<and> b \<noteq> [] \<longrightarrow> (\<exists>n'. walk a child' = Some n' \<and>
       (case walk a child of None \<Rightarrow> \<exists>ps. n' = Namespace ps
        | Some (Namespace _) \<Rightarrow> \<exists>ps. n' = Namespace ps | Some (Callable f _) \<Rightarrow> \<exists>ps. n' = Callable f ps | Some Prim \<Rightarrow> False))"
    by auto
  obtain node' where d: "define_prop node1 s child' = Inr node'" using define_ok [OF n1] by blast
  note m = own_define [OF d]
  have kind: "case node of Namespace _ \<Rightarrow> \<exists>ps. node' = Namespace ps | Callable f _ \<Rightarrow> \<exists>ps. node' = Callable f ps | Prim \<Rightarrow> False"
    using d kind1 by (cases node1) (auto split: MNode.splits)
  show ?case
  proof (rule exI [of _ node'], intro conjI allI impI)
    show "attach_name (s # t # ss) name node = Inr node'" using c C(1) d by simp
    show "walk (s # t # ss) node' = Some (Callable (Some name) own_of_function)" using C(2) m by simp
  next
    fix q assume q: "\<not> comparable (s # t # ss) q"
    show "walk q node' = walk q node"
    proof (cases q)
      case Nil
      then show ?thesis using q by (simp add: comparable_def)
    next
      case (Cons x xs)
      show ?thesis
      proof (cases "x = s")
        case True
        have nc: "\<not> comparable (t # ss) xs" using q Cons True by (auto simp: comparable_def)
        then obtain y ys where xs: "xs = y # ys" by (cases xs) (auto simp: comparable_def)
        have "walk q node' = walk xs child" using C(3) nc Cons True m by simp
        then show ?thesis using old Cons True xs by auto
      next
        case False
        then show ?thesis using Cons m m1 by simp
      qed
    qed
  next
    fix a b assume ab: "s # t # ss = a @ b \<and> b \<noteq> []"
    show "\<exists>n'. walk a node' = Some n' \<and>
       (case walk a node of None \<Rightarrow> \<exists>ps. n' = Namespace ps
        | Some (Namespace _) \<Rightarrow> \<exists>ps. n' = Namespace ps | Some (Callable f _) \<Rightarrow> \<exists>ps. n' = Callable f ps | Some Prim \<Rightarrow> False)"
    proof (cases a)
      case Nil
      then show ?thesis using kind by (auto split: MNode.splits)
    next
      case (Cons x xs)
      then have x: "x = s" "t # ss = xs @ b" "b \<noteq> []" using ab by auto
      with C(4) obtain n' where n': "walk xs child' = Some n'" "case walk xs child of None \<Rightarrow> \<exists>ps. n' = Namespace ps
        | Some (Namespace _) \<Rightarrow> \<exists>ps. n' = Namespace ps | Some (Callable f _) \<Rightarrow> \<exists>ps. n' = Callable f ps | Some Prim \<Rightarrow> False"
        by blast
      have "walk a node' = Some n'" using n'(1) Cons x m by simp
      moreover have "walk a node = walk xs child \<or> walk a node = None \<and> (\<exists>ps. n' = Namespace ps)"
        using old n'(2) Cons x by (cases xs) (auto split: option.splits MNode.splits)
      ultimately show ?thesis using n'(2) by auto
    qed
  qed
qed simp

lemma join_dots: "join_with [0x2E] (split_dots acc s) = acc @ s \<and> split_dots acc s \<noteq> []"
proof (induction s arbitrary: acc)
  case (Cons c s)
  show ?case
  proof (cases "c = 0x2E")
    case True
    then show ?thesis using Cons.IH [of "[]"] by (cases "split_dots [] s") auto
  next
    case False
    then show ?thesis using Cons.IH [of "acc @ [c]"] by simp
  qed
qed simp

lemma join_append: "xs \<noteq> [] \<Longrightarrow> ys \<noteq> [] \<Longrightarrow> join_with sep (xs @ ys) = join_with sep xs @ sep @ join_with sep ys"
proof (induction xs)
  case (Cons x xs)
  then show ?case by (cases xs; cases ys) auto
qed simp

lemma comparable_names:
  assumes "comparable (split_dots [] a) (split_dots [] b)"
  shows "a = b \<or> (\<exists>q. b = a @ 0x2E # q) \<or> (\<exists>q. a = b @ 0x2E # q)"
proof -
  have d: "a = b \<or> (\<exists>q. b = a @ 0x2E # q)" if e: "split_dots [] b = split_dots [] a @ r" for a b r
  proof (cases "r = []")
    case True
    then show ?thesis using e join_dots [of "[]" a] join_dots [of "[]" b] by simp
  next
    case False
    have "b = a @ [0x2E] @ join_with [0x2E] r"
      using join_append [OF _ False, of "split_dots [] a" "[0x2E]"] e join_dots [of "[]" a] join_dots [of "[]" b] by simp
    then show ?thesis by auto
  qed
  show ?thesis using assms d unfolding comparable_def by metis
qed

text \<open>The heads a function has as primitives, and the names that would extend them.\<close>

definition function_heads :: "jstr list" where
  "function_heads = [js ''length'', js ''name'']"

definition extends_head :: "jstr \<Rightarrow> bool" where
  "extends_head name \<longleftrightarrow> (\<exists>s \<in> set function_heads. \<exists>r. r \<noteq> [] \<and> split_dots [] name = s # r)"

definition tree_ok :: "jstr set \<Rightarrow> MNode \<Rightarrow> bool" where
  "tree_ok T root \<longleftrightarrow> root \<noteq> Prim \<and> (\<forall>t \<in> T. walk (split_dots [] t) root = Some (Callable (Some t) own_of_function) \<and> \<not> extends_head t) \<and>
    (\<forall>p node. p \<noteq> [] \<and> walk p root = Some node \<longrightarrow>
       (\<exists>t \<in> T. p = split_dots [] t \<and> node = Callable (Some t) own_of_function) \<or>
       (\<exists>t \<in> T. \<exists>r. r \<noteq> [] \<and> split_dots [] t = p @ r) \<and> (\<exists>ps. node = Namespace ps) \<or>
       (\<exists>t \<in> T. \<exists>r. r \<noteq> [] \<and> p = split_dots [] t @ r) \<or>
       node = Prim \<and> (\<exists>s \<in> set function_heads. p = [s])) \<and>
    (\<forall>s \<in> set function_heads. walk [s] root = Some Prim \<or> (\<exists>t \<in> T. comparable (split_dots [] t) [s]))"

lemma tree_start: "tree_ok {} (Callable None own_of_function)"
proof -
  have "node = Prim \<and> (\<exists>s \<in> set function_heads. p = [s])" if w: "p \<noteq> []" "walk p (Callable None own_of_function) = Some node" for p node
  proof -
    obtain s ss where p: "p = s # ss" using w by (cases p) auto
    then show ?thesis using w by (cases ss) (auto simp: own_of_function_def function_heads_def split: if_splits simp del: js_simps)
  qed
  then show ?thesis by (auto simp: tree_ok_def function_heads_def own_of_function_def simp del: js_simps)
qed

lemma attach_prim: "map_of (own_props node) s = Some Prim \<Longrightarrow> ss \<noteq> [] \<Longrightarrow> \<exists>e. attach_name (s # ss) name node = Inl e"
  by (cases ss; cases "tl ss") auto

lemma tree_step:
  assumes "tree_ok T root" "\<And>t. t \<in> T \<Longrightarrow> \<not> comparable (split_dots [] t) (split_dots [] name)"
  shows "if extends_head name then \<exists>e. attach_name (split_dots [] name) name root = Inl e
    else \<exists>root'. attach_name (split_dots [] name) name root = Inr root' \<and> tree_ok (insert name T) root'"
proof -
  let ?S = "split_dots []" and ?p = "split_dots [] name"
  have ne: "?p \<noteq> []" using join_dots by blast
  have root: "root \<noteq> Prim" using assms(1) by (simp add: tree_ok_def)
  have leaf: "walk (?S t) root = Some (Callable (Some t) own_of_function)" "\<not> extends_head t" if "t \<in> T" for t
    using assms(1) that unfolding tree_ok_def by blast+
  have cls: "(\<exists>t \<in> T. p = ?S t \<and> node = Callable (Some t) own_of_function) \<or>
       (\<exists>t \<in> T. \<exists>r. r \<noteq> [] \<and> ?S t = p @ r) \<and> (\<exists>ps. node = Namespace ps) \<or>
       (\<exists>t \<in> T. \<exists>r. r \<noteq> [] \<and> p = ?S t @ r) \<or> node = Prim \<and> (\<exists>s \<in> set function_heads. p = [s])"
    if "p \<noteq> []" "walk p root = Some node" for p node
    using assms(1) that unfolding tree_ok_def by blast
  have heads: "walk [s] root = Some Prim \<or> (\<exists>t \<in> T. comparable (?S t) [s])" if "s \<in> set function_heads" for s
    using assms(1) that unfolding tree_ok_def by blast
  show ?thesis
  proof (cases "extends_head name")
    case True
    then obtain s r where s: "s \<in> set function_heads" "r \<noteq> []" "?p = s # r" unfolding extends_head_def by blast
    have "\<not> comparable (?S t) [s]" if "t \<in> T" for t
    proof
      assume c: "comparable (?S t) [s]"
      obtain x xs where x: "?S t = x # xs" using join_dots by (metis list.exhaust)
      with c have "x = s" by (auto simp: comparable_def Cons_eq_append_conv)
      show False
      proof (cases xs)
        case Nil
        then have "split_dots [] name = ?S t @ r" using x s(3) \<open>x = s\<close> by simp
        then show False using assms(2) [OF that] unfolding comparable_def by blast
      next
        case (Cons y ys)
        then show False using leaf(2) [OF that] x \<open>x = s\<close> s(1) unfolding extends_head_def by blast
      qed
    qed
    then have "map_of (own_props root) s = Some Prim" using heads [OF s(1)] by (auto split: option.splits)
    from attach_prim [OF this s(2)] show ?thesis using True s(3) by simp
  next
    case False
    have free: "way_free ?p root"
      unfolding way_free_def
    proof (intro conjI allI impI)
      fix a b assume ab: "?p = a @ b \<and> b \<noteq> []"
      show "walk a root \<noteq> Some Prim"
      proof
        assume w: "walk a root = Some Prim"
        then have "a \<noteq> []" using root by auto
        from cls [OF this w] consider t r where "t \<in> T" "a = ?S t @ r" | s where "s \<in> set function_heads" "a = [s]" by blast
        then show False
        proof cases
          case 1
          then show False using assms(2) [of t] ab by (simp add: comparable_def)
        next
          case 2
          then show False using False ab unfolding extends_head_def by auto
        qed
      qed
    next
      fix ps
      show "walk ?p root \<noteq> Some (Namespace ps)"
      proof
        assume "walk ?p root = Some (Namespace ps)"
        from cls [OF ne this] obtain t r where "t \<in> T" "?S t = ?p @ r \<or> ?p = ?S t @ r" by auto
        then show False using assms(2) [of t] by (auto simp: comparable_def)
      qed
    qed
    from attach_walk [OF ne free, of name] obtain root' where A: "attach_name ?p name root = Inr root'"
        "walk ?p root' = Some (Callable (Some name) own_of_function)"
        "\<And>q. \<not> comparable ?p q \<Longrightarrow> walk q root' = walk q root"
        "\<And>a b. ?p = a @ b \<Longrightarrow> b \<noteq> [] \<Longrightarrow> (\<exists>n'. walk a root' = Some n' \<and>
       (case walk a root of None \<Rightarrow> \<exists>ps. n' = Namespace ps
        | Some (Namespace _) \<Rightarrow> \<exists>ps. n' = Namespace ps | Some (Callable f _) \<Rightarrow> \<exists>ps. n' = Callable f ps | Some Prim \<Rightarrow> False))"
      by blast
    have nc: "\<not> comparable ?p (?S t)" if "t \<in> T" for t using assms(2) [OF that] by (auto simp: comparable_def)
    have "root' \<noteq> Prim" using A(4) [of "[]" ?p] ne by (auto split: MNode.splits option.splits)
    moreover have "walk (?S t) root' = Some (Callable (Some t) own_of_function) \<and> \<not> extends_head t" if "t \<in> insert name T" for t
      using that A(2) False A(3) [OF nc] leaf by auto
    moreover have "(\<exists>t \<in> insert name T. p = ?S t \<and> node = Callable (Some t) own_of_function) \<or>
       (\<exists>t \<in> insert name T. \<exists>r. r \<noteq> [] \<and> ?S t = p @ r) \<and> (\<exists>ps. node = Namespace ps) \<or>
       (\<exists>t \<in> insert name T. \<exists>r. r \<noteq> [] \<and> p = ?S t @ r) \<or> node = Prim \<and> (\<exists>s \<in> set function_heads. p = [s])"
      if p: "p \<noteq> []" "walk p root' = Some node" for p node
    proof (cases "comparable ?p p")
      case True
      then consider "p = ?p" | r where "r \<noteq> []" "p = ?p @ r" | r where "r \<noteq> []" "?p = p @ r"
        unfolding comparable_def by (metis append_Nil2)
      then show ?thesis
      proof cases
        case 3
        have "\<exists>ps. node = Namespace ps"
        proof (cases "walk p root")
          case None
          then show ?thesis using A(4) [OF 3(2,1)] p(2) by auto
        next
          case (Some old)
          have "p \<noteq> ?S t @ r'" if t: "t \<in> T" for t r'
          proof
            assume "p = ?S t @ r'"
            then have "?p = ?S t @ (r' @ r)" using 3(2) by simp
            then show False using assms(2) [OF t] unfolding comparable_def by blast
          qed
          then have "\<not> (\<exists>t \<in> T. \<exists>r. p = ?S t @ r)" "\<not> (\<exists>t \<in> T. p = ?S t)" by (blast, metis append_Nil2)
          moreover have "old \<noteq> Prim" using free 3 Some unfolding way_free_def by blast
          ultimately have "\<exists>ps. old = Namespace ps" using cls [OF p(1) Some] by blast
          then show ?thesis using A(4) [OF 3(2,1)] p(2) Some by auto
        qed
        then show ?thesis using 3 by blast
      qed (use A(2) p in auto)
    next
      case False
      then have "walk p root = Some node" using A(3) p(2) by simp
      from cls [OF p(1) this] show ?thesis by blast
    qed
    moreover have "walk [s] root' = Some Prim \<or> (\<exists>t \<in> insert name T. comparable (?S t) [s])" if s: "s \<in> set function_heads" for s
      using heads [OF s] A(3) [of "[s]"] by (cases "comparable ?p [s]") auto
    ultimately have "tree_ok (insert name T) root'" unfolding tree_ok_def by blast
    then show ?thesis using A(1) False by simp
  qed
qed

lemma tree_fold:
  assumes "tree_ok T root" "distinct names" "set names \<inter> T = {}"
    and "\<And>a b. a \<in> set names \<union> T \<Longrightarrow> b \<in> set names \<union> T \<Longrightarrow> a \<noteq> b \<Longrightarrow> \<not> comparable (split_dots [] a) (split_dots [] b)"
  shows "if list_ex extends_head names then \<exists>e. fold_res (\<lambda>name. attach_name (split_dots [] name) name) names root = Inl e
    else \<exists>root'. fold_res (\<lambda>name. attach_name (split_dots [] name) name) names root = Inr root' \<and> tree_ok (T \<union> set names) root'"
  using assms
proof (induction names arbitrary: T root)
  case (Cons name names)
  have nc: "\<not> comparable (split_dots [] t) (split_dots [] name)" if "t \<in> T" for t
    by (rule Cons.prems(4)) (use that Cons.prems(3) in auto)
  note S = tree_step [OF Cons.prems(1) nc]
  show ?case
  proof (cases "extends_head name")
    case True
    then show ?thesis using S by auto
  next
    case False
    then obtain root' where r: "attach_name (split_dots [] name) name root = Inr root'" "tree_ok (insert name T) root'" using S by auto
    have "set names \<inter> insert name T = {}" "distinct names" using Cons.prems(2,3) by auto
    from Cons.IH [OF r(2) this(2,1)] Cons.prems(4) show ?thesis using False r(1) by (simp split: if_splits)
  qed
qed simp

text \<open>
  C33: \<open>client.mutate\<close> finds every mutator. For the names of any registry that \<open>defineMutators\<close>
  accepts, in any order, the tree is built and the properties along a name's segments lead to
  the function that invokes exactly that mutator - unless a name starts with \<open>length.\<close> or
  \<open>name.\<close>: these are primitives of the root function, so building the tree, and with it the
  client, throws, for a registry that was accepted.
\<close>

theorem mutate_tree:
  assumes "defineMutators defs auth = Inr reg" "set names = set (map fst defs)" "distinct names"
  shows "if \<exists>head \<in> {js ''length'', js ''name''}. \<exists>rest. head @ 0x2E # rest \<in> set names then \<exists>e. buildMutate names = Inl e
    else \<exists>root. buildMutate names = Inr root \<and>
      (\<forall>name \<in> set names. walk (split_dots [] name) root = Some (Callable (Some name) own_of_function))"
proof -
  have free: "\<not> (\<exists>p q. p \<in> set names \<and> p @ 0x2E # q \<in> set names)"
    using assms(1,2) by (simp add: defineMutators_iff)
  have "\<not> comparable (split_dots [] a) (split_dots [] b)" if "a \<in> set names \<union> {}" "b \<in> set names \<union> {}" "a \<noteq> b" for a b
    using comparable_names [of a b] free that by blast
  from tree_fold [OF tree_start assms(3) Int_empty_right this] have F: "if list_ex extends_head names then \<exists>e. buildMutate names = Inl e
    else \<exists>root. buildMutate names = Inr root \<and> tree_ok (set names) root"
    unfolding buildMutate_def Un_empty_left .
  have split: "split_dots acc (s @ 0x2E # r) = (acc @ s) # split_dots [] r" if "0x2E \<notin> set s" for acc s r
    using that by (induction s arbitrary: acc) auto
  have heads: "extends_head name \<longleftrightarrow> (\<exists>head \<in> {js ''length'', js ''name''}. \<exists>rest. name = head @ 0x2E # rest)" for name
  proof
    assume "extends_head name"
    then obtain h r where h: "h \<in> {js ''length'', js ''name''}" "r \<noteq> []" "split_dots [] name = h # r"
      by (auto simp: extends_head_def function_heads_def simp del: js_simps)
    then have "name = h @ [0x2E] @ join_with [0x2E] r"
      using join_append [of "[h]" r "[0x2E]"] join_dots [of "[]" name] by simp
    then show "\<exists>head \<in> {js ''length'', js ''name''}. \<exists>rest. name = head @ 0x2E # rest" using h(1) by auto
  next
    assume "\<exists>head \<in> {js ''length'', js ''name''}. \<exists>rest. name = head @ 0x2E # rest"
    then obtain h r where h: "h \<in> set function_heads" "name = h @ 0x2E # r" by (auto simp: function_heads_def simp del: js_simps)
    then have "0x2E \<notin> set h" by (auto simp: function_heads_def)
    then have "split_dots [] name = h # split_dots [] r" using split h(2) by simp
    then show "extends_head name" using h(1) join_dots unfolding extends_head_def by blast
  qed
  have swap: "(\<exists>x \<in> X. \<exists>h \<in> H. \<exists>r. x = h @ 0x2E # r) \<longleftrightarrow> (\<exists>h \<in> H. \<exists>r. h @ 0x2E # r \<in> X)" for X H :: "jstr set"
    by blast
  have eq: "list_ex extends_head names \<longleftrightarrow> (\<exists>head \<in> {js ''length'', js ''name''}. \<exists>rest. head @ 0x2E # rest \<in> set names)"
    unfolding list_ex_iff heads by (rule swap)
  show ?thesis
  proof (cases "list_ex extends_head names")
    case True
    then show ?thesis using F unfolding eq [symmetric] by (simp only: if_True)
  next
    case False
    then obtain root where "buildMutate names = Inr root" "tree_ok (set names) root" using F by auto
    then show ?thesis using False unfolding eq [symmetric] tree_ok_def by (simp only: if_False) blast
  qed
qed

theorem mutate_tree_witness:
  "\<exists>root. buildMutate [js ''todos.clear'', js ''name''] = Inr root \<and>
     walk [js ''todos'', js ''clear''] root = Some (Callable (Some (js ''todos.clear'')) own_of_function)"
proof -
  let ?d = "\<lparr>def_args = None, def_apply = (\<lambda>args ctx. Done)\<rparr>"
  have d: "defineMutators [(js ''todos.clear'', ?d), (js ''name'', ?d)] None = Inr \<lparr>reg_defs = [(js ''todos.clear'', ?d), (js ''name'', ?d)], reg_auth = None\<rparr>"
    by (simp add: defineMutators_def check_name_def)
  have s: "split_dots [] (js ''todos.clear'') = [js ''todos'', js ''clear'']" by simp
  have n: "\<not> (\<exists>head \<in> {js ''length'', js ''name''}. \<exists>rest. head @ 0x2E # rest \<in> set [js ''todos.clear'', js ''name''])" by auto
  from mutate_tree [OF d, of "[js ''todos.clear'', js ''name'']"] obtain root where
    "buildMutate [js ''todos.clear'', js ''name''] = Inr root"
    "walk (split_dots [] (js ''todos.clear'')) root = Some (Callable (Some (js ''todos.clear'')) own_of_function)"
    unfolding if_not_P [OF n] by auto
  then show ?thesis unfolding s by blast
qed

section \<open>The constructor\<close>

text \<open>
  The options of the constructor; \<open>ko_rest\<close> holds those the running client reads, of which the
  client id, the store and the parsed auth context are set here.
\<close>

record ConstructorOptions =
  ko_workspaceId :: jstr
  ko_url :: jstr
  ko_pathPrefix :: "jstr option"
  ko_clientId :: "jstr option"
  ko_store :: bool
  ko_persist :: bool
  ko_initialPresence :: "jval option"
  ko_autoStart :: "bool option"
  ko_rest :: SyncClientOptions

record ConstructedClient =
  cc_options :: SyncClientOptions
  cc_url :: jstr
  cc_mutate :: MNode
  cc_client :: Client

definition client_auth :: "AppDefinition \<Rightarrow> jval option \<Rightarrow> jval option res" where
  "client_auth app auth =
     (case (auth, app_authContext app) of
        (Some a, Some validate) \<Rightarrow>
          (case validate a of
             VAsync \<Rightarrow> Inl (OtherError ''SyncClient: async authContext validation is not supported'')
           | VIssues issues \<Rightarrow> Inl (OtherError ''SyncClient: authContext fails the app's authContext schema'')
           | VValue v \<Rightarrow> Inr (Some v))
      | _ \<Rightarrow> Inr auth)"

text \<open>Whether a store is used; \<open>idb\<close> tells whether IndexedDB can be opened.\<close>

definition createDefaultStore :: "bool \<Rightarrow> bool" where
  "createDefaultStore idb = idb"

definition construct_client ::
  "ConstructorOptions \<Rightarrow> ClientEnv \<Rightarrow> jstr \<Rightarrow> bool \<Rightarrow> TabStorage \<Rightarrow> ConstructedClient res \<times> TabStorage" where
  "construct_client opts ev fresh idb tab =
     (let app = co_app (ko_rest opts); ws = ko_workspaceId opts in
      if ws = [] then (Inl (OtherError ''SyncClient: workspaceId is required''), tab)
      else if ko_store opts \<and> ko_persist opts then
        (Inl (OtherError ''SyncClient: pass either `store` or `persist`, not both''), tab)
      else case client_auth app (co_auth (ko_rest opts)) of
        Inl e \<Rightarrow> (Inl e, tab)
      | Inr auth \<Rightarrow>
          (case (case ko_clientId opts of Some c \<Rightarrow> Inr (c, tab) | None \<Rightarrow> defaultClientId ws fresh tab) of
             Inl e \<Rightarrow> (Inl e, tab)
           | Inr (clientId, tab) \<Rightarrow>
               (bind_res (buildSyncUrl (ko_url opts) (or_default (ko_pathPrefix opts) (js ''/sync'')) ws clientId) (\<lambda>url.
                bind_res (buildMutate (map fst (app_mutators app))) (\<lambda>tree.
                  let cfg = (ko_rest opts)\<lparr>co_clientId := clientId,
                        co_store := ko_store opts \<or> ko_persist opts \<and> createDefaultStore idb, co_auth := auth\<rparr>
                  in case (case ko_initialPresence opts of
                             None \<Rightarrow> (None, new_client) | Some p \<Rightarrow> presenceSet cfg ev p new_client) of
                    (Some e, st) \<Rightarrow> Inl e
                  | (None, st) \<Rightarrow>
                      Inr \<lparr>cc_options = cfg, cc_url = url, cc_mutate = tree,
                           cc_client = (if ko_autoStart opts = Some False then st else snd (start cfg ev st))\<rparr>)), tab)))"

text \<open>
  What a constructor returns: a client whose state begins a history, so that every property of
  histories is about it, with the URL of its own id.
\<close>

lemma constructed_history:
  assumes "construct_client opts ev fresh idb tab = (Inr b, tab')"
  shows "client_history (cc_options b) cv (cc_client b) \<and>
    buildSyncUrl (ko_url opts) (or_default (ko_pathPrefix opts) (js ''/sync'')) (ko_workspaceId opts) (co_clientId (cc_options b)) = Inr (cc_url b) \<and>
    buildMutate (map fst (app_mutators (co_app (cc_options b)))) = Inr (cc_mutate b) \<and> ko_workspaceId opts \<noteq> []"
proof -
  have set: "client_history cfg cv (snd (presenceSet cfg ev p new_client))" for cfg p
    using client_history.event [OF client_history.created, of "SetPresence p" cfg cv ev] by simp
  have start: "client_history cfg cv st \<Longrightarrow> client_history cfg cv (snd (start cfg ev st))" for cfg st
    using client_history.event [of cfg cv st Start ev] by simp
  let ?app = "co_app (ko_rest opts)"
  obtain auth where a: "client_auth ?app (co_auth (ko_rest opts)) = Inr auth" and ne: "ko_workspaceId opts \<noteq> []"
    using assms by (auto simp: construct_client_def Let_def split: if_splits sum.splits)
  obtain c tab1 where c: "(case ko_clientId opts of Some c \<Rightarrow> Inr (c, tab) | None \<Rightarrow> defaultClientId (ko_workspaceId opts) fresh tab) = (Inr (c, tab1) :: (jstr \<times> TabStorage) res)"
    using assms a ne by (auto simp: construct_client_def Let_def split: if_splits sum.splits)
  define cfg where "cfg = (ko_rest opts)\<lparr>co_clientId := c, co_store := ko_store opts \<or> ko_persist opts \<and> createDefaultStore idb, co_auth := auth\<rparr>"
  have "bind_res (buildSyncUrl (ko_url opts) (or_default (ko_pathPrefix opts) (js ''/sync'')) (ko_workspaceId opts) c) (\<lambda>url.
      bind_res (buildMutate (map fst (app_mutators ?app))) (\<lambda>tree.
        case (case ko_initialPresence opts of None \<Rightarrow> (None, new_client) | Some p \<Rightarrow> presenceSet cfg ev p new_client) of
          (Some e, st) \<Rightarrow> Inl e
        | (None, st) \<Rightarrow> Inr \<lparr>cc_options = cfg, cc_url = url, cc_mutate = tree,
                             cc_client = (if ko_autoStart opts = Some False then st else snd (start cfg ev st))\<rparr>)) = Inr b"
    using assms a ne c unfolding cfg_def construct_client_def Let_def by (auto simp del: js_simps split: if_splits)
  then obtain url tree where u: "buildSyncUrl (ko_url opts) (or_default (ko_pathPrefix opts) (js ''/sync'')) (ko_workspaceId opts) c = Inr url"
      "buildMutate (map fst (app_mutators ?app)) = Inr tree"
    and b: "(case (case ko_initialPresence opts of None \<Rightarrow> (None, new_client) | Some p \<Rightarrow> presenceSet cfg ev p new_client) of
        (Some e, st) \<Rightarrow> Inl e
      | (None, st) \<Rightarrow> Inr \<lparr>cc_options = cfg, cc_url = url, cc_mutate = tree,
                           cc_client = (if ko_autoStart opts = Some False then st else snd (start cfg ev st))\<rparr>) = Inr b"
    unfolding bind_res_Inr_iff by blast
  obtain st where st: "client_history cfg cv st" "b = \<lparr>cc_options = cfg, cc_url = url, cc_mutate = tree,
      cc_client = (if ko_autoStart opts = Some False then st else snd (start cfg ev st))\<rparr>"
  proof (cases "ko_initialPresence opts")
    case None
    then show thesis using b that [OF client_history.created] by simp
  next
    case (Some p)
    obtain r st where p: "presenceSet cfg ev p new_client = (r, st)" by (cases "presenceSet cfg ev p new_client")
    then show thesis using b Some set [of cfg p] that [of st] by (cases r) auto
  qed
  have "co_clientId cfg = c" "co_app cfg = ?app" by (simp_all add: cfg_def)
  then show ?thesis using st u ne start by simp
qed

end
