(* ===== verification/CollectionSync.thy ===== *)
theory CollectionSync
  imports Collections
begin

text \<open>
  A collection's life, client/src/collection.ts: its hooks register with the client when its
  options are created, TanStack starts its sync, later cleans it up, and may start it again. The
  applier through which mutators read and write the collection, and \<open>createCollections\<close>. A
  collection of the library is the rows it was given and whether it was marked ready.
\<close>

section \<open>The sync of a collection\<close>

record CollectionSync =
  cs_gate :: HookGate
  cs_registered :: bool
  cs_syncedKeys :: "jstr set"

datatype AdapterCall = RegisterHooks | UnregisterHooks | RegisterApplierOf | ToCollection CollectionCall

text \<open>The state of \<open>workspaceCollectionOptions\<close>, which has just registered the gate.\<close>

definition workspaceCollectionOptions :: "schema \<Rightarrow> mutators \<Rightarrow> jstr \<Rightarrow> (AdapterCall list \<times> CollectionSync) res" where
  "workspaceCollectionOptions sch muts table =
     bind_res (check_collection sch muts table)
       (\<lambda>_. Inr ([RegisterHooks], \<lparr>cs_gate = createHookGate, cs_registered = True, cs_syncedKeys = {}\<rparr>))"

definition sync_start :: "CollectionSync \<Rightarrow> AdapterCall list \<times> CollectionSync" where
  "sync_start s =
     (let (out, g) = gate_attach (cs_gate s); (calls, ks) = collection_run out {} in
      (RegisterApplierOf # (if cs_registered s then [] else [RegisterHooks]) @ map ToCollection calls,
       \<lparr>cs_gate = g, cs_registered = True, cs_syncedKeys = ks\<rparr>))"

definition sync_cleanup :: "CollectionSync \<Rightarrow> AdapterCall list \<times> CollectionSync" where
  "sync_cleanup s = ([UnregisterHooks], s\<lparr>cs_gate := gate_detach (cs_gate s), cs_registered := False\<rparr>)"

text \<open>A call of the registered hooks by the client.\<close>

definition sync_hook :: "HookCall \<Rightarrow> CollectionSync \<Rightarrow> AdapterCall list \<times> CollectionSync" where
  "sync_hook c s =
     (let (out, g) = gate_call c (cs_gate s); (calls, ks) = collection_run out (cs_syncedKeys s) in
      (map ToCollection calls, s\<lparr>cs_gate := g, cs_syncedKeys := ks\<rparr>))"

section \<open>The applier\<close>

definition virtual_props :: "jstr list" where
  "virtual_props = [js ''$synced'', js ''$origin'', js ''$key'', js ''$collectionId'']"

definition stripVirtualProps :: "jobj \<Rightarrow> jobj" where
  "stripVirtualProps row = filter (\<lambda>(k, v). k \<notin> set virtual_props) row"

text \<open>The applier's reads of a collection, an ordered map from keys to rows.\<close>

definition collectionApplier :: "(jstr \<times> jobj) list \<Rightarrow> TableApplier" where
  "collectionApplier rows =
     \<lparr>ap_has = (\<lambda>i. map_of rows i \<noteq> None), ap_get = (\<lambda>i. map_option stripVirtualProps (map_of rows i)),
      ap_list = map (\<lambda>(i, row). (i, stripVirtualProps row)) rows\<rparr>"

text \<open>
  The applier's update of a draft; \<open>key in data\<close> also finds the properties of \<open>Object.prototype\<close>.
\<close>

definition replace_draft :: "jobj \<Rightarrow> jobj \<Rightarrow> jobj" where
  "replace_draft data draft =
     fold (\<lambda>(k, v). AList.update k v) data (filter (\<lambda>(k, v). prop_get data k \<noteq> Absent) draft)"

text \<open>
  The transaction of an intent: \<open>writes\<close> is what its flush left in the library's transaction.
  One without mutations is not persisted by the library, so the runner does it.
\<close>

datatype IntentOutcome = PersistedByRunner | PersistedByTransaction "LocalOp list"

definition runIntentTransaction :: "LocalOp list \<Rightarrow> IntentOutcome" where
  "runIntentTransaction writes = (if writes = [] then PersistedByRunner else PersistedByTransaction writes)"

section \<open>All collections of an app\<close>

record CreatedCollection =
  cd_table :: jstr
  cd_startSync :: bool
  cd_sync :: CollectionSync

text \<open>
  The collections in the order of the schema's tables; the calls on the client; and what was
  thrown, after which the ones made before it stay registered. Unless \<open>startSync\<close> is false the
  library starts a collection's sync as it creates it, so its gate is attached at once.
\<close>

datatype SetupCall = Register jstr | Applier jstr | CleanupOnDestroy jstr

fun adapter_setup :: "jstr \<Rightarrow> AdapterCall list \<Rightarrow> SetupCall list" where
  "adapter_setup table [] = []"
| "adapter_setup table (RegisterHooks # cs) = Register table # adapter_setup table cs"
| "adapter_setup table (RegisterApplierOf # cs) = Applier table # adapter_setup table cs"
| "adapter_setup table (_ # cs) = adapter_setup table cs"

fun createCollections ::
  "schema \<Rightarrow> mutators \<Rightarrow> bool option \<Rightarrow> jstr list \<Rightarrow> SetupCall list \<times> CreatedCollection list \<times> err option" where
  "createCollections sch muts startSync [] = ([], [], None)"
| "createCollections sch muts startSync (table # tables) =
     (case workspaceCollectionOptions sch muts table of
        Inl e \<Rightarrow> ([], [], Some e)
      | Inr (registering, s) \<Rightarrow>
          let starts = (case startSync of None \<Rightarrow> True | Some b \<Rightarrow> b);
              (starting, s') = (if starts then sync_start s else ([], s));
              (calls, cs, e) = createCollections sch muts startSync tables in
          (adapter_setup table (registering @ starting) @ [Applier table, CleanupOnDestroy table] @ calls,
           \<lparr>cd_table = table, cd_startSync = starts, cd_sync = s'\<rparr> # cs, e))"

section \<open>What a collection holds\<close>

text \<open>
  The library around the adapter: the collection's rows (None once it was given a call it does
  not accept) and readiness, wiped by a cleanup, and what the client told the hooks since they
  were last registered. The client calls hooks only while they are registered; the library starts
  a sync that is not running and cleans up one that is.
\<close>

record AdapterWorld =
  aw_sync :: CollectionSync
  aw_rows :: "rows option"
  aw_ready :: bool
  aw_told :: rows
  aw_toldReady :: bool

datatype AdapterEvent = HookEvent HookCall | StartEvent | CleanupEvent

fun collection_calls :: "AdapterCall list \<Rightarrow> CollectionCall list" where
  "collection_calls [] = []"
| "collection_calls (ToCollection c # cs) = c # collection_calls cs"
| "collection_calls (_ # cs) = collection_calls cs"

definition give :: "(jobj \<Rightarrow> jstr) \<Rightarrow> AdapterCall list \<times> CollectionSync \<Rightarrow> AdapterWorld \<Rightarrow> AdapterWorld" where
  "give key r w = w\<lparr>aw_sync := snd r, aw_rows := Option.bind (aw_rows w) (collection_effects key (collection_calls (fst r))),
     aw_ready := aw_ready w \<or> CMarkReady \<in> set (collection_calls (fst r))\<rparr>"

fun adapter_event :: "(jobj \<Rightarrow> jstr) \<Rightarrow> AdapterEvent \<Rightarrow> AdapterWorld \<Rightarrow> AdapterWorld" where
  "adapter_event key (HookEvent c) w =
     (if cs_registered (aw_sync w)
      then (give key (sync_hook c (aw_sync w)) w)\<lparr>aw_told := hook_effect c (aw_told w), aw_toldReady := aw_toldReady w \<or> c = HMarkReady\<rparr>
      else w)"
| "adapter_event key StartEvent w =
     (if hg_attached (cs_gate (aw_sync w)) then w
      else let w' = (if cs_registered (aw_sync w) then w else w\<lparr>aw_told := (\<lambda>_. None), aw_toldReady := False\<rparr>) in
        give key (sync_start (aw_sync w)) (w'\<lparr>aw_rows := Some (\<lambda>_. None), aw_ready := False\<rparr>))"
| "adapter_event key CleanupEvent w =
     (if hg_attached (cs_gate (aw_sync w)) then give key (sync_cleanup (aw_sync w)) w else w)"

definition adapter_start :: "CollectionSync \<Rightarrow> AdapterWorld" where
  "adapter_start s = \<lparr>aw_sync = s, aw_rows = Some (\<lambda>_. None), aw_ready = False, aw_told = (\<lambda>_. None), aw_toldReady = False\<rparr>"

text \<open>Each row the client puts has its key.\<close>

fun event_keyed :: "(jobj \<Rightarrow> jstr) \<Rightarrow> AdapterEvent \<Rightarrow> bool" where
  "event_keyed key (HookEvent c) = keyed key [c]"
| "event_keyed key e = True"

lemma calls_map [simp]: "collection_calls (map ToCollection cs) = cs"
  by (induction cs) simp_all

lemma calls_append [simp]: "collection_calls (xs @ ys) = collection_calls xs @ collection_calls ys"
  by (induction xs rule: collection_calls.induct) simp_all

definition pending_keyed :: "(jobj \<Rightarrow> jstr) \<Rightarrow> HookGate \<Rightarrow> bool" where
  "pending_keyed key g \<longleftrightarrow> (\<forall>x \<in> set (hg_pendingOps g). keyed key [HWrite (snd x)])"

lemma attach_keyed: "pending_keyed key g \<Longrightarrow> gate_attach g = (out, g') \<Longrightarrow> keyed key out"
  unfolding gate_attach_def keyed_def pending_keyed_def list_all_iff by (fastforce split: if_splits)

definition world_ok :: "(jobj \<Rightarrow> jstr) \<Rightarrow> AdapterWorld \<Rightarrow> bool" where
  "world_ok key w \<longleftrightarrow> gate_ok (cs_gate (aw_sync w)) \<and> pending_keyed key (cs_gate (aw_sync w)) \<and>
     (if hg_attached (cs_gate (aw_sync w))
      then cs_registered (aw_sync w) \<and> aw_rows w = Some (aw_told w) \<and> cs_syncedKeys (aw_sync w) = dom (aw_told w) \<and>
           aw_ready w = aw_toldReady w
      else aw_rows w \<noteq> None \<and>
        (if cs_registered (aw_sync w)
         then pending_effect (cs_gate (aw_sync w)) (\<lambda>_. None) = aw_told w \<and> hg_pendingReady (cs_gate (aw_sync w)) = aw_toldReady w
         else hg_pendingOps (cs_gate (aw_sync w)) = [] \<and> \<not> hg_pendingClear (cs_gate (aw_sync w)) \<and>
              \<not> hg_pendingReady (cs_gate (aw_sync w))))"

lemma pending_keyed_call:
  assumes "pending_keyed key g" "keyed key [c]" "gate_call c g = (out, g')"
  shows "pending_keyed key g'"
proof (cases c)
  case (HWrite wop)
  have mem: "x \<in> set (AList.update k v m) \<Longrightarrow> x = (k, v) \<or> x \<in> set m" for x k v and m :: "(jstr \<times> TableWriteOp) list"
    by (induction m) (auto split: if_splits)
  show ?thesis using assms by (auto simp: HWrite pending_keyed_def split: if_splits dest!: mem)
qed (use assms in \<open>auto simp: pending_keyed_def split: if_splits\<close>)

lemma world_hook:
  assumes ok: "world_ok key w" and k: "keyed key [c]"
  shows "world_ok key (adapter_event key (HookEvent c) w)"
proof (cases "cs_registered (aw_sync w)")
  case reg: True
  let ?s = "aw_sync w" and ?w' = "adapter_event key (HookEvent c) w"
  obtain out g where g: "gate_call c (cs_gate ?s) = (out, g)" by (cases "gate_call c (cs_gate ?s)")
  obtain calls ks where r: "collection_run out (cs_syncedKeys ?s) = (calls, ks)" by (cases "collection_run out (cs_syncedKeys ?s)")
  have w': "?w' = w\<lparr>aw_sync := ?s\<lparr>cs_gate := g, cs_syncedKeys := ks\<rparr>, aw_rows := Option.bind (aw_rows w) (collection_effects key calls),
      aw_ready := aw_ready w \<or> CMarkReady \<in> set calls, aw_told := hook_effect c (aw_told w), aw_toldReady := aw_toldReady w \<or> c = HMarkReady\<rparr>"
    using reg by (simp add: give_def sync_hook_def g r)
  note G = gate_step [OF _ g] and K = pending_keyed_call [OF _ k g]
  have gok: "gate_ok (cs_gate ?s)" "pending_keyed key (cs_gate ?s)" using ok by (simp_all add: world_ok_def)
  show ?thesis
  proof (cases "hg_attached (cs_gate ?s)")
    case True
    then have o: "out = [c]" "g = cs_gate ?s" using g by (cases c; simp)+
    have W: "aw_rows w = Some (aw_told w)" "cs_syncedKeys ?s = dom (aw_told w)" "aw_ready w = aw_toldReady w"
      using ok True by (simp_all add: world_ok_def)
    have "collection_effects key calls (aw_told w) = Some (hook_effect c (aw_told w)) \<and> ks = dom (hook_effect c (aw_told w))"
      using collection_runs [of key "[c]" "cs_syncedKeys ?s" "aw_told w" calls ks] k W(2) r by (simp add: o keyed_def)
    moreover have "CMarkReady \<in> set calls \<longleftrightarrow> c = HMarkReady" using ready_passes [OF r] by (auto simp: o)
    ultimately show ?thesis unfolding w' using W gok reg True by (simp add: world_ok_def o)
  next
    case False
    then have o: "out = []" using g by (cases c) auto
    then have "calls = []" "ks = cs_syncedKeys ?s" using r by simp_all
    then show ?thesis unfolding w'
      using ok reg False G [of "\<lambda>_. None"] K gok by (auto simp: world_ok_def o)
  qed
qed (use ok in simp)

lemma world_start: "world_ok key w \<Longrightarrow> world_ok key (adapter_event key StartEvent w)"
proof -
  assume ok: "world_ok key w"
  let ?s = "aw_sync w"
  show ?thesis
  proof (cases "hg_attached (cs_gate ?s)")
    case False
    obtain out g where g: "gate_attach (cs_gate ?s) = (out, g)" by (cases "gate_attach (cs_gate ?s)")
    obtain calls ks where r: "collection_run out {} = (calls, ks)" by (cases "collection_run out {}")
    have gok: "gate_ok (cs_gate ?s)" "pending_keyed key (cs_gate ?s)" using ok by (simp_all add: world_ok_def)
    note A = attach_drains [OF gok(1) g, of "\<lambda>_. None"]
    have "keyed key out" using gok(2) g by (rule attach_keyed)
    then have E: "collection_effects key calls (\<lambda>_. None) = Some (fold hook_effect out (\<lambda>_. None)) \<and> ks = dom (fold hook_effect out (\<lambda>_. None))"
      using collection_runs [of key out "{}" "\<lambda>_. None" calls ks] r by (simp add: keyed_def)
    have R: "CMarkReady \<in> set calls \<longleftrightarrow> hg_pendingReady (cs_gate ?s)" using ready_passes [OF r] A by simp
    have g': "pending_keyed key g" using g by (auto simp: gate_attach_def pending_keyed_def)
    show ?thesis
    proof (cases "cs_registered ?s")
      case True
      then show ?thesis using ok False E R A g' by (simp add: world_ok_def give_def sync_start_def g r)
    next
      case unreg: False
      have "pending_effect (cs_gate ?s) (\<lambda>_. None) = (\<lambda>_. None)"
        using ok False unreg by (simp add: world_ok_def pending_effect_def)
      then show ?thesis using ok False unreg E R A g' by (simp add: world_ok_def give_def sync_start_def g r)
    qed
  qed (use ok in simp)
qed

lemma world_cleanup: "world_ok key w \<Longrightarrow> world_ok key (adapter_event key CleanupEvent w)"
  by (auto simp: world_ok_def give_def sync_cleanup_def gate_detach_def gate_ok_def pending_keyed_def)

text \<open>
  C16: A collection follows the client through its whole life. Whatever the client tells the hooks
  and whenever the library starts the sync, cleans it up and starts it again: every call the
  adapter makes is one the collection accepts, and while the sync runs the collection holds
  exactly what the client's calls since the hooks were last registered amount to - none lost
  before the first subscriber, none doubled - and is ready exactly if they marked it so.
\<close>

theorem collection_follows_client:
  assumes "workspaceCollectionOptions sch muts table = Inr (calls, s)" "list_all (event_keyed key) events"
  shows "let w = fold (adapter_event key) events (adapter_start s) in
    aw_rows w \<noteq> None \<and>
    (hg_attached (cs_gate (aw_sync w)) \<longrightarrow>
       cs_registered (aw_sync w) \<and> aw_rows w = Some (aw_told w) \<and> aw_ready w = aw_toldReady w)"
proof -
  have "world_ok key (fold (adapter_event key) events w)" if "world_ok key w" for w
    using that assms(2)
  proof (induction events arbitrary: w)
    case (Cons e events)
    have "world_ok key (adapter_event key e w)"
      using Cons.prems world_hook world_start world_cleanup by (cases e) (simp_all del: adapter_event.simps)
    then show ?case using Cons by simp
  qed simp
  moreover have "world_ok key (adapter_start s)"
    using assms(1) by (auto simp: workspaceCollectionOptions_def bind_res_Inr_iff world_ok_def adapter_start_def
        createHookGate_def gate_ok_def pending_keyed_def pending_effect_def)
  ultimately have "world_ok key (fold (adapter_event key) events (adapter_start s))" .
  then show ?thesis by (simp add: world_ok_def Let_def split: if_splits)
qed

theorem collection_follows_client_witness:
  "let w = fold (adapter_event (\<lambda>_. js ''a'')) [HookEvent (HWrite (WPut (js ''a'') [])), StartEvent, HookEvent HMarkReady, CleanupEvent, StartEvent]
       (adapter_start \<lparr>cs_gate = createHookGate, cs_registered = True, cs_syncedKeys = {}\<rparr>) in
    aw_rows w \<noteq> None \<and> hg_attached (cs_gate (aw_sync w)) \<and> aw_rows w = Some (\<lambda>_. None)"
proof -
  let ?es = "[HookEvent (HWrite (WPut (js ''a'') [])), StartEvent, HookEvent HMarkReady, CleanupEvent, StartEvent]"
  let ?sch = "[(js ''t'', \<lambda>v. VValue v)]" and ?d = "\<lparr>def_args = None, def_apply = (\<lambda>args ctx. Done)\<rparr>"
  let ?s = "\<lparr>cs_gate = createHookGate, cs_registered = True, cs_syncedKeys = {}\<rparr>"
  have o: "workspaceCollectionOptions ?sch [(js ''sync.put'', ?d), (js ''sync.del'', ?d)] (js ''t'') = Inr ([RegisterHooks], ?s)"
    by (simp add: workspaceCollectionOptions_def check_collection_def prop_get_def)
  have k: "list_all (event_keyed (\<lambda>_. js ''a'')) ?es" by (simp add: keyed_def)
  have a: "hg_attached (cs_gate (aw_sync (fold (adapter_event (\<lambda>_. js ''a'')) ?es (adapter_start ?s)))) \<and>
      aw_told (fold (adapter_event (\<lambda>_. js ''a'')) ?es (adapter_start ?s)) = (\<lambda>_. None)"
    by (simp add: adapter_start_def createHookGate_def give_def sync_hook_def sync_start_def sync_cleanup_def gate_attach_def
        gate_detach_def Let_def del: js_simps)
  show ?thesis using collection_follows_client [OF o k] a unfolding Let_def by auto
qed

section \<open>The applier's update\<close>

text \<open>The draft becomes the data, unless it has an own field named like one of \<open>Object.prototype\<close>.\<close>

lemma replace_draft_map:
  assumes "distinct (map fst data)" "\<forall>k \<in> set (map fst draft). k \<in> set proto_names \<longrightarrow> map_of data k \<noteq> None"
  shows "map_of (replace_draft data draft) = map_of data"
proof -
  have upd: "map_of (fold (\<lambda>(k, v). AList.update k v) data m) = map_of m ++ map_of (rev data)" for m
    by (induction data arbitrary: m) (auto simp: update_conv' fun_eq_iff map_add_def split: option.splits)
  have "map_of (filter (\<lambda>(k, v). prop_get data k \<noteq> Absent) draft) k = None" if "map_of data k = None" for k
  proof -
    have "prop_get data k \<noteq> Absent \<Longrightarrow> k \<in> set proto_names" using that by (simp add: prop_get_def split: if_splits)
    then show ?thesis using that assms(2) unfolding map_of_eq_None_iff by force
  qed
  moreover have "map_of (rev data) = map_of data"
    by (rule map_of_eqI) (use assms(1) in \<open>auto simp: map_of_eq_Some_iff rev_map [symmetric]\<close>)
  ultimately show ?thesis unfolding replace_draft_def upd by (auto simp: fun_eq_iff map_add_def split: option.splits)
qed

end
