(* ===== verification/Workspace.thy ===== *)
theory Workspace
  imports MutateTree CollectionSync
begin

text \<open>
  \<open>createWorkspace\<close> (client/src/collection.ts): the constructed client and the collections of every
  table of its app. The appliers' registry and the teardown callbacks are not part of the
  client's modelled state, so of the setup calls only the registration of a table changes it.
\<close>

fun setup_call :: "SyncClientOptions \<Rightarrow> SetupCall \<Rightarrow> Client \<Rightarrow> Client" where
  "setup_call cfg (Register table) st = snd (registerTable cfg table st)"
| "setup_call cfg (Applier table) st = st"
| "setup_call cfg (CleanupOnDestroy table) st = st"

record Workspace =
  wk_client :: ConstructedClient
  wk_collections :: "CreatedCollection list"

text \<open>The client that was constructed, if any, and what the call returned or threw.\<close>

definition createWorkspace ::
  "ConstructorOptions \<Rightarrow> bool option \<Rightarrow> ClientEnv \<Rightarrow> jstr \<Rightarrow> bool \<Rightarrow> TabStorage \<Rightarrow> Client option \<times> Workspace res \<times> TabStorage" where
  "createWorkspace opts startSync ev fresh idb tab =
     (case construct_client opts ev fresh idb tab of
        (Inl e, tab) \<Rightarrow> (None, Inl e, tab)
      | (Inr b, tab) \<Rightarrow>
          let app = co_app (cc_options b);
              (calls, cs, e) = createCollections (app_schema app) (app_mutators app) startSync (map fst (app_schema app));
              st = fold (setup_call (cc_options b)) calls (cc_client b)
          in (Some st, case e of None \<Rightarrow> Inr \<lparr>wk_client = b\<lparr>cc_client := st\<rparr>, wk_collections = cs\<rparr> | Some e \<Rightarrow> Inl e, tab))"

text \<open>A client that no frame has reached yet.\<close>

definition untouched :: "Client \<Rightarrow> bool" where
  "untouched st \<longleftrightarrow> cl_tables st = [] \<and> \<not> cl_synced st \<and> cl_cursor st = None"

text \<open>A step that leaves the tables, the cursor and the life-cycle flags, and is not a catch-up.\<close>

definition settling :: "Client \<Rightarrow> Client \<Rightarrow> bool" where
  "settling st st' \<longleftrightarrow> cl_tables st' = cl_tables st \<and> cl_cursor st' = cl_cursor st \<and> (cl_synced st' \<longrightarrow> cl_synced st) \<and>
     cl_started st' = cl_started st \<and> cl_destroyed st' = cl_destroyed st"

lemma settling_refl: "settling st st"
  by (simp add: settling_def)

lemma settling_trans: "settling a b \<Longrightarrow> settling b c \<Longrightarrow> settling a c"
  by (simp add: settling_def)

lemma settling_effect: "settling st (effect e st)"
  by (simp add: settling_def effect_def)

lemma settling_status: "settling st (setStatus s st)"
  by (simp add: settling_def setStatus_def effect_def)

lemma settling_reconnect: "settling st (scheduleReconnect cfg st)"
  by (simp add: scheduleReconnect_def Let_def settling_def effect_def setStatus_def)

lemma settling_open: "settling st (openSocket cfg ev token st)"
  using settling_reconnect [of "st\<lparr>cl_socket := None\<rparr>" cfg] by (simp add: openSocket_def settling_def effect_def)

lemma settling_connect: "settling st (connect cfg ev st)"
proof -
  let ?st = "st\<lparr>cl_connectEpoch := cl_connectEpoch st + 1\<rparr>"
  have q: "settling st ?st" by (simp add: settling_def)
  show ?thesis
    using settling_trans [OF q settling_open, of cfg ev] settling_trans [OF q settling_effect] by (simp add: connect_def Let_def settling_def split: AuthToken.split)
qed

lemma settling_settle: "settling st (settleHydrated r st)"
  by (simp add: settling_def settleHydrated_def Let_def effect_def)

lemma settling_start: "\<not> cl_started st \<Longrightarrow> \<not> cl_destroyed st \<Longrightarrow> settling (st\<lparr>cl_started := True\<rparr>) (snd (start cfg ev st))"
proof -
  assume d: "\<not> cl_started st" "\<not> cl_destroyed st"
  let ?st = "setStatus Connecting (st\<lparr>cl_started := True\<rparr>)"
  have "settling ?st (effect CLoad (?st\<lparr>cl_hydrating := True, cl_loading := LoadPending\<rparr>))" by (simp add: settling_def effect_def)
  moreover have "settling ?st (connect cfg ev (settleHydrated False ?st))" using settling_trans [OF settling_settle settling_connect] .
  ultimately show ?thesis using settling_trans [OF settling_status, of Connecting "st\<lparr>cl_started := True\<rparr>"] d by (simp add: start_def Let_def)
qed

lemma started_after: "cl_started (snd (start cfg ev st)) \<or> cl_destroyed (snd (start cfg ev st))"
  using settling_start [of st cfg ev] by (cases "cl_started st"; cases "cl_destroyed st") (simp_all add: settling_def start_def)

lemma untouched_start: "untouched st \<Longrightarrow> untouched (snd (start cfg ev st))"
  using settling_start [of st cfg ev] by (cases "cl_started st"; cases "cl_destroyed st") (auto simp: settling_def untouched_def start_def)

lemma settling_with_presence: "settling st (with_presence f st)"
  by (simp add: settling_def with_presence_def)

lemma settling_send: "settling st (client_send m st)"
  by (simp add: settling_def client_send_def effect_def split: option.split)

lemma settling_sendPresence: "settling st (sendPresence ev st)"
  by (simp add: sendPresence_def Let_def settling_refl settling_trans [OF settling_with_presence settling_send])

lemma settling_schedule: "settling st (schedulePresenceSend cfg ev st)"
  by (simp add: schedulePresenceSend_def Let_def settling_refl settling_sendPresence settling_with_presence)

lemma settling_notify: "settling st (notifyPresence (schedulePresenceSend cfg ev (with_presence f st)))"
  unfolding notifyPresence_def by (rule settling_trans [OF settling_trans [OF settling_with_presence settling_schedule] settling_effect])

lemma settling_presence: "settling st (snd (presenceSet cfg ev p st))"
  unfolding presenceSet_def Let_def
  by (simp add: settling_refl settling_notify settling_with_presence settling_trans [OF settling_with_presence settling_notify] split: option.split verdict.split)

lemma untouched_presence: "untouched st \<Longrightarrow> untouched (snd (presenceSet cfg ev p st))"
  using settling_presence [of st cfg ev p] by (auto simp: settling_def untouched_def)

lemma constructed_untouched:
  assumes "construct_client opts ev fresh idb tab = (Inr b, tab')"
  shows "untouched (cc_client b) \<and> (ko_autoStart opts \<noteq> Some False \<longrightarrow> cl_started (cc_client b) \<or> cl_destroyed (cc_client b))"
proof -
  have new: "untouched new_client" by (simp add: untouched_def new_client_def)
  obtain cfg st where st: "untouched st"
      "cc_client b = (if ko_autoStart opts = Some False then st else snd (start cfg ev st))"
  proof -
    let ?app = "co_app (ko_rest opts)"
    obtain auth where a: "client_auth ?app (co_auth (ko_rest opts)) = Inr auth" and ne: "ko_workspaceId opts \<noteq> []"
      using assms by (auto simp: construct_client_def Let_def split: if_splits sum.splits)
    obtain c tab1 where c: "(case ko_clientId opts of Some c \<Rightarrow> Inr (c, tab) | None \<Rightarrow> defaultClientId (ko_workspaceId opts) fresh tab) = (Inr (c, tab1) :: (jstr \<times> TabStorage) res)"
      using assms a ne by (auto simp: construct_client_def Let_def split: if_splits sum.splits)
    define cfg where "cfg = (ko_rest opts)\<lparr>co_clientId := c, co_store := ko_store opts \<or> ko_persist opts \<and> createDefaultStore idb, co_auth := auth\<rparr>"
    obtain url tree where "(case (case ko_initialPresence opts of None \<Rightarrow> (None, new_client) | Some p \<Rightarrow> presenceSet cfg ev p new_client) of
          (Some e, st) \<Rightarrow> Inl e
        | (None, st) \<Rightarrow> Inr \<lparr>cc_options = cfg, cc_url = url, cc_mutate = tree,
                             cc_client = (if ko_autoStart opts = Some False then st else snd (start cfg ev st))\<rparr>) = Inr b"
      using assms a ne c unfolding cfg_def construct_client_def Let_def
      by (auto simp: bind_res_Inr_iff simp del: js_simps split: if_splits)
    then show thesis
      using that [of new_client cfg] that [of "snd (presenceSet cfg ev (the (ko_initialPresence opts)) new_client)" cfg] new
        untouched_presence [OF new, of cfg ev "the (ko_initialPresence opts)"]
      by (cases "ko_initialPresence opts") (auto split: prod.splits option.splits)
  qed
  then show ?thesis using untouched_start [OF st(1), of cfg ev] started_after [of cfg ev st] by auto
qed

text \<open>The state of a new collection, attached to the client's calls if its sync was started.\<close>

definition new_collection :: "bool option \<Rightarrow> CollectionSync" where
  "new_collection startSync =
     \<lparr>cs_gate = createHookGate\<lparr>hg_attached := startSync \<noteq> Some False\<rparr>, cs_registered = True, cs_syncedKeys = {}\<rparr>"

definition new_calls :: "bool option \<Rightarrow> jstr \<Rightarrow> SetupCall list" where
  "new_calls startSync t =
     Register t # (if startSync \<noteq> Some False then [Applier t] else []) @ [Applier t, CleanupOnDestroy t]"

lemma fresh_start:
  "sync_start \<lparr>cs_gate = createHookGate, cs_registered = True, cs_syncedKeys = {}\<rparr> = ([RegisterApplierOf], new_collection None)"
  by (simp add: sync_start_def gate_attach_def createHookGate_def new_collection_def)

lemma create_one:
  assumes "check_collection sch muts t = Inr ()" "createCollections sch muts ss tables = (calls, cs, e)"
  shows "createCollections sch muts ss (t # tables) =
    (new_calls ss t @ calls, \<lparr>cd_table = t, cd_startSync = (ss \<noteq> Some False), cd_sync = new_collection ss\<rparr> # cs, e)"
  using assms fresh_start
  by (cases ss) (auto simp: workspaceCollectionOptions_def new_calls_def new_collection_def createHookGate_def)

lemma collections_created:
  "if \<forall>t \<in> set tables. check_collection sch muts t = Inr ()
   then \<exists>calls cs. createCollections sch muts ss tables = (calls, cs, None) \<and> map cd_table cs = tables \<and>
     calls = concat (map (new_calls ss) tables) \<and> (\<forall>c \<in> set cs. cd_sync c = new_collection ss)
   else \<exists>calls cs e. createCollections sch muts ss tables = (calls, cs, Some e)"
proof (induction tables)
  case (Cons t tables)
  obtain calls cs e where r: "createCollections sch muts ss tables = (calls, cs, e)" by (cases "createCollections sch muts ss tables")
  show ?case
  proof (cases "check_collection sch muts t")
    case (Inl err)
    then show ?thesis by (auto simp: workspaceCollectionOptions_def)
  next
    case (Inr u)
    then have "check_collection sch muts t = Inr ()" by simp
    note one = create_one [OF this r]
    show ?thesis
    proof (cases "\<forall>t \<in> set tables. check_collection sch muts t = Inr ()")
      case True
      then have all: "\<forall>t \<in> set (t # tables). check_collection sch muts t = Inr ()" using Inr by simp
      show ?thesis using Cons r unfolding if_P [OF all] if_P [OF True] one by auto
    next
      case False
      then have all: "\<not> (\<forall>t \<in> set (t # tables). check_collection sch muts t = Inr ())" by simp
      show ?thesis using Cons r unfolding if_not_P [OF all] if_not_P [OF False] one by auto
    qed
  qed
qed simp

lemma registered_tables:
  assumes "distinct tables" "\<not> cl_synced st" "set tables \<inter> set (cl_tables st) = {}"
  shows "fold (setup_call cfg) (concat (map (new_calls ss) tables)) st = st\<lparr>cl_tables := cl_tables st @ tables\<rparr>"
  using assms
proof (induction tables arbitrary: st)
  case (Cons t tables)
  let ?st = "st\<lparr>cl_tables := cl_tables st @ [t]\<rparr>"
  have r: "snd (registerTable cfg t st) = ?st" using Cons.prems by (simp add: registerTable_def Let_def)
  have "fold (setup_call cfg) (concat (map (new_calls ss) tables)) ?st = ?st\<lparr>cl_tables := cl_tables ?st @ tables\<rparr>"
    by (rule Cons.IH) (use Cons.prems in auto)
  moreover have "fold (setup_call cfg) (new_calls ss t) st = ?st" by (simp add: new_calls_def r)
  ultimately show ?case by simp
qed simp

lemma fold_started: "cl_started (fold (setup_call cfg) calls st) = cl_started st \<and> cl_destroyed (fold (setup_call cfg) calls st) = cl_destroyed st"
proof (induction calls arbitrary: st)
  case (Cons c calls)
  have "cl_started (setup_call cfg c st) = cl_started st \<and> cl_destroyed (setup_call cfg c st) = cl_destroyed st"
    by (cases c) (auto simp: registerTable_def Let_def requestFullResync_def sendHello_def client_send_def effect_def split: option.splits)
  then show ?case using Cons by simp
qed simp

text \<open>
  C34: A workspace starts with every collection attached. Once the constructor returned, and if the
  app has the crud mutators, \<open>createWorkspace\<close> returns the client with exactly the schema's tables
  registered, in order, before any frame reached it - so no full resync is asked for - and an empty
  collection for each, its sync running unless \<open>startSync\<close> is false; otherwise it throws, and the
  client, started unless \<open>autoStart\<close> is off, stays behind with nobody to destroy it.
\<close>

theorem workspace_attaches_tables:
  assumes "construct_client opts ev fresh idb tab = (Inr b, tab')" "distinct tables"
    and "app = co_app (cc_options b)" "tables = map fst (app_schema app)"
  shows "if \<forall>t \<in> set tables. check_collection (app_schema app) (app_mutators app) t = Inr ()
    then \<exists>cs. createWorkspace opts ss ev fresh idb tab =
        (Some ((cc_client b)\<lparr>cl_tables := tables\<rparr>), Inr \<lparr>wk_client = b\<lparr>cc_client := (cc_client b)\<lparr>cl_tables := tables\<rparr>\<rparr>, wk_collections = cs\<rparr>, tab') \<and>
      map cd_table cs = tables \<and> (\<forall>c \<in> set cs. cd_sync c =
        \<lparr>cs_gate = createHookGate\<lparr>hg_attached := ss \<noteq> Some False\<rparr>, cs_registered = True, cs_syncedKeys = {}\<rparr>)
    else \<exists>st e. createWorkspace opts ss ev fresh idb tab = (Some st, Inl e, tab') \<and>
      (ko_autoStart opts \<noteq> Some False \<longrightarrow> cl_started st \<or> cl_destroyed st)"
proof -
  note U = constructed_untouched [OF assms(1)] and C = collections_created [of tables "app_schema app" "app_mutators app" ss]
  have u: "cl_tables (cc_client b) = []" "\<not> cl_synced (cc_client b)" using U by (simp_all add: untouched_def)
  show ?thesis
  proof (cases "\<forall>t \<in> set tables. check_collection (app_schema app) (app_mutators app) t = Inr ()")
    case True
    then obtain calls cs where c: "createCollections (app_schema app) (app_mutators app) ss tables = (calls, cs, None)" "map cd_table cs = tables"
        "calls = concat (map (new_calls ss) tables)"
        "\<forall>c \<in> set cs. cd_sync c = new_collection ss"
      using C unfolding if_P [OF True] by blast
    have "fold (setup_call (cc_options b)) calls (cc_client b) = (cc_client b)\<lparr>cl_tables := tables\<rparr>"
      using registered_tables [OF assms(2) u(2), of "cc_options b" ss] u(1) by (simp add: c(3))
    then show ?thesis using True c assms(1)
      unfolding new_collection_def [symmetric] createWorkspace_def assms(3) [symmetric] Let_def by (simp add: assms(4) [symmetric] assms(3) [symmetric])
  next
    case False
    then obtain calls cs e where c: "createCollections (app_schema app) (app_mutators app) ss tables = (calls, cs, Some e)"
      using C unfolding if_not_P [OF False] by blast
    let ?st = "fold (setup_call (cc_options b)) calls (cc_client b)"
    have "createWorkspace opts ss ev fresh idb tab = (Some ?st, Inl e, tab')"
      using c assms(1) by (simp add: createWorkspace_def Let_def assms(4) [symmetric] assms(3) [symmetric])
    moreover have "ko_autoStart opts \<noteq> Some False \<longrightarrow> cl_started ?st \<or> cl_destroyed ?st" using U fold_started by blast
    ultimately show ?thesis using False by (simp only: if_False) blast
  qed
qed

theorem workspace_attaches_tables_witness:
  "\<exists>st w tab. createWorkspace
       \<lparr>ko_workspaceId = js ''w'', ko_url = js ''ws:'', ko_pathPrefix = None, ko_clientId = Some (js ''c''), ko_store = False,
        ko_persist = False, ko_initialPresence = None, ko_autoStart = None,
        ko_rest = \<lparr>co_app = \<lparr>app_version = 1, app_schema = [(js ''t'', \<lambda>v. VValue v)],
            app_mutators = [(js ''sync.put'', \<lparr>def_args = None, def_apply = (\<lambda>args ctx. Done)\<rparr>), (js ''sync.del'', \<lparr>def_args = None, def_apply = (\<lambda>args ctx. Done)\<rparr>)],
            app_migrations = [], app_authContext = None, app_presence = None\<rparr>,
          co_clientId = [], co_store = False, co_auth = None, co_authToken = NoToken, co_maxBackoffMs = None, co_pingIntervalMs = None,
          co_idleTimeoutMs = None, co_presenceThrottleMs = None\<rparr>\<rparr> None
       \<lparr>ce_now = 0, ce_socketOk = True, ce_hidden = False, ce_offline = False, ce_seeds = (\<lambda>_. [])\<rparr> [] True \<lparr>tab_readable = True, tab_writable = True, tab_clientIds = [], tab_reloads = []\<rparr> = (Some st, Inr w, tab) \<and>
     cl_tables st = [js ''t''] \<and> map cd_table (wk_collections w) = [js ''t''] \<and>
     (\<forall>c \<in> set (wk_collections w). hg_attached (cs_gate (cd_sync c)))"
proof -
  let ?d = "\<lparr>def_args = None, def_apply = (\<lambda>args ctx. Done)\<rparr>"
  let ?muts = "[(js ''sync.put'', ?d), (js ''sync.del'', ?d)]"
  let ?app = "\<lparr>app_version = 1, app_schema = [(js ''t'', \<lambda>v. VValue v)], app_mutators = ?muts,
      app_migrations = [], app_authContext = None, app_presence = None\<rparr>"
  let ?rest = "\<lparr>co_app = ?app, co_clientId = [], co_store = False, co_auth = None, co_authToken = NoToken, co_maxBackoffMs = None,
      co_pingIntervalMs = None, co_idleTimeoutMs = None, co_presenceThrottleMs = None\<rparr>"
  let ?opts = "\<lparr>ko_workspaceId = js ''w'', ko_url = js ''ws:'', ko_pathPrefix = None, ko_clientId = Some (js ''c''), ko_store = False,
      ko_persist = False, ko_initialPresence = None, ko_autoStart = None, ko_rest = ?rest\<rparr>"
  let ?ev = "\<lparr>ce_now = 0, ce_socketOk = True, ce_hidden = False, ce_offline = False, ce_seeds = (\<lambda>_. [])\<rparr>"
  obtain url where u: "buildSyncUrl (js ''ws:'') (js ''/sync'') (js ''w'') (js ''c'') = Inr url"
    by (simp add: buildSyncUrl_def Let_def encodeURIComponent_def high_surrogate_def low_surrogate_def)
  obtain tree where t: "buildMutate [js ''sync.put'', js ''sync.del''] = Inr tree"
    by (simp add: buildMutate_def own_of_function_def assign_kids_def)
  have w: "js ''w'' \<noteq> []" by simp
  obtain b where b: "construct_client ?opts ?ev [] True \<lparr>tab_readable = True, tab_writable = True, tab_clientIds = [], tab_reloads = []\<rparr> = (Inr b, \<lparr>tab_readable = True, tab_writable = True, tab_clientIds = [], tab_reloads = []\<rparr>)" "co_app (cc_options b) = ?app"
    by (simp add: construct_client_def client_auth_def u t w or_default_def Let_def bind_res_def del: js_simps)
  have c: "\<forall>t \<in> set [js ''t'']. check_collection (app_schema ?app) (app_mutators ?app) t = Inr ()"
    by (simp add: check_collection_def prop_get_def)
  have T: "[js ''t''] = map fst (app_schema ?app)" by simp
  from workspace_attaches_tables [OF b(1) _ b(2) [symmetric] T, of None] show ?thesis
    unfolding if_P [OF c] by auto
qed

end
