(* ===== verification/LateTables.thy ===== *)
theory LateTables
  imports RoundTrip
begin

text \<open>
  A table registered late (client/src/client.ts, \<open>registerTable\<close>): a client that is synced asks for
  a full resync, so the table is filled. One that holds a cursor but is not synced - offline, or
  reconnecting - does not, and catches up from its cursor like every other table.
\<close>

section \<open>Incremental pokes\<close>

text \<open>
  A poke that goes on from a cursor: its id, the workspace's rows when it was sent, its frames, its
  LMIDs and results, and its cursor.
\<close>

record Increment =
  ic_id :: jstr
  ic_rows :: sql_rows
  ic_groups :: "PatchOp list list"
  ic_lmids :: "(jstr \<times> int) list"
  ic_results :: "MutationResult list"
  ic_cursor :: Cursor

text \<open>
  Pokes that follow each other from a cursor, each with the changes since the one before, of a
  workspace that keeps a row as it is.
\<close>

fun increments :: "StoredRow \<Rightarrow> Cursor \<Rightarrow> Increment list \<Rightarrow> bool" where
  "increments row c [] = True"
| "increments row c (p # ps) =
     (sql_inv (ic_rows p) \<and> row \<in> set (ic_rows p) \<and> ic_groups p \<noteq> [] \<and> concat (ic_groups p) = since_ops (ic_rows p) (cversion c) \<and>
      cversion c \<le> cversion (ic_cursor p) \<and> increments row (ic_cursor p) ps)"

fun increment_msgs :: "Cursor \<Rightarrow> Increment list \<Rightarrow> ServerMsg list" where
  "increment_msgs c [] = []"
| "increment_msgs c (p # ps) =
     poke_msgs (ic_id p) (Some c) (ic_groups p) (Some (ic_lmids p)) (ic_results p) (ic_cursor p) @ increment_msgs (ic_cursor p) ps"

lemma increment_step:
  assumes "cl_cursor cl = Some c" "distinct (cl_tables cl)" "t \<in> set (cl_tables cl)" "shown_rows (cl_effects cl) (t, row_id row) = None"
    and "increments row c [p]" "row_tbl row = t" "row_version row \<le> cversion c"
    and "cl2 = fold (onServerMsg cfg ev) (increment_msgs c [p]) cl"
  shows "cl_cursor cl2 = Some (ic_cursor p) \<and> cl_tables cl2 = cl_tables cl \<and> shown_rows (cl_effects cl2) (t, row_id row) = None"
proof -
  let ?ops = "since_ops (ic_rows p) (cversion c)"
  have "Some c = cl_cursor cl" "ic_groups p \<noteq> []" using assms(1,5) by simp_all
  from poke_received [OF this, of cfg ev "ic_id p" "ic_lmids p" "ic_results p" "ic_cursor p"] obtain b ps where p:
      "cl2 = applyPoke cfg b (ic_cursor p) (cl\<lparr>cl_effects := cl_effects cl @ ps, cl_poke := None\<rparr>)" "progress_only ps" "pb_patch b = ?ops"
    using assms(5,8) by auto
  let ?s = "cl\<lparr>cl_effects := cl_effects cl @ ps, cl_poke := None\<rparr>"
  have shown: "shown_rows (cl_effects cl @ ps) = shown_rows (cl_effects cl)"
    using progress_lists [OF p(2)] by (simp add: shown_rows_def)
  have nc: "ClearOp \<notin> set (tl ?ops)"
  proof -
    have "ClearOp \<notin> set ?ops" by (auto simp: since_ops_def row_op_def split: if_splits)
    then show ?thesis by (cases ?ops) auto
  qed
  have d: "distinct (cl_tables ?s)" using assms(2) by simp
  note A = apply_tables_shown [OF nc d] and V = view_applyPoke [of cfg b "ic_cursor p" ?s]
  have "(t, row_id row) \<notin> key_of ` set (sort_key row_version (filter (\<lambda>row. cversion c < row_version row) (ic_rows p)))"
  proof
    assume "(t, row_id row) \<in> key_of ` set (sort_key row_version (filter (\<lambda>row. cversion c < row_version row) (ic_rows p)))"
    then obtain r where r: "r \<in> set (ic_rows p)" "cversion c < row_version r" "key_of r = key_of row" using assms(6) by auto
    then have "r = row" using assms(5) by (auto simp: sql_inv_def distinct_map dest: inj_onD)
    then show False using r(2) assms(7) by simp
  qed
  then have "apply_ops ?ops (shown_rows (cl_effects cl)) (t, row_id row) = None"
    unfolding since_ops_def using assms(4) by (simp add: apply_rows_other)
  moreover have "shown_rows (cl_effects cl2) (t, row_id row) = apply_ops ?ops (shown_rows (cl_effects cl)) (t, row_id row)"
    using fun_cong [OF conjunct1 [OF A], of "(t, row_id row)"] V assms(3) by (simp add: on_tables_def p shown)
  ultimately show ?thesis using V A by (simp add: p)
qed

lemma increments_miss:
  assumes "cl_cursor cl = Some c" "distinct (cl_tables cl)" "t \<in> set (cl_tables cl)" "shown_rows (cl_effects cl) (t, row_id row) = None"
    and "increments row c ps" "row_tbl row = t" "row_version row \<le> cversion c"
  shows "cl_cursor (fold (onServerMsg cfg ev) (increment_msgs c ps) cl) = Some (last (c # map ic_cursor ps)) \<and>
    t \<in> set (cl_tables (fold (onServerMsg cfg ev) (increment_msgs c ps) cl)) \<and>
    shown_rows (cl_effects (fold (onServerMsg cfg ev) (increment_msgs c ps) cl)) (t, row_id row) = None"
  using assms
proof (induction ps arbitrary: cl c)
  case (Cons p ps)
  let ?cl = "fold (onServerMsg cfg ev) (increment_msgs c [p]) cl"
  have i: "increments row c [p]" using Cons.prems(5) by simp
  note S = increment_step [OF Cons.prems(1-4) i Cons.prems(6,7) refl, of cfg ev]
  have "distinct (cl_tables ?cl)" "t \<in> set (cl_tables ?cl)" using S Cons.prems(2,3) by simp_all
  moreover have "increments row (ic_cursor p) ps" "row_version row \<le> cversion (ic_cursor p)" using Cons.prems(5,7) by auto
  ultimately show ?case using Cons.IH [of ?cl "ic_cursor p"] S Cons.prems(6) by simp
qed simp

text \<open>
  C39: A table registered while the client is not synced stays partial. If a client holds a cursor
  and is not synced when a table it gave no rows to is registered - a collection created
  while offline - then no full resync is asked for, and the pokes that go on from its cursor, the
  answer to its next hello and any number after it, bring it to the workspace's cursor with the
  table registered but without any row of it that was last written up to the old cursor, for as
  long as that row is not written again - although the workspace has it.
\<close>

theorem late_table_stays_partial:
  assumes "\<not> cl_synced cl" "cl_cursor cl = Some c" "\<forall>i. shown_rows (cl_effects cl) (t, i) = None" "distinct (cl_tables cl)"
    and "registerTable cfg t cl = (None, cl1)"
    and "row_tbl row = t" "\<not> row_deleted row" "row_version row \<le> cversion c"
    and "increments row c ps" "ps \<noteq> []" "cl2 = fold (onServerMsg cfg ev) (increment_msgs c ps) cl1"
  shows "cl_effects cl1 = cl_effects cl \<and> cl_cursor cl2 = Some (ic_cursor (last ps)) \<and> t \<in> set (cl_tables cl2) \<and>
    (\<forall>p \<in> set ps. server_table (ic_rows p) (t, row_id row) = Some (row_data row)) \<and>
    shown_rows (cl_effects cl2) (t, row_id row) = None"
proof -
  have cl1: "cl1 = cl\<lparr>cl_tables := cl_tables cl @ [t]\<rparr>" "t \<notin> set (cl_tables cl)"
    using assms(1,5) by (auto simp: registerTable_def Let_def split: if_splits)
  have "cl_cursor cl1 = Some c" "distinct (cl_tables cl1)" "t \<in> set (cl_tables cl1)" "shown_rows (cl_effects cl1) (t, row_id row) = None"
    using assms(2-4) cl1(2) by (simp_all add: cl1(1))
  from increments_miss [OF this assms(9,6,8), of cfg ev] have I:
      "cl_cursor cl2 = Some (ic_cursor (last ps))" "t \<in> set (cl_tables cl2)" "shown_rows (cl_effects cl2) (t, row_id row) = None"
    using assms(10,11) by (simp_all add: last_map)
  have "\<forall>p \<in> set ps. sql_inv (ic_rows p) \<and> row \<in> set (ic_rows p)"
    using assms(9) by (induction ps arbitrary: c) auto
  then have "\<forall>p \<in> set ps. server_table (ic_rows p) (t, row_id row) = Some (row_data row)"
    using server_table_at [of _ row] assms(6,7) by (auto simp: shown_def)
  then show ?thesis using I by (simp add: cl1(1))
qed

text \<open>Two catch-ups of a workspace whose one row is older than the client's cursor.\<close>

theorem late_table_stays_partial_witness:
  "\<exists>cl2 :: Client. cl_cursor cl2 = Some \<lparr>backendId = js ''b'', cversion = 3\<rparr> \<and> js ''t'' \<in> set (cl_tables cl2) \<and>
     server_table [\<lparr>row_tbl = js ''t'', row_id = js ''a'', row_data = [], row_version = 1, row_deleted = False\<rparr>] (js ''t'', js ''a'') = Some [] \<and>
     shown_rows (cl_effects cl2) (js ''t'', js ''a'') = None"
proof -
  let ?c = "\<lambda>n. \<lparr>backendId = js ''b'', cversion = n\<rparr>"
  let ?row = "\<lparr>row_tbl = js ''t'', row_id = js ''a'', row_data = [], row_version = 1, row_deleted = False\<rparr>"
  let ?p = "\<lambda>n. \<lparr>ic_id = js ''p'', ic_rows = [?row], ic_groups = [[]], ic_lmids = [], ic_results = [], ic_cursor = ?c n\<rparr>"
  define cl where "cl = new_client\<lparr>cl_cursor := Some (?c 1)\<rparr>"
  define cl1 where "cl1 = cl\<lparr>cl_tables := [js ''t'']\<rparr>"
  have f: "\<not> cl_synced cl" "cl_cursor cl = Some (?c 1)" "\<forall>i. shown_rows (cl_effects cl) (js ''t'', i) = None" "distinct (cl_tables cl)"
    by (simp_all add: cl_def new_client_def shown_rows_def)
  have r: "registerTable (demo_options True) (js ''t'') cl = (None, cl1)"
    by (simp add: registerTable_def cl1_def cl_def new_client_def)
  have g: "row_tbl ?row = js ''t''" "\<not> row_deleted ?row" "row_version ?row \<le> cversion (?c 1)" "increments ?row (?c 1) [?p 2, ?p 3]" "[?p 2, ?p 3] \<noteq> []"
    by (simp_all add: sql_inv_def json_obj_def since_ops_def)
  from late_table_stays_partial [OF f r g refl, of demo_client_env] show ?thesis by fastforce
qed

end
