(* ===== verification/YjsReact.thy ===== *)
theory YjsReact
  imports YjsClient
begin

text \<open>
  The React hook of the Yjs add-on, yjs/src/react.ts. React runs the effect after a render whose
  props changed, its cleanup before the next run or at the end; the handle calls the effect's
  listener, and its \<open>whenSynced\<close> continuation runs once. These are the events here; what the
  handle's getters return at that moment is an argument. A \<open>fields\<close> object and a handle are
  identified by numbers.
\<close>

section \<open>The hook\<close>

text \<open>\<open>doc\<close> and \<open>text\<close> of a live state are the handle's.\<close>

datatype YjsFieldState = Unsynced | Live nat bool "WriteBlockedReason option"

record Snap =
  sn_fields :: nat
  sn_fieldId :: jstr
  sn_state :: YjsFieldState

text \<open>The variables of one run of the effect.\<close>

record HookEffect =
  he_fields :: nat
  he_fieldId :: jstr
  he_handle :: nat
  he_alive :: bool
  he_synced :: bool

datatype HookCallOut = Acquired nat jstr | Subscribed nat | Unsubscribed nat | Released nat

record FieldHook =
  hk_fields :: nat
  hk_fieldId :: jstr
  hk_effects :: "HookEffect list"
  hk_snap :: "Snap option"
  hk_renders :: nat
  hk_calls :: "HookCallOut list"

definition setSnap :: "(Snap option \<Rightarrow> Snap option) \<Rightarrow> FieldHook \<Rightarrow> FieldHook" where
  "setSnap f w = (let s = f (hk_snap w) in
     w\<lparr>hk_snap := s, hk_renders := hk_renders w + (if s = hk_snap w then 0 else 1)\<rparr>)"

definition publish :: "HookEffect \<Rightarrow> bool \<Rightarrow> WriteBlockedReason option \<Rightarrow> FieldHook \<Rightarrow> FieldHook" where
  "publish e cw wb w =
     (if \<not> he_alive e then w
      else setSnap (\<lambda>prev.
        (case prev of
           Some p \<Rightarrow> if sn_fields p = he_fields e \<and> sn_fieldId p = he_fieldId e \<and> sn_state p = Live (he_handle e) cw wb
                     then prev
                     else Some \<lparr>sn_fields = he_fields e, sn_fieldId = he_fieldId e, sn_state = Live (he_handle e) cw wb\<rparr>
         | None \<Rightarrow> Some \<lparr>sn_fields = he_fields e, sn_fieldId = he_fieldId e, sn_state = Live (he_handle e) cw wb\<rparr>)) w)"

text \<open>\<open>handle\<close> is what \<open>getDoc\<close> returned, None when it threw and the effect did nothing.\<close>

definition run_effect :: "nat option \<Rightarrow> FieldHook \<Rightarrow> FieldHook" where
  "run_effect handle w =
     (case handle of
        None \<Rightarrow> w
      | Some h \<Rightarrow> w\<lparr>hk_effects := hk_effects w @
            [\<lparr>he_fields = hk_fields w, he_fieldId = hk_fieldId w, he_handle = h, he_alive = True, he_synced = False\<rparr>],
          hk_calls := hk_calls w @ [Acquired h (hk_fieldId w), Subscribed h]\<rparr>)"

definition cleanup_effect :: "nat \<Rightarrow> FieldHook \<Rightarrow> FieldHook" where
  "cleanup_effect k w =
     (let e = hk_effects w ! k in
      w\<lparr>hk_effects := (hk_effects w)[k := e\<lparr>he_alive := False\<rparr>],
        hk_calls := hk_calls w @ [Unsubscribed (he_handle e), Released (he_handle e)]\<rparr>)"

definition notified :: "nat \<Rightarrow> bool \<Rightarrow> WriteBlockedReason option \<Rightarrow> FieldHook \<Rightarrow> FieldHook" where
  "notified k cw wb w = (let e = hk_effects w ! k in if he_synced e then publish e cw wb w else w)"

definition resolved :: "nat \<Rightarrow> bool \<Rightarrow> WriteBlockedReason option \<Rightarrow> FieldHook \<Rightarrow> FieldHook" where
  "resolved k cw wb w =
     (let e = (hk_effects w ! k)\<lparr>he_synced := True\<rparr> in publish e cw wb (w\<lparr>hk_effects := (hk_effects w)[k := e]\<rparr>))"

text \<open>What a render returns.\<close>

definition useYjsField :: "FieldHook \<Rightarrow> YjsFieldState" where
  "useYjsField w =
     (case hk_snap w of
        Some s \<Rightarrow> if sn_fields s = hk_fields w \<and> sn_fieldId s = hk_fieldId w then sn_state s else Unsynced
      | None \<Rightarrow> Unsynced)"

section \<open>Histories\<close>

definition first_render :: "nat \<Rightarrow> jstr \<Rightarrow> FieldHook" where
  "first_render F f = \<lparr>hk_fields = F, hk_fieldId = f, hk_effects = [], hk_snap = None, hk_renders = 0, hk_calls = []\<rparr>"

datatype HookEvent =
    Render nat jstr
  | RunEffect "nat option"
  | CleanupEffect nat
  | NotifiedEffect nat bool "WriteBlockedReason option"
  | ResolvedEffect nat bool "WriteBlockedReason option"

text \<open>React runs a cleanup once.\<close>

fun hook_event :: "HookEvent \<Rightarrow> FieldHook \<Rightarrow> FieldHook" where
  "hook_event (Render F f) w = w\<lparr>hk_fields := F, hk_fieldId := f\<rparr>"
| "hook_event (RunEffect h) w = run_effect h w"
| "hook_event (CleanupEffect k) w =
     (if k < length (hk_effects w) \<and> he_alive (hk_effects w ! k) then cleanup_effect k w else w)"
| "hook_event (NotifiedEffect k cw wb) w = (if k < length (hk_effects w) then notified k cw wb w else w)"
| "hook_event (ResolvedEffect k cw wb) w = (if k < length (hk_effects w) then resolved k cw wb w else w)"

fun handles_of :: "HookEvent list \<Rightarrow> nat list" where
  "handles_of [] = []"
| "handles_of (RunEffect (Some h) # es) = h # handles_of es"
| "handles_of (_ # es) = handles_of es"

lemma handles_append: "handles_of (xs @ ys) = handles_of xs @ handles_of ys"
  by (induction xs rule: handles_of.induct) simp_all

lemma publish_snap:
  "hk_snap (publish e cw wb w) = (if he_alive e
     then Some \<lparr>sn_fields = he_fields e, sn_fieldId = he_fieldId e, sn_state = Live (he_handle e) cw wb\<rparr> else hk_snap w)"
  "hk_effects (publish e cw wb w) = hk_effects w" "hk_calls (publish e cw wb w) = hk_calls w"
  by (auto simp: publish_def setSnap_def Let_def split: option.splits)

lemma dead_update:
  assumes "k < length es"
  shows "length (filter P (es[k := e])) + (if P (es ! k) then 1 else 0) = length (filter P es) + (if P e then 1 else 0)"
proof -
  have "filter P es = filter P (take k es) @ filter P [es ! k] @ filter P (drop (Suc k) es)"
    by (subst id_take_nth_drop [OF assms]) simp
  moreover have "filter P (es[k := e]) = filter P (take k es) @ filter P [e] @ filter P (drop (Suc k) es)"
    by (simp add: upd_conv_take_nth_drop [OF assms])
  ultimately show ?thesis by simp
qed

lemma one_of: "distinct (map f xs) \<Longrightarrow> x \<in> set xs \<Longrightarrow> filter (\<lambda>y. f y = f x) xs = [x]"
proof (induction xs)
  case (Cons a xs)
  show ?case
  proof (cases "x = a")
    case True
    then have "\<forall>y \<in> set xs. f y \<noteq> f x" using Cons.prems(1) by (auto simp: image_iff)
    then show ?thesis using True by (simp add: filter_empty_conv)
  next
    case False
    then have "f a \<noteq> f x" using Cons.prems by auto
    then show ?thesis using Cons False by simp
  qed
qed simp

definition hook_snap_ok :: "HookEffect list \<Rightarrow> Snap \<Rightarrow> bool" where
  "hook_snap_ok effs s \<longleftrightarrow> (\<exists>e \<in> set effs. \<exists>cw wb. he_synced e \<and> he_fields e = sn_fields s \<and> he_fieldId e = sn_fieldId s \<and>
     sn_state s = Live (he_handle e) cw wb)"

lemma snap_update:
  assumes "hook_snap_ok effs s" "k < length effs" "he_fields e = he_fields (effs ! k)" "he_fieldId e = he_fieldId (effs ! k)"
    "he_handle e = he_handle (effs ! k)" "he_synced (effs ! k) \<Longrightarrow> he_synced e"
  shows "hook_snap_ok (effs[k := e]) s"
proof -
  obtain e0 cw wb where e0: "e0 \<in> set effs" "he_synced e0" "he_fields e0 = sn_fields s" "he_fieldId e0 = sn_fieldId s"
      "sn_state s = Live (he_handle e0) cw wb"
    using assms(1) by (auto simp: hook_snap_ok_def)
  obtain i where i: "i < length effs" "effs ! i = e0" using e0(1) by (auto simp: in_set_conv_nth)
  have "(effs[k := e]) ! i \<in> set (effs[k := e])" using i(1) by simp
  then show ?thesis using e0 i assms(2-6) unfolding hook_snap_ok_def
    by (intro bexI [of _ "(effs[k := e]) ! i"] exI [of _ cw] exI [of _ wb]) (cases "i = k"; simp)+
qed

lemma snap_published:
  "k < length effs \<Longrightarrow> he_synced (effs ! k) \<Longrightarrow>
     hook_snap_ok effs \<lparr>sn_fields = he_fields (effs ! k), sn_fieldId = he_fieldId (effs ! k), sn_state = Live (he_handle (effs ! k)) cw wb\<rparr>"
  unfolding hook_snap_ok_def by (intro bexI [of _ "effs ! k"]) auto

definition hook_inv :: "nat list \<Rightarrow> FieldHook \<Rightarrow> bool" where
  "hook_inv hs w \<longleftrightarrow> map he_handle (hk_effects w) = hs \<and> (\<forall>s. hk_snap w = Some s \<longrightarrow> hook_snap_ok (hk_effects w) s) \<and>
     (\<forall>h. count_list (hk_calls w) (Released h) = length (filter (\<lambda>e. he_handle e = h \<and> \<not> he_alive e) (hk_effects w)))"

lemma hook_inv_event: "hook_inv hs w \<Longrightarrow> hook_inv (hs @ handles_of [e]) (hook_event e w)"
proof (cases e)
  case (RunEffect h)
  assume "hook_inv hs w"
  then show ?thesis
    by (cases h) (auto simp: RunEffect hook_inv_def run_effect_def hook_snap_ok_def)
next
  case (CleanupEffect k)
  assume inv: "hook_inv hs w"
  show ?thesis
  proof (cases "k < length (hk_effects w) \<and> he_alive (hk_effects w ! k)")
    case True
    let ?e = "(hk_effects w ! k)\<lparr>he_alive := False\<rparr>"
    have "map he_handle ((hk_effects w)[k := ?e]) = map he_handle (hk_effects w)"
      by (simp add: map_update list_update_same_conv True)
    moreover have "hook_snap_ok ((hk_effects w)[k := ?e]) s" if "hook_snap_ok (hk_effects w) s" for s
      by (rule snap_update [OF that]) (use True in simp_all)
    ultimately show ?thesis
      using inv True dead_update [of k "hk_effects w" "\<lambda>e. he_handle e = h \<and> \<not> he_alive e" ?e for h]
      by (auto simp: CleanupEffect hook_inv_def cleanup_effect_def Let_def)
  qed (use inv in \<open>auto simp: CleanupEffect\<close>)
next
  case (NotifiedEffect k cw wb)
  assume inv: "hook_inv hs w"
  then show ?thesis using snap_published [of k "hk_effects w" cw wb]
    by (auto simp: NotifiedEffect hook_inv_def notified_def Let_def publish_snap)
next
  case (ResolvedEffect k cw wb)
  assume inv: "hook_inv hs w"
  show ?thesis
  proof (cases "k < length (hk_effects w)")
    case True
    let ?e = "(hk_effects w ! k)\<lparr>he_synced := True\<rparr>"
    have "map he_handle ((hk_effects w)[k := ?e]) = map he_handle (hk_effects w)"
      by (simp add: map_update list_update_same_conv True)
    moreover have "hook_snap_ok ((hk_effects w)[k := ?e]) s" if "hook_snap_ok (hk_effects w) s" for s
      by (rule snap_update [OF that]) (use True in simp_all)
    moreover have "hook_snap_ok ((hk_effects w)[k := ?e])
        \<lparr>sn_fields = he_fields ?e, sn_fieldId = he_fieldId ?e, sn_state = Live (he_handle ?e) cw wb\<rparr>"
      using snap_published [of k "(hk_effects w)[k := ?e]" cw wb] True by simp
    moreover have "length (filter (\<lambda>e. he_handle e = h \<and> \<not> he_alive e) ((hk_effects w)[k := ?e])) =
        length (filter (\<lambda>e. he_handle e = h \<and> \<not> he_alive e) (hk_effects w))" for h
      using dead_update [OF True, of "\<lambda>e. he_handle e = h \<and> \<not> he_alive e" ?e] by (simp split: if_splits)
    ultimately show ?thesis
      using inv True by (auto simp: ResolvedEffect hook_inv_def resolved_def Let_def publish_snap)
  qed (use inv in \<open>simp add: ResolvedEffect\<close>)
qed (auto simp: hook_inv_def)

text \<open>
  C26: The hook shows its own field only, after it synced, and leaks no handle. In every history
  of renders, effect runs, cleanups and handle callbacks: a live state a render returns belongs to
  a handle that an effect of this hook acquired for the field of the current props and whose
  \<open>whenSynced\<close> had resolved; and each handle acquired is released exactly once if its effect was
  cleaned up, and not at all before.
\<close>

theorem hook_shows_own_field:
  assumes "distinct (handles_of events)" "w = fold hook_event events (first_render F f)"
  shows "(\<forall>h cw wb. useYjsField w = Live h cw wb \<longrightarrow>
      (\<exists>e \<in> set (hk_effects w). he_handle e = h \<and> he_fields e = hk_fields w \<and> he_fieldId e = hk_fieldId w \<and> he_synced e)) \<and>
    (\<forall>e \<in> set (hk_effects w). count_list (hk_calls w) (Released (he_handle e)) = (if he_alive e then 0 else 1))"
proof -
  have "hook_inv (hs @ handles_of es) (fold hook_event es w)" if "hook_inv hs w" for es hs w
    using that
  proof (induction es arbitrary: hs w)
    case (Cons e es)
    show ?case using Cons.IH [OF hook_inv_event [OF Cons.prems, of e]] handles_append [of "[e]" es] by simp
  qed simp
  moreover have "hook_inv [] (first_render F f)" by (simp add: hook_inv_def first_render_def)
  ultimately have inv: "hook_inv (handles_of events) w" unfolding assms(2) by fastforce
  have one: "length (filter (\<lambda>e'. he_handle e' = he_handle e \<and> \<not> he_alive e') (hk_effects w)) = (if he_alive e then 0 else 1)"
    if e: "e \<in> set (hk_effects w)" for e
  proof -
    have d: "distinct (map he_handle (hk_effects w))" using inv assms(1) by (simp add: hook_inv_def)
    then have "filter (\<lambda>e'. he_handle e' = he_handle e) (hk_effects w) = [e]"
      using e by (rule one_of)
    then have "filter (\<lambda>e'. \<not> he_alive e') (filter (\<lambda>e'. he_handle e' = he_handle e) (hk_effects w)) = (if he_alive e then [] else [e])"
      by simp
    then show ?thesis by (simp add: conj_commute split: if_splits)
  qed
  show ?thesis
  proof (intro conjI allI impI ballI)
    fix h cw wb
    assume u: "useYjsField w = Live h cw wb"
    then obtain s where s: "hk_snap w = Some s" "sn_fields s = hk_fields w" "sn_fieldId s = hk_fieldId w" "sn_state s = Live h cw wb"
      by (auto simp: useYjsField_def split: option.splits if_splits)
    then have "hook_snap_ok (hk_effects w) s" using inv by (simp add: hook_inv_def)
    then show "\<exists>e \<in> set (hk_effects w). he_handle e = h \<and> he_fields e = hk_fields w \<and> he_fieldId e = hk_fieldId w \<and> he_synced e"
      using s by (auto simp: hook_snap_ok_def)
  next
    fix e assume "e \<in> set (hk_effects w)"
    from one [OF this] inv show "count_list (hk_calls w) (Released (he_handle e)) = (if he_alive e then 0 else 1)"
      by (simp add: hook_inv_def)
  qed
qed

text \<open>
  Returning to a field shows its released handle. A component that shows a synced field,
  switches to another and back before the other one synced - always, while offline - gets the
  first handle as a live, writable state again, although its effect has released it: what is
  typed then goes into a document that nothing sends.
\<close>

theorem hook_returns_released_handle:
  assumes "f \<noteq> g"
    and "w = fold hook_event [RunEffect (Some h1), ResolvedEffect 0 True None, Render F g, CleanupEffect 0, RunEffect (Some h2),
      Render F f, CleanupEffect 1, RunEffect (Some h3)] (first_render F f)"
  shows "useYjsField w = Live h1 True None \<and> Released h1 \<in> set (hk_calls w)"
  by (simp add: assms(2) first_render_def run_effect_def cleanup_effect_def resolved_def publish_def setSnap_def useYjsField_def Let_def)

theorem hook_shows_own_field_witness:
  "let w = fold hook_event [RunEffect (Some 0), ResolvedEffect 0 True None, Render 1 (js ''b''), CleanupEffect 0, RunEffect (Some 1)]
      (first_render 1 (js ''a'')) in
    useYjsField w = Unsynced \<and> count_list (hk_calls w) (Released 0) = 1 \<and> count_list (hk_calls w) (Released 1) = 0"
proof -
  let ?es = "[RunEffect (Some 0), ResolvedEffect 0 True None, Render 1 (js ''b''), CleanupEffect 0, RunEffect (Some 1)]"
  let ?w = "fold hook_event ?es (first_render 1 (js ''a''))"
  have d: "distinct (handles_of ?es)" by simp
  have e: "hk_effects ?w = [\<lparr>he_fields = 1, he_fieldId = js ''a'', he_handle = 0, he_alive = False, he_synced = True\<rparr>,
      \<lparr>he_fields = 1, he_fieldId = js ''b'', he_handle = 1, he_alive = True, he_synced = False\<rparr>]" "useYjsField ?w = Unsynced"
    by (simp_all add: first_render_def run_effect_def cleanup_effect_def resolved_def publish_def setSnap_def useYjsField_def Let_def)
  show ?thesis using hook_shows_own_field [OF d refl, of 1 "js ''a''"] e unfolding Let_def by simp
qed

theorem hook_returns_released_handle_witness:
  "\<exists>w. useYjsField w = Live 7 True None \<and> Released 7 \<in> set (hk_calls w)"
proof -
  have "js ''a'' \<noteq> js ''b''" by simp
  from hook_returns_released_handle [OF this refl] show ?thesis by blast
qed

end
