(* ===== verification/Demo.thy ===== *)
theory Demo
  imports EngineSpec
begin

text \<open>
  The demo application: its app definition (apps/demo/src/schema.ts), a concrete client of the
  mutator and migration model, and the textarea diff of its notes (apps/demo/src/NotesField.tsx).
  The issues zod reports for a value are a parameter, \<open>zi\<close>.
\<close>

section \<open>The app\<close>

definition js_truthy :: "jval \<Rightarrow> bool" where
  "js_truthy v = (case v of JUndef \<Rightarrow> False | JNull \<Rightarrow> False | JBool b \<Rightarrow> b
     | JNum n \<Rightarrow> n \<noteq> Fin 0 \<and> n \<noteq> NaN | JStr s \<Rightarrow> s \<noteq> [] | _ \<Rightarrow> True)"

definition priorities :: "jstr list" where
  "priorities = [js ''low'', js ''normal'', js ''high'']"

definition z_priority :: "jval \<Rightarrow> jstr option" where
  "z_priority v = (case v of JStr s \<Rightarrow> if s \<in> set priorities then Some s else None | _ \<Rightarrow> None)"

definition z_bool :: "jval \<Rightarrow> bool option" where
  "z_bool v = (case v of JBool b \<Rightarrow> Some b | _ \<Rightarrow> None)"

definition todos_schema :: "(jobj \<Rightarrow> Issue list) \<Rightarrow> jobj \<Rightarrow> jobj verdict" where
  "todos_schema zi ob =
     (case Option.bind (z_string (field ob (js ''id''))) (\<lambda>i.
           Option.bind (z_string (field ob (js ''title''))) (\<lambda>title.
           Option.bind (z_bool (field ob (js ''completed''))) (\<lambda>completed.
           Option.bind (z_string (field ob (js ''createdAt''))) (\<lambda>createdAt.
           Option.bind (if field ob (js ''priority'') = JUndef then Some (js ''normal'') else z_priority (field ob (js ''priority''))) (\<lambda>priority.
           Some [(js ''id'', JStr i), (js ''title'', JStr title), (js ''completed'', JBool completed),
                 (js ''createdAt'', JStr createdAt), (js ''priority'', JStr priority)]))))) of
        None \<Rightarrow> VIssues (zi ob) | Some row \<Rightarrow> VValue row)"

fun delete_completed :: "(jstr \<times> jobj) list \<Rightarrow> prog" where
  "delete_completed [] = Done"
| "delete_completed ((i, row) # rows) =
     (if js_truthy (field row (js ''completed'')) then CallDel (js ''todos'') i (orThrow (\<lambda>_. delete_completed rows))
      else delete_completed rows)"

definition clearCompleted :: "jval \<Rightarrow> MutatorContext \<Rightarrow> prog" where
  "clearCompleted args ctx = CallList (js ''todos'') None (orThrow delete_completed)"

definition setPriority_args :: "(jval \<Rightarrow> Issue list) \<Rightarrow> jval \<Rightarrow> jval verdict" where
  "setPriority_args zi v =
     (case z_object (\<lambda>ob. Option.bind (z_string (field ob (js ''id''))) (\<lambda>i.
             Option.bind (z_priority (field ob (js ''priority''))) (\<lambda>p.
             Some (JObj [(js ''id'', JStr i), (js ''priority'', JStr p)])))) v of
        None \<Rightarrow> VIssues (zi v) | Some w \<Rightarrow> VValue w)"

definition setPriority :: "jval \<Rightarrow> MutatorContext \<Rightarrow> prog" where
  "setPriority args ctx =
     (let i = str_of (field (obj_of args) (js ''id'')) in
      CallGet (js ''todos'') i (orThrow (\<lambda>todo.
        case todo of
          None \<Rightarrow> Throw (AppError (js ''NotFound'') (js ''todo '' @ i @ js '' does not exist''))
        | Some row \<Rightarrow>
            if ctx_authoritative ctx \<and> js_truthy (field row (js ''completed'')) then
              Throw (AppError (js ''CompletedLocked'') (js ''completed todos cannot be reprioritized''))
            else CallPut (js ''todos'') i (AList.update (js ''priority'') (field (obj_of args) (js ''priority'')) row) (orThrow (\<lambda>_. Done)))))"

fun add_priorities :: "(jstr \<times> jobj) list \<Rightarrow> prog" where
  "add_priorities [] = Done"
| "add_priorities ((i, row) # rows) =
     CallPut (js ''todos'') i (spread [(js ''priority'', JStr (js ''normal''))] row) (orThrow (\<lambda>_. add_priorities rows))"

definition add_priority_step :: prog where
  "add_priority_step = CallList (js ''todos'') None (orThrow add_priorities)"

definition todo_mutators :: "(jval \<Rightarrow> Issue list) \<Rightarrow> mutators" where
  "todo_mutators zi =
     [(js ''todos.clearCompleted'', \<lparr>def_args = None, def_apply = clearCompleted\<rparr>),
      (js ''todos.setPriority'', \<lparr>def_args = Some (setPriority_args zi), def_apply = setPriority\<rparr>)]"

text \<open>The presence schema, an application's own, is the parameter \<open>presence\<close>.\<close>

definition todo_app :: "(jval \<Rightarrow> Issue list) \<Rightarrow> (jobj \<Rightarrow> Issue list) \<Rightarrow> (jval \<Rightarrow> jval verdict) \<Rightarrow> AppDefinition res" where
  "todo_app zi zr presence =
     bind_res (defineMutators (todo_mutators zi) None) (\<lambda>reg.
     defineApp zi \<lparr>in_version = Fin 3, in_schema = [(js ''todos'', todos_schema zr)], in_mutators = Some reg,
       in_migrations = [(Fin 2, Some add_priority_step), (Fin 3, None)], in_presence = Some presence, in_crud = True\<rparr>)"

section \<open>Clearing completed todos on the server\<close>

lemma delete_completed_run:
  assumes "\<forall>(i, row) \<in> set xs. js_truthy (field row (js ''completed'')) \<longrightarrow> id_ok i" "TABLE_NAME_RE (js ''todos'')"
  shows "\<exists>ws'. run_prog ops sch st (delete_completed xs) ws = (ws', None) \<and> (ws_puts ws = [] \<longrightarrow> ws_puts ws' = []) \<and>
    (\<forall>t i. TABLE_NAME_RE t \<longrightarrow> view ops st ws' t i =
       (if t = js ''todos'' \<and> (\<exists>row. (i, row) \<in> set xs \<and> js_truthy (field row (js ''completed''))) then None else view ops st ws t i))"
  using assms(1)
proof (induction xs arbitrary: ws)
  case (Cons x xs)
  obtain i row where x: "x = (i, row)" by (cases x)
  have IH: "\<exists>ws'. run_prog ops sch st (delete_completed xs) ws = (ws', None) \<and> (ws_puts ws = [] \<longrightarrow> ws_puts ws' = []) \<and>
    (\<forall>t i. TABLE_NAME_RE t \<longrightarrow> view ops st ws' t i =
       (if t = js ''todos'' \<and> (\<exists>row. (i, row) \<in> set xs \<and> js_truthy (field row (js ''completed''))) then None else view ops st ws t i))" for ws
    by (rule Cons.IH) (use Cons.prems in auto)
  show ?case
  proof (cases "js_truthy (field row (js ''completed''))")
    case True
    then have "id_ok i" using Cons.prems x by simp
    define w1 where "w1 = after_del (rememberBefore ops st (js ''todos'') i ws) (js ''todos'') i"
    have d: "tx_del ops st ws (js ''todos'') i = (Inr (), w1)"
      using \<open>id_ok i\<close> assms(2) by (simp add: tx_del_def Let_def after_del_def w1_def del: js_simps)
    have puts: "ws_puts ws = [] \<Longrightarrow> ws_puts w1 = []" by (simp add: w1_def after_del_def del: js_simps)
    have v: "view ops st w1 t j = (if t = js ''todos'' \<and> j = i then None else view ops st ws t j)" if "TABLE_NAME_RE t" for t j
      unfolding w1_def view_after_del [OF assms(2) that] view_remember by (rule refl)
    obtain ws' where "run_prog ops sch st (delete_completed xs) w1 = (ws', None)" "ws_puts w1 = [] \<longrightarrow> ws_puts ws' = []"
      "\<forall>t i. TABLE_NAME_RE t \<longrightarrow> view ops st ws' t i =
       (if t = js ''todos'' \<and> (\<exists>row. (i, row) \<in> set xs \<and> js_truthy (field row (js ''completed''))) then None else view ops st w1 t i)"
      using IH [of w1] by blast
    then show ?thesis using True puts v
      by (intro exI [of _ ws']) (auto simp: x d orThrow_def simp del: js_simps)
  next
    case False
    then have eq: "(\<exists>r. (j, r) \<in> set (x # xs) \<and> js_truthy (field r (js ''completed''))) \<longleftrightarrow>
        (\<exists>r. (j, r) \<in> set xs \<and> js_truthy (field r (js ''completed'')))" for j
      by (auto simp: x simp del: js_simps)
    have "delete_completed (x # xs) = delete_completed xs" using False by (simp add: x del: js_simps)
    then show ?thesis unfolding eq using IH [of ws] by simp
  qed
qed simp

lemma todo_app_mutators:
  assumes "todo_app zi zr presence = Inr app"
  shows "prop_get (app_mutators app) (js ''todos.clearCompleted'') = Own \<lparr>def_args = None, def_apply = clearCompleted\<rparr>"
    and "app_version app = 3" "map mig_to (app_migrations app) = [2, 3]"
proof -
  obtain reg where r: "defineMutators (todo_mutators zi) None = Inr reg" using assms by (auto simp: todo_app_def bind_res_Inr_iff)
  then have d: "reg_defs reg = todo_mutators zi" by (auto simp: defineMutators_def bind_res_Inr_iff split: if_splits)
  show "prop_get (app_mutators app) (js ''todos.clearCompleted'') = Own \<lparr>def_args = None, def_apply = clearCompleted\<rparr>"
    "app_version app = 3" "map mig_to (app_migrations app) = [2, 3]"
    using assms r by (auto simp: todo_app_def d defineApp_def Let_def bind_res_Inr_iff todo_mutators_def crudMutators_def prop_get_def
        split: if_splits)
qed

text \<open>
  Clearing completed todos does exactly that. On any table of the workspace, the demo's
  mutator run by the engine succeeds and leaves every row of every table as it was, except the
  completed todos, which are gone.
\<close>

theorem clear_completed_exact:
  assumes "todo_app zi zr presence = Inr (cf_app cfg)" "mut_name m = js ''todos.clearCompleted''" "sql_inv rows"
    and "\<forall>row \<in> set rows. row_tbl row = js ''todos'' \<longrightarrow> id_ok (row_id row)"
  shows "\<exists>rows' wrote ch. run_mutation cfg v rows a m = Inr (rows', wrote, mut_args m, ch) \<and> sql_inv rows' \<and>
    (\<forall>t i. TABLE_NAME_RE t \<longrightarrow> sql_get rows' t i =
       (if t = js ''todos'' \<and> (\<exists>row. sql_get rows t i = Some row \<and> js_truthy (field row (js ''completed''))) then None
        else sql_get rows t i))"
proof -
  let ?ops = "SqlRowStore (cf_plan cfg)" and ?sch = "app_schema (cf_app cfg)" and ?new = "new_WriteSet False (cf_hook cfg)"
  have t: "TABLE_NAME_RE (js ''todos'')" by (simp add: TABLE_NAME_RE_def name_start_def name_part_def)
  have g: "rs_get ?ops = sql_get" by (simp add: SqlRowStore_def)
  have v0: "view ?ops rows ?new t i = sql_get rows t i" for t i by (simp add: view_def new_WriteSet_def has_def g)
  have L: "\<exists>xs. tx_list ?ops rows ?new (js ''todos'') None = Inr xs \<and> distinct (map fst xs) \<and>
      (\<forall>i. map_of xs i = (case view ?ops rows ?new (js ''todos'') i of Some d \<Rightarrow> if True then Some d else None | None \<Rightarrow> None))"
    by (rule sql.tx_list_view [OF assms(3) ws_inv_new t]) (simp_all add: defined_where_def)
  from L obtain xs where xs: "tx_list ?ops rows ?new (js ''todos'') None = Inr xs" "distinct (map fst xs)"
      and look: "\<forall>i. map_of xs i = (case view ?ops rows ?new (js ''todos'') i of Some d \<Rightarrow> if True then Some d else None | None \<Rightarrow> None)"
    by (elim exE conjE)
  have found: "map_of xs i = sql_get rows (js ''todos'') i" for i
    using spec [OF look, of i] unfolding v0 by (cases "sql_get rows (js ''todos'') i") (simp_all del: js_simps)
  have mem: "(i, row) \<in> set xs \<longleftrightarrow> sql_get rows (js ''todos'') i = Some row" for i row
    using map_of_eq_Some_iff [OF xs(2), of i row] unfolding found by blast
  have "\<forall>(i, row) \<in> set xs. js_truthy (field row (js ''completed'')) \<longrightarrow> id_ok i"
    using assms(4) by (auto simp: mem sql_get_def split: option.splits dest!: find_SomeD)
  from delete_completed_run [OF this t, of ?ops ?sch rows ?new] obtain ws where ws:
      "run_prog ?ops ?sch rows (delete_completed xs) ?new = (ws, None)" "ws_puts ws = []"
      "\<And>t i. TABLE_NAME_RE t \<Longrightarrow> view ?ops rows ws t i =
         (if t = js ''todos'' \<and> (\<exists>row. (i, row) \<in> set xs \<and> js_truthy (field row (js ''completed''))) then None else sql_get rows t i)"
    unfolding v0 by (auto simp: new_WriteSet_def)
  have run: "run_prog ?ops ?sch rows (clearCompleted args ctx) ?new = (ws, None)" for args ctx
    using ws(1) by (simp add: clearCompleted_def xs(1) orThrow_def del: js_simps)
  have b: "ws = buffer_of ?ops ?sch rows (clearCompleted (mut_args m) (mutation_ctx a m)) False (cf_hook cfg)"
    by (simp add: buffer_of_def run)
  obtain rows' n ch where f: "flush ?ops ?sch rows ws (v + 1) = Inr (rows', n, ch)"
    using flush_total [of ws ?ops ?sch rows "v + 1"] b by auto
  have fl: "flushed ?ops ?sch rows ws = view ?ops rows ws" using b by (simp add: flushed_now)
  have "ws_inv ?ops rows ws" unfolding b by (rule buffer_inv)
  from sql.flush_spec [OF assms(3) this f] have F: "sql_inv rows'"
      "\<And>t i. TABLE_NAME_RE t \<Longrightarrow> sql_get rows' t i = view ?ops rows ws t i"
    unfolding g fl ws(2) by auto
  have "run_mutation cfg v rows a m = Inr (rows', if 0 < n then Some (v + 1) else None, mut_args m, ch)"
    by (simp add: run_mutation_def assms(2) todo_app_mutators(1) [OF assms(1)] parse_args_def Let_def run f del: js_simps)
  then show ?thesis using F ws(3) by (auto simp: mem)
qed

lemma todo_app_accepted: "\<exists>app. todo_app zi zr presence = Inr app"
  by (simp add: todo_app_def defineMutators_def todo_mutators_def check_name_def defineApp_def Let_def)

definition done_row :: "jstr \<Rightarrow> bool \<Rightarrow> StoredRow" where
  "done_row i b = \<lparr>row_tbl = js ''todos'', row_id = i, row_data = [(js ''completed'', JBool b)], row_version = 1, row_deleted = False\<rparr>"

theorem clear_completed_exact_witness:
  "\<exists>app rows' wrote ch. todo_app (\<lambda>_. []) (\<lambda>_. []) VValue = Inr app \<and>
     run_mutation (demo_cfg\<lparr>cf_app := app\<rparr>) 1 [done_row (js ''a'') True, done_row (js ''b'') False] demo_att
       \<lparr>mut_id = 1, mut_name = js ''todos.clearCompleted'', mut_args = JNull, mut_seed = js ''s''\<rparr> = Inr (rows', wrote, JNull, ch) \<and>
     sql_get rows' (js ''todos'') (js ''a'') = None \<and> sql_get rows' (js ''todos'') (js ''b'') \<noteq> None"
proof -
  let ?rows = "[done_row (js ''a'') True, done_row (js ''b'') False]"
  let ?m = "\<lparr>mut_id = 1, mut_name = js ''todos.clearCompleted'', mut_args = JNull, mut_seed = js ''s''\<rparr>"
  obtain app where app: "todo_app (\<lambda>_. []) (\<lambda>_. []) VValue = Inr app" using todo_app_accepted by blast
  let ?cfg = "demo_cfg\<lparr>cf_app := app\<rparr>"
  have a: "todo_app (\<lambda>_. []) (\<lambda>_. []) VValue = Inr (cf_app ?cfg)" using app by simp
  have n: "mut_name ?m = js ''todos.clearCompleted''" by simp
  have i: "sql_inv ?rows" by (simp add: sql_inv_def done_row_def json_obj_def)
  have k: "\<forall>row \<in> set ?rows. row_tbl row = js ''todos'' \<longrightarrow> id_ok (row_id row)"
    by (simp add: done_row_def id_ok_def MAX_ID_LENGTH_def)
  have t: "TABLE_NAME_RE (js ''todos'')" by (simp add: TABLE_NAME_RE_def name_start_def name_part_def)
  have g: "sql_get ?rows (js ''todos'') (js ''a'') = Some [(js ''completed'', JBool True)]"
    "sql_get ?rows (js ''todos'') (js ''b'') = Some [(js ''completed'', JBool False)]"
    by (simp_all add: sql_get_def done_row_def)
  have c: "js_truthy (field [(js ''completed'', JBool b)] (js ''completed'')) = b" for b
    by (simp add: field_def js_truthy_def)
  from clear_completed_exact [OF a n i k, of 1 demo_att] obtain rows' wrote ch where R:
      "run_mutation ?cfg 1 ?rows demo_att ?m = Inr (rows', wrote, mut_args ?m, ch)"
      "\<forall>t i. TABLE_NAME_RE t \<longrightarrow> sql_get rows' t i =
       (if t = js ''todos'' \<and> (\<exists>row. sql_get ?rows t i = Some row \<and> js_truthy (field row (js ''completed''))) then None
        else sql_get ?rows t i)"
    by blast
  have "sql_get rows' (js ''todos'') (js ''a'') = None" "sql_get rows' (js ''todos'') (js ''b'') \<noteq> None"
    using R(2) t by (auto simp: g c simp del: js_simps)
  then show ?thesis using app R(1) by (intro exI [of _ app] exI [of _ rows'] exI [of _ wrote] exI [of _ ch]) simp
qed

section \<open>The notes diff\<close>

text \<open>How many leading code units two texts share.\<close>

fun agree :: "jstr \<Rightarrow> jstr \<Rightarrow> nat" where
  "agree (a # as) (b # bs) = (if a = b then Suc (agree as bs) else 0)"
| "agree _ _ = 0"

text \<open>Where the edit starts, how many units it deletes, and what it inserts.\<close>

definition notes_edit :: "jstr \<Rightarrow> jstr \<Rightarrow> nat \<times> nat \<times> jstr" where
  "notes_edit old new =
     (let start = agree old new;
          tail = agree (rev (drop start old)) (rev (drop start new));
          prevEnd = length old - tail; nextEnd = length new - tail
      in (start, prevEnd - start, take (nextEnd - start) (drop start new)))"

definition apply_edit :: "nat \<times> nat \<times> jstr \<Rightarrow> jstr \<Rightarrow> jstr" where
  "apply_edit e text = (case e of (start, n, ins) \<Rightarrow> take start text @ ins @ drop (start + n) text)"

lemma agree_le: "agree a b \<le> length a \<and> agree a b \<le> length b"
  by (induction a b rule: agree.induct) auto

lemma agree_take: "take (agree a b) a = take (agree a b) b"
  by (induction a b rule: agree.induct) auto

lemma agree_max: "k \<le> length a \<Longrightarrow> k \<le> length b \<Longrightarrow> take k a = take k b \<Longrightarrow> k \<le> agree a b"
proof (induction a b arbitrary: k rule: agree.induct)
  case (1 a as b bs)
  then show ?case by (cases k) (auto split: if_splits)
qed auto

lemma agree_rev: "drop (length a - agree (rev a) (rev b)) a = drop (length b - agree (rev a) (rev b)) b"
proof -
  have "rev (drop (length a - k) a) = take k (rev a)" for k and a :: jstr
    by (cases "k \<le> length a") (simp_all add: rev_drop)
  then show ?thesis using agree_take [of "rev a" "rev b"] by (metis rev_rev_ident)
qed

lemma agree_rev_max:
  assumes "k \<le> length a" "k \<le> length b" "drop (length a - k) a = drop (length b - k) b"
  shows "k \<le> agree (rev a) (rev b)"
proof (rule agree_max)
  have "rev (drop (length a - k) a) = take k (rev a)" for k and a :: jstr
    by (cases "k \<le> length a") (simp_all add: rev_drop)
  then show "take k (rev a) = take k (rev b)" using assms(3) by metis
qed (use assms in simp_all)

text \<open>
  The notes editor sends the smallest edit. The deletion and insertion computed from the old
  and the new text turn one into the other, and no single replacement that does so deletes or
  inserts fewer code units.
\<close>

theorem notes_edit_minimal:
  assumes "notes_edit old new = (start, n, ins)"
  shows "start + n \<le> length old \<and> apply_edit (start, n, ins) old = new \<and>
    (\<forall>start' n' ins'. start' + n' \<le> length old \<and> apply_edit (start', n', ins') old = new \<longrightarrow>
       n \<le> n' \<and> length ins \<le> length ins')"
proof -
  define t where "t = agree (rev (drop start old)) (rev (drop start new))"
  have s: "start = agree old new" "n = length old - t - start" "ins = take (length new - t - start) (drop start new)"
    using assms by (auto simp: notes_edit_def Let_def t_def)
  have le: "start \<le> length old" "start \<le> length new" "t + start \<le> length old" "t + start \<le> length new"
    using agree_le [of old new] agree_le [of "rev (drop start old)" "rev (drop start new)"]
    unfolding t_def [symmetric] s(1) [symmetric] by auto
  have pre: "take start old = take start new" using agree_take by (simp add: s(1))
  have suf: "drop (length old - t) old = drop (length new - t) new"
    using agree_rev [of "drop start old" "drop start new"] le by (simp add: t_def [symmetric] algebra_simps)
  have "start + n = length old - t" using le by (simp add: s(2))
  then have "apply_edit (start, n, ins) old = take start new @ ins @ drop (length new - t) new"
    by (simp add: apply_edit_def pre suf)
  moreover have "take start new @ ins @ drop (length new - t) new = new"
  proof -
    have "drop (length new - t) new = drop (length new - t - start) (drop start new)" using le by simp
    then show ?thesis unfolding s(3) by (metis append_take_drop_id)
  qed
  ultimately have app: "apply_edit (start, n, ins) old = new" by (rule trans)
  have min: "n \<le> n' \<and> length ins \<le> length ins'" if e: "start' + n' \<le> length old" "apply_edit (start', n', ins') old = new"
    for start' n' ins'
  proof -
    define q where "q = length old - (start' + n')"
    have nx: "new = take start' old @ ins' @ drop (start' + n') old" using e(2) by (simp add: apply_edit_def)
    then have len: "length new = start' + length ins' + q" using e(1) by (simp add: q_def min_absorb2)
    have "take start' old = take start' new" using nx e(1) by simp
    then have p: "start' \<le> start" unfolding s(1) by (intro agree_max) (use e(1) len in simp_all)
    have d: "drop (length old - q) old = drop (length new - q) new"
      using nx e(1) len by (simp add: q_def)
    have kq: "k \<le> t" if k: "k \<le> q" "k \<le> length old - start" "k \<le> length new - start" for k
      unfolding t_def
    proof (rule agree_rev_max)
      have "drop (q - k) (drop (length old - q) old) = drop (q - k) (drop (length new - q) new)" by (simp only: d)
      then have "drop (length old - k) old = drop (length new - k) new"
        using k(1) len e(1) by (simp add: q_def add.commute)
      then show "drop (length (drop start old) - k) (drop start old) = drop (length (drop start new) - k) (drop start new)"
        using k le by simp
    qed (use k in simp_all)
    have "start' + q \<le> start + t"
    proof (cases "q \<le> length old - start \<and> q \<le> length new - start")
      case True
      then show ?thesis using kq [of q] p by simp
    next
      case False
      define m where "m = min (length old - start) (length new - start)"
      have "m \<le> t" by (rule kq) (use False in \<open>auto simp: m_def\<close>)
      moreover have "start' + q \<le> length old" "start' + q \<le> length new" using e(1) len by (simp_all add: q_def)
      ultimately show ?thesis using le by (auto simp: m_def)
    qed
    moreover have "n + t + start = length old" "length ins + t + start = length new" using le by (simp_all add: s(2,3))
    moreover have "q + start' + n' = length old" using e(1) by (simp add: q_def)
    ultimately show ?thesis using len by linarith
  qed
  have "start + n \<le> length old" using le by (simp add: s(2))
  then show ?thesis using app min by blast
qed

theorem notes_edit_minimal_witness:
  "notes_edit (js ''abc'') (js ''abxc'') = (2, 0, js ''x'') \<and> apply_edit (2, 0, js ''x'') (js ''abc'') = js ''abxc''"
proof -
  have e: "notes_edit (js ''abc'') (js ''abxc'') = (2, 0, js ''x'')" by (simp add: notes_edit_def)
  from notes_edit_minimal [OF e] show ?thesis using e by blast
qed

end
