(* ===== verification/Spec2Isabelle.thy ===== *)
theory Spec2Isabelle
  imports Chunk FieldFrames Ids Messages Upgrade Sessions Faults SyncStore RoundTrip YjsConvergence Worker TestEngine
    Delivery Redelivery Workspace LateTables YjsReact Demo
begin

text \<open>
  cf-sync, a local-first sync engine for Cloudflare Durable Objects.

  \<^bold>\<open>The program.\<close> A workspace is one Durable Object (packages/server/src/do.ts). It keeps the rows
  of the workspace in SQLite, applies mutations pushed by clients over WebSockets, and sends each
  client pokes: patches from the client's cursor to the current one. A client
  (packages/client/src/client.ts) keeps an outbox of mutations, shows them optimistically in its
  collections, pushes them with consecutive ids and applies pokes to its tables; the id of the
  last mutation the server applied (LMID) makes a replay exactly once. Both run the same mutators
  of an app definition (packages/protocol/src). A worker (server/src/worker.ts) routes requests to
  the object. The Yjs add-on (packages/yjs/src) runs collaborative text fields on the binary
  frames of the same socket, over the extension seam of the object and of the client.

  \<^bold>\<open>Values.\<close> JavaScript strings are lists of 16-bit words (\<open>jstr\<close>), bytes 8-bit words, plain values
  the datatype \<open>jval\<close> with \<open>undefined\<close> and the non-finite numbers, objects and Maps association
  lists in insertion order, property lookup on object literals a three-way result (own, inherited,
  absent). Ids and versions are mathematical integers: the schemas admit safe integers only.
  Fallible code returns \<open>err + 'a\<close>; an error is an \<open>AppError\<close> (permanent) or any other throw.

  \<^bold>\<open>Theories and sources.\<close>
  \<^item> Prelude, JsText: shared vocabulary; \<open>TextEncoder\<close>, \<open>JSON.stringify\<close>, \<open>JSON.parse\<close> of its
    output, byte counts (frames.ts \<open>utf8ByteLength\<close>, chunk.ts \<open>jsonByteSize\<close>).
  \<^item> Chunk, Frames: protocol/src/chunk.ts and server/src/frames.ts, packing and poke frames.
  \<^item> FieldFrames, Ids, Messages, SchemaKit, Mutators, AppDef: the files of protocol/src -
    field-frames.ts, ids.ts, messages.ts, schema.ts with standard-schema.ts, mutators.ts, app.ts.
  \<^item> RowStore, WriteSet: server/src/engine-core.ts and sql-row-store.ts - the row store interface,
    its two implementations, the write buffer of a mutation and its flush.
  \<^item> Storage, Sockets, Engine, Lifecycle, Upgrade, Admin: server/src/do.ts with storage.ts,
    config.ts and upgrade.ts. \<open>WorkspaceDO\<close> is the object's state, storage (\<open>DB\<close>) and memory; each
    handler is a function on it, its effects on the outside are appended to \<open>do_out\<close>. \<open>handle\<close> in
    Histories is the step of any entry point.
  \<^item> Catchup, EngineSpec, LifecycleSpec, Guards, Histories, Redelivery, Typing, Replicas, Sessions,
    Faults: what
    these keep and promise, below. Guards says which rows the write paths let through.
  \<^item> SyncStore, LocalWrites, Collections, CollectionSync, Workspace, Client, ClientSpec, Defaults,
    MutateTree: client/src - store.ts and idb-store.ts, local-writes.ts, collection.ts (its hook
    gate; a collection's life; \<open>createWorkspace\<close>), client.ts, defaults.ts, mutate.ts.
    \<open>Client\<close> is the state of a \<open>SyncClient\<close>; a callback the runtime runs later is a function of its
    own, and \<open>client_event\<close> the step of any of them.
  \<^item> RoundTrip, LateTables: client.ts and do.ts together, a push and the poke that answers it, and
    the catch-up of a table registered late.
  \<^item> Wire, Delivery: the message schemas of messages.ts applied to the JSON texts the other side
    sends, message by message and for the frames of a poke.
  \<^item> Base64, YjsServer, YjsServerSpec, YjsClient, YjsClientSpec, YjsConvergence, YjsReact: yjs/src/server.ts
    and client.ts, alone and together, and the hook of react.ts.
  \<^item> Uri, Worker: server/src/worker.ts with the request half of upgrade.ts.
  \<^item> Fingerprint, TestEngine: server/src/fingerprint.ts and testing.ts.
  \<^item> Demo: apps/demo/src/schema.ts, a concrete app, and the textarea diff of NotesField.tsx.

  \<^bold>\<open>Interfaces.\<close> \<open>packer\<close> (Chunk) is what both frame packers promise; \<open>row_store\<close> (RowStore) the
  contract of \<open>EngineRowStore\<close>, which the write set's lemmas rest on, interpreted by the in-memory
  and the SQLite store; \<open>sync_store\<close> (SyncStore) the client's durable storage, interpreted by the
  in-memory and the IndexedDB store; \<open>event_steps\<close> (Histories) carries any transitive relation that
  holds of the few operations that touch rows, clients and versions to every event of the object,
  interpreted by the workspace invariant with the replica relation, by typing and by the memory of
  clients; \<open>guarded_store\<close>
  (Guards) a predicate on rows that every write of a mutation establishes, interpreted by the typed
  rows of the SQLite store and the named rows of the in-memory one; \<open>wire_codec\<close> (Wire) an encoder
  and a decoder that agree on the JSON of a value, interpreted by every message type.

  \<^bold>\<open>What is shown.\<close>
  \<^item> Consistency: \<open>Replicas.replicas_consistent\<close> refines histories of events, deploys and delayed,
    lost or repeated pokes to the abstract table per cursor; \<open>RoundTrip\<close> closes the loop with the
    client's code, whose own account of a poke \<open>ClientSpec.client_takes_poke\<close> refines to the
    abstract replica.
  \<^item> Exactly once: the push loop and its atomicity (EngineSpec), a push delivered again at any later time
    without an admin reset between (Redelivery); on the client, outbox
    ids without a gap and every mutation settled once (ClientSpec).
  \<^item> Delivery: what either side sends passes the other's schema exactly when it is in range and then
    arrives as it was; so the frames of a poke are read as the messages they were made of.
  \<^item> Mutators: reads and flush of the buffer refine the overlay of its writes on the rows
    (WriteSet), and no event stores an untyped row (Typing). The optimistic run and the test engine
    agree with it (LocalWrites, TestEngine) within the checks both make, and for mutators that do
    not depend on the order of a query's rows (\<open>order_blind\<close>), which SQLite does not promise.
  \<^item> Lifecycle: storage and app migrations, wakes, compaction, log export.
  \<^item> Sockets: the close cascade ends, presence is attested, one live socket per client, the stamps
    of a socket are those of the authorize verdict, and the client's URL reaches its workspace.
  \<^item> Collections: while its sync runs a collection holds what the client told it since it was
    registered; a new workspace has all its tables attached, their syncs started unless it is told not to. A table registered later, while the
    client is not synced, stays partial (LateTables).
  \<^item> Yjs: documents follow the log, relayed means durable, refusals, compaction, convergence; the hook shows
    its own field only and leaks no handle.
  \<^item> Codecs and packing: field frames, base64, URI components, close reasons, poke packing,
    fingerprints.
  \<^item> Faults and the properties of kind error state what the code does on inputs where it departs
    from its comments.

  \<^bold>\<open>Termination and fuel.\<close> Loops are structural or have a measure. The one recursion through effects
  is the teardown of presence: a close relays a departure, a failed delivery closes another
  socket, and so on. \<open>dropPresence\<close> runs it with as much fuel as there are presence entries plus
  one; each round removes an entry, and \<open>Sockets.close_cascade_terminates\<close> shows that the result
  satisfies the program's own unbounded recursion.

  \<^bold>\<open>Parameters.\<close> Schema validators and what zod emits as JSON Schema; application code: mutators (a
  tree of their calls), authorize hooks, \<open>onCommitted\<close>, extensions; the yjs library (record \<open>Yjs\<close>,
  with the laws \<open>yjs_restores\<close> and \<open>yjs_merges\<close> as hypotheses, both witnessed); SQLite's \<open>json_quote\<close>
  and its visiting order without \<open>ORDER BY\<close> (\<open>plan\<close>); when the runtime refuses to send
  (\<open>sk_quota\<close>); clocks and random values (\<open>Env\<close>, \<open>ClientEnv\<close>); what a collection shows.

  \<^bold>\<open>Not modelled.\<close> The hooks of client/src/react.ts, the demo's user interface with its session
  and offline switches, and the re-exporting entry points have no engine logic. TanStack DB's
  collections and React are libraries: the adapter's calls and the effects of \<open>useYjsField\<close> are
  modelled, optimistic rendering and the schedule of renders are not. Listener sets that only notify the application, log lines,
  Sentry spans and the texts of errors nobody reads are left out. Opening and closing the
  IndexedDB database and its blocked or version-change events are I/O; its operations are modelled
  by their final effect, in call order.
\<close>

end
